(* ===== verification/Prelude.thy ===== *)
theory Prelude
  imports
    "HOL-Library.Word"
    "HOL-Library.Char_ord"
    "HOL-Library.List_Lexorder"
    "HOL-Library.Sublist"
    "HOL-Library.Monad_Syntax"
begin

text \<open>
  Shared material of the development: the names of the machine integer types, the ordered
  associative container that stands for \<open>std::map\<close>, and the generic facts on options and
  lists that several components use.

  A partial operation of the C++ code (a dereferenced \<open>end()\<close> iterator, a failed
  \<open>assert\<close>) is a computation in the option monad throughout: \<^term>\<open>None\<close> stands for
  undefined behaviour, so that a theorem of the form \<open>\<exists>r. op s = Some r\<close> states that the
  operation is well defined.
\<close>

section \<open>Machine integers\<close>

type_synonym u8 = "8 word"
type_synonym u16 = "16 word"
type_synonym u32 = "32 word"
type_synonym u64 = "64 word"

text \<open>Collections: the equations that run a container, and the laws its clients use.\<close>

named_theorems smap_ops
named_theorems smap_laws

section \<open>Options\<close>

lemma bind_eq_SomeI:
  "x = Some y \<Longrightarrow> f y = Some z \<Longrightarrow> Option.bind x f = Some z"
  by simp

definition is_some :: "'a option \<Rightarrow> bool" where
  "is_some x = (x \<noteq> None)"

lemma is_some_simps [simp]:
  "is_some (Some x)"
  "\<not> is_some None"
  by (simp_all add: is_some_def)

lemma is_some_iff: "is_some x \<longleftrightarrow> (\<exists>y. x = Some y)"
  by (cases x) auto

section \<open>The ordered map\<close>

text \<open>
  \<open>std::map<K, V>\<close> is an association list in strictly ascending key order, which is the
  order in which the C++ container iterates. \<open>smap_put\<close> is \<open>m[k] = v\<close>, \<open>smap_del\<close>
  is \<open>erase(key)\<close>, the library function \<^const>\<open>map_of\<close> is \<open>find\<close>.
\<close>

type_synonym ('k, 'v) smap = "('k \<times> 'v) list"

definition smap_wf :: "('k::linorder, 'v) smap \<Rightarrow> bool" where
  "smap_wf m = sorted_wrt (<) (map fst m)"

primrec smap_update :: "'k \<Rightarrow> 'v \<Rightarrow> ('k, 'v) smap \<Rightarrow> ('k, 'v) smap" where
  "smap_update k v [] = []"
| "smap_update k v (e # m) = (if fst e = k then (k, v) # m else e # smap_update k v m)"

primrec smap_insert :: "'k::linorder \<Rightarrow> 'v \<Rightarrow> ('k, 'v) smap \<Rightarrow> ('k, 'v) smap" where
  "smap_insert k v [] = [(k, v)]"
| "smap_insert k v (e # m) = (if fst e < k then e # smap_insert k v m else (k, v) # e # m)"

definition smap_put :: "'k::linorder \<Rightarrow> 'v \<Rightarrow> ('k, 'v) smap \<Rightarrow> ('k, 'v) smap" where
  "smap_put k v m = (if map_of m k = None then smap_insert k v m else smap_update k v m)"

definition smap_del :: "'k \<Rightarrow> ('k, 'v) smap \<Rightarrow> ('k, 'v) smap" where
  "smap_del k m = filter (\<lambda>e. fst e \<noteq> k) m"

lemma smap_wf_Nil [simp]: "smap_wf []"
  by (simp add: smap_wf_def)

lemma smap_wf_distinct: "smap_wf m \<Longrightarrow> distinct (map fst m)"
  by (auto simp: smap_wf_def distinct_conv_nth sorted_wrt_iff_nth_less
      dest: less_imp_neq) (metis less_irrefl linorder_neqE_nat)

lemma map_of_smap_update:
  "map_of (smap_update k v m) =
     (if map_of m k = None then map_of m else (map_of m)(k \<mapsto> v))"
  by (induction m) (auto simp: fun_eq_iff)

lemma map_of_smap_insert:
  "map_of m k = None \<Longrightarrow> map_of (smap_insert k v m) = (map_of m)(k \<mapsto> v)"
  by (induction m) (auto simp: fun_eq_iff split: if_splits)

lemma map_of_smap_put [simp, smap_laws]:
  "map_of (smap_put k v m) = (map_of m)(k \<mapsto> v)"
  by (simp add: smap_put_def map_of_smap_update map_of_smap_insert)

lemma map_of_smap_del [simp, smap_laws]:
  "map_of (smap_del k m) = (map_of m)(k := None)"
  by (induction m) (auto simp: smap_del_def fun_eq_iff)

lemma keys_smap_update: "map fst (smap_update k v m) = map fst m"
  by (induction m) auto

lemma keys_smap_insert: "fst ` set (smap_insert k v m) = insert k (fst ` set m)"
  by (induction m) auto

lemma smap_wf_insert:
  "smap_wf m \<Longrightarrow> k \<notin> fst ` set m \<Longrightarrow> smap_wf (smap_insert k v m)"
proof (induction m)
  case Nil
  then show ?case by (simp add: smap_wf_def)
next
  case (Cons e m)
  then have wf: "smap_wf m" and hd: "\<forall>x \<in> fst ` set m. fst e < x"
    by (auto simp: smap_wf_def)
  show ?case
  proof (cases "fst e < k")
    case True
    then have "\<forall>x \<in> fst ` set (smap_insert k v m). fst e < x"
      using hd by (simp add: keys_smap_insert)
    then show ?thesis
      using Cons wf True by (auto simp: smap_wf_def)
  next
    case False
    then have "k < fst e" using Cons.prems(2) by auto
    then show ?thesis
      using wf hd False by (auto simp: smap_wf_def)
  qed
qed

lemma smap_wf_put [simp, intro]: "smap_wf m \<Longrightarrow> smap_wf (smap_put k v m)"
  by (auto simp: smap_put_def map_of_eq_None_iff smap_wf_insert)
     (simp add: smap_wf_def keys_smap_update)

lemma smap_wf_del [simp, intro]: "smap_wf m \<Longrightarrow> smap_wf (smap_del k m)"
  by (simp add: smap_wf_def smap_del_def sorted_wrt_filter sorted_wrt_map)

lemma length_smap_del_less:
  "map_of m k = Some v \<Longrightarrow> length (smap_del k m) < length m"
  unfolding smap_del_def
  by (rule length_filter_less [of "(k, v)"]) (auto dest: map_of_SomeD)

lemma length_smap_put_present:
  "map_of m k = Some w \<Longrightarrow> length (smap_put k v m) = length m"
  by (simp add: smap_put_def) (metis keys_smap_update length_map)

lemma length_eq_card_dom: "smap_wf m \<Longrightarrow> length m = card (dom (map_of m))"
  by (metis smap_wf_distinct distinct_card length_map set_map dom_map_of_conv_image_fst)

lemma dom_smap_finite [simp]: "finite (dom (map_of m))"
  by (rule finite_dom_map_of)

text \<open>\<open>m[k]\<close> as an lvalue: the element is created with a default value when it is missing.\<close>

definition smap_touch :: "'k::linorder \<Rightarrow> 'v \<Rightarrow> ('k, 'v) smap \<Rightarrow> ('k, 'v) smap" where
  "smap_touch k d m = (if map_of m k = None then smap_put k d m else m)"

lemma map_of_smap_touch [simp, smap_laws]:
  "map_of (smap_touch k d m) = (if map_of m k = None then (map_of m)(k \<mapsto> d) else map_of m)"
  by (simp add: smap_touch_def)

lemma smap_wf_touch [simp, intro]: "smap_wf m \<Longrightarrow> smap_wf (smap_touch k d m)"
  by (simp add: smap_touch_def)

lemmas smap_run [smap_ops] = smap_put_def smap_insert.simps smap_update.simps smap_del_def map_of.simps filter.simps

section \<open>Lists\<close>

lemma split_list_at_fst:
  "map_of xs k = Some v \<Longrightarrow>
   \<exists>ys zs. xs = ys @ (k, v) # zs \<and> k \<notin> fst ` set ys"
proof (induction xs)
  case Nil
  then show ?case by simp
next
  case (Cons x xs)
  show ?case
  proof (cases "fst x = k")
    case True
    then have "x # xs = [] @ (k, v) # xs" using Cons.prems by (cases x) auto
    then show ?thesis by fastforce
  next
    case False
    then obtain ys zs where "xs = ys @ (k, v) # zs" "k \<notin> fst ` set ys"
      using Cons by (cases x) auto
    then have "x # xs = (x # ys) @ (k, v) # zs \<and> k \<notin> fst ` set (x # ys)"
      using False by auto
    then show ?thesis by blast
  qed
qed

lemma filter_fst_neq_split:
  "distinct (map fst (ys @ (k, v) # zs)) \<Longrightarrow>
   filter (\<lambda>e. fst e \<noteq> k) (ys @ (k, v) # zs) = ys @ zs"
proof -
  assume *: "distinct (map fst (ys @ (k, v) # zs))"
  have "filter (\<lambda>e. fst e \<noteq> k) ys = ys" "filter (\<lambda>e. fst e \<noteq> k) zs = zs"
    using * by (auto simp: filter_id_conv)
  then show ?thesis by simp
qed

text \<open>Filtering on keys restricts the lookup.\<close>

lemma map_of_filter_fst [smap_laws]:
  "map_of (filter (\<lambda>x. P (fst x)) xs) = map_of xs |` {k. P k}"
  by (induction xs) (auto simp: restrict_map_def fun_eq_iff)

lemma restrict_map_le [simp]: "m |` A \<subseteq>\<^sub>m m"
  by (simp add: map_le_def)

lemma map_le_append: "map_of xs \<subseteq>\<^sub>m map_of (xs @ ys)"
  by (auto simp: map_le_def map_add_def)

section \<open>Runs and simulations\<close>

text \<open>
  A component with a partial step function is run over a list of operations; the run collects
  the results. The locale is the contract between such a component and its specification: from
  related states, every operation is defined, returns what the specification returns, and leads
  to related states. It is proved once that runs inherit this.
\<close>

fun run_steps :: "('s \<Rightarrow> 'o \<Rightarrow> ('s \<times> 'r) option) \<Rightarrow> 's \<Rightarrow> 'o list \<Rightarrow> ('s \<times> 'r list) option" where
  "run_steps step s [] = Some (s, [])"
| "run_steps step s (c # cs) = do {
     (s1, r) \<leftarrow> step s c;
     (s2, rs) \<leftarrow> run_steps step s1 cs;
     Some (s2, r # rs) }"

fun run_spec :: "('a \<Rightarrow> 'o \<Rightarrow> 'a \<times> 'r) \<Rightarrow> 'a \<Rightarrow> 'o list \<Rightarrow> 'a \<times> 'r list" where
  "run_spec step a [] = (a, [])"
| "run_spec step a (c # cs) =
     (let (a1, r) = step a c; (a2, rs) = run_spec step a1 cs in (a2, r # rs))"

locale simulation =
  fixes step :: "'s \<Rightarrow> 'o \<Rightarrow> ('s \<times> 'r) option"
    and spec :: "'a \<Rightarrow> 'o \<Rightarrow> 'a \<times> 'r"
    and rel :: "'s \<Rightarrow> 'a \<Rightarrow> bool"
  assumes simulates:
    "rel s a \<Longrightarrow> \<exists>s'. step s c = Some (s', snd (spec a c)) \<and> rel s' (fst (spec a c))"
begin

lemma run_simulates:
  "rel s a \<Longrightarrow>
   \<exists>s'. run_steps step s cs = Some (s', snd (run_spec spec a cs)) \<and>
        rel s' (fst (run_spec spec a cs))"
proof (induction cs arbitrary: s a)
  case Nil
  then show ?case by simp
next
  case (Cons c cs)
  then obtain s1 where s1: "step s c = Some (s1, snd (spec a c))" "rel s1 (fst (spec a c))"
    using simulates by blast
  then obtain s2 where
    "run_steps step s1 cs = Some (s2, snd (run_spec spec (fst (spec a c)) cs))"
    "rel s2 (fst (run_spec spec (fst (spec a c)) cs))"
    using Cons.IH by blast
  then show ?case using s1 by (auto simp: case_prod_beta)
qed

end

section \<open>Lossy caches\<close>

text \<open>
  What a client of a cache may rely on: the cache may forget an entry at any time, but what it
  answers for a key is the value that the operations so far last gave to that key. \<open>effect\<close> is
  what an operation does to the map of values that were written, \<open>view\<close> is what the cache still
  holds.
\<close>

locale lossy_cache =
  fixes step :: "'s \<Rightarrow> 'o \<Rightarrow> ('s \<times> 'v option) option"
    and view :: "'s \<Rightarrow> 'k \<Rightarrow> 'v option"
    and inv :: "'s \<Rightarrow> bool"
    and effect :: "'o \<Rightarrow> ('k \<rightharpoonup> 'v) \<Rightarrow> ('k \<rightharpoonup> 'v)"
    and asks :: "'o \<Rightarrow> 'k option"
  assumes step_inv: "inv s \<Longrightarrow> step s c = Some (s', r) \<Longrightarrow> inv s'"
    and step_view: "inv s \<Longrightarrow> step s c = Some (s', r) \<Longrightarrow> view s' \<subseteq>\<^sub>m effect c (view s)"
    and step_answer: "inv s \<Longrightarrow> step s c = Some (s', Some v) \<Longrightarrow>
                      \<exists>k. asks c = Some k \<and> view s k = Some v"
    and effect_mono: "m \<subseteq>\<^sub>m m' \<Longrightarrow> effect c m \<subseteq>\<^sub>m effect c m'"
begin

lemma run_inv: "inv s \<Longrightarrow> run_steps step s cs = Some (s', rs) \<Longrightarrow> inv s'"
proof (induction cs arbitrary: s rs)
  case Nil
  then show ?case by simp
next
  case (Cons c cs)
  then show ?case by (auto simp: Option.bind_eq_Some_conv intro: step_inv)
qed

lemma run_view:
  "inv s \<Longrightarrow> view s \<subseteq>\<^sub>m A \<Longrightarrow> run_steps step s cs = Some (s', rs) \<Longrightarrow> view s' \<subseteq>\<^sub>m fold effect cs A"
proof (induction cs arbitrary: s A rs)
  case Nil
  then show ?case by simp
next
  case (Cons c cs)
  then obtain s1 r rs' where s1: "step s c = Some (s1, r)" "run_steps step s1 cs = Some (s', rs')"
    by (auto simp: Option.bind_eq_Some_conv)
  have "view s1 \<subseteq>\<^sub>m effect c A"
    using step_view [OF Cons.prems(1) s1(1)] effect_mono [OF Cons.prems(2)] map_le_trans by blast
  then show ?case using Cons.IH [OF step_inv [OF Cons.prems(1) s1(1)] _ s1(2)] by simp
qed

text \<open>Every answer of a run is the value last written to the key asked for.\<close>

lemma run_answers:
  "inv s \<Longrightarrow> view s \<subseteq>\<^sub>m A \<Longrightarrow> run_steps step s cs = Some (s', rs) \<Longrightarrow> i < length cs \<Longrightarrow>
   rs ! i = Some v \<Longrightarrow> \<exists>k. asks (cs ! i) = Some k \<and> fold effect (take i cs) A k = Some v"
proof (induction cs arbitrary: s A rs i)
  case Nil
  then show ?case by simp
next
  case (Cons c cs)
  then obtain s1 r rs' where s1: "step s c = Some (s1, r)" "run_steps step s1 cs = Some (s', rs')"
    and rs: "rs = r # rs'"
    by (auto simp: Option.bind_eq_Some_conv)
  show ?case
  proof (cases i)
    case 0
    then obtain k where "asks c = Some k" "view s k = Some v"
      using step_answer [OF Cons.prems(1), of c s1 v] s1(1) rs Cons.prems(5) by auto
    then have "A k = Some v" using Cons.prems(2) by (metis domI map_le_def)
    then show ?thesis using 0 \<open>asks c = Some k\<close> by simp
  next
    case (Suc j)
    have "view s1 \<subseteq>\<^sub>m effect c A"
      using step_view [OF Cons.prems(1) s1(1)] effect_mono [OF Cons.prems(2)] map_le_trans by blast
    then show ?thesis
      using Cons.IH [OF step_inv [OF Cons.prems(1) s1(1)] _ s1(2), of "effect c A" j]
        Cons.prems(4,5) Suc rs by auto
  qed
qed

end

end
