(* ===== verification/Decimal.thy ===== *)
theory Decimal
  imports Prelude
begin

text \<open>
  Decimal numbers as the C++ standard library writes and reads them: \<open>std::to_string\<close>, \<open>std::stol\<close> and
  the character classes behind them.
\<close>

text \<open>\<open>std::dec\<close> output and \<open>std::to_string\<close> of an unsigned integer.\<close>

fun decimal :: "nat \<Rightarrow> string" where
  "decimal n = (if n < 10 then [char_of (48 + n)] else decimal (n div 10) @ [char_of (48 + n mod 10)])"

declare decimal.simps [simp del]

definition is_digit :: "char \<Rightarrow> bool" where
  "is_digit c \<longleftrightarrow> 48 \<le> (of_char c :: nat) \<and> (of_char c :: nat) \<le> 57"

definition is_space :: "char \<Rightarrow> bool" where
  "is_space c \<longleftrightarrow> (of_char c :: nat) = 32 \<or> (9 \<le> (of_char c :: nat) \<and> (of_char c :: nat) \<le> 13)"

definition digits_value :: "string \<Rightarrow> nat" where
  "digits_value s = foldl (\<lambda>n c. 10 * n + (of_char c - 48)) 0 s"

text \<open>\<open>std::to_string\<close> of a signed integer.\<close>

definition int_to_string :: "int \<Rightarrow> string" where
  "int_to_string i = (if i < 0 then ''-'' @ decimal (nat (- i)) else decimal (nat i))"

text \<open>
  \<open>std::stol\<close>: leading space, a sign, digits up to the first other character. \<^term>\<open>None\<close> is its
  exception, without digits or out of the range of 64 bits.
\<close>

definition stol :: "string \<Rightarrow> int option" where
  "stol s =
     (let s = dropWhile is_space s;
          negative = (s \<noteq> [] \<and> hd s = CHR ''-'');
          s = (if s \<noteq> [] \<and> (hd s = CHR ''-'' \<or> hd s = CHR ''+'') then tl s else s);
          ds = takeWhile is_digit s;
          n = (if negative then - int (digits_value ds) else int (digits_value ds))
      in if ds = [] \<or> n < - (2 ^ 63) \<or> 2 ^ 63 - 1 < n then None else Some n)"

section \<open>Round trips\<close>

lemma digits_value_append: "digits_value (s @ [c]) = 10 * digits_value s + (of_char c - 48)"
  by (simp add: digits_value_def)

lemma decimal_digits: "list_all is_digit (decimal n)"
proof (induction n rule: decimal.induct)
  case (1 n)
  show ?case
    using 1 by (subst decimal.simps) (auto simp: is_digit_def [of "char_of _"])
qed

lemma decimal_neq_Nil: "decimal n \<noteq> []"
  by (subst decimal.simps) simp

lemma digits_value_decimal: "digits_value (decimal n) = n"
proof (induction n rule: decimal.induct)
  case (1 n)
  show ?case
    by (subst decimal.simps) (use 1 in \<open>auto simp: digits_value_append digits_value_def\<close>)
qed

lemma digit_not_sign: "is_digit c \<Longrightarrow> \<not> is_space c \<and> c \<noteq> CHR ''-'' \<and> c \<noteq> CHR ''+''"
  by (auto simp: is_digit_def is_space_def)

lemma stol_int_to_string:
  assumes "- (2 ^ 63) \<le> i" "i \<le> 2 ^ 63 - 1"
  shows "stol (int_to_string i) = Some i"
proof -
  have t: "takeWhile is_digit (decimal n) = decimal n" for n
    using decimal_digits [of n] by (simp add: list_all_iff takeWhile_eq_all_conv)
  have h: "is_digit (hd (decimal n))" for n
    using decimal_digits [of n] decimal_neq_Nil [of n] by (cases "decimal n") auto
  have d: "dropWhile is_space (decimal n) = decimal n" for n
    using digit_not_sign [OF h [of n]] decimal_neq_Nil [of n] by (cases "decimal n") auto
  have m: "dropWhile is_space (CHR ''-'' # s) = CHR ''-'' # s" for s
    by (simp add: is_space_def)
  show ?thesis
  proof (cases "i < 0")
    case True
    have "\<not> is_space CHR ''-''" "nat (- i) \<le> 9223372036854775808"
      using assms by (simp_all add: is_space_def)
    with True show ?thesis using assms
      by (simp add: int_to_string_def stol_def m t decimal_neq_Nil digits_value_decimal Let_def)
  next
    case False
    then show ?thesis using assms digit_not_sign [OF h [of "nat i"]]
      by (simp add: int_to_string_def stol_def d t decimal_neq_Nil digits_value_decimal Let_def)
  qed
qed

end
