(* ===== verification/TileKey.thy ===== *)
theory TileKey
  imports Decimal "HOL-Library.Log_Nat" "HOL-Library.Product_Lexorder"
begin

unbundle bit_operations_syntax

text \<open>
  Tile keys of the quad tree, \<open>olp/core/geo/tiling/TileKey.h\<close> and \<open>src/geo/tiling/TileKey.cpp\<close>:
  a row, a column and a level, all 32 bits wide, with the Morton code (64 bit quad key), the
  quad string and the HERE tile string as external forms.

  A shift by the width of its operand or more is undefined in C++; the model's \<^const>\<open>push_bit\<close>
  gives 0 there. The code reaches such a shift only for keys that are not valid, and the theorems
  on shifted values assume validity.
\<close>

section \<open>State\<close>

record tile_key =
  row :: u32
  column :: u32
  level :: u32

abbreviation (input) LevelCount :: u32 where
  "LevelCount \<equiv> 32"

definition invalid_key :: tile_key where
  "invalid_key = \<lparr>row = 0, column = 0, level = LevelCount\<rparr>"

definition from_row_column_level :: "u32 \<Rightarrow> u32 \<Rightarrow> u32 \<Rightarrow> tile_key" where
  "from_row_column_level r c l = \<lparr>row = r, column = c, level = l\<rparr>"

definition row_count :: "tile_key \<Rightarrow> u32" where
  "row_count t = push_bit (unat (level t)) 1"

definition is_valid :: "tile_key \<Rightarrow> bool" where
  "is_valid t \<longleftrightarrow>
     level t < LevelCount \<and> row t < push_bit (unat (level t)) 1 \<and>
     column t < push_bit (unat (level t)) 1"

section \<open>Morton codes\<close>

definition MortonTable256 :: "u64 list" where
  "MortonTable256 = [
     0x0000, 0x0001, 0x0004, 0x0005, 0x0010, 0x0011, 0x0014, 0x0015, 0x0040, 0x0041, 0x0044, 0x0045,
     0x0050, 0x0051, 0x0054, 0x0055, 0x0100, 0x0101, 0x0104, 0x0105, 0x0110, 0x0111, 0x0114, 0x0115,
     0x0140, 0x0141, 0x0144, 0x0145, 0x0150, 0x0151, 0x0154, 0x0155, 0x0400, 0x0401, 0x0404, 0x0405,
     0x0410, 0x0411, 0x0414, 0x0415, 0x0440, 0x0441, 0x0444, 0x0445, 0x0450, 0x0451, 0x0454, 0x0455,
     0x0500, 0x0501, 0x0504, 0x0505, 0x0510, 0x0511, 0x0514, 0x0515, 0x0540, 0x0541, 0x0544, 0x0545,
     0x0550, 0x0551, 0x0554, 0x0555, 0x1000, 0x1001, 0x1004, 0x1005, 0x1010, 0x1011, 0x1014, 0x1015,
     0x1040, 0x1041, 0x1044, 0x1045, 0x1050, 0x1051, 0x1054, 0x1055, 0x1100, 0x1101, 0x1104, 0x1105,
     0x1110, 0x1111, 0x1114, 0x1115, 0x1140, 0x1141, 0x1144, 0x1145, 0x1150, 0x1151, 0x1154, 0x1155,
     0x1400, 0x1401, 0x1404, 0x1405, 0x1410, 0x1411, 0x1414, 0x1415, 0x1440, 0x1441, 0x1444, 0x1445,
     0x1450, 0x1451, 0x1454, 0x1455, 0x1500, 0x1501, 0x1504, 0x1505, 0x1510, 0x1511, 0x1514, 0x1515,
     0x1540, 0x1541, 0x1544, 0x1545, 0x1550, 0x1551, 0x1554, 0x1555, 0x4000, 0x4001, 0x4004, 0x4005,
     0x4010, 0x4011, 0x4014, 0x4015, 0x4040, 0x4041, 0x4044, 0x4045, 0x4050, 0x4051, 0x4054, 0x4055,
     0x4100, 0x4101, 0x4104, 0x4105, 0x4110, 0x4111, 0x4114, 0x4115, 0x4140, 0x4141, 0x4144, 0x4145,
     0x4150, 0x4151, 0x4154, 0x4155, 0x4400, 0x4401, 0x4404, 0x4405, 0x4410, 0x4411, 0x4414, 0x4415,
     0x4440, 0x4441, 0x4444, 0x4445, 0x4450, 0x4451, 0x4454, 0x4455, 0x4500, 0x4501, 0x4504, 0x4505,
     0x4510, 0x4511, 0x4514, 0x4515, 0x4540, 0x4541, 0x4544, 0x4545, 0x4550, 0x4551, 0x4554, 0x4555,
     0x5000, 0x5001, 0x5004, 0x5005, 0x5010, 0x5011, 0x5014, 0x5015, 0x5040, 0x5041, 0x5044, 0x5045,
     0x5050, 0x5051, 0x5054, 0x5055, 0x5100, 0x5101, 0x5104, 0x5105, 0x5110, 0x5111, 0x5114, 0x5115,
     0x5140, 0x5141, 0x5144, 0x5145, 0x5150, 0x5151, 0x5154, 0x5155, 0x5400, 0x5401, 0x5404, 0x5405,
     0x5410, 0x5411, 0x5414, 0x5415, 0x5440, 0x5441, 0x5444, 0x5445, 0x5450, 0x5451, 0x5454, 0x5455,
     0x5500, 0x5501, 0x5504, 0x5505, 0x5510, 0x5511, 0x5514, 0x5515, 0x5540, 0x5541, 0x5544, 0x5545,
     0x5550, 0x5551, 0x5554, 0x5555]"

definition to_quad_key64 :: "tile_key \<Rightarrow> u64" where
  "to_quad_key64 t =
     push_bit (2 * unat (level t)) 1 OR
     push_bit 49 (MortonTable256 ! unat (drop_bit 24 (row t) AND 0xFF)) OR
     push_bit 33 (MortonTable256 ! unat (drop_bit 16 (row t) AND 0xFF)) OR
     push_bit 17 (MortonTable256 ! unat (drop_bit 8 (row t) AND 0xFF)) OR
     push_bit 1 (MortonTable256 ! unat (row t AND 0xFF)) OR
     push_bit 48 (MortonTable256 ! unat (drop_bit 24 (column t) AND 0xFF)) OR
     push_bit 32 (MortonTable256 ! unat (drop_bit 16 (column t) AND 0xFF)) OR
     push_bit 16 (MortonTable256 ! unat (drop_bit 8 (column t) AND 0xFF)) OR
     MortonTable256 ! unat (column t AND 0xFF)"

lemma drop_bit_2_less: "1 < (q :: u64) \<Longrightarrow> unat (drop_bit 2 q) < unat q"
  by (simp add: drop_bit_eq_div word_less_nat_alt unat_div div_less_dividend)

function quad_key64_loop :: "u64 \<Rightarrow> tile_key \<Rightarrow> tile_key" where
  "quad_key64_loop quad_key result =
     (if 1 < quad_key
      then (let mask = push_bit (unat (level result)) 1;
                result = (if quad_key AND 1 \<noteq> 0 then result\<lparr>column := column result OR mask\<rparr> else result);
                result = (if quad_key AND 2 \<noteq> 0 then result\<lparr>row := row result OR mask\<rparr> else result);
                result = result\<lparr>level := level result + 1\<rparr>
            in quad_key64_loop (drop_bit 2 quad_key) result)
      else result)"
  by pat_completeness auto
termination
  by (relation "measure (\<lambda>(q, _). unat q)") (auto simp: drop_bit_2_less)

declare quad_key64_loop.simps [simp del]

definition from_quad_key64 :: "u64 \<Rightarrow> tile_key" where
  "from_quad_key64 quad_key = quad_key64_loop quad_key (from_row_column_level 0 0 0)"

section \<open>Quad strings and HERE tiles\<close>

definition to_quad_key :: "tile_key \<Rightarrow> string" where
  "to_quad_key t =
     (if \<not> is_valid t then []
      else if level t = 0 then ''-''
      else (let morton_key = to_quad_key64 t; n = unat (level t) in
            fold (\<lambda>i key. key[n - i - 1 :=
                    char_of (unat (morton_key div push_bit (2 * i) 1 mod 4) + 48)])
              [0..<n] (replicate n (char_of (0 :: nat)))))"

text \<open>Only the two low bits of the difference to \<open>'0'\<close> are looked at.\<close>

definition from_quad_key :: "string \<Rightarrow> tile_key" where
  "from_quad_key s =
     (if s = [] then invalid_key
      else if s = ''-'' then from_row_column_level 0 0 0
      else (let n = length s in
            fold (\<lambda>i result.
                    let mask = push_bit i 1;
                        d = (of_char (s ! (n - i - 1)) :: int) - 48;
                        result = (if d AND 1 \<noteq> 0 then result\<lparr>column := column result OR mask\<rparr> else result)
                    in if d AND 2 \<noteq> 0 then result\<lparr>row := row result OR mask\<rparr> else result)
              [0..<n] ((from_row_column_level 0 0 0)\<lparr>level := of_nat n\<rparr>)))"

text \<open>\<open>strtoull\<close> in base 10.\<close>

definition strtoull :: "string \<Rightarrow> u64" where
  "strtoull s =
     (let s = dropWhile is_space s;
          negative = (s \<noteq> [] \<and> hd s = CHR ''-'');
          s = (if s \<noteq> [] \<and> (hd s = CHR ''-'' \<or> hd s = CHR ''+'') then tl s else s);
          n = digits_value (takeWhile is_digit s)
      in if 2 ^ 64 \<le> n then 2 ^ 64 - 1
         else if negative then - of_nat n else of_nat n)"

definition to_here_tile :: "tile_key \<Rightarrow> string" where
  "to_here_tile t = decimal (unat (to_quad_key64 t))"

definition from_here_tile :: "string \<Rightarrow> tile_key" where
  "from_here_tile key = (if key = [] then invalid_key else from_quad_key64 (strtoull key))"

section \<open>Navigation\<close>

definition parent :: "tile_key \<Rightarrow> tile_key" where
  "parent t =
     (if 0 < level t
      then from_row_column_level (drop_bit 1 (row t)) (drop_bit 1 (column t)) (level t - 1)
      else invalid_key)"

definition changed_level_by :: "int \<Rightarrow> tile_key \<Rightarrow> tile_key" where
  "changed_level_by delta t =
     (if delta = 0 then t
      else (let lvl = sint (level t + word_of_int delta);
                lvl = (if lvl < 0 then 0 else lvl);
                result = t\<lparr>level := word_of_int lvl\<rparr>
            in if 0 \<le> delta
               then result\<lparr>row := push_bit (nat delta) (row t), column := push_bit (nat delta) (column t)\<rparr>
               else result\<lparr>row := drop_bit (nat (- delta)) (row t), column := drop_bit (nat (- delta)) (column t)\<rparr>))"

definition changed_level_to :: "u32 \<Rightarrow> tile_key \<Rightarrow> tile_key" where
  "changed_level_to l t = changed_level_by (sint (l - level t)) t"

definition is_child_of :: "tile_key \<Rightarrow> tile_key \<Rightarrow> bool" where
  "is_child_of t tile_key =
     (if level t \<le> level tile_key then False
      else changed_level_to (level tile_key) t = tile_key)"

definition is_parent_of :: "tile_key \<Rightarrow> tile_key \<Rightarrow> bool" where
  "is_parent_of t tile_key = is_child_of tile_key t"

definition has_next_row :: "tile_key \<Rightarrow> bool" where
  "has_next_row t \<longleftrightarrow> row t < push_bit (unat (level t)) 1 - 1"

definition next_row :: "tile_key \<Rightarrow> tile_key" where
  "next_row t = from_row_column_level (row t + 1) (column t) (level t)"

definition has_next_column :: "tile_key \<Rightarrow> bool" where
  "has_next_column t \<longleftrightarrow> column t < push_bit (unat (level t)) 1 - 1"

definition next_column :: "tile_key \<Rightarrow> tile_key" where
  "next_column t = from_row_column_level (row t) (column t + 1) (level t)"

definition has_previous_row :: "tile_key \<Rightarrow> bool" where
  "has_previous_row t \<longleftrightarrow> 0 < row t"

definition previous_row :: "tile_key \<Rightarrow> tile_key" where
  "previous_row t = from_row_column_level (row t - 1) (column t) (level t)"

definition has_previous_column :: "tile_key \<Rightarrow> bool" where
  "has_previous_column t \<longleftrightarrow> 0 < column t"

definition previous_column :: "tile_key \<Rightarrow> tile_key" where
  "previous_column t = from_row_column_level (row t) (column t - 1) (level t)"

definition get_child :: "u8 \<Rightarrow> tile_key \<Rightarrow> tile_key" where
  "get_child index t =
     (let result = changed_level_by 1 t in
      result\<lparr>column := column result OR ucast (index AND 1), row := row result OR ucast (drop_bit 1 index)\<rparr>)"

datatype tile_key_quadrant = SW | SE | NW | NE | InvalidQuadrant

definition quadrant_index :: "tile_key_quadrant \<Rightarrow> u8" where
  "quadrant_index q = (case q of SW \<Rightarrow> 0 | SE \<Rightarrow> 1 | NW \<Rightarrow> 2 | NE \<Rightarrow> 3 | InvalidQuadrant \<Rightarrow> 4)"

definition quadrant_of :: "u32 \<Rightarrow> tile_key_quadrant" where
  "quadrant_of n =
     (if n = 0 then SW else if n = 1 then SE else if n = 2 then NW
      else if n = 3 then NE else InvalidQuadrant)"

definition relationship_to_parent :: "tile_key \<Rightarrow> tile_key_quadrant" where
  "relationship_to_parent t =
     (if level t = 0 then InvalidQuadrant
      else (let swTile = get_child 0 (parent t)
            in quadrant_of ((row t - row swTile) * 2 + column t - column swTile)))"

section \<open>Sub keys\<close>

definition helper_parent :: "u64 \<Rightarrow> u64" where
  "helper_parent key = drop_bit 2 key"

definition helper_child :: "u64 \<Rightarrow> u64" where
  "helper_child key = push_bit 2 key"

definition helper_get_subkey :: "nat \<Rightarrow> u64 \<Rightarrow> u64" where
  "helper_get_subkey delta key =
     (let msb = push_bit (delta * 2) 1; mask = msb - 1 in (key AND mask) OR msb)"

text \<open>
  The loop of \<open>QuadKey64Helper::AddedSubkey\<close> moves the mask up to the marker bit of the sub key.
  The shift of the mask can drop its bit, after which the loop does not end: the fuel is the number
  of bit pairs of a word, and \<^term>\<open>None\<close> stands for the endless loop.
\<close>

fun added_subkey_loop :: "nat \<Rightarrow> u64 \<Rightarrow> u64 \<Rightarrow> u64 \<Rightarrow> (u64 \<times> u64) option" where
  "added_subkey_loop n sub_quad msk res =
     (if push_bit 2 msk \<le> sub_quad
      then (case n of 0 \<Rightarrow> None
            | Suc m \<Rightarrow> added_subkey_loop m sub_quad (push_bit 2 msk) (push_bit 2 res))
      else Some (msk, res))"

declare added_subkey_loop.simps [simp del]

definition helper_added_subkey :: "u64 \<Rightarrow> u64 \<Rightarrow> u64 option" where
  "helper_added_subkey key sub_quad =
     map_option (\<lambda>(msk, res). res OR (sub_quad AND (msk - 1))) (added_subkey_loop 32 sub_quad 1 key)"

definition get_subkey64 :: "nat \<Rightarrow> tile_key \<Rightarrow> u64" where
  "get_subkey64 delta t = helper_get_subkey delta (to_quad_key64 t)"

definition added_subkey64 :: "u64 \<Rightarrow> tile_key \<Rightarrow> tile_key option" where
  "added_subkey64 sub t = map_option from_quad_key64 (helper_added_subkey (to_quad_key64 t) sub)"

definition add_sub_tile :: "tile_key \<Rightarrow> tile_key \<Rightarrow> tile_key" where
  "add_sub_tile sub t =
     (let child = changed_level_by (sint (level sub)) t
      in from_row_column_level (row child + row sub) (column child + column sub) (level child))"

definition added_subkey :: "string \<Rightarrow> tile_key \<Rightarrow> tile_key" where
  "added_subkey s t = add_sub_tile (from_quad_key (if s = [] then ''-'' else s)) t"

definition added_sub_here_tile :: "string \<Rightarrow> tile_key \<Rightarrow> tile_key" where
  "added_sub_here_tile s t = add_sub_tile (from_here_tile s) t"

section \<open>Morton codes are interleaved bits\<close>

lemma length_morton_table: "length MortonTable256 = 256"
  by (simp add: MortonTable256_def)

lemma morton_table_doubles:
  "MortonTable256 = concat (map (\<lambda>w. [4 * w, 4 * w + 1]) (take 128 MortonTable256))"
  by (simp add: MortonTable256_def)

lemma nth_concat_pairs:
  "i < 2 * length xs \<Longrightarrow> concat (map (\<lambda>w. [f w, g w]) xs) ! i = (if even i then f else g) (xs ! (i div 2))"
proof (induction xs arbitrary: i)
  case (Cons x xs)
  show ?case
  proof (cases "i < 2")
    case True
    then show ?thesis by (cases i) auto
  next
    case False
    then obtain j where "i = Suc (Suc j)" by (metis not_less_eq less_2_cases_iff not0_implies_Suc numeral_2_eq_2 One_nat_def)
    with Cons show ?thesis by simp
  qed
qed simp

lemma morton_table_rec:
  assumes "i < 256"
  shows "MortonTable256 ! i = 4 * MortonTable256 ! (i div 2) + (if even i then 0 else 1)"
proof -
  have "MortonTable256 ! i = concat (map (\<lambda>w. [4 * w, 4 * w + 1]) (take 128 MortonTable256)) ! i"
    using morton_table_doubles by simp
  also have "\<dots> = (if even i then (\<lambda>w. 4 * w) else (\<lambda>w. 4 * w + 1)) (take 128 MortonTable256 ! (i div 2))"
    using assms by (intro nth_concat_pairs) (simp add: length_morton_table)
  also have "take 128 MortonTable256 ! (i div 2) = MortonTable256 ! (i div 2)"
    using assms by simp
  finally show ?thesis by simp
qed

lemma bit_quadruple: 
  "bit (4 * w + (if b then 0 else 1)) n \<longleftrightarrow> (n = 0 \<and> \<not> b \<or> 2 \<le> n \<and> n < 64 \<and> bit w (n - 2))" for w :: u64
proof -
  have q: "4 * w = push_bit 2 w"
    by (simp add: push_bit_eq_mult)
  have "4 * w + (if b then 0 else 1) = push_bit 2 w OR (if b then 0 else 1)"
    unfolding q by (subst disjunctive_add) (auto simp: bit_simps)
  then show ?thesis by (auto simp: bit_simps)
qed

lemma morton_bit:
  "i < 256 \<Longrightarrow> bit (MortonTable256 ! i) n \<longleftrightarrow> even n \<and> bit i (n div 2)"
proof (induction i arbitrary: n rule: less_induct)
  case (less i)
  show ?case
  proof (cases "i = 0")
    case True
    then show ?thesis by (simp add: MortonTable256_def)
  next
    case False
    then have ih: "bit (MortonTable256 ! (i div 2)) m \<longleftrightarrow> even m \<and> bit (i div 2) (m div 2)" for m
      using less by simp
    have "i < 2 ^ 8" using less.prems by simp
    then have hi: "bit i m \<Longrightarrow> m < 8" for m
      by (metis (no_types) bit_take_bit_iff take_bit_nat_eq_self)
    have half: "bit (i div 2) m = bit i (Suc m)" for m by (simp add: bit_Suc)
    have "bit i (n div 2) \<Longrightarrow> even n \<Longrightarrow> n < 64"
      using hi [of "n div 2"] by auto
    moreover have "2 \<le> n \<Longrightarrow> Suc ((n - 2) div 2) = n div 2" by simp
    moreover have "n < 2 \<Longrightarrow> even n \<Longrightarrow> n = 0" by presburger
    ultimately show ?thesis
      by (cases "2 \<le> n") (auto simp: morton_table_rec [OF less.prems] bit_quadruple ih half bit_0)
  qed
qed

lemma bit_u32_less: "bit (x :: u32) n \<Longrightarrow> n < 32"
  using bit_imp_le_length [of x n] by simp

lemma bit_u64_less: "bit (x :: u64) n \<Longrightarrow> n < 64"
  using bit_imp_le_length [of x n] by simp

lemma low_byte_less: "unat (x AND 0xFF) < 256" for x :: u32
  using word_and_le1 [of x "0xFF"] by (simp add: word_le_nat_alt)

lemma bit_low_byte: "bit (unat (x AND 0xFF)) n \<longleftrightarrow> n < 8 \<and> bit x n" for x :: u32
proof -
  have *: "(0xFF :: u32) = mask 8" by (simp add: mask_eq_exp_minus_1)
  show ?thesis unfolding *
    by (auto simp: bit_unsigned_iff bit_and_iff bit_mask_iff dest: bit_u32_less)
qed

lemma morton_byte_bit:
  fixes x :: u32
  assumes "k < 4" "c < 2"
  shows "bit (push_bit (16 * k + c) (MortonTable256 ! unat (drop_bit (8 * k) x AND 0xFF))) n \<longleftrightarrow>
    n div 16 = k \<and> n mod 2 = c \<and> bit x (n div 2)"
proof (cases "16 * k + c \<le> n")
  case True
  then obtain m where m: "n = 16 * k + c + m" using le_Suc_ex by blast
  show ?thesis
  proof (cases "m mod 2 = 0")
    case True
    then obtain j where j: "m = 2 * j" by (metis even_iff_mod_2_eq_zero evenE)
    have c: "c = 0 \<or> c = 1" using assms by auto
    have n: "n div 2 = 8 * k + j" "n mod 2 = c" "n div 16 = k \<longleftrightarrow> j < 8"
      using c unfolding m j by (auto, presburger)
    have "n < 64 \<or> \<not> bit x (8 * k + j)"
      using c m j by (auto dest: bit_u32_less)
    with assms show ?thesis unfolding n
      by (auto simp: m j bit_push_bit_iff morton_bit low_byte_less bit_low_byte bit_drop_bit_eq)
  next
    case False
    have "c = 0 \<or> c = 1" using assms by auto
    with False have "n mod 2 \<noteq> c" unfolding m by (auto; presburger)
    with False show ?thesis using m assms
      by (simp add: bit_push_bit_iff morton_bit low_byte_less even_iff_mod_2_eq_zero)
  qed
next
  case False
  have "16 * (n div 16) + n mod 2 \<le> n" by presburger
  with False show ?thesis using assms by (auto simp: bit_push_bit_iff)
qed

lemma morton_byte_at:
  fixes x :: u32
  assumes "s = 16 * k + c" "d = 8 * k" "k < 4" "c < 2"
  shows "bit (push_bit s (MortonTable256 ! unat (drop_bit d x AND 0xFF))) n \<longleftrightarrow>
    n div 16 = k \<and> n mod 2 = c \<and> bit x (n div 2)"
  unfolding assms(1,2) using assms(3,4) by (rule morton_byte_bit)

lemma morton_low_byte:
  fixes x :: u32
  assumes "s = c" "c < 2"
  shows "bit (push_bit s (MortonTable256 ! unat (x AND 0xFF))) n \<longleftrightarrow>
    n div 16 = 0 \<and> n mod 2 = c \<and> bit x (n div 2)"
proof -
  have "bit (push_bit s (MortonTable256 ! unat (drop_bit 0 x AND 0xFF))) n \<longleftrightarrow>
    n div 16 = 0 \<and> n mod 2 = c \<and> bit x (n div 2)"
    using assms by (intro morton_byte_at) simp_all
  then show ?thesis by (simp only: drop_bit_0 id_apply)
qed

lemma push_bit_none: "push_bit 0 w = w" for w :: "'a :: len word"
  by simp

lemma less_4_cases: "k < 4 \<longleftrightarrow> k = 3 \<or> k = 2 \<or> k = 1 \<or> k = 0" for k :: nat
  by presburger

lemma common_factor_4:
  "(P \<longleftrightarrow> a \<or> b \<or> e \<or> f) \<Longrightarrow>
    (a \<and> m \<and> x \<or> b \<and> m \<and> x \<or> e \<and> m \<and> x \<or> f \<and> m \<and> x) \<longleftrightarrow> P \<and> m \<and> x"
  by blast

lemma bit_or_4:
  fixes a :: u64
  assumes "bit a n \<longleftrightarrow> n div 16 = 3 \<and> n mod 2 = c \<and> X" "bit b n \<longleftrightarrow> n div 16 = 2 \<and> n mod 2 = c \<and> X"
    "bit e n \<longleftrightarrow> n div 16 = 1 \<and> n mod 2 = c \<and> X" "bit f n \<longleftrightarrow> n div 16 = 0 \<and> n mod 2 = c \<and> X"
  shows "bit (a OR (b OR (e OR f))) n \<longleftrightarrow> n < 64 \<and> n mod 2 = c \<and> X"
proof -
  have "n < 64 \<longleftrightarrow> n div 16 = 3 \<or> n div 16 = 2 \<or> n div 16 = 1 \<or> n div 16 = 0"
    using less_mult_imp_div_less [of n 4 16] div_less_iff_less_mult [of 16 n 4] less_4_cases [of "n div 16"] by simp
  from common_factor_4 [OF this] show ?thesis unfolding bit_or_iff assms .
qed

lemma bit_quad_row:
  "bit (push_bit 49 (MortonTable256 ! unat (drop_bit 24 x AND 0xFF)) OR
      (push_bit 33 (MortonTable256 ! unat (drop_bit 16 x AND 0xFF)) OR
      (push_bit 17 (MortonTable256 ! unat (drop_bit 8 x AND 0xFF)) OR
      push_bit 1 (MortonTable256 ! unat (x AND 0xFF))))) n
    \<longleftrightarrow> n < 64 \<and> n mod 2 = 1 \<and> bit x (n div 2)" for x :: u32
  by (rule bit_or_4; (rule morton_byte_at | rule morton_low_byte); simp)

lemma bit_quad_column:
  "bit (push_bit 48 (MortonTable256 ! unat (drop_bit 24 x AND 0xFF)) OR
      (push_bit 32 (MortonTable256 ! unat (drop_bit 16 x AND 0xFF)) OR
      (push_bit 16 (MortonTable256 ! unat (drop_bit 8 x AND 0xFF)) OR
      MortonTable256 ! unat (x AND 0xFF)))) n
    \<longleftrightarrow> n < 64 \<and> n mod 2 = 0 \<and> bit x (n div 2)" for x :: u32
  by (rule bit_or_4;
    (rule morton_byte_at | rule morton_low_byte [where s = 0 and c = 0, unfolded push_bit_none]); simp)

lemma bit_quad_key64:
  "bit (to_quad_key64 t) n \<longleftrightarrow> n < 64 \<and>
     (n = 2 * unat (level t) \<or> (if even n then bit (column t) (n div 2) else bit (row t) (n div 2)))"
proof -
  have lev: "bit (push_bit (2 * unat (level t)) 1 :: u64) n \<longleftrightarrow> n < 64 \<and> n = 2 * unat (level t)"
    unfolding bit_push_bit_iff by (auto simp: bit_1_iff)
  have or3: "bit (a OR (b OR (c OR (d OR (e OR f))))) n \<longleftrightarrow>
      bit a n \<or> bit (b OR (c OR (d OR e))) n \<or> bit f n" for a b c d e f :: u64
    by (simp only: bit_or_iff disj_assoc)
  have par: "n mod 2 = 1 \<longleftrightarrow> \<not> even n" "n mod 2 = 0 \<longleftrightarrow> even n" by presburger+
  show ?thesis
    unfolding to_quad_key64_def or.assoc or3 lev bit_quad_row bit_quad_column par
    by (cases "even n") (simp_all only: if_True if_False simp_thms conj_disj_distribL)
qed

lemma bit_0_row: "n mod 2 = 1 \<longleftrightarrow> odd n" for n :: nat by presburger

lemma unat_exp_u32: "n < 32 \<Longrightarrow> unat (push_bit n 1 :: u32) = 2 ^ n"
  by (simp add: unsigned_push_bit_eq take_bit_nat_eq_self del: push_bit_of_1)

lemma valid_bits:
  assumes "is_valid t"
  shows "unat (level t) < 32" "bit (row t) n \<Longrightarrow> n < unat (level t)"
    "bit (column t) n \<Longrightarrow> n < unat (level t)"
proof -
  show L: "unat (level t) < 32"
    using assms by (simp add: is_valid_def word_less_nat_alt)
  have "x < push_bit (unat (level t)) 1 \<Longrightarrow> bit x n \<Longrightarrow> n < unat (level t)" for x :: u32
  proof (rule ccontr)
    assume x: "x < push_bit (unat (level t)) 1" "bit x n" "\<not> n < unat (level t)"
    have "unat x < 2 ^ unat (level t)"
      using x(1) by (simp only: word_less_nat_alt unat_exp_u32 [OF L])
    then have "take_bit (unat (level t)) (unat x) = unat x"
      by (simp add: take_bit_nat_eq_self)
    then have "bit (unat x) n = (n < unat (level t) \<and> bit (unat x) n)"
      by (metis bit_take_bit_iff)
    with x(2,3) show False by (auto simp: bit_unsigned_iff dest: bit_u32_less)
  qed
  then show "bit (row t) n \<Longrightarrow> n < unat (level t)" "bit (column t) n \<Longrightarrow> n < unat (level t)"
    using assms unfolding is_valid_def by blast+
qed

lemma take_bit_Suc_or:
  "take_bit (Suc k) x = take_bit k x OR (if bit x k then push_bit k 1 else 0)" for x :: u32
  by (rule bit_word_eqI) (auto simp: bit_simps less_Suc_eq)

lemma and_1_bit: "w AND 1 \<noteq> 0 \<longleftrightarrow> bit w 0" for w :: "'a :: len word"
  by (simp add: and_one_eq bit_0 odd_iff_mod_2_eq_one)

lemma and_2_bit: "w AND 2 \<noteq> 0 \<longleftrightarrow> bit w 1" for w :: u64
proof -
  have "w AND 2 = (if bit w 1 then 2 else 0)"
    by (rule bit_word_eqI) (auto simp: bit_and_iff bit_2_iff)
  then show ?thesis by simp
qed

lemma bit_gr_1: "bit w n \<Longrightarrow> 0 < n \<Longrightarrow> 1 < w" for w :: u64
proof (rule ccontr)
  assume w: "bit w n" "0 < n" "\<not> 1 < w"
  then have "unat w \<le> 1" by (simp add: word_less_nat_alt)
  then have "unat w = 0 \<or> unat w = 1" by linarith
  moreover have "w = of_nat (unat w)" by simp
  ultimately have "w = of_nat 0 \<or> w = of_nat 1" by (elim disjE) (simp_all only: disj_left_commute simp_thms)
  then have "w = 0 \<or> w = 1" by simp
  with w show False by (auto simp: bit_1_iff)
qed

lemma quad_key64_loop_drop:
  assumes v: "is_valid t" and "k \<le> unat (level t)"
  shows "quad_key64_loop (drop_bit (2 * k) (to_quad_key64 t))
     \<lparr>row = take_bit k (row t), column = take_bit k (column t), level = of_nat k\<rparr> = t"
  using assms(2)
proof (induction "unat (level t) - k" arbitrary: k)
  case 0
  then have k: "k = unat (level t)" by simp
  note vb = valid_bits [OF v]
  have q: "drop_bit (2 * k) (to_quad_key64 t) = 1"
    using vb by (intro bit_word_eqI) (auto simp: bit_drop_bit_eq bit_quad_key64 bit_1_iff k dest!: vb(2,3))
  have tb: "take_bit k (row t) = row t" "take_bit k (column t) = column t"
    using vb(2,3) by (auto intro!: bit_word_eqI simp: bit_take_bit_iff k)
  show ?case
    by (subst quad_key64_loop.simps) (simp add: q tb, simp add: k)
next
  case (Suc d)
  then have k: "k < unat (level t)" by simp
  note vb = valid_bits [OF v]
  let ?q = "drop_bit (2 * k) (to_quad_key64 t)"
  have "2 * k + 2 * (unat (level t) - k) = 2 * unat (level t)"
    using k by simp
  then have "bit ?q (2 * (unat (level t) - k))"
    using vb(1) by (simp add: bit_drop_bit_eq bit_quad_key64)
  then have gt: "1 < ?q"
    using k by (intro bit_gr_1 [where n = "2 * (unat (level t) - k)"]) auto
  have b0: "?q AND 1 \<noteq> 0 \<longleftrightarrow> bit (column t) k"
    using vb(1) k by (simp add: and_1_bit bit_drop_bit_eq bit_quad_key64)
  have b1: "?q AND 2 \<noteq> 0 \<longleftrightarrow> bit (row t) k"
    using vb(1) k by (simp add: and_2_bit bit_drop_bit_eq bit_quad_key64)
  have lev: "unat (of_nat k :: u32) = k" using vb(1) k by (simp add: unat_of_nat take_bit_nat_eq_self)
  have "quad_key64_loop ?q \<lparr>row = take_bit k (row t), column = take_bit k (column t), level = of_nat k\<rparr>
     = quad_key64_loop (drop_bit (2 * Suc k) (to_quad_key64 t))
     \<lparr>row = take_bit (Suc k) (row t), column = take_bit (Suc k) (column t), level = of_nat (Suc k)\<rparr>"
    apply (subst quad_key64_loop.simps)
    using gt b0 b1 by (simp add: Let_def take_bit_Suc_or lev add.commute)
  also have "\<dots> = t" using Suc by (intro Suc.hyps) auto
  finally show ?case .
qed

lemma from_to_quad_key64: "is_valid t \<Longrightarrow> from_quad_key64 (to_quad_key64 t) = t"
  using quad_key64_loop_drop [of t 0]
  by (simp add: from_quad_key64_def from_row_column_level_def)

lemma to_quad_key64_gr_0: "to_quad_key64 t \<noteq> 0" if "is_valid t"
  using bit_quad_key64 [of t "2 * unat (level t)"] valid_bits(1) [OF that] by auto

section \<open>Strings\<close>

lemma fold_list_update:
  "m \<le> length xs \<Longrightarrow> fold (\<lambda>i xs. xs[length xs - i - 1 := f i]) [0..<m] xs
     = take (length xs - m) xs @ rev (map f [0..<m])"
proof (induction m)
  case (Suc m)
  then have *: "length xs - Suc m < length xs" "length xs - m = Suc (length xs - Suc m)" by auto
  let ?y = "take (length xs - m) xs @ rev (map f [0..<m])"
  have len: "length ?y = length xs" using Suc.prems by simp
  have "?y[length xs - Suc m := f m] = take (length xs - Suc m) xs @ f m # rev (map f [0..<m])"
    using Suc.prems * by (simp add: list_update_append take_Suc_conv_app_nth)
  with Suc len show ?case by simp
qed simp

lemma fold_list_update_rev:
  assumes "length xs = n"
  shows "fold (\<lambda>i xs. xs[n - i - 1 := f i]) [0..<n] xs = rev (map f [0..<n])"
proof -
  have "fold (\<lambda>i xs. xs[n - i - 1 := f i]) [0..<m] xs = fold (\<lambda>i xs. xs[length xs - i - 1 := f i]) [0..<m] xs
     \<and> length (fold (\<lambda>i xs. xs[n - i - 1 := f i]) [0..<m] xs) = n" for m
    using assms by (induction m) auto
  with fold_list_update [of n xs f] assms show ?thesis by simp
qed

definition quad_digit :: "tile_key \<Rightarrow> nat \<Rightarrow> nat" where
  "quad_digit t i = 2 * of_bool (bit (row t) i) + of_bool (bit (column t) i)"

lemma unat_take_bit_2: "unat (take_bit 2 w) = 2 * of_bool (bit w 1) + of_bool (bit w 0)" for w :: u64
proof -
  have "u mod 4 = 2 * of_bool (odd (u div 2)) + of_bool (odd u)" for u :: nat
    by (cases "odd u"; cases "odd (u div 2)"; simp; presburger)
  moreover have "unat (take_bit 2 w) = unat w mod 4"
    unfolding unsigned_take_bit_eq by (simp add: take_bit_eq_mod)
  moreover have "bit w 1 = odd (unat w div 2)" "bit w 0 = odd (unat w)"
    using bit_unsigned_iff [where ?'a = nat, of w 1] bit_unsigned_iff [where ?'a = nat, of w 0]
    by (simp_all add: bit_iff_odd)
  ultimately show ?thesis by simp
qed

lemma to_quad_key_digits:
  assumes "is_valid t" "level t \<noteq> 0"
  shows "to_quad_key t = rev (map (\<lambda>i. char_of (quad_digit t i + 48)) [0..<unat (level t)])"
proof -
  have "unat (to_quad_key64 t div push_bit (2 * i) 1 mod 4) = quad_digit t i"
    if "i < unat (level t)" for i
  proof -
    have d: "to_quad_key64 t div push_bit (2 * i) 1 = drop_bit (2 * i) (to_quad_key64 t)"
      by (simp add: drop_bit_eq_div)
    have m: "w mod 4 = take_bit 2 w" for w :: u64
      by (simp add: take_bit_eq_mod)
    show ?thesis
      using that valid_bits(1) [OF assms(1)] unfolding d m unat_take_bit_2
      by (simp add: quad_digit_def bit_drop_bit_eq bit_quad_key64)
  qed
  then show ?thesis using assms
    unfolding to_quad_key_def Let_def
    by (simp add: fold_list_update_rev [where n = "unat (level t)", simplified] del: push_bit_of_1)
qed

definition set_digit :: "string \<Rightarrow> nat \<Rightarrow> nat \<Rightarrow> tile_key \<Rightarrow> tile_key" where
  "set_digit s n i result =
     (let mask = push_bit i 1;
          d = (of_char (s ! (n - i - 1)) :: int) - 48;
          result = (if d AND 1 \<noteq> 0 then result\<lparr>column := column result OR mask\<rparr> else result)
      in if d AND 2 \<noteq> 0 then result\<lparr>row := row result OR mask\<rparr> else result)"

lemma quad_digit_less: "quad_digit t i < 4"
  by (simp add: quad_digit_def)

lemma int_char_of: "(of_char (char_of n) :: int) = int (n mod 256)"
  by (metis of_nat_of_char of_char_of)

lemma quad_digit_int:
  "((of_char (char_of (quad_digit t i + 48)) :: int) - 48) AND 1 \<noteq> 0 \<longleftrightarrow> bit (column t) i"
  "((of_char (char_of (quad_digit t i + 48)) :: int) - 48) AND 2 \<noteq> 0 \<longleftrightarrow> bit (row t) i"
  by (auto simp: quad_digit_def int_char_of)

lemma set_digits:
  assumes v: "is_valid t" "level t \<noteq> 0" and "m \<le> unat (level t)"
  shows "fold (set_digit (to_quad_key t) (unat (level t))) [0..<m] \<lparr>row = 0, column = 0, level = l\<rparr>
    = \<lparr>row = take_bit m (row t), column = take_bit m (column t), level = l\<rparr>"
  using assms(3)
proof (induction m)
  case (Suc m)
  let ?n = "unat (level t)"
  have "to_quad_key t ! (?n - m - 1) = char_of (quad_digit t m + 48)"
    using Suc.prems by (simp add: to_quad_key_digits [OF v] rev_nth)
  then show ?case using Suc
    by (simp add: set_digit_def Let_def quad_digit_int take_bit_Suc_or)
qed simp

lemma from_quad_key_set_digit:
  "s \<noteq> [] \<Longrightarrow> s \<noteq> ''-'' \<Longrightarrow> from_quad_key s =
     fold (set_digit s (length s)) [0..<length s] \<lparr>row = 0, column = 0, level = of_nat (length s)\<rparr>"
  by (simp add: from_quad_key_def set_digit_def [abs_def] Let_def from_row_column_level_def)

lemma take_bit_valid:
  assumes "is_valid t"
  shows "take_bit (unat (level t)) (row t) = row t" "take_bit (unat (level t)) (column t) = column t"
  using valid_bits(2,3) [OF assms] by (auto intro!: bit_word_eqI simp: bit_take_bit_iff)

lemma quad_digit_char_neq: "char_of (quad_digit t i + 48) \<noteq> CHR ''-''"
proof
  assume "char_of (quad_digit t i + 48) = CHR ''-''"
  then have "(of_char (char_of (quad_digit t i + 48)) :: nat) = of_char CHR ''-''" by simp
  then show False using quad_digit_less [of t i] by (simp split: if_splits)
qed

lemma length_to_quad_key: "is_valid t \<Longrightarrow> level t \<noteq> 0 \<Longrightarrow> length (to_quad_key t) = unat (level t)"
  by (simp add: to_quad_key_digits)

lemma from_to_quad_key: 
  assumes "is_valid t"
  shows "from_quad_key (to_quad_key t) = t"
proof (cases "level t = 0")
  case True
  then show ?thesis using assms
    by (auto simp: to_quad_key_def from_quad_key_def is_valid_def from_row_column_level_def)
next
  case False
  then have n: "unat (level t) \<noteq> 0" by (simp add: unat_eq_zero)
  have ne: "to_quad_key t \<noteq> []" "to_quad_key t \<noteq> ''-''"
  proof -
    show "to_quad_key t \<noteq> []" using length_to_quad_key [OF assms False] n by auto
    then show "to_quad_key t \<noteq> ''-''"
      using quad_digit_char_neq [of t] by (auto simp: to_quad_key_digits [OF assms False] rev_map)
  qed
  then show ?thesis
    using set_digits [OF assms False order_refl] False
    by (simp add: from_quad_key_set_digit length_to_quad_key assms take_bit_valid)
qed

lemma strtoull_decimal:
  assumes "n < 2 ^ 64" shows "strtoull (decimal n) = of_nat n"
proof -
  have d: "is_digit c \<Longrightarrow> \<not> is_space c \<and> c \<noteq> CHR ''-'' \<and> c \<noteq> CHR ''+''" for c
    by (auto simp: is_digit_def is_space_def)
  obtain c cs where c: "decimal n = c # cs" using decimal_neq_Nil by (cases "decimal n") auto
  have "is_digit c" "takeWhile is_digit cs = cs"
    using decimal_digits [of n] by (auto simp: c list_all_iff takeWhile_eq_all_conv)
  with d [of c] assms show ?thesis
    using digits_value_decimal [of n] by (simp add: strtoull_def c Let_def takeWhile_eq_all_conv [THEN iffD2])
qed

lemma from_to_here_tile:
  assumes "is_valid t"
  shows "from_here_tile (to_here_tile t) = t"
proof -
  have "unat (to_quad_key64 t) < 2 ^ 64" using unsigned_less [where ?'a = nat, of "to_quad_key64 t"] by simp
  then show ?thesis
    using from_to_quad_key64 [OF assms]
    by (simp add: from_here_tile_def to_here_tile_def decimal_neq_Nil strtoull_decimal)
qed

text \<open>
  C3: a valid tile key is recovered from its Morton code, from its quad string and from its HERE tile
  string.
\<close>

theorem tile_key_round_trips:
  assumes "is_valid t"
  shows "from_quad_key64 (to_quad_key64 t) = t \<and> from_quad_key (to_quad_key t) = t \<and>
    from_here_tile (to_here_tile t) = t"
  using from_to_quad_key64 [OF assms] from_to_quad_key [OF assms] from_to_here_tile [OF assms] by blast

lemma tile_key_round_trips_witness:
  "from_quad_key64 (to_quad_key64 \<lparr>row = 5, column = 2, level = 3\<rparr>) = \<lparr>row = 5, column = 2, level = 3\<rparr> \<and>
    from_quad_key (to_quad_key \<lparr>row = 5, column = 2, level = 3\<rparr>) = \<lparr>row = 5, column = 2, level = 3\<rparr> \<and>
    from_here_tile (to_here_tile \<lparr>row = 5, column = 2, level = 3\<rparr>) = \<lparr>row = 5, column = 2, level = 3\<rparr>"
  by (rule tile_key_round_trips) (simp add: is_valid_def)

section \<open>The order on tile keys\<close>

definition tile_key_less :: "tile_key \<Rightarrow> tile_key \<Rightarrow> bool" where
  "tile_key_less t other =
     (if level t \<noteq> level other then level t < level other
      else if row t \<noteq> row other then row t < row other
      else column t < column other)"

instantiation tile_key_ext :: (linorder) linorder
begin

definition less_eq_tile_key_ext :: "'a tile_key_ext \<Rightarrow> 'a tile_key_ext \<Rightarrow> bool" where
  "less_eq_tile_key_ext s t \<longleftrightarrow>
     (level s, row s, column s, tile_key.more s) \<le> (level t, row t, column t, tile_key.more t)"

definition less_tile_key_ext :: "'a tile_key_ext \<Rightarrow> 'a tile_key_ext \<Rightarrow> bool" where
  "less_tile_key_ext s t \<longleftrightarrow>
     (level s, row s, column s, tile_key.more s) < (level t, row t, column t, tile_key.more t)"

instance
proof
  fix s t u :: "'a tile_key_ext"
  show "s < t \<longleftrightarrow> s \<le> t \<and> \<not> t \<le> s"
    unfolding less_tile_key_ext_def less_eq_tile_key_ext_def by (rule less_le_not_le)
  show "s \<le> s" unfolding less_eq_tile_key_ext_def by (rule order_refl)
  show "s \<le> t \<Longrightarrow> t \<le> u \<Longrightarrow> s \<le> u" unfolding less_eq_tile_key_ext_def by (rule order_trans)
  show "s \<le> t \<or> t \<le> s" unfolding less_eq_tile_key_ext_def by (rule linear)
  assume "s \<le> t" "t \<le> s"
  then have "(level s, row s, column s, tile_key.more s) = (level t, row t, column t, tile_key.more t)"
    unfolding less_eq_tile_key_ext_def by (rule antisym)
  then show "s = t" by (cases s; cases t) simp
qed

end

text \<open>
  \<open>operator<\<close> of tile keys is the strict part of the lexicographic linear order on level, row and
  column, so that tile keys can be the keys of the ordered containers.
\<close>

theorem tile_key_less_is_order: "tile_key_less s t \<longleftrightarrow> s < t"
  by (auto simp: tile_key_less_def less_tile_key_ext_def less_prod_def)

end
