(* ===== verification/TileTree.thy ===== *)
theory TileTree
  imports TileKey
begin

unbundle bit_operations_syntax

text \<open>
  Walking the quad tree: navigation between tile keys (\<open>TileKey.cpp\<close>), the available levels
  (\<open>GetMinTileKeyLevel\<close>, \<open>GetMaxTileKeyLevel\<close>, \<open>GetNearestAvailableTileKeyLevel\<close>), sub tiles
  (\<open>SubTiles.h\<close>), relative and absolute sub keys (\<open>TileKeyUtils.cpp\<close>), the two subdivision
  schemes behind \<open>ISubdivisionScheme\<close> and the traversal that uses them (\<open>TileTreeTraverse.cpp\<close>).
\<close>

section \<open>Levels\<close>

text \<open>\<open>std::bitset<32>\<close> as a 32 bit word; \<open>to_ulong\<close> is 64 bits wide.\<close>

definition lookup_table :: "u32 list" where
  "lookup_table = [
      0,  1,  28, 2,  29, 14, 24, 3, 30, 22, 20, 15, 25, 17, 4,  8,
      31, 27, 13, 23, 21, 19, 16, 7, 26, 12, 18, 6,  11, 5,  10, 9]"

definition min_tile_key_level :: "u32 \<Rightarrow> u32 option" where
  "min_tile_key_level levels =
     (if levels = 0 then None
      else (let levelBits = ucast levels :: u64;
                hash = ucast ((levelBits AND - levelBits) * 0x077CB531) :: u32
            in Some (lookup_table ! unat (drop_bit 27 hash))))"

definition max_tile_key_level :: "u32 \<Rightarrow> u32 option" where
  "max_tile_key_level levels =
     (if levels = 0 then None else Some (of_nat (floorlog 2 (unat levels) - 1)))"

text \<open>The search outwards from the clamped reference level, upper level first.\<close>

fun nearest_level_loop :: "nat \<Rightarrow> u32 \<Rightarrow> int \<Rightarrow> int \<Rightarrow> int" where
  "nearest_level_loop 0 levels lvl dst = lvl"
| "nearest_level_loop (Suc k) levels lvl dst =
     (if lvl + dst < 32 \<and> bit levels (nat (lvl + dst)) then lvl + dst
      else if dst \<le> lvl \<and> bit levels (nat (lvl - dst)) then lvl - dst
      else nearest_level_loop k levels lvl (dst + 1))"

definition nearest_available_tile_key_level :: "u32 \<Rightarrow> u32 \<Rightarrow> u32 option" where
  "nearest_available_tile_key_level levels referenceLevel =
     (case (min_tile_key_level levels, max_tile_key_level levels) of
        (Some minLevel, Some maxLevel) \<Rightarrow>
          (let lvl = uint (max (min referenceLevel maxLevel) minLevel);
               maxDist = max \<bar>lvl - uint minLevel\<bar> \<bar>lvl - uint maxLevel\<bar>
           in Some (word_of_int (nearest_level_loop (nat maxDist + 1) levels lvl 0)))
      | _ \<Rightarrow> None)"

section \<open>Sub tiles\<close>

record sub_tiles =
  st_tile_key :: tile_key
  st_level :: u32
  st_count :: u32
  st_mask :: u16
  st_shift :: u32

definition sub_tiles_new :: "tile_key \<Rightarrow> u32 \<Rightarrow> u16 \<Rightarrow> sub_tiles" where
  "sub_tiles_new tileKey lvl msk =
     \<lparr>st_tile_key = tileKey, st_level = lvl, st_count = push_bit (unat (push_bit 1 lvl)) 1,
      st_mask = msk, st_shift = (if 2 < lvl then push_bit 1 (lvl - 2) else 0)\<rparr>"

function skip_loop :: "sub_tiles \<Rightarrow> u32 \<Rightarrow> u32" where
  "skip_loop st index =
     (if index < st_count st \<and>
         (ucast (st_mask st) :: u32) AND push_bit (unat (drop_bit (unat (st_shift st)) index)) 1 = 0
      then skip_loop st (index + 1) else index)"
  by pat_completeness auto
termination
proof (relation "measure (\<lambda>(st, index). unat (st_count st) - unat index)")
  fix st :: sub_tiles and index :: u32
  assume "index < st_count st \<and>
    (ucast (st_mask st) :: u32) AND push_bit (unat (drop_bit (unat (st_shift st)) index)) 1 = 0"
  then have "unat index < unat (st_count st)" by (simp add: word_less_nat_alt)
  moreover have "unat (index + 1) = Suc (unat index)"
    using calculation unsigned_less [where ?'a = nat, of "st_count st"]
    by (simp add: unat_word_ariths take_bit_nat_eq_self)
  ultimately show "((st, index + 1), (st, index)) \<in> measure (\<lambda>(st, index). unat (st_count st) - unat index)"
    by simp
qed simp

declare skip_loop.simps [simp del]

definition skip :: "sub_tiles \<Rightarrow> u32 \<Rightarrow> u32" where
  "skip st index = (if st_mask st = - 1 then index else skip_loop st index)"

definition st_begin :: "sub_tiles \<Rightarrow> u32" where
  "st_begin st = skip st 0"

definition st_end :: "sub_tiles \<Rightarrow> u32" where
  "st_end st = skip st (st_count st)"

definition st_size :: "sub_tiles \<Rightarrow> u32" where
  "st_size st = st_count st"

definition st_deref :: "sub_tiles \<Rightarrow> u32 \<Rightarrow> tile_key" where
  "st_deref st index =
     (let parentKey = st_tile_key st; n = unat (st_level st) in
      from_row_column_level
        (push_bit n (row parentKey) OR drop_bit n index)
        (push_bit n (column parentKey) OR (index AND (push_bit n 1 - 1)))
        (level parentKey + st_level st))"

definition st_next :: "sub_tiles \<Rightarrow> u32 \<Rightarrow> u32" where
  "st_next st index = skip st (index + 1)"

text \<open>A range based \<open>for\<close> over the sub tiles; \<open>n\<close> bounds the steps.\<close>

fun st_walk :: "nat \<Rightarrow> sub_tiles \<Rightarrow> u32 \<Rightarrow> tile_key list" where
  "st_walk 0 st index = []"
| "st_walk (Suc n) st index =
     (if index = st_end st then [] else st_deref st index # st_walk n st (st_next st index))"

definition st_items :: "sub_tiles \<Rightarrow> tile_key list" where
  "st_items st = st_walk (Suc (unat (st_count st))) st (st_begin st)"

section \<open>Relative and absolute sub keys\<close>

definition relative_sub_tile_key :: "tile_key \<Rightarrow> u32 \<Rightarrow> tile_key" where
  "relative_sub_tile_key key parent_level =
     (let originKey = changed_level_to (level key) (changed_level_to parent_level key)
      in from_row_column_level (row key - row originKey) (column key - column originKey)
           (level key - parent_level))"

definition absolute_sub_tile_key :: "tile_key \<Rightarrow> tile_key \<Rightarrow> tile_key" where
  "absolute_sub_tile_key prnt sub_tile =
     (let absSubTileKey = changed_level_by (sint (level sub_tile)) prnt
      in from_row_column_level (row absSubTileKey + row sub_tile) (column absSubTileKey + column sub_tile)
           (level absSubTileKey))"

section \<open>Subdivision schemes\<close>

type_synonym size_2u = "u32 \<times> u32"

definition quad_subdivision_at :: "u32 \<Rightarrow> size_2u" where
  "quad_subdivision_at l = (2, 2)"

definition quad_level_size :: "u32 \<Rightarrow> size_2u" where
  "quad_level_size l = (push_bit (unat l) 1, push_bit (unat l) 1)"

definition half_quad_subdivision_at :: "u32 \<Rightarrow> size_2u" where
  "half_quad_subdivision_at l = (2, if l = 0 then 1 else 2)"

definition half_quad_level_size :: "u32 \<Rightarrow> size_2u" where
  "half_quad_level_size l = (push_bit (unat l) 1, if l = 0 then 1 else push_bit (unat (l - 1)) 1)"

definition sub_nodes :: "(u32 \<Rightarrow> size_2u) \<Rightarrow> tile_key \<Rightarrow> sub_tiles" where
  "sub_nodes subdivision_at node =
     (let subTileCount = fst (subdivision_at (level node)) * snd (subdivision_at (level node));
          subTileMask = ucast (NOT (push_bit (unat subTileCount) (- 1 :: u32))) :: u16
      in sub_tiles_new node 1 subTileMask)"

section \<open>Available levels\<close>

lemma and_minus_low_bit:
  fixes w :: u64
  assumes "bit w k" "\<And>j. j < k \<Longrightarrow> \<not> bit w j"
  shows "w AND - w = push_bit k 1"
proof -
  have k: "k < 64" using assms(1) by (rule bit_u64_less)
  have w: "w = push_bit (Suc k) (drop_bit (Suc k) w) + push_bit k 1"
  proof -
    have "w = push_bit (Suc k) (drop_bit (Suc k) w) OR push_bit k 1"
    proof (rule bit_word_eqI)
      fix n assume "n < LENGTH(64)"
      then show "bit w n = bit (push_bit (Suc k) (drop_bit (Suc k) w) OR push_bit k 1) n"
        using assms k
        by (cases n k rule: linorder_cases)
          (simp_all add: bit_or_iff bit_push_bit_iff bit_drop_bit_eq bit_1_iff del: push_bit_of_1 drop_bit_Suc push_bit_Suc)
    qed
    also have "\<dots> = push_bit (Suc k) (drop_bit (Suc k) w) + push_bit k 1"
      by (rule disjunctive_add [symmetric])
        (auto simp: bit_push_bit_iff bit_1_iff simp del: push_bit_of_1 drop_bit_Suc push_bit_Suc)
    finally show ?thesis .
  qed
  have "w - 1 = push_bit (Suc k) (drop_bit (Suc k) w) + mask k"
    using w by (simp add: mask_eq_exp_minus_1 del: drop_bit_Suc)
  also have "\<dots> = push_bit (Suc k) (drop_bit (Suc k) w) OR mask k"
    by (rule disjunctive_add) (auto simp: bit_simps simp del: drop_bit_Suc)
  finally have m: "- w = NOT (push_bit (Suc k) (drop_bit (Suc k) w) OR mask k)"
    by (simp add: minus_eq_not_minus_1)
  show ?thesis unfolding m
  proof (rule bit_word_eqI)
    fix n assume "n < LENGTH(64)"
    then show "bit (w AND NOT (push_bit (Suc k) (drop_bit (Suc k) w) OR mask k)) n = bit (push_bit k 1 :: u64) n"
      using assms k
      by (cases n k rule: linorder_cases)
        (simp_all add: bit_and_iff bit_not_iff bit_or_iff bit_push_bit_iff bit_drop_bit_eq bit_1_iff
          bit_mask_iff del: push_bit_of_1 drop_bit_Suc push_bit_Suc)
  qed
qed

lemma lookup_table_de_bruijn:
  "list_all (\<lambda>k. lookup_table ! unat (drop_bit 27 (ucast (push_bit k (1 :: u64) * 0x077CB531) :: u32)) = of_nat k) [0..<32]"
  by (simp add: lookup_table_def upt_rec)

lemma min_tile_key_level_least:
  assumes "bit levels k" "\<And>j. j < k \<Longrightarrow> \<not> bit levels j"
  shows "min_tile_key_level levels = Some (of_nat k)"
proof -
  have k: "k < 32" using assms(1) by (rule bit_u32_less)
  have ne: "levels \<noteq> 0" using assms(1) by auto
  have "(ucast levels :: u64) AND - ucast levels = push_bit k 1"
    using assms k by (intro and_minus_low_bit) (auto simp: bit_unsigned_iff)
  moreover have "lookup_table ! unat (drop_bit 27 (ucast (push_bit k (1 :: u64) * 0x077CB531) :: u32)) = of_nat k"
    using lookup_table_de_bruijn k unfolding list_all_iff set_upt by auto
  ultimately show ?thesis
    unfolding min_tile_key_level_def Let_def using ne by simp
qed

lemma floorlog_bit:
  fixes n :: nat
  assumes "bit n k" "\<And>j. k < j \<Longrightarrow> \<not> bit n j"
  shows "floorlog 2 n = Suc k"
proof -
  have "take_bit (Suc k) n = n"
    by (rule bit_eqI) (metis assms(2) bit_take_bit_iff not_less_eq)
  then have "n < 2 ^ Suc k" by (metis take_bit_nat_less_exp)
  moreover have "2 ^ k \<le> n"
  proof (rule ccontr)
    assume "\<not> 2 ^ k \<le> n"
    then have "take_bit k n = n" by (simp add: take_bit_nat_eq_self)
    then show False using assms(1) by (metis bit_take_bit_iff less_irrefl)
  qed
  ultimately show ?thesis
    by (intro antisym floorlog_leI floorlog_geI) auto
qed

lemma max_tile_key_level_greatest:
  assumes "bit levels k" "\<And>j. k < j \<Longrightarrow> \<not> bit levels j"
  shows "max_tile_key_level levels = Some (of_nat k)"
proof -
  have "levels \<noteq> 0" using assms(1) by auto
  moreover have "floorlog 2 (unat levels) = Suc k"
    using assms by (intro floorlog_bit) (auto simp: bit_unsigned_iff)
  ultimately show ?thesis by (simp add: max_tile_key_level_def)
qed


lemma nearest_level_loop_finds:
  assumes "\<exists>d. dst \<le> d \<and> d < dst + int k \<and> (lvl + d < 32 \<and> bit levels (nat (lvl + d)) \<or> d \<le> lvl \<and> bit levels (nat (lvl - d)))"
    and "0 \<le> lvl" "lvl < 32" "0 \<le> dst"
  shows "\<exists>d. nearest_level_loop k levels lvl dst = d \<and> 0 \<le> d \<and> d < 32 \<and> bit levels (nat d) \<and>
     (\<forall>j. bit levels j \<longrightarrow> dst \<le> \<bar>lvl - int j\<bar> \<longrightarrow> \<bar>lvl - d\<bar> \<le> \<bar>lvl - int j\<bar>)"
  using assms
proof (induction k levels lvl dst rule: nearest_level_loop.induct)
  case (2 k levels lvl dst)
  show ?case
  proof (cases "lvl + dst < 32 \<and> bit levels (nat (lvl + dst)) \<or> dst \<le> lvl \<and> bit levels (nat (lvl - dst))")
    case True
    then show ?thesis using "2.prems" by auto
  next
    case False
    from "2.prems"(1) obtain d where d: "dst \<le> d" "d < dst + int (Suc k)"
      "lvl + d < 32 \<and> bit levels (nat (lvl + d)) \<or> d \<le> lvl \<and> bit levels (nat (lvl - d))" by blast
    with False have "d \<noteq> dst" by auto
    with d have "\<exists>d. dst + 1 \<le> d \<and> d < dst + 1 + int k \<and> (lvl + d < 32 \<and> bit levels (nat (lvl + d)) \<or> d \<le> lvl \<and> bit levels (nat (lvl - d)))"
      by (intro exI [of _ d]) auto
    then obtain r where r: "nearest_level_loop k levels lvl (dst + 1) = r" "0 \<le> r" "r < 32" "bit levels (nat r)"
      "\<And>j. bit levels j \<Longrightarrow> dst + 1 \<le> \<bar>lvl - int j\<bar> \<Longrightarrow> \<bar>lvl - r\<bar> \<le> \<bar>lvl - int j\<bar>"
      using 2 False by auto
    have "\<bar>lvl - r\<bar> \<le> \<bar>lvl - int j\<bar>" if j: "bit levels j" "dst \<le> \<bar>lvl - int j\<bar>" for j
    proof (cases "\<bar>lvl - int j\<bar> = dst")
      case True
      then have "int j = lvl - dst \<or> int j = lvl + dst" by linarith
      then have "j = nat (lvl - dst) \<and> dst \<le> lvl \<or> j = nat (lvl + dst)" by linarith
      moreover have "j < 32" using j(1) by (rule bit_u32_less)
      ultimately have False using False j(1) \<open>int j = lvl - dst \<or> int j = lvl + dst\<close> by auto
      then show ?thesis ..
    next
      case False
      with j r(5) show ?thesis by simp
    qed
    then show ?thesis using r False by auto
  qed
qed auto

lemma level_bounds:
  assumes "levels \<noteq> (0 :: u32)"
  obtains lo hi where "bit levels lo" "bit levels hi" "\<And>j. bit levels j \<Longrightarrow> lo \<le> j \<and> j \<le> hi"
    "min_tile_key_level levels = Some (of_nat lo)" "max_tile_key_level levels = Some (of_nat hi)"
    "lo \<le> hi" "hi < 32"
proof -
  let ?S = "{j. bit levels j}"
  have fin: "finite ?S" by (rule finite_subset [of _ "{..<32}"]) (auto dest: bit_u32_less)
  have "\<exists>j. bit levels j"
    using assms bit_eq_iff [of levels 0] by auto
  then have ne: "?S \<noteq> {}" by auto
  have lo: "bit levels (Min ?S)" and hi: "bit levels (Max ?S)"
    using Min_in [OF fin ne] Max_in [OF fin ne] by auto
  have b: "bit levels j \<Longrightarrow> Min ?S \<le> j \<and> j \<le> Max ?S" for j
    using fin by auto
  show ?thesis
  proof (rule that [OF lo hi b])
    show "min_tile_key_level levels = Some (of_nat (Min ?S))"
      using b by (intro min_tile_key_level_least lo) (meson leD)
    show "max_tile_key_level levels = Some (of_nat (Max ?S))"
      using b by (intro max_tile_key_level_greatest hi) (meson leD)
    show "Min ?S \<le> Max ?S" using b [OF lo] by simp
    show "Max ?S < 32" using hi by (rule bit_u32_less)
  qed
qed

lemma uint_small: "n < 32 \<Longrightarrow> uint (of_nat n :: u32) = int n"
  by (simp add: unsigned_of_nat take_bit_nat_eq_self)

lemma uint_clamp:
  "uint (max (min r b) a) = max (min (uint r) (uint b)) (uint a)" for a b r :: u32
  by (simp add: max_def min_def word_le_def)

text \<open>
  C4: when some level is available, \<open>GetNearestAvailableTileKeyLevel\<close> returns an available level, and
  no available level is nearer to the reference level, whatever that is.
\<close>

theorem nearest_level_is_nearest:
  assumes "levels \<noteq> 0"
  shows "\<exists>r. nearest_available_tile_key_level levels ref = Some r \<and> bit levels (unat r) \<and>
    (\<forall>k. bit levels k \<longrightarrow> \<bar>uint ref - uint r\<bar> \<le> \<bar>uint ref - int k\<bar>)"
proof -
  obtain lo hi where b: "bit levels lo" "bit levels hi" "\<And>j. bit levels j \<Longrightarrow> lo \<le> j \<and> j \<le> hi"
    "min_tile_key_level levels = Some (of_nat lo)" "max_tile_key_level levels = Some (of_nat hi)"
    "lo \<le> hi" "hi < 32"
    using level_bounds [OF assms] by blast
  define lvl where "lvl = max (min (uint ref) (int hi)) (int lo)"
  define m where "m = max \<bar>lvl - int lo\<bar> \<bar>lvl - int hi\<bar>"
  have lvl: "int lo \<le> lvl" "lvl \<le> int hi" using b(6) by (auto simp: lvl_def)
  have eq: "nearest_available_tile_key_level levels ref = Some (word_of_int (nearest_level_loop (nat m + 1) levels lvl 0))"
    using b(4-7) by (simp add: nearest_available_tile_key_level_def uint_clamp uint_small lvl_def m_def
        Let_def)
  have "\<exists>d. 0 \<le> d \<and> d < 0 + int (nat m + 1) \<and>
      (lvl + d < 32 \<and> bit levels (nat (lvl + d)) \<or> d \<le> lvl \<and> bit levels (nat (lvl - d)))"
    using b(1) lvl by (intro exI [of _ "lvl - int lo"]) (auto simp: m_def)
  then obtain d where d: "nearest_level_loop (nat m + 1) levels lvl 0 = d" "0 \<le> d" "d < 32" "bit levels (nat d)"
      "\<And>j. bit levels j \<Longrightarrow> \<bar>lvl - d\<bar> \<le> \<bar>lvl - int j\<bar>"
    using nearest_level_loop_finds [of 0 "nat m + 1" lvl levels] lvl b(7) by auto
  have u: "uint (word_of_int d :: u32) = d" 
    using d(2,3) by (simp add: uint_word_of_int_eq take_bit_int_eq_self)
  have "\<bar>uint ref - d\<bar> \<le> \<bar>uint ref - int k\<bar>" if "bit levels k" for k
    using d(5) [OF that] b(3) [OF that] b(3) [OF d(4)] d(2) lvl unfolding lvl_def by linarith
  moreover have "unat (word_of_int d :: u32) = nat d" using u by (metis nat_uint_eq)
  ultimately show ?thesis using eq d(1,4) u by auto
qed

lemma nearest_level_is_nearest_witness:
  "\<exists>r. nearest_available_tile_key_level 0b100010000 6 = Some r \<and> bit (0b100010000 :: u32) (unat r) \<and>
    (\<forall>k. bit (0b100010000 :: u32) k \<longrightarrow> \<bar>uint (6 :: u32) - uint r\<bar> \<le> \<bar>uint (6 :: u32) - int k\<bar>)"
  by (rule nearest_level_is_nearest) simp

section \<open>Navigation\<close>

lemma exp_less_bits:
  assumes "L < 32" "\<And>n. bit x n \<Longrightarrow> n < L"
  shows "x < push_bit L (1 :: u32)"
proof -
  have "take_bit L (unat x) = unat x"
    by (rule bit_eqI) (use assms(2) in \<open>auto simp: bit_take_bit_iff bit_unsigned_iff\<close>)
  then have "unat x < 2 ^ L" by (metis take_bit_nat_less_exp)
  then show ?thesis using unat_exp_u32 [OF assms(1)] by (simp add: word_less_nat_alt)
qed

lemma is_valid_bits:
  "is_valid t \<longleftrightarrow> unat (level t) < 32 \<and>
     (\<forall>n. bit (row t) n \<longrightarrow> n < unat (level t)) \<and> (\<forall>n. bit (column t) n \<longrightarrow> n < unat (level t))"
  (is "_ \<longleftrightarrow> ?r")
proof
  assume "is_valid t" then show ?r using valid_bits by blast
next
  assume r: ?r
  then have "level t < 32" by (simp add: word_less_nat_alt)
  with r exp_less_bits show "is_valid t" unfolding is_valid_def by blast
qed

lemma changed_level_by_small:
  assumes "0 \<le> uint (level t) + d" "uint (level t) + d < 2 ^ 31"
  shows "changed_level_by d t =
    \<lparr>row = (if 0 \<le> d then push_bit (nat d) (row t) else drop_bit (nat (- d)) (row t)),
     column = (if 0 \<le> d then push_bit (nat d) (column t) else drop_bit (nat (- d)) (column t)),
     level = level t + word_of_int d\<rparr>"
proof (cases "d = 0")
  case True
  then show ?thesis by (simp add: changed_level_by_def)
next
  case False
  define l where "l = uint (level t) + d"
  have l: "level t + word_of_int d = word_of_int l" by (simp add: l_def)
  have s: "sint (word_of_int l :: u32) = l"
    unfolding sint_sbintrunc' using assms by (intro signed_take_bit_int_eq_self) (simp_all add: l_def)
  have l0: "0 \<le> l" using assms l_def by simp
  show ?thesis
    unfolding changed_level_by_def Let_def l s using False l0 by (cases "0 \<le> d") simp_all
qed

lemma uint_less_31: "x < 31 \<Longrightarrow> uint x < 31" for x :: u32
  by (simp add: word_less_def)

lemma bit_two: "bit x n \<longleftrightarrow> (n = 0 \<and> bit x 0 \<or> n = 1 \<and> bit x 1)" if "x < 4" for x :: u8
proof -
  have "bit x n \<Longrightarrow> n < 2"
  proof (rule ccontr)
    assume x: "bit x n" "\<not> n < 2"
    have "unat x < 2 ^ 2" using that by (simp add: word_less_nat_alt)
    then have "take_bit 2 (unat x) = unat x" by (simp add: take_bit_nat_eq_self)
    then have "bit (unat x) n = (n < 2 \<and> bit (unat x) n)" by (metis bit_take_bit_iff)
    with x show False by (auto simp: bit_unsigned_iff dest: bit_imp_le_length)
  qed
  then show ?thesis by (auto simp: less_2_cases_iff)
qed

lemma get_child_bits:
  assumes "is_valid t" "level t < 31" "i < 4"
  shows "level (get_child i t) = level t + 1"
    "bit (row (get_child i t)) n \<longleftrightarrow> (if n = 0 then bit i 1 else bit (row t) (n - 1))"
    "bit (column (get_child i t)) n \<longleftrightarrow> (if n = 0 then bit i 0 else bit (column t) (n - 1))"
proof -
  have l: "unat (level t) < 31" using assms(2) by (simp add: word_less_nat_alt)
  have g: "get_child i t = \<lparr>row = push_bit 1 (row t) OR ucast (drop_bit 1 i),
      column = push_bit 1 (column t) OR ucast (i AND 1), level = level t + 1\<rparr>"
    using uint_less_31 [OF assms(2)] changed_level_by_small [of t 1]
    by (simp add: get_child_def Let_def del: push_bit_of_1 drop_bit_Suc push_bit_Suc)
  show "level (get_child i t) = level t + 1" by (simp add: g)
  have b: "bit (row t) m \<Longrightarrow> m < 31" "bit (column t) m \<Longrightarrow> m < 31" for m
    using valid_bits(2,3) [OF assms(1), of m] l by auto
  show "bit (row (get_child i t)) n \<longleftrightarrow> (if n = 0 then bit i 1 else bit (row t) (n - 1))"
    using b(1) [of "n - 1"] bit_two [OF assms(3), of "Suc n"]
    by (auto simp: g bit_or_iff bit_push_bit_iff bit_unsigned_iff bit_drop_bit_eq simp del: push_bit_Suc)
  show "bit (column (get_child i t)) n \<longleftrightarrow> (if n = 0 then bit i 0 else bit (column t) (n - 1))"
    using b(2) [of "n - 1"] bit_two [OF assms(3), of n]
    by (auto simp: g bit_or_iff bit_push_bit_iff bit_unsigned_iff bit_and_iff bit_1_iff simp del: push_bit_Suc)
qed

lemma tile_key_bit_eqI:
  assumes "level s = level t" "\<And>n. bit (row s) n = bit (row t) n" "\<And>n. bit (column s) n = bit (column t) n"
  shows "s = (t :: tile_key)"
  using assms bit_eq_iff [of "row s" "row t"] bit_eq_iff [of "column s" "column t"]
  by (cases s; cases t) simp

lemma unat_Suc_level: "level t < 31 \<Longrightarrow> unat (level t + 1) = Suc (unat (level t))" for t :: tile_key
  by (simp add: unat_word_ariths take_bit_nat_eq_self word_less_nat_alt)

lemma is_valid_get_child:
  assumes "is_valid t" "level t < 31" "i < 4"
  shows "is_valid (get_child i t)"
proof -
  have "n < Suc (unat (level t))" if "bit (row t) (n - 1) \<or> bit (column t) (n - 1)" for n
    using that valid_bits(2,3) [OF assms(1), of "n - 1"] by linarith
  moreover have "unat (level t) < 31" using assms(2) by (simp add: word_less_nat_alt)
  ultimately show ?thesis
    by (auto simp: is_valid_bits get_child_bits [OF assms] unat_Suc_level [OF assms(2)] split: if_splits)
qed

lemma parent_bits:
  assumes "0 < level t"
  shows "level (parent t) = level t - 1" "bit (row (parent t)) n = bit (row t) (Suc n)"
    "bit (column (parent t)) n = bit (column t) (Suc n)"
  using assms by (simp_all add: parent_def from_row_column_level_def bit_drop_bit_eq)

lemma parent_get_child:
  assumes "is_valid t" "level t < 31" "i < 4"
  shows "parent (get_child i t) = t"
proof -
  have "0 < level t + 1" using unat_Suc_level [OF assms(2)] by (simp add: word_less_nat_alt)
  then show ?thesis
    by (intro tile_key_bit_eqI) (simp_all add: parent_bits get_child_bits [OF assms])
qed

lemma clear_low_bit:
  fixes x :: u32
  assumes "\<And>n. bit y n \<longleftrightarrow> 0 < n \<and> bit x n"
  shows "x - y = of_bool (bit x 0)"
proof -
  have "x = y OR of_bool (bit x 0)"
    by (rule bit_word_eqI) (use assms in \<open>auto simp: bit_or_iff bit_1_iff intro: gr0I\<close>)
  also have "\<dots> = y + of_bool (bit x 0)"
    by (rule disjunctive_add [symmetric]) (auto simp: assms bit_1_iff)
  finally have "x = y + of_bool (bit x 0)" .
  then show ?thesis by (metis add_diff_cancel_left')
qed

lemma parent_valid:
  assumes "is_valid t" "0 < level t"
  shows "is_valid (parent t)" "level (parent t) < 31" "level (parent t) + 1 = level t"
    "unat (level t) = Suc (unat (level (parent t)))"
proof -
  have u: "unat (level t - 1) = unat (level t) - 1"
    using assms(2) by (simp add: unat_sub word_less_nat_alt word_le_nat_alt)
  show "level (parent t) + 1 = level t" by (simp add: parent_bits assms(2))
  show "unat (level t) = Suc (unat (level (parent t)))"
    using assms(2) by (simp add: parent_bits u word_less_nat_alt)
  have "Suc n < unat (level t) \<Longrightarrow> n < unat (level t) - 1" for n by simp
  with valid_bits [OF assms(1)] show "is_valid (parent t)"
    by (auto simp: is_valid_bits parent_bits [OF assms(2)] u)
  show "level (parent t) < 31"
    using valid_bits(1) [OF assms(1)] assms(2) by (simp add: parent_bits u word_less_nat_alt)
qed

lemma relationship_bits:
  assumes "is_valid t" "0 < level t"
  shows "relationship_to_parent t = quadrant_of (2 * of_bool (bit (row t) 0) + of_bool (bit (column t) 0))"
proof -
  note pv = parent_valid [OF assms]
  have b: "bit (row (get_child 0 (parent t))) n \<longleftrightarrow> 0 < n \<and> bit (row t) n"
    "bit (column (get_child 0 (parent t))) n \<longleftrightarrow> 0 < n \<and> bit (column t) n" for n
    by (simp_all add: get_child_bits [OF pv(1,2)] parent_bits assms(2))
  have r: "row t - row (get_child 0 (parent t)) = of_bool (bit (row t) 0)"
    and c: "column t - column (get_child 0 (parent t)) = of_bool (bit (column t) 0)"
    by (rule clear_low_bit, rule b)+
  have "(row t - row (get_child 0 (parent t))) * 2 + column t - column (get_child 0 (parent t))
      = 2 * of_bool (bit (row t) 0) + of_bool (bit (column t) 0)"
    unfolding add_diff_eq [symmetric] r c by simp
  moreover have "level t \<noteq> 0" using assms(2) by auto
  ultimately show ?thesis
    unfolding relationship_to_parent_def Let_def by (simp only: if_False)
qed

lemma quadrant_bits:
  assumes "quadrant_of (2 * of_bool a + of_bool b) = q"
  shows "quadrant_index q < 4" "bit (quadrant_index q) 0 = b" "bit (quadrant_index q) 1 = a"
  using assms by (cases a; cases b; auto simp: quadrant_of_def quadrant_index_def bit_1_iff)+

lemma get_child_relationship:
  assumes "is_valid t" "0 < level t"
  shows "get_child (quadrant_index (relationship_to_parent t)) (parent t) = t"
proof -
  note pv = parent_valid [OF assms]
  note q = quadrant_bits [OF relationship_bits [OF assms, symmetric]]
  show ?thesis
    by (rule tile_key_bit_eqI) (simp_all add: get_child_bits [OF pv(1,2) q(1)] pv(3) q(2) q(3) [unfolded One_nat_def] parent_bits assms(2))
qed

lemma quadrant_of_child:
  assumes "is_valid t" "level t < 31" "i < 4"
  shows "quadrant_index (relationship_to_parent (get_child i t)) = i"
proof -
  have "0 < level (get_child i t)"
    using unat_Suc_level [OF assms(2)] by (simp add: get_child_bits [OF assms] word_less_nat_alt)
  note q = quadrant_bits [OF relationship_bits [OF is_valid_get_child [OF assms] this, symmetric]]
  show ?thesis
  proof (rule bit_word_eqI)
    fix n
    show "bit (quadrant_index (relationship_to_parent (get_child i t))) n = bit i n"
      unfolding bit_two [OF q(1), of n] bit_two [OF assms(3), of n] q(2,3) get_child_bits [OF assms] by simp
  qed
qed

lemma changed_level_to_down:
  assumes "l \<le> level t" "level t < 32"
  shows "changed_level_to l t =
    \<lparr>row = drop_bit (unat (level t) - unat l) (row t), column = drop_bit (unat (level t) - unat l) (column t), level = l\<rparr>"
proof -
  have u: "uint l \<le> uint (level t)" "uint (level t) < 32" using assms by (simp_all add: word_le_def word_less_def)
  have d: "sint (l - level t) = uint l - uint (level t)"
  proof -
    have "l - level t = word_of_int (uint l - uint (level t))" by simp
    moreover have "sint (word_of_int (uint l - uint (level t)) :: u32) = uint l - uint (level t)"
      unfolding sint_sbintrunc'
    proof (rule signed_take_bit_int_eq_self)
      have "0 \<le> uint l" by simp
      with u show "- (2 ^ (LENGTH(32) - 1)) \<le> uint l - uint (level t)" by (simp, linarith)
      from u show "uint l - uint (level t) < 2 ^ (LENGTH(32) - 1)" by simp
    qed
    ultimately show ?thesis by metis
  qed
  have n: "nat (uint (level t) - uint l) = unat (level t) - unat l"
    using u by (simp add: nat_diff_distrib nat_uint_eq)
  show ?thesis
    unfolding changed_level_to_def d using u n
    by (subst changed_level_by_small) auto
qed

lemma is_child_of_parent:
  assumes "is_valid t" "0 < level t"
  shows "is_child_of t (parent t)"
proof -
  note pv = parent_valid [OF assms]
  have "level t < 32" using assms(1) by (simp add: is_valid_def)
  moreover have "level (parent t) < level t" using pv(4) by (simp add: word_less_nat_alt)
  ultimately show ?thesis
    using pv(4) assms(2)
    by (auto simp: is_child_of_def changed_level_to_down parent_def from_row_column_level_def)
qed

lemma quad_digit_child:
  assumes "is_valid t" "level t < 31" "i < 4"
  shows "quad_digit (get_child i t) 0 = unat i" "quad_digit (get_child i t) (Suc n) = quad_digit t n"
proof -
  have "unat i < 4" using assms(3) by (simp add: word_less_nat_alt)
  then have "unat i = 2 * of_bool (bit (unat i) 1) + of_bool (bit (unat i) 0)"
    by (auto simp: less_4_cases bit_Suc bit_0)
  then show "quad_digit (get_child i t) 0 = unat i"
    by (simp add: quad_digit_def get_child_bits [OF assms] bit_unsigned_iff)
  show "quad_digit (get_child i t) (Suc n) = quad_digit t n"
    by (simp add: quad_digit_def get_child_bits [OF assms])
qed

lemma to_quad_key_child:
  assumes "is_valid t" "level t < 31" "i < 4"
  shows "to_quad_key (get_child i t) =
    (if level t = 0 then [] else to_quad_key t) @ [char_of (unat i + 48)]"
proof -
  have ne: "level t + 1 \<noteq> 0" using unat_Suc_level [OF assms(2)] by auto
  have "to_quad_key (get_child i t) =
      rev (map (\<lambda>i'. char_of (quad_digit (get_child i t) i' + 48)) (0 # map Suc [0..<unat (level t)]))"
    using to_quad_key_digits [OF is_valid_get_child [OF assms]] ne
    by (simp add: get_child_bits [OF assms] unat_Suc_level [OF assms(2)] upt_conv_Cons map_Suc_upt del: upt_Suc)
  then show ?thesis
    using to_quad_key_digits [OF assms(1)]
    by (auto simp: quad_digit_child [OF assms] comp_def)
qed

text \<open>
  up to level 30, the four children of a valid tile key are valid, have it as their parent, know
  which of its quadrants they are and extend its quad string by the digit of that quadrant.
\<close>

theorem children_of_valid_key:
  assumes "is_valid t" "level t < 31" "i < 4"
  shows "is_valid (get_child i t) \<and> parent (get_child i t) = t \<and>
    quadrant_index (relationship_to_parent (get_child i t)) = i \<and>
    to_quad_key (get_child i t) = (if level t = 0 then [] else to_quad_key t) @ [char_of (unat i + 48)]"
  using is_valid_get_child [OF assms] parent_get_child [OF assms] quadrant_of_child [OF assms]
    to_quad_key_child [OF assms] by blast

lemma children_of_valid_key_witness:
  "is_valid (get_child 2 \<lparr>row = 5, column = 3, level = 3\<rparr>) \<and>
    parent (get_child 2 \<lparr>row = 5, column = 3, level = 3\<rparr>) = \<lparr>row = 5, column = 3, level = 3\<rparr> \<and>
    quadrant_index (relationship_to_parent (get_child 2 \<lparr>row = 5, column = 3, level = 3\<rparr>)) = 2 \<and>
    to_quad_key (get_child 2 \<lparr>row = 5, column = 3, level = 3\<rparr>) =
      (if (3 :: u32) = 0 then [] else to_quad_key \<lparr>row = 5, column = 3, level = 3\<rparr>) @ [char_of (unat (2 :: u8) + 48)]"
  using children_of_valid_key [of "\<lparr>row = 5, column = 3, level = 3\<rparr>" 2]
  by (simp add: is_valid_def)

text \<open>
  a valid tile key below the root is a child of its parent, and is reached again from there by the
  quadrant it stands in.
\<close>

theorem parent_of_valid_key:
  assumes "is_valid t" "0 < level t"
  shows "is_valid (parent t) \<and> is_child_of t (parent t) \<and> is_parent_of (parent t) t \<and>
    get_child (quadrant_index (relationship_to_parent t)) (parent t) = t"
  using parent_valid(1) [OF assms] is_child_of_parent [OF assms] get_child_relationship [OF assms]
  by (simp add: is_parent_of_def)

lemma parent_of_valid_key_witness:
  "is_valid (parent \<lparr>row = 5, column = 2, level = 3\<rparr>) \<and>
    is_child_of \<lparr>row = 5, column = 2, level = 3\<rparr> (parent \<lparr>row = 5, column = 2, level = 3\<rparr>) \<and>
    is_parent_of (parent \<lparr>row = 5, column = 2, level = 3\<rparr>) \<lparr>row = 5, column = 2, level = 3\<rparr> \<and>
    get_child (quadrant_index (relationship_to_parent \<lparr>row = 5, column = 2, level = 3\<rparr>))
      (parent \<lparr>row = 5, column = 2, level = 3\<rparr>) = \<lparr>row = 5, column = 2, level = 3\<rparr>"
  by (rule parent_of_valid_key) (simp_all add: is_valid_def)

section \<open>Sub keys\<close>

lemma changed_level_by_up:
  assumes "is_valid t" "d \<le> unat (level t)"
  shows "changed_level_by (- int d) t =
    \<lparr>row = drop_bit d (row t), column = drop_bit d (column t), level = level t - of_nat d\<rparr>"
proof -
  have "int d \<le> int (unat (level t))" "int (unat (level t)) < 32"
    using assms(2) valid_bits(1) [OF assms(1)] by linarith+
  then have u: "int d \<le> uint (level t)" "uint (level t) < 32" by simp_all
  then show ?thesis
    by (subst changed_level_by_small) auto
qed

lemma drop_quad_key64:
  assumes "is_valid t" "d \<le> unat (level t)"
  shows "drop_bit (2 * d) (to_quad_key64 t) = to_quad_key64 (changed_level_by (- int d) t)"
proof (rule bit_word_eqI)
  fix n assume "n < LENGTH(64)"
  have l: "unat (level t - of_nat d) = unat (level t) - d"
    using assms(2) valid_bits(1) [OF assms(1)]
    by (simp add: unat_sub word_le_nat_alt unsigned_of_nat take_bit_nat_eq_self)
  have "2 * d + n < 64" if "bit x (d + n div 2)" for x :: u32
    using bit_u32_less [OF that] by linarith
  then show "bit (drop_bit (2 * d) (to_quad_key64 t)) n = bit (to_quad_key64 (changed_level_by (- int d) t)) n"
    using valid_bits [OF assms(1)] assms(2) \<open>n < LENGTH(64)\<close>
    by (auto simp: changed_level_by_up [OF assms] bit_quad_key64 bit_drop_bit_eq l)
qed

lemma unat_exp_u64: "n < 64 \<Longrightarrow> unat (push_bit n 1 :: u64) = 2 ^ n"
  by (simp add: unsigned_push_bit_eq take_bit_nat_eq_self del: push_bit_of_1)

lemma added_subkey_loop_step:
  "added_subkey_loop n q m r =
    (if push_bit 2 m \<le> q
     then (case n of 0 \<Rightarrow> None | Suc k \<Rightarrow> added_subkey_loop k q (push_bit 2 m) (push_bit 2 r))
     else Some (m, r))"
  by (fact added_subkey_loop.simps)

lemma added_subkey_loop_ends:
  assumes "push_bit (2 * d) 1 \<le> q" "q < push_bit (2 * d + 2) (1 :: u64)" "d \<le> 30"
    and "j \<le> d" "d \<le> j + n"
  shows "added_subkey_loop n q (push_bit (2 * j) 1) r = Some (push_bit (2 * d) 1, push_bit (2 * (d - j)) r)"
  using assms(4,5)
proof (induction n arbitrary: j r)
  case 0
  then have "j = d" by simp
  then show ?case using assms(2)
    by (subst added_subkey_loop_step) (simp add: not_less [symmetric] add.commute del: push_bit_of_1)
next
  case (Suc n)
  have p: "push_bit 2 (push_bit (2 * j) 1) = (push_bit (2 * Suc j) 1 :: u64)"
    by (simp del: push_bit_of_1)
  show ?case
  proof (cases "j = d")
    case True
    then show ?thesis using assms(2)
      by (subst added_subkey_loop_step) (simp add: not_less [symmetric] add.commute del: push_bit_of_1)
  next
    case False
    then have j: "Suc j \<le> d" using Suc.prems by simp
    have "unat (push_bit (2 * Suc j) 1 :: u64) \<le> unat (push_bit (2 * d) 1 :: u64)"
      using j assms(3) power_increasing [of "2 * Suc j" "2 * d" "2 :: nat"]
      by (subst (1 2) unat_exp_u64) (simp_all del: power_Suc mult_Suc_right)
    then have "push_bit (2 * Suc j) 1 \<le> q" using assms(1) by (simp add: word_le_nat_alt del: push_bit_of_1 mult_Suc_right)
    then have "added_subkey_loop (Suc n) q (push_bit (2 * j) 1) r =
        added_subkey_loop n q (push_bit (2 * Suc j) 1) (push_bit 2 r)"
      by (subst added_subkey_loop_step) (simp only: p if_True nat.case)
    also have "\<dots> = Some (push_bit (2 * d) 1, push_bit (2 * (d - Suc j)) (push_bit 2 r))"
      using Suc.prems j by (intro Suc.IH) auto
    also have "push_bit (2 * (d - Suc j)) (push_bit 2 r) = push_bit (2 * (d - j)) r"
    proof -
      have "2 * (d - j) = 2 * (d - Suc j) + 2" using j by simp
      then show ?thesis by (simp only: push_bit_push_bit)
    qed
    finally show ?thesis .
  qed
qed

lemma exp_le_bit: "bit (w :: u64) n \<Longrightarrow> push_bit n 1 \<le> w"
proof (rule ccontr)
  assume b: "bit w n" "\<not> push_bit n 1 \<le> w"
  then have "n < 64" by (auto dest: bit_u64_less)
  with b(2) have "unat w < 2 ^ n" by (simp add: word_le_nat_alt unat_exp_u64 del: push_bit_of_1)
  then have "take_bit n (unat w) = unat w" by (simp add: take_bit_nat_eq_self)
  then have "bit (unat w) n = (n < n \<and> bit (unat w) n)" by (metis bit_take_bit_iff)
  with b(1) show False by (auto simp: bit_unsigned_iff dest: bit_imp_le_length)
qed

lemma less_exp_bits:
  assumes "m < 64" "\<And>n. bit w n \<Longrightarrow> n < m" shows "(w :: u64) < push_bit m 1"
proof -
  have "take_bit m (unat w) = unat w"
    by (rule bit_eqI) (use assms(2) in \<open>auto simp: bit_take_bit_iff bit_unsigned_iff\<close>)
  then have "unat w < 2 ^ m" by (metis take_bit_nat_less_exp)
  then show ?thesis by (simp add: word_less_nat_alt unat_exp_u64 [OF assms(1)] del: push_bit_of_1)
qed

lemma exp_minus_1_mask: "push_bit n 1 - 1 = (mask n :: u64)"
  by (simp add: mask_eq_exp_minus_1)

lemma bit_get_subkey:
  "2 * d < 64 \<Longrightarrow> bit (helper_get_subkey d q) n \<longleftrightarrow> n = 2 * d \<or> n < 2 * d \<and> bit q n"
  by (auto simp: helper_get_subkey_def Let_def exp_minus_1_mask bit_or_iff bit_and_iff bit_mask_iff
      bit_push_bit_iff bit_1_iff mult.commute simp del: push_bit_of_1)

lemma helper_added_get_subkey:
  assumes "d \<le> 30"
  shows "helper_added_subkey (drop_bit (2 * d) q) (helper_get_subkey d q) = Some q"
proof -
  let ?s = "helper_get_subkey d q"
  have b: "bit ?s n \<longleftrightarrow> n = 2 * d \<or> n < 2 * d \<and> bit q n" for n
    using assms by (simp add: bit_get_subkey)
  have "added_subkey_loop 32 ?s (push_bit (2 * 0) 1) (drop_bit (2 * d) q) =
      Some (push_bit (2 * d) 1, push_bit (2 * (d - 0)) (drop_bit (2 * d) q))"
  proof (rule added_subkey_loop_ends)
    show "push_bit (2 * d) 1 \<le> ?s" by (rule exp_le_bit) (simp add: b)
    show "?s < push_bit (2 * d + 2) 1" by (rule less_exp_bits) (use assms b in auto)
  qed (use assms in auto)
  moreover have "push_bit (2 * d) (drop_bit (2 * d) q) OR (?s AND (push_bit (2 * d) 1 - 1)) = q"
  proof (rule bit_word_eqI)
    fix n assume "n < LENGTH(64)"
    then show "bit (push_bit (2 * d) (drop_bit (2 * d) q) OR (?s AND (push_bit (2 * d) 1 - 1))) n = bit q n"
      by (cases "2 * d \<le> n")
        (auto simp: exp_minus_1_mask bit_or_iff bit_and_iff bit_mask_iff b bit_push_bit_iff bit_drop_bit_eq
          simp del: push_bit_of_1)
  qed
  ultimately show ?thesis by (simp add: helper_added_subkey_def del: push_bit_of_1)
qed

text \<open>
  a sub key that spans at most 30 levels, added to the ancestor that many levels above, gives the
  tile key again.
\<close>

theorem subkey_round_trip:
  assumes "is_valid t" "d \<le> unat (level t)" "d \<le> 30"
  shows "added_subkey64 (get_subkey64 d t) (changed_level_by (- int d) t) = Some t"
  using helper_added_get_subkey [OF assms(3), of "to_quad_key64 t"] drop_quad_key64 [OF assms(1,2)]
    from_to_quad_key64 [OF assms(1)]
  by (simp add: added_subkey64_def get_subkey64_def)

lemma subkey_round_trip_witness:
  "added_subkey64 (get_subkey64 2 \<lparr>row = 5, column = 2, level = 3\<rparr>)
     (changed_level_by (- int 2) \<lparr>row = 5, column = 2, level = 3\<rparr>) = Some \<lparr>row = 5, column = 2, level = 3\<rparr>"
  by (rule subkey_round_trip) (simp_all add: is_valid_def)

lemma added_subkey_loop_runs_on:
  assumes "push_bit 62 1 \<le> q"
  shows "added_subkey_loop n q (push_bit (2 * j) 1) r = None"
proof -
  have p: "push_bit 2 (push_bit (2 * j) 1) = (push_bit (2 * Suc j) 1 :: u64)" for j
    by (simp del: push_bit_of_1)
  have le: "push_bit (2 * Suc j) 1 \<le> q" for j
  proof (cases "2 * Suc j < 64")
    case True
    then have "2 * Suc j \<le> 62" by simp
    then have "unat (push_bit (2 * Suc j) 1 :: u64) \<le> unat (push_bit 62 1 :: u64)"
      using power_increasing [of "2 * Suc j" 62 "2 :: nat"]
      by (subst (1 2) unat_exp_u64) (simp_all del: power_Suc mult_Suc_right)
    then show ?thesis using assms by (simp add: word_le_nat_alt del: push_bit_of_1 mult_Suc_right)
  next
    case False
    moreover have "(push_bit m 1 :: u64) = 0" if "64 \<le> m" for m
      using that by (intro bit_word_eqI) (auto simp: bit_push_bit_iff bit_1_iff simp del: push_bit_of_1)
    ultimately have "(push_bit (2 * Suc j) 1 :: u64) = 0" by (simp only: not_less)
    then show ?thesis by simp
  qed
  show ?thesis
  proof (induction n arbitrary: j r)
    case 0
    show ?case by (subst added_subkey_loop_step) (simp only: p le if_True nat.case)
  next
    case (Suc n)
    show ?case by (subst added_subkey_loop_step) (simp only: p le if_True nat.case Suc.IH)
  qed
qed

text \<open>
  adding a sub key that spans 31 levels does not end: the mask of the loop in
  \<open>QuadKey64Helper::AddedSubkey\<close> is shifted out of its word before it passes the sub key, whatever
  number of steps is allowed.
\<close>

theorem added_subkey_31_runs_on:
  assumes "is_valid t" "level t = 31"
  shows "added_subkey_loop n (get_subkey64 31 t) 1 key = None"
proof -
  have "bit (get_subkey64 31 t) 62"
    by (simp add: get_subkey64_def bit_get_subkey)
  then have "push_bit 62 1 \<le> get_subkey64 31 t" by (rule exp_le_bit)
  from added_subkey_loop_runs_on [OF this, of n 0 key] show ?thesis by simp
qed

lemma added_subkey_31_runs_on_witness:
  "added_subkey_loop 100 (get_subkey64 31 \<lparr>row = 5, column = 2, level = 31\<rparr>) 1 1 = None"
  by (rule added_subkey_31_runs_on) (simp_all add: is_valid_def)

section \<open>Relative and absolute keys\<close>

lemma take_drop_sum: "x - push_bit d (drop_bit d x) = take_bit d x" for x :: u32
proof -
  have "x = push_bit d (drop_bit d x) OR take_bit d x"
    by (rule bit_word_eqI) (auto simp: bit_or_iff bit_push_bit_iff bit_drop_bit_eq bit_take_bit_iff)
  also have "\<dots> = push_bit d (drop_bit d x) + take_bit d x"
    by (rule disjunctive_add [symmetric]) (auto simp: bit_push_bit_iff bit_take_bit_iff)
  finally show ?thesis by (metis add_diff_cancel_left')
qed

lemma level_diff:
  assumes "p \<le> level t" "level t < 32"
  shows "sint (level t - p) = int (unat (level t) - unat p)" "unat (level t - p) = unat (level t) - unat p"
    "uint p + int (unat (level t) - unat p) = uint (level t)" "p + of_nat (unat (level t) - unat p) = level t"
proof -
  show u: "unat (level t - p) = unat (level t) - unat p"
    using assms(1) by (simp add: unat_sub)
  have l: "unat (level t) < 32" "unat p \<le> unat (level t)"
    using assms by (simp_all add: word_less_nat_alt word_le_nat_alt)
  let ?d = "unat (level t) - unat p"
  have w: "level t - p = of_nat ?d" unfolding u [symmetric] by simp
  then show "p + of_nat ?d = level t" by (metis add.commute diff_add_cancel)
  have "sint (level t - p) = sint (word_of_int (int ?d) :: u32)" unfolding w by simp
  also have "\<dots> = int ?d"
    unfolding sint_sbintrunc'
  proof (rule signed_take_bit_int_eq_self)
    show "- (2 ^ (LENGTH(32) - 1)) \<le> int ?d" by (rule order_trans [of _ 0]) simp_all
    have "(32 :: nat) \<le> 2 ^ 31" by simp
    then have "?d < 2 ^ 31" using l(1) diff_le_self [of "unat (level t)" "unat p"] by linarith
    then show "int ?d < 2 ^ (LENGTH(32) - 1)" by (simp del: of_nat_diff)
  qed
  finally show "sint (level t - p) = int ?d" .
  have "int (unat p) + int (unat (level t) - unat p) = int (unat (level t))" using l by simp
  then show "uint p + int (unat (level t) - unat p) = uint (level t)" by simp
qed

lemma changed_level_to_and_back:
  assumes "is_valid t" "p \<le> level t"
  defines "d \<equiv> unat (level t) - unat p"
  shows "changed_level_to (level t) (changed_level_to p t) =
    \<lparr>row = push_bit d (drop_bit d (row t)), column = push_bit d (drop_bit d (column t)), level = level t\<rparr>"
proof -
  have l: "level t < 32" using assms(1) by (simp add: is_valid_def)
  note ld = level_diff [OF assms(2) l]
  have "uint (level t) < 2 ^ 31" using l by (simp add: word_less_def)
  then show ?thesis
    unfolding changed_level_to_down [OF assms(2) l] d_def [symmetric]
    unfolding changed_level_to_def using ld
    by (subst changed_level_by_small) (simp_all add: d_def)
qed

lemma relative_sub_tile_key_eq:
  assumes "is_valid t" "p \<le> level t"
  defines "d \<equiv> unat (level t) - unat p"
  shows "relative_sub_tile_key t p = \<lparr>row = take_bit d (row t), column = take_bit d (column t), level = level t - p\<rparr>"
  using changed_level_to_and_back [OF assms(1,2)]
  by (simp add: relative_sub_tile_key_def Let_def from_row_column_level_def take_drop_sum d_def)

text \<open>
  below any ancestor level, the relative key of a valid tile key is a valid key of the difference of
  the levels, and \<open>GetAbsoluteSubTileKey\<close> of the ancestor and that key is the tile key again.
\<close>

theorem relative_absolute_round_trip:
  assumes "is_valid t" "p \<le> level t"
  shows "is_valid (relative_sub_tile_key t p) \<and> level (relative_sub_tile_key t p) = level t - p \<and>
    absolute_sub_tile_key (changed_level_to p t) (relative_sub_tile_key t p) = t"
proof (intro conjI)
  let ?r = "relative_sub_tile_key t p"
  have l: "level t < 32" using assms(1) by (simp add: is_valid_def)
  show lr: "level ?r = level t - p" by (simp add: relative_sub_tile_key_eq [OF assms])
  show "is_valid ?r"
    using valid_bits(1) [OF assms(1)]
    by (auto simp: relative_sub_tile_key_eq [OF assms] is_valid_bits bit_take_bit_iff level_diff(2) [OF assms(2) l])
  have "changed_level_by (sint (level t - p)) (changed_level_to p t) = changed_level_to (level t) (changed_level_to p t)"
    unfolding changed_level_to_def [of "level t"] by (simp add: changed_level_to_down [OF assms(2) l])
  then show "absolute_sub_tile_key (changed_level_to p t) ?r = t"
    by (simp add: absolute_sub_tile_key_def Let_def lr changed_level_to_and_back [OF assms])
      (simp add: relative_sub_tile_key_def Let_def from_row_column_level_def changed_level_to_and_back [OF assms])
qed

lemma relative_absolute_round_trip_witness:
  "is_valid (relative_sub_tile_key \<lparr>row = 13, column = 6, level = 4\<rparr> 1) \<and>
    level (relative_sub_tile_key \<lparr>row = 13, column = 6, level = 4\<rparr> 1) = 4 - 1 \<and>
    absolute_sub_tile_key (changed_level_to 1 \<lparr>row = 13, column = 6, level = 4\<rparr>)
      (relative_sub_tile_key \<lparr>row = 13, column = 6, level = 4\<rparr> 1) = \<lparr>row = 13, column = 6, level = 4\<rparr>"
  using relative_absolute_round_trip [of "\<lparr>row = 13, column = 6, level = 4\<rparr>" 1, unfolded is_valid_def [of "\<lparr>row = 13, column = 6, level = 4\<rparr>"]]
  by simp

section \<open>Iteration over sub tiles\<close>

definition st_selected :: "sub_tiles \<Rightarrow> u32 \<Rightarrow> bool" where
  "st_selected st index \<longleftrightarrow> st_mask st = - 1 \<or>
     (ucast (st_mask st) :: u32) AND push_bit (unat (drop_bit (unat (st_shift st)) index)) 1 \<noteq> 0"

lemma skip_cases:
  "skip st i = (if i < st_count st \<and> \<not> st_selected st i then skip st (i + 1) else i)"
  unfolding skip_def st_selected_def
  by (cases "st_mask st = - 1"; subst skip_loop.simps) (simp_all del: push_bit_of_1)

lemma unat_Suc_less: "i < c \<Longrightarrow> unat (i + 1) = Suc (unat i)" for c :: u32
  using unsigned_less [where ?'a = nat, of c]
  by (simp add: unat_word_ariths take_bit_nat_eq_self word_less_nat_alt)

lemma st_walk_selected:
  assumes "unat i \<le> unat (st_count st)" "unat (st_count st) - unat i < n"
  shows "st_walk n st (skip st i) =
    map (\<lambda>k. st_deref st (of_nat k)) (filter (\<lambda>k. st_selected st (of_nat k)) [unat i..<unat (st_count st)])"
  using assms
proof (induction "unat (st_count st) - unat i" arbitrary: i n)
  case 0
  then have "unat i = unat (st_count st)" by simp
  then have "i = st_count st" by (simp only: word_unat_eq_iff)
  then show ?case using 0 by (cases n) (simp_all add: st_end_def)
next
  case (Suc d)
  then have lt: "i < st_count st" by (simp add: word_less_nat_alt)
  note u = unat_Suc_less [OF lt]
  have ending: "st_end st = st_count st" unfolding st_end_def by (subst skip_cases) simp
  have range: "[unat i..<unat (st_count st)] = unat i # [unat (i + 1)..<unat (st_count st)]"
    using lt unfolding u by (simp add: word_less_nat_alt upt_conv_Cons)
  show ?case
  proof (cases "st_selected st i")
    case True
    then have "skip st i = i" by (subst skip_cases) simp
    moreover obtain m where "n = Suc m" using Suc.prems by (cases n) auto
    moreover have "st_walk m st (skip st (i + 1)) =
        map (\<lambda>k. st_deref st (of_nat k)) (filter (\<lambda>k. st_selected st (of_nat k)) [unat (i + 1)..<unat (st_count st)])"
      using Suc \<open>n = Suc m\<close> u by (intro Suc.hyps) auto
    ultimately show ?thesis
      using True lt unfolding range by (simp add: ending st_next_def less_imp_neq del: upt_Suc)
  next
    case False
    then have "skip st i = skip st (i + 1)" using lt by (subst skip_cases) simp
    moreover have "st_walk n st (skip st (i + 1)) =
        map (\<lambda>k. st_deref st (of_nat k)) (filter (\<lambda>k. st_selected st (of_nat k)) [unat (i + 1)..<unat (st_count st)])"
      using Suc u by (intro Suc.hyps) auto
    ultimately show ?thesis using False unfolding range by simp
  qed
qed

lemma st_items_selected:
  "st_items st = map (\<lambda>k. st_deref st (of_nat k))
     (filter (\<lambda>k. st_selected st (of_nat k)) [0..<unat (st_count st)])"
  using st_walk_selected [of 0 st "Suc (unat (st_count st))"]
  by (simp add: st_items_def st_begin_def)

text \<open>
  C5: a loop over \<open>SubTiles\<close> visits exactly the sub tiles whose bit is set in the mask, each once and in
  the order of their index, and ends.
\<close>

theorem sub_tiles_visits_selected:
  "st_items st = map (\<lambda>k. st_deref st (of_nat k))
     (filter (\<lambda>k. st_selected st (of_nat k)) [0..<unat (st_count st)])"
  by (rule st_items_selected)

section \<open>Nodes below a node\<close>

lemma sub_node_is_child:
  assumes "level t < 31" "k < 4"
  shows "st_deref (sub_tiles_new t 1 m) (of_nat k) = get_child (of_nat k) t"
proof -
  have c: "changed_level_by 1 t = \<lparr>row = push_bit 1 (row t), column = push_bit 1 (column t), level = level t + 1\<rparr>"
    using uint_less_31 [OF assms(1)] changed_level_by_small [of t 1] by (simp del: push_bit_Suc)
  have "k = 0 \<or> k = 1 \<or> k = 2 \<or> k = 3" using assms(2) by (simp add: less_4_cases disj_ac)
  then show ?thesis
    by (elim disjE)
      (simp_all add: st_deref_def sub_tiles_new_def get_child_def c Let_def from_row_column_level_def del: push_bit_Suc)
qed

lemma st_items_mask:
  assumes "level t < 31" "m = 15 \<and> n = 4 \<or> m = 3 \<and> n = 2"
  shows "st_items (sub_tiles_new t 1 m) = map (\<lambda>k. get_child (of_nat k) t) [0..<n]"
proof -
  have four: "[0..<4] = [0, 1, 2, 3 :: nat]" by (simp add: upt_rec)
  have "unat (st_count (sub_tiles_new t 1 m)) = 4" by (simp add: sub_tiles_new_def)
  moreover have "filter (\<lambda>k. st_selected (sub_tiles_new t 1 m) (of_nat k)) [0, 1, 2, 3] = [0..<n]"
    using assms(2) by (elim disjE) (simp_all add: st_selected_def sub_tiles_new_def upt_rec)
  ultimately show ?thesis
    using sub_node_is_child [OF assms(1), of _ m] assms(2)
    by (auto simp: st_items_selected four)
qed

definition in_level :: "(u32 \<Rightarrow> size_2u) \<Rightarrow> tile_key \<Rightarrow> bool" where
  "in_level level_size t \<longleftrightarrow> level t < 32 \<and>
     row t < snd (level_size (level t)) \<and> column t < fst (level_size (level t))"

lemma unat_double:
  fixes w :: u32
  assumes "unat w \<le> 2 ^ 30" shows "unat (2 * w) = 2 * unat w"
proof -
  have "2 * unat w \<le> 2 * 2 ^ 30" using assms by (rule mult_le_mono2)
  then have "2 * unat w < 2 ^ 32" by (rule le_less_trans) simp
  then show ?thesis by (simp add: unat_word_ariths take_bit_nat_eq_self)
qed

lemma double_less: "unat w \<le> 2 ^ 30 \<Longrightarrow> x < 2 * w \<longleftrightarrow> drop_bit 1 x < w" for w :: u32
  unfolding word_less_nat_alt unat_double unat_drop_bit_eq by (simp add: drop_bit_eq_div) linarith

lemma small_quadrant: "i < 4 \<Longrightarrow> i < 2 \<longleftrightarrow> \<not> bit i 1" for i :: u8
proof -
  assume "i < 4"
  then have "unat i < 4" by (simp add: word_less_nat_alt)
  then have "unat i < 2 \<longleftrightarrow> \<not> bit (unat i) 1"
    by (auto simp: less_4_cases bit_Suc bit_0)
  moreover have "bit (unat i) 1 = bit i 1" by (simp add: bit_unsigned_iff)
  ultimately show ?thesis by (simp add: word_less_nat_alt)
qed

locale subdivision_scheme =
  fixes subdivision_at :: "u32 \<Rightarrow> size_2u" and level_size :: "u32 \<Rightarrow> size_2u"
  assumes root_size: "level_size 0 = (1, 1)"
    and level_bound: "unat l < 32 \<Longrightarrow>
      unat (fst (level_size l)) \<le> 2 ^ unat l \<and> unat (snd (level_size l)) \<le> 2 ^ unat l"
    and subdivides: "l < 31 \<Longrightarrow>
      subdivision_at l = (2, 2) \<and> level_size (l + 1) = (2 * fst (level_size l), 2 * snd (level_size l)) \<or>
      subdivision_at l = (2, 1) \<and> snd (level_size l) = 1 \<and> level_size (l + 1) = (2 * fst (level_size l), 1)"
begin

lemma in_level_valid:
  assumes "in_level level_size t" shows "is_valid t"
proof -
  have l: "unat (level t) < 32" using assms by (simp add: in_level_def word_less_nat_alt)
  with level_bound [OF l] assms show ?thesis
    unfolding in_level_def is_valid_def word_less_nat_alt unat_exp_u32 [OF l] by auto
qed

lemma sub_nodes_items:
  assumes "level t < 31"
  shows "st_items (sub_nodes subdivision_at t) =
    map (\<lambda>k. get_child (of_nat k) t) [0..<(if subdivision_at (level t) = (2, 2) then 4 else 2)]"
proof -
  have m: "(ucast (mask 4 :: u32) :: u16) = 15" "(ucast (mask 2 :: u32) :: u16) = 3"
    by (simp_all add: mask_eq_exp_minus_1)
  show ?thesis
    using subdivides [OF assms] by (auto simp: sub_nodes_def st_items_mask assms m)
qed

lemma child_in_level:
  assumes "level t < 31" "level c = level t + 1" "parent c = t"
  shows "in_level level_size c \<longleftrightarrow> in_level level_size t \<and> (subdivision_at (level t) = (2, 2) \<or> row c = 0)"
proof -
  have b: "unat (fst (level_size (level t))) \<le> 2 ^ 30" "unat (snd (level_size (level t))) \<le> 2 ^ 30"
    using level_bound [of "level t"] assms(1) power_increasing [of "unat (level t)" 30 "2 :: nat"]
    by (auto simp: word_less_nat_alt intro: order_trans)
  have l: "level t + 1 < 32" "level t < 32" using unat_Suc_level [OF assms(1)] assms(1)
    by (simp_all add: word_less_nat_alt)
  have pos: "0 < level t + 1" using unat_Suc_level [OF assms(1)] by (simp add: word_less_nat_alt)
  have p: "drop_bit 1 (row c) = row t" "drop_bit 1 (column c) = column t"
  proof -
    have "parent c = from_row_column_level (drop_bit 1 (row c)) (drop_bit 1 (column c)) (level c - 1)"
      using pos by (simp only: parent_def assms(2) if_True)
    then show "drop_bit 1 (row c) = row t" "drop_bit 1 (column c) = column t"
      unfolding assms(3) by (simp_all add: from_row_column_level_def)
  qed
  have z: "x < 1 \<longleftrightarrow> x = 0" for x :: u32 by (simp add: word_less_nat_alt unat_eq_zero)
  note dl = double_less [OF b(2), of "row c", unfolded p] double_less [OF b(1), of "column c", unfolded p]
  have "row c = 0 \<Longrightarrow> row t = 0" using p(1) by auto
  with subdivides [OF assms(1)] show ?thesis
    using dl l unfolding in_level_def assms(2)
    by (elim disjE) (auto simp: z)
qed

lemma sub_nodes_complete:
  assumes "in_level level_size t" "level t < 31"
  shows "set (st_items (sub_nodes subdivision_at t)) =
    {c. level c = level t + 1 \<and> in_level level_size c \<and> parent c = t}"
proof -
  let ?n = "if subdivision_at (level t) = (2, 2) then 4 else 2 :: nat"
  note v = in_level_valid [OF assms(1)]
  have row0: "row t = 0" if "subdivision_at (level t) \<noteq> (2, 2)"
    using subdivides [OF assms(2)] that assms(1) by (auto simp: in_level_def word_less_nat_alt unat_eq_zero)
  have small: "(of_nat k :: u8) < 4 \<and> (of_nat k < (2 :: u8) \<longleftrightarrow> k < 2)" if "k < ?n" for k
    using that by (auto simp: less_4_cases less_2_cases_iff split: if_splits)
  have low: "i < 2 \<longleftrightarrow> \<not> bit i 1" if "i < 4" for i :: u8
    by (rule small_quadrant [OF that])
  have row_child: "row (get_child i t) = 0 \<longleftrightarrow> i < 2" if "i < 4" "row t = 0" for i
    unfolding bit_eq_iff [of "row (get_child i t)"] get_child_bits(2) [OF v assms(2) that(1)] low [OF that(1)]
    using that(2) by auto
  have "c \<in> (\<lambda>k. get_child (of_nat k) t) ` {0..<?n} \<longleftrightarrow> level c = level t + 1 \<and> in_level level_size c \<and> parent c = t" for c
  proof
    assume "c \<in> (\<lambda>k. get_child (of_nat k) t) ` {0..<?n}"
    then obtain k where k: "k < ?n" "c = get_child (of_nat k) t" by auto
    with get_child_bits(1) [OF v assms(2)] parent_get_child [OF v assms(2)] small [OF k(1)]
    have c: "level c = level t + 1" "parent c = t" by auto
    have "subdivision_at (level t) = (2, 2) \<or> row c = 0"
      using k small [OF k(1)] row0 row_child by (auto split: if_splits)
    with child_in_level [OF assms(2) c] assms(1) c
    show "level c = level t + 1 \<and> in_level level_size c \<and> parent c = t" by blast
  next
    assume c: "level c = level t + 1 \<and> in_level level_size c \<and> parent c = t"
    then have vc: "is_valid c" by (blast intro: in_level_valid)
    have pos: "0 < level c" using c unat_Suc_level [OF assms(2)] by (simp add: word_less_nat_alt)
    define q where "q = quadrant_index (relationship_to_parent c)"
    have q: "get_child q t = c" "q < 4"
      using get_child_relationship [OF vc pos] quadrant_bits(1) [OF relationship_bits [OF vc pos, symmetric]] c
      by (auto simp: q_def)
    have "q < 2" if "subdivision_at (level t) \<noteq> (2, 2)"
      using that child_in_level [OF assms(2), of c] c row_child [OF q(2) row0] q(1) by auto
    then have "unat q < ?n" using q(2) by (auto simp: word_less_nat_alt)
    moreover have "c = get_child (of_nat (unat q)) t" using q(1) by simp
    ultimately show "c \<in> (\<lambda>k. get_child (of_nat k) t) ` {0..<?n}" by (intro image_eqI [of _ _ "unat q"]) auto
  qed
  then show ?thesis
    unfolding sub_nodes_items [OF assms(2)] set_map set_upt by blast
qed

end

lemma half_quad_bound:
  "unat l < 32 \<Longrightarrow> unat (fst (half_quad_level_size l)) \<le> 2 ^ unat l \<and> unat (snd (half_quad_level_size l)) \<le> 2 ^ unat l"
proof -
  assume l: "unat l < 32"
  have "unat (l - 1) < 32 \<and> (2 :: nat) ^ unat (l - 1) \<le> 2 ^ unat l" if "l \<noteq> 0"
    using l that by (auto simp: unat_minus_one intro!: power_increasing)
  then show ?thesis
    using l unat_exp_u32 [of "unat (l - 1)"]
    unfolding half_quad_level_size_def fst_conv snd_conv unat_exp_u32 [OF l]
    by (auto simp del: push_bit_of_1)
qed

lemma exp_Suc_level: "l < 31 \<Longrightarrow> push_bit (unat (l + 1)) 1 = 2 * push_bit (unat l) (1 :: u32)" for l :: u32
  using unat_Suc_level [of "\<lparr>row = 0, column = 0, level = l\<rparr>"] by simp

lemma half_quad_subdivides:
  assumes "l < 31"
  shows "half_quad_subdivision_at l = (2, 2) \<and>
      half_quad_level_size (l + 1) = (2 * fst (half_quad_level_size l), 2 * snd (half_quad_level_size l)) \<or>
    half_quad_subdivision_at l = (2, 1) \<and> snd (half_quad_level_size l) = 1 \<and>
      half_quad_level_size (l + 1) = (2 * fst (half_quad_level_size l), 1)"
proof (cases "l = 0")
  case False
  have "l + 1 \<noteq> 0" using unat_Suc_level [of "\<lparr>row = 0, column = 0, level = l\<rparr>"] assms by auto
  moreover have "push_bit (unat l) 1 = 2 * push_bit (unat (l - 1)) (1 :: u32)"
  proof -
    have "l - 1 < 31" using assms False by (simp add: word_less_nat_alt unat_minus_one)
    from exp_Suc_level [OF this] show ?thesis by simp
  qed
  ultimately show ?thesis
    using exp_Suc_level [OF assms] False
    by (simp add: half_quad_subdivision_at_def half_quad_level_size_def del: push_bit_of_1)
qed (simp add: half_quad_subdivision_at_def half_quad_level_size_def)

interpretation quad: subdivision_scheme quad_subdivision_at quad_level_size
  by unfold_locales
    (auto simp: quad_subdivision_at_def quad_level_size_def unat_exp_u32 exp_Suc_level simp del: push_bit_of_1)

interpretation half_quad: subdivision_scheme half_quad_subdivision_at half_quad_level_size
  by unfold_locales
    (simp add: half_quad_level_size_def, rule half_quad_bound, assumption, rule half_quad_subdivides, assumption)

text \<open>
  under both subdivision schemes, the sub nodes of a tile of a level are exactly the tiles of the
  next level of that scheme that have it as their parent.
\<close>

theorem sub_nodes_are_children:
  assumes "(sd, sz) \<in> {(quad_subdivision_at, quad_level_size), (half_quad_subdivision_at, half_quad_level_size)}"
    and "in_level sz t" "level t < 31"
  shows "set (st_items (sub_nodes sd t)) = {c. level c = level t + 1 \<and> in_level sz c \<and> parent c = t}"
  using assms quad.sub_nodes_complete half_quad.sub_nodes_complete by auto

lemma sub_nodes_are_children_witness:
  "set (st_items (sub_nodes half_quad_subdivision_at \<lparr>row = 0, column = 0, level = 0\<rparr>)) =
    {c. level c = 0 + 1 \<and> in_level half_quad_level_size c \<and> parent c = \<lparr>row = 0, column = 0, level = 0\<rparr>}"
  using sub_nodes_are_children [of half_quad_subdivision_at half_quad_level_size "\<lparr>row = 0, column = 0, level = 0\<rparr>"]
  by (simp add: in_level_def half_quad_level_size_def)

end
