(* ===== verification/ApiError.thy ===== *)
theory ApiError
  imports Prelude
begin

text \<open>
  Errors of the client library: \<open>client/ErrorCode.h\<close>, \<open>http/NetworkTypes.h\<close>,
  \<open>http/HttpStatusCode.h\<close>, \<open>client/ApiError.h\<close>, \<open>client/ApiResponse.h\<close>, \<open>client/HttpResponse.h\<close>, the
  error texts and the case insensitive string helpers of \<open>src/http/NetworkUtils.cpp\<close>. C++ \<open>int\<close>
  status codes are integers: they are only compared. A response is a sum: an error on the left, a
  result on the right.
\<close>

section \<open>Codes\<close>

datatype error_code =
    Unknown | Cancelled | InvalidArgument | RequestTimeout | InternalFailure | ServiceUnavailable
  | AccessDenied | BadRequest | PreconditionFailed | NotFound | SlowDown | NetworkConnection

datatype http_error =
    SUCCESS | IO_ERROR | AUTHORIZATION_ERROR | INVALID_URL_ERROR | OFFLINE_ERROR | CANCELLED_ERROR
  | AUTHENTICATION_ERROR | TIMEOUT_ERROR | NETWORK_OVERLOAD_ERROR | UNKNOWN_ERROR

fun http_error_value :: "http_error \<Rightarrow> int" where
  "http_error_value SUCCESS = 0"
| "http_error_value IO_ERROR = - 1"
| "http_error_value AUTHORIZATION_ERROR = - 2"
| "http_error_value INVALID_URL_ERROR = - 3"
| "http_error_value OFFLINE_ERROR = - 4"
| "http_error_value CANCELLED_ERROR = - 5"
| "http_error_value AUTHENTICATION_ERROR = - 6"
| "http_error_value TIMEOUT_ERROR = - 7"
| "http_error_value NETWORK_OVERLOAD_ERROR = - 8"
| "http_error_value UNKNOWN_ERROR = - 9"

fun http_error_string :: "http_error \<Rightarrow> string" where
  "http_error_string SUCCESS = ''Success''"
| "http_error_string IO_ERROR = ''Input/Output error''"
| "http_error_string AUTHORIZATION_ERROR = ''Authorization error''"
| "http_error_string INVALID_URL_ERROR = ''Invalid URL''"
| "http_error_string OFFLINE_ERROR = ''Offline''"
| "http_error_string CANCELLED_ERROR = ''Cancelled''"
| "http_error_string AUTHENTICATION_ERROR = ''Authentication error''"
| "http_error_string TIMEOUT_ERROR = ''Timeout''"
| "http_error_string NETWORK_OVERLOAD_ERROR = ''Network overload''"
| "http_error_string UNKNOWN_ERROR = ''Unknown error''"

text \<open>The enumerators of \<open>HttpStatusCode\<close>, an unscoped enumeration of type \<open>int\<close>.\<close>

definition http_status_codes :: "(string \<times> int) list" where
  "http_status_codes = [
    (''CONTINUE'', 100), (''SWITCHING_PROTOCOLS'', 101), (''PROCESSING'', 102), (''OK'', 200),
    (''CREATED'', 201), (''ACCEPTED'', 202), (''NON_AUTHORITATIVE_INFORMATION'', 203),
    (''NO_CONTENT'', 204), (''RESET_CONTENT'', 205), (''PARTIAL_CONTENT'', 206),
    (''MULTI_STATUS'', 207), (''ALREADY_REPORTED'', 208), (''IM_USED'', 226),
    (''MULTIPLE_CHOICES'', 300), (''MOVED_PERMANENTLY'', 301), (''FOUND'', 302),
    (''SEE_OTHER'', 303), (''NOT_MODIFIED'', 304), (''USE_PROXY'', 305), (''SWITCH_PROXY'', 306),
    (''TEMPORARY_REDIRECT'', 307), (''PERMANENT_REDIRECT'', 308), (''BAD_REQUEST'', 400),
    (''UNAUTHORIZED'', 401), (''PAYMENT_REQUIRED'', 402), (''FORBIDDEN'', 403),
    (''NOT_FOUND'', 404), (''METHOD_NOT_ALLOWED'', 405), (''NOT_ACCEPTABLE'', 406),
    (''PROXY_AUTHENTICATION_REQUIRED'', 407), (''REQUEST_TIMEOUT'', 408), (''CONFLICT'', 409),
    (''GONE'', 410), (''LENGTH_REQUIRED'', 411), (''PRECONDITION_FAILED'', 412),
    (''REQUEST_ENTITY_TOO_LARGE'', 413), (''REQUEST_URI_TOO_LONG'', 414),
    (''UNSUPPORTED_MEDIA_TYPE'', 415), (''REQUESTED_RANGE_NOT_SATISFIABLE'', 416),
    (''EXPECTATION_FAILED'', 417), (''IM_A_TEAPOT'', 418), (''AUTHENTICATION_TIMEOUT'', 419),
    (''METHOD_FAILURE'', 420), (''UNPROC_ENTITY'', 422), (''LOCKED'', 423),
    (''FAILED_DEPENDENCY'', 424), (''UPGRADE_REQUIRED'', 426), (''PRECONDITION_REQUIRED'', 427),
    (''TOO_MANY_REQUESTS'', 429), (''REQUEST_HEADER_FIELDS_TOO_LARGE'', 431),
    (''LOGIN_TIMEOUT'', 440), (''NO_RESPONSE'', 444), (''RETRY_WITH'', 449), (''BLOCKED'', 450),
    (''REDIRECT'', 451), (''REQUEST_HEADER_TOO_LARGE'', 494), (''CERTIFICATE'', 495),
    (''NO_CERTIFICATE'', 496), (''HTTP_TO_HTTPS_PORT'', 497), (''CLIENT_CLOSED_REQUEST'', 499),
    (''INTERNAL_SERVER_ERROR'', 500), (''NOT_IMPLEMENTED'', 501), (''BAD_GATEWAY'', 502),
    (''SERVICE_UNAVAILABLE'', 503), (''GATEWAY_TIMEOUT'', 504), (''VERSION_NOT_SUPPORTED'', 505),
    (''VARIANT_ALSO_NEGOTIATES'', 506), (''INSUFFICIENT_STORAGE'', 506), (''LOOP_DETECTED'', 508),
    (''BANDWIDTH_LIMIT_EXCEEDED'', 509), (''NOT_EXTENDED'', 510),
    (''NETWORK_AUTHENTICATION_REQUIRED'', 511), (''NETWORK_READ_TIMEOUT'', 598),
    (''NETWORK_CONNECT_TIMEOUT'', 599)]"

abbreviation (input) HTTP_BAD_REQUEST :: int where
  "HTTP_BAD_REQUEST \<equiv> 400"

abbreviation (input) HTTP_UNAUTHORIZED :: int where
  "HTTP_UNAUTHORIZED \<equiv> 401"

abbreviation (input) HTTP_FORBIDDEN :: int where
  "HTTP_FORBIDDEN \<equiv> 403"

abbreviation (input) HTTP_NOT_FOUND :: int where
  "HTTP_NOT_FOUND \<equiv> 404"

abbreviation (input) HTTP_REQUEST_TIMEOUT :: int where
  "HTTP_REQUEST_TIMEOUT \<equiv> 408"

abbreviation (input) HTTP_PRECONDITION_FAILED :: int where
  "HTTP_PRECONDITION_FAILED \<equiv> 412"

abbreviation (input) HTTP_AUTHENTICATION_TIMEOUT :: int where
  "HTTP_AUTHENTICATION_TIMEOUT \<equiv> 419"

abbreviation (input) HTTP_TOO_MANY_REQUESTS :: int where
  "HTTP_TOO_MANY_REQUESTS \<equiv> 429"

abbreviation (input) HTTP_LOGIN_TIMEOUT :: int where
  "HTTP_LOGIN_TIMEOUT \<equiv> 440"

abbreviation (input) HTTP_INTERNAL_SERVER_ERROR :: int where
  "HTTP_INTERNAL_SERVER_ERROR \<equiv> 500"

abbreviation (input) HTTP_SERVICE_UNAVAILABLE :: int where
  "HTTP_SERVICE_UNAVAILABLE \<equiv> 503"

abbreviation (input) HTTP_GATEWAY_TIMEOUT :: int where
  "HTTP_GATEWAY_TIMEOUT \<equiv> 504"

abbreviation (input) HTTP_BANDWIDTH_LIMIT_EXCEEDED :: int where
  "HTTP_BANDWIDTH_LIMIT_EXCEEDED \<equiv> 509"

abbreviation (input) HTTP_NETWORK_READ_TIMEOUT :: int where
  "HTTP_NETWORK_READ_TIMEOUT \<equiv> 598"

abbreviation (input) HTTP_NETWORK_CONNECT_TIMEOUT :: int where
  "HTTP_NETWORK_CONNECT_TIMEOUT \<equiv> 599"

definition is_retryable :: "int \<Rightarrow> bool" where
  "is_retryable http_code =
     (if http_code < 0 then False
      else http_code \<in> {HTTP_INTERNAL_SERVER_ERROR, HTTP_SERVICE_UNAVAILABLE, HTTP_TOO_MANY_REQUESTS,
         HTTP_BANDWIDTH_LIMIT_EXCEEDED, HTTP_REQUEST_TIMEOUT, HTTP_AUTHENTICATION_TIMEOUT,
         HTTP_LOGIN_TIMEOUT, HTTP_GATEWAY_TIMEOUT, HTTP_NETWORK_READ_TIMEOUT,
         HTTP_NETWORK_CONNECT_TIMEOUT})"

definition get_error_code :: "int \<Rightarrow> error_code" where
  "get_error_code http_code =
     (if http_code < 0
      then (if http_code = http_error_value OFFLINE_ERROR \<or> http_code = http_error_value IO_ERROR
              then NetworkConnection
            else if http_code = http_error_value TIMEOUT_ERROR then RequestTimeout
            else if http_code = http_error_value CANCELLED_ERROR then Cancelled
            else if http_code = http_error_value AUTHORIZATION_ERROR \<or>
                    http_code = http_error_value AUTHENTICATION_ERROR then AccessDenied
            else if http_code = http_error_value INVALID_URL_ERROR then ServiceUnavailable
            else if http_code = http_error_value NETWORK_OVERLOAD_ERROR then SlowDown
            else Unknown)
      else if http_code \<in> {HTTP_BAD_REQUEST} then BadRequest
      else if http_code \<in> {HTTP_UNAUTHORIZED, HTTP_FORBIDDEN} then AccessDenied
      else if http_code \<in> {HTTP_NOT_FOUND} then NotFound
      else if http_code \<in> {HTTP_PRECONDITION_FAILED} then PreconditionFailed
      else if http_code \<in> {HTTP_TOO_MANY_REQUESTS, HTTP_BANDWIDTH_LIMIT_EXCEEDED} then SlowDown
      else if http_code \<in> {HTTP_INTERNAL_SERVER_ERROR} then InternalFailure
      else if http_code \<in> {HTTP_SERVICE_UNAVAILABLE} then ServiceUnavailable
      else if http_code \<in> {HTTP_REQUEST_TIMEOUT, HTTP_AUTHENTICATION_TIMEOUT, HTTP_LOGIN_TIMEOUT,
          HTTP_GATEWAY_TIMEOUT, HTTP_NETWORK_READ_TIMEOUT, HTTP_NETWORK_CONNECT_TIMEOUT}
        then RequestTimeout
      else Unknown)"

definition http_error_texts :: "(int \<times> string) list" where
  "http_error_texts = [
    (100, ''Continue''), (101, ''Switching Protocols''), (200, ''OK''), (201, ''Created''),
    (202, ''Accepted''), (203, ''Non-Authoritative Information''), (204, ''No Content''),
    (205, ''Reset Content''), (206, ''Partial Content''), (300, ''Multiple Choices''),
    (301, ''Moved Permanently''), (302, ''Found''), (303, ''See Other''), (304, ''Not Modified''),
    (305, ''Use Proxy''), (307, ''Temporary Redirect''), (400, ''Bad Request''),
    (401, ''Unauthorized''), (402, ''Payment Required''), (403, ''Forbidden''),
    (404, ''Not Found''), (405, ''Method Not Allowed''), (406, ''Not Acceptable''),
    (407, ''Proxy Authentication Required''), (408, ''Request Timeout''), (409, ''Conflict''),
    (410, ''Gone''), (411, ''Length Required''), (412, ''Precondition Failed''),
    (413, ''Request Entity Too Large''), (414, ''Request-URI Too Long''),
    (415, ''Unsupported Media Type''), (416, ''Requested Range Not Satisfiable''),
    (417, ''Expectation Failed''), (500, ''Internal Server Error''), (501, ''Not Implementation''),
    (502, ''Bad gateway''), (503, ''Service Unavailable''), (504, ''Gateway Timeout''),
    (505, ''HTTP Version Not Supported'')]"

definition http_error_to_string :: "int \<Rightarrow> string" where
  "http_error_to_string err =
     (case map_of http_error_texts err of Some t \<Rightarrow> t | None \<Rightarrow> ''Unknown Error'')"

section \<open>Errors and responses\<close>

record api_error =
  error_code_of :: error_code
  http_status_code :: int
  error_message :: string
  should_retry :: bool

definition default_error :: api_error where
  "default_error =
     \<lparr>error_code_of = Unknown, http_status_code = http_error_value UNKNOWN_ERROR,
      error_message = [], should_retry = False\<rparr>"

definition api_error_of_code :: "error_code \<Rightarrow> string \<Rightarrow> bool \<Rightarrow> api_error" where
  "api_error_of_code code message retryable =
     (let e = \<lparr>error_code_of = code, http_status_code = http_error_value UNKNOWN_ERROR,
               error_message = message, should_retry = retryable\<rparr>
      in if code = Cancelled then e\<lparr>http_status_code := http_error_value CANCELLED_ERROR\<rparr> else e)"

definition api_error_of_status :: "int \<Rightarrow> string \<Rightarrow> api_error" where
  "api_error_of_status status message =
     \<lparr>error_code_of = get_error_code status, http_status_code = status,
      error_message = message, should_retry = is_retryable status\<rparr>"

type_synonym 'r api_response = "api_error + 'r"

definition is_successful :: "'r api_response \<Rightarrow> bool" where
  "is_successful r = (case r of Inl _ \<Rightarrow> False | Inr _ \<Rightarrow> True)"

definition get_error :: "'r api_response \<Rightarrow> api_error" where
  "get_error r = (case r of Inl e \<Rightarrow> e | Inr _ \<Rightarrow> default_error)"

record http_response =
  resp_status :: int
  resp_body :: string

definition no_response :: http_response where
  "no_response = \<lparr>resp_status = http_error_value UNKNOWN_ERROR, resp_body = []\<rparr>"

record send_outcome =
  outcome_request_id :: u64
  outcome_error :: http_error

definition kInvalidRequestId :: u64 where
  "kInvalidRequestId = 0"

definition outcome_of_id :: "u64 \<Rightarrow> send_outcome" where
  "outcome_of_id i = \<lparr>outcome_request_id = i, outcome_error = SUCCESS\<rparr>"

definition outcome_of_error :: "http_error \<Rightarrow> send_outcome" where
  "outcome_of_error e = \<lparr>outcome_request_id = kInvalidRequestId, outcome_error = e\<rparr>"

definition outcome_successful :: "send_outcome \<Rightarrow> bool" where
  "outcome_successful oc \<longleftrightarrow> outcome_error oc = SUCCESS \<and> outcome_request_id oc \<noteq> kInvalidRequestId"

section \<open>Case insensitive strings\<close>

text \<open>
  \<open>size_t\<close> differences wrap around: an offset past the end makes the remaining length huge, and the
  character access behind it is out of range, which is \<^term>\<open>None\<close> here.
\<close>

definition simple_to_upper :: "char \<Rightarrow> char" where
  "simple_to_upper c =
     (if 97 \<le> (of_char c :: nat) \<and> of_char c \<le> (122 :: nat) then char_of (of_char c - 97 + 65 :: nat) else c)"

definition same_upper_at :: "string \<Rightarrow> string \<Rightarrow> nat \<Rightarrow> bool option" where
  "same_upper_at str1 str2 offset =
     (if length str1 < offset + length str2 then None
      else Some (list_all (\<lambda>i. simple_to_upper (str1 ! (i + offset)) = simple_to_upper (str2 ! i))
        [0..<length str2]))"

definition ci_compare :: "string \<Rightarrow> string \<Rightarrow> nat \<Rightarrow> bool option" where
  "ci_compare str1 str2 offset =
     (if (of_nat (length str1) :: u64) - of_nat offset \<noteq> of_nat (length str2) then Some False
      else same_upper_at str1 str2 offset)"

definition ci_starts_with :: "string \<Rightarrow> string \<Rightarrow> nat \<Rightarrow> bool option" where
  "ci_starts_with str1 str2 offset =
     (if (of_nat (length str1) :: u64) - of_nat offset < of_nat (length str2) then Some False
      else same_upper_at str1 str2 offset)"

text \<open>The position found, \<open>Some None\<close> for \<open>npos\<close>.\<close>

function ci_find_loop :: "string \<Rightarrow> string \<Rightarrow> nat \<Rightarrow> nat option option" where
  "ci_find_loop str1 str2 offset =
     (if offset \<le> length str1 - length str2
      then (if simple_to_upper (str1 ! offset) = simple_to_upper (str2 ! 0)
            then (case ci_starts_with str1 str2 offset of
                    None \<Rightarrow> None
                  | Some True \<Rightarrow> Some (Some offset)
                  | Some False \<Rightarrow> ci_find_loop str1 str2 (offset + 1))
            else ci_find_loop str1 str2 (offset + 1))
      else Some None)"
  by pat_completeness auto
termination
  by (relation "measure (\<lambda>(s1, s2, offset). Suc (length s1 - length s2) - offset)") auto

declare ci_find_loop.simps [simp del]

definition ci_find :: "string \<Rightarrow> string \<Rightarrow> nat \<Rightarrow> nat option option" where
  "ci_find str1 str2 offset =
     (if str2 \<noteq> [] \<and> length str2 \<le> length str1 then ci_find_loop str1 str2 offset else Some None)"

section \<open>Properties\<close>

text \<open>
  a status of the server is marked for retry exactly when it maps to a temporary error: an internal
  failure, an unavailable service, a request to slow down or a timeout. The negative network errors
  are never marked, not even a timeout.
\<close>

theorem retryable_iff_temporary:
  "should_retry (api_error_of_status s m) \<longleftrightarrow>
     0 \<le> s \<and> error_code_of (api_error_of_status s m) \<in> {InternalFailure, ServiceUnavailable, SlowDown, RequestTimeout}"
  by (auto simp: api_error_of_status_def is_retryable_def get_error_code_def)

text \<open>
  Two enumerators of \<open>HttpStatusCode\<close> have the value 506, while the registry the header refers to
  gives 507 to \<open>INSUFFICIENT_STORAGE\<close>.
\<close>

theorem insufficient_storage_is_506:
  "(''INSUFFICIENT_STORAGE'', 506) \<in> set http_status_codes \<and> (''VARIANT_ALSO_NEGOTIATES'', 506) \<in> set http_status_codes"
  by code_simp

definition matches_at :: "string \<Rightarrow> string \<Rightarrow> nat \<Rightarrow> bool" where
  "matches_at str1 str2 i \<longleftrightarrow> i + length str2 \<le> length str1 \<and>
     map simple_to_upper (take (length str2) (drop i str1)) = map simple_to_upper str2"

lemma same_upper_at_matches:
  assumes "i + length s2 \<le> length s1"
  shows "same_upper_at s1 s2 i = Some (matches_at s1 s2 i)"
proof -
  have "map simple_to_upper (take (length s2) (drop i s1)) = map simple_to_upper s2 \<longleftrightarrow>
      (\<forall>j < length s2. simple_to_upper (s1 ! (i + j)) = simple_to_upper (s2 ! j))"
    using assms by (simp add: list_eq_iff_nth_eq)
  then show ?thesis
    using assms by (simp only: same_upper_at_def matches_at_def list_all_iff set_upt not_less [symmetric] if_False)
      (auto simp: add.commute [of i])
qed

lemma starts_with_matches:
  assumes "i + length s2 \<le> length s1" "length s1 < 2 ^ 64"
  shows "ci_starts_with s1 s2 i = Some (matches_at s1 s2 i)"
proof -
  have "(of_nat (length s1) :: u64) - of_nat i = of_nat (length s1 - i)"
    using assms by (simp add: of_nat_diff)
  moreover have "\<not> (of_nat (length s1 - i) :: u64) < of_nat (length s2)"
  proof -
    have "length s1 - i < 2 ^ 64" "length s2 < 2 ^ 64" using assms by linarith+
    then have "unat (of_nat (length s1 - i) :: u64) = length s1 - i" "unat (of_nat (length s2) :: u64) = length s2"
      by (simp_all add: unsigned_of_nat take_bit_nat_eq_self del: of_nat_diff)
    then show ?thesis using assms(1) unfolding word_less_nat_alt by linarith
  qed
  ultimately show ?thesis
    unfolding ci_starts_with_def same_upper_at_matches [OF assms(1)] by (simp only: if_False)
qed

lemma ci_find_loop_first:
  assumes "s2 \<noteq> []" "length s2 \<le> length s1" "length s1 < 2 ^ 64"
  shows "ci_find_loop s1 s2 offset =
    Some (if \<exists>i \<ge> offset. matches_at s1 s2 i then Some (LEAST i. offset \<le> i \<and> matches_at s1 s2 i) else None)"
proof (induction "Suc (length s1 - length s2) - offset" arbitrary: offset)
  case 0
  then have "\<not> offset \<le> length s1 - length s2" by simp
  moreover have "\<not> matches_at s1 s2 i" if "offset \<le> i" for i
    using that 0 assms(2) by (auto simp: matches_at_def)
  ultimately show ?case by (subst ci_find_loop.simps) auto
next
  case (Suc d)
  then have True: "offset \<le> length s1 - length s2" by simp
  then have le: "offset + length s2 \<le> length s1" using assms(2) by simp
  note sw = starts_with_matches [OF le assms(3)]
  show ?case
  proof (cases "matches_at s1 s2 offset")
    case m: True
    have "simple_to_upper (s1 ! offset) = simple_to_upper (s2 ! 0)"
    proof -
      from m have "map simple_to_upper (take (length s2) (drop offset s1)) ! 0 = map simple_to_upper s2 ! 0"
        by (simp add: matches_at_def)
      then show ?thesis using le assms(1) by (cases s2) auto
    qed
    then have "ci_find_loop s1 s2 offset = Some (Some offset)"
      by (subst ci_find_loop.simps) (simp only: True m sw if_True option.case bool.case simp_thms)
    moreover have "(LEAST i. offset \<le> i \<and> matches_at s1 s2 i) = offset"
      using m by (intro Least_equality) auto
    moreover have "\<exists>i \<ge> offset. matches_at s1 s2 i" using m by blast
    ultimately show ?thesis by (simp only: if_True)
  next
    case nm: False
    have rec: "ci_find_loop s1 s2 offset = ci_find_loop s1 s2 (offset + 1)"
      by (subst ci_find_loop.simps) (simp only: True nm sw if_True option.case bool.case if_cancel)
    have iff: "offset + 1 \<le> i \<and> matches_at s1 s2 i \<longleftrightarrow> offset \<le> i \<and> matches_at s1 s2 i" for i
      using nm by (cases "i = offset") auto
    have "ci_find_loop s1 s2 (offset + 1) =
        Some (if \<exists>i \<ge> offset + 1. matches_at s1 s2 i then Some (LEAST i. offset + 1 \<le> i \<and> matches_at s1 s2 i) else None)"
      using Suc.hyps(2) by (intro Suc.hyps(1)) simp
    then show ?thesis unfolding rec iff .
  qed
qed

text \<open>
  searching for a non-empty text that is not longer than the searched one, \<open>CaseInsensitiveFind\<close>
  stays within both strings and returns the first position from the offset on where the text
  matches up to ASCII case, or \<open>npos\<close> when there is none.
\<close>

theorem ci_find_first_match:
  assumes "s2 \<noteq> []" "length s2 \<le> length s1" "length s1 < 2 ^ 64"
  shows "ci_find s1 s2 offset =
    Some (if \<exists>i \<ge> offset. matches_at s1 s2 i then Some (LEAST i. offset \<le> i \<and> matches_at s1 s2 i) else None)"
  using ci_find_loop_first [OF assms] assms(1,2) by (simp only: ci_find_def simp_thms if_True)

lemma ci_find_first_match_witness:
  "ci_find ''etag: x'' ''TAG'' 0 =
    Some (if \<exists>i \<ge> 0. matches_at ''etag: x'' ''TAG'' i then Some (LEAST i. 0 \<le> i \<and> matches_at ''etag: x'' ''TAG'' i) else None)"
  by (rule ci_find_first_match) simp_all

end
