(* ===== verification/TaskContext.thy ===== *)
theory TaskContext
  imports ApiError
begin

text \<open>
  Cancellation and tasks: \<open>CancellationToken\<close>, \<open>CancellationContext\<close>, \<open>Condition\<close>, \<open>TaskContext\<close> and
  \<open>PendingRequests\<close> of \<open>include/olp/core/client\<close> and \<open>src/client\<close>.

  The functions of the user act on a world that the operations pass on. A task is shared by the thread
  that executes it and by threads that cancel it: its behaviour is a step relation whose steps are the
  accesses to the shared members, in every order that the threads allow.
\<close>

section \<open>Cancellation\<close>

type_synonym 'w cancellation_token = "('w \<Rightarrow> 'w) option"

definition token_cancel :: "'w cancellation_token \<Rightarrow> 'w \<Rightarrow> 'w" where
  "token_cancel func w = (case func of None \<Rightarrow> w | Some f \<Rightarrow> f w)"

record 'w cancellation_context_impl =
  sub_operation_cancel_token :: "'w cancellation_token"
  cancelled_flag :: bool

text \<open>A context that was moved from has no implementation.\<close>

type_synonym 'w cancellation_context = "'w cancellation_context_impl option"

definition new_context :: "'w cancellation_context" where
  "new_context = Some \<lparr>sub_operation_cancel_token = None, cancelled_flag = False\<rparr>"

definition execute_or_cancelled ::
  "('w \<Rightarrow> 'w cancellation_token \<times> 'w) option \<Rightarrow> ('w \<Rightarrow> 'w) option \<Rightarrow> 'w cancellation_context \<Rightarrow> 'w \<Rightarrow>
   bool \<times> 'w cancellation_context \<times> 'w" where
  "execute_or_cancelled execute_fn cancel_fn ctx w =
     (case ctx of
        None \<Rightarrow> (True, ctx, w)
      | Some impl \<Rightarrow>
          (if cancelled_flag impl
           then (False, ctx, case cancel_fn of None \<Rightarrow> w | Some f \<Rightarrow> f w)
           else
             (case execute_fn of
                None \<Rightarrow> (True, ctx, w)
              | Some f \<Rightarrow> (let (token, w) = f w in (True, Some (impl\<lparr>sub_operation_cancel_token := token\<rparr>), w)))))"

definition cancel_operation :: "'w cancellation_context \<Rightarrow> 'w \<Rightarrow> 'w cancellation_context \<times> 'w" where
  "cancel_operation ctx w =
     (case ctx of
        None \<Rightarrow> (ctx, w)
      | Some impl \<Rightarrow>
          (if cancelled_flag impl then (ctx, w)
           else (let w = token_cancel (sub_operation_cancel_token impl) w
                 in (Some (impl\<lparr>sub_operation_cancel_token := None, cancelled_flag := True\<rparr>), w))))"

definition is_cancelled :: "'w cancellation_context \<Rightarrow> bool" where
  "is_cancelled ctx = (case ctx of None \<Rightarrow> False | Some impl \<Rightarrow> cancelled_flag impl)"

lemma is_cancelled_new [simp]: "\<not> is_cancelled new_context"
  by (simp add: is_cancelled_def new_context_def)

lemma cancel_operation_cancels:
  assumes "cancel_operation ctx w = (ctx', w')"
  shows "is_cancelled ctx' \<longleftrightarrow> ctx \<noteq> None" "ctx' = None \<longleftrightarrow> ctx = None"
  using assms by (auto simp: cancel_operation_def is_cancelled_def Let_def split: option.splits if_splits)

lemma cancel_operation_again: "is_cancelled ctx \<Longrightarrow> cancel_operation ctx w = (ctx, w)"
  by (auto simp: cancel_operation_def is_cancelled_def split: option.splits)

lemma execute_or_cancelled_flag:
  assumes "execute_or_cancelled ex ca ctx w = (b, ctx', w')"
  shows "is_cancelled ctx' = is_cancelled ctx" "ctx' = None \<longleftrightarrow> ctx = None"
  using assms
  by (auto simp: execute_or_cancelled_def is_cancelled_def split: option.splits if_splits prod.splits)

text \<open>A run of the operations of one context; the world is the log of the functions called.\<close>

datatype context_event = Executed nat | CancelledInstead nat | TokenCancelled nat

datatype context_op = ExecuteOp nat | CancelOp

fun context_step :: "context_op \<Rightarrow> context_event list cancellation_context \<times> context_event list \<Rightarrow>
    context_event list cancellation_context \<times> context_event list" where
  "context_step (ExecuteOp n) (ctx, w) =
     snd (execute_or_cancelled (Some (\<lambda>w. (Some (\<lambda>w. w @ [TokenCancelled n]), w @ [Executed n])))
       (Some (\<lambda>w. w @ [CancelledInstead n])) ctx w)"
| "context_step CancelOp (ctx, w) = cancel_operation ctx w"

fun executes :: "context_op list \<Rightarrow> nat list" where
  "executes [] = []"
| "executes (ExecuteOp n # ops) = n # executes ops"
| "executes (CancelOp # ops) = executes ops"

lemma context_run_cancelled:
  "cancelled_flag impl \<Longrightarrow>
   snd (fold context_step ops (Some impl, w)) = w @ map CancelledInstead (executes ops)"
proof (induction ops arbitrary: w)
  case (Cons p ops)
  then show ?case
    by (cases p) (simp_all add: execute_or_cancelled_def cancel_operation_def)
qed simp

lemma context_run_open:
  "set ops \<subseteq> range ExecuteOp \<Longrightarrow>
   fold context_step ops (Some \<lparr>sub_operation_cancel_token = t, cancelled_flag = False\<rparr>, w) =
     (Some \<lparr>sub_operation_cancel_token =
        (if executes ops = [] then t else Some (\<lambda>w. w @ [TokenCancelled (last (executes ops))])),
        cancelled_flag = False\<rparr>, w @ map Executed (executes ops))"
proof (induction ops arbitrary: w t)
  case (Cons p ops)
  then show ?case by (cases p) (auto simp: execute_or_cancelled_def)
qed simp

text \<open>
  a cancellation reaches the operation that is running and none that comes later. Before the first
  \<open>CancelOperation\<close> every code block is executed; the cancellation calls the token of the last one, and
  only that, once; afterwards no block is executed any more and each calls its cancel function instead,
  however often the context is cancelled again.
\<close>

theorem cancellation_reaches_last_operation:
  "snd (fold context_step (map ExecuteOp ns @ CancelOp # ops) (new_context, [])) =
     map Executed ns @ (if ns = [] then [] else [TokenCancelled (last ns)]) @ map CancelledInstead (executes ops)"
proof -
  have e: "executes (map ExecuteOp ns) = ns" by (induction ns) simp_all
  have s: "set (map ExecuteOp ns) \<subseteq> range ExecuteOp" by auto
  note o = context_run_open [OF s, of None "[]", unfolded e]
  show ?thesis
    by (simp add: new_context_def o cancel_operation_def token_cancel_def context_run_cancelled)
qed

section \<open>Conditions\<close>

text \<open>\<open>signaled_\<close> is all of the state; a wait ends with it or with the timeout, and resets it.\<close>

definition notify :: "bool \<Rightarrow> bool" where
  "notify signaled = True"

definition wait_end :: "bool \<Rightarrow> bool \<times> bool" where
  "wait_end signaled = (signaled, False)"

section \<open>Tasks\<close>

datatype task_state = PENDING | IN_PROGRESS | COMPLETED

text \<open>
  Where the thread is that won the exchange of \<open>state_\<close> in \<open>Execute\<close>, with its local function and
  callback; and where a thread is that called \<open>BlockingCancel\<close>.
\<close>

datatype ('r, 'f, 'c) execute_pc =
    NotBegun
  | Begun
  | Moved "'f option" "'c option"
  | Inside 'f "'c option"
  | Returned "'c option" "'r api_response"
  | Answering "'c option" "'r api_response"
  | Answered
  | Notified
  | Finished

datatype cancel_pc = Outside | Checked | ContextCancelled | Waiting | CancelReturned bool

record ('r, 'f, 'c, 'w) task =
  execute_func :: "'f option"
  callback :: "'c option"
  task_context :: "'w cancellation_context"
  signaled :: bool
  state_of :: task_state
  executor :: "('r, 'f, 'c) execute_pc"
  cancellers :: "nat \<Rightarrow> cancel_pc"
  functions_run :: "'f list"
  callbacks_run :: "('c \<times> 'r api_response) list"
  task_world :: 'w

definition task_new :: "'f \<Rightarrow> 'c \<Rightarrow> 'w cancellation_context \<Rightarrow> 'w \<Rightarrow> ('r, 'f, 'c, 'w) task" where
  "task_new f c ctx w =
     \<lparr>execute_func = Some f, callback = Some c, task_context = ctx, signaled = False, state_of = PENDING,
      executor = NotBegun, cancellers = \<lambda>_. Outside, functions_run = [], callbacks_run = [], task_world = w\<rparr>"

definition cancelled_response :: "'r api_response" where
  "cancelled_response = Inl (api_error_of_code Cancelled ''Cancelled'' False)"

text \<open>A response of a cancelled task is dropped, unless it is a timeout.\<close>

definition keep_response :: "bool \<Rightarrow> 'r api_response \<Rightarrow> 'r api_response" where
  "keep_response cancelled response =
     (if \<not> cancelled \<or>
         (\<not> is_successful response \<and> error_code_of (get_error response) = RequestTimeout)
      then response else cancelled_response)"

definition context_cancel :: "('r, 'f, 'c, 'w) task \<Rightarrow> ('r, 'f, 'c, 'w) task" where
  "context_cancel t =
     (let (ctx, w) = cancel_operation (task_context t) (task_world t)
      in t\<lparr>task_context := ctx, task_world := w\<rparr>)"

text \<open>
  The steps of the executing thread, and of the function it calls, which may execute cancellable code
  blocks with the context.
\<close>

inductive execute_step :: "('r, 'f, 'c, 'w) task \<Rightarrow> ('r, 'f, 'c, 'w) task \<Rightarrow> bool" where
  begin_execute: "state_of t = PENDING \<Longrightarrow>
    execute_step t (t\<lparr>state_of := IN_PROGRESS, executor := Begun\<rparr>)"
| move_out: "executor t = Begun \<Longrightarrow>
    execute_step t (t\<lparr>executor := Moved (execute_func t) (callback t), execute_func := None, callback := None\<rparr>)"
| call_function: "executor t = Moved (Some f) c \<Longrightarrow> \<not> is_cancelled (task_context t) \<Longrightarrow>
    execute_step t (t\<lparr>executor := Inside f c, functions_run := functions_run t @ [f]\<rparr>)"
| skip_function: "executor t = Moved f c \<Longrightarrow> f = None \<or> is_cancelled (task_context t) \<Longrightarrow>
    execute_step t (t\<lparr>executor := Answering c cancelled_response\<rparr>)"
| sub_operation: "executor t = Inside f c \<Longrightarrow>
    execute_or_cancelled ex ca (task_context t) (task_world t) = (b, ctx, w) \<Longrightarrow>
    execute_step t (t\<lparr>task_context := ctx, task_world := w\<rparr>)"
| function_returns: "executor t = Inside f c \<Longrightarrow> execute_step t (t\<lparr>executor := Returned c r\<rparr>)"
| choose_response: "executor t = Returned c r \<Longrightarrow>
    execute_step t (t\<lparr>executor := Answering c (keep_response (is_cancelled (task_context t)) r)\<rparr>)"
| call_callback: "executor t = Answering c r \<Longrightarrow>
    execute_step t (t\<lparr>executor := Answered,
      callbacks_run := callbacks_run t @ (case c of None \<Rightarrow> [] | Some c \<Rightarrow> [(c, r)])\<rparr>)"
| notify_waiter: "executor t = Answered \<Longrightarrow>
    execute_step t (t\<lparr>executor := Notified, signaled := notify (signaled t)\<rparr>)"
| store_completed: "executor t = Notified \<Longrightarrow>
    execute_step t (t\<lparr>executor := Finished, state_of := COMPLETED\<rparr>)"

text \<open>The steps of the threads that cancel: a token, or \<open>BlockingCancel\<close> of thread \<open>i\<close>.\<close>

inductive cancel_step :: "('r, 'f, 'c, 'w) task \<Rightarrow> ('r, 'f, 'c, 'w) task \<Rightarrow> bool" where
  token_cancels: "cancel_step t (context_cancel t)"
| finds_completed: "cancellers t i = Outside \<Longrightarrow> state_of t = COMPLETED \<Longrightarrow>
    cancel_step t (t\<lparr>cancellers := (cancellers t)(i := CancelReturned True)\<rparr>)"
| finds_running: "cancellers t i = Outside \<Longrightarrow> state_of t \<noteq> COMPLETED \<Longrightarrow>
    cancel_step t (t\<lparr>cancellers := (cancellers t)(i := Checked)\<rparr>)"
| cancels_context: "cancellers t i = Checked \<Longrightarrow>
    cancel_step t ((context_cancel t)\<lparr>cancellers := (cancellers t)(i := ContextCancelled)\<rparr>)"
| drops_function: "cancellers t i = ContextCancelled \<Longrightarrow>
    cancel_step t (t\<lparr>execute_func := None, cancellers := (cancellers t)(i := Waiting)\<rparr>)"
| wait_returns: "cancellers t i = Waiting \<Longrightarrow> wait_end (signaled t) = (b, s) \<Longrightarrow>
    cancel_step t (t\<lparr>signaled := s, cancellers := (cancellers t)(i := CancelReturned b)\<rparr>)"

definition task_step :: "('r, 'f, 'c, 'w) task \<Rightarrow> ('r, 'f, 'c, 'w) task \<Rightarrow> bool" where
  "task_step t t' \<longleftrightarrow> execute_step t t' \<or> cancel_step t t'"

text \<open>What holds of the shared state at each point of the execution.\<close>

fun executor_ok :: "'f \<Rightarrow> 'c \<Rightarrow> ('r, 'f, 'c, 'w) task \<Rightarrow> ('r, 'f, 'c) execute_pc \<Rightarrow> bool" where
  "executor_ok f c t NotBegun \<longleftrightarrow> state_of t = PENDING \<and> callback t = Some c \<and> execute_func t \<in> {None, Some f} \<and>
     functions_run t = [] \<and> callbacks_run t = [] \<and> \<not> signaled t"
| "executor_ok f c t Begun \<longleftrightarrow> state_of t = IN_PROGRESS \<and> callback t = Some c \<and> execute_func t \<in> {None, Some f} \<and>
     functions_run t = [] \<and> callbacks_run t = [] \<and> \<not> signaled t"
| "executor_ok f c t (Moved f' c') \<longleftrightarrow> state_of t = IN_PROGRESS \<and> c' = Some c \<and> f' \<in> {None, Some f} \<and>
     functions_run t = [] \<and> callbacks_run t = [] \<and> \<not> signaled t"
| "executor_ok f c t (Inside f' c') \<longleftrightarrow> state_of t = IN_PROGRESS \<and> c' = Some c \<and> f' = f \<and>
     functions_run t = [f] \<and> callbacks_run t = [] \<and> \<not> signaled t"
| "executor_ok f c t (Returned c' r) \<longleftrightarrow> state_of t = IN_PROGRESS \<and> c' = Some c \<and>
     functions_run t = [f] \<and> callbacks_run t = [] \<and> \<not> signaled t"
| "executor_ok f c t (Answering c' r) \<longleftrightarrow> state_of t = IN_PROGRESS \<and> c' = Some c \<and>
     (functions_run t = [f] \<or> functions_run t = [] \<and> r = cancelled_response) \<and> callbacks_run t = [] \<and> \<not> signaled t"
| "executor_ok f c t Answered \<longleftrightarrow> state_of t = IN_PROGRESS \<and>
     (\<exists>r. (functions_run t = [f] \<or> functions_run t = [] \<and> r = cancelled_response) \<and> callbacks_run t = [(c, r)]) \<and> \<not> signaled t"
| "executor_ok f c t Notified \<longleftrightarrow> state_of t = IN_PROGRESS \<and>
     (\<exists>r. (functions_run t = [f] \<or> functions_run t = [] \<and> r = cancelled_response) \<and> callbacks_run t = [(c, r)])"
| "executor_ok f c t Finished \<longleftrightarrow> state_of t = COMPLETED \<and>
     (\<exists>r. (functions_run t = [f] \<or> functions_run t = [] \<and> r = cancelled_response) \<and> callbacks_run t = [(c, r)])"

definition task_inv :: "'f \<Rightarrow> 'c \<Rightarrow> ('r, 'f, 'c, 'w) task \<Rightarrow> bool" where
  "task_inv f c t \<longleftrightarrow> executor_ok f c t (executor t) \<and>
     (\<forall>i. cancellers t i = CancelReturned True \<longrightarrow> executor t \<in> {Notified, Finished})"

lemma executor_ok_frame:
  "\<lbrakk>state_of t' = state_of t; callback t' = callback t; execute_func t' \<in> {None, execute_func t};
    functions_run t' = functions_run t; callbacks_run t' = callbacks_run t; signaled t' \<longrightarrow> signaled t;
    executor_ok f c t pc\<rbrakk> \<Longrightarrow> executor_ok f c t' pc"
  by (cases pc) auto

lemma context_cancel_frame [simp]:
  "state_of (context_cancel t) = state_of t" "callback (context_cancel t) = callback t"
  "execute_func (context_cancel t) = execute_func t" "functions_run (context_cancel t) = functions_run t"
  "callbacks_run (context_cancel t) = callbacks_run t" "signaled (context_cancel t) = signaled t"
  "executor (context_cancel t) = executor t" "cancellers (context_cancel t) = cancellers t"
  by (simp_all add: context_cancel_def split: prod.splits)

lemma executor_signaled: "executor_ok f c t (executor t) \<Longrightarrow> signaled t \<Longrightarrow> executor t \<in> {Notified, Finished}"
  by (cases "executor t") auto

lemma executor_completed: "executor_ok f c t (executor t) \<Longrightarrow> state_of t = COMPLETED \<Longrightarrow> executor t = Finished"
  by (cases "executor t") auto

lemma executor_pending: "executor_ok f c t (executor t) \<Longrightarrow> state_of t = PENDING \<Longrightarrow> executor t = NotBegun"
  by (cases "executor t") auto

lemma execute_step_inv:
  assumes "execute_step t t'" "task_inv f c t" shows "task_inv f c t'"
  using assms
proof (cases rule: execute_step.cases)
  case begin_execute
  then show ?thesis using assms(2) executor_pending [of f c t] by (auto simp: task_inv_def)
next
  case (sub_operation g d)
  then show ?thesis using assms(2) by (auto simp: task_inv_def)
qed (auto simp: task_inv_def)

lemma cancel_step_inv:
  assumes "cancel_step t t'" "task_inv f c t" shows "task_inv f c t'"
  using assms
proof (cases rule: cancel_step.cases)
  case token_cancels
  then show ?thesis using assms(2) executor_ok_frame [of "context_cancel t" t f c "executor t"] by (simp add: task_inv_def)
next
  case (finds_completed i)
  then show ?thesis using assms(2) executor_ok_frame [of t' t f c "executor t"] executor_completed [of f c t]
    by (auto simp: task_inv_def)
next
  case (finds_running i)
  then show ?thesis using assms(2) executor_ok_frame [of t' t f c "executor t"] by (auto simp: task_inv_def)
next
  case (cancels_context i)
  then show ?thesis using assms(2) executor_ok_frame [of t' t f c "executor t"] by (auto simp: task_inv_def)
next
  case (drops_function i)
  then show ?thesis using assms(2) executor_ok_frame [of t' t f c "executor t"] by (auto simp: task_inv_def)
next
  case (wait_returns i b s)
  then show ?thesis using assms(2) executor_ok_frame [of t' t f c "executor t"] executor_signaled [of f c t]
    by (auto simp: task_inv_def wait_end_def)
qed

lemma task_inv_reachable: "task_step\<^sup>*\<^sup>* t t' \<Longrightarrow> task_inv f c t \<Longrightarrow> task_inv f c t'"
  by (induction rule: rtranclp_induct) (auto simp: task_step_def execute_step_inv cancel_step_inv)

lemma task_inv_new: "task_inv f c (task_new f c ctx w)"
  by (simp add: task_inv_def task_new_def)

text \<open>
  C8: whatever the threads do, the callback of a task is called at most once, and exactly once by the
  time the task is completed; the function runs at most once, and when it has not run the callback gets
  the error \<open>Cancelled\<close>.
\<close>

theorem task_calls_back_once:
  assumes "task_step\<^sup>*\<^sup>* (task_new f c ctx w) t"
  shows "length (callbacks_run t) \<le> 1 \<and> length (functions_run t) \<le> 1 \<and>
    (state_of t = COMPLETED \<longrightarrow> (\<exists>r. callbacks_run t = [(c, r)])) \<and>
    (functions_run t = [] \<longrightarrow> set (callbacks_run t) \<subseteq> {(c, cancelled_response)})"
proof -
  have i: "task_inv f c t" using task_inv_reachable [OF assms task_inv_new] .
  then show ?thesis by (cases "executor t") (auto simp: task_inv_def)
qed

text \<open>
  C9: \<open>BlockingCancel\<close> reports success only after the callback has returned, so its caller may release
  what the callback uses.
\<close>

theorem blocking_cancel_waits_for_callback:
  assumes "task_step\<^sup>*\<^sup>* (task_new f c ctx w) t" "cancellers t i = CancelReturned True"
  shows "\<exists>r. callbacks_run t = [(c, r)]"
proof -
  have "task_inv f c t" using task_inv_reachable [OF assms(1) task_inv_new] .
  with assms(2) show ?thesis unfolding task_inv_def by (cases "executor t") fastforce+
qed

lemma context_cancel_cancels:
  "is_cancelled (task_context (context_cancel t)) \<longleftrightarrow> task_context t \<noteq> None"
  "task_context (context_cancel t) = None \<longleftrightarrow> task_context t = None"
  using cancel_operation_cancels [of "task_context t" "task_world t"]
  by (simp_all add: context_cancel_def split: prod.splits)

lemma is_cancelled_Some: "is_cancelled ctx \<Longrightarrow> ctx \<noteq> None"
  by (cases ctx) (auto simp: is_cancelled_def)

lemma task_step_stays_cancelled:
  "task_step t t' \<Longrightarrow> is_cancelled (task_context t) \<Longrightarrow> is_cancelled (task_context t')"
  unfolding task_step_def
  by (auto elim!: execute_step.cases cancel_step.cases simp: context_cancel_cancels is_cancelled_Some
      dest: execute_or_cancelled_flag)

lemma task_step_not_run:
  assumes "task_step t t'" "is_cancelled (task_context t)" "functions_run t = []"
  shows "functions_run t' = []"
  using assms unfolding task_step_def by (auto elim!: execute_step.cases cancel_step.cases)

text \<open>
  C10: a task that is cancelled before its function was called never calls it, and answers \<open>Cancelled\<close>.
\<close>

theorem cancelled_task_never_runs:
  assumes "task_step\<^sup>*\<^sup>* (task_new f c ctx w) t" "is_cancelled (task_context t)" "functions_run t = []"
    and "task_step\<^sup>*\<^sup>* t t'"
  shows "functions_run t' = [] \<and> set (callbacks_run t') \<subseteq> {(c, cancelled_response)}"
proof -
  have "is_cancelled (task_context t') \<and> functions_run t' = []"
    using assms(4) assms(2,3)
    by (induction rule: rtranclp_induct) (auto dest: task_step_stays_cancelled task_step_not_run)
  moreover have "task_inv f c t'"
    using task_inv_reachable [OF _ task_inv_new] assms(1,4) by (meson rtranclp_trans)
  ultimately show ?thesis by (cases "executor t'") (auto simp: task_inv_def)
qed

section \<open>Progress\<close>

fun execute_rank :: "('r, 'f, 'c) execute_pc \<Rightarrow> nat" where
  "execute_rank NotBegun = 8"
| "execute_rank Begun = 7"
| "execute_rank (Moved f c) = 6"
| "execute_rank (Inside f c) = 5"
| "execute_rank (Returned c r) = 4"
| "execute_rank (Answering c r) = 3"
| "execute_rank Answered = 2"
| "execute_rank Notified = 1"
| "execute_rank Finished = 0"

lemma execute_enabled:
  assumes "task_inv f c t" "executor t \<noteq> Finished"
  shows "\<exists>t'. execute_step t t' \<and> execute_rank (executor t') < execute_rank (executor t)"
proof (cases "executor t")
  case NotBegun
  then have "state_of t = PENDING" using assms(1) by (simp add: task_inv_def)
  from execute_step.begin_execute [OF this] NotBegun show ?thesis by fastforce
next
  case (Moved g d)
  show ?thesis
  proof (cases "g = None \<or> is_cancelled (task_context t)")
    case True
    from execute_step.skip_function [OF Moved True] Moved show ?thesis by fastforce
  next
    case False
    then obtain h where "executor t = Moved (Some h) d" "\<not> is_cancelled (task_context t)" using Moved by auto
    from execute_step.call_function [OF this] Moved show ?thesis by fastforce
  qed
next
  case (Inside g d)
  from execute_step.function_returns [OF Inside, of undefined] Inside show ?thesis by fastforce
qed (use assms(2) in \<open>fastforce intro: execute_step.intros\<close>)+

lemma execute_runs_to_end:
  "task_inv f c t \<Longrightarrow>
   \<exists>n t'. n \<le> execute_rank (executor t) \<and> (execute_step ^^ n) t t' \<and> executor t' = Finished \<and> task_inv f c t'"
proof (induction "execute_rank (executor t)" arbitrary: t rule: less_induct)
  case less
  show ?case
  proof (cases "executor t = Finished")
    case True
    then show ?thesis using less.prems by (intro exI [of _ 0] exI [of _ t]) simp
  next
    case False
    obtain u where u: "execute_step t u" "execute_rank (executor u) < execute_rank (executor t)"
      using execute_enabled [OF less.prems False] by blast
    have iu: "task_inv f c u" using execute_step_inv [OF u(1) less.prems] .
    obtain n t' where "n \<le> execute_rank (executor u)" "(execute_step ^^ n) u t'" "executor t' = Finished" "task_inv f c t'"
      using less.hyps [OF u(2) iu] by blast
    then show ?thesis
      using u relpowp_Suc_I2 [of execute_step t u n t'] by (intro exI [of _ "Suc n"] exI [of _ t']) auto
  qed
qed


lemma blocking_cancel_waits:
  assumes "task_step\<^sup>*\<^sup>* s t" "cancellers t i = Outside" "state_of t = PENDING"
  shows "\<exists>t'. task_step\<^sup>*\<^sup>* s t' \<and> cancellers t' = (cancellers t)(i := Waiting) \<and> execute_func t' = None \<and>
    callback t' = callback t \<and> state_of t' = state_of t"
proof -
  have k: "task_step\<^sup>*\<^sup>* s a \<Longrightarrow> cancel_step a b \<Longrightarrow> task_step\<^sup>*\<^sup>* s b" for a b
    by (rule rtranclp.rtrancl_into_rtrancl) (auto simp: task_step_def)
  let ?a = "t\<lparr>cancellers := (cancellers t)(i := Checked)\<rparr>"
  let ?b = "(context_cancel ?a)\<lparr>cancellers := (cancellers ?a)(i := ContextCancelled)\<rparr>"
  let ?c = "?b\<lparr>execute_func := None, cancellers := (cancellers ?b)(i := Waiting)\<rparr>"
  have "task_step\<^sup>*\<^sup>* s ?a" using k [OF assms(1) cancel_step.finds_running [OF assms(2)]] assms(3) by simp
  then have "task_step\<^sup>*\<^sup>* s ?b" by (rule k [OF _ cancel_step.cancels_context]) simp
  then have "task_step\<^sup>*\<^sup>* s ?c" by (rule k [OF _ cancel_step.drops_function]) simp
  then show ?thesis by (rule exI [of _ ?c, OF conjI]) simp
qed

text \<open>
  of two threads in \<open>BlockingCancel\<close> only one is woken: the first wait to end takes the signal away.
  A state can be reached in which the task is completed and its callback has returned, but the second
  caller can only wait for its timeout, and then reports failure.
\<close>

theorem second_waiter_times_out:
  "\<exists>t. task_step\<^sup>*\<^sup>* (task_new f c ctx w :: ('r, 'f, 'c, 'w) task) t \<and> state_of t = COMPLETED \<and> cancellers t 0 = CancelReturned True \<and>
     cancellers t 1 = Waiting \<and>
     (\<forall>t'. task_step\<^sup>*\<^sup>* t t' \<longrightarrow> cancellers t' 1 \<in> {Waiting, CancelReturned False})"
proof -
  let ?s = "task_new f c ctx w :: ('r, 'f, 'c, 'w) task"
  have e: "task_step\<^sup>*\<^sup>* ?s a \<Longrightarrow> execute_step a b \<Longrightarrow> task_step\<^sup>*\<^sup>* ?s b" for a b
    by (rule rtranclp.rtrancl_into_rtrancl) (auto simp: task_step_def)
  have k: "task_step\<^sup>*\<^sup>* ?s a \<Longrightarrow> cancel_step a b \<Longrightarrow> task_step\<^sup>*\<^sup>* ?s b" for a b
    by (rule rtranclp.rtrancl_into_rtrancl) (auto simp: task_step_def)
  obtain t0 where t0: "task_step\<^sup>*\<^sup>* ?s t0" "cancellers t0 = (\<lambda>_. Outside)(0 := Waiting)" "callback t0 = Some c"
      "state_of t0 = PENDING"
    using blocking_cancel_waits [OF rtranclp.rtrancl_refl, of ?s 0] by (auto simp: task_new_def)
  obtain t1 where t1: "task_step\<^sup>*\<^sup>* ?s t1" "cancellers t1 0 = Waiting" "cancellers t1 1 = Waiting"
      "execute_func t1 = None" "callback t1 = Some c" "state_of t1 = PENDING"
  proof -
    have "cancellers t0 1 = Outside" using t0(2) by simp
    from blocking_cancel_waits [OF t0(1) this t0(4)] obtain b where b: "task_step\<^sup>*\<^sup>* ?s b"
      "cancellers b = (cancellers t0)(1 := Waiting)" "execute_func b = None" "callback b = callback t0"
      "state_of b = state_of t0" by blast
    show thesis by (rule that [OF b(1)]) (simp_all add: b t0)
  qed
  obtain t2 where t2: "task_step\<^sup>*\<^sup>* ?s t2" "cancellers t2 0 = Waiting" "cancellers t2 1 = Waiting"
      "signaled t2" "state_of t2 = COMPLETED"
  proof -
    from e [OF e [OF e [OF t1(1) execute_step.begin_execute] execute_step.move_out] execute_step.skip_function
        [of _ None "Some c"]] t1
    obtain a where "task_step\<^sup>*\<^sup>* ?s a" "cancellers a = cancellers t1" "executor a = Answering (Some c) cancelled_response"
      by auto
    with e [OF e [OF e [OF this(1) execute_step.call_callback] execute_step.notify_waiter] execute_step.store_completed]
      t1 that show thesis by (auto simp: notify_def)
  qed
  obtain t3 where t3: "task_step\<^sup>*\<^sup>* ?s t3" "cancellers t3 0 = CancelReturned True" "cancellers t3 1 = Waiting"
      "\<not> signaled t3" "state_of t3 = COMPLETED"
    using k [OF t2(1) cancel_step.wait_returns [OF t2(2), of True False]] t2 by (auto simp: wait_end_def)
  have "task_inv f c t3" using task_inv_reachable [OF t3(1) task_inv_new] .
  then have fin: "executor t3 = Finished" using executor_completed t3(5) by (auto simp: task_inv_def)
  have "executor t' = Finished \<and> state_of t' = COMPLETED \<and> \<not> signaled t' \<and> cancellers t' 1 \<in> {Waiting, CancelReturned False}"
    if "task_step\<^sup>*\<^sup>* t3 t'" for t'
    using that
  proof (induction rule: rtranclp_induct)
    case (step a b)
    then show ?case unfolding task_step_def
      by (auto elim!: execute_step.cases cancel_step.cases simp: wait_end_def split: if_splits)
  qed (use fin t3 in simp)
  with t3 show ?thesis by blast
qed

section \<open>Runs of a concrete task\<close>

lemma execute_steps_task_steps: "(execute_step ^^ n) t t' \<Longrightarrow> task_step\<^sup>*\<^sup>* t t'"
  by (rule rtranclp_mono [THEN predicate2D, OF _ relpowp_imp_rtranclp]) (auto simp: task_step_def)

lemma task_run_completed:
  "\<exists>t. task_step\<^sup>*\<^sup>* (task_new f c ctx w) t \<and> state_of t = COMPLETED \<and> executor t = Finished"
  using execute_runs_to_end [OF task_inv_new [of f c ctx w]] execute_steps_task_steps executor_ok.simps(9)
  unfolding task_inv_def by metis

abbreviation (input) demo_task :: "(nat, nat, nat, unit) task" where
  "demo_task \<equiv> task_new 1 2 new_context ()"

lemma task_calls_back_once_witness:
  "\<exists>t. task_step\<^sup>*\<^sup>* demo_task t \<and> state_of t = COMPLETED \<and> (\<exists>r. callbacks_run t = [(2, r)])"
proof -
  obtain t where t: "task_step\<^sup>*\<^sup>* demo_task t" "state_of t = COMPLETED" using task_run_completed [of 1 2 new_context "()"] by blast
  from task_calls_back_once [OF t(1)] t show ?thesis by blast
qed

lemma blocking_cancel_waits_for_callback_witness:
  "\<exists>t r. task_step\<^sup>*\<^sup>* demo_task t \<and> cancellers t 5 = CancelReturned True \<and> callbacks_run t = [(2, r)]"
proof -
  have e: "cancellers t' 5 = Outside" if "(execute_step ^^ n) demo_task t'" for n t'
    using that
  proof (induction n arbitrary: t')
    case (Suc n)
    then obtain a where "cancellers a 5 = Outside" "execute_step a t'" by auto
    then show ?case by (auto elim!: execute_step.cases)
  qed (simp add: task_new_def)
  obtain n t where t: "(execute_step ^^ n) demo_task t" "executor t = Finished" "task_inv 1 2 t"
    using execute_runs_to_end [OF task_inv_new [of 1 2 new_context "()"]] by blast
  then have c: "state_of t = COMPLETED" by (simp add: task_inv_def)
  let ?t = "t\<lparr>cancellers := (cancellers t)(5 := CancelReturned True)\<rparr>"
  have "task_step t ?t" using cancel_step.finds_completed [OF e [OF t(1)] c] by (simp add: task_step_def)
  with execute_steps_task_steps [OF t(1)] have r: "task_step\<^sup>*\<^sup>* demo_task ?t" by simp
  from blocking_cancel_waits_for_callback [OF r, of 5] r show ?thesis by auto
qed

lemma cancelled_task_never_runs_witness:
  "\<exists>t. task_step\<^sup>*\<^sup>* (context_cancel demo_task) t \<and> state_of t = COMPLETED \<and> functions_run t = [] \<and>
     set (callbacks_run t) \<subseteq> {(2, cancelled_response)}"
proof -
  let ?c = "context_cancel demo_task"
  have r: "task_step\<^sup>*\<^sup>* demo_task ?c"
    using cancel_step.token_cancels [of demo_task] by (auto simp: task_step_def)
  have c: "is_cancelled (task_context ?c)" "functions_run ?c = []"
    by (simp_all add: context_cancel_cancels) (simp_all add: task_new_def new_context_def)
  obtain n t where t: "(execute_step ^^ n) ?c t" "executor t = Finished" "task_inv 1 2 t"
    using execute_runs_to_end [OF task_inv_reachable [OF r task_inv_new]] by blast
  from cancelled_task_never_runs [OF r c execute_steps_task_steps [OF t(1)]] execute_steps_task_steps [OF t(1)] t(2,3)
  show ?thesis by (auto simp: task_inv_def)
qed


lemma second_waiter_times_out_witness:
  "\<exists>t. task_step\<^sup>*\<^sup>* demo_task t \<and> state_of t = COMPLETED \<and> cancellers t 0 = CancelReturned True \<and>
     cancellers t 1 = Waiting"
  using second_waiter_times_out [of 1 2 new_context "()"] by blast

section \<open>Pending requests\<close>

text \<open>
  The tasks by their identity, the set of those that are pending, and where a thread is in
  \<open>CancelAllAndWait\<close>. That thread is the canceller 0 of the tasks it waits for; \<open>taken\<close> remembers
  what it has moved out of the set.
\<close>

datatype pending_pc = NotCalled | Cancelling "nat list" | Taking | WaitingFor "nat list" | AllReturned

record ('r, 'f, 'c, 'w) pending_requests =
  task_contexts :: "nat set"
  tasks :: "nat \<Rightarrow> ('r, 'f, 'c, 'w) task"
  pending_pc :: pending_pc
  taken :: "nat set"

definition pr_insert :: "nat \<Rightarrow> ('r, 'f, 'c, 'w) pending_requests \<Rightarrow> ('r, 'f, 'c, 'w) pending_requests" where
  "pr_insert x p = p\<lparr>task_contexts := insert x (task_contexts p)\<rparr>"

definition pr_remove :: "nat \<Rightarrow> ('r, 'f, 'c, 'w) pending_requests \<Rightarrow> ('r, 'f, 'c, 'w) pending_requests" where
  "pr_remove x p = p\<lparr>task_contexts := task_contexts p - {x}\<rparr>"

definition cancel_task :: "nat \<Rightarrow> ('r, 'f, 'c, 'w) pending_requests \<Rightarrow> ('r, 'f, 'c, 'w) pending_requests" where
  "cancel_task x p = p\<lparr>tasks := (tasks p)(x := context_cancel (tasks p x))\<rparr>"

text \<open>\<open>CancelAll\<close> without other threads: every task of the copied set, in the order of its iteration.\<close>

definition cancel_all :: "nat list \<Rightarrow> ('r, 'f, 'c, 'w) pending_requests \<Rightarrow> bool \<times> ('r, 'f, 'c, 'w) pending_requests" where
  "cancel_all order p = (True, fold cancel_task order p)"

text \<open>
  \<open>CancelAllAndWait\<close> among the other threads: it copies the set and cancels its tasks, moves out the set
  as it is then, and waits for each of these tasks, whatever the wait returns.
\<close>

inductive pending_step :: "('r, 'f, 'c, 'w) pending_requests \<Rightarrow> ('r, 'f, 'c, 'w) pending_requests \<Rightarrow> bool" where
  task_runs: "task_step (tasks p x) t \<Longrightarrow> pending_step p (p\<lparr>tasks := (tasks p)(x := t)\<rparr>)"
| inserts: "pending_step p (pr_insert x p)"
| removes: "pending_step p (pr_remove x p)"
| copies: "pending_pc p = NotCalled \<Longrightarrow> set order = task_contexts p \<Longrightarrow>
    pending_step p (p\<lparr>pending_pc := Cancelling order\<rparr>)"
| cancels_next: "pending_pc p = Cancelling (x # xs) \<Longrightarrow>
    pending_step p ((cancel_task x p)\<lparr>pending_pc := Cancelling xs\<rparr>)"
| cancels_last: "pending_pc p = Cancelling [] \<Longrightarrow> pending_step p (p\<lparr>pending_pc := Taking\<rparr>)"
| moves_out: "pending_pc p = Taking \<Longrightarrow> set order = task_contexts p \<Longrightarrow>
    pending_step p (p\<lparr>task_contexts := {}, taken := task_contexts p, pending_pc := WaitingFor order\<rparr>)"
| waits_next: "pending_pc p = WaitingFor (x # xs) \<Longrightarrow> cancellers (tasks p x) 0 = CancelReturned b \<Longrightarrow>
    pending_step p (p\<lparr>pending_pc := WaitingFor xs\<rparr>)"
| waits_last: "pending_pc p = WaitingFor [] \<Longrightarrow> pending_step p (p\<lparr>pending_pc := AllReturned\<rparr>)"

text \<open>The state of one task while it is waited for.\<close>

definition settled :: "('r, 'f, 'c, 'w) task \<Rightarrow> bool" where
  "settled t \<longleftrightarrow> is_cancelled (task_context t) \<or> executor t = Finished"

definition waiter_inv :: "('r, 'f, 'c, 'w) task \<Rightarrow> bool" where
  "waiter_inv t \<longleftrightarrow> task_context t \<noteq> None \<and> (cancellers t 0 \<notin> {Outside, Checked} \<longrightarrow> settled t)"

lemma task_step_context: "task_step t t' \<Longrightarrow> task_context t' = None \<longleftrightarrow> task_context t = None"
  unfolding task_step_def
  by (auto elim!: execute_step.cases cancel_step.cases simp: context_cancel_cancels dest: execute_or_cancelled_flag)

lemma task_step_settled:
  assumes "task_step t t'" "task_inv f c t" "settled t" shows "settled t'"
proof (cases "is_cancelled (task_context t)")
  case False
  then have "executor t = Finished" "state_of t = COMPLETED" using assms(2,3) by (auto simp: settled_def task_inv_def)
  then have "executor t' = Finished" using assms(1) unfolding task_step_def
    by (auto elim!: execute_step.cases cancel_step.cases)
  then show ?thesis by (simp add: settled_def)
qed (use assms(1) task_step_stays_cancelled in \<open>auto simp: settled_def\<close>)

lemma task_step_waiter:
  assumes "task_step t t'" "task_inv f c t" "waiter_inv t" shows "waiter_inv t'"
proof -
  have n: "task_context t' \<noteq> None" using assms(3) task_step_context [OF assms(1)] by (simp add: waiter_inv_def)
  consider "settled t" | "cancellers t 0 \<in> {Outside, Checked}" using assms(3) by (auto simp: waiter_inv_def)
  then show ?thesis
  proof cases
    case 1
    then show ?thesis using task_step_settled [OF assms(1,2)] n by (simp add: waiter_inv_def)
  next
    case 2
    have "settled t'" if "cancellers t' 0 \<notin> {Outside, Checked}"
      using assms(1) unfolding task_step_def
    proof
      assume "execute_step t t'"
      then show ?thesis using that 2 by (auto elim!: execute_step.cases)
    next
      assume "cancel_step t t'"
      then show ?thesis
        using that 2 assms(2,3) executor_completed [of f c t]
        by (auto elim!: cancel_step.cases simp: settled_def context_cancel_cancels waiter_inv_def task_inv_def
            split: if_splits)
    qed
    with n show ?thesis by (simp add: waiter_inv_def)
  qed
qed

lemma task_step_returned: "task_step t t' \<Longrightarrow> cancellers t i = CancelReturned b \<Longrightarrow> cancellers t' i = CancelReturned b"
  unfolding task_step_def
  by (auto elim!: execute_step.cases cancel_step.cases)

lemma fold_cancel_other: "x \<notin> set order \<Longrightarrow> tasks (fold cancel_task order p) x = tasks p x"
  by (induction order arbitrary: p) (simp_all add: cancel_task_def)

lemma fold_cancel_keeps:
  "is_cancelled (task_context (tasks p x)) \<Longrightarrow> is_cancelled (task_context (tasks (fold cancel_task order p) x))"
proof (induction order arbitrary: p)
  case (Cons a order)
  then have "is_cancelled (task_context (tasks (cancel_task a p) x))"
    by (auto simp: cancel_task_def context_cancel_cancels dest: is_cancelled_Some)
  from Cons.IH [OF this] show ?case by simp
qed simp

lemma cancel_all_cancels:
  "x \<in> set order \<Longrightarrow> task_context (tasks p x) \<noteq> None \<Longrightarrow>
   is_cancelled (task_context (tasks (snd (cancel_all order p)) x))"
proof (induction order arbitrary: p)
  case (Cons y ys)
  show ?case
  proof (cases "x = y")
    case True
    then show ?thesis using Cons.prems fold_cancel_keeps [of "cancel_task y p" x ys]
      by (simp add: cancel_all_def cancel_task_def context_cancel_cancels)
  next
    case False
    then show ?thesis using Cons by (simp add: cancel_all_def cancel_task_def)
  qed
qed simp

definition returned :: "('r, 'f, 'c, 'w) pending_requests \<Rightarrow> nat \<Rightarrow> bool" where
  "returned p x \<longleftrightarrow> (\<exists>b. cancellers (tasks p x) 0 = CancelReturned b)"

definition pending_inv ::
  "(nat \<Rightarrow> 'f) \<Rightarrow> (nat \<Rightarrow> 'c) \<Rightarrow> ('r, 'f, 'c, 'w) pending_requests \<Rightarrow> bool" where
  "pending_inv f c p \<longleftrightarrow>
     (\<forall>x. task_inv (f x) (c x) (tasks p x) \<and> waiter_inv (tasks p x)) \<and>
     (case pending_pc p of
        WaitingFor xs \<Rightarrow> \<forall>x \<in> taken p - set xs. returned p x
      | AllReturned \<Rightarrow> \<forall>x \<in> taken p. returned p x
      | _ \<Rightarrow> True)"

lemma pending_inv_tasks:
  assumes "pending_inv f c p" "\<And>y. task_step\<^sup>*\<^sup>* (tasks p y) (ts y)"
  shows "pending_inv f c (p\<lparr>tasks := ts\<rparr>)"
proof -
  have "task_inv (f y) (c y) (ts y) \<and> waiter_inv (ts y) \<and>
      (returned p y \<longrightarrow> (\<exists>b. cancellers (ts y) 0 = CancelReturned b))" for y
    using assms(2) [of y]
  proof (induction rule: rtranclp_induct)
    case (step a b)
    have "task_inv (f y) (c y) b"
      using step(2,3) by (auto simp: task_step_def execute_step_inv cancel_step_inv)
    moreover have "waiter_inv b" using task_step_waiter [OF step(2)] step(3) by blast
    moreover have "returned p y \<longrightarrow> (\<exists>x. cancellers b 0 = CancelReturned x)"
      using task_step_returned [OF step(2)] step(3) by blast
    ultimately show ?case by blast
  qed (use assms(1) in \<open>auto simp: pending_inv_def returned_def\<close>)
  then show ?thesis using assms(1)
    by (auto simp: pending_inv_def returned_def split: pending_pc.splits)
qed

lemma pending_inv_pc:
  assumes "pending_inv f c p" "tasks q = tasks p"
    and "\<And>xs x. pending_pc q = WaitingFor xs \<Longrightarrow> x \<in> taken q - set xs \<Longrightarrow> returned p x"
    and "\<And>x. pending_pc q = AllReturned \<Longrightarrow> x \<in> taken q \<Longrightarrow> returned p x"
  shows "pending_inv f c q"
  using assms by (auto simp: pending_inv_def returned_def split: pending_pc.splits)

lemma pending_step_inv:
  assumes "pending_step p q" "pending_inv f c p" shows "pending_inv f c q"
  using assms(1)
proof (cases rule: pending_step.cases)
  case (task_runs x t)
  have "pending_inv f c (p\<lparr>tasks := (tasks p)(x := t)\<rparr>)"
    by (rule pending_inv_tasks [OF assms(2)]) (use task_runs in \<open>simp add: r_into_rtranclp\<close>)
  with task_runs show ?thesis by simp
next
  case (cancels_next x xs)
  have "task_step (tasks p x) (context_cancel (tasks p x))"
    by (simp add: task_step_def cancel_step.token_cancels)
  then have "pending_inv f c (cancel_task x p)"
    unfolding cancel_task_def by (intro pending_inv_tasks [OF assms(2)]) (simp add: r_into_rtranclp)
  then show ?thesis unfolding cancels_next(1) by (rule pending_inv_pc) simp_all
next
  case (waits_next x xs b)
  then show ?thesis using assms(2)
    by (intro pending_inv_pc [OF assms(2)]) (auto simp: pending_inv_def returned_def)
qed (use assms(2) in \<open>auto simp: pending_inv_def returned_def pr_insert_def pr_remove_def split: pending_pc.splits\<close>)

text \<open>
  C12: when \<open>CancelAllAndWait\<close> has returned, every task that it took out of the set has been cancelled or
  had finished before, and its wait has ended; where the wait did not time out, the callback has returned.
  Other threads may insert, remove, execute and cancel tasks meanwhile.
\<close>

theorem cancel_all_and_wait_settles:
  assumes "\<And>x. tasks p x = task_new (f x) (c x) new_context (w x)" "pending_pc p = NotCalled"
    and "pending_step\<^sup>*\<^sup>* p q" "pending_pc q = AllReturned" "x \<in> taken q"
  shows "settled (tasks q x) \<and>
    (\<exists>b. cancellers (tasks q x) 0 = CancelReturned b \<and> (b \<longrightarrow> (\<exists>r. callbacks_run (tasks q x) = [(c x, r)])))"
proof -
  have "waiter_inv (tasks p x)" for x
    unfolding assms(1) by (simp add: waiter_inv_def task_new_def new_context_def)
  then have "pending_inv f c p" using assms(1,2) by (simp add: pending_inv_def task_inv_new)
  from assms(3) this have i: "pending_inv f c q" by (induction rule: rtranclp_induct) (auto intro: pending_step_inv)
  then obtain b where b: "cancellers (tasks q x) 0 = CancelReturned b"
    using assms(4,5) by (auto simp: pending_inv_def returned_def)
  moreover have "settled (tasks q x)" using i b by (auto simp: pending_inv_def waiter_inv_def)
  moreover have "\<exists>r. callbacks_run (tasks q x) = [(c x, r)]" if b
  proof -
    have "executor (tasks q x) \<in> {Notified, Finished}" "executor_ok (f x) (c x) (tasks q x) (executor (tasks q x))"
      using i b that by (auto simp: pending_inv_def task_inv_def)
    then show ?thesis by auto
  qed
  ultimately show ?thesis by blast
qed

lemma pending_steps_task:
  assumes "task_step\<^sup>*\<^sup>* (tasks p x) t" shows "pending_step\<^sup>*\<^sup>* p (p\<lparr>tasks := (tasks p)(x := t)\<rparr>)"
  using assms
proof (induction rule: rtranclp_induct)
  case (step a b)
  have "pending_step (p\<lparr>tasks := (tasks p)(x := a)\<rparr>) (p\<lparr>tasks := (tasks p)(x := b)\<rparr>)"
    using pending_step.task_runs [of "p\<lparr>tasks := (tasks p)(x := a)\<rparr>" x b] step(2) by simp
  with step.IH show ?case by (rule rtranclp.rtrancl_into_rtrancl)
qed simp

lemma cancel_all_and_wait_settles_witness:
  "\<exists>(q :: (nat, nat, nat, unit) pending_requests) b.
     pending_pc q = AllReturned \<and> 7 \<in> taken q \<and> settled (tasks q 7) \<and>
     cancellers (tasks q 7) 0 = CancelReturned b \<and> (b \<longrightarrow> (\<exists>r. callbacks_run (tasks q 7) = [(2, r)]))"
proof -
  let ?p = "\<lparr>task_contexts = {7}, tasks = \<lambda>_. demo_task, pending_pc = NotCalled, taken = {}\<rparr>"
  let ?a = "?p\<lparr>pending_pc := Cancelling []\<rparr>"
  let ?p1 = "?p\<lparr>pending_pc := Cancelling [7]\<rparr>"
  let ?p2 = "(cancel_task 7 ?p1)\<lparr>pending_pc := Cancelling []\<rparr>"
  let ?p3 = "?p2\<lparr>pending_pc := Taking\<rparr>"
  let ?p4 = "?p3\<lparr>task_contexts := {}, taken := task_contexts ?p3, pending_pc := WaitingFor [7]\<rparr>"
  have s: "pending_step\<^sup>*\<^sup>* ?p x \<Longrightarrow> pending_step x y \<Longrightarrow> pending_step\<^sup>*\<^sup>* ?p y" for x y
    by (rule rtranclp.rtrancl_into_rtrancl)
  have "pending_step\<^sup>*\<^sup>* ?p ?p1" by (rule s [OF rtranclp.rtrancl_refl pending_step.copies]) simp_all
  then have "pending_step\<^sup>*\<^sup>* ?p ?p2" by (rule s [OF _ pending_step.cancels_next]) simp
  then have "pending_step\<^sup>*\<^sup>* ?p ?p3" by (rule s [OF _ pending_step.cancels_last]) simp
  then have p4: "pending_step\<^sup>*\<^sup>* ?p ?p4" by (rule s [OF _ pending_step.moves_out]) (simp_all add: cancel_task_def)
  have "cancellers (tasks ?p4 7) 0 = Outside" "state_of (tasks ?p4 7) = PENDING"
    by (simp_all add: cancel_task_def task_new_def)
  from blocking_cancel_waits [OF rtranclp.rtrancl_refl this] obtain t where
    t: "task_step\<^sup>*\<^sup>* (tasks ?p4 7) t" "cancellers t = (cancellers (tasks ?p4 7))(0 := Waiting)" by blast
  have w: "cancellers t 0 = Waiting" using t(2) by simp
  obtain b sg where e: "wait_end (signaled t) = (b, sg)" by fastforce
  let ?u = "t\<lparr>signaled := sg, cancellers := (cancellers t)(0 := CancelReturned b)\<rparr>"
  let ?p5 = "?p4\<lparr>tasks := (tasks ?p4)(7 := ?u)\<rparr>"
  have "task_step\<^sup>*\<^sup>* (tasks ?p4 7) ?u"
    using t(1) cancel_step.wait_returns [OF w e] by (simp add: task_step_def rtranclp.rtrancl_into_rtrancl)
  from pending_steps_task [OF this] p4 have p5: "pending_step\<^sup>*\<^sup>* ?p ?p5" by (rule rtranclp_trans [rotated])
  then have "pending_step\<^sup>*\<^sup>* ?p (?p5\<lparr>pending_pc := WaitingFor []\<rparr>)"
    by (rule s [OF _ pending_step.waits_next [of _ 7 _ b]]) simp_all
  then have "pending_step\<^sup>*\<^sup>* ?p (?p5\<lparr>pending_pc := WaitingFor []\<rparr>\<lparr>pending_pc := AllReturned\<rparr>)"
    by (rule s [OF _ pending_step.waits_last]) simp
  then obtain q where q: "pending_step\<^sup>*\<^sup>* ?p q" "pending_pc q = AllReturned" "7 \<in> taken q"
    by (rule that) (simp_all add: cancel_task_def)
  have n: "tasks ?p x = task_new ((\<lambda>_. 1) x) ((\<lambda>_. 2) x) new_context ((\<lambda>_. ()) x)" for x by simp
  have "settled (tasks q 7) \<and> (\<exists>b. cancellers (tasks q 7) 0 = CancelReturned b \<and>
      (b \<longrightarrow> (\<exists>r. callbacks_run (tasks q 7) = [(2, r)])))"
    by (rule cancel_all_and_wait_settles [OF n _ q]) simp_all
  with q(2,3) show ?thesis by blast
qed

end
