(* ===== verification/Url.thy ===== *)
theory Url
  imports Prelude "HOL-Library.Char_ord"
begin

text \<open>
  Percent encoding and the construction of request URLs: \<open>src/utils/Url.cpp\<close>. A string is the list of its
  bytes, a multimap the list of its pairs in the order of its iteration.
\<close>

section \<open>Encoding\<close>

abbreviation (input) code :: "char \<Rightarrow> nat" where
  "code \<equiv> of_char"

definition is_unreserved :: "char \<Rightarrow> bool" where
  "is_unreserved c \<longleftrightarrow>
     \<not> ((c < CHR ''a'' \<or> CHR ''z'' < c) \<and> (c < CHR ''A'' \<or> CHR ''Z'' < c) \<and>
        (c < CHR ''0'' \<or> CHR ''9'' < c) \<and> c \<noteq> CHR ''.'' \<and> c \<noteq> CHR ''-'' \<and> c \<noteq> CHR ''~'' \<and> c \<noteq> CHR ''_'')"

definition hex_digit :: "nat \<Rightarrow> char" where
  "hex_digit n = (if n < 10 then char_of (48 + n) else char_of (55 + n))"

text \<open>What \<open>snprintf\<close> writes for the format \<open>%%%.2X\<close>.\<close>

definition percent_hex :: "char \<Rightarrow> string" where
  "percent_hex c = [CHR ''%'', hex_digit (code c div 16), hex_digit (code c mod 16)]"

fun url_encode :: "string \<Rightarrow> string" where
  "url_encode [] = []"
| "url_encode (c # cs) = (if \<not> is_unreserved c then percent_hex c @ url_encode cs else c # url_encode cs)"

section \<open>Decoding\<close>

definition is_hex_digit :: "char \<Rightarrow> bool" where
  "is_hex_digit c \<longleftrightarrow> CHR ''0'' \<le> c \<and> c \<le> CHR ''9'' \<or> CHR ''A'' \<le> c \<and> c \<le> CHR ''F'' \<or>
     CHR ''a'' \<le> c \<and> c \<le> CHR ''f''"

definition hex_value :: "char \<Rightarrow> nat" where
  "hex_value c = (if c \<le> CHR ''9'' then code c - 48 else if c \<le> CHR ''F'' then code c - 55 else code c - 87)"

definition hex_to_uint :: "string \<Rightarrow> nat" where
  "hex_to_uint s = foldl (\<lambda>v c. 16 * v + hex_value c) 0 s"

text \<open>
  The loop of \<open>Decode\<close> on what is left of the input. The index test \<open>read_idx < in.size() - 2\<close> says that two
  characters follow; where the subtraction wraps, for a single character, the terminating null that is
  read is no digit.
\<close>

fun url_decode :: "string \<Rightarrow> string" where
  "url_decode [] = []"
| "url_decode (c # cs) =
     (if 2 \<le> length cs \<and> c = CHR ''%'' \<and> is_hex_digit (cs ! 0) \<and> is_hex_digit (cs ! 1)
      then char_of (hex_to_uint [cs ! 0, cs ! 1]) # url_decode (drop 2 cs)
      else if c = CHR ''+'' then CHR '' '' # url_decode cs
      else c # url_decode cs)"

section \<open>Construction\<close>

fun url_params :: "bool \<Rightarrow> (string \<times> string) list \<Rightarrow> string" where
  "url_params first_param [] = []"
| "url_params first_param ((k, v) # ps) =
     (if first_param then ''?'' else ''&'') @ url_encode k @ ''='' @ url_encode v @ url_params False ps"

definition url_construct :: "string \<Rightarrow> string \<Rightarrow> (string \<times> string) list \<Rightarrow> string" where
  "url_construct base path query_params = base @ path @ url_params True query_params"

section \<open>Round trips\<close>

lemma hex_digit_inverse: "n < 16 \<Longrightarrow> is_hex_digit (hex_digit n) \<and> hex_value (hex_digit n) = n"
proof -
  have "list_all (\<lambda>n. is_hex_digit (hex_digit n) \<and> hex_value (hex_digit n) = n) [0..<16]" by code_simp
  then show "n < 16 \<Longrightarrow> is_hex_digit (hex_digit n) \<and> hex_value (hex_digit n) = n"
    unfolding list_all_iff by simp
qed

lemma nibbles [simp]: "(of_char c :: nat) div 16 < 16" "(of_char c :: nat) mod 16 < 16"
  using nat_of_char_less_256 [of c] by (simp_all add: less_mult_imp_div_less)

lemma percent_hex_inverse:
  "hex_to_uint [hex_digit (code c div 16), hex_digit (code c mod 16)] = code c"
  by (simp add: hex_to_uint_def hex_digit_inverse)

lemma unreserved_plain: "is_unreserved c \<Longrightarrow> c \<noteq> CHR ''%'' \<and> c \<noteq> CHR ''+'' \<and> c \<noteq> CHR ''&'' \<and> c \<noteq> CHR ''=''"
  by (auto simp: is_unreserved_def less_char_def)

text \<open>Decoding an encoded string gives the string back, whatever bytes it has.\<close>

lemma url_decode_encode: "url_decode (url_encode s) = s"
proof (induction s)
  case (Cons c s)
  show ?case using Cons unreserved_plain [of c] by (auto simp: percent_hex_def percent_hex_inverse hex_digit_inverse numeral_2_eq_2)
qed simp

text \<open>Reading a query: the parts between \<open>&\<close>, each a key up to its first \<open>=\<close> and a value.\<close>

fun split_on :: "char \<Rightarrow> string \<Rightarrow> string list" where
  "split_on d [] = [[]]"
| "split_on d (c # cs) =
     (if c = d then [] # split_on d cs else (c # hd (split_on d cs)) # tl (split_on d cs))"

definition parse_param :: "string \<Rightarrow> string \<times> string" where
  "parse_param p =
     (url_decode (takeWhile (\<lambda>c. c \<noteq> CHR ''='') p), url_decode (drop 1 (dropWhile (\<lambda>c. c \<noteq> CHR ''='') p)))"

definition parse_query :: "string \<Rightarrow> (string \<times> string) list" where
  "parse_query q = map parse_param (split_on CHR ''&'' q)"

lemma split_on_not_Nil [simp]: "split_on d s \<noteq> []"
  by (cases s) auto

lemma split_on_append:
  "d \<notin> set p \<Longrightarrow> split_on d (p @ s) = (p @ hd (split_on d s)) # tl (split_on d s)"
  by (induction p) auto

lemma encode_safe: "c \<in> set (url_encode s) \<Longrightarrow> is_unreserved c \<or> c = CHR ''%''"
proof (induction s)
  case (Cons a s)
  have "is_unreserved (hex_digit n)" if "n < 16" for n
  proof -
    have "list_all (\<lambda>n. is_unreserved (hex_digit n)) [0..<16]" by code_simp
    with that show ?thesis unfolding list_all_iff by simp
  qed
  then show ?case using Cons by (auto simp: percent_hex_def split: if_splits)
qed simp

lemma encode_no_delimiter [simp]:
  "CHR ''='' \<notin> set (url_encode s)" "CHR ''&'' \<notin> set (url_encode s)"
  using encode_safe unreserved_plain by fastforce+

lemma parse_param_encoded: "parse_param (url_encode k @ ''='' @ url_encode v) = (k, v)"
proof -
  have t: "takeWhile (\<lambda>c. c \<noteq> CHR ''='') (url_encode k @ CHR ''='' # url_encode v) = url_encode k"
    by (subst takeWhile_append2) auto
  have d: "dropWhile (\<lambda>c. c \<noteq> CHR ''='') (url_encode k @ CHR ''='' # url_encode v) = CHR ''='' # url_encode v"
    by (subst dropWhile_append2) auto
  show ?thesis by (simp add: parse_param_def t d url_decode_encode)
qed

lemma parse_query_params:
  "parse_query (url_encode k @ ''='' @ url_encode v @ url_params False ps) = (k, v) # ps"
proof (induction ps arbitrary: k v)
  case Nil
  have "split_on CHR ''&'' (url_encode k @ ''='' @ url_encode v) = [url_encode k @ ''='' @ url_encode v]"
    using split_on_append [of "CHR ''&''" "url_encode k @ ''='' @ url_encode v" "[]"] by simp
  then show ?case by (simp add: parse_query_def parse_param_encoded [simplified])
next
  case (Cons p ps)
  obtain k' v' where p: "p = (k', v')" by fastforce
  have "split_on CHR ''&'' (url_encode k @ ''='' @ url_encode v @ url_params False (p # ps)) =
      (url_encode k @ ''='' @ url_encode v) #
        split_on CHR ''&'' (url_encode k' @ ''='' @ url_encode v' @ url_params False ps)"
    using split_on_append [of "CHR ''&''" "url_encode k @ ''='' @ url_encode v" "url_params False (p # ps)"] p by simp
  then show ?case using Cons.IH [of k' v'] p by (simp add: parse_query_def parse_param_encoded [simplified])
qed

text \<open>
  C14: the query of a constructed URL says exactly what was asked for: without parameters the URL is the
  base and the path; with parameters, reading what follows the question mark gives back the list of
  parameters, in order, with their duplicates, whatever characters the keys and values have.
\<close>

theorem url_construct_round_trip:
  "(case ps of
      [] \<Rightarrow> url_construct base path ps = base @ path
    | _ \<Rightarrow> \<exists>q. url_construct base path ps = base @ path @ ''?'' @ q \<and> parse_query q = ps)"
proof (cases ps)
  case (Cons p qs)
  obtain k v where "p = (k, v)" by fastforce
  with Cons parse_query_params [of k v qs] show ?thesis by (auto simp: url_construct_def)
qed (simp add: url_construct_def)

end
