(* ===== verification/OlpClient.thy ===== *)
theory OlpClient
  imports ApiError Url
begin

text \<open>
  The client: \<open>src/client/OlpClient.cpp\<close>, \<open>src/client/OlpClientSettings.cpp\<close>, the request, response and
  settings classes of \<open>src/http\<close>, and \<open>BackdownStrategy.h\<close>.

  The network, the cancellation by other threads and the passing of time are an environment: what they
  answer is a function of the events so far, so every behaviour of them is some environment. An operation
  extends the list of events. Milliseconds are 64 bit in the code and \<open>int\<close> here.
\<close>

section \<open>Requests and responses\<close>

datatype http_verb = GET | POST | HEAD | PUT | DEL | PATCH

datatype proxy_type = PROXY_NONE | PROXY_HTTP | SOCKS4 | SOCKS4A | SOCKS5 | SOCKS5_HOSTNAME

record network_proxy_settings =
  proxy_type_of :: proxy_type
  proxy_port :: "16 word"
  proxy_hostname :: string
  proxy_username :: string
  proxy_password :: string

definition default_proxy_settings :: network_proxy_settings where
  "default_proxy_settings =
     \<lparr>proxy_type_of = PROXY_NONE, proxy_port = 0, proxy_hostname = [], proxy_username = [], proxy_password = []\<rparr>"

record network_settings =
  net_retries :: u64
  connection_timeout :: int
  transfer_timeout :: int
  net_proxy :: network_proxy_settings

definition default_network_settings :: network_settings where
  "default_network_settings =
     \<lparr>net_retries = 3, connection_timeout = 60, transfer_timeout = 30, net_proxy = default_proxy_settings\<rparr>"

record network_request =
  request_verb :: http_verb
  request_url :: string
  request_headers :: "(string \<times> string) list"
  request_body :: "string option"
  request_settings :: network_settings

definition request_of_url :: "string \<Rightarrow> network_request" where
  "request_of_url url =
     \<lparr>request_verb = GET, request_url = url, request_headers = [], request_body = None,
      request_settings = default_network_settings\<rparr>"

definition with_header :: "string \<Rightarrow> string \<Rightarrow> network_request \<Rightarrow> network_request" where
  "with_header n v r = r\<lparr>request_headers := request_headers r @ [(n, v)]\<rparr>"

record network_response =
  net_request_id :: u64
  net_status :: int
  net_error :: string

definition response_cancelled :: "network_response \<Rightarrow> bool" where
  "response_cancelled r \<longleftrightarrow> net_status r = http_error_value CANCELLED_ERROR"

definition kCancelledErrorResponse :: network_response where
  "kCancelledErrorResponse =
     \<lparr>net_request_id = 0, net_status = http_error_value CANCELLED_ERROR, net_error = ''Operation Cancelled.''\<rparr>"

definition kTimeoutErrorResponse :: network_response where
  "kTimeoutErrorResponse =
     \<lparr>net_request_id = 0, net_status = http_error_value TIMEOUT_ERROR, net_error = ''Network request timed out.''\<rparr>"

definition to_http_response :: "network_response \<Rightarrow> http_response" where
  "to_http_response r = \<lparr>resp_status = net_status r, resp_body = net_error r\<rparr>"

section \<open>Settings\<close>

record retry_settings =
  max_attempts :: int
  timeout :: int
  initial_backdown_period :: int
  backdown_policy :: "(int \<Rightarrow> int) option"
  backdown_strategy :: "(int \<Rightarrow> nat \<Rightarrow> int) option"
  retry_condition :: "http_response \<Rightarrow> bool"

definition default_backdown_policy :: "int \<Rightarrow> int" where
  "default_backdown_policy milliseconds = milliseconds"

definition default_retry_condition :: "http_response \<Rightarrow> bool" where
  "default_retry_condition response \<longleftrightarrow> resp_status response = 500 \<or> resp_status response = 503"

definition default_retry_settings :: retry_settings where
  "default_retry_settings =
     \<lparr>max_attempts = 3, timeout = 60, initial_backdown_period = 200, backdown_policy = Some default_backdown_policy,
      backdown_strategy = None, retry_condition = default_retry_condition\<rparr>"

text \<open>What the provider of a token returns, if there is one.\<close>

record authentication_settings =
  token_provider :: "string option"

record olp_client_settings =
  retry_settings_of :: retry_settings
  proxy_settings_of :: "network_proxy_settings option"
  authentication_of :: "authentication_settings option"

record olp_client =
  base_url :: string
  default_headers :: "(string \<times> string) list"
  client_settings :: olp_client_settings

text \<open>
  The shift is of an \<open>int\<close>: \<^term>\<open>None\<close> where it leaves the 31 value bits. \<open>draw\<close> is the uniform
  distribution on the interval from 0 to its argument.
\<close>

definition exponential_backdown :: "(int \<Rightarrow> int) \<Rightarrow> int \<Rightarrow> nat \<Rightarrow> int option" where
  "exponential_backdown draw initial retry_count =
     (if 31 \<le> retry_count then None else Some (draw (initial * 2 ^ retry_count)))"

text \<open>The policy takes and returns an \<open>int\<close> of 32 bits.\<close>

definition calculate_next_wait_time :: "retry_settings \<Rightarrow> int \<Rightarrow> nat \<Rightarrow> int" where
  "calculate_next_wait_time settings current_backdown_period current_try =
     (case backdown_strategy settings of
        Some strategy \<Rightarrow> strategy (initial_backdown_period settings) current_try
      | None \<Rightarrow>
          (case backdown_policy settings of
             Some policy \<Rightarrow> policy (signed_take_bit 31 current_backdown_period)
           | None \<Rightarrow> 0))"

definition status_success :: "int \<Rightarrow> bool" where
  "status_success status \<longleftrightarrow> 0 \<le> status \<and> status < 400"

section \<open>Creating a request\<close>

definition get_http_verb :: "string \<Rightarrow> http_verb" where
  "get_http_verb verb =
     (if verb = ''GET'' then GET
      else if verb = ''PUT'' then PUT
      else if verb = ''POST'' then POST
      else if verb = ''DELETE'' then DEL
      else GET)"

definition to_lower :: "char \<Rightarrow> char" where
  "to_lower c = (if CHR ''A'' \<le> c \<and> c \<le> CHR ''Z'' then char_of (of_char c + 32 :: nat) else c)"

definition case_insensitive_compare :: "string \<Rightarrow> string \<Rightarrow> bool" where
  "case_insensitive_compare str1 str2 \<longleftrightarrow> list_all2 (\<lambda>c1 c2. c1 = c2 \<or> to_lower c1 = to_lower c2) str1 str2"

abbreviation (input) kUserAgentHeader :: string where
  "kUserAgentHeader \<equiv> ''User-Agent''"

text \<open>The loop over the headers of the call: the request, and the user agents collected.\<close>

fun add_headers :: "(string \<times> string) list \<Rightarrow> network_request \<times> string \<Rightarrow> network_request \<times> string" where
  "add_headers [] ra = ra"
| "add_headers ((n, v) # hs) (r, custom_user_agent) =
     (if case_insensitive_compare n kUserAgentHeader then add_headers hs (r, custom_user_agent @ v @ '' '')
      else add_headers hs (with_header n v r, custom_user_agent))"

text \<open>\<open>sdk_agent\<close> is the user agent of the library, which the build sets.\<close>

definition create_request ::
  "string \<Rightarrow> olp_client \<Rightarrow> string \<Rightarrow> string \<Rightarrow> (string \<times> string) list \<Rightarrow> (string \<times> string) list \<Rightarrow>
   string option \<Rightarrow> string \<Rightarrow> network_request" where
  "create_request sdk_agent c path verb query_params header_params post_body content_type =
     (let r = request_of_url (url_construct (base_url c) path query_params);
          r = r\<lparr>request_verb := get_http_verb verb\<rparr>;
          r = (case Option.bind (authentication_of (client_settings c)) token_provider of
                 Some token \<Rightarrow> with_header ''Authorization'' (''Bearer'' @ '' '' @ token) r
               | None \<Rightarrow> r);
          r = fold (\<lambda>(n, v). with_header n v) (default_headers c) r;
          (r, custom_user_agent) = add_headers header_params (r, []);
          r = with_header kUserAgentHeader (custom_user_agent @ sdk_agent) r;
          r = (if content_type \<noteq> [] then with_header ''Content-Type'' content_type r else r)
      in r\<lparr>request_body := post_body\<rparr>)"

section \<open>The environment\<close>

datatype call_event =
    AskedCancelled
  | Sent network_request
  | Awaited int
  | Slept int
  | CancelledOperation

type_synonym events = "call_event list"

text \<open>
  Whether the context is cancelled; what \<open>Send\<close> returns; what the wait for the answer ends with, a response
  with its body or nothing; and whether the network and the context of the call still exist.
\<close>

record call_env =
  cancelled_now :: "events \<Rightarrow> bool"
  send_outcome_of :: "events \<Rightarrow> send_outcome"
  answer_of :: "events \<Rightarrow> (network_response \<times> string) option"
  network_alive :: "events \<Rightarrow> bool"
  context_alive :: "events \<Rightarrow> bool"

definition ask_cancelled :: "call_env \<Rightarrow> events \<Rightarrow> bool \<times> events" where
  "ask_cancelled env ev = (cancelled_now env ev, ev @ [AskedCancelled])"

definition sleep_for :: "int \<Rightarrow> events \<Rightarrow> events" where
  "sleep_for ms ev = ev @ [Slept ms]"

section \<open>The synchronous call\<close>

text \<open>
  \<open>ExecuteOrCancelled\<close> leaves the outcome as it was initialised when the context is cancelled. The wait
  ends with the response of the network, with the one that the token stores on cancellation, or with
  the timeout.
\<close>

definition send_request :: "call_env \<Rightarrow> network_request \<Rightarrow> retry_settings \<Rightarrow> events \<Rightarrow> http_response \<times> events" where
  "send_request env request retry ev =
     (let (c, ev) = ask_cancelled env ev;
          (oc, ev) = (if c then (outcome_of_error CANCELLED_ERROR, ev)
                      else (send_outcome_of env ev, ev @ [Sent request]))
      in if \<not> outcome_successful oc
         then (\<lparr>resp_status = http_error_value (outcome_error oc), resp_body = http_error_string (outcome_error oc)\<rparr>, ev)
         else
          (let answer = answer_of env ev; ev = ev @ [Awaited (timeout retry)]
           in case answer of
                None \<Rightarrow> (to_http_response kTimeoutErrorResponse, ev @ [CancelledOperation])
              | Some (response, body) \<Rightarrow>
                  (let (c, ev) = ask_cancelled env ev
                   in if c then (to_http_response kCancelledErrorResponse, ev)
                      else (\<lparr>resp_status = net_status response, resp_body = body\<rparr>, ev))))"

text \<open>The sleep in pieces of at most a second, which stops when the context is cancelled.\<close>

function sleep_loop :: "call_env \<Rightarrow> int \<Rightarrow> events \<Rightarrow> events" where
  "sleep_loop env duration ev =
     (if 0 < duration
      then (let (c, ev) = ask_cancelled env ev
            in if c then ev
               else (let sleep_ms = min 1000 duration in sleep_loop env (duration - sleep_ms) (sleep_for sleep_ms ev)))
      else ev)"
  by pat_completeness auto
termination by (relation "measure (\<lambda>(_, d, _). nat d)") auto

declare sleep_loop.simps [simp del]

definition max_wait_time :: "retry_settings \<Rightarrow> int" where
  "max_wait_time s = timeout s * 1000"

text \<open>The loop of \<open>CallApi\<close>: \<open>k\<close> is the number of rounds from \<open>i\<close> to \<open>max_attempts\<close>.\<close>

fun retry_loop ::
  "call_env \<Rightarrow> network_request \<Rightarrow> retry_settings \<Rightarrow> nat \<Rightarrow> nat \<Rightarrow> int \<Rightarrow> int \<Rightarrow> http_response \<Rightarrow> events \<Rightarrow>
   http_response \<times> events" where
  "retry_loop env request s 0 i backdown_period accumulated response ev = (response, ev)"
| "retry_loop env request s (Suc k) i backdown_period accumulated response ev =
     (let (c, ev) = ask_cancelled env ev in
      if c \<or> \<not> accumulated < max_wait_time s then (response, ev)
      else if status_success (resp_status response) then (response, ev)
      else if \<not> retry_condition s response then (response, ev)
      else
       (let duration = min backdown_period (max_wait_time s - accumulated);
            ev = sleep_loop env duration ev;
            next_period = calculate_next_wait_time s backdown_period i;
            (response, ev) = send_request env request s ev
        in retry_loop env request s k (i + 1) next_period (accumulated + duration) response ev))"

definition call_api ::
  "string \<Rightarrow> call_env \<Rightarrow> olp_client \<Rightarrow> string \<Rightarrow> string \<Rightarrow> (string \<times> string) list \<Rightarrow> (string \<times> string) list \<Rightarrow>
   string option \<Rightarrow> string \<Rightarrow> events \<Rightarrow> http_response \<times> events" where
  "call_api sdk_agent env c path verb query_params header_params post_body content_type ev =
     (let s = retry_settings_of (client_settings c);
          proxy = (case proxy_settings_of (client_settings c) of None \<Rightarrow> default_proxy_settings | Some p \<Rightarrow> p);
          request = (create_request sdk_agent c path verb query_params header_params post_body content_type)
            \<lparr>request_settings := default_network_settings
               \<lparr>transfer_timeout := timeout s, connection_timeout := timeout s, net_proxy := proxy\<rparr>\<rparr>;
          (response, ev) = send_request env request s ev
      in retry_loop env request s (nat (max_attempts s)) 1 (initial_backdown_period s) (initial_backdown_period s)
           response ev)"

section \<open>The asynchronous call\<close>

text \<open>The response that the callback gets; \<^term>\<open>None\<close> when the network never calls back.\<close>

definition execute_single_request :: "call_env \<Rightarrow> network_request \<Rightarrow> events \<Rightarrow> http_response option \<times> events" where
  "execute_single_request env request ev =
     (if \<not> network_alive env ev
      then (Some \<lparr>resp_status = http_error_value OFFLINE_ERROR, resp_body = []\<rparr>, ev)
      else
       (let oc = send_outcome_of env ev; ev = ev @ [Sent request] in
        if \<not> outcome_successful oc
        then (Some \<lparr>resp_status = http_error_value (outcome_error oc),
                    resp_body = http_error_string (outcome_error oc)\<rparr>, ev)
        else
         (map_option (\<lambda>(response, body).
            let status = net_status response;
                body = (if 400 \<le> status \<or> status < 0
                        then (if net_error response = [] then ''Error occured. Please check HTTP status code.''
                              else net_error response)
                        else body)
            in \<lparr>resp_status = status, resp_body = body\<rparr>) (answer_of env ev), ev)))"

definition cancelled_http_response :: http_response where
  "cancelled_http_response = \<lparr>resp_status = http_error_value CANCELLED_ERROR, resp_body = ''Operation Cancelled.''\<rparr>"

text \<open>The callback of \<open>GetRetryCallback\<close>, after \<open>++current_try\<close>, with what follows from it.\<close>

function retry_callback ::
  "call_env \<Rightarrow> network_request \<Rightarrow> retry_settings \<Rightarrow> nat \<Rightarrow> int \<Rightarrow> int \<Rightarrow> http_response \<Rightarrow> events \<Rightarrow>
   http_response option \<times> events" where
  "retry_callback env request s current_try backdown_period accumulated response ev =
     (if max_attempts s < int current_try \<or> \<not> retry_condition s response \<or> max_wait_time s \<le> accumulated
      then (Some response, ev)
      else
       (let actual_wait_time = min backdown_period (max_wait_time s - accumulated);
            ev = sleep_for actual_wait_time ev;
            next_wait_time = calculate_next_wait_time s backdown_period current_try
        in if \<not> context_alive env ev then (Some cancelled_http_response, ev)
           else
            (let (c, ev) = ask_cancelled env ev in
             if c then (Some cancelled_http_response, ev)
             else
              (case execute_single_request env request ev of
                 (None, ev) \<Rightarrow> (None, ev)
               | (Some response, ev) \<Rightarrow>
                   retry_callback env request s (current_try + 1) next_wait_time (accumulated + actual_wait_time)
                     response ev))))"
  by pat_completeness auto
termination by (relation "measure (\<lambda>(_, _, s, n, _). nat (max_attempts s + 1 - int n))") auto

declare retry_callback.simps [simp del]

definition call_api_async ::
  "string \<Rightarrow> call_env \<Rightarrow> olp_client \<Rightarrow> string \<Rightarrow> string \<Rightarrow> (string \<times> string) list \<Rightarrow> (string \<times> string) list \<Rightarrow>
   string option \<Rightarrow> string \<Rightarrow> events \<Rightarrow> http_response option \<times> events" where
  "call_api_async sdk_agent env c path verb query_params header_params post_body content_type ev =
     (let s = retry_settings_of (client_settings c);
          proxy = (case proxy_settings_of (client_settings c) of None \<Rightarrow> default_proxy_settings | Some p \<Rightarrow> p);
          request = (create_request sdk_agent c path verb query_params header_params post_body content_type)
            \<lparr>request_settings := default_network_settings
               \<lparr>connection_timeout := timeout s, transfer_timeout := timeout s,
                net_retries := of_int (max_attempts s), net_proxy := proxy\<rparr>\<rparr>;
          (c, ev) = ask_cancelled env ev
      in if c then (Some cancelled_http_response, ev)
         else
          (case execute_single_request env request ev of
             (None, ev) \<Rightarrow> (None, ev)
           | (Some response, ev) \<Rightarrow>
               retry_callback env request s 1 (initial_backdown_period s) 0 response ev))"

section \<open>Attempts and waiting\<close>

definition sent :: "events \<Rightarrow> nat" where
  "sent ev = length (filter (\<lambda>e. case e of Sent _ \<Rightarrow> True | _ \<Rightarrow> False) ev)"

definition slept :: "events \<Rightarrow> int" where
  "slept ev = sum_list (map (\<lambda>e. case e of Slept ms \<Rightarrow> ms | _ \<Rightarrow> 0) ev)"

named_theorems event_counts

lemma sent_counts [simp, event_counts]:
  "sent [] = 0" "sent (e # ev) = (case e of Sent _ \<Rightarrow> 1 | _ \<Rightarrow> 0) + sent ev" "sent (ev @ ev') = sent ev + sent ev'"
  by (simp_all add: sent_def split: call_event.split)

lemma slept_counts [simp, event_counts]:
  "slept [] = 0" "slept (e # ev) = (case e of Slept ms \<Rightarrow> ms | _ \<Rightarrow> 0) + slept ev" "slept (ev @ ev') = slept ev + slept ev'"
  by (simp_all add: slept_def)

text \<open>Backdown periods that fit an \<open>int\<close> and are never negative, and an environment without cancellation.\<close>

definition period_ok :: "int \<Rightarrow> bool" where
  "period_ok p \<longleftrightarrow> 0 \<le> p \<and> p < 2 ^ 31"

definition backdown_ok :: "retry_settings \<Rightarrow> bool" where
  "backdown_ok s \<longleftrightarrow> period_ok (initial_backdown_period s) \<and>
     (\<forall>p n. period_ok p \<longrightarrow> period_ok (calculate_next_wait_time s p n))"

lemma backdown_okD:
  "backdown_ok s \<Longrightarrow> period_ok p \<Longrightarrow> period_ok (calculate_next_wait_time s p n)"
  "backdown_ok s \<Longrightarrow> period_ok (initial_backdown_period s)"
  by (simp_all add: backdown_ok_def)

lemma period_nonneg: "period_ok p \<Longrightarrow> 0 \<le> p"
  by (simp add: period_ok_def)

lemma default_backdown_ok [simp]: "backdown_ok default_retry_settings"
  by (simp add: backdown_ok_def period_ok_def default_retry_settings_def calculate_next_wait_time_def
      default_backdown_policy_def signed_take_bit_int_eq_self)

definition never_cancelled :: "call_env \<Rightarrow> bool" where
  "never_cancelled env \<longleftrightarrow> (\<forall>ev. \<not> cancelled_now env ev)"

lemma send_request_events:
  assumes "send_request env r s ev = (resp, ev')"
  shows "\<exists>d. ev' = ev @ d \<and> sent d \<le> 1 \<and> slept d = 0 \<and> (never_cancelled env \<longrightarrow> sent d = 1)"
  using assms
  by (auto simp: send_request_def ask_cancelled_def Let_def never_cancelled_def split: if_splits option.splits prod.splits)

lemma sleep_loop_events:
  "\<exists>d. sleep_loop env duration ev = ev @ d \<and> sent d = 0 \<and> 0 \<le> slept d \<and> slept d \<le> max 0 duration \<and>
     (never_cancelled env \<longrightarrow> slept d = max 0 duration)"
proof (induction env duration ev rule: sleep_loop.induct)
  case (1 env duration ev)
  show ?case
  proof (cases "0 < duration \<and> \<not> cancelled_now env ev")
    case True
    let ?m = "min 1000 duration"
    have "\<exists>d. sleep_loop env (duration - ?m) (sleep_for ?m (ev @ [AskedCancelled])) = sleep_for ?m (ev @ [AskedCancelled]) @ d \<and>
        sent d = 0 \<and> 0 \<le> slept d \<and> slept d \<le> max 0 (duration - ?m) \<and>
        (never_cancelled env \<longrightarrow> slept d = max 0 (duration - ?m))"
      using 1 [OF _ refl _ _ refl, of False "ev @ [AskedCancelled]"] True by (simp add: ask_cancelled_def)
    then obtain d where d: "sleep_loop env (duration - ?m) (sleep_for ?m (ev @ [AskedCancelled])) =
        sleep_for ?m (ev @ [AskedCancelled]) @ d" "sent d = 0" "0 \<le> slept d" "slept d \<le> max 0 (duration - ?m)"
        "never_cancelled env \<longrightarrow> slept d = max 0 (duration - ?m)" by blast
    then have "sleep_loop env duration ev = ev @ ([AskedCancelled, Slept ?m] @ d)"
      using True by (subst sleep_loop.simps) (simp add: ask_cancelled_def sleep_for_def)
    then show ?thesis using d True by (intro exI [of _ "[AskedCancelled, Slept ?m] @ d"]) auto
  next
    case False
    then show ?thesis
      by (subst sleep_loop.simps) (auto simp: ask_cancelled_def never_cancelled_def)
  qed
qed

lemma retry_loop_events:
  assumes "retry_loop env r s k i b acc resp ev = (resp', ev')" "backdown_ok s" "period_ok b"
  shows "\<exists>d. ev' = ev @ d \<and> sent d \<le> k \<and> 0 \<le> slept d \<and> slept d \<le> max 0 (max_wait_time s - acc) \<and>
    (never_cancelled env \<longrightarrow> status_success (resp_status resp') \<or> \<not> retry_condition s resp' \<or>
       sent d = k \<or> max_wait_time s \<le> acc + slept d)"
  using assms(1,3)
proof (induction k arbitrary: i b acc resp ev)
  case (Suc k)
  let ?ev1 = "ev @ [AskedCancelled]"
  show ?case
  proof (cases "\<not> cancelled_now env ev \<and> acc < max_wait_time s \<and> \<not> status_success (resp_status resp) \<and> retry_condition s resp")
    case True
    let ?d = "min b (max_wait_time s - acc)"
    obtain d1 where d1: "sleep_loop env ?d ?ev1 = ?ev1 @ d1" "sent d1 = 0" "0 \<le> slept d1" "slept d1 \<le> max 0 ?d"
        "never_cancelled env \<longrightarrow> slept d1 = max 0 ?d"
      using sleep_loop_events by blast
    obtain resp1 ev2 where s1: "send_request env r s (?ev1 @ d1) = (resp1, ev2)" by fastforce
    from send_request_events [OF s1] obtain d2 where d2: "ev2 = (?ev1 @ d1) @ d2" "sent d2 \<le> 1" "slept d2 = 0"
        "never_cancelled env \<longrightarrow> sent d2 = 1" by blast
    have l: "retry_loop env r s k (i + 1) (calculate_next_wait_time s b i) (acc + ?d) resp1 ev2 = (resp', ev')"
      using Suc.prems(1) True d1(1) s1 by (simp add: ask_cancelled_def Let_def)
    from Suc.IH [OF l backdown_okD(1) [OF assms(2) Suc.prems(2)]] obtain d3 where d3: "ev' = ev2 @ d3" "sent d3 \<le> k" "0 \<le> slept d3"
        "slept d3 \<le> max 0 (max_wait_time s - (acc + ?d))"
        "never_cancelled env \<longrightarrow> status_success (resp_status resp') \<or> \<not> retry_condition s resp' \<or>
           sent d3 = k \<or> max_wait_time s \<le> acc + ?d + slept d3" by blast
    have "0 \<le> ?d" using True period_nonneg [OF Suc.prems(2)] by simp
    then show ?thesis using d1 d2 d3
      by (intro exI [of _ "AskedCancelled # d1 @ d2 @ d3"]) auto
  next
    case False
    then have "resp' = resp" "ev' = ?ev1" using Suc.prems(1) by (auto simp: ask_cancelled_def split: if_splits)
    then show ?thesis using False by (intro exI [of _ "[AskedCancelled]"]) (auto simp: never_cancelled_def)
  qed
qed simp

lemma execute_single_events:
  assumes "execute_single_request env r ev = (a, ev')"
  shows "\<exists>d. ev' = ev @ d \<and> sent d \<le> 1 \<and> slept d = 0"
  using assms by (auto simp: execute_single_request_def Let_def split: if_splits)

lemma retry_callback_events:
  "backdown_ok s \<Longrightarrow> period_ok b \<Longrightarrow> retry_callback env r s n b acc resp ev = (a, ev') \<Longrightarrow>
   \<exists>d. ev' = ev @ d \<and> sent d \<le> nat (max_attempts s + 1 - int n) \<and> slept d \<le> max 0 (max_wait_time s - acc)"
proof (induction env r s n b acc resp ev rule: retry_callback.induct)
  case (1 env r s n b acc resp ev)
  let ?w = "min b (max_wait_time s - acc)"
  let ?ev1 = "ev @ [Slept ?w]"
  let ?ev2 = "?ev1 @ [AskedCancelled]"
  show ?case
  proof (cases "max_attempts s < int n \<or> \<not> retry_condition s resp \<or> max_wait_time s \<le> acc")
    case True
    then show ?thesis using 1(4) by (subst (asm) retry_callback.simps) auto
  next
    case go: False
    show ?thesis
    proof (cases "\<not> context_alive env ?ev1 \<or> cancelled_now env ?ev1")
      case True
      then have "ev' = ?ev1 \<or> ev' = ?ev2"
        using 1(4) go by (subst (asm) retry_callback.simps) (auto simp: sleep_for_def ask_cancelled_def Let_def split: if_splits)
      then show ?thesis using go period_nonneg [OF 1(3)] by (elim disjE) (auto simp: min_def)
    next
      case False
      obtain a1 ev3 where e: "execute_single_request env r ?ev2 = (a1, ev3)" by fastforce
      from execute_single_events [OF this] obtain d1 where d1: "ev3 = ?ev2 @ d1" "sent d1 \<le> 1" "slept d1 = 0" by blast
      show ?thesis
      proof (cases a1)
        case None
        then have "ev' = ev3"
          using 1(4) go False e by (subst (asm) retry_callback.simps) (simp add: sleep_for_def ask_cancelled_def Let_def)
        then show ?thesis using d1 go period_nonneg [OF 1(3)] by (auto simp: min_def)
      next
        case (Some resp1)
        have l: "retry_callback env r s (n + 1) (calculate_next_wait_time s b n) (acc + ?w) resp1 ev3 = (a, ev')"
          using 1(4) go False e Some by (subst (asm) retry_callback.simps) (simp add: sleep_for_def ask_cancelled_def Let_def)
        have "\<exists>d. ev' = ev3 @ d \<and> sent d \<le> nat (max_attempts s + 1 - int (n + 1)) \<and>
            slept d \<le> max 0 (max_wait_time s - (acc + ?w))"
          using 1(1) [OF go refl refl refl _ _ _ _ _ _ 1(2) backdown_okD(1) [OF 1(2,3)] l] False e Some
          by (simp add: sleep_for_def ask_cancelled_def) blast
        then obtain d where "ev' = ev3 @ d" "sent d \<le> nat (max_attempts s + 1 - int (n + 1))"
            "slept d \<le> max 0 (max_wait_time s - (acc + ?w))" by blast
        then show ?thesis using d1 go period_nonneg [OF 1(3)] by (intro exI [of _ "[Slept ?w, AskedCancelled] @ d1 @ d"]) auto
      qed
    qed
  qed
qed

text \<open>
  C13: neither call tries more than \<open>max_attempts\<close> times again or sleeps longer than the timeout of the retry
  settings, whatever the network and other threads do, as long as no backdown period is negative. The
  synchronous call counts the initial period as waited from the start, the asynchronous one does not.
\<close>

theorem call_api_attempts_and_waiting_bounded:
  assumes "backdown_ok (retry_settings_of (client_settings c))"
    and "call_api agent env c path verb query headers body ct ev = (r, ev1)"
    and "call_api_async agent env' c path verb query headers body ct ev = (r', ev2)"
  shows "\<exists>d1 d2. ev1 = ev @ d1 \<and> ev2 = ev @ d2 \<and>
    sent d1 \<le> nat (max_attempts (retry_settings_of (client_settings c))) + 1 \<and>
    sent d2 \<le> nat (max_attempts (retry_settings_of (client_settings c))) + 1 \<and>
    slept d1 \<le> max 0 (max_wait_time (retry_settings_of (client_settings c))
                       - initial_backdown_period (retry_settings_of (client_settings c))) \<and>
    slept d2 \<le> max 0 (max_wait_time (retry_settings_of (client_settings c)))"
proof -
  let ?s = "retry_settings_of (client_settings c)"
  note b = backdown_okD(2) [OF assms(1)]
  obtain q r0 ev0 where s0: "send_request env q ?s ev = (r0, ev0)"
      and l0: "retry_loop env q ?s (nat (max_attempts ?s)) 1 (initial_backdown_period ?s) (initial_backdown_period ?s)
        r0 ev0 = (r, ev1)"
    using assms(2) by (auto simp: call_api_def Let_def split: prod.splits)
  from send_request_events [OF s0] obtain a where a: "ev0 = ev @ a" "sent a \<le> 1" "slept a = 0" by blast
  from retry_loop_events [OF l0 assms(1) b] obtain d where d: "ev1 = ev0 @ d" "sent d \<le> nat (max_attempts ?s)"
      "slept d \<le> max 0 (max_wait_time ?s - initial_backdown_period ?s)" by blast
  have "\<exists>d. ev2 = ev @ d \<and> sent d \<le> nat (max_attempts ?s) + 1 \<and> slept d \<le> max 0 (max_wait_time ?s)"
  proof (cases "cancelled_now env' ev")
    case True
    then have "ev2 = ev @ [AskedCancelled]"
      using assms(3) by (auto simp: call_api_async_def ask_cancelled_def Let_def)
    then show ?thesis by simp
  next
    case False
    let ?ev = "ev @ [AskedCancelled]"
    obtain q a1 ev3 where e: "execute_single_request env' q ?ev = (a1, ev3)"
        and n: "case a1 of None \<Rightarrow> ev2 = ev3
          | Some resp \<Rightarrow> retry_callback env' q ?s 1 (initial_backdown_period ?s) 0 resp ev3 = (r', ev2)"
      using assms(3) False
      by (auto simp: call_api_async_def ask_cancelled_def Let_def split: prod.splits option.splits)
    from execute_single_events [OF e] obtain d1 where d1: "ev3 = ?ev @ d1" "sent d1 \<le> 1" "slept d1 = 0" by blast
    show ?thesis
    proof (cases a1)
      case None
      then show ?thesis using n d1 by simp
    next
      case (Some resp)
      with n have "retry_callback env' q ?s 1 (initial_backdown_period ?s) 0 resp ev3 = (r', ev2)" by simp
      from retry_callback_events [OF assms(1) b this] obtain d2 where "ev2 = ev3 @ d2"
        "sent d2 \<le> nat (max_attempts ?s)" "slept d2 \<le> max 0 (max_wait_time ?s)" by auto
      then show ?thesis using d1 by (intro exI [of _ "AskedCancelled # d1 @ d2"]) auto
    qed
  qed
  then obtain d' where d': "ev2 = ev @ d'" "sent d' \<le> nat (max_attempts ?s) + 1" "slept d' \<le> max 0 (max_wait_time ?s)"
    by blast
  show ?thesis by (rule exI [of _ "a @ d"], rule exI [of _ d']) (use a d d' in auto)
qed

text \<open>
  without cancellation the synchronous call gives up on a failing response that its retry condition
  accepts only when all attempts are used or the waiting time is spent; any other response ends it.
\<close>

theorem call_api_gives_up_late:
  assumes "backdown_ok (retry_settings_of (client_settings c))" "never_cancelled env"
    and "call_api agent env c path verb query headers body ct [] = (r, ev)"
  shows "status_success (resp_status r) \<or> \<not> retry_condition (retry_settings_of (client_settings c)) r \<or>
    sent ev = nat (max_attempts (retry_settings_of (client_settings c))) + 1 \<or>
    max_wait_time (retry_settings_of (client_settings c))
      \<le> initial_backdown_period (retry_settings_of (client_settings c)) + slept ev"
proof -
  let ?s = "retry_settings_of (client_settings c)"
  obtain q r0 ev0 where s0: "send_request env q ?s [] = (r0, ev0)"
      and l0: "retry_loop env q ?s (nat (max_attempts ?s)) 1 (initial_backdown_period ?s) (initial_backdown_period ?s)
        r0 ev0 = (r, ev)"
    using assms(3) by (auto simp: call_api_def Let_def split: prod.splits)
  from send_request_events [OF s0] assms(2) have a: "sent ev0 = 1" "slept ev0 = 0" by auto
  from retry_loop_events [OF l0 assms(1) backdown_okD(2) [OF assms(1)]] assms(2) a show ?thesis by auto
qed

section \<open>An environment\<close>

text \<open>A network that always answers with one status, and a client with the default settings.\<close>

definition always :: "int \<Rightarrow> string \<Rightarrow> call_env" where
  "always status body =
     \<lparr>cancelled_now = \<lambda>_. False, send_outcome_of = \<lambda>_. outcome_of_id 1,
      answer_of = \<lambda>_. Some (\<lparr>net_request_id = 1, net_status = status, net_error = []\<rparr>, body),
      network_alive = \<lambda>_. True, context_alive = \<lambda>_. True\<rparr>"

definition default_client :: olp_client where
  "default_client =
     \<lparr>base_url = ''http://h'', default_headers = [],
      client_settings = \<lparr>retry_settings_of = default_retry_settings, proxy_settings_of = None, authentication_of = None\<rparr>\<rparr>"

lemma call_api_attempts_and_waiting_bounded_witness:
  "(\<lambda>ev. sent ev \<le> 4 \<and> slept ev \<le> 59800)
     (snd (call_api ''agent'' (always 503 ''busy'') default_client ''/p'' ''GET'' [] [] None [] []))"
proof -
  let ?sync = "call_api ''agent'' (always 503 ''busy'') default_client ''/p'' ''GET'' [] [] None [] []"
  let ?async = "call_api_async ''agent'' (always 503 ''busy'') default_client ''/p'' ''GET'' [] [] None [] []"
  have b: "backdown_ok (retry_settings_of (client_settings default_client))" by (simp add: default_client_def)
  have "?sync = (fst ?sync, snd ?sync)" "?async = (fst ?async, snd ?async)" by simp_all
  from call_api_attempts_and_waiting_bounded [OF b this] show ?thesis
    by (auto simp: default_client_def default_retry_settings_def max_wait_time_def)
qed

lemma call_api_gives_up_late_witness:
  "(\<lambda>(r, ev). status_success (resp_status r) \<or> \<not> default_retry_condition r \<or> sent ev = 4 \<or> 60000 \<le> 200 + slept ev)
     (call_api ''agent'' (always 503 ''busy'') default_client ''/p'' ''GET'' [] [] None [] [])"
proof -
  let ?sync = "call_api ''agent'' (always 503 ''busy'') default_client ''/p'' ''GET'' [] [] None [] []"
  have b: "backdown_ok (retry_settings_of (client_settings default_client))" by (simp add: default_client_def)
  have n: "never_cancelled (always 503 ''busy'')" by (simp add: never_cancelled_def always_def)
  have "?sync = (fst ?sync, snd ?sync)" by simp
  from call_api_gives_up_late [OF b n this] show ?thesis
    by (auto simp: default_client_def default_retry_settings_def max_wait_time_def split: prod.splits)
qed

section \<open>Headers of a request\<close>

definition is_user_agent :: "string \<times> string \<Rightarrow> bool" where
  "is_user_agent h \<longleftrightarrow> case_insensitive_compare (fst h) kUserAgentHeader"

lemma add_headers_result:
  "add_headers hs (r, ua) =
     (r\<lparr>request_headers := request_headers r @ filter (Not \<circ> is_user_agent) hs\<rparr>,
      ua @ concat (map (\<lambda>h. snd h @ '' '') (filter is_user_agent hs)))"
proof (induction hs "(r, ua)" arbitrary: r ua rule: add_headers.induct)
  case (2 n v hs r ua)
  then show ?case by (cases "case_insensitive_compare n kUserAgentHeader") (simp_all add: with_header_def is_user_agent_def)
qed (simp add: is_user_agent_def)

lemma fold_with_header: "fold (\<lambda>(n, v). with_header n v) hs r = r\<lparr>request_headers := request_headers r @ hs\<rparr>"
  by (induction hs arbitrary: r) (auto simp: with_header_def)

lemma is_user_agent_names [simp]:
  "is_user_agent (''User-Agent'', v)" "\<not> is_user_agent (''Authorization'', v)" "\<not> is_user_agent (''Content-Type'', v)"
  by (simp_all add: is_user_agent_def case_insensitive_compare_def)

text \<open>
  all user agents of the call are merged into one header, each followed by a space, and the library's own
  agent. User agents among the default headers of the client are not merged: the request then has one
  header for each of them beside the merged one.
\<close>

theorem user_agents_merged:
  "filter is_user_agent (request_headers (create_request agent c path verb query headers body ct)) =
     filter is_user_agent (default_headers c) @
     [(kUserAgentHeader, concat (map (\<lambda>h. snd h @ '' '') (filter is_user_agent headers)) @ agent)]"
  by (simp add: create_request_def Let_def request_of_url_def fold_with_header add_headers_result with_header_def
      split: option.split)

end
