(* ===== verification/Hrn.thy ===== *)
theory Hrn
  imports Prelude
begin

text \<open>
  HERE resource names: \<open>src/client/HRN.cpp\<close> and the tokenizer of \<open>src/client/Tokenizer.h\<close>.
\<close>

section \<open>Tokenizer\<close>

text \<open>The position is \<^term>\<open>None\<close> for \<open>npos\<close>.\<close>

record tokenizer =
  tok_str :: string
  tok_pos :: "nat option"
  tok_sep :: char

definition tokenizer_new :: "string \<Rightarrow> char \<Rightarrow> tokenizer" where
  "tokenizer_new input separator = \<lparr>tok_str = input, tok_pos = Some 0, tok_sep = separator\<rparr>"

definition has_next :: "tokenizer \<Rightarrow> bool" where
  "has_next t \<longleftrightarrow> tok_str t \<noteq> [] \<and> tok_pos t \<noteq> None"

fun find_first_of :: "char \<Rightarrow> string \<Rightarrow> nat \<Rightarrow> nat option" where
  "find_first_of d [] p = None"
| "find_first_of d (c # cs) p =
     (if p = 0 then (if c = d then Some 0 else map_option Suc (find_first_of d cs 0))
      else map_option Suc (find_first_of d cs (p - 1)))"

definition next_token :: "tokenizer \<Rightarrow> string \<times> tokenizer" where
  "next_token t =
     (case tok_pos t of
        None \<Rightarrow> ([], t)
      | Some begin_pos \<Rightarrow>
          (case find_first_of (tok_sep t) (tok_str t) begin_pos of
             None \<Rightarrow> (drop begin_pos (tok_str t), t\<lparr>tok_pos := None\<rparr>)
           | Some separator_position \<Rightarrow>
               (take (separator_position - begin_pos) (drop begin_pos (tok_str t)),
                t\<lparr>tok_pos := Some (separator_position + 1)\<rparr>)))"

definition tail_token :: "tokenizer \<Rightarrow> string \<times> tokenizer" where
  "tail_token t =
     (case tok_pos t of
        None \<Rightarrow> ([], t)
      | Some begin_pos \<Rightarrow> (drop begin_pos (tok_str t), t\<lparr>tok_pos := None\<rparr>))"

section \<open>Names\<close>

datatype service_type = UnknownService | DataService | SchemaService | PipelineService

record hrn =
  partition_of :: string
  service :: service_type
  region :: string
  account :: string
  catalogId :: string
  layerId :: string
  groupId :: string
  schemaName :: string
  schema_version :: string
  pipelineId :: string

definition empty_hrn :: hrn where
  "empty_hrn = \<lparr>partition_of = [], service = UnknownService, region = [], account = [], catalogId = [],
     layerId = [], groupId = [], schemaName = [], schema_version = [], pipelineId = []\<rparr>"

definition hrn_to_string :: "hrn \<Rightarrow> string" where
  "hrn_to_string h =
     (let generic_part = '':'' @ region h @ '':'' @ account h @ '':'';
          ret = ''hrn:'' @ partition_of h @ '':''
      in case service h of
           DataService \<Rightarrow> ret @ ''data'' @ generic_part @ catalogId h @
             (if layerId h \<noteq> [] then '':'' @ layerId h else [])
         | SchemaService \<Rightarrow> ret @ ''schema'' @ generic_part @ groupId h @ '':'' @ schemaName h @ '':'' @ schema_version h
         | PipelineService \<Rightarrow> ret @ ''pipeline'' @ generic_part @ pipelineId h
         | UnknownService \<Rightarrow> ret @ generic_part)"

definition to_catalog_hrn_string :: "hrn \<Rightarrow> string" where
  "to_catalog_hrn_string h =
     (if service h \<noteq> DataService then []
      else ''hrn:'' @ partition_of h @ '':'' @ ''data'' @ '':'' @ region h @ '':'' @ account h @ '':'' @ catalogId h)"

text \<open>\<open>if (tokenizer.HasNext()) field = tokenizer.Next()\<close>, and the same with \<open>Tail\<close>.\<close>

definition read_next :: "((string \<Rightarrow> string) \<Rightarrow> hrn \<Rightarrow> hrn) \<Rightarrow> hrn \<times> tokenizer \<Rightarrow> hrn \<times> tokenizer" where
  "read_next field_update ht =
     (case ht of (h, t) \<Rightarrow>
        if has_next t then (let (s, t) = next_token t in (field_update (\<lambda>_. s) h, t)) else (h, t))"

definition read_tail :: "((string \<Rightarrow> string) \<Rightarrow> hrn \<Rightarrow> hrn) \<Rightarrow> hrn \<times> tokenizer \<Rightarrow> hrn \<times> tokenizer" where
  "read_tail field_update ht =
     (case ht of (h, t) \<Rightarrow>
        if has_next t then (let (s, t) = tail_token t in (field_update (\<lambda>_. s) h, t)) else (h, t))"

text \<open>\<^term>\<open>None\<close> is the early return at an unknown service.\<close>

definition read_service :: "hrn \<times> tokenizer \<Rightarrow> (hrn \<times> tokenizer) option" where
  "read_service ht =
     (case ht of (h, t) \<Rightarrow>
        if \<not> has_next t then Some (h, t)
        else
         (let (service_str, t) = next_token t in
          if service_str = ''data'' then Some (h\<lparr>service := DataService\<rparr>, t)
          else if service_str = ''schema'' then Some (h\<lparr>service := SchemaService\<rparr>, t)
          else if service_str = ''pipeline'' then Some (h\<lparr>service := PipelineService\<rparr>, t)
          else None))"

definition hrn_of_string :: "string \<Rightarrow> hrn" where
  "hrn_of_string input =
     (let t = tokenizer_new input CHR '':'' in
      if \<not> has_next t then empty_hrn
      else
       (let (protocol, t) = next_token t in
        if protocol \<noteq> ''hrn'' then empty_hrn
        else
         (let ht = read_next partition_of_update (empty_hrn, t) in
          case read_service ht of
            None \<Rightarrow> fst ht
          | Some ht \<Rightarrow>
              (let ht = read_next region_update ht;
                   ht = read_next account_update ht
               in fst (case service (fst ht) of
                         DataService \<Rightarrow> read_tail layerId_update (read_next catalogId_update ht)
                       | SchemaService \<Rightarrow>
                           read_tail schema_version_update (read_next schemaName_update (read_next groupId_update ht))
                       | PipelineService \<Rightarrow> read_tail pipelineId_update ht
                       | UnknownService \<Rightarrow> ht)))))"

definition hrn_equals :: "hrn \<Rightarrow> hrn \<Rightarrow> bool" where
  "hrn_equals h rhs =
     (if partition_of h \<noteq> partition_of rhs \<or> service h \<noteq> service rhs \<or> region h \<noteq> region rhs \<or> account h \<noteq> account rhs
      then False
      else case service h of
             DataService \<Rightarrow> catalogId h = catalogId rhs \<and> layerId h = layerId rhs
           | SchemaService \<Rightarrow> groupId h = groupId rhs \<and> schemaName h = schemaName rhs \<and>
               schema_version h = schema_version rhs
           | PipelineService \<Rightarrow> pipelineId h = pipelineId rhs
           | UnknownService \<Rightarrow> False)"

definition hrn_is_null :: "hrn \<Rightarrow> bool" where
  "hrn_is_null h =
     (case service h of
        DataService \<Rightarrow> partition_of h = [] \<or> catalogId h = []
      | SchemaService \<Rightarrow> partition_of h = [] \<or> groupId h = [] \<or> schemaName h = [] \<or> schema_version h = []
      | PipelineService \<Rightarrow> partition_of h = [] \<or> pipelineId h = []
      | UnknownService \<Rightarrow> True)"

section \<open>Tokens\<close>

text \<open>A tokenizer that still has to read \<open>rest\<close> of the string \<open>done @ rest\<close>.\<close>

definition reading :: "string \<Rightarrow> string \<Rightarrow> tokenizer" where
  "reading before rest = \<lparr>tok_str = before @ rest, tok_pos = Some (length before), tok_sep = CHR '':''\<rparr>"

definition read_up :: "string \<Rightarrow> tokenizer" where
  "read_up str = \<lparr>tok_str = str, tok_pos = None, tok_sep = CHR '':''\<rparr>"

lemma find_first_of_skip: "find_first_of d (xs @ ys) (length xs) = map_option ((+) (length xs)) (find_first_of d ys 0)"
  by (induction xs) (auto simp: option.map_comp o_def option.map_ident)

lemma find_first_of_0: "d \<notin> set tk \<Longrightarrow> find_first_of d (tk @ d # rest) 0 = Some (length tk)"
  by (induction tk) auto

lemma find_first_of_none: "d \<notin> set tk \<Longrightarrow> find_first_of d tk 0 = None"
  by (induction tk) auto

lemma next_token_reading:
  "CHR '':'' \<notin> set tk \<Longrightarrow> next_token (reading b (tk @ '':'' @ rest)) = (tk, reading (b @ tk @ '':'') rest)"
  by (simp add: next_token_def reading_def find_first_of_skip find_first_of_0)

lemma next_token_last:
  "CHR '':'' \<notin> set tk \<Longrightarrow> next_token (reading b tk) = (tk, read_up (b @ tk))"
  by (simp add: next_token_def reading_def find_first_of_skip find_first_of_none read_up_def)

lemma tail_token_reading: "tail_token (reading b tk) = (tk, read_up (b @ tk))"
  by (simp add: tail_token_def reading_def read_up_def)

lemma has_next_reading: "has_next (reading b r) \<longleftrightarrow> b \<noteq> [] \<or> r \<noteq> []"
  by (simp add: has_next_def reading_def)

lemma has_next_read_up [simp]: "\<not> has_next (read_up s)"
  by (simp add: has_next_def read_up_def)

lemma tokenizer_new_reading: "tokenizer_new s CHR '':'' = reading [] s"
  by (simp add: tokenizer_new_def reading_def)

lemma read_next_reading:
  "CHR '':'' \<notin> set tk \<Longrightarrow> read_next upd (h, reading b (tk @ '':'' @ rest)) = (upd (\<lambda>_. tk) h, reading (b @ tk @ '':'') rest)"
  using next_token_reading [of tk b rest] by (simp add: read_next_def has_next_reading)

lemma read_next_last:
  "CHR '':'' \<notin> set tk \<Longrightarrow> b \<noteq> [] \<Longrightarrow> read_next upd (h, reading b tk) = (upd (\<lambda>_. tk) h, read_up (b @ tk))"
  using next_token_last [of tk b] by (simp add: read_next_def has_next_reading)

lemma read_tail_reading: "b \<noteq> [] \<Longrightarrow> read_tail upd (h, reading b tk) = (upd (\<lambda>_. tk) h, read_up (b @ tk))"
  by (simp add: read_tail_def has_next_reading tail_token_reading)

lemma read_tail_up: "read_tail upd (h, read_up s) = (h, read_up s)"
  by (simp add: read_tail_def)

lemma read_service_reading:
  assumes "CHR '':'' \<notin> set s" "b \<noteq> []"
  shows "read_service (h, reading b (s @ '':'' @ rest)) =
    (let t = reading (b @ s @ '':'') rest in
     if s = ''data'' then Some (h\<lparr>service := DataService\<rparr>, t)
     else if s = ''schema'' then Some (h\<lparr>service := SchemaService\<rparr>, t)
     else if s = ''pipeline'' then Some (h\<lparr>service := PipelineService\<rparr>, t) else None)"
  using next_token_reading [OF assms(1), of b rest] assms(2)
  by (simp add: read_service_def has_next_reading)

text \<open>The common part of all names.\<close>

definition generic_hrn :: "string \<Rightarrow> string \<Rightarrow> string \<Rightarrow> string \<Rightarrow> string \<Rightarrow> string" where
  "generic_hrn p s r a rest = ''hrn'' @ '':'' @ p @ '':'' @ s @ '':'' @ r @ '':'' @ a @ '':'' @ rest"

lemma hrn_of_generic:
  assumes "CHR '':'' \<notin> set p \<union> set r \<union> set a" "s \<in> {''data'', ''schema'', ''pipeline''}"
  shows "hrn_of_string (generic_hrn p s r a rest) =
    (let h = empty_hrn\<lparr>partition_of := p, service := if s = ''data'' then DataService
               else if s = ''schema'' then SchemaService else PipelineService, region := r, account := a\<rparr>;
         t = reading (generic_hrn p s r a []) rest
     in fst (case service h of
               DataService \<Rightarrow> read_tail layerId_update (read_next catalogId_update (h, t))
             | SchemaService \<Rightarrow>
                 read_tail schema_version_update (read_next schemaName_update (read_next groupId_update (h, t)))
             | PipelineService \<Rightarrow> read_tail pipelineId_update (h, t)
             | UnknownService \<Rightarrow> (h, t)))"
proof -
  have s: "CHR '':'' \<notin> set s" using assms(2) by auto
  have h: "next_token (reading [] (generic_hrn p s r a rest)) =
      (''hrn'', reading (''hrn'' @ '':'') (p @ '':'' @ s @ '':'' @ r @ '':'' @ a @ '':'' @ rest))"
    unfolding generic_hrn_def by (subst next_token_reading) simp_all
  have n: "has_next (reading [] (generic_hrn p s r a rest))" by (simp add: has_next_reading generic_hrn_def)
  have pp: "CHR '':'' \<notin> set p" "CHR '':'' \<notin> set r" "CHR '':'' \<notin> set a" using assms(1) by auto
  let ?b0 = "''hrn'' @ '':''" and ?k = "if s = ''data'' then DataService else if s = ''schema'' then SchemaService else PipelineService"
  let ?b1 = "?b0 @ p @ '':''"
  let ?b2 = "?b1 @ s @ '':''"
  let ?h2 = "empty_hrn\<lparr>partition_of := p, service := ?k\<rparr>"
  note r1 = read_next_reading [OF pp(1), of partition_of_update empty_hrn ?b0 "s @ '':'' @ r @ '':'' @ a @ '':'' @ rest"]
  have r2: "read_service (partition_of_update (\<lambda>_. p) empty_hrn, reading ?b1 (s @ '':'' @ r @ '':'' @ a @ '':'' @ rest)) =
      Some (?h2, reading ?b2 (r @ '':'' @ a @ '':'' @ rest))"
    using assms(2) by (subst read_service_reading [OF s]) auto
  note r3 = read_next_reading [OF pp(2), of region_update ?h2 ?b2 "a @ '':'' @ rest"]
  note r4 = read_next_reading [OF pp(3), of account_update "region_update (\<lambda>_. r) ?h2" "?b2 @ r @ '':''" rest]
  have b: "(?b2 @ r @ '':'') @ a @ '':'' = generic_hrn p s r a []" by (simp add: generic_hrn_def)
  show ?thesis
    unfolding hrn_of_string_def tokenizer_new_reading Let_def
    by (simp only: n h prod.case simp_thms if_False if_True r1 r2 option.case r3 r4 b fst_conv)
qed

text \<open>The fields that a service does not have are empty, and only the last one may hold the separator.\<close>

definition hrn_wf :: "hrn \<Rightarrow> bool" where
  "hrn_wf h \<longleftrightarrow> CHR '':'' \<notin> set (partition_of h) \<union> set (region h) \<union> set (account h) \<and>
     (case service h of
        DataService \<Rightarrow> CHR '':'' \<notin> set (catalogId h) \<and>
          groupId h = [] \<and> schemaName h = [] \<and> schema_version h = [] \<and> pipelineId h = []
      | SchemaService \<Rightarrow> CHR '':'' \<notin> set (groupId h) \<union> set (schemaName h) \<and>
          catalogId h = [] \<and> layerId h = [] \<and> pipelineId h = []
      | PipelineService \<Rightarrow> catalogId h = [] \<and> layerId h = [] \<and> groupId h = [] \<and> schemaName h = [] \<and> schema_version h = []
      | UnknownService \<Rightarrow> False)"

lemma hrn_parse_data:
  assumes "CHR '':'' \<notin> set p \<union> set r \<union> set a \<union> set c"
  shows "hrn_of_string (generic_hrn p ''data'' r a (c @ (if l \<noteq> [] then '':'' @ l else []))) =
    empty_hrn\<lparr>partition_of := p, service := DataService, region := r, account := a, catalogId := c, layerId := l\<rparr>"
proof -
  have c: "CHR '':'' \<notin> set c" using assms by simp
  have g: "generic_hrn p ''data'' r a [] \<noteq> []" by (simp add: generic_hrn_def)
  show ?thesis
    using assms read_next_reading [OF c, of catalogId_update _ "generic_hrn p ''data'' r a []" l]
      read_next_last [OF c g, of catalogId_update]
    by (subst hrn_of_generic) (auto simp: Let_def read_tail_reading read_tail_up empty_hrn_def)
qed

lemma hrn_parse_schema:
  assumes "CHR '':'' \<notin> set p \<union> set r \<union> set a \<union> set g \<union> set n"
  shows "hrn_of_string (generic_hrn p ''schema'' r a (g @ '':'' @ n @ '':'' @ v)) =
    empty_hrn\<lparr>partition_of := p, service := SchemaService, region := r, account := a, groupId := g, schemaName := n,
      schema_version := v\<rparr>"
proof -
  have c: "CHR '':'' \<notin> set g" "CHR '':'' \<notin> set n" using assms by simp_all
  have r1: "read_next groupId_update (h, reading b (g @ '':'' @ n @ '':'' @ v)) =
      (groupId_update (\<lambda>_. g) h, reading (b @ g @ '':'') (n @ '':'' @ v))" for h b
    using read_next_reading [OF c(1), of groupId_update h b "n @ '':'' @ v"] by simp
  have r2: "read_next schemaName_update (h, reading b (n @ '':'' @ v)) =
      (schemaName_update (\<lambda>_. n) h, reading (b @ n @ '':'') v)" for h b
    using read_next_reading [OF c(2), of schemaName_update h b v] by simp
  have p: "CHR '':'' \<notin> set p \<union> set r \<union> set a" using assms by simp
  have s: "''schema'' \<in> {''data'', ''schema'', ''pipeline''}" by simp
  show ?thesis unfolding hrn_of_generic [OF p s] Let_def
    by (simp add: r1 [simplified] r2 [simplified] read_tail_reading empty_hrn_def)
qed

lemma hrn_parse_pipeline:
  assumes "CHR '':'' \<notin> set p \<union> set r \<union> set a"
  shows "hrn_of_string (generic_hrn p ''pipeline'' r a i) =
    empty_hrn\<lparr>partition_of := p, service := PipelineService, region := r, account := a, pipelineId := i\<rparr>"
  using assms by (subst hrn_of_generic) (auto simp: Let_def read_tail_reading generic_hrn_def empty_hrn_def)

lemma hrn_text_generic:
  assumes "hrn_wf h"
  shows "hrn_of_string (hrn_to_string h) = h \<and>
    (service h = DataService \<longrightarrow> hrn_of_string (to_catalog_hrn_string h) = h\<lparr>layerId := []\<rparr>)"
proof (cases "service h")
  case UnknownService
  then show ?thesis using assms by (simp add: hrn_wf_def)
next
  case DataService
  have t: "hrn_to_string h = generic_hrn (partition_of h) ''data'' (region h) (account h)
      (catalogId h @ (if layerId h \<noteq> [] then '':'' @ layerId h else []))"
    "to_catalog_hrn_string h = generic_hrn (partition_of h) ''data'' (region h) (account h)
      (catalogId h @ (if ([] :: string) \<noteq> [] then '':'' @ [] else []))"
    using DataService by (simp_all add: hrn_to_string_def to_catalog_hrn_string_def generic_hrn_def)
  have c: "CHR '':'' \<notin> set (partition_of h) \<union> set (region h) \<union> set (account h) \<union> set (catalogId h)"
    using assms DataService by (simp add: hrn_wf_def)
  show ?thesis unfolding t hrn_parse_data [OF c]
    using assms DataService by (auto simp: hrn_wf_def empty_hrn_def intro: hrn.equality)
next
  case SchemaService
  have t: "hrn_to_string h = generic_hrn (partition_of h) ''schema'' (region h) (account h)
      (groupId h @ '':'' @ schemaName h @ '':'' @ schema_version h)"
    using SchemaService by (simp add: hrn_to_string_def generic_hrn_def)
  have c: "CHR '':'' \<notin> set (partition_of h) \<union> set (region h) \<union> set (account h) \<union> set (groupId h) \<union> set (schemaName h)"
    using assms SchemaService by (simp add: hrn_wf_def)
  show ?thesis unfolding t hrn_parse_schema [OF c]
    using assms SchemaService by (auto simp: hrn_wf_def empty_hrn_def intro: hrn.equality)
next
  case PipelineService
  have t: "hrn_to_string h = generic_hrn (partition_of h) ''pipeline'' (region h) (account h) (pipelineId h)"
    using PipelineService by (simp add: hrn_to_string_def generic_hrn_def)
  have c: "CHR '':'' \<notin> set (partition_of h) \<union> set (region h) \<union> set (account h)"
    using assms PipelineService by (simp add: hrn_wf_def)
  show ?thesis unfolding t hrn_parse_pipeline [OF c]
    using assms PipelineService by (auto simp: hrn_wf_def empty_hrn_def intro: hrn.equality)
qed

lemma hrn_equals_eq: "hrn_wf h \<Longrightarrow> hrn_wf h' \<Longrightarrow> hrn_equals h h' \<longleftrightarrow> h = h'"
  by (auto simp: hrn_equals_def hrn_wf_def split: service_type.splits if_splits intro: hrn.equality)

text \<open>
  C15: a name with a known service, whose fields other than the last are free of colons, is read back from
  its text, the last field with its colons; a data name without its layer is read back from the text of
  its catalog.
\<close>

theorem hrn_round_trip:
  assumes "hrn_wf h"
  shows "hrn_of_string (hrn_to_string h) = h \<and>
    (service h = DataService \<longrightarrow> hrn_of_string (to_catalog_hrn_string h) = h\<lparr>layerId := []\<rparr>)"
  by (rule hrn_text_generic [OF assms])

abbreviation (input) demo_hrn :: hrn where
  "demo_hrn \<equiv> empty_hrn\<lparr>partition_of := ''here'', service := DataService, catalogId := ''cat'', layerId := ''a:b''\<rparr>"

lemma hrn_round_trip_witness:
  "hrn_of_string (hrn_to_string demo_hrn) = demo_hrn \<and>
   hrn_of_string (to_catalog_hrn_string demo_hrn) = demo_hrn\<lparr>layerId := []\<rparr>"
proof -
  have "hrn_wf demo_hrn" by (simp add: hrn_wf_def empty_hrn_def)
  from hrn_round_trip [OF this] show ?thesis by simp
qed

text \<open>
  on such names \<open>operator==\<close> agrees with the comparison of the texts, so either can serve as a key. The
  default name, in contrast, is not equal to itself.
\<close>

theorem hrn_equals_iff_text:
  assumes "hrn_wf h" "hrn_wf h'"
  shows "(hrn_equals h h' \<longleftrightarrow> hrn_to_string h = hrn_to_string h') \<and> \<not> hrn_equals empty_hrn empty_hrn"
proof -
  have "hrn_to_string h = hrn_to_string h' \<longleftrightarrow> h = h'"
    using hrn_text_generic [OF assms(1)] hrn_text_generic [OF assms(2)] by metis
  then show ?thesis using hrn_equals_eq [OF assms] by (simp add: hrn_equals_def empty_hrn_def)
qed

lemma hrn_equals_iff_text_witness:
  "(hrn_equals demo_hrn (demo_hrn\<lparr>layerId := []\<rparr>) \<longleftrightarrow> hrn_to_string demo_hrn = hrn_to_string (demo_hrn\<lparr>layerId := []\<rparr>))"
proof -
  have "hrn_wf demo_hrn" "hrn_wf (demo_hrn\<lparr>layerId := []\<rparr>)" by (simp_all add: hrn_wf_def empty_hrn_def)
  from hrn_equals_iff_text [OF this] show ?thesis by simp
qed

end
