(* ===== verification/Json.thy ===== *)
theory Json
  imports Prelude "HOL-Library.Monad_Syntax" "HOL-Library.Char_ord" "HOL-Library.List_Lexorder"
begin

text \<open>
  The JSON layer of \<open>include/olp/core/generated\<close>: \<open>parser/ParserWrapper.h\<close>, \<open>parser/JsonParser.h\<close> and
  \<open>serializer/SerializerWrapper.h\<close>.

  RapidJSON reads and writes the text and is outside of the sources; its document is the tree \<open>json\<close>, whose
  numbers are integers or doubles, and whose objects are lists of members. A getter of the wrong type is
  an assertion of RapidJSON, \<^term>\<open>None\<close> here.
\<close>

section \<open>Documents\<close>

text \<open>A double has the value \<open>m * 2 ^ e\<close>.\<close>

datatype double = Double (mantissa: int) (exponent: int)

datatype json =
    JNull
  | JBool bool
  | JInt int
  | JDouble double
  | JString string
  | JArray "json list"
  | JObject "(string \<times> json) list"

text \<open>What a C string keeps of a string.\<close>

definition c_str :: "string \<Rightarrow> string" where
  "c_str s = takeWhile (\<lambda>c. c \<noteq> CHR 0x00) s"

definition no_null :: "string \<Rightarrow> bool" where
  "no_null s \<longleftrightarrow> CHR 0x00 \<notin> set s"

lemma c_str_no_null [simp]: "no_null s \<Longrightarrow> c_str s = s"
  by (auto simp: c_str_def no_null_def takeWhile_eq_all_conv)

definition is_int64 :: "int \<Rightarrow> bool" where
  "is_int64 i \<longleftrightarrow> - (2 ^ 63) \<le> i \<and> i < 2 ^ 63"

definition is_int32 :: "int \<Rightarrow> bool" where
  "is_int32 i \<longleftrightarrow> - (2 ^ 31) \<le> i \<and> i < 2 ^ 31"

text \<open>The nearest double of an integer, ties to the even mantissa.\<close>

fun round_bits :: "nat \<Rightarrow> int \<Rightarrow> nat \<Rightarrow> int \<times> nat" where
  "round_bits 0 i e = (i, e)"
| "round_bits (Suc k) i e = (if i < 2 ^ 53 then (i, e) else round_bits k (i div 2) (Suc e))"

definition double_of_int :: "int \<Rightarrow> double" where
  "double_of_int i =
     (if \<bar>i\<bar> \<le> 2 ^ 53 then Double i 0
      else
       (let (m, e) = round_bits 64 \<bar>i\<bar> 0;
            r = \<bar>i\<bar> - m * 2 ^ e;
            m = (if 2 ^ e < 2 * r \<or> 2 ^ e = 2 * r \<and> odd m then m + 1 else m)
        in Double (sgn i * m) (int e)))"

text \<open>\<open>static_cast<int64_t>\<close> drops the fraction; out of range it is undefined.\<close>

definition int64_of_double :: "double \<Rightarrow> int option" where
  "int64_of_double d =
     (let a = \<bar>mantissa d\<bar>;
          t = sgn (mantissa d) * (if 0 \<le> exponent d then a * 2 ^ nat (exponent d) else a div 2 ^ nat (- exponent d))
      in if is_int64 t then Some t else None)"

section \<open>Reading\<close>

definition string_from_json :: "json \<Rightarrow> string option" where
  "string_from_json v = (case v of JString s \<Rightarrow> Some (c_str s) | _ \<Rightarrow> None)"

definition int32_from_json :: "json \<Rightarrow> int option" where
  "int32_from_json v = (case v of JInt i \<Rightarrow> if is_int32 i then Some i else None | _ \<Rightarrow> None)"

definition int64_from_json :: "json \<Rightarrow> int option" where
  "int64_from_json v = (case v of JInt i \<Rightarrow> if is_int64 i then Some i else None | _ \<Rightarrow> None)"

definition double_from_json :: "json \<Rightarrow> double option" where
  "double_from_json v = (case v of JInt i \<Rightarrow> Some (double_of_int i) | JDouble d \<Rightarrow> Some d | _ \<Rightarrow> None)"

definition bool_from_json :: "json \<Rightarrow> bool option" where
  "bool_from_json v = (case v of JBool b \<Rightarrow> Some b | _ \<Rightarrow> None)"

definition optional_from_json :: "(json \<Rightarrow> 'a option) \<Rightarrow> json \<Rightarrow> 'a option option" where
  "optional_from_json from_json v = map_option Some (from_json v)"

fun members_from_json ::
  "(json \<Rightarrow> 'a option) \<Rightarrow> (string \<times> json) list \<Rightarrow> (string, 'a) smap \<Rightarrow> (string, 'a) smap option" where
  "members_from_json from_json [] results = Some results"
| "members_from_json from_json ((k, v) # ms) results =
     Option.bind (from_json v) (\<lambda>x. members_from_json from_json ms (smap_put (c_str k) x results))"

definition map_from_json :: "(json \<Rightarrow> 'a option) \<Rightarrow> json \<Rightarrow> (string, 'a) smap option" where
  "map_from_json from_json v = (case v of JObject ms \<Rightarrow> members_from_json from_json ms [] | _ \<Rightarrow> None)"

definition vector_from_json :: "(json \<Rightarrow> 'a option) \<Rightarrow> json \<Rightarrow> 'a list option" where
  "vector_from_json from_json v = (case v of JArray vs \<Rightarrow> those (map from_json vs) | _ \<Rightarrow> None)"

text \<open>A member that is missing leaves the default.\<close>

definition parse :: "(json \<Rightarrow> 'a option) \<Rightarrow> 'a \<Rightarrow> json \<Rightarrow> string \<Rightarrow> 'a option" where
  "parse from_json result v k =
     (case v of
        JObject ms \<Rightarrow> (case map_of ms k of None \<Rightarrow> Some result | Some x \<Rightarrow> from_json x)
      | _ \<Rightarrow> None)"

text \<open>A whole document; one that is neither an object nor an array, or no JSON at all, leaves the default.\<close>

definition parse_document :: "(json \<Rightarrow> 'a option) \<Rightarrow> 'a \<Rightarrow> json option \<Rightarrow> 'a option" where
  "parse_document from_json result doc =
     (case doc of
        Some (JObject ms) \<Rightarrow> from_json (JObject ms)
      | Some (JArray vs) \<Rightarrow> from_json (JArray vs)
      | _ \<Rightarrow> Some result)"

section \<open>Writing\<close>

definition optional_to_json :: "('a \<Rightarrow> json) \<Rightarrow> 'a option \<Rightarrow> json" where
  "optional_to_json to_json x = (case x of Some y \<Rightarrow> to_json y | None \<Rightarrow> JNull)"

definition vector_to_json :: "('a \<Rightarrow> json) \<Rightarrow> 'a list \<Rightarrow> json" where
  "vector_to_json to_json xs = JArray (map to_json xs)"

definition map_to_json :: "('a \<Rightarrow> json) \<Rightarrow> (string, 'a) smap \<Rightarrow> json" where
  "map_to_json to_json m = JObject (map (\<lambda>(k, v). (k, to_json v)) m)"

text \<open>Null values are left out of the object.\<close>

definition serialize :: "string \<Rightarrow> json \<Rightarrow> json \<Rightarrow> json" where
  "serialize k item v =
     (case v of JObject ms \<Rightarrow> if item \<noteq> JNull then JObject (ms @ [(k, item)]) else v | _ \<Rightarrow> v)"

section \<open>Codecs\<close>

lemma smap_put_last: "smap_wf (m @ [(k, v)]) \<Longrightarrow> smap_put k v m = m @ [(k, v)]"
proof -
  assume wf: "smap_wf (m @ [(k, v)])"
  then have less: "\<forall>x \<in> set m. fst x < k" by (auto simp: smap_wf_def sorted_wrt_append)
  then have "map_of m k = None" by (auto simp: map_of_eq_None_iff)
  moreover have "smap_insert k v m = m @ [(k, v)]" using less by (induction m) auto
  ultimately show ?thesis by (simp add: smap_put_def)
qed

lemma fold_smap_put: "smap_wf (acc @ m) \<Longrightarrow> fold (\<lambda>(k, v). smap_put k v) m acc = acc @ m"
proof (induction m arbitrary: acc)
  case (Cons x m)
  obtain k v where x: "x = (k, v)" by fastforce
  have "smap_wf (acc @ [(k, v)])" using Cons.prems x by (auto simp: smap_wf_def sorted_wrt_append)
  with Cons.IH [of "acc @ [(k, v)]"] Cons.prems x show ?case by (simp add: smap_put_last)
qed simp

text \<open>What reading and writing promise of each other, on the values for which it holds.\<close>

locale json_codec =
  fixes to_json :: "'a \<Rightarrow> json" and from_json :: "json \<Rightarrow> 'a option" and ok :: "'a \<Rightarrow> bool"
  assumes round_trip: "ok x \<Longrightarrow> from_json (to_json x) = Some x"
    and not_null: "to_json x \<noteq> JNull"
begin

lemma vector_round_trip: "list_all ok xs \<Longrightarrow> vector_from_json from_json (vector_to_json to_json xs) = Some xs"
  by (induction xs) (simp_all add: vector_from_json_def vector_to_json_def round_trip)

lemma optional_round_trip: "ok x \<Longrightarrow> optional_from_json from_json (to_json x) = Some (Some x)"
  by (simp add: optional_from_json_def round_trip)

lemma optional_null: "optional_to_json to_json x = JNull \<longleftrightarrow> x = None"
  using not_null by (simp add: optional_to_json_def split: option.split)

lemma optional_field:
  "x \<noteq> None \<Longrightarrow> pred_option ok x \<Longrightarrow> optional_from_json from_json (optional_to_json to_json x) = Some x"
  by (cases x) (simp_all add: optional_to_json_def optional_round_trip)

lemma members_round_trip:
  "list_all (\<lambda>(k, v). no_null k \<and> ok v) ms \<Longrightarrow>
   members_from_json from_json (map (\<lambda>(k, v). (k, to_json v)) ms) acc = Some (fold (\<lambda>(k, v). smap_put k v) ms acc)"
  by (induction ms arbitrary: acc) (auto simp: round_trip)

lemma map_round_trip:
  assumes "smap_wf m" "list_all (\<lambda>(k, v). no_null k \<and> ok v) m"
  shows "map_from_json from_json (map_to_json to_json m) = Some m"
  using members_round_trip [OF assms(2), of "[]"] fold_smap_put [of "[]" m] assms(1)
  by (simp add: map_from_json_def map_to_json_def)

end

lemma vector_not_null [simp]: "vector_to_json f xs \<noteq> JNull"
  by (simp add: vector_to_json_def)

lemma map_not_null [simp]: "map_to_json f m \<noteq> JNull"
  by (simp add: map_to_json_def)

text \<open>Members of an object that is written one after the other, and how they are found again.\<close>

definition present :: "string \<Rightarrow> json \<Rightarrow> (string \<times> json) list" where
  "present k item = (if item = JNull then [] else [(k, item)])"

lemma serialize_object [simp]: "serialize k item (JObject ms) = JObject (ms @ present k item)"
  by (simp add: serialize_def present_def)

lemma parse_present [simp]:
  "parse f d (JObject (present k item @ ms)) j = (if j = k \<and> item \<noteq> JNull then f item else parse f d (JObject ms) j)"
  "parse f d (JObject (present k item)) j = (if j = k \<and> item \<noteq> JNull then f item else Some d)"
  by (auto simp: parse_def present_def)

lemma double_from_JInt [simp]: "double_from_json (JInt i) = Some (double_of_int i)"
  by (simp add: double_from_json_def)

interpretation string_codec: json_codec JString string_from_json no_null
  by unfold_locales (simp_all add: string_from_json_def)

interpretation int64_codec: json_codec JInt int64_from_json is_int64
  by unfold_locales (simp_all add: int64_from_json_def)

interpretation int32_codec: json_codec JInt int32_from_json is_int32
  by unfold_locales (simp_all add: int32_from_json_def)

interpretation bool_codec: json_codec JBool bool_from_json "\<lambda>_. True"
  by unfold_locales (simp_all add: bool_from_json_def)

lemmas codec_round_trips [simp] =
  string_codec.round_trip string_codec.vector_round_trip string_codec.optional_round_trip
  int64_codec.round_trip int64_codec.vector_round_trip int64_codec.optional_round_trip
  int32_codec.round_trip bool_codec.round_trip string_codec.optional_field int64_codec.optional_field
  string_codec.optional_null int64_codec.optional_null
  string_codec.map_round_trip

text \<open>An integer that is written as such and read as a double comes back up to 2 ^ 53.\<close>

lemma small_double_round_trip [simp]: "\<bar>i\<bar> \<le> 2 ^ 53 \<Longrightarrow> int64_of_double (double_of_int i) = Some i"
  by (auto simp: double_of_int_def int64_of_double_def is_int64_def mult_sgn_abs)

end
