(* ===== verification/CatalogModel.thy ===== *)
theory CatalogModel
  imports Json
begin

text \<open>
  The catalog configuration of \<open>include/olp/dataservice/read/model/Catalog.h\<close>, with its reader
  \<open>src/generated/parser/CatalogParser.cpp\<close> and its writer \<open>src/generated/serializer/CatalogSerializer.cpp\<close>.
  A class is a record, whose selectors and updates are its getters and setters. For every class there is
  an interpretation of the codec contract: what is written is read back.
\<close>

section \<open>Parts of a catalog\<close>

record coverage =
  admin_areas :: "string list"

definition empty_coverage :: coverage where
  "empty_coverage = \<lparr>admin_areas = []\<rparr>"

definition coverage_to_json :: "coverage \<Rightarrow> json" where
  "coverage_to_json x =
     (let v = JObject [];
          v = serialize ''adminAreas'' (vector_to_json JString (admin_areas x)) v
      in v)"

definition coverage_from_json :: "json \<Rightarrow> coverage option" where
  "coverage_from_json value = do {
     a \<leftarrow> parse (vector_from_json string_from_json) [] value ''adminAreas'';
     Some \<lparr>admin_areas = a\<rparr> }"

definition coverage_ok :: "coverage \<Rightarrow> bool" where
  "coverage_ok x \<longleftrightarrow> list_all no_null (admin_areas x)"

interpretation coverage_codec: json_codec coverage_to_json coverage_from_json coverage_ok
  by unfold_locales (auto simp: coverage_to_json_def coverage_from_json_def coverage_ok_def Let_def)

lemmas coverage_round_trips [simp] = coverage_codec.round_trip coverage_codec.vector_round_trip coverage_codec.not_null

record index_definition =
  index_name :: string
  index_type :: string
  index_duration :: int
  index_zoomLevel :: int

definition empty_index_definition :: index_definition where
  "empty_index_definition = \<lparr>index_name = [], index_type = [], index_duration = 0, index_zoomLevel = 0\<rparr>"

definition index_definition_to_json :: "index_definition \<Rightarrow> json" where
  "index_definition_to_json x =
     (let v = JObject [];
          v = serialize ''name'' (JString (index_name x)) v;
          v = serialize ''type'' (JString (index_type x)) v;
          v = serialize ''duration'' (JInt (index_duration x)) v;
          v = serialize ''zoomLevel'' (JInt (index_zoomLevel x)) v
      in v)"

definition index_definition_from_json :: "json \<Rightarrow> index_definition option" where
  "index_definition_from_json value = do {
     a \<leftarrow> parse string_from_json [] value ''name'';
     b \<leftarrow> parse string_from_json [] value ''type'';
     c \<leftarrow> parse int64_from_json 0 value ''duration'';
     d \<leftarrow> parse int64_from_json 0 value ''zoomLevel'';
     Some \<lparr>index_name = a, index_type = b, index_duration = c, index_zoomLevel = d\<rparr> }"

definition index_definition_ok :: "index_definition \<Rightarrow> bool" where
  "index_definition_ok x \<longleftrightarrow> no_null (index_name x) \<and>
     no_null (index_type x) \<and>
     is_int64 (index_duration x) \<and>
     is_int64 (index_zoomLevel x)"

interpretation index_definition_codec: json_codec index_definition_to_json index_definition_from_json index_definition_ok
  by unfold_locales (auto simp: index_definition_to_json_def index_definition_from_json_def index_definition_ok_def Let_def)

lemmas index_definition_round_trips [simp] = index_definition_codec.round_trip index_definition_codec.vector_round_trip index_definition_codec.not_null

record index_properties =
  index_ttl :: string
  index_definitions :: "index_definition list"

definition empty_index_properties :: index_properties where
  "empty_index_properties = \<lparr>index_ttl = [], index_definitions = []\<rparr>"

definition index_properties_to_json :: "index_properties \<Rightarrow> json" where
  "index_properties_to_json x =
     (let v = JObject [];
          v = serialize ''ttl'' (JString (index_ttl x)) v;
          v = serialize ''indexDefinitions'' (vector_to_json index_definition_to_json (index_definitions x)) v
      in v)"

definition index_properties_from_json :: "json \<Rightarrow> index_properties option" where
  "index_properties_from_json value = do {
     a \<leftarrow> parse string_from_json [] value ''ttl'';
     b \<leftarrow> parse (vector_from_json index_definition_from_json) [] value ''indexDefinitions'';
     Some \<lparr>index_ttl = a, index_definitions = b\<rparr> }"

definition index_properties_ok :: "index_properties \<Rightarrow> bool" where
  "index_properties_ok x \<longleftrightarrow> no_null (index_ttl x) \<and>
     list_all index_definition_ok (index_definitions x)"

interpretation index_properties_codec: json_codec index_properties_to_json index_properties_from_json index_properties_ok
  by unfold_locales (auto simp: index_properties_to_json_def index_properties_from_json_def index_properties_ok_def Let_def)

lemmas index_properties_round_trips [simp] = index_properties_codec.round_trip index_properties_codec.vector_round_trip index_properties_codec.not_null

record creator =
  creator_id :: string

definition empty_creator :: creator where
  "empty_creator = \<lparr>creator_id = []\<rparr>"

definition creator_to_json :: "creator \<Rightarrow> json" where
  "creator_to_json x =
     (let v = JObject [];
          v = serialize ''id'' (JString (creator_id x)) v
      in v)"

definition creator_from_json :: "json \<Rightarrow> creator option" where
  "creator_from_json value = do {
     a \<leftarrow> parse string_from_json [] value ''id'';
     Some \<lparr>creator_id = a\<rparr> }"

definition creator_ok :: "creator \<Rightarrow> bool" where
  "creator_ok x \<longleftrightarrow> no_null (creator_id x)"

interpretation creator_codec: json_codec creator_to_json creator_from_json creator_ok
  by unfold_locales (auto simp: creator_to_json_def creator_from_json_def creator_ok_def Let_def)

lemmas creator_round_trips [simp] = creator_codec.round_trip creator_codec.vector_round_trip creator_codec.not_null

record owner =
  owner_creator :: creator
  owner_organisation :: creator

definition empty_owner :: owner where
  "empty_owner = \<lparr>owner_creator = empty_creator, owner_organisation = empty_creator\<rparr>"

definition owner_to_json :: "owner \<Rightarrow> json" where
  "owner_to_json x =
     (let v = JObject [];
          v = serialize ''creator'' (creator_to_json (owner_creator x)) v;
          v = serialize ''organisation'' (creator_to_json (owner_organisation x)) v
      in v)"

definition owner_from_json :: "json \<Rightarrow> owner option" where
  "owner_from_json value = do {
     a \<leftarrow> parse creator_from_json empty_creator value ''creator'';
     b \<leftarrow> parse creator_from_json empty_creator value ''organisation'';
     Some \<lparr>owner_creator = a, owner_organisation = b\<rparr> }"

definition owner_ok :: "owner \<Rightarrow> bool" where
  "owner_ok x \<longleftrightarrow> creator_ok (owner_creator x) \<and>
     creator_ok (owner_organisation x)"

interpretation owner_codec: json_codec owner_to_json owner_from_json owner_ok
  by unfold_locales (auto simp: owner_to_json_def owner_from_json_def owner_ok_def Let_def)

lemmas owner_round_trips [simp] = owner_codec.round_trip owner_codec.vector_round_trip owner_codec.not_null

record partitioning =
  partitioning_scheme :: string
  partitioning_tile_levels :: "int list"

definition empty_partitioning :: partitioning where
  "empty_partitioning = \<lparr>partitioning_scheme = [], partitioning_tile_levels = []\<rparr>"

definition partitioning_to_json :: "partitioning \<Rightarrow> json" where
  "partitioning_to_json x =
     (let v = JObject [];
          v = serialize ''scheme'' (JString (partitioning_scheme x)) v;
          v = serialize ''tileLevels'' (vector_to_json JInt (partitioning_tile_levels x)) v
      in v)"

definition partitioning_from_json :: "json \<Rightarrow> partitioning option" where
  "partitioning_from_json value = do {
     a \<leftarrow> parse string_from_json [] value ''scheme'';
     b \<leftarrow> parse (vector_from_json int64_from_json) [] value ''tileLevels'';
     Some \<lparr>partitioning_scheme = a, partitioning_tile_levels = b\<rparr> }"

definition partitioning_ok :: "partitioning \<Rightarrow> bool" where
  "partitioning_ok x \<longleftrightarrow> no_null (partitioning_scheme x) \<and>
     list_all is_int64 (partitioning_tile_levels x)"

interpretation partitioning_codec: json_codec partitioning_to_json partitioning_from_json partitioning_ok
  by unfold_locales (auto simp: partitioning_to_json_def partitioning_from_json_def partitioning_ok_def Let_def)

lemmas partitioning_round_trips [simp] = partitioning_codec.round_trip partitioning_codec.vector_round_trip partitioning_codec.not_null

record schema =
  schema_hrn :: string

definition empty_schema :: schema where
  "empty_schema = \<lparr>schema_hrn = []\<rparr>"

definition schema_to_json :: "schema \<Rightarrow> json" where
  "schema_to_json x =
     (let v = JObject [];
          v = serialize ''hrn'' (JString (schema_hrn x)) v
      in v)"

definition schema_from_json :: "json \<Rightarrow> schema option" where
  "schema_from_json value = do {
     a \<leftarrow> parse string_from_json [] value ''hrn'';
     Some \<lparr>schema_hrn = a\<rparr> }"

definition schema_ok :: "schema \<Rightarrow> bool" where
  "schema_ok x \<longleftrightarrow> no_null (schema_hrn x)"

interpretation schema_codec: json_codec schema_to_json schema_from_json schema_ok
  by unfold_locales (auto simp: schema_to_json_def schema_from_json_def schema_ok_def Let_def)

lemmas schema_round_trips [simp] = schema_codec.round_trip schema_codec.vector_round_trip schema_codec.not_null

record stream_properties =
  stream_data_in_throughput_mbps :: int
  stream_data_out_throughput_mbps :: int

definition empty_stream_properties :: stream_properties where
  "empty_stream_properties = \<lparr>stream_data_in_throughput_mbps = 0, stream_data_out_throughput_mbps = 0\<rparr>"

definition stream_properties_to_json :: "stream_properties \<Rightarrow> json" where
  "stream_properties_to_json x =
     (let v = JObject [];
          v = serialize ''dataInThroughputMbps'' (JInt (stream_data_in_throughput_mbps x)) v;
          v = serialize ''dataOutThroughputMbps'' (JInt (stream_data_out_throughput_mbps x)) v
      in v)"

definition stream_properties_from_json :: "json \<Rightarrow> stream_properties option" where
  "stream_properties_from_json value = do {
     a \<leftarrow> parse double_from_json (Double 0 0) value ''dataInThroughputMbps'';
     a \<leftarrow> int64_of_double a;
     b \<leftarrow> parse double_from_json (Double 0 0) value ''dataOutThroughputMbps'';
     b \<leftarrow> int64_of_double b;
     Some \<lparr>stream_data_in_throughput_mbps = a, stream_data_out_throughput_mbps = b\<rparr> }"

definition stream_properties_ok :: "stream_properties \<Rightarrow> bool" where
  "stream_properties_ok x \<longleftrightarrow> \<bar>stream_data_in_throughput_mbps x\<bar> \<le> 2 ^ 53 \<and>
     \<bar>stream_data_out_throughput_mbps x\<bar> \<le> 2 ^ 53"

interpretation stream_properties_codec: json_codec stream_properties_to_json stream_properties_from_json stream_properties_ok
  by unfold_locales (auto simp: stream_properties_to_json_def stream_properties_from_json_def stream_properties_ok_def Let_def)

lemmas stream_properties_round_trips [simp] = stream_properties_codec.round_trip stream_properties_codec.vector_round_trip stream_properties_codec.not_null

record encryption =
  encryption_algorithm :: string

definition empty_encryption :: encryption where
  "empty_encryption = \<lparr>encryption_algorithm = []\<rparr>"

definition encryption_to_json :: "encryption \<Rightarrow> json" where
  "encryption_to_json x =
     (let v = JObject [];
          v = serialize ''algorithm'' (JString (encryption_algorithm x)) v
      in v)"

definition encryption_from_json :: "json \<Rightarrow> encryption option" where
  "encryption_from_json value = do {
     a \<leftarrow> parse string_from_json [] value ''algorithm'';
     Some \<lparr>encryption_algorithm = a\<rparr> }"

definition encryption_ok :: "encryption \<Rightarrow> bool" where
  "encryption_ok x \<longleftrightarrow> no_null (encryption_algorithm x)"

interpretation encryption_codec: json_codec encryption_to_json encryption_from_json encryption_ok
  by unfold_locales (auto simp: encryption_to_json_def encryption_from_json_def encryption_ok_def Let_def)

lemmas encryption_round_trips [simp] = encryption_codec.round_trip encryption_codec.vector_round_trip encryption_codec.not_null

record volume =
  volume_type :: string
  volume_max_memory_policy :: string
  volume_package_type :: string
  volume_encryption :: encryption

definition empty_volume :: volume where
  "empty_volume = \<lparr>volume_type = [], volume_max_memory_policy = [], volume_package_type = [],
     volume_encryption = empty_encryption\<rparr>"

definition volume_to_json :: "volume \<Rightarrow> json" where
  "volume_to_json x =
     (let v = JObject [];
          v = serialize ''volumeType'' (JString (volume_type x)) v;
          v = serialize ''maxMemoryPolicy'' (JString (volume_max_memory_policy x)) v;
          v = serialize ''packageType'' (JString (volume_package_type x)) v;
          v = serialize ''encryption'' (encryption_to_json (volume_encryption x)) v
      in v)"

definition volume_from_json :: "json \<Rightarrow> volume option" where
  "volume_from_json value = do {
     a \<leftarrow> parse string_from_json [] value ''volumeType'';
     b \<leftarrow> parse string_from_json [] value ''maxMemoryPolicy'';
     c \<leftarrow> parse string_from_json [] value ''packageType'';
     d \<leftarrow> parse encryption_from_json empty_encryption value ''encryption'';
     Some \<lparr>volume_type = a, volume_max_memory_policy = b, volume_package_type = c, volume_encryption = d\<rparr> }"

definition volume_ok :: "volume \<Rightarrow> bool" where
  "volume_ok x \<longleftrightarrow> no_null (volume_type x) \<and>
     no_null (volume_max_memory_policy x) \<and>
     no_null (volume_package_type x) \<and>
     encryption_ok (volume_encryption x)"

interpretation volume_codec: json_codec volume_to_json volume_from_json volume_ok
  by unfold_locales (auto simp: volume_to_json_def volume_from_json_def volume_ok_def Let_def)

lemmas volume_round_trips [simp] = volume_codec.round_trip volume_codec.vector_round_trip volume_codec.not_null

section \<open>Layers and catalogs\<close>

record layer =
  layer_id :: string
  layer_name :: string
  layer_summary :: string
  layer_description :: string
  layer_owner :: owner
  layer_coverage :: coverage
  layer_schema :: schema
  layer_content_type :: string
  layer_content_encoding :: string
  layer_partitioning :: partitioning
  layer_layer_type :: string
  layer_digest :: string
  layer_tags :: "string list"
  layer_billing_tags :: "string list"
  layer_ttl :: "int option"
  layer_index_properties :: index_properties
  layer_stream_properties :: stream_properties
  layer_volume :: volume

definition empty_layer :: layer where
  "empty_layer = \<lparr>layer_id = [], layer_name = [], layer_summary = [], layer_description = [],
     layer_owner = empty_owner, layer_coverage = empty_coverage, layer_schema = empty_schema,
     layer_content_type = [], layer_content_encoding = [], layer_partitioning = empty_partitioning,
     layer_layer_type = [], layer_digest = [], layer_tags = [], layer_billing_tags = [],
     layer_ttl = None, layer_index_properties = empty_index_properties,
     layer_stream_properties = empty_stream_properties, layer_volume = empty_volume\<rparr>"

definition layer_to_json :: "layer \<Rightarrow> json" where
  "layer_to_json x =
     (let v = JObject [];
          v = serialize ''id'' (JString (layer_id x)) v;
          v = serialize ''name'' (JString (layer_name x)) v;
          v = serialize ''summary'' (JString (layer_summary x)) v;
          v = serialize ''description'' (JString (layer_description x)) v;
          v = serialize ''owner'' (owner_to_json (layer_owner x)) v;
          v = serialize ''coverage'' (coverage_to_json (layer_coverage x)) v;
          v = serialize ''schema'' (schema_to_json (layer_schema x)) v;
          v = serialize ''contentType'' (JString (layer_content_type x)) v;
          v = serialize ''contentEncoding'' (JString (layer_content_encoding x)) v;
          v = serialize ''partitioning'' (partitioning_to_json (layer_partitioning x)) v;
          v = serialize ''layerType'' (JString (layer_layer_type x)) v;
          v = serialize ''digest'' (JString (layer_digest x)) v;
          v = serialize ''tags'' (vector_to_json JString (layer_tags x)) v;
          v = serialize ''billingTags'' (vector_to_json JString (layer_billing_tags x)) v;
          v = serialize ''ttl'' (optional_to_json JInt (layer_ttl x)) v;
          v = serialize ''indexProperties'' (index_properties_to_json (layer_index_properties x)) v;
          v = serialize ''streamProperties'' (stream_properties_to_json (layer_stream_properties x)) v;
          v = serialize ''volume'' (volume_to_json (layer_volume x)) v
      in v)"

definition layer_from_json :: "json \<Rightarrow> layer option" where
  "layer_from_json value = do {
     a \<leftarrow> parse string_from_json [] value ''id'';
     b \<leftarrow> parse string_from_json [] value ''name'';
     c \<leftarrow> parse string_from_json [] value ''summary'';
     d \<leftarrow> parse string_from_json [] value ''description'';
     e \<leftarrow> parse owner_from_json empty_owner value ''owner'';
     f \<leftarrow> parse coverage_from_json empty_coverage value ''coverage'';
     g \<leftarrow> parse schema_from_json empty_schema value ''schema'';
     h \<leftarrow> parse string_from_json [] value ''contentType'';
     i \<leftarrow> parse string_from_json [] value ''contentEncoding'';
     j \<leftarrow> parse partitioning_from_json empty_partitioning value ''partitioning'';
     k \<leftarrow> parse string_from_json [] value ''layerType'';
     l \<leftarrow> parse string_from_json [] value ''digest'';
     m \<leftarrow> parse (vector_from_json string_from_json) [] value ''tags'';
     n \<leftarrow> parse (vector_from_json string_from_json) [] value ''billingTags'';
     p \<leftarrow> parse (optional_from_json int64_from_json) None value ''ttl'';
     q \<leftarrow> parse index_properties_from_json empty_index_properties value ''indexProperties'';
     r \<leftarrow> parse stream_properties_from_json empty_stream_properties value ''streamProperties'';
     s \<leftarrow> parse volume_from_json empty_volume value ''volume'';
     Some \<lparr>layer_id = a, layer_name = b, layer_summary = c, layer_description = d, layer_owner = e,
           layer_coverage = f, layer_schema = g, layer_content_type = h, layer_content_encoding = i,
           layer_partitioning = j, layer_layer_type = k, layer_digest = l, layer_tags = m,
           layer_billing_tags = n, layer_ttl = p, layer_index_properties = q, layer_stream_properties = r,
           layer_volume = s\<rparr> }"

definition layer_ok :: "layer \<Rightarrow> bool" where
  "layer_ok x \<longleftrightarrow> no_null (layer_id x) \<and>
     no_null (layer_name x) \<and>
     no_null (layer_summary x) \<and>
     no_null (layer_description x) \<and>
     owner_ok (layer_owner x) \<and>
     coverage_ok (layer_coverage x) \<and>
     schema_ok (layer_schema x) \<and>
     no_null (layer_content_type x) \<and>
     no_null (layer_content_encoding x) \<and>
     partitioning_ok (layer_partitioning x) \<and>
     no_null (layer_layer_type x) \<and>
     no_null (layer_digest x) \<and>
     list_all no_null (layer_tags x) \<and>
     list_all no_null (layer_billing_tags x) \<and>
     pred_option is_int64 (layer_ttl x) \<and>
     index_properties_ok (layer_index_properties x) \<and>
     stream_properties_ok (layer_stream_properties x) \<and>
     volume_ok (layer_volume x)"

interpretation layer_codec: json_codec layer_to_json layer_from_json layer_ok
  by unfold_locales (auto simp: layer_to_json_def layer_from_json_def layer_ok_def Let_def intro: layer.equality)

lemmas layer_round_trips [simp] = layer_codec.round_trip layer_codec.vector_round_trip layer_codec.not_null

record notifications =
  notifications_enabled :: bool

definition empty_notifications :: notifications where
  "empty_notifications = \<lparr>notifications_enabled = False\<rparr>"

definition notifications_to_json :: "notifications \<Rightarrow> json" where
  "notifications_to_json x =
     (let v = JObject [];
          v = serialize ''enabled'' (JBool (notifications_enabled x)) v
      in v)"

definition notifications_from_json :: "json \<Rightarrow> notifications option" where
  "notifications_from_json value = do {
     a \<leftarrow> parse bool_from_json False value ''enabled'';
     Some \<lparr>notifications_enabled = a\<rparr> }"

definition notifications_ok :: "notifications \<Rightarrow> bool" where
  "notifications_ok x \<longleftrightarrow> True"

interpretation notifications_codec: json_codec notifications_to_json notifications_from_json notifications_ok
  by unfold_locales (auto simp: notifications_to_json_def notifications_from_json_def notifications_ok_def Let_def)

lemmas notifications_round_trips [simp] = notifications_codec.round_trip notifications_codec.vector_round_trip notifications_codec.not_null

record catalog =
  catalog_id :: string
  catalog_hrn :: string
  catalog_name :: string
  catalog_summary :: string
  catalog_description :: string
  catalog_coverage :: coverage
  catalog_owner :: owner
  catalog_tags :: "string list"
  catalog_billing_tags :: "string list"
  catalog_created :: string
  catalog_layers :: "layer list"
  catalog_version :: int
  catalog_notifications :: notifications

definition empty_catalog :: catalog where
  "empty_catalog = \<lparr>catalog_id = [], catalog_hrn = [], catalog_name = [], catalog_summary = [],
     catalog_description = [], catalog_coverage = empty_coverage, catalog_owner = empty_owner,
     catalog_tags = [], catalog_billing_tags = [], catalog_created = [], catalog_layers = [],
     catalog_version = 0, catalog_notifications = empty_notifications\<rparr>"

definition catalog_to_json :: "catalog \<Rightarrow> json" where
  "catalog_to_json x =
     (let v = JObject [];
          v = serialize ''id'' (JString (catalog_id x)) v;
          v = serialize ''hrn'' (JString (catalog_hrn x)) v;
          v = serialize ''name'' (JString (catalog_name x)) v;
          v = serialize ''summary'' (JString (catalog_summary x)) v;
          v = serialize ''description'' (JString (catalog_description x)) v;
          v = serialize ''coverage'' (coverage_to_json (catalog_coverage x)) v;
          v = serialize ''owner'' (owner_to_json (catalog_owner x)) v;
          v = serialize ''tags'' (vector_to_json JString (catalog_tags x)) v;
          v = serialize ''billingTags'' (vector_to_json JString (catalog_billing_tags x)) v;
          v = serialize ''created'' (JString (catalog_created x)) v;
          v = serialize ''layers'' (vector_to_json layer_to_json (catalog_layers x)) v;
          v = serialize ''version'' (JInt (catalog_version x)) v;
          v = serialize ''notifications'' (notifications_to_json (catalog_notifications x)) v
      in v)"

definition catalog_from_json :: "json \<Rightarrow> catalog option" where
  "catalog_from_json value = do {
     a \<leftarrow> parse string_from_json [] value ''id'';
     b \<leftarrow> parse string_from_json [] value ''hrn'';
     c \<leftarrow> parse string_from_json [] value ''name'';
     d \<leftarrow> parse string_from_json [] value ''summary'';
     e \<leftarrow> parse string_from_json [] value ''description'';
     f \<leftarrow> parse coverage_from_json empty_coverage value ''coverage'';
     g \<leftarrow> parse owner_from_json empty_owner value ''owner'';
     h \<leftarrow> parse (vector_from_json string_from_json) [] value ''tags'';
     i \<leftarrow> parse (vector_from_json string_from_json) [] value ''billingTags'';
     j \<leftarrow> parse string_from_json [] value ''created'';
     k \<leftarrow> parse (vector_from_json layer_from_json) [] value ''layers'';
     l \<leftarrow> parse int64_from_json 0 value ''version'';
     m \<leftarrow> parse notifications_from_json empty_notifications value ''notifications'';
     Some \<lparr>catalog_id = a, catalog_hrn = b, catalog_name = c, catalog_summary = d, catalog_description = e,
           catalog_coverage = f, catalog_owner = g, catalog_tags = h, catalog_billing_tags = i,
           catalog_created = j, catalog_layers = k, catalog_version = l, catalog_notifications = m\<rparr> }"

definition catalog_ok :: "catalog \<Rightarrow> bool" where
  "catalog_ok x \<longleftrightarrow> no_null (catalog_id x) \<and>
     no_null (catalog_hrn x) \<and>
     no_null (catalog_name x) \<and>
     no_null (catalog_summary x) \<and>
     no_null (catalog_description x) \<and>
     coverage_ok (catalog_coverage x) \<and>
     owner_ok (catalog_owner x) \<and>
     list_all no_null (catalog_tags x) \<and>
     list_all no_null (catalog_billing_tags x) \<and>
     no_null (catalog_created x) \<and>
     list_all layer_ok (catalog_layers x) \<and>
     is_int64 (catalog_version x) \<and>
     notifications_ok (catalog_notifications x)"

interpretation catalog_codec: json_codec catalog_to_json catalog_from_json catalog_ok
  by unfold_locales (auto simp: catalog_to_json_def catalog_from_json_def catalog_ok_def Let_def)

lemmas catalog_round_trips [simp] = catalog_codec.round_trip catalog_codec.vector_round_trip catalog_codec.not_null

section \<open>Round trip\<close>

lemmas model_ok_defs = coverage_ok_def index_definition_ok_def index_properties_ok_def creator_ok_def owner_ok_def partitioning_ok_def
  schema_ok_def stream_properties_ok_def encryption_ok_def volume_ok_def layer_ok_def notifications_ok_def catalog_ok_def

lemmas empty_defs = empty_coverage_def empty_index_definition_def empty_index_properties_def empty_creator_def empty_owner_def empty_partitioning_def
  empty_schema_def empty_stream_properties_def empty_encryption_def empty_volume_def empty_layer_def empty_notifications_def empty_catalog_def

text \<open>
  C19: a catalog is read back from what is written, with all its layers, as long as its texts have no null
  characters, its numbers fit 64 bits and the throughputs of its streams are exact as doubles.
\<close>

theorem catalog_round_trip:
  assumes "catalog_ok c" shows "parse_document catalog_from_json empty_catalog (Some (catalog_to_json c)) = Some c"
proof -
  have "catalog_from_json (catalog_to_json c) = Some c" using assms by (rule catalog_codec.round_trip)
  moreover obtain ms where "catalog_to_json c = JObject ms" by (simp add: catalog_to_json_def Let_def)
  ultimately show ?thesis by (simp add: parse_document_def)
qed

abbreviation (input) demo_catalog :: catalog where
  "demo_catalog \<equiv> empty_catalog\<lparr>catalog_id := ''cat'', catalog_version := 7,
     catalog_layers := [empty_layer\<lparr>layer_id := ''l'', layer_ttl := Some 600\<rparr>]\<rparr>"

lemma catalog_round_trip_witness:
  "parse_document catalog_from_json empty_catalog (Some (catalog_to_json demo_catalog)) = Some demo_catalog"
proof (rule catalog_round_trip)
  show "catalog_ok demo_catalog" by (simp add: model_ok_defs empty_defs no_null_def is_int64_def)
qed

text \<open>
  where the round trip ends. A text is cut at its first null character, a throughput above 2 ^ 53 is
  rounded, and a member that is null where an optional value may stand is an assertion, not an absent
  value.
\<close>

theorem catalog_round_trip_limits:
  "creator_from_json (creator_to_json \<lparr>creator_id = [CHR ''a'', CHR 0x00, CHR ''b'']\<rparr>) = Some \<lparr>creator_id = ''a''\<rparr> \<and>
   stream_properties_from_json (stream_properties_to_json
       \<lparr>stream_data_in_throughput_mbps = 2 ^ 53 + 1, stream_data_out_throughput_mbps = 0\<rparr>)
     = Some \<lparr>stream_data_in_throughput_mbps = 2 ^ 53, stream_data_out_throughput_mbps = 0\<rparr> \<and>
   layer_from_json (JObject [(''ttl'', JNull)]) = None"
  by code_simp

end
