(* ===== verification/ReadModel.thy ===== *)
theory ReadModel
  imports Json
begin

text \<open>
  The other models of the read service, with their readers in \<open>src/generated/parser\<close> and, where there is
  one, their writers in \<open>src/generated/serializer\<close>: partitions, versions, API addresses, stream offsets
  and messages, and the quad tree index.
\<close>

section \<open>Models that are written and read\<close>

record partition =
  partition_checksum :: "string option"
  partition_compressed_data_size :: "int option"
  partition_data_handle :: string
  partition_data_size :: "int option"
  partition_partition :: string
  partition_version :: "int option"

definition empty_partition :: partition where
  "empty_partition = \<lparr>partition_checksum = None, partition_compressed_data_size = None, partition_data_handle = [],
     partition_data_size = None, partition_partition = [], partition_version = None\<rparr>"

definition partition_to_json :: "partition \<Rightarrow> json" where
  "partition_to_json x =
     (let v = JObject [];
          v = serialize ''checksum'' (optional_to_json JString (partition_checksum x)) v;
          v = serialize ''compressedDataSize'' (optional_to_json JInt (partition_compressed_data_size x)) v;
          v = serialize ''dataHandle'' (JString (partition_data_handle x)) v;
          v = serialize ''dataSize'' (optional_to_json JInt (partition_data_size x)) v;
          v = serialize ''partition'' (JString (partition_partition x)) v;
          v = serialize ''version'' (optional_to_json JInt (partition_version x)) v
      in v)"

definition partition_from_json :: "json \<Rightarrow> partition option" where
  "partition_from_json value = do {
     a \<leftarrow> parse (optional_from_json string_from_json) None value ''checksum'';
     b \<leftarrow> parse (optional_from_json int64_from_json) None value ''compressedDataSize'';
     c \<leftarrow> parse string_from_json [] value ''dataHandle'';
     d \<leftarrow> parse (optional_from_json int64_from_json) None value ''dataSize'';
     e \<leftarrow> parse string_from_json [] value ''partition'';
     f \<leftarrow> parse (optional_from_json int64_from_json) None value ''version'';
     Some \<lparr>partition_checksum = a, partition_compressed_data_size = b, partition_data_handle = c,
           partition_data_size = d, partition_partition = e, partition_version = f\<rparr> }"

definition partition_ok :: "partition \<Rightarrow> bool" where
  "partition_ok x \<longleftrightarrow> pred_option no_null (partition_checksum x) \<and>
     pred_option is_int64 (partition_compressed_data_size x) \<and>
     no_null (partition_data_handle x) \<and>
     pred_option is_int64 (partition_data_size x) \<and>
     no_null (partition_partition x) \<and>
     pred_option is_int64 (partition_version x)"

interpretation partition_codec: json_codec partition_to_json partition_from_json partition_ok
  by unfold_locales (auto simp: partition_to_json_def partition_from_json_def partition_ok_def Let_def intro: partition.equality)

lemmas partition_round_trips [simp] = partition_codec.round_trip partition_codec.vector_round_trip partition_codec.not_null

record partitions =
  partitions_list :: "partition list"

definition empty_partitions :: partitions where
  "empty_partitions = \<lparr>partitions_list = []\<rparr>"

definition partitions_to_json :: "partitions \<Rightarrow> json" where
  "partitions_to_json x =
     (let v = JObject [];
          v = serialize ''partitions'' (vector_to_json partition_to_json (partitions_list x)) v
      in v)"

definition partitions_from_json :: "json \<Rightarrow> partitions option" where
  "partitions_from_json value = do {
     a \<leftarrow> parse (vector_from_json partition_from_json) [] value ''partitions'';
     Some \<lparr>partitions_list = a\<rparr> }"

definition partitions_ok :: "partitions \<Rightarrow> bool" where
  "partitions_ok x \<longleftrightarrow> list_all partition_ok (partitions_list x)"

interpretation partitions_codec: json_codec partitions_to_json partitions_from_json partitions_ok
  by unfold_locales (auto simp: partitions_to_json_def partitions_from_json_def partitions_ok_def Let_def)

lemmas partitions_round_trips [simp] = partitions_codec.round_trip partitions_codec.vector_round_trip partitions_codec.not_null

record layer_version =
  layer_version_layer :: string
  layer_version_version :: int
  layer_version_timestamp :: int

definition empty_layer_version :: layer_version where
  "empty_layer_version = \<lparr>layer_version_layer = [], layer_version_version = 0, layer_version_timestamp = 0\<rparr>"

definition layer_version_to_json :: "layer_version \<Rightarrow> json" where
  "layer_version_to_json x =
     (let v = JObject [];
          v = serialize ''layer'' (JString (layer_version_layer x)) v;
          v = serialize ''version'' (JInt (layer_version_version x)) v;
          v = serialize ''timestamp'' (JInt (layer_version_timestamp x)) v
      in v)"

definition layer_version_from_json :: "json \<Rightarrow> layer_version option" where
  "layer_version_from_json value = do {
     a \<leftarrow> parse string_from_json [] value ''layer'';
     b \<leftarrow> parse int64_from_json 0 value ''version'';
     c \<leftarrow> parse int64_from_json 0 value ''timestamp'';
     Some \<lparr>layer_version_layer = a, layer_version_version = b, layer_version_timestamp = c\<rparr> }"

definition layer_version_ok :: "layer_version \<Rightarrow> bool" where
  "layer_version_ok x \<longleftrightarrow> no_null (layer_version_layer x) \<and>
     is_int64 (layer_version_version x) \<and>
     is_int64 (layer_version_timestamp x)"

interpretation layer_version_codec: json_codec layer_version_to_json layer_version_from_json layer_version_ok
  by unfold_locales (auto simp: layer_version_to_json_def layer_version_from_json_def layer_version_ok_def Let_def)

lemmas layer_version_round_trips [simp] = layer_version_codec.round_trip layer_version_codec.vector_round_trip layer_version_codec.not_null

record layer_versions =
  layer_versions_list :: "layer_version list"
  layer_versions_version :: int

definition empty_layer_versions :: layer_versions where
  "empty_layer_versions = \<lparr>layer_versions_list = [], layer_versions_version = 0\<rparr>"

definition layer_versions_to_json :: "layer_versions \<Rightarrow> json" where
  "layer_versions_to_json x =
     (let v = JObject [];
          v = serialize ''layerVersions'' (vector_to_json layer_version_to_json (layer_versions_list x)) v;
          v = serialize ''version'' (JInt (layer_versions_version x)) v
      in v)"

definition layer_versions_from_json :: "json \<Rightarrow> layer_versions option" where
  "layer_versions_from_json value = do {
     a \<leftarrow> parse (vector_from_json layer_version_from_json) [] value ''layerVersions'';
     b \<leftarrow> parse int64_from_json 0 value ''version'';
     Some \<lparr>layer_versions_list = a, layer_versions_version = b\<rparr> }"

definition layer_versions_ok :: "layer_versions \<Rightarrow> bool" where
  "layer_versions_ok x \<longleftrightarrow> list_all layer_version_ok (layer_versions_list x) \<and>
     is_int64 (layer_versions_version x)"

interpretation layer_versions_codec: json_codec layer_versions_to_json layer_versions_from_json layer_versions_ok
  by unfold_locales (auto simp: layer_versions_to_json_def layer_versions_from_json_def layer_versions_ok_def Let_def)

lemmas layer_versions_round_trips [simp] = layer_versions_codec.round_trip layer_versions_codec.vector_round_trip layer_versions_codec.not_null

record api =
  api_api :: string
  api_version :: string
  api_base_url :: string
  api_parameters :: "(string, string) smap"

definition empty_api :: api where
  "empty_api = \<lparr>api_api = [], api_version = [], api_base_url = [], api_parameters = []\<rparr>"

definition api_to_json :: "api \<Rightarrow> json" where
  "api_to_json x =
     (let v = JObject [];
          v = serialize ''api'' (JString (api_api x)) v;
          v = serialize ''version'' (JString (api_version x)) v;
          v = serialize ''baseURL'' (JString (api_base_url x)) v;
          v = serialize ''parameters'' (map_to_json JString (api_parameters x)) v
      in v)"

definition api_from_json :: "json \<Rightarrow> api option" where
  "api_from_json value = do {
     a \<leftarrow> parse string_from_json [] value ''api'';
     b \<leftarrow> parse string_from_json [] value ''version'';
     c \<leftarrow> parse string_from_json [] value ''baseURL'';
     d \<leftarrow> parse (map_from_json string_from_json) [] value ''parameters'';
     Some \<lparr>api_api = a, api_version = b, api_base_url = c, api_parameters = d\<rparr> }"

definition api_ok :: "api \<Rightarrow> bool" where
  "api_ok x \<longleftrightarrow> no_null (api_api x) \<and>
     no_null (api_version x) \<and>
     no_null (api_base_url x) \<and>
     smap_wf (api_parameters x) \<and> list_all (\<lambda>(k, v). no_null k \<and> no_null v) (api_parameters x)"

interpretation api_codec: json_codec api_to_json api_from_json api_ok
  by unfold_locales (auto simp: api_to_json_def api_from_json_def api_ok_def Let_def)

lemmas api_round_trips [simp] = api_codec.round_trip api_codec.vector_round_trip api_codec.not_null

record version_response =
  response_version :: int

definition empty_version_response :: version_response where
  "empty_version_response = \<lparr>response_version = 0\<rparr>"

definition version_response_to_json :: "version_response \<Rightarrow> json" where
  "version_response_to_json x =
     (let v = JObject [];
          v = serialize ''version'' (JInt (response_version x)) v
      in v)"

definition version_response_from_json :: "json \<Rightarrow> version_response option" where
  "version_response_from_json value = do {
     a \<leftarrow> parse int64_from_json 0 value ''version'';
     Some \<lparr>response_version = a\<rparr> }"

definition version_response_ok :: "version_response \<Rightarrow> bool" where
  "version_response_ok x \<longleftrightarrow> is_int64 (response_version x)"

interpretation version_response_codec: json_codec version_response_to_json version_response_from_json version_response_ok
  by unfold_locales (auto simp: version_response_to_json_def version_response_from_json_def version_response_ok_def Let_def)

lemmas version_response_round_trips [simp] = version_response_codec.round_trip version_response_codec.vector_round_trip version_response_codec.not_null

record stream_offset =
  offset_partition :: int
  offset_offset :: int

definition empty_stream_offset :: stream_offset where
  "empty_stream_offset = \<lparr>offset_partition = 0, offset_offset = 0\<rparr>"

definition stream_offset_to_json :: "stream_offset \<Rightarrow> json" where
  "stream_offset_to_json x =
     (let v = JObject [];
          v = serialize ''partition'' (JInt (offset_partition x)) v;
          v = serialize ''offset'' (JInt (offset_offset x)) v
      in v)"

definition stream_offset_from_json :: "json \<Rightarrow> stream_offset option" where
  "stream_offset_from_json value = do {
     a \<leftarrow> parse int32_from_json 0 value ''partition'';
     b \<leftarrow> parse int64_from_json 0 value ''offset'';
     Some \<lparr>offset_partition = a, offset_offset = b\<rparr> }"

definition stream_offset_ok :: "stream_offset \<Rightarrow> bool" where
  "stream_offset_ok x \<longleftrightarrow> is_int32 (offset_partition x) \<and>
     is_int64 (offset_offset x)"

interpretation stream_offset_codec: json_codec stream_offset_to_json stream_offset_from_json stream_offset_ok
  by unfold_locales (auto simp: stream_offset_to_json_def stream_offset_from_json_def stream_offset_ok_def Let_def)

lemmas stream_offset_round_trips [simp] = stream_offset_codec.round_trip stream_offset_codec.vector_round_trip stream_offset_codec.not_null

record stream_offsets =
  offsets_list :: "stream_offset list"

definition empty_stream_offsets :: stream_offsets where
  "empty_stream_offsets = \<lparr>offsets_list = []\<rparr>"

definition stream_offsets_to_json :: "stream_offsets \<Rightarrow> json" where
  "stream_offsets_to_json x =
     (let v = JObject [];
          v = serialize ''offsets'' (vector_to_json stream_offset_to_json (offsets_list x)) v
      in v)"

definition stream_offsets_from_json :: "json \<Rightarrow> stream_offsets option" where
  "stream_offsets_from_json value = do {
     a \<leftarrow> parse (vector_from_json stream_offset_from_json) [] value ''offsets'';
     Some \<lparr>offsets_list = a\<rparr> }"

definition stream_offsets_ok :: "stream_offsets \<Rightarrow> bool" where
  "stream_offsets_ok x \<longleftrightarrow> list_all stream_offset_ok (offsets_list x)"

interpretation stream_offsets_codec: json_codec stream_offsets_to_json stream_offsets_from_json stream_offsets_ok
  by unfold_locales (auto simp: stream_offsets_to_json_def stream_offsets_from_json_def stream_offsets_ok_def Let_def)

lemmas stream_offsets_round_trips [simp] = stream_offsets_codec.round_trip stream_offsets_codec.vector_round_trip stream_offsets_codec.not_null

section \<open>Models that are only read\<close>

record sub_quad =
  sub_quad_additional_metadata :: "string option"
  sub_quad_checksum :: "string option"
  sub_quad_compressed_data_size :: "int option"
  sub_quad_data_handle :: string
  sub_quad_data_size :: "int option"
  sub_quad_key :: string
  sub_quad_version :: int

definition empty_sub_quad :: sub_quad where
  "empty_sub_quad = \<lparr>sub_quad_additional_metadata = None, sub_quad_checksum = None,
     sub_quad_compressed_data_size = None, sub_quad_data_handle = [], sub_quad_data_size = None,
     sub_quad_key = [], sub_quad_version = 0\<rparr>"

definition sub_quad_from_json :: "json \<Rightarrow> sub_quad option" where
  "sub_quad_from_json value = do {
     a \<leftarrow> parse (optional_from_json string_from_json) None value ''additionalMetadata'';
     b \<leftarrow> parse (optional_from_json string_from_json) None value ''checksum'';
     c \<leftarrow> parse (optional_from_json int64_from_json) None value ''compressedDataSize'';
     d \<leftarrow> parse string_from_json [] value ''dataHandle'';
     e \<leftarrow> parse (optional_from_json int64_from_json) None value ''dataSize'';
     f \<leftarrow> parse string_from_json [] value ''subQuadKey'';
     g \<leftarrow> parse int64_from_json 0 value ''version'';
     Some \<lparr>sub_quad_additional_metadata = a, sub_quad_checksum = b, sub_quad_compressed_data_size = c,
           sub_quad_data_handle = d, sub_quad_data_size = e, sub_quad_key = f, sub_quad_version = g\<rparr> }"

record parent_quad =
  parent_quad_additional_metadata :: "string option"
  parent_quad_checksum :: "string option"
  parent_quad_compressed_data_size :: "int option"
  parent_quad_data_handle :: string
  parent_quad_data_size :: "int option"
  parent_quad_partition :: string
  parent_quad_version :: int

definition empty_parent_quad :: parent_quad where
  "empty_parent_quad = \<lparr>parent_quad_additional_metadata = None, parent_quad_checksum = None,
     parent_quad_compressed_data_size = None, parent_quad_data_handle = [],
     parent_quad_data_size = None, parent_quad_partition = [], parent_quad_version = 0\<rparr>"

definition parent_quad_from_json :: "json \<Rightarrow> parent_quad option" where
  "parent_quad_from_json value = do {
     a \<leftarrow> parse (optional_from_json string_from_json) None value ''additionalMetadata'';
     b \<leftarrow> parse (optional_from_json string_from_json) None value ''checksum'';
     c \<leftarrow> parse (optional_from_json int64_from_json) None value ''compressedDataSize'';
     d \<leftarrow> parse string_from_json [] value ''dataHandle'';
     e \<leftarrow> parse (optional_from_json int64_from_json) None value ''dataSize'';
     f \<leftarrow> parse string_from_json [] value ''partition'';
     g \<leftarrow> parse int64_from_json 0 value ''version'';
     Some \<lparr>parent_quad_additional_metadata = a, parent_quad_checksum = b,
           parent_quad_compressed_data_size = c, parent_quad_data_handle = d, parent_quad_data_size = e,
           parent_quad_partition = f, parent_quad_version = g\<rparr> }"

record quad_index =
  index_parent_quads :: "parent_quad list"
  index_sub_quads :: "sub_quad list"

definition empty_quad_index :: quad_index where
  "empty_quad_index = \<lparr>index_parent_quads = [], index_sub_quads = []\<rparr>"

definition quad_index_from_json :: "json \<Rightarrow> quad_index option" where
  "quad_index_from_json value = do {
     a \<leftarrow> parse (vector_from_json parent_quad_from_json) [] value ''parentQuads'';
     b \<leftarrow> parse (vector_from_json sub_quad_from_json) [] value ''subQuads'';
     Some \<lparr>index_parent_quads = a, index_sub_quads = b\<rparr> }"

text \<open>The data of a message is a shared pointer, which is empty when the member is missing.\<close>

record metadata =
  metadata_partition :: string
  metadata_checksum :: "string option"
  metadata_compressed_data_size :: "int option"
  metadata_data_size :: "int option"
  metadata_data :: "string option"
  metadata_data_handle :: "string option"
  metadata_timestamp :: "int option"

definition empty_metadata :: metadata where
  "empty_metadata = \<lparr>metadata_partition = [], metadata_checksum = None, metadata_compressed_data_size = None,
     metadata_data_size = None, metadata_data = None, metadata_data_handle = None,
     metadata_timestamp = None\<rparr>"

definition metadata_from_json :: "json \<Rightarrow> metadata option" where
  "metadata_from_json value = do {
     a \<leftarrow> parse string_from_json [] value ''partition'';
     b \<leftarrow> parse (optional_from_json string_from_json) None value ''checksum'';
     c \<leftarrow> parse (optional_from_json int64_from_json) None value ''compressedDataSize'';
     d \<leftarrow> parse (optional_from_json int64_from_json) None value ''dataSize'';
     e \<leftarrow> parse (optional_from_json string_from_json) None value ''data'';
     f \<leftarrow> parse (optional_from_json string_from_json) None value ''dataHandle'';
     g \<leftarrow> parse (optional_from_json int64_from_json) None value ''timestamp'';
     Some \<lparr>metadata_partition = a, metadata_checksum = b, metadata_compressed_data_size = c,
           metadata_data_size = d, metadata_data = e, metadata_data_handle = f, metadata_timestamp = g\<rparr> }"

record message =
  message_meta_data :: metadata
  message_offset :: stream_offset

definition empty_message :: message where
  "empty_message = \<lparr>message_meta_data = empty_metadata, message_offset = empty_stream_offset\<rparr>"

definition message_from_json :: "json \<Rightarrow> message option" where
  "message_from_json value = do {
     a \<leftarrow> parse metadata_from_json empty_metadata value ''metaData'';
     b \<leftarrow> parse stream_offset_from_json empty_stream_offset value ''offset'';
     Some \<lparr>message_meta_data = a, message_offset = b\<rparr> }"

record messages =
  messages_list :: "message list"

definition empty_messages :: messages where
  "empty_messages = \<lparr>messages_list = []\<rparr>"

definition messages_from_json :: "json \<Rightarrow> messages option" where
  "messages_from_json value = do {
     a \<leftarrow> parse (vector_from_json message_from_json) [] value ''messages'';
     Some \<lparr>messages_list = a\<rparr> }"

record subscribe_response =
  subscribe_node_base_url :: string
  subscribe_subscription_id :: string

definition empty_subscribe_response :: subscribe_response where
  "empty_subscribe_response = \<lparr>subscribe_node_base_url = [], subscribe_subscription_id = []\<rparr>"

definition subscribe_response_from_json :: "json \<Rightarrow> subscribe_response option" where
  "subscribe_response_from_json value = do {
     a \<leftarrow> parse string_from_json [] value ''nodeBaseURL'';
     b \<leftarrow> parse string_from_json [] value ''subscriptionId'';
     Some \<lparr>subscribe_node_base_url = a, subscribe_subscription_id = b\<rparr> }"

section \<open>Consumer properties\<close>

text \<open>An option is a key and the text of its value; they are written as one object in their order.\<close>

type_synonym consumer_options = "(string \<times> string) list"

definition consumer_options_to_json :: "consumer_options \<Rightarrow> json" where
  "consumer_options_to_json x = fold (\<lambda>(k, v). serialize k (JString v)) x (JObject [])"

definition consumer_properties_to_json :: "consumer_options \<Rightarrow> json" where
  "consumer_properties_to_json x =
     serialize ''kafkaConsumerProperties'' (consumer_options_to_json x) (JObject [])"

end
