(* ===== verification/LruCache.thy ===== *)
theory LruCache
  imports Prelude
begin

text \<open>
  The generic LRU cache of \<open>olp/core/utils/LruCache.h\<close>: a \<open>std::map\<close> of buckets that
  are threaded into a doubly linked list, most recently used first, together with the
  accumulated cost of the values and the limit on it.

  A \<open>std::map\<close> iterator is modelled by the key of the element it points to, and \<open>end()\<close> by
  \<^term>\<open>None\<close>; map iterators stay valid until their element is erased, so a stale iterator
  is a key that the map no longer holds. Following an iterator that points to nothing, and a
  failing \<open>assert\<close>, give \<^term>\<open>None\<close>. Sizes and costs are 64 bit words. The eviction
  callback must not touch the cache, so every operation returns the list of the pairs it hands
  to the callback, in call order, and the owner of the cache replays them.

  The second half gives the specification, a list of pairs in recency order, and proves that
  every operation refines it.
\<close>

section \<open>State\<close>

record ('k, 'v) bucket =
  next_it :: "'k option"
  previous_it :: "'k option"
  bucket_value :: 'v

record ('k, 'v) lru_cache =
  cache_map :: "('k, ('k, 'v) bucket) smap"
  first_it :: "'k option"
  last_it :: "'k option"
  max_size :: u64
  cache_size :: u64

definition lru_new :: "u64 \<Rightarrow> ('k, 'v) lru_cache" where
  "lru_new sz = \<lparr>cache_map = [], first_it = None, last_it = None,
                 max_size = sz, cache_size = 0\<rparr>"

section \<open>Iterators and links\<close>

definition deref :: "('k, 'v) lru_cache \<Rightarrow> 'k option \<Rightarrow> ('k, 'v) bucket option" where
  "deref s it = Option.bind it (map_of (cache_map s))"

definition set_next :: "'k::linorder option \<Rightarrow> 'k option \<Rightarrow> ('k, 'v) lru_cache \<Rightarrow> ('k, 'v) lru_cache option" where
  "set_next it n s = do {
     k \<leftarrow> it;
     b \<leftarrow> map_of (cache_map s) k;
     Some (s\<lparr>cache_map := smap_put k (b\<lparr>next_it := n\<rparr>) (cache_map s)\<rparr>) }"

definition set_previous :: "'k::linorder option \<Rightarrow> 'k option \<Rightarrow> ('k, 'v) lru_cache \<Rightarrow> ('k, 'v) lru_cache option" where
  "set_previous it p s = do {
     k \<leftarrow> it;
     b \<leftarrow> map_of (cache_map s) k;
     Some (s\<lparr>cache_map := smap_put k (b\<lparr>previous_it := p\<rparr>) (cache_map s)\<rparr>) }"

section \<open>Internal operations\<close>

text \<open>\<open>Promote\<close>: unlink the bucket and put it in front.\<close>

definition promote :: "'k::linorder \<Rightarrow> ('k, 'v) lru_cache \<Rightarrow> ('k, 'v) lru_cache option" where
  "promote it s =
     (if Some it = first_it s then Some s
      else do {
        b \<leftarrow> deref s (Some it);
        s \<leftarrow> set_next (previous_it b) (next_it b) s;
        b \<leftarrow> deref s (Some it);
        s \<leftarrow> (if next_it b \<noteq> None
              then set_previous (next_it b) (previous_it b) s
              else Some (s\<lparr>last_it := previous_it b\<rparr>));
        s \<leftarrow> set_previous (Some it) None s;
        s \<leftarrow> set_next (Some it) (first_it s) s;
        s \<leftarrow> set_previous (first_it s) (Some it) s;
        Some (s\<lparr>first_it := Some it\<rparr>) })"

text \<open>
  The private \<open>Erase\<close>: unlink the bucket, hand it to the eviction callback if asked to,
  remove it from the map and take its cost off.
\<close>

definition erase_bucket ::
  "('v \<Rightarrow> u64) \<Rightarrow> 'k::linorder \<Rightarrow> bool \<Rightarrow> ('k, 'v) lru_cache \<Rightarrow> (('k, 'v) lru_cache \<times> ('k \<times> 'v) list) option" where
  "erase_bucket cost it do_eviction_callback s = do {
     b \<leftarrow> deref s (Some it);
     let c = cost (bucket_value b);
     s \<leftarrow> (if next_it b = None
           then Some (s\<lparr>last_it := previous_it b\<rparr>)
           else set_previous (next_it b) (previous_it b) s);
     b \<leftarrow> deref s (Some it);
     s \<leftarrow> (if previous_it b = None
           then Some (s\<lparr>first_it := next_it b\<rparr>)
           else set_next (previous_it b) (next_it b) s);
     b \<leftarrow> deref s (Some it);
     Some (s\<lparr>cache_map := smap_del it (cache_map s), cache_size := cache_size s - c\<rparr>,
           if do_eviction_callback then [(it, bucket_value b)] else []) }"

definition pop_last ::
  "('v \<Rightarrow> u64) \<Rightarrow> ('k::linorder, 'v) lru_cache \<Rightarrow> (('k, 'v) lru_cache \<times> ('k \<times> 'v) list) option" where
  "pop_last cost s = do {
     l \<leftarrow> last_it s;
     b \<leftarrow> deref s (Some l);
     if next_it b = None then erase_bucket cost l True s else None }"

text \<open>Erasing removes a bucket that was there, so the eviction loop ends.\<close>

lemma set_next_shape:
  assumes "set_next it n s = Some s'"
  shows "length (cache_map s') = length (cache_map s)"
  using assms
  by (auto simp: set_next_def length_smap_put_present Option.bind_eq_Some_conv)

lemma set_previous_shape:
  assumes "set_previous it n s = Some s'"
  shows "length (cache_map s') = length (cache_map s)"
  using assms
  by (auto simp: set_previous_def length_smap_put_present Option.bind_eq_Some_conv)

lemma erase_bucket_shrinks:
  assumes "erase_bucket cost it cb s = Some (s', ev)"
  shows "length (cache_map s') < length (cache_map s)"
proof -
  from assms obtain b s1 b1 s2 b2
    where "deref s (Some it) = Some b" "deref s1 (Some it) = Some b1"
      and step: "(if next_it b = None then Some (s\<lparr>last_it := previous_it b\<rparr>)
            else set_previous (next_it b) (previous_it b) s) = Some s1"
        "(if previous_it b1 = None then Some (s1\<lparr>first_it := next_it b1\<rparr>)
            else set_next (previous_it b1) (next_it b1) s1) = Some s2"
      and d: "deref s2 (Some it) = Some b2"
      and eq: "Some (s2\<lparr>cache_map := smap_del it (cache_map s2),
                        cache_size := cache_size s2 - cost (bucket_value b)\<rparr>,
                    if cb then [(it, bucket_value b2)] else []) = Some (s', ev)"
    unfolding erase_bucket_def Let_def Option.bind_eq_Some_conv
    by blast
  from eq have s': "cache_map s' = smap_del it (cache_map s2)" by auto
  from step have "length (cache_map s1) = length (cache_map s)"
    "length (cache_map s2) = length (cache_map s1)"
    by (auto split: if_splits dest: set_next_shape set_previous_shape)
  moreover have "map_of (cache_map s2) it = Some b2"
    using d by (simp add: deref_def)
  ultimately show ?thesis
    using length_smap_del_less [of "cache_map s2" it b2] s' by simp
qed

lemma pop_last_shrinks:
  "pop_last cost s = Some (s', ev) \<Longrightarrow> length (cache_map s') < length (cache_map s)"
  by (auto simp: pop_last_def Option.bind_eq_Some_conv split: if_splits
      dest: erase_bucket_shrinks)

function (sequential) evict ::
  "('v \<Rightarrow> u64) \<Rightarrow> ('k::linorder, 'v) lru_cache \<Rightarrow> (('k, 'v) lru_cache \<times> ('k \<times> 'v) list) option" where
  "evict cost s =
     (if max_size s < cache_size s
      then (case pop_last cost s of
              None \<Rightarrow> None
            | Some (s1, ev) \<Rightarrow>
                (case evict cost s1 of
                   None \<Rightarrow> None
                 | Some (s2, evs) \<Rightarrow> Some (s2, ev @ evs)))
      else Some (s, []))"
  by pat_completeness auto
termination
  by (relation "measure (\<lambda>(cost, s). length (cache_map s))") (auto dest: pop_last_shrinks)

declare evict.simps [simp del]

text \<open>
  \<open>AddInternal\<close>: link a new bucket in front, or promote the one whose value changed, adjust
  the size and evict.
\<close>

definition add_internal ::
  "('v \<Rightarrow> u64) \<Rightarrow> 'k::linorder \<Rightarrow> u64 \<Rightarrow> u64 option \<Rightarrow> ('k, 'v) lru_cache \<Rightarrow>
   (('k, 'v) lru_cache \<times> ('k \<times> 'v) list) option" where
  "add_internal cost it c old_cost s = do {
     s \<leftarrow> (case old_cost of
            None \<Rightarrow>
              do {
                s \<leftarrow> (if length (cache_map s) = 1
                      then (if last_it s = None \<and> first_it s = None
                            then Some (s\<lparr>last_it := Some it, first_it := Some it\<rparr>)
                            else None)
                      else do {
                        s \<leftarrow> set_next (Some it) (first_it s) s;
                        s \<leftarrow> set_previous (first_it s) (Some it) s;
                        Some (s\<lparr>first_it := Some it\<rparr>) });
                Some (s\<lparr>cache_size := cache_size s + c\<rparr>) }
          | Some oc \<Rightarrow> promote it (s\<lparr>cache_size := cache_size s + (c - oc)\<rparr>));
     evict cost s }"

section \<open>Public operations\<close>

text \<open>
  Insertions return the new cache, the iterator and flag of the returned pair, and the evicted
  pairs. \<open>Insert\<close> does not touch a value that is already there, \<open>InsertOrAssign\<close> does.
\<close>

type_synonym ('k, 'v) insert_result =
  "(('k, 'v) lru_cache \<times> ('k option \<times> bool) \<times> ('k \<times> 'v) list) option"

definition lru_insert ::
  "('v \<Rightarrow> u64) \<Rightarrow> 'k::linorder \<Rightarrow> 'v \<Rightarrow> ('k, 'v) lru_cache \<Rightarrow> ('k, 'v) insert_result" where
  "lru_insert cost k v s =
     (let value_cost = cost v in
      if max_size s < value_cost then Some (s, (None, False), [])
      else if map_of (cache_map s) k = None
      then do {
        (s, ev) \<leftarrow> add_internal cost k value_cost None
          (s\<lparr>cache_map := smap_put k \<lparr>next_it = None, previous_it = None, bucket_value = v\<rparr>
                           (cache_map s)\<rparr>);
        Some (s, (Some k, True), ev) }
      else do {
        s \<leftarrow> promote k s;
        Some (s, (Some k, False), []) })"

definition lru_insert_or_assign ::
  "('v \<Rightarrow> u64) \<Rightarrow> 'k::linorder \<Rightarrow> 'v \<Rightarrow> ('k, 'v) lru_cache \<Rightarrow> ('k, 'v) insert_result" where
  "lru_insert_or_assign cost k v s =
     (case map_of (cache_map s) k of
        Some b \<Rightarrow>
          do {
            let old_cost = cost (bucket_value b);
            let new_cost = cost v;
            (s, ev) \<leftarrow> add_internal cost k new_cost (Some old_cost)
              (s\<lparr>cache_map := smap_put k (b\<lparr>bucket_value := v\<rparr>) (cache_map s)\<rparr>);
            Some (s, (Some k, False), ev) }
      | None \<Rightarrow>
          (let new_cost = cost v in
           if max_size s < new_cost then Some (s, (None, False), [])
           else do {
             (s, ev) \<leftarrow> add_internal cost k new_cost None
               (s\<lparr>cache_map := smap_put k \<lparr>next_it = None, previous_it = None, bucket_value = v\<rparr>
                                (cache_map s)\<rparr>);
             Some (s, (Some k, True), ev) }))"

definition lru_erase ::
  "('v \<Rightarrow> u64) \<Rightarrow> 'k::linorder \<Rightarrow> ('k, 'v) lru_cache \<Rightarrow> (('k, 'v) lru_cache \<times> bool) option" where
  "lru_erase cost k s =
     (if map_of (cache_map s) k = None then Some (s, False)
      else do {
        (s, _) \<leftarrow> erase_bucket cost k False s;
        Some (s, True) })"

text \<open>\<open>Erase(const_iterator&)\<close> advances the iterator before its element goes.\<close>

definition lru_erase_it ::
  "('v \<Rightarrow> u64) \<Rightarrow> 'k::linorder option \<Rightarrow> ('k, 'v) lru_cache \<Rightarrow> (('k, 'v) lru_cache \<times> 'k option) option" where
  "lru_erase_it cost it s = do {
     k \<leftarrow> it;
     b \<leftarrow> deref s it;
     (s, _) \<leftarrow> lru_erase cost k s;
     Some (s, next_it b) }"

definition lru_resize ::
  "('v \<Rightarrow> u64) \<Rightarrow> u64 \<Rightarrow> ('k::linorder, 'v) lru_cache \<Rightarrow> (('k, 'v) lru_cache \<times> ('k \<times> 'v) list) option" where
  "lru_resize cost sz s = evict cost (s\<lparr>max_size := sz\<rparr>)"

definition lru_find ::
  "'k::linorder \<Rightarrow> ('k, 'v) lru_cache \<Rightarrow> (('k, 'v) lru_cache \<times> 'k option) option" where
  "lru_find k s =
     (if map_of (cache_map s) k = None then Some (s, None)
      else do { s \<leftarrow> promote k s; Some (s, Some k) })"

definition lru_find_no_promote :: "'k \<Rightarrow> ('k, 'v) lru_cache \<Rightarrow> 'k option" where
  "lru_find_no_promote k s = (if map_of (cache_map s) k = None then None else Some k)"

definition lru_find_value ::
  "'k::linorder \<Rightarrow> 'v \<Rightarrow> ('k, 'v) lru_cache \<Rightarrow> (('k, 'v) lru_cache \<times> 'v) option" where
  "lru_find_value k null_value s = do {
     (s, it) \<leftarrow> lru_find k s;
     if it = None then Some (s, null_value)
     else do { b \<leftarrow> deref s it; Some (s, bucket_value b) } }"

definition lru_clear :: "('k, 'v) lru_cache \<Rightarrow> ('k, 'v) lru_cache" where
  "lru_clear s = s\<lparr>cache_map := [], first_it := None, last_it := None, cache_size := 0\<rparr>"

text \<open>
  Iteration: \<open>begin()\<close> is \<open>first_\<close>, \<open>++it\<close> follows \<open>next_\<close>, \<open>end()\<close> is \<^term>\<open>None\<close>.
  \<open>lru_items\<close> runs the iteration to the end; the fuel is the number of elements of the map,
  which the chain visits once each (lemma \<open>lru_items_rel\<close>).
\<close>

definition it_key :: "('k, 'v) lru_cache \<Rightarrow> 'k option \<Rightarrow> 'k option" where
  "it_key s it = (if deref s it = None then None else it)"

definition it_value :: "('k, 'v) lru_cache \<Rightarrow> 'k option \<Rightarrow> 'v option" where
  "it_value s it = map_option bucket_value (deref s it)"

definition it_advance :: "('k, 'v) lru_cache \<Rightarrow> 'k option \<Rightarrow> 'k option option" where
  "it_advance s it = map_option next_it (deref s it)"

fun walk :: "nat \<Rightarrow> ('k, 'v) lru_cache \<Rightarrow> 'k option \<Rightarrow> ('k \<times> 'v) list" where
  "walk 0 s it = []"
| "walk (Suc n) s it =
     (case it of
        None \<Rightarrow> []
      | Some k \<Rightarrow> (case deref s it of
                    None \<Rightarrow> []
                  | Some b \<Rightarrow> (k, bucket_value b) # walk n s (next_it b)))"

definition lru_items :: "('k, 'v) lru_cache \<Rightarrow> ('k \<times> 'v) list" where
  "lru_items s = walk (length (cache_map s)) s (first_it s)"

section \<open>Specification: a list in recency order\<close>

definition total :: "('v \<Rightarrow> u64) \<Rightarrow> ('k \<times> 'v) list \<Rightarrow> u64" where
  "total cost xs = sum_list (map (cost \<circ> snd) xs)"

lemma total_simps [simp]:
  "total cost [] = 0"
  "total cost (x # xs) = cost (snd x) + total cost xs"
  "total cost (xs @ ys) = total cost xs + total cost ys"
  by (simp_all add: total_def)

definition to_front :: "'k \<Rightarrow> 'v \<Rightarrow> ('k \<times> 'v) list \<Rightarrow> ('k \<times> 'v) list" where
  "to_front k v xs = (k, v) # filter (\<lambda>e. fst e \<noteq> k) xs"

function spec_evict :: "('v \<Rightarrow> u64) \<Rightarrow> u64 \<Rightarrow> ('k \<times> 'v) list \<Rightarrow> ('k \<times> 'v) list \<times> ('k \<times> 'v) list" where
  "spec_evict cost mx xs =
     (if xs \<noteq> [] \<and> mx < total cost xs
      then (let (ys, ev) = spec_evict cost mx (butlast xs) in (ys, last xs # ev))
      else (xs, []))"
  by pat_completeness auto
termination
  by (relation "measure (\<lambda>(cost, mx, xs). length xs)") auto

declare spec_evict.simps [simp del]

definition spec_insert ::
  "('v \<Rightarrow> u64) \<Rightarrow> u64 \<Rightarrow> 'k \<Rightarrow> 'v \<Rightarrow> ('k \<times> 'v) list \<Rightarrow>
   ('k \<times> 'v) list \<times> ('k option \<times> bool) \<times> ('k \<times> 'v) list" where
  "spec_insert cost mx k v xs =
     (if mx < cost v then (xs, (None, False), [])
      else case map_of xs k of
        None \<Rightarrow> (let (ys, ev) = spec_evict cost mx ((k, v) # xs) in (ys, (Some k, True), ev))
      | Some w \<Rightarrow> (to_front k w xs, (Some k, False), []))"

definition spec_assign ::
  "('v \<Rightarrow> u64) \<Rightarrow> u64 \<Rightarrow> 'k \<Rightarrow> 'v \<Rightarrow> ('k \<times> 'v) list \<Rightarrow>
   ('k \<times> 'v) list \<times> ('k option \<times> bool) \<times> ('k \<times> 'v) list" where
  "spec_assign cost mx k v xs =
     (case map_of xs k of
        Some w \<Rightarrow> (let (ys, ev) = spec_evict cost mx (to_front k v xs) in (ys, (Some k, False), ev))
      | None \<Rightarrow>
          (if mx < cost v then (xs, (None, False), [])
           else (let (ys, ev) = spec_evict cost mx ((k, v) # xs) in (ys, (Some k, True), ev))))"

definition spec_erase :: "'k \<Rightarrow> ('k \<times> 'v) list \<Rightarrow> ('k \<times> 'v) list" where
  "spec_erase k xs = filter (\<lambda>e. fst e \<noteq> k) xs"

definition spec_find :: "'k \<Rightarrow> ('k \<times> 'v) list \<Rightarrow> ('k \<times> 'v) list \<times> 'v option" where
  "spec_find k xs =
     (case map_of xs k of None \<Rightarrow> (xs, None) | Some v \<Rightarrow> (to_front k v xs, Some v))"

text \<open>
  Eviction keeps the longest prefix that fits and hands the rest to the callback, least recently
  used first.
\<close>

lemma spec_evict_result:
  assumes "spec_evict cost mx xs = (ys, ev)"
  shows "xs = ys @ rev ev \<and> total cost ys \<le> mx \<and>
         (\<forall>zs us. xs = zs @ us \<and> length ys < length zs \<longrightarrow> mx < total cost zs)"
  using assms
proof (induction cost mx xs arbitrary: ys ev rule: spec_evict.induct)
  case (1 cost mx xs)
  show ?case
  proof (cases "xs \<noteq> [] \<and> mx < total cost xs")
    case True
    obtain ys' ev' where e: "spec_evict cost mx (butlast xs) = (ys', ev')" by fastforce
    then have r: "ys = ys'" "ev = last xs # ev'"
      using "1.prems" True by (simp_all add: spec_evict.simps [of _ _ xs])
    note IH = "1.IH" [OF True e]
    have "xs = ys @ rev ev"
      using IH True r by (metis append_butlast_last_id append.assoc rev.simps(2))
    moreover have "mx < total cost zs" if "xs = zs @ us" "length ys < length zs" for zs us
    proof (cases us rule: rev_cases)
      case Nil
      then show ?thesis using that True by simp
    next
      case (snoc us' u)
      then have "butlast xs = zs @ us'" using that by (simp add: butlast_append)
      then show ?thesis using IH that r by blast
    qed
    ultimately show ?thesis using IH r by blast
  next
    case False
    then show ?thesis
      using "1.prems" by (auto simp: spec_evict.simps [of _ _ xs])
  qed
qed

lemma spec_evict_fits: "total cost xs \<le> mx \<Longrightarrow> spec_evict cost mx xs = (xs, [])"
  by (subst spec_evict.simps) auto

section \<open>The chain of buckets\<close>

definition hd_key :: "('k \<times> 'v) list \<Rightarrow> 'k option \<Rightarrow> 'k option" where
  "hd_key xs n = (case xs of [] \<Rightarrow> n | x # _ \<Rightarrow> Some (fst x))"

definition last_key :: "('k \<times> 'v) list \<Rightarrow> 'k option \<Rightarrow> 'k option" where
  "last_key xs p = (if xs = [] then p else Some (fst (last xs)))"

lemma hd_key_simps [simp]:
  "hd_key [] n = n"
  "hd_key (x # xs) n = Some (fst x)"
  "hd_key (xs @ ys) n = hd_key xs (hd_key ys n)"
  by (simp_all add: hd_key_def split: list.split)

lemma last_key_simps [simp]:
  "last_key [] p = p"
  "last_key (x # xs) p = last_key xs (Some (fst x))"
  "last_key (xs @ ys) p = last_key ys (last_key xs p)"
  by (simp_all add: last_key_def)

lemma hd_key_None: "hd_key xs None = None \<longleftrightarrow> xs = []"
  by (cases xs) simp_all

lemma last_key_None: "last_key xs None = None \<longleftrightarrow> xs = []"
  by (simp add: last_key_def)

lemma hd_key_mem: "hd_key xs None = Some k \<Longrightarrow> k \<in> fst ` set xs"
  by (cases xs) auto

lemma last_key_mem: "last_key xs None = Some k \<Longrightarrow> k \<in> fst ` set xs"
  by (auto simp: last_key_def split: if_splits)

lemma hd_key_relink:
  "(if last_key xs None = None then hd_key ys None else hd_key (xs @ (k, v) # ys) None) =
   hd_key (xs @ ys) None"
  by (cases xs) (simp_all add: last_key_def)

lemma last_key_relink:
  "(if hd_key ys None = None then last_key xs None else last_key (xs @ (k, v) # ys) None) =
   last_key (xs @ ys) None"
  by (cases ys) (simp_all add: last_key_def)

fun chain :: "('k \<rightharpoonup> ('k, 'v) bucket) \<Rightarrow> 'k option \<Rightarrow> ('k \<times> 'v) list \<Rightarrow> 'k option \<Rightarrow> bool" where
  "chain m p [] n = True"
| "chain m p (x # xs) n =
     (m (fst x) = Some \<lparr>next_it = hd_key xs n, previous_it = p, bucket_value = snd x\<rparr> \<and>
      chain m (Some (fst x)) xs n)"

lemma chain_append [simp]:
  "chain m p (xs @ ys) n \<longleftrightarrow> chain m p xs (hd_key ys n) \<and> chain m (last_key xs p) ys n"
  by (induction xs arbitrary: p) auto

lemma chain_cong:
  "(\<And>k. k \<in> fst ` set xs \<Longrightarrow> m' k = m k) \<Longrightarrow> chain m' p xs n = chain m p xs n"
  by (induction xs arbitrary: p) auto

lemma chain_upd_fresh:
  "k \<notin> fst ` set xs \<Longrightarrow> chain (m(k := b)) p xs n = chain m p xs n"
  by (rule chain_cong) auto

text \<open>The two pointer writes, on maps; writing through \<open>end()\<close> is excluded by the callers.\<close>

definition upd_next :: "'k option \<Rightarrow> 'k option \<Rightarrow> ('k \<rightharpoonup> ('k, 'v) bucket) \<Rightarrow> ('k \<rightharpoonup> ('k, 'v) bucket)" where
  "upd_next it n m =
     (case it of None \<Rightarrow> m | Some k \<Rightarrow> m(k := map_option (\<lambda>b. b\<lparr>next_it := n\<rparr>) (m k)))"

definition upd_previous :: "'k option \<Rightarrow> 'k option \<Rightarrow> ('k \<rightharpoonup> ('k, 'v) bucket) \<Rightarrow> ('k \<rightharpoonup> ('k, 'v) bucket)" where
  "upd_previous it p m =
     (case it of None \<Rightarrow> m | Some k \<Rightarrow> m(k := map_option (\<lambda>b. b\<lparr>previous_it := p\<rparr>) (m k)))"

lemma upd_simps [simp]:
  "upd_next None n m = m"
  "upd_next (Some k) n m = m(k := map_option (\<lambda>b. b\<lparr>next_it := n\<rparr>) (m k))"
  "upd_previous None n m = m"
  "upd_previous (Some k) n m = m(k := map_option (\<lambda>b. b\<lparr>previous_it := n\<rparr>) (m k))"
  by (simp_all add: upd_next_def upd_previous_def)

lemma dom_upd [simp]:
  "dom (upd_next it n m) = dom m"
  "dom (upd_previous it n m) = dom m"
  by (auto simp: upd_next_def upd_previous_def split: option.splits if_splits)

lemma upd_other:
  "it \<noteq> Some k \<Longrightarrow> upd_next it n m k = m k"
  "it \<noteq> Some k \<Longrightarrow> upd_previous it n m k = m k"
  by (auto simp: upd_next_def upd_previous_def split: option.splits)

lemma chain_upd_other:
  "(\<And>k. it = Some k \<Longrightarrow> k \<notin> fst ` set xs) \<Longrightarrow> chain (upd_next it n' m) p xs n = chain m p xs n"
  "(\<And>k. it = Some k \<Longrightarrow> k \<notin> fst ` set xs) \<Longrightarrow> chain (upd_previous it n' m) p xs n = chain m p xs n"
  by (rule chain_cong, metis upd_other)+

lemma chain_upd_next:
  assumes "chain m p xs n" and "distinct (map fst xs)"
  shows "chain (upd_next (last_key xs None) n' m) p xs n'"
proof (cases xs rule: rev_cases)
  case Nil
  then show ?thesis by simp
next
  case (snoc ys y)
  then have y: "fst y \<notin> fst ` set ys" using assms(2) by auto
  have "chain (upd_next (Some (fst y)) n' m) p ys (Some (fst y))"
    using assms(1) snoc y by (subst chain_upd_other) auto
  then show ?thesis using assms(1) snoc by simp
qed

lemma chain_upd_previous:
  assumes "chain m p xs n" and "distinct (map fst xs)"
  shows "chain (upd_previous (hd_key xs None) p' m) p' xs n"
proof (cases xs)
  case Nil
  then show ?thesis by simp
next
  case (Cons y ys)
  then have "fst y \<notin> fst ` set ys" using assms(2) by simp
  then have "chain (upd_previous (Some (fst y)) p' m) (Some (fst y)) ys n"
    using assms(1) Cons by (subst chain_upd_other) auto
  then show ?thesis using assms(1) Cons by simp
qed

text \<open>Taking an element out of the chain re-links its neighbours.\<close>

lemma chain_unlink:
  assumes c: "chain m None (xs @ (k, v) # ys) None"
    and d: "distinct (map fst (xs @ (k, v) # ys))"
  shows "chain (upd_next (last_key xs None) (hd_key ys None)
                 (upd_previous (hd_key ys None) (last_key xs None) m)) None (xs @ ys) None"
    and "chain (upd_previous (hd_key ys None) (last_key xs None)
                 (upd_next (last_key xs None) (hd_key ys None) m)) None (xs @ ys) None"
proof -
  have xs: "chain m None xs (Some k)" and ys: "chain m (Some k) ys None"
    using c by simp_all
  have dx: "distinct (map fst xs)" and dy: "distinct (map fst ys)"
    and disj: "fst ` set xs \<inter> fst ` set ys = {}"
    using d by auto
  let ?n = "hd_key ys None" and ?p = "last_key xs None"
  have ny: "\<And>k. ?n = Some k \<Longrightarrow> k \<notin> fst ` set xs" and px: "\<And>k. ?p = Some k \<Longrightarrow> k \<notin> fst ` set ys"
    using disj by (auto dest: hd_key_mem last_key_mem)
  have x1: "chain (upd_previous ?n ?p m) None xs (Some k)"
    using xs ny by (simp add: chain_upd_other)
  have y1: "chain (upd_next ?p ?n m) (Some k) ys None"
    using ys px by (simp add: chain_upd_other)
  show "chain (upd_next ?p ?n (upd_previous ?n ?p m)) None (xs @ ys) None"
    using chain_upd_next [OF x1 dx] chain_upd_previous [OF ys dy] px
    by (simp add: chain_upd_other)
  show "chain (upd_previous ?n ?p (upd_next ?p ?n m)) None (xs @ ys) None"
    using chain_upd_next [OF xs dx] chain_upd_previous [OF y1 dy] ny
    by (simp add: chain_upd_other)
qed

section \<open>The abstraction relation\<close>

text \<open>
  \<open>lru_rel cost s xs\<close>: the buckets of \<open>s\<close> form one chain from \<open>first_\<close> to \<open>last_\<close> that visits
  every element of the map once and carries the pairs \<open>xs\<close>, and \<open>size_\<close> is their total cost.
\<close>

definition lru_rel :: "('v \<Rightarrow> u64) \<Rightarrow> ('k::linorder, 'v) lru_cache \<Rightarrow> ('k \<times> 'v) list \<Rightarrow> bool" where
  "lru_rel cost s xs \<longleftrightarrow>
     smap_wf (cache_map s) \<and> distinct (map fst xs) \<and>
     dom (map_of (cache_map s)) = fst ` set xs \<and>
     chain (map_of (cache_map s)) None xs None \<and>
     first_it s = hd_key xs None \<and> last_it s = last_key xs None \<and>
     cache_size s = total cost xs"

lemma lru_rel_new: "lru_rel cost (lru_new mx) []"
  by (simp add: lru_rel_def lru_new_def)

lemma lru_rel_clear: "lru_rel cost (lru_clear s) []"
  by (simp add: lru_rel_def lru_clear_def)

lemma lru_rel_lookup:
  assumes "lru_rel cost s (xs @ (k, v) # ys)"
  shows "map_of (cache_map s) k =
         Some \<lparr>next_it = hd_key ys None, previous_it = last_key xs None, bucket_value = v\<rparr>"
  using assms by (simp add: lru_rel_def)

lemma lru_rel_None: "lru_rel cost s xs \<Longrightarrow> map_of (cache_map s) k = None \<longleftrightarrow> map_of xs k = None"
  by (simp add: lru_rel_def dom_map_of_conv_image_fst map_of_eq_None_iff)

lemma lru_rel_value:
  assumes "lru_rel cost s xs"
  shows "map_option bucket_value (map_of (cache_map s) k) = map_of xs k"
proof (cases "map_of xs k")
  case None
  then show ?thesis using lru_rel_None [OF assms] by simp
next
  case (Some v)
  from split_list_at_fst [OF Some] obtain ys zs where xs: "xs = ys @ (k, v) # zs"
    by (elim exE conjE)
  have "lru_rel cost s (ys @ (k, v) # zs)" using assms unfolding xs .
  then show ?thesis using Some by (simp add: lru_rel_lookup)
qed

lemma dom_eq_None: "dom f = dom g \<Longrightarrow> f j = None \<longleftrightarrow> g j = None"
  by (metis domIff)

definition same_rest :: "('k::linorder, 'v) lru_cache \<Rightarrow> ('k, 'v) lru_cache \<Rightarrow> bool" where
  "same_rest s s' \<longleftrightarrow>
     max_size s' = max_size s \<and> cache_size s' = cache_size s \<and>
     (smap_wf (cache_map s) \<longrightarrow> smap_wf (cache_map s'))"

lemma set_next_eq:
  "map_of (cache_map s) k \<noteq> None \<Longrightarrow>
   \<exists>s'. set_next (Some k) n s = Some s' \<and> same_rest s s' \<and>
        first_it s' = first_it s \<and> last_it s' = last_it s \<and>
        map_of (cache_map s') = upd_next (Some k) n (map_of (cache_map s))"
  by (auto simp: set_next_def fun_eq_iff same_rest_def)

lemma set_previous_eq:
  "map_of (cache_map s) k \<noteq> None \<Longrightarrow>
   \<exists>s'. set_previous (Some k) n s = Some s' \<and> same_rest s s' \<and>
        first_it s' = first_it s \<and> last_it s' = last_it s \<and>
        map_of (cache_map s') = upd_previous (Some k) n (map_of (cache_map s))"
  by (auto simp: set_previous_def fun_eq_iff same_rest_def)

text \<open>
  The two conditional writes of \<open>Erase\<close> and \<open>Promote\<close>: through the iterator, or to the end of
  the list when it is \<open>end()\<close>.
\<close>

lemma relink_previous:
  assumes "\<And>k. it = Some k \<Longrightarrow> map_of (cache_map s) k \<noteq> None"
  shows "\<exists>s'. (if it = None then Some (s\<lparr>last_it := p\<rparr>) else set_previous it p s) = Some s' \<and>
              (if it \<noteq> None then set_previous it p s else Some (s\<lparr>last_it := p\<rparr>)) = Some s' \<and>
              same_rest s s' \<and> first_it s' = first_it s \<and>
              last_it s' = (if it = None then p else last_it s) \<and>
              map_of (cache_map s') = upd_previous it p (map_of (cache_map s))"
proof (cases it)
  case None
  then show ?thesis by (simp add: same_rest_def)
next
  case (Some k)
  then show ?thesis using set_previous_eq [OF assms [OF Some], of p] by auto
qed

lemma relink_next:
  assumes "\<And>k. it = Some k \<Longrightarrow> map_of (cache_map s) k \<noteq> None"
  shows "\<exists>s'. (if it = None then Some (s\<lparr>first_it := n\<rparr>) else set_next it n s) = Some s' \<and>
              same_rest s s' \<and> last_it s' = last_it s \<and>
              first_it s' = (if it = None then n else first_it s) \<and>
              map_of (cache_map s') = upd_next it n (map_of (cache_map s))"
proof (cases it)
  case None
  then show ?thesis by (simp add: same_rest_def)
next
  case (Some k)
  then show ?thesis using set_next_eq [OF assms [OF Some], of n] by auto
qed

lemma erase_bucket_rel:
  assumes r: "lru_rel cost s (xs @ (k, v) # ys)"
  shows "\<exists>s'. erase_bucket cost k cb s = Some (s', if cb then [(k, v)] else []) \<and>
              lru_rel cost s' (xs @ ys) \<and> max_size s' = max_size s"
proof -
  let ?n = "hd_key ys None" and ?p = "last_key xs None"
  let ?b = "\<lparr>next_it = ?n, previous_it = ?p, bucket_value = v\<rparr>"
  let ?m = "map_of (cache_map s)"
  have b: "?m k = Some ?b" using r by (rule lru_rel_lookup)
  have d: "distinct (map fst (xs @ (k, v) # ys))" and dom: "dom ?m = fst ` set (xs @ (k, v) # ys)"
    and wf: "smap_wf (cache_map s)" and ch: "chain ?m None (xs @ (k, v) # ys) None"
    using r by (simp_all add: lru_rel_def)
  have n: "?n \<noteq> Some k" "\<And>j. ?n = Some j \<Longrightarrow> ?m j \<noteq> None"
    and p: "?p \<noteq> Some k" "\<And>j. ?p = Some j \<Longrightarrow> ?m j \<noteq> None"
    using d dom by (auto dest!: hd_key_mem last_key_mem)
  obtain s1 where s1: "(if ?n = None then Some (s\<lparr>last_it := ?p\<rparr>) else set_previous ?n ?p s) = Some s1"
      "same_rest s s1" "first_it s1 = first_it s" "last_it s1 = (if ?n = None then ?p else last_it s)"
    and mo1: "map_of (cache_map s1) = upd_previous ?n ?p ?m"
    using relink_previous [of ?n s ?p] n(2) by blast
  have p1: "\<And>j. ?p = Some j \<Longrightarrow> map_of (cache_map s1) j \<noteq> None"
    using p(2) dom_eq_None [of "map_of (cache_map s1)" ?m] by (simp add: mo1)
  obtain s2 where s2: "(if ?p = None then Some (s1\<lparr>first_it := ?n\<rparr>) else set_next ?p ?n s1) = Some s2"
      "same_rest s1 s2" "last_it s2 = last_it s1" "first_it s2 = (if ?p = None then ?n else first_it s1)"
    and mo2: "map_of (cache_map s2) = upd_next ?p ?n (map_of (cache_map s1))"
    using relink_next [of ?p s1 ?n] p1 by blast
  have b1: "map_of (cache_map s1) k = Some ?b" using b n(1) mo1 upd_other(2) by metis
  have b2: "map_of (cache_map s2) k = Some ?b" using b1 p(1) mo2 upd_other(1) by metis
  let ?s' = "s2\<lparr>cache_map := smap_del k (cache_map s2), cache_size := cache_size s2 - cost v\<rparr>"
  have e: "erase_bucket cost k cb s = Some (?s', if cb then [(k, v)] else [])"
    by (simp add: erase_bucket_def deref_def b b1 b2 Let_def s1(1) s2(1)
        split del: if_split cong del: if_weak_cong)
  have "chain (map_of (cache_map s2)) None (xs @ ys) None"
    unfolding mo2 mo1 using ch d by (rule chain_unlink(1))
  then have ch': "chain (map_of (smap_del k (cache_map s2))) None (xs @ ys) None"
    using d by (subst chain_cong [where m = "map_of (cache_map s2)"]) auto
  have "dom (map_of (cache_map s2)) = fst ` set (xs @ (k, v) # ys)"
    using dom by (simp add: mo2 mo1)
  then have dom': "dom (map_of (smap_del k (cache_map s2))) = fst ` set (xs @ ys)"
    using d by auto
  have "cache_size ?s' = total cost (xs @ ys)" "smap_wf (cache_map ?s')" "max_size ?s' = max_size s"
    using r s1(2) s2(2) by (simp_all add: same_rest_def lru_rel_def)
  moreover have "first_it s2 = hd_key (xs @ ys) None" "last_it s2 = last_key (xs @ ys) None"
    using r s1(3,4) s2(3,4) hd_key_relink [of xs ys k v] last_key_relink [of ys xs k v]
    by (simp_all only: lru_rel_def)
  ultimately have "lru_rel cost ?s' (xs @ ys)" "max_size ?s' = max_size s"
    using d ch' dom' unfolding lru_rel_def by simp_all
  with e show ?thesis by blast
qed

lemma promote_rel:
  assumes r: "lru_rel cost s (xs @ (k, v) # ys)"
  shows "\<exists>s'. promote k s = Some s' \<and> lru_rel cost s' ((k, v) # xs @ ys) \<and> max_size s' = max_size s"
proof (cases xs)
  case Nil
  then show ?thesis using r by (intro exI [of _ s]) (simp add: promote_def lru_rel_def)
next
  case (Cons x xs')
  let ?n = "hd_key ys None" and ?p = "last_key xs None" and ?f = "fst x"
  let ?b = "\<lparr>next_it = ?n, previous_it = ?p, bucket_value = v\<rparr>"
  let ?m = "map_of (cache_map s)"
  have b: "?m k = Some ?b" using r by (rule lru_rel_lookup)
  have d: "distinct (map fst (xs @ (k, v) # ys))" and dom: "dom ?m = fst ` set (xs @ (k, v) # ys)"
    and wf: "smap_wf (cache_map s)" and ch: "chain ?m None (xs @ (k, v) # ys) None"
    and f: "first_it s = Some ?f"
    using r Cons by (simp_all add: lru_rel_def)
  obtain q where q: "?p = Some q" using Cons last_key_None [of xs] by fastforce
  then have "q \<in> fst ` set xs" by (rule last_key_mem)
  then have p: "q \<noteq> k" "?m q \<noteq> None" using d dom by auto
  have n: "?n \<noteq> Some k" "\<And>j. ?n = Some j \<Longrightarrow> ?m j \<noteq> None"
    and fk: "?f \<noteq> k" "?m ?f \<noteq> None"
    using d dom Cons by (auto dest!: hd_key_mem)
  obtain s1 where s1: "set_next (Some q) ?n s = Some s1" "same_rest s s1"
      "first_it s1 = first_it s" "last_it s1 = last_it s"
    and mo1: "map_of (cache_map s1) = upd_next ?p ?n ?m"
    using set_next_eq [OF p(2)] q by metis
  have b1: "map_of (cache_map s1) k = Some ?b"
    using b p(1) mo1 q upd_other(1) by (metis option.inject)
  have n1: "\<And>j. ?n = Some j \<Longrightarrow> map_of (cache_map s1) j \<noteq> None"
    using n(2) dom_eq_None [of "map_of (cache_map s1)" ?m] by (simp add: mo1)
  obtain s2 where s2: "(if ?n \<noteq> None then set_previous ?n ?p s1 else Some (s1\<lparr>last_it := ?p\<rparr>)) = Some s2"
      "same_rest s1 s2" "first_it s2 = first_it s1" "last_it s2 = (if ?n = None then ?p else last_it s1)"
    and mo2: "map_of (cache_map s2) = upd_previous ?n ?p (map_of (cache_map s1))"
    using relink_previous [of ?n s1 ?p] n1 by blast
  have b2: "map_of (cache_map s2) k = Some ?b" using b1 n(1) mo2 upd_other(2) by metis
  have dom2: "dom (map_of (cache_map s2)) = fst ` set (xs @ (k, v) # ys)"
    using dom by (simp add: mo2 mo1)
  have ch2: "chain (map_of (cache_map s2)) None (xs @ ys) None"
    unfolding mo2 mo1 using ch d by (rule chain_unlink(2))
  obtain s3 where s3: "set_previous (Some k) None s2 = Some s3" "same_rest s2 s3"
      "first_it s3 = first_it s2" "last_it s3 = last_it s2"
    and mo3: "map_of (cache_map s3) = upd_previous (Some k) None (map_of (cache_map s2))"
    using set_previous_eq [of s2 k None] b2 by auto
  obtain s4 where s4: "set_next (Some k) (first_it s3) s3 = Some s4" "same_rest s3 s4"
      "first_it s4 = first_it s3" "last_it s4 = last_it s3"
    and mo4: "map_of (cache_map s4) = upd_next (Some k) (first_it s3) (map_of (cache_map s3))"
    using set_next_eq [of s3 k "first_it s3"] b2 mo3 by auto
  have f4: "map_of (cache_map s4) ?f \<noteq> None"
    using fk dom2 Cons dom_eq_None [of "map_of (cache_map s4)" ?m]
    by (simp add: mo4 mo3 mo2 mo1 del: upd_simps)
  obtain s5 where s5: "set_previous (Some ?f) (Some k) s4 = Some s5" "same_rest s4 s5"
      "first_it s5 = first_it s4" "last_it s5 = last_it s4"
    and mo5: "map_of (cache_map s5) = upd_previous (Some ?f) (Some k) (map_of (cache_map s4))"
    using set_previous_eq [of s4 ?f "Some k"] f4 by auto
  have firsts: "first_it s3 = Some ?f" "first_it s4 = Some ?f" using f s1 s2 s3 s4 by simp_all
  let ?s' = "s5\<lparr>first_it := Some k\<rparr>"
  have e: "promote k s = Some ?s'"
    using f fk(1) s4(1) s5(1) q s1(1) s2(1) s3(1)
    by (simp add: promote_def deref_def b b1 b2 firsts split del: if_split cong del: if_weak_cong)
  have k5: "map_of (cache_map s5) k = Some \<lparr>next_it = Some ?f, previous_it = None, bucket_value = v\<rparr>"
    using b2 fk by (simp add: mo5 mo4 mo3 firsts)
  have "chain (map_of (cache_map s4)) None (xs @ ys) None"
    using ch2 d by (subst chain_cong [where m = "map_of (cache_map s2)"]) (auto simp: mo4 mo3 firsts)
  from chain_upd_previous [OF this, of "Some k"]
  have "chain (map_of (cache_map s5)) (Some k) (xs @ ys) None"
    using d Cons mo5 by auto
  moreover have "dom (map_of (cache_map s5)) = fst ` set (xs @ (k, v) # ys)"
    using dom2 by (simp add: mo5 mo4 mo3 del: upd_simps)
  moreover have "smap_wf (cache_map s5)" "max_size ?s' = max_size s" "cache_size s5 = cache_size s"
    using r s1(2) s2(2) s3(2) s4(2) s5(2) by (simp_all add: same_rest_def lru_rel_def)
  moreover have "last_it s5 = last_key (xs @ ys) None"
    using r s1(4) s2(4) s3(4) s4(4) s5(4) last_key_relink [of ys xs k v]
    by (simp only: lru_rel_def)
  then have "last_it s5 = last_key ((k, v) # xs @ ys) None" using Cons by (simp add: last_key_def)
  ultimately have "lru_rel cost ?s' ((k, v) # xs @ ys)" "max_size ?s' = max_size s"
    using r d k5 Cons by (auto simp: lru_rel_def)
  with e show ?thesis by blast
qed

lemma pop_last_rel:
  assumes "lru_rel cost s (xs @ [(k, v)])"
  shows "\<exists>s'. pop_last cost s = Some (s', [(k, v)]) \<and> lru_rel cost s' xs \<and> max_size s' = max_size s"
proof -
  have "last_it s = Some k" using assms by (simp add: lru_rel_def)
  moreover have "map_of (cache_map s) k =
      Some \<lparr>next_it = None, previous_it = last_key xs None, bucket_value = v\<rparr>"
    using lru_rel_lookup [of cost s xs k v "[]"] assms by simp
  ultimately show ?thesis
    using erase_bucket_rel [of cost s xs k v "[]" True] assms
    by (simp add: pop_last_def deref_def)
qed

lemma evict_rel:
  assumes "lru_rel cost s xs"
  shows "\<exists>s'. evict cost s = Some (s', snd (spec_evict cost (max_size s) xs)) \<and>
              lru_rel cost s' (fst (spec_evict cost (max_size s) xs)) \<and> max_size s' = max_size s"
  using assms
proof (induction "length xs" arbitrary: s xs)
  case 0
  then show ?case
    by (subst evict.simps, subst (1 2) spec_evict.simps) (auto simp: lru_rel_def)
next
  case (Suc n)
  have sz: "cache_size s = total cost xs" using Suc.prems by (simp add: lru_rel_def)
  show ?case
  proof (cases "max_size s < total cost xs")
    case False
    then show ?thesis
      using Suc.prems sz
      by (subst evict.simps, subst (1 2) spec_evict.simps) auto
  next
    case True
    obtain ys k v where xs: "xs = ys @ [(k, v)]"
      using Suc.hyps(2) by (cases xs rule: rev_cases) auto
    obtain s1 where s1: "pop_last cost s = Some (s1, [(k, v)])" "lru_rel cost s1 ys"
      "max_size s1 = max_size s"
      using pop_last_rel [of cost s ys k v] Suc.prems xs by auto
    obtain s2 where s2: "evict cost s1 = Some (s2, snd (spec_evict cost (max_size s) ys))"
      "lru_rel cost s2 (fst (spec_evict cost (max_size s) ys))" "max_size s2 = max_size s"
      using Suc.hyps(1) [of ys s1] Suc.hyps(2) s1 xs by auto
    have e: "evict cost s = Some (s2, (k, v) # snd (spec_evict cost (max_size s) ys))"
      using True sz s1 s2 by (subst evict.simps) simp
    have "spec_evict cost (max_size s) xs =
        (fst (spec_evict cost (max_size s) ys), (k, v) # snd (spec_evict cost (max_size s) ys))"
      using True xs by (subst spec_evict.simps) (auto simp: case_prod_beta)
    then show ?thesis using e s2 by simp
  qed
qed

text \<open>Linking a new bucket in front.\<close>

lemma link_new_rel:
  assumes r: "lru_rel cost s xs" and k: "map_of (cache_map s) k = None"
  shows "\<exists>s'. add_internal cost k (cost v) None
                (s\<lparr>cache_map := smap_put k \<lparr>next_it = None, previous_it = None, bucket_value = v\<rparr>
                                  (cache_map s)\<rparr>) = evict cost s' \<and>
              lru_rel cost s' ((k, v) # xs) \<and> max_size s' = max_size s"
proof -
  let ?b = "\<lparr>next_it = None, previous_it = None, bucket_value = v\<rparr>"
  let ?s0 = "s\<lparr>cache_map := smap_put k ?b (cache_map s)\<rparr>"
  have kx: "k \<notin> fst ` set xs" and d: "distinct (map fst xs)" and wf: "smap_wf (cache_map s)"
    and dom: "dom (map_of (cache_map s)) = fst ` set xs"
    using r k by (auto simp: lru_rel_def domIff)
  have dom0: "dom (map_of (cache_map ?s0)) = fst ` set ((k, v) # xs)" using dom by simp
  have ch0: "chain (map_of (cache_map ?s0)) None xs None"
    using r kx by (subst chain_cong [where m = "map_of (cache_map s)"]) (auto simp: lru_rel_def)
  have len: "length (cache_map ?s0) = Suc (length xs)"
  proof -
    have "length (cache_map ?s0) = card (fst ` set ((k, v) # xs))"
      using length_eq_card_dom [of "cache_map ?s0"] wf dom0 by simp
    also have "\<dots> = Suc (length xs)"
      using kx d by (simp add: card_image distinct_map distinct_card)
    finally show ?thesis .
  qed
  show ?thesis
  proof (cases xs)
    case Nil
    let ?s' = "?s0\<lparr>last_it := Some k, first_it := Some k, cache_size := cache_size s + cost v\<rparr>"
    have "add_internal cost k (cost v) None ?s0 = evict cost ?s'"
      using r Nil len by (simp add: add_internal_def lru_rel_def)
    moreover have "lru_rel cost ?s' ((k, v) # xs)"
      using r Nil wf by (simp add: lru_rel_def)
    ultimately show ?thesis by (intro exI [of _ ?s']) simp
  next
    case (Cons x xs')
    let ?f = "fst x"
    have f: "first_it ?s0 = Some ?f" using r Cons by (simp add: lru_rel_def)
    obtain s1 where s1: "set_next (Some k) (Some ?f) ?s0 = Some s1" "same_rest ?s0 s1"
        "first_it s1 = first_it ?s0" "last_it s1 = last_it ?s0"
      and mo1: "map_of (cache_map s1) = upd_next (Some k) (Some ?f) (map_of (cache_map ?s0))"
      using set_next_eq [of ?s0 k "Some ?f"] by auto
    have "map_of (cache_map s1) ?f \<noteq> None"
      using dom0 Cons dom_eq_None [of "map_of (cache_map s1)" "map_of (cache_map ?s0)" ?f]
      by (auto simp: mo1 domIff simp del: upd_simps)
    then obtain s2 where s2: "set_previous (Some ?f) (Some k) s1 = Some s2" "same_rest s1 s2"
        "first_it s2 = first_it s1" "last_it s2 = last_it s1"
      and mo2: "map_of (cache_map s2) = upd_previous (Some ?f) (Some k) (map_of (cache_map s1))"
      using set_previous_eq [of s1 ?f "Some k"] by auto
    let ?s' = "s2\<lparr>first_it := Some k, cache_size := cache_size s2 + cost v\<rparr>"
    have e: "add_internal cost k (cost v) None ?s0 = evict cost ?s'"
      using s1(1) s1(3) s2(1) s2(3) f len Cons by (simp add: add_internal_def)
    have fk: "?f \<noteq> k" using kx Cons by auto
    have "chain (map_of (cache_map s1)) None xs None"
      using ch0 kx by (subst chain_cong [where m = "map_of (cache_map ?s0)"]) (auto simp: mo1)
    from chain_upd_previous [OF this, of "Some k"]
    have "chain (map_of (cache_map s2)) (Some k) xs None"
      using d Cons mo2 by auto
    moreover have "map_of (cache_map s2) k =
        Some \<lparr>next_it = hd_key xs None, previous_it = None, bucket_value = v\<rparr>"
      using fk Cons by (simp add: mo2 mo1)
    moreover have "dom (map_of (cache_map s2)) = fst ` set ((k, v) # xs)"
      using dom0 by (simp add: mo2 mo1 del: upd_simps)
    moreover have "smap_wf (cache_map s2)" "max_size s2 = max_size s" "cache_size s2 = cache_size s"
      using wf s1(2) s2(2) by (simp_all add: same_rest_def)
    moreover have "last_it s2 = last_key ((k, v) # xs) None"
      using r s1(4) s2(4) Cons by (simp add: lru_rel_def last_key_def)
    ultimately have "lru_rel cost ?s' ((k, v) # xs)" "max_size ?s' = max_size s"
      using r d kx by (auto simp: lru_rel_def)
    with e show ?thesis by blast
  qed
qed

section \<open>Every public operation refines its specification\<close>

lemma to_front_split:
  "distinct (map fst (xs @ (k, w) # ys)) \<Longrightarrow> to_front k v (xs @ (k, w) # ys) = (k, v) # xs @ ys"
  unfolding to_front_def by (simp only: filter_fst_neq_split)

lemma lru_rel_distinct: "lru_rel cost s xs \<Longrightarrow> distinct (map fst xs)"
  by (simp add: lru_rel_def)

lemma lru_rel_split:
  assumes "lru_rel cost s xs" and "map_of xs k = Some v"
  obtains ys zs where "xs = ys @ (k, v) # zs" "lru_rel cost s (ys @ (k, v) # zs)"
    "\<And>w. to_front k w xs = (k, w) # ys @ zs" "spec_erase k xs = ys @ zs"
proof -
  obtain ys zs where xs: "xs = ys @ (k, v) # zs"
    using split_list_at_fst [OF assms(2)] by (elim exE conjE)
  show thesis
    using that [OF xs] assms(1) lru_rel_distinct [OF assms(1)]
    unfolding xs spec_erase_def by (metis to_front_split filter_fst_neq_split)
qed

lemma promote_to_front:
  assumes "lru_rel cost s xs" and "map_of xs k = Some v"
  shows "\<exists>s'. promote k s = Some s' \<and> lru_rel cost s' (to_front k v xs) \<and> max_size s' = max_size s"
proof -
  obtain ys zs where "lru_rel cost s (ys @ (k, v) # zs)" "to_front k v xs = (k, v) # ys @ zs"
    using lru_rel_split [OF assms] by blast
  then show ?thesis using promote_rel [of cost s ys k v zs] by simp
qed

lemma new_value_rel:
  assumes r: "lru_rel cost s (xs @ (k, w) # ys)" and b: "map_of (cache_map s) k = Some b"
  shows "lru_rel cost (s\<lparr>cache_map := smap_put k (b\<lparr>bucket_value := v\<rparr>) (cache_map s),
                        cache_size := cache_size s + (cost v - cost w)\<rparr>) (xs @ (k, v) # ys)"
proof -
  let ?m = "map_of (cache_map s)"
  have b': "b = \<lparr>next_it = hd_key ys None, previous_it = last_key xs None, bucket_value = w\<rparr>"
    using lru_rel_lookup [OF r] b by simp
  have d: "distinct (map fst (xs @ (k, w) # ys))" using r by (rule lru_rel_distinct)
  have "chain (?m(k \<mapsto> b\<lparr>bucket_value := v\<rparr>)) None (xs @ (k, v) # ys) None"
    using r d by (simp add: lru_rel_def b' chain_upd_fresh)
  then show ?thesis using r by (auto simp: lru_rel_def)
qed

theorem lru_insert_refines:
  assumes r: "lru_rel cost s xs"
  shows "\<exists>s'. lru_insert cost k v s = Some (s', snd (spec_insert cost (max_size s) k v xs)) \<and>
              lru_rel cost s' (fst (spec_insert cost (max_size s) k v xs)) \<and> max_size s' = max_size s"
proof (cases "map_of xs k")
  case None
  then have k: "map_of (cache_map s) k = None" using lru_rel_None [OF r] by blast
  obtain s1 where "add_internal cost k (cost v) None
        (s\<lparr>cache_map := smap_put k \<lparr>next_it = None, previous_it = None, bucket_value = v\<rparr>
                          (cache_map s)\<rparr>) = evict cost s1"
      "lru_rel cost s1 ((k, v) # xs)" "max_size s1 = max_size s"
    using link_new_rel [OF r k] by blast
  then show ?thesis
    using evict_rel [of cost s1 "(k, v) # xs"] r None k
    by (auto simp: lru_insert_def spec_insert_def Let_def case_prod_beta)
next
  case (Some w)
  then have k: "map_of (cache_map s) k \<noteq> None" using lru_rel_None [OF r, of k] by simp
  then show ?thesis
    using promote_to_front [OF r Some] r Some
    by (auto simp: lru_insert_def spec_insert_def Let_def)
qed

theorem lru_insert_or_assign_refines:
  assumes r: "lru_rel cost s xs"
  shows "\<exists>s'. lru_insert_or_assign cost k v s = Some (s', snd (spec_assign cost (max_size s) k v xs)) \<and>
              lru_rel cost s' (fst (spec_assign cost (max_size s) k v xs)) \<and> max_size s' = max_size s"
proof (cases "map_of xs k")
  case None
  then have k: "map_of (cache_map s) k = None" using lru_rel_None [OF r] by blast
  obtain s1 where "add_internal cost k (cost v) None
        (s\<lparr>cache_map := smap_put k \<lparr>next_it = None, previous_it = None, bucket_value = v\<rparr>
                          (cache_map s)\<rparr>) = evict cost s1"
      "lru_rel cost s1 ((k, v) # xs)" "max_size s1 = max_size s"
    using link_new_rel [OF r k] by blast
  then show ?thesis
    using evict_rel [of cost s1 "(k, v) # xs"] r None k
    by (auto simp: lru_insert_or_assign_def spec_assign_def Let_def case_prod_beta)
next
  case (Some w)
  obtain ys zs where xs: "xs = ys @ (k, w) # zs" "lru_rel cost s (ys @ (k, w) # zs)"
    and tf: "to_front k v xs = (k, v) # ys @ zs"
    using lru_rel_split [OF r Some] by blast
  obtain b where b: "map_of (cache_map s) k = Some b" "bucket_value b = w"
    using lru_rel_lookup [OF xs(2)] by simp
  let ?s0 = "s\<lparr>cache_map := smap_put k (b\<lparr>bucket_value := v\<rparr>) (cache_map s)\<rparr>"
  obtain s1 where s1: "promote k (?s0\<lparr>cache_size := cache_size s + (cost v - cost w)\<rparr>) = Some s1"
      "lru_rel cost s1 (to_front k v xs)" "max_size s1 = max_size s"
    using promote_rel [OF new_value_rel [OF xs(2) b(1)]] tf by fastforce
  have "lru_insert_or_assign cost k v s =
      do { (s, ev) \<leftarrow> evict cost s1; Some (s, (Some k, False), ev) }"
    using s1(1) b by (simp add: lru_insert_or_assign_def add_internal_def)
  then show ?thesis
    using evict_rel [OF s1(2)] s1(3) Some
    by (auto simp: spec_assign_def case_prod_beta)
qed

theorem lru_erase_refines:
  assumes r: "lru_rel cost s xs"
  shows "\<exists>s'. lru_erase cost k s = Some (s', map_of xs k \<noteq> None) \<and>
              lru_rel cost s' (spec_erase k xs) \<and> max_size s' = max_size s"
proof (cases "map_of xs k")
  case None
  then have "map_of (cache_map s) k = None" using lru_rel_None [OF r] by blast
  moreover have "spec_erase k xs = xs"
    using None by (auto simp: spec_erase_def filter_id_conv map_of_eq_None_iff)
  ultimately show ?thesis using r None by (simp add: lru_erase_def)
next
  case (Some v)
  obtain ys zs where "lru_rel cost s (ys @ (k, v) # zs)" "spec_erase k xs = ys @ zs"
    using lru_rel_split [OF r Some] by blast
  moreover have "map_of (cache_map s) k \<noteq> None" using Some lru_rel_None [OF r, of k] by simp
  ultimately show ?thesis
    using erase_bucket_rel [of cost s ys k v zs False] Some by (auto simp: lru_erase_def)
qed

theorem lru_find_refines:
  assumes r: "lru_rel cost s xs"
  shows "\<exists>s'. lru_find k s = Some (s', if map_of xs k = None then None else Some k) \<and>
              lru_rel cost s' (fst (spec_find k xs)) \<and> max_size s' = max_size s"
proof (cases "map_of xs k")
  case None
  then show ?thesis using lru_rel_None [OF r, of k] r by (simp add: lru_find_def spec_find_def)
next
  case (Some v)
  then show ?thesis
    using lru_rel_None [OF r, of k] promote_to_front [OF r Some]
    by (auto simp: lru_find_def spec_find_def)
qed

theorem lru_resize_refines:
  assumes "lru_rel cost s xs"
  shows "\<exists>s'. lru_resize cost mx s = Some (s', snd (spec_evict cost mx xs)) \<and>
              lru_rel cost s' (fst (spec_evict cost mx xs)) \<and> max_size s' = mx"
  using evict_rel [of cost "s\<lparr>max_size := mx\<rparr>" xs] assms
  by (simp add: lru_resize_def lru_rel_def)

text \<open>The specification on lookups: an assignment is visible or evicted, nothing else changes.\<close>

lemma map_of_to_front_upd: "map_of (to_front k v xs) = (map_of xs)(k \<mapsto> v)"
  using map_of_filter_fst [of "\<lambda>x. x \<noteq> k" xs]
  by (auto simp: to_front_def restrict_map_def fun_eq_iff)

lemma map_of_spec_erase: "map_of (spec_erase k xs) = (map_of xs)(k := None)"
  using map_of_filter_fst [of "\<lambda>x. x \<noteq> k" xs]
  by (auto simp: spec_erase_def restrict_map_def fun_eq_iff)

lemma map_of_spec_evict: "map_of (fst (spec_evict cost mx xs)) \<subseteq>\<^sub>m map_of xs"
  using spec_evict_result [of cost mx xs] map_le_append
  by (metis prod.collapse)

lemma map_of_spec_assign:
  "map_of (fst (spec_assign cost mx k v xs)) \<subseteq>\<^sub>m (map_of xs)(k \<mapsto> v)"
proof -
  have "map_of (fst (spec_evict cost mx (to_front k v xs))) \<subseteq>\<^sub>m (map_of xs)(k \<mapsto> v)"
    using map_of_spec_evict [of cost mx "to_front k v xs"] by (simp add: map_of_to_front_upd)
  moreover have "map_of (fst (spec_evict cost mx ((k, v) # xs))) \<subseteq>\<^sub>m (map_of xs)(k \<mapsto> v)"
    using map_of_spec_evict [of cost mx "(k, v) # xs"] by simp
  moreover have "map_of xs k = None \<Longrightarrow> map_of xs \<subseteq>\<^sub>m (map_of xs)(k \<mapsto> v)"
    by (auto simp: map_le_def)
  ultimately show ?thesis
    by (auto simp: spec_assign_def case_prod_beta split: option.split)
qed

text \<open>Iteration from \<open>begin()\<close> visits the pairs in recency order and ends.\<close>

lemma walk_chain:
  assumes "chain (map_of (cache_map s)) p xs None" and "length xs \<le> n"
  shows "walk n s (hd_key xs None) = xs"
  using assms
proof (induction xs arbitrary: p n)
  case Nil
  then show ?case by (cases n) simp_all
next
  case (Cons x xs)
  then obtain m where "n = Suc m" by (cases n) auto
  then show ?case using Cons by (cases x) (auto simp: deref_def)
qed

lemma lru_rel_length: "lru_rel cost s xs \<Longrightarrow> length (cache_map s) = length xs"
  using length_eq_card_dom [of "cache_map s"] distinct_card [of "map fst xs"]
  by (simp add: lru_rel_def)

lemma lru_items_rel: "lru_rel cost s xs \<Longrightarrow> lru_items s = xs"
  using walk_chain [of s None xs "length (cache_map s)"] lru_rel_length [of cost s xs]
  by (simp add: lru_items_def lru_rel_def)

lemma lru_rel_begin: "lru_rel cost s xs \<Longrightarrow> first_it s = hd_key xs None"
  by (simp add: lru_rel_def)

lemma it_advance_rel:
  "lru_rel cost s (xs @ (k, v) # ys) \<Longrightarrow> it_advance s (Some k) = Some (hd_key ys None)"
  by (simp add: it_advance_def deref_def lru_rel_lookup)

lemma it_value_rel: "lru_rel cost s xs \<Longrightarrow> it_value s (Some k) = map_of xs k"
  by (simp add: it_value_def deref_def lru_rel_value)

lemma lru_erase_it_rel:
  assumes r: "lru_rel cost s (xs @ (k, v) # ys)"
  shows "\<exists>s'. lru_erase_it cost (Some k) s = Some (s', hd_key ys None) \<and>
              lru_rel cost s' (xs @ ys) \<and> max_size s' = max_size s"
proof -
  have "k \<notin> fst ` set xs" using lru_rel_distinct [OF r] by auto
  then have "map_of xs k = None" by (simp add: map_of_eq_None_iff)
  then have "map_of (xs @ (k, v) # ys) k = Some v" by (simp add: map_add_def)
  moreover have "spec_erase k (xs @ (k, v) # ys) = xs @ ys"
    unfolding spec_erase_def using lru_rel_distinct [OF r] by (rule filter_fst_neq_split)
  ultimately show ?thesis
    using lru_erase_refines [OF r, of k] lru_rel_lookup [OF r]
    by (auto simp: lru_erase_it_def deref_def)
qed

section \<open>Runs of the cache\<close>

datatype ('k, 'v) lru_op =
    OpInsert 'k 'v
  | OpInsertOrAssign 'k 'v
  | OpErase 'k
  | OpFind 'k
  | OpResize u64
  | OpClear

datatype ('k, 'v) lru_result =
    Inserted "'k option" bool "('k \<times> 'v) list"
  | Erased bool
  | Found "'v option"
  | Resized "('k \<times> 'v) list"
  | Cleared

fun lru_step ::
  "('v \<Rightarrow> u64) \<Rightarrow> ('k::linorder, 'v) lru_cache \<Rightarrow> ('k, 'v) lru_op \<Rightarrow>
   (('k, 'v) lru_cache \<times> ('k, 'v) lru_result) option" where
  "lru_step cost s (OpInsert k v) = do {
     (s, (it, ins), ev) \<leftarrow> lru_insert cost k v s; Some (s, Inserted it ins ev) }"
| "lru_step cost s (OpInsertOrAssign k v) = do {
     (s, (it, ins), ev) \<leftarrow> lru_insert_or_assign cost k v s; Some (s, Inserted it ins ev) }"
| "lru_step cost s (OpErase k) = do { (s, b) \<leftarrow> lru_erase cost k s; Some (s, Erased b) }"
| "lru_step cost s (OpFind k) = do {
     (s, it) \<leftarrow> lru_find k s; Some (s, Found (it_value s it)) }"
| "lru_step cost s (OpResize n) = do { (s, ev) \<leftarrow> lru_resize cost n s; Some (s, Resized ev) }"
| "lru_step cost s OpClear = Some (lru_clear s, Cleared)"

fun spec_step ::
  "('v \<Rightarrow> u64) \<Rightarrow> u64 \<times> ('k \<times> 'v) list \<Rightarrow> ('k, 'v) lru_op \<Rightarrow>
   (u64 \<times> ('k \<times> 'v) list) \<times> ('k, 'v) lru_result" where
  "spec_step cost (mx, xs) (OpInsert k v) =
     (case spec_insert cost mx k v xs of (ys, (it, ins), ev) \<Rightarrow> ((mx, ys), Inserted it ins ev))"
| "spec_step cost (mx, xs) (OpInsertOrAssign k v) =
     (case spec_assign cost mx k v xs of (ys, (it, ins), ev) \<Rightarrow> ((mx, ys), Inserted it ins ev))"
| "spec_step cost (mx, xs) (OpErase k) = ((mx, spec_erase k xs), Erased (map_of xs k \<noteq> None))"
| "spec_step cost (mx, xs) (OpFind k) =
     ((mx, fst (spec_find k xs)), Found (snd (spec_find k xs)))"
| "spec_step cost (mx, xs) (OpResize n) =
     (case spec_evict cost n xs of (ys, ev) \<Rightarrow> ((n, ys), Resized ev))"
| "spec_step cost (mx, xs) OpClear = ((mx, []), Cleared)"

definition lru_sim :: "('v \<Rightarrow> u64) \<Rightarrow> ('k::linorder, 'v) lru_cache \<Rightarrow> u64 \<times> ('k \<times> 'v) list \<Rightarrow> bool" where
  "lru_sim cost s a \<longleftrightarrow> max_size s = fst a \<and> lru_rel cost s (snd a)"

lemma map_of_to_front: "map_of (to_front k v xs) k = Some v"
  by (simp add: to_front_def)

lemma lru_step_simulates:
  assumes "lru_sim cost s a"
  shows "\<exists>s'. lru_step cost s c = Some (s', snd (spec_step cost a c)) \<and>
              lru_sim cost s' (fst (spec_step cost a c))"
proof -
  obtain mx xs where a: "a = (mx, xs)" by fastforce
  then have r: "lru_rel cost s xs" and mx: "max_size s = mx" using assms by (simp_all add: lru_sim_def)
  show ?thesis
  proof (cases c)
    case (OpInsert k v)
    then show ?thesis using lru_insert_refines [OF r, of k v] mx a
      by (auto simp: lru_sim_def case_prod_beta)
  next
    case (OpInsertOrAssign k v)
    then show ?thesis using lru_insert_or_assign_refines [OF r, of k v] mx a
      by (auto simp: lru_sim_def case_prod_beta)
  next
    case (OpErase k)
    then show ?thesis using lru_erase_refines [OF r, of k] mx a by (auto simp: lru_sim_def)
  next
    case (OpFind k)
    obtain s' where s': "lru_find k s = Some (s', if map_of xs k = None then None else Some k)"
        "lru_rel cost s' (fst (spec_find k xs))" "max_size s' = max_size s"
      using lru_find_refines [OF r, of k] by blast
    have "it_value s' (if map_of xs k = None then None else Some k) = snd (spec_find k xs)"
      using it_value_rel [OF s'(2), of k]
      by (auto simp: spec_find_def map_of_to_front it_value_def deref_def split: option.splits)
    then show ?thesis using OpFind s' mx a by (auto simp: lru_sim_def)
  next
    case (OpResize n)
    then show ?thesis using lru_resize_refines [OF r, of n] mx a
      by (auto simp: lru_sim_def case_prod_beta)
  next
    case OpClear
    then show ?thesis using lru_rel_clear [of cost s] mx a by (simp add: lru_sim_def lru_clear_def)
  qed
qed

interpretation lru: simulation "lru_step cost" "spec_step cost" "lru_sim cost"
  by unfold_locales (rule lru_step_simulates)

section \<open>Size accounting\<close>

text \<open>
  \<open>size_\<close> is a 64 bit word and is adjusted by additions and subtractions. With the limit and
  every cost below \<open>2 ^ 63\<close> none of them wraps, and \<open>size_\<close> is the exact sum.
\<close>

definition exact_total :: "('v \<Rightarrow> u64) \<Rightarrow> ('k \<times> 'v) list \<Rightarrow> nat" where
  "exact_total cost xs = (\<Sum>x\<leftarrow>xs. unat (cost (snd x)))"

lemma exact_total_simps [simp]:
  "exact_total cost [] = 0"
  "exact_total cost (x # xs) = unat (cost (snd x)) + exact_total cost xs"
  "exact_total cost (xs @ ys) = exact_total cost xs + exact_total cost ys"
  by (simp_all add: exact_total_def)

lemma unat_total: "exact_total cost xs < 2 ^ 64 \<Longrightarrow> unat (total cost xs) = exact_total cost xs"
  by (induction xs) (simp_all add: unat_word_ariths)

lemma exact_total_filter: "exact_total cost (filter P xs) \<le> exact_total cost xs"
  by (induction xs) auto

lemma spec_evict_exact:
  assumes "spec_evict cost mx xs = (ys, ev)" and "exact_total cost xs < 2 ^ 64"
  shows "exact_total cost ys \<le> unat mx"
proof -
  have r: "xs = ys @ rev ev" "total cost ys \<le> mx"
    using spec_evict_result [OF assms(1)] by blast+
  then have "unat (total cost ys) = exact_total cost ys"
    using assms(2) unat_total [of cost ys] by simp
  then show ?thesis using r(2) by (simp add: word_le_nat_alt)
qed

fun small_op :: "('v \<Rightarrow> u64) \<Rightarrow> ('k, 'v) lru_op \<Rightarrow> bool" where
  "small_op cost (OpInsert k v) = (cost v < 2 ^ 63)"
| "small_op cost (OpInsertOrAssign k v) = (cost v < 2 ^ 63)"
| "small_op cost (OpResize n) = (n < 2 ^ 63)"
| "small_op cost c = True"

lemma exact_total_to_front:
  "map_of xs k = Some v \<Longrightarrow> distinct (map fst xs) \<Longrightarrow>
   exact_total cost (to_front k v xs) = exact_total cost xs"
proof -
  assume m: "map_of xs k = Some v" and d: "distinct (map fst xs)"
  obtain ys zs where xs: "xs = ys @ (k, v) # zs" using split_list_at_fst [OF m] by (elim exE conjE)
  have "to_front k v xs = (k, v) # ys @ zs"
    unfolding xs by (rule to_front_split) (use d xs in simp)
  then show ?thesis by (simp add: xs)
qed

lemma distinct_to_front: "distinct (map fst xs) \<Longrightarrow> distinct (map fst (to_front k v xs))"
  by (auto simp: to_front_def distinct_map_filter)

lemma spec_step_exact:
  assumes "exact_total cost xs \<le> unat mx" and "mx < 2 ^ 63" and "small_op cost c"
    and d: "distinct (map fst xs)" and s: "spec_step cost (mx, xs) c = ((mx', xs'), r)"
  shows "exact_total cost xs' \<le> unat mx' \<and> mx' < 2 ^ 63"
proof -
  have mx: "unat mx < 2 ^ 63" using assms(2) by (simp add: word_less_nat_alt)
  have front: "exact_total cost ((k, v) # filter P xs) < 2 ^ 64" if "cost v < 2 ^ 63" for k v P
    using that mx assms(1) exact_total_filter [of cost P xs] by (simp add: word_less_nat_alt)
  have front': "exact_total cost ((k, v) # xs) < 2 ^ 64" if "cost v < 2 ^ 63" for k v
    using front [OF that, of k "\<lambda>_. True"] by simp
  show ?thesis
  proof (cases c)
    case (OpInsert k v)
    then show ?thesis
      using assms front' [of v k] spec_evict_exact exact_total_to_front [OF _ d]
      by (fastforce simp: spec_insert_def split: if_splits option.splits prod.splits)
  next
    case (OpInsertOrAssign k v)
    then show ?thesis
      using assms front' [of v k] front [of v k] spec_evict_exact
      by (fastforce simp: spec_assign_def to_front_def split: if_splits option.splits prod.splits)
  next
    case (OpErase k)
    then show ?thesis
      using assms exact_total_filter [of cost "\<lambda>e. fst e \<noteq> k" xs] by (auto simp: spec_erase_def)
  next
    case (OpFind k)
    then show ?thesis using assms exact_total_to_front [OF _ d]
      by (auto simp: spec_find_def split: option.splits)
  next
    case (OpResize n)
    then show ?thesis using assms mx spec_evict_exact by (fastforce split: prod.splits)
  next
    case OpClear
    then show ?thesis using assms by auto
  qed
qed

lemma lru_run_exact:
  assumes "lru_sim cost s (mx, xs)" and "exact_total cost xs \<le> unat mx" and "mx < 2 ^ 63"
    and "\<forall>c \<in> set cs. small_op cost c"
    and "run_steps (lru_step cost) s cs = Some (s', rs)"
  shows "unat (cache_size s') = exact_total cost (lru_items s') \<and> cache_size s' \<le> max_size s'"
  using assms
proof (induction cs arbitrary: s mx xs rs)
  case Nil
  then have r: "lru_rel cost s xs" "max_size s = mx" "s' = s" by (simp_all add: lru_sim_def)
  have "unat mx < 2 ^ 63" using Nil.prems(3) by (simp add: word_less_nat_alt)
  then have "unat (total cost xs) = exact_total cost xs" using Nil.prems(2) by (intro unat_total) simp
  then show ?case using r Nil.prems(2) lru_items_rel [OF r(1)]
    by (simp add: lru_rel_def word_le_nat_alt)
next
  case (Cons c cs)
  obtain mx' xs' r where sp: "spec_step cost (mx, xs) c = ((mx', xs'), r)"
    by (metis surj_pair)
  obtain s1 where s1: "lru_step cost s c = Some (s1, r)" "lru_sim cost s1 (mx', xs')"
    using lru_step_simulates [OF Cons.prems(1), of c] sp by auto
  have "distinct (map fst xs)" using Cons.prems(1) lru_rel_distinct by (auto simp: lru_sim_def)
  then have "exact_total cost xs' \<le> unat mx' \<and> mx' < 2 ^ 63"
    using spec_step_exact [OF Cons.prems(2,3) _ _ sp] Cons.prems(4) by simp
  then show ?case
    using Cons.IH [OF s1(2)] Cons.prems(4,5) s1(1)
    by (auto simp: Option.bind_eq_Some_conv)
qed

section \<open>Properties\<close>

text \<open>
  C1: Every sequence of public operations on a new cache is well defined (no iterator to nothing
  is followed, no assertion fails, the eviction loop ends), and it returns exactly the iterators,
  flags, values and evicted pairs of the recency list specification.
\<close>

theorem lru_run_refines:
  "\<exists>s'. run_steps (lru_step cost) (lru_new mx) cs =
         Some (s', snd (run_spec (spec_step cost) (mx, []) cs)) \<and>
       lru_items s' = snd (fst (run_spec (spec_step cost) (mx, []) cs)) \<and>
       max_size s' = fst (fst (run_spec (spec_step cost) (mx, []) cs))"
proof -
  have "lru_sim cost (lru_new mx) (mx, [])"
    by (simp add: lru_sim_def lru_rel_new) (simp add: lru_new_def)
  from lru.run_simulates [OF this, of cs] show ?thesis
    using lru_items_rel by (auto simp: lru_sim_def)
qed

text \<open>
  \<open>InsertOrAssign\<close> puts the pair in front and evicts the least recently used pairs, in that
  order, and no more than needed: every longer prefix of the recency list is over the limit.
\<close>

theorem lru_assign_evicts_least_recent:
  assumes r: "lru_rel cost s xs" and fit: "cost v \<le> max_size s"
  shows "\<exists>s' ins ev. lru_insert_or_assign cost k v s = Some (s', (Some k, ins), ev) \<and>
           ins = (map_of xs k = None) \<and>
           lru_items s' @ rev ev = to_front k v xs \<and>
           cache_size s' \<le> max_size s \<and>
           (\<forall>zs us. to_front k v xs = zs @ us \<and> length (lru_items s') < length zs \<longrightarrow>
                    max_size s < total cost zs)"
proof -
  obtain ys ev where e: "spec_evict cost (max_size s) (to_front k v xs) = (ys, ev)" by fastforce
  have "map_of xs k = None \<Longrightarrow> to_front k v xs = (k, v) # xs"
    by (auto simp: to_front_def filter_id_conv map_of_eq_None_iff)
  then have "spec_assign cost (max_size s) k v xs = (ys, (Some k, map_of xs k = None), ev)"
    using e fit by (auto simp: spec_assign_def split: option.split)
  then obtain s' where s': "lru_insert_or_assign cost k v s = Some (s', (Some k, map_of xs k = None), ev)"
      "lru_rel cost s' ys"
    using lru_insert_or_assign_refines [OF r, of k v] by auto
  show ?thesis
    using s'(1) spec_evict_result [OF e] lru_items_rel [OF s'(2)] s'(2)
    by (intro exI [of _ s'] exI conjI) (simp_all add: lru_rel_def)
qed

theorem lru_assign_evicts_least_recent_witness:
  "\<exists>s' ins ev. lru_insert_or_assign (\<lambda>_ :: nat. 1) (7 :: nat) 70
      \<lparr>cache_map = [(5, \<lparr>next_it = None, previous_it = None, bucket_value = 50\<rparr>)],
       first_it = Some 5, last_it = Some 5, max_size = 1, cache_size = 1\<rparr> =
      Some (s', (Some 7, ins), ev) \<and> lru_items s' @ rev ev = [(7, 70), (5, 50)]"
proof -
  let ?s = "\<lparr>cache_map = [(5 :: nat, \<lparr>next_it = None, previous_it = None, bucket_value = 50 :: nat\<rparr>)],
       first_it = Some 5, last_it = Some 5, max_size = 1, cache_size = 1\<rparr>"
  have r: "lru_rel (\<lambda>_. 1) ?s [(5, 50)]"
    by (auto simp: lru_rel_def smap_wf_def)
  have "to_front (7 :: nat) (70 :: nat) [(5, 50)] = [(7, 70), (5, 50)]" by (simp add: to_front_def)
  with lru_assign_evicts_least_recent [where k = 7 and v = 70, OF r] show ?thesis by fastforce
qed

text \<open>
  With the limit and all costs below \<open>2 ^ 63\<close>, the 64 bit accounting never wraps: after any
  run \<open>size_\<close> is the exact sum of the costs of the cached values and within the limit.
\<close>

theorem lru_run_size_exact:
  assumes "mx < 2 ^ 63" and "\<forall>c \<in> set cs. small_op cost c"
    and "run_steps (lru_step cost) (lru_new mx) cs = Some (s', rs)"
  shows "unat (cache_size s') = exact_total cost (lru_items s') \<and> cache_size s' \<le> max_size s'"
proof (rule lru_run_exact [OF _ _ assms])
  show "lru_sim cost (lru_new mx) (mx, [])"
    by (simp add: lru_sim_def lru_rel_new) (simp add: lru_new_def)
qed simp

theorem lru_run_size_exact_witness:
  "\<exists>s' rs. run_steps (lru_step (\<lambda>v. v)) (lru_new 10)
      [OpInsert (1 :: nat) 6, OpInsertOrAssign 2 5, OpFind 2] = Some (s', rs) \<and>
    unat (cache_size s') = exact_total (\<lambda>v. v) (lru_items s') \<and> cache_size s' \<le> max_size s'"
proof -
  let ?cs = "[OpInsert (1 :: nat) 6, OpInsertOrAssign 2 5, OpFind 2]"
  obtain s' rs where run: "run_steps (lru_step (\<lambda>v. v)) (lru_new 10) ?cs = Some (s', rs)"
    using lru.run_simulates [of "\<lambda>v. v" "lru_new 10" "(10, [])" ?cs]
    by (auto simp: lru_sim_def lru_rel_new lru_new_def lru_rel_def)
  have "\<forall>c \<in> set ?cs. small_op (\<lambda>v. v) c" by simp
  from lru_run_size_exact [OF _ this run] run show ?thesis by auto
qed

text \<open>
  Assigning to a cached key a value that is larger than the limit empties the cache: the
  promoted element pushes everything else out and is evicted last, and the returned iterator
  points to the element that is gone.
\<close>

theorem lru_oversized_assign_flushes:
  assumes r: "lru_rel cost s xs" and k: "map_of xs k = Some w"
    and big: "max_size s < cost v" and small: "exact_total cost (to_front k v xs) < 2 ^ 64"
  shows "\<exists>s'. lru_insert_or_assign cost k v s =
               Some (s', (Some k, False), rev (to_front k v xs)) \<and>
              lru_items s' = [] \<and> deref s' (Some k) = None"
proof -
  obtain ys ev where e: "spec_evict cost (max_size s) (to_front k v xs) = (ys, ev)" by fastforce
  note res = spec_evict_result [OF e]
  have "ys = []"
  proof (rule ccontr)
    assume "ys \<noteq> []"
    then obtain us where "ys = (k, v) # us"
      using res by (cases ys) (auto simp: to_front_def)
    then have "unat (cost v) \<le> exact_total cost ys" by simp
    moreover have "exact_total cost ys < 2 ^ 64"
      using res small by (metis exact_total_simps(3) le_add1 le_less_trans)
    ultimately have "cost v \<le> total cost ys"
      using unat_total [of cost ys] by (simp add: word_le_nat_alt)
    then have "cost v \<le> max_size s" using res by (blast intro: order_trans)
    then show False using big by simp
  qed
  then have "spec_assign cost (max_size s) k v xs = ([], (Some k, False), rev (to_front k v xs))"
    using e k res by (simp add: spec_assign_def)
  then obtain s' where s': "lru_insert_or_assign cost k v s =
      Some (s', (Some k, False), rev (to_front k v xs))" "lru_rel cost s' []"
    using lru_insert_or_assign_refines [OF r, of k v] by auto
  then show ?thesis
    using lru_items_rel [OF s'(2)] by (auto simp: deref_def lru_rel_def)
qed

theorem lru_oversized_assign_flushes_witness:
  "\<exists>s'. lru_insert_or_assign (\<lambda>v. v) (5 :: nat) 9
      \<lparr>cache_map = [(5, \<lparr>next_it = None, previous_it = None, bucket_value = 1\<rparr>)],
       first_it = Some 5, last_it = Some 5, max_size = 1, cache_size = 1\<rparr> =
      Some (s', (Some 5, False), [(5, 9)]) \<and> lru_items s' = []"
proof -
  let ?s = "\<lparr>cache_map = [(5 :: nat, \<lparr>next_it = None, previous_it = None, bucket_value = 1 :: u64\<rparr>)],
       first_it = Some 5, last_it = Some 5, max_size = 1, cache_size = 1\<rparr>"
  have r: "lru_rel (\<lambda>v. v) ?s [(5, 1)]" by (auto simp: lru_rel_def smap_wf_def)
  have "max_size ?s < (9 :: u64)" "exact_total (\<lambda>v. v) (to_front 5 (9 :: u64) [(5, 1)]) < 2 ^ 64"
    by (simp_all add: to_front_def)
  from lru_oversized_assign_flushes [OF r _ this, of 1]
  show ?thesis by (auto simp: to_front_def)
qed

end
