(* ===== verification/InMemoryCache.thy ===== *)
theory InMemoryCache
  imports LruCache
begin

text \<open>
  The in-memory cache of \<open>src/cache/InMemoryCache.cpp\<close>: an LRU cache of item tuples and an
  index from expiry times to the tuples that expire then.

  \<open>time_t\<close> is a 64 bit signed integer, modelled by \<^typ>\<open>int\<close>; the one addition that can
  overflow is guarded and gives \<^term>\<open>None\<close> there. The time provider is called by the
  operations at the places where the times are parameters here. A \<open>boost::any\<close> is an option,
  empty when it holds nothing. The mutex makes every operation atomic.
\<close>

section \<open>State\<close>

record 'a item_tuple =
  tuple_key :: string
  tuple_expiry :: int
  tuple_item :: "'a option"
  tuple_size :: u64

record 'a mem_cache =
  item_tuples :: "(string, 'a item_tuple) lru_cache"
  item_expiries :: "(int, 'a item_tuple list) smap"

definition kExpiryMax :: int where
  "kExpiryMax = 2 ^ 63 - 1"

definition has_expiry :: "int \<Rightarrow> bool" where
  "has_expiry expiry_seconds = (expiry_seconds \<noteq> kExpiryMax)"

definition default_cache_cost :: "'a item_tuple \<Rightarrow> u64" where
  "default_cache_cost t = (if tuple_size t = 0 then 1 else tuple_size t)"

definition mem_new :: "u64 \<Rightarrow> 'a mem_cache" where
  "mem_new mx = \<lparr>item_tuples = lru_new mx, item_expiries = []\<rparr>"

section \<open>Eviction and expiry\<close>

text \<open>
  \<open>OnEviction\<close> copies the list of the expiry time (\<open>auto item = item_expiries_[expiry]\<close>) and
  removes the tuple from the copy, so the index itself only loses lists that are empty.
\<close>

fun erase_first_key :: "string \<Rightarrow> 'a item_tuple list \<Rightarrow> 'a item_tuple list" where
  "erase_first_key key [] = []"
| "erase_first_key key (t # ts) = (if tuple_key t = key then ts else t # erase_first_key key ts)"

definition on_eviction :: "string \<times> 'a item_tuple \<Rightarrow> 'a mem_cache \<Rightarrow> 'a mem_cache" where
  "on_eviction kv c =
     (let expiry = tuple_expiry (snd kv) in
      if has_expiry expiry
      then (let index = smap_touch expiry [] (item_expiries c);
                copy = the (map_of index expiry);
                copy = erase_first_key (fst kv) copy;
                index = (if length (the (map_of index expiry)) = 0 then smap_del expiry index else index)
            in c\<lparr>item_expiries := index\<rparr>)
      else c)"

fun erase_items ::
  "('a item_tuple \<Rightarrow> u64) \<Rightarrow> 'a item_tuple list \<Rightarrow> 'a mem_cache \<Rightarrow> ('a mem_cache \<times> bool) option" where
  "erase_items cost [] c = Some (c, True)"
| "erase_items cost (t # ts) c = do {
     (lru, b) \<leftarrow> lru_erase cost (tuple_key t) (item_tuples c);
     (c, r) \<leftarrow> erase_items cost ts (c\<lparr>item_tuples := lru\<rparr>);
     Some (c, b \<and> r) }"

definition purge_expired_at ::
  "('a item_tuple \<Rightarrow> u64) \<Rightarrow> int \<Rightarrow> 'a mem_cache \<Rightarrow> ('a mem_cache \<times> bool) option" where
  "purge_expired_at cost expire_time c = do {
     let index = smap_touch expire_time [] (item_expiries c);
     (c, r) \<leftarrow> erase_items cost (the (map_of index expire_time)) (c\<lparr>item_expiries := index\<rparr>);
     Some (c\<lparr>item_expiries := smap_del expire_time (item_expiries c)\<rparr>, r) }"

fun purge_all ::
  "('a item_tuple \<Rightarrow> u64) \<Rightarrow> int list \<Rightarrow> 'a mem_cache \<Rightarrow> ('a mem_cache \<times> bool) option" where
  "purge_all cost [] c = Some (c, True)"
| "purge_all cost (e # es) c = do {
     (c, b) \<leftarrow> purge_expired_at cost e c;
     (c, r) \<leftarrow> purge_all cost es c;
     Some (c, b \<and> r) }"

definition purge_expired ::
  "('a item_tuple \<Rightarrow> u64) \<Rightarrow> int \<Rightarrow> 'a mem_cache \<Rightarrow> ('a mem_cache \<times> bool) option" where
  "purge_expired cost time_now c =
     purge_all cost (takeWhile (\<lambda>e. e < time_now) (map fst (item_expiries c))) c"

section \<open>Operations\<close>

definition mem_put ::
  "('a item_tuple \<Rightarrow> u64) \<Rightarrow> int \<Rightarrow> int \<Rightarrow> string \<Rightarrow> 'a option \<Rightarrow> int \<Rightarrow> u64 \<Rightarrow> 'a mem_cache \<Rightarrow>
   ('a mem_cache \<times> bool) option" where
  "mem_put cost purge_time put_time key item expire_seconds sz c = do {
     (c, _) \<leftarrow> purge_expired cost purge_time c;
     let expires = has_expiry expire_seconds;
     if expires \<and> expire_seconds \<le> 0 then Some (c, False)
     else if expires \<and> kExpiryMax < expire_seconds + put_time then None
     else do {
       let expire_seconds = (if expires then expire_seconds + put_time else expire_seconds);
       let item_tuple = \<lparr>tuple_key = key, tuple_expiry = expire_seconds,
                         tuple_item = item, tuple_size = sz\<rparr>;
       (lru, (_, inserted), evicted) \<leftarrow> lru_insert_or_assign cost key item_tuple (item_tuples c);
       let c = fold on_eviction evicted (c\<lparr>item_tuples := lru\<rparr>);
       let c = (if inserted \<and> expires
                then (let index = smap_touch expire_seconds [] (item_expiries c)
                      in c\<lparr>item_expiries :=
                             smap_put expire_seconds (the (map_of index expire_seconds) @ [item_tuple]) index\<rparr>)
                else c);
       Some (c, inserted) } }"

definition mem_get ::
  "('a item_tuple \<Rightarrow> u64) \<Rightarrow> int \<Rightarrow> string \<Rightarrow> 'a mem_cache \<Rightarrow> ('a mem_cache \<times> 'a option) option" where
  "mem_get cost time_now key c = do {
     (lru, it) \<leftarrow> lru_find key (item_tuples c);
     let c = c\<lparr>item_tuples := lru\<rparr>;
     if it \<noteq> None
     then do {
       t \<leftarrow> it_value lru it;
       if tuple_expiry t < time_now
       then do { (c, _) \<leftarrow> purge_expired_at cost (tuple_expiry t) c; Some (c, None) }
       else Some (c, tuple_item t) }
     else Some (c, None) }"

definition mem_size :: "'a mem_cache \<Rightarrow> u64" where
  "mem_size c = cache_size (item_tuples c)"

definition mem_clear :: "'a mem_cache \<Rightarrow> 'a mem_cache" where
  "mem_clear c = c\<lparr>item_expiries := [], item_tuples := lru_clear (item_tuples c)\<rparr>"

definition mem_remove ::
  "('a item_tuple \<Rightarrow> u64) \<Rightarrow> string \<Rightarrow> 'a mem_cache \<Rightarrow> ('a mem_cache \<times> bool) option" where
  "mem_remove cost key c = do {
     (lru, b) \<leftarrow> lru_erase cost key (item_tuples c);
     Some (c\<lparr>item_tuples := lru\<rparr>, b) }"

text \<open>
  The loop of \<open>RemoveKeysWithPrefix\<close>; the fuel bounds the number of elements visited, and
  \<open>mem_remove_keys_with_prefix\<close> starts it with the number of elements of the map.
\<close>

fun remove_prefix_loop ::
  "('a item_tuple \<Rightarrow> u64) \<Rightarrow> string \<Rightarrow> nat \<Rightarrow> string option \<Rightarrow> (string, 'a item_tuple) lru_cache \<Rightarrow>
   (string, 'a item_tuple) lru_cache option" where
  "remove_prefix_loop cost pre n None lru = Some lru"
| "remove_prefix_loop cost pre 0 (Some k) lru = None"
| "remove_prefix_loop cost pre (Suc n) (Some k) lru =
     (if take (length pre) k = pre
      then do {
        (lru, it) \<leftarrow> lru_erase_it cost (Some k) lru;
        remove_prefix_loop cost pre n it lru }
      else do {
        it \<leftarrow> it_advance lru (Some k);
        remove_prefix_loop cost pre n it lru })"

definition mem_remove_keys_with_prefix ::
  "('a item_tuple \<Rightarrow> u64) \<Rightarrow> string \<Rightarrow> 'a mem_cache \<Rightarrow> 'a mem_cache option" where
  "mem_remove_keys_with_prefix cost key_prefix c = do {
     lru \<leftarrow> remove_prefix_loop cost key_prefix (length (cache_map (item_tuples c)))
              (first_it (item_tuples c)) (item_tuples c);
     Some (c\<lparr>item_tuples := lru\<rparr>) }"

section \<open>The content of the cache\<close>

definition mem_rel :: "('a item_tuple \<Rightarrow> u64) \<Rightarrow> 'a mem_cache \<Rightarrow> (string \<times> 'a item_tuple) list \<Rightarrow> bool" where
  "mem_rel cost c xs \<longleftrightarrow> lru_rel cost (item_tuples c) xs \<and> smap_wf (item_expiries c)"

text \<open>The keys that the index lists for an expiry time.\<close>

definition registered :: "'a mem_cache \<Rightarrow> int \<Rightarrow> string set" where
  "registered c e = (case map_of (item_expiries c) e of None \<Rightarrow> {} | Some ts \<Rightarrow> tuple_key ` set ts)"

lemma mem_rel_new: "mem_rel cost (mem_new mx) []"
  by (simp add: mem_rel_def mem_new_def lru_rel_new)

lemma on_eviction_frame [simp]:
  "item_tuples (on_eviction kv c) = item_tuples c"
  "smap_wf (item_expiries c) \<Longrightarrow> smap_wf (item_expiries (on_eviction kv c))"
  by (auto simp: on_eviction_def Let_def)

lemma fold_on_eviction_frame [simp]:
  "item_tuples (fold on_eviction ev c) = item_tuples c"
  "smap_wf (item_expiries c) \<Longrightarrow> smap_wf (item_expiries (fold on_eviction ev c))"
  by (induction ev arbitrary: c) simp_all

text \<open>\<open>OnEviction\<close> never takes a key out of the index.\<close>

lemma on_eviction_registered: "registered (on_eviction kv c) e = registered c e"
  by (auto simp: on_eviction_def registered_def Let_def split: option.splits)

lemma fold_on_eviction_registered: "registered (fold on_eviction ev c) e = registered c e"
  by (induction ev arbitrary: c) (simp_all add: on_eviction_registered)

lemma registered_push_back:
  "registered (c\<lparr>item_expiries :=
      smap_put e (the (map_of (smap_touch e [] (item_expiries c)) e) @ [t])
        (smap_touch e [] (item_expiries c))\<rparr>) i =
   registered c i \<union> (if i = e then {tuple_key t} else {})"
  by (auto simp: registered_def split: option.splits)

lemma erase_items_rel:
  assumes "lru_rel cost (item_tuples c) xs"
  shows "\<exists>c' r. erase_items cost ts c = Some (c', r) \<and>
           lru_rel cost (item_tuples c') (filter (\<lambda>x. fst x \<notin> tuple_key ` set ts) xs) \<and>
           max_size (item_tuples c') = max_size (item_tuples c) \<and>
           item_expiries c' = item_expiries c"
  using assms
proof (induction ts arbitrary: c xs)
  case Nil
  then show ?case by (auto intro: exI [of _ True])
next
  case (Cons t ts)
  obtain lru where lru: "lru_erase cost (tuple_key t) (item_tuples c) =
        Some (lru, map_of xs (tuple_key t) \<noteq> None)"
      "lru_rel cost lru (spec_erase (tuple_key t) xs)" "max_size lru = max_size (item_tuples c)"
    using lru_erase_refines [OF Cons.prems, of "tuple_key t"] by blast
  let ?c = "c\<lparr>item_tuples := lru\<rparr>"
  obtain c' r where c': "erase_items cost ts ?c = Some (c', r)"
      "lru_rel cost (item_tuples c')
         (filter (\<lambda>x. fst x \<notin> tuple_key ` set ts) (spec_erase (tuple_key t) xs))"
      "max_size (item_tuples c') = max_size (item_tuples ?c)" "item_expiries c' = item_expiries ?c"
    using Cons.IH [of ?c "spec_erase (tuple_key t) xs"] lru(2) by auto
  have "filter (\<lambda>x. fst x \<notin> tuple_key ` set ts) (spec_erase (tuple_key t) xs) =
        filter (\<lambda>x. fst x \<notin> tuple_key ` set (t # ts)) xs"
    by (auto simp: spec_erase_def intro: filter_cong)
  then show ?case using lru c' by simp
qed

lemma purge_expired_at_rel:
  assumes "mem_rel cost c xs"
  shows "\<exists>c' r. purge_expired_at cost e c = Some (c', r) \<and>
           mem_rel cost c' (filter (\<lambda>x. fst x \<notin> registered c e) xs) \<and>
           max_size (item_tuples c') = max_size (item_tuples c) \<and>
           map_of (item_expiries c') = (map_of (item_expiries c))(e := None)"
proof -
  let ?index = "smap_touch e [] (item_expiries c)"
  let ?ts = "the (map_of ?index e)"
  have ks: "tuple_key ` set ?ts = registered c e"
    by (auto simp: registered_def split: option.splits)
  obtain c' r where c': "erase_items cost ?ts (c\<lparr>item_expiries := ?index\<rparr>) = Some (c', r)"
      "lru_rel cost (item_tuples c') (filter (\<lambda>x. fst x \<notin> tuple_key ` set ?ts) xs)"
      "max_size (item_tuples c') = max_size (item_tuples c)" "item_expiries c' = ?index"
    using erase_items_rel [of cost "c\<lparr>item_expiries := ?index\<rparr>" xs ?ts] assms
    by (auto simp: mem_rel_def)
  have "purge_expired_at cost e c =
      Some (c'\<lparr>item_expiries := smap_del e (item_expiries c')\<rparr>, r)"
    using c'(1) by (simp add: purge_expired_at_def)
  then show ?thesis using c' assms ks
    by (auto simp: mem_rel_def fun_eq_iff)
qed

lemma purge_all_rel:
  assumes "mem_rel cost c xs"
  shows "\<exists>c' r. purge_all cost es c = Some (c', r) \<and>
           mem_rel cost c' (filter (\<lambda>x. \<forall>e \<in> set es. fst x \<notin> registered c e) xs) \<and>
           max_size (item_tuples c') = max_size (item_tuples c) \<and>
           map_of (item_expiries c') = map_of (item_expiries c) |` (- set es)"
  using assms
proof (induction es arbitrary: c xs)
  case Nil
  then show ?case by (auto intro: exI [of _ True])
next
  case (Cons e es)
  obtain c1 r1 where c1: "purge_expired_at cost e c = Some (c1, r1)"
      "mem_rel cost c1 (filter (\<lambda>x. fst x \<notin> registered c e) xs)"
      "max_size (item_tuples c1) = max_size (item_tuples c)"
      "map_of (item_expiries c1) = (map_of (item_expiries c))(e := None)"
    using purge_expired_at_rel [OF Cons.prems, of e] by blast
  have reg: "registered c1 e' = (if e' = e then {} else registered c e')" for e'
    by (simp add: registered_def c1(4))
  obtain c' r where c': "purge_all cost es c1 = Some (c', r)"
      "mem_rel cost c' (filter (\<lambda>x. \<forall>e \<in> set es. fst x \<notin> registered c1 e)
                          (filter (\<lambda>x. fst x \<notin> registered c e) xs))"
      "max_size (item_tuples c') = max_size (item_tuples c1)"
      "map_of (item_expiries c') = map_of (item_expiries c1) |` (- set es)"
    using Cons.IH [OF c1(2)] by blast
  have "filter (\<lambda>x. \<forall>e \<in> set es. fst x \<notin> registered c1 e) (filter (\<lambda>x. fst x \<notin> registered c e) xs) =
        filter (\<lambda>x. \<forall>e \<in> set (e # es). fst x \<notin> registered c e) xs"
    by (auto simp: reg intro!: filter_cong)
  moreover have "map_of (item_expiries c') = map_of (item_expiries c) |` (- set (e # es))"
    by (auto simp: c'(4) c1(4) restrict_map_def)
  ultimately show ?case using c1 c' by simp
qed

text \<open>The entries that survive a purge at a given time.\<close>

definition survivors :: "'a mem_cache \<Rightarrow> int \<Rightarrow> (string \<times> 'a item_tuple) list \<Rightarrow> (string \<times> 'a item_tuple) list" where
  "survivors c now xs = filter (\<lambda>x. \<forall>e < now. fst x \<notin> registered c e) xs"

lemma sorted_takeWhile_less:
  "sorted_wrt (<) (ks :: int list) \<Longrightarrow> set (takeWhile (\<lambda>e. e < t) ks) = {e \<in> set ks. e < t}"
  by (induction ks) auto

lemma purge_expired_rel:
  assumes r: "mem_rel cost c xs"
  shows "\<exists>c' r. purge_expired cost now c = Some (c', r) \<and>
           mem_rel cost c' (survivors c now xs) \<and>
           max_size (item_tuples c') = max_size (item_tuples c) \<and>
           map_of (item_expiries c') = map_of (item_expiries c) |` {e. now \<le> e}"
proof -
  let ?es = "takeWhile (\<lambda>e. e < now) (map fst (item_expiries c))"
  have es: "set ?es = {e \<in> dom (map_of (item_expiries c)). e < now}"
    using r sorted_takeWhile_less
    by (auto simp: mem_rel_def smap_wf_def dom_map_of_conv_image_fst)
  have "registered c e = {}" if "e < now" "e \<notin> set ?es" for e
    using that es by (auto simp: registered_def split: option.splits)
  then have "filter (\<lambda>x. \<forall>e \<in> set ?es. fst x \<notin> registered c e) xs = survivors c now xs"
    using es by (auto simp: survivors_def intro!: filter_cong)
  moreover have "map_of (item_expiries c) |` (- set ?es) = map_of (item_expiries c) |` {e. now \<le> e}"
    using es by (auto simp: restrict_map_def fun_eq_iff domIff)
  ultimately show ?thesis
    using purge_all_rel [OF r, of ?es] by (simp add: purge_expired_def)
qed

section \<open>What the operations do to the content\<close>

definition time_ok :: "int \<Rightarrow> int \<Rightarrow> bool" where
  "time_ok put_time expire_seconds \<longleftrightarrow>
     has_expiry expire_seconds \<longrightarrow> expire_seconds \<le> 0 \<or> expire_seconds + put_time \<le> kExpiryMax"

definition absolute_expiry :: "int \<Rightarrow> int \<Rightarrow> int" where
  "absolute_expiry put_time expire_seconds =
     (if has_expiry expire_seconds then expire_seconds + put_time else expire_seconds)"

text \<open>The item that \<open>Put\<close> stores, and whether it stores one at all.\<close>

definition new_tuple :: "int \<Rightarrow> string \<Rightarrow> 'a option \<Rightarrow> int \<Rightarrow> u64 \<Rightarrow> 'a item_tuple" where
  "new_tuple put_time key item expire_seconds sz =
     \<lparr>tuple_key = key, tuple_expiry = absolute_expiry put_time expire_seconds,
      tuple_item = item, tuple_size = sz\<rparr>"

definition accepts :: "int \<Rightarrow> bool" where
  "accepts expire_seconds \<longleftrightarrow> \<not> has_expiry expire_seconds \<or> 0 < expire_seconds"

lemma mem_put_rel:
  fixes c :: "'a mem_cache" and purge_time put_time e :: int and key :: string
    and item :: "'a option" and sz :: u64 and xs :: "(string \<times> 'a item_tuple) list"
  assumes r: "mem_rel cost c xs" and ok: "time_ok put_time e"
  defines "ys \<equiv> survivors c purge_time xs"
    and "t \<equiv> new_tuple put_time key item e sz"
  shows "\<exists>c' b. mem_put cost purge_time put_time key item e sz c = Some (c', b) \<and>
           max_size (item_tuples c') = max_size (item_tuples c) \<and>
           b = (accepts e \<and> map_of ys key = None \<and> cost t \<le> max_size (item_tuples c)) \<and>
           mem_rel cost c' (if accepts e then fst (spec_assign cost (max_size (item_tuples c)) key t ys)
                            else ys) \<and>
           (\<forall>i. registered c' i =
              (if purge_time \<le> i then registered c i else {}) \<union>
              (if b \<and> has_expiry e \<and> i = absolute_expiry put_time e then {key} else {}))"
proof -
  obtain c1 r1 where c1: "purge_expired cost purge_time c = Some (c1, r1)"
      "mem_rel cost c1 ys" "max_size (item_tuples c1) = max_size (item_tuples c)"
      "map_of (item_expiries c1) = map_of (item_expiries c) |` {i. purge_time \<le> i}"
    using purge_expired_rel [OF r, of purge_time] unfolding ys_def by blast
  have reg1: "registered c1 i = (if purge_time \<le> i then registered c i else {})" for i
    by (simp add: registered_def c1(4) restrict_map_def)
  show ?thesis
  proof (cases "accepts e")
    case False
    then show ?thesis using c1 reg1 by (auto simp: mem_put_def accepts_def)
  next
    case True
    have ok': "\<not> (has_expiry e \<and> e \<le> 0)" "\<not> (has_expiry e \<and> kExpiryMax < e + put_time)"
      using True ok by (auto simp: accepts_def time_ok_def)
    let ?mx = "max_size (item_tuples c)"
    obtain zs it ins ev where sp: "spec_assign cost ?mx key t ys = (zs, (it, ins), ev)"
      by (metis surj_pair)
    obtain lru where lru: "lru_insert_or_assign cost key t (item_tuples c1) = Some (lru, (it, ins), ev)"
        "lru_rel cost lru zs" "max_size lru = ?mx"
      using lru_insert_or_assign_refines [of cost "item_tuples c1" ys key t] c1(2,3) sp
      by (auto simp: mem_rel_def)
    have ins: "ins \<longleftrightarrow> map_of ys key = None \<and> cost t \<le> ?mx"
      using sp by (auto simp: spec_assign_def not_less split: option.splits if_splits prod.splits)
    let ?c2 = "fold on_eviction ev (c1\<lparr>item_tuples := lru\<rparr>)"
    let ?ae = "absolute_expiry put_time e"
    let ?index = "smap_touch ?ae [] (item_expiries ?c2)"
    let ?c3 = "if ins \<and> has_expiry e
               then ?c2\<lparr>item_expiries := smap_put ?ae (the (map_of ?index ?ae) @ [t]) ?index\<rparr> else ?c2"
    have put: "mem_put cost purge_time put_time key item e sz c = Some (?c3, ins)"
      using c1(1) lru(1) ok'
      by (auto simp: mem_put_def t_def new_tuple_def absolute_expiry_def Let_def)
    have wf: "smap_wf (item_expiries ?c2)" using c1(2) by (simp add: mem_rel_def)
    have reg2: "registered ?c2 i = registered c1 i" for i
      by (simp add: fold_on_eviction_registered) (simp add: registered_def)
    have key: "tuple_key t = key" by (simp add: t_def new_tuple_def)
    have "registered ?c3 i = registered c1 i \<union> (if ins \<and> has_expiry e \<and> i = ?ae then {key} else {})" for i
    proof (cases "ins \<and> has_expiry e")
      case True
      show ?thesis unfolding if_P [OF True] registered_push_back reg2 key using True by simp
    next
      case False
      show ?thesis unfolding if_not_P [OF False] reg2 using False by auto
    qed
    moreover have "mem_rel cost ?c3 zs" using lru(2) wf by (simp add: mem_rel_def)
    moreover have "max_size (item_tuples ?c3) = ?mx" using lru(3) by simp
    ultimately show ?thesis using put ins sp True reg1 by simp
  qed
qed

lemma mem_get_rel:
  assumes r: "mem_rel cost c xs"
  shows "\<exists>c'. mem_get cost now key c =
           Some (c', case map_of xs key of None \<Rightarrow> None
                     | Some t \<Rightarrow> if tuple_expiry t < now then None else tuple_item t) \<and>
         max_size (item_tuples c') = max_size (item_tuples c) \<and>
         mem_rel cost c' (case map_of xs key of None \<Rightarrow> xs
                          | Some t \<Rightarrow> if tuple_expiry t < now
                              then filter (\<lambda>x. fst x \<notin> registered c (tuple_expiry t)) (to_front key t xs)
                              else to_front key t xs) \<and>
         (\<forall>i. registered c' i =
            (if \<exists>t. map_of xs key = Some t \<and> tuple_expiry t < now \<and> i = tuple_expiry t
             then {} else registered c i))"
proof -
  obtain lru where lru: "lru_find key (item_tuples c) =
        Some (lru, if map_of xs key = None then None else Some key)"
      "lru_rel cost lru (fst (spec_find key xs))" "max_size lru = max_size (item_tuples c)"
    using lru_find_refines [of cost "item_tuples c" xs key] r by (auto simp: mem_rel_def)
  let ?c = "c\<lparr>item_tuples := lru\<rparr>"
  have reg: "registered ?c i = registered c i" for i by (simp add: registered_def)
  show ?thesis
  proof (cases "map_of xs key")
    case None
    then show ?thesis using lru r reg by (simp add: mem_get_def mem_rel_def spec_find_def)
  next
    case (Some t)
    have v: "it_value lru (Some key) = Some t"
      using it_value_rel [OF lru(2), of key] Some by (simp add: spec_find_def map_of_to_front)
    have r': "mem_rel cost ?c (to_front key t xs)"
      using lru(2) r Some by (simp add: mem_rel_def spec_find_def)
    show ?thesis
    proof (cases "tuple_expiry t < now")
      case True
      obtain c' b where c': "purge_expired_at cost (tuple_expiry t) ?c = Some (c', b)"
          "mem_rel cost c' (filter (\<lambda>x. fst x \<notin> registered ?c (tuple_expiry t)) (to_front key t xs))"
          "max_size (item_tuples c') = max_size (item_tuples ?c)"
          "map_of (item_expiries c') = (map_of (item_expiries ?c))(tuple_expiry t := None)"
        using purge_expired_at_rel [OF r', of "tuple_expiry t"] by blast
      have "registered c' i = (if i = tuple_expiry t then {} else registered c i)" for i
        by (simp add: registered_def c'(4))
      then show ?thesis using lru(1,3) Some v True c' reg by (simp add: mem_get_def)
    next
      case False
      then show ?thesis using lru Some v r' reg by (auto simp: mem_get_def)
    qed
  qed
qed

lemma mem_remove_rel:
  assumes "mem_rel cost c xs"
  shows "\<exists>c'. mem_remove cost key c = Some (c', map_of xs key \<noteq> None) \<and>
         mem_rel cost c' (spec_erase key xs) \<and>
         max_size (item_tuples c') = max_size (item_tuples c) \<and> item_expiries c' = item_expiries c"
  using lru_erase_refines [of cost "item_tuples c" xs key] assms
  by (auto simp: mem_remove_def mem_rel_def)

lemma mem_clear_rel:
  "mem_rel cost (mem_clear c) [] \<and> max_size (item_tuples (mem_clear c)) = max_size (item_tuples c)"
  by (simp add: mem_rel_def mem_clear_def lru_rel_clear) (simp add: lru_clear_def)

lemma remove_prefix_loop_rel:
  assumes "lru_rel cost lru (xs @ ys)" and "length ys \<le> n"
  shows "\<exists>lru'. remove_prefix_loop cost pre n (hd_key ys None) lru = Some lru' \<and>
         lru_rel cost lru' (xs @ filter (\<lambda>x. take (length pre) (fst x) \<noteq> pre) ys) \<and>
         max_size lru' = max_size lru"
  using assms
proof (induction ys arbitrary: n xs lru)
  case Nil
  then show ?case by simp
next
  case (Cons y ys)
  obtain k v where y: "y = (k, v)" by fastforce
  obtain m where n: "n = Suc m" "length ys \<le> m" using Cons.prems(2) by (cases n) auto
  show ?case
  proof (cases "take (length pre) k = pre")
    case True
    obtain lru1 where lru1: "lru_erase_it cost (Some k) lru = Some (lru1, hd_key ys None)"
        "lru_rel cost lru1 (xs @ ys)" "max_size lru1 = max_size lru"
      using lru_erase_it_rel [of cost lru xs k v ys] Cons.prems(1) y by auto
    show ?thesis using Cons.IH [OF lru1(2) n(2)] lru1 True n y by simp
  next
    case False
    have "it_advance lru (Some k) = Some (hd_key ys None)"
      using it_advance_rel [of cost lru xs k v ys] Cons.prems(1) y by auto
    then show ?thesis using Cons.IH [of lru "xs @ [y]" m] Cons.prems(1) False n y by simp
  qed
qed

lemma mem_remove_prefix_rel:
  assumes "mem_rel cost c xs"
  shows "\<exists>c'. mem_remove_keys_with_prefix cost pre c = Some c' \<and>
         mem_rel cost c' (filter (\<lambda>x. take (length pre) (fst x) \<noteq> pre) xs) \<and>
         max_size (item_tuples c') = max_size (item_tuples c) \<and> item_expiries c' = item_expiries c"
proof -
  have l: "lru_rel cost (item_tuples c) ([] @ xs)" using assms by (simp add: mem_rel_def)
  have "length (cache_map (item_tuples c)) = length xs" "first_it (item_tuples c) = hd_key xs None"
    using l lru_rel_length lru_rel_begin by fastforce+
  then show ?thesis
    using remove_prefix_loop_rel [OF l, of "length xs" pre] assms
    by (auto simp: mem_remove_keys_with_prefix_def mem_rel_def)
qed

section \<open>Runs of the cache\<close>

datatype 'a mem_op =
    MPut int int string "'a option" int u64
  | MGet int string
  | MRemove string
  | MRemoveKeysWithPrefix string
  | MClear

fun mem_step ::
  "('a item_tuple \<Rightarrow> u64) \<Rightarrow> 'a mem_cache \<Rightarrow> 'a mem_op \<Rightarrow> ('a mem_cache \<times> 'a option) option" where
  "mem_step cost c (MPut purge_time put_time k item e sz) =
     do { (c, _) \<leftarrow> mem_put cost purge_time put_time k item e sz c; Some (c, None) }"
| "mem_step cost c (MGet now k) = mem_get cost now k c"
| "mem_step cost c (MRemove k) = do { (c, _) \<leftarrow> mem_remove cost k c; Some (c, None) }"
| "mem_step cost c (MRemoveKeysWithPrefix p) =
     do { c \<leftarrow> mem_remove_keys_with_prefix cost p c; Some (c, None) }"
| "mem_step cost c MClear = Some (mem_clear c, None)"

text \<open>The map of values that were written, and what the cache still shows of it.\<close>

fun mem_effect :: "'a mem_op \<Rightarrow> (string \<rightharpoonup> 'a) \<Rightarrow> (string \<rightharpoonup> 'a)" where
  "mem_effect (MPut purge_time put_time k item e sz) m = (if accepts e then m(k := item) else m)"
| "mem_effect (MGet now k) m = m"
| "mem_effect (MRemove k) m = m(k := None)"
| "mem_effect (MRemoveKeysWithPrefix p) m = m |` {k. take (length p) k \<noteq> p}"
| "mem_effect MClear m = Map.empty"

fun mem_asks :: "'a mem_op \<Rightarrow> string option" where
  "mem_asks (MGet now k) = Some k"
| "mem_asks _ = None"

fun mem_op_ok :: "'a mem_op \<Rightarrow> bool" where
  "mem_op_ok (MPut purge_time put_time k item e sz) = time_ok put_time e"
| "mem_op_ok _ = True"

definition shown :: "(string \<times> 'a item_tuple) list \<Rightarrow> string \<rightharpoonup> 'a" where
  "shown xs k = Option.bind (map_of xs k) tuple_item"

definition mem_view :: "'a mem_cache \<Rightarrow> string \<rightharpoonup> 'a" where
  "mem_view c = shown (lru_items (item_tuples c))"

definition mem_inv :: "('a item_tuple \<Rightarrow> u64) \<Rightarrow> 'a mem_cache \<Rightarrow> bool" where
  "mem_inv cost c \<longleftrightarrow> (\<exists>xs. mem_rel cost c xs)"

lemma mem_rel_view: "mem_rel cost c xs \<Longrightarrow> mem_view c = shown xs"
  unfolding mem_view_def mem_rel_def by (metis lru_items_rel)

lemma shown_mono: "map_of xs \<subseteq>\<^sub>m map_of ys \<Longrightarrow> shown xs \<subseteq>\<^sub>m shown ys"
proof (unfold map_le_def, intro ballI)
  fix j assume le: "\<forall>a \<in> dom (map_of xs). map_of xs a = map_of ys a" and j: "j \<in> dom (shown xs)"
  then have "j \<in> dom (map_of xs)" by (auto simp: shown_def domIff Option.bind_eq_None_conv)
  with le have "map_of xs j = map_of ys j" by blast
  then show "shown xs j = shown ys j" by (simp add: shown_def)
qed

lemma shown_upd: "map_of xs \<subseteq>\<^sub>m (map_of ys)(k \<mapsto> t) \<Longrightarrow> shown xs \<subseteq>\<^sub>m (shown ys)(k := tuple_item t)"
proof (unfold map_le_def, intro ballI)
  fix j assume le: "\<forall>a \<in> dom (map_of xs). map_of xs a = ((map_of ys)(k \<mapsto> t)) a" and j: "j \<in> dom (shown xs)"
  then have "j \<in> dom (map_of xs)" by (auto simp: shown_def domIff Option.bind_eq_None_conv)
  with le have "map_of xs j = ((map_of ys)(k \<mapsto> t)) j" by blast
  then show "shown xs j = ((shown ys)(k := tuple_item t)) j"
    by (simp add: shown_def split: if_splits)
qed

text \<open>Each operation on a well formed cache is defined, and loses or writes as specified.\<close>

lemma mem_step_rel:
  assumes r: "mem_rel cost c xs" and ok: "mem_op_ok p"
  shows "\<exists>c' a ys. mem_step cost c p = Some (c', a) \<and> mem_rel cost c' ys \<and>
           max_size (item_tuples c') = max_size (item_tuples c) \<and>
           shown ys \<subseteq>\<^sub>m mem_effect p (shown xs) \<and>
           (\<forall>v. a = Some v \<longrightarrow> (\<exists>k. mem_asks p = Some k \<and> shown xs k = Some v))"
proof (cases p)
  case (MPut pt t k item e sz)
  let ?t = "new_tuple t k item e sz"
  have s: "map_of (survivors c pt xs) \<subseteq>\<^sub>m map_of xs"
    using map_of_filter_fst [of "\<lambda>x. \<forall>e < pt. x \<notin> registered c e" xs] by (simp add: survivors_def)
  have "shown (fst (spec_assign cost mx k ?t (survivors c pt xs))) \<subseteq>\<^sub>m (shown xs)(k := item)" for mx
  proof -
    have "map_of (fst (spec_assign cost mx k ?t (survivors c pt xs))) \<subseteq>\<^sub>m (map_of xs)(k \<mapsto> ?t)"
      by (rule map_le_trans [OF map_of_spec_assign map_le_upd [OF s]])
    from shown_upd [OF this] show ?thesis by (simp add: new_tuple_def)
  qed
  moreover obtain c' b where "mem_put cost pt t k item e sz c = Some (c', b)"
      "max_size (item_tuples c') = max_size (item_tuples c)"
      "mem_rel cost c' (if accepts e then fst (spec_assign cost (max_size (item_tuples c)) k ?t (survivors c pt xs))
                        else survivors c pt xs)"
    using mem_put_rel [OF r, of t e pt k item sz] ok MPut by auto
  ultimately show ?thesis
    using MPut shown_mono [OF s] by (cases "accepts e") auto
next
  case (MGet now k)
  have tf: "map_of xs k = Some t \<Longrightarrow> map_of (to_front k t xs) = map_of xs" for t
    by (auto simp: map_of_to_front_upd)
  moreover have "map_of xs k = Some t \<Longrightarrow>
      map_of (filter (\<lambda>x. fst x \<notin> A) (to_front k t xs)) \<subseteq>\<^sub>m map_of xs" for A t
    using map_of_filter_fst [of "\<lambda>x. x \<notin> A" "to_front k t xs"] tf [of t] by simp
  ultimately have "shown (case map_of xs k of None \<Rightarrow> xs
       | Some t \<Rightarrow> if tuple_expiry t < now
           then filter (\<lambda>x. fst x \<notin> registered c (tuple_expiry t)) (to_front k t xs)
           else to_front k t xs) \<subseteq>\<^sub>m shown xs"
    by (intro shown_mono) (auto split: option.split)
  moreover have "(case map_of xs k of None \<Rightarrow> None
       | Some t \<Rightarrow> if tuple_expiry t < now then None else tuple_item t) = Some v \<Longrightarrow> shown xs k = Some v" for v
    by (auto simp: shown_def split: option.splits if_splits)
  ultimately show ?thesis using mem_get_rel [OF r, of now k] MGet by auto
next
  case (MRemove k)
  have "shown (spec_erase k xs) \<subseteq>\<^sub>m (shown xs)(k := None)"
    by (auto simp: map_le_def shown_def map_of_spec_erase)
  then show ?thesis using mem_remove_rel [OF r, of k] MRemove by auto
next
  case (MRemoveKeysWithPrefix q)
  have "shown (filter (\<lambda>x. take (length q) (fst x) \<noteq> q) xs) \<subseteq>\<^sub>m (shown xs) |` {k. take (length q) k \<noteq> q}"
    using map_of_filter_fst [of "\<lambda>k. take (length q) k \<noteq> q" xs]
    by (auto simp: map_le_def shown_def restrict_map_def)
  then show ?thesis using mem_remove_prefix_rel [OF r, of q] MRemoveKeysWithPrefix by auto
next
  case MClear
  then show ?thesis using mem_clear_rel [of cost c] by (auto simp: shown_def map_le_def)
qed

text \<open>The contract with the users of the cache.\<close>

interpretation mem: lossy_cache
  "\<lambda>c p. if mem_op_ok p then mem_step cost c p else None" mem_view "mem_inv cost" mem_effect mem_asks
proof unfold_locales
  fix c c' :: "'a mem_cache" and p r
  assume inv: "mem_inv cost c" and step: "(if mem_op_ok p then mem_step cost c p else None) = Some (c', r)"
  then obtain xs ys where r: "mem_rel cost c xs" and s: "mem_rel cost c' ys"
      "shown ys \<subseteq>\<^sub>m mem_effect p (shown xs)"
      "\<forall>v. r = Some v \<longrightarrow> (\<exists>k. mem_asks p = Some k \<and> shown xs k = Some v)"
    using mem_step_rel [of cost c _ p] by (fastforce simp: mem_inv_def split: if_splits)
  show "mem_inv cost c'" using s(1) by (auto simp: mem_inv_def)
  show "mem_view c' \<subseteq>\<^sub>m mem_effect p (mem_view c)"
    using s(2) mem_rel_view [OF r] mem_rel_view [OF s(1)] by simp
next
  fix c c' :: "'a mem_cache" and p v
  assume inv: "mem_inv cost c"
    and step: "(if mem_op_ok p then mem_step cost c p else None) = Some (c', Some v)"
  then show "\<exists>k. mem_asks p = Some k \<and> mem_view c k = Some v"
    using mem_step_rel [of cost c _ p] mem_rel_view [of cost c]
    by (fastforce simp: mem_inv_def split: if_splits)
next
  fix m m' :: "string \<rightharpoonup> 'a" and p
  assume "m \<subseteq>\<^sub>m m'"
  then show "mem_effect p m \<subseteq>\<^sub>m mem_effect p m'"
    by (cases p) (auto simp: map_le_def restrict_map_def)
qed

lemma mem_step_inv:
  assumes "mem_inv cost c" and "mem_op_ok p"
  obtains c' a where "mem_step cost c p = Some (c', a)" "mem_inv cost c'"
proof -
  obtain xs where "mem_rel cost c xs" using assms(1) unfolding mem_inv_def by blast
  from mem_step_rel [OF this assms(2)] that show thesis unfolding mem_inv_def by blast
qed

lemma mem_run_defined:
  assumes "mem_inv cost c" and "\<forall>p \<in> set ps. mem_op_ok p"
  shows "\<exists>c' rs. run_steps (mem_step cost) c ps = Some (c', rs) \<and> mem_inv cost c'"
  using assms
proof (induction ps arbitrary: c)
  case Nil
  then show ?case by simp
next
  case (Cons p ps)
  then obtain c1 a where c1: "mem_step cost c p = Some (c1, a)" "mem_inv cost c1"
    by (auto elim: mem_step_inv)
  moreover obtain c2 rs where "run_steps (mem_step cost) c1 ps = Some (c2, rs)" "mem_inv cost c2"
    using Cons.IH [OF c1(2)] Cons.prems(2) by auto
  ultimately show ?case by simp
qed

lemma run_steps_guard:
  "\<forall>p \<in> set ps. mem_op_ok p \<Longrightarrow>
   run_steps (\<lambda>c p. if mem_op_ok p then mem_step cost c p else None) c ps = run_steps (mem_step cost) c ps"
  by (induction ps arbitrary: c) simp_all

section \<open>Properties\<close>



text \<open>
  \<open>Get\<close> answers a cached item while its expiry time is not over, makes it the most recently
  used one, and never answers an expired one.
\<close>

theorem mem_get_unexpired:
  assumes r: "mem_rel cost c xs"
  shows "\<exists>c'. mem_get cost now key c =
           Some (c', case map_of xs key of None \<Rightarrow> None
                     | Some t \<Rightarrow> if tuple_expiry t < now then None else tuple_item t) \<and>
         (\<forall>t. map_of xs key = Some t \<and> now \<le> tuple_expiry t \<longrightarrow>
              lru_items (item_tuples c') = to_front key t xs)"
proof -
  obtain c' where c': "mem_get cost now key c =
           Some (c', case map_of xs key of None \<Rightarrow> None
                     | Some t \<Rightarrow> if tuple_expiry t < now then None else tuple_item t)"
      "mem_rel cost c' (case map_of xs key of None \<Rightarrow> xs
                          | Some t \<Rightarrow> if tuple_expiry t < now
                              then filter (\<lambda>x. fst x \<notin> registered c (tuple_expiry t)) (to_front key t xs)
                              else to_front key t xs)"
    using mem_get_rel [OF r, of now key] by blast
  have "lru_items (item_tuples c') = to_front key t xs"
    if "map_of xs key = Some t" "now \<le> tuple_expiry t" for t
    using c'(2) that lru_items_rel [of cost "item_tuples c'"] by (simp add: mem_rel_def)
  then show ?thesis using c'(1) by blast
qed

lemma mem_rel_singleton:
  "mem_rel default_cache_cost
     \<lparr>item_tuples = \<lparr>cache_map = [(k, \<lparr>next_it = None, previous_it = None, bucket_value = t\<rparr>)],
        first_it = Some k, last_it = Some k, max_size = mx, cache_size = default_cache_cost t\<rparr>,
      item_expiries = [(e, [t])]\<rparr> [(k, t)]"
  by (auto simp: mem_rel_def lru_rel_def smap_wf_def)

theorem mem_get_unexpired_witness:
  "\<exists>c c'. mem_get default_cache_cost 4 ''k'' c = Some (c', Some (9 :: nat))"
proof -
  let ?t = "\<lparr>tuple_key = ''k'', tuple_expiry = 5, tuple_item = Some 9, tuple_size = 1\<rparr> :: nat item_tuple"
  from mem_get_unexpired [OF mem_rel_singleton [of "''k''" ?t 10 5], of 4 "''k''"]
  show ?thesis by auto
qed

text \<open>
  \<open>RemoveKeysWithPrefix\<close> removes exactly the keys that start with the prefix and keeps the
  others in their recency order; its loop ends although it erases under its own iterator.
\<close>

theorem mem_remove_prefix_exact:
  assumes "mem_rel cost c xs"
  shows "\<exists>c'. mem_remove_keys_with_prefix cost pre c = Some c' \<and>
           lru_items (item_tuples c') = filter (\<lambda>x. \<not> prefix pre (fst x)) xs \<and>
           item_expiries c' = item_expiries c"
proof -
  have p: "take (length pre) k = pre \<longleftrightarrow> prefix pre k" for k
    by (auto simp: prefix_def) (metis append_take_drop_id)
  obtain c' where c': "mem_remove_keys_with_prefix cost pre c = Some c'"
      "mem_rel cost c' (filter (\<lambda>x. take (length pre) (fst x) \<noteq> pre) xs)"
      "item_expiries c' = item_expiries c"
    using mem_remove_prefix_rel [OF assms, of pre] by blast
  then show ?thesis
    using lru_items_rel [of cost "item_tuples c'"] p by (simp add: mem_rel_def)
qed

theorem mem_remove_prefix_exact_witness:
  "\<exists>(t :: nat item_tuple) c c'. mem_remove_keys_with_prefix default_cache_cost ''ab'' c = Some c' \<and>
     lru_items (item_tuples c) = [(''abc'', t)] \<and> lru_items (item_tuples c') = []"
proof -
  define t where "t = \<lparr>tuple_key = ''abc'', tuple_expiry = 5, tuple_item = Some (9 :: nat), tuple_size = 1\<rparr>"
  let ?c = "\<lparr>item_tuples = \<lparr>cache_map = [(''abc'', \<lparr>next_it = None, previous_it = None, bucket_value = t\<rparr>)],
        first_it = Some ''abc'', last_it = Some ''abc'', max_size = 10,
        cache_size = default_cache_cost t\<rparr>, item_expiries = [(5, [t])]\<rparr>"
  have r: "mem_rel default_cache_cost ?c [(''abc'', t)]" by (rule mem_rel_singleton)
  then have "lru_items (item_tuples ?c) = [(''abc'', t)]"
    unfolding mem_rel_def by (blast intro: lru_items_rel)
  then show ?thesis using mem_remove_prefix_exact [OF r, of "''ab''"] by fastforce
qed

text \<open>
  A \<open>Put\<close> on a key that is already cached stores the new item but returns false, and the
  expiry time of the new item is not entered in the expiry index.
\<close>

theorem mem_put_overwrite_returns_false:
  assumes r: "mem_rel cost c xs" and ok: "time_ok put_time e" and acc: "accepts e"
    and old: "map_of (survivors c purge_time xs) key = Some w"
    and fit: "cost (new_tuple put_time key item e sz) \<le> max_size (item_tuples c)"
  shows "\<exists>c'. mem_put cost purge_time put_time key item e sz c = Some (c', False) \<and>
           hd (lru_items (item_tuples c')) = (key, new_tuple put_time key item e sz) \<and>
           (\<forall>i \<ge> purge_time. registered c' i = registered c i)"
proof -
  let ?t = "new_tuple put_time key item e sz" and ?mx = "max_size (item_tuples c)"
  let ?ys = "survivors c purge_time xs"
  obtain zs ev where e: "spec_evict cost ?mx (to_front key ?t ?ys) = (zs, ev)" by fastforce
  obtain c' where c': "mem_put cost purge_time put_time key item e sz c = Some (c', False)"
      "mem_rel cost c' zs" "\<forall>i \<ge> purge_time. registered c' i = registered c i"
    using mem_put_rel [OF r ok, of purge_time key item sz] acc old e by (auto simp: spec_assign_def)
  have "zs \<noteq> []"
  proof
    assume "zs = []"
    then have "?mx < total cost [(key, ?t)]"
      using spec_evict_result [OF e, THEN conjunct2, THEN conjunct2, rule_format,
          of "[(key, ?t)]" "filter (\<lambda>e. fst e \<noteq> key) ?ys"]
      by (simp add: to_front_def)
    then show False using fit by simp
  qed
  then have "hd zs = (key, ?t)"
    using spec_evict_result [OF e] by (cases zs) (auto simp: to_front_def)
  then show ?thesis
    using c' lru_items_rel [of cost "item_tuples c'" zs] by (auto simp: mem_rel_def)
qed

theorem mem_put_overwrite_returns_false_witness:
  "\<exists>c c'. mem_put default_cache_cost 0 0 ''k'' (Some (2 :: nat)) 7 1 c = Some (c', False) \<and>
     tuple_item (snd (hd (lru_items (item_tuples c')))) = Some 2"
proof -
  let ?t = "\<lparr>tuple_key = ''k'', tuple_expiry = 5, tuple_item = Some 9, tuple_size = 1\<rparr> :: nat item_tuple"
  let ?c = "\<lparr>item_tuples = \<lparr>cache_map = [(''k'', \<lparr>next_it = None, previous_it = None, bucket_value = ?t\<rparr>)],
        first_it = Some ''k'', last_it = Some ''k'', max_size = 10,
        cache_size = default_cache_cost ?t\<rparr>, item_expiries = [(5, [?t])]\<rparr>"
  have r: "mem_rel default_cache_cost ?c [(''k'', ?t)]" by (rule mem_rel_singleton)
  have s: "map_of (survivors ?c 0 [(''k'', ?t)]) ''k'' = Some ?t"
    by (auto simp: survivors_def registered_def split: option.splits if_splits)
  have "time_ok 0 7" "accepts 7"
    by (simp_all add: time_ok_def accepts_def kExpiryMax_def)
  from mem_put_overwrite_returns_false [OF r this s, of "Some 2" 1]
  obtain c' where "mem_put default_cache_cost 0 0 ''k'' (Some 2) 7 1 ?c = Some (c', False)"
      "hd (lru_items (item_tuples c')) = (''k'', new_tuple 0 ''k'' (Some 2) 7 1)"
    by (auto simp: default_cache_cost_def new_tuple_def)
  then show ?thesis by (intro exI [of _ ?c] exI [of _ c']) (simp add: new_tuple_def)
qed

text \<open>
  The index entry of an overwritten item outlives it. A key put with an expiry, then put again
  without one, is dropped by the next \<open>Put\<close> of any key after the first expiry, although the item
  that is cached then never expires; without that third \<open>Put\<close> it is still answered.
\<close>

theorem mem_stale_expiry_drops_live_item:
  "map_option snd (run_steps (mem_step default_cache_cost) (mem_new 10)
     [MPut 0 0 ''a'' (Some (1 :: nat)) 10 1, MPut 1 1 ''a'' (Some 2) kExpiryMax 1,
      MPut 20 20 ''b'' (Some 3) kExpiryMax 1, MGet 20 ''a'']) = Some [None, None, None, None] \<and>
   map_option snd (run_steps (mem_step default_cache_cost) (mem_new 10)
     [MPut 0 0 ''a'' (Some (1 :: nat)) 10 1, MPut 1 1 ''a'' (Some 2) kExpiryMax 1,
      MGet 20 ''a'']) = Some [None, None, Some 2]"
  by code_simp

end
