(* ===== verification/DiskCache.thy ===== *)
theory DiskCache
  imports ApiError "HOL-Library.Char_ord" "HOL-Library.List_Lexorder"
begin

unbundle bit_operations_syntax

text \<open>
  The disk cache of \<open>src/cache/DiskCache.cpp\<close> and the size limiting environment of
  \<open>src/cache/DiskCacheSizeLimitEnv.cpp\<close> and \<open>src/cache/DiskCacheSizeLimitWritableFile.cpp\<close>.

  LevelDB and the file system are outside of the sources: their functions are the fields of a record
  \<open>storage_api\<close>, and their state is a world that these functions pass on. What the caches rely on is
  the predicate \<open>storage_laws\<close>.
\<close>

section \<open>The storage interface\<close>

datatype db_status = DbOk | DbNotFound | DbCorruption | DbNotSupported | DbInvalidArgument | DbIOError

record open_options =
  create_if_missing :: bool
  write_buffer_size :: u64
  max_file_size_option :: "u64 option"
  size_limited :: "(string \<times> bool) option"

record ('w, 'd) storage_api =
  dir_exists :: "string \<Rightarrow> 'w \<Rightarrow> bool"
  dir_create :: "string \<Rightarrow> 'w \<Rightarrow> bool \<times> 'w"
  dir_remove :: "string \<Rightarrow> 'w \<Rightarrow> bool \<times> 'w"
  env_create_dir :: "string \<Rightarrow> 'w \<Rightarrow> 'w"
  env_delete_dir :: "string \<Rightarrow> 'w \<Rightarrow> 'w"
  env_children :: "string \<Rightarrow> 'w \<Rightarrow> string list option"
  repair_db :: "string \<Rightarrow> 'w \<Rightarrow> db_status \<times> 'w"
  destroy_db :: "string \<Rightarrow> 'w \<Rightarrow> db_status \<times> 'w"
  db_open :: "open_options \<Rightarrow> string \<Rightarrow> 'w \<Rightarrow> (db_status \<times> 'd) \<times> 'w"
  db_close :: "'d \<Rightarrow> 'w \<Rightarrow> 'w"
  db_put :: "'d \<Rightarrow> string \<Rightarrow> string \<Rightarrow> 'w \<Rightarrow> db_status \<times> 'w"
  db_get :: "'d \<Rightarrow> string \<Rightarrow> 'w \<Rightarrow> db_status \<times> string"
  db_delete :: "'d \<Rightarrow> string \<Rightarrow> 'w \<Rightarrow> db_status \<times> 'w"
  db_keys_from :: "'d \<Rightarrow> bool \<Rightarrow> string option \<Rightarrow> 'w \<Rightarrow> string list"
  db_write_deletes :: "'d \<Rightarrow> string list \<Rightarrow> 'w \<Rightarrow> db_status \<times> 'w"
  env_size :: "string \<Rightarrow> 'w \<Rightarrow> u64"

section \<open>State\<close>

datatype open_result = OpenFail | OpenRepaired | OpenSuccess

record storage_settings =
  max_disk_storage :: u64
  max_chunk_size :: u64
  enforce_immediate_flush :: bool
  max_file_size :: u64

definition default_storage_settings :: storage_settings where
  "default_storage_settings =
     \<lparr>max_disk_storage = 0, max_chunk_size = 32 * 1024 * 1024, enforce_immediate_flush = True,
      max_file_size = 2 * 1024 * 1024\<rparr>"

text \<open>\<open>environment_\<close> is the path it counts, \<open>error_\<close> the last error of \<open>Open\<close>.\<close>

record 'd disk_cache =
  disk_cache_path :: string
  database :: "'d option"
  environment :: "string option"
  disk_max_size :: u64
  check_crc :: bool
  open_error :: api_error

definition kSizeMax :: u64 where
  "kSizeMax = - 1"

definition disk_new :: "'d disk_cache" where
  "disk_new = \<lparr>disk_cache_path = [], database = None, environment = None, disk_max_size = kSizeMax,
               check_crc = False, open_error = default_error\<rparr>"

section \<open>Opening\<close>

text \<open>\<open>OpenOptions\<close> are bits of an unsigned char.\<close>

abbreviation (input) ReadOnly :: u8 where
  "ReadOnly \<equiv> 1"

abbreviation (input) CheckCrc :: u8 where
  "CheckCrc \<equiv> 2"

text \<open>The split at runs of the delimiter, empty parts dropped.\<close>

fun split_at :: "char \<Rightarrow> string \<Rightarrow> string \<Rightarrow> string list" where
  "split_at d [] part = [part]"
| "split_at d (c # cs) part = (if c = d then part # split_at d cs [] else split_at d cs (part @ [c]))"

definition tokenize_path :: "string \<Rightarrow> char \<Rightarrow> string list" where
  "tokenize_path directory_name delimiter = filter (\<lambda>p. p \<noteq> []) (split_at delimiter directory_name [])"

definition create_dir :: "('w, 'd) storage_api \<Rightarrow> string \<Rightarrow> 'w \<Rightarrow> 'w" where
  "create_dir api directory_name w =
     (let names = tokenize_path directory_name CHR ''/'';
          names = (if length names \<le> 1 then tokenize_path directory_name (char_of (92 :: nat)) else names)
      in snd (fold (\<lambda>name (path, w). let path = path @ name @ ''/'' in (path, env_create_dir api path w))
                names (''/'', w)))"

definition repair_cache :: "('w, 'd) storage_api \<Rightarrow> string \<Rightarrow> 'w \<Rightarrow> bool \<times> 'w" where
  "repair_cache api data_path w =
     (let (status, w) = repair_db api data_path w in
      if status = DbOk then (True, env_delete_dir api (data_path @ ''/lost'') w)
      else (let (status, w) = destroy_db api data_path w in
            if status \<noteq> DbOk then (False, w) else (True, w)))"

definition remove_other_db :: "('w, 'd) storage_api \<Rightarrow> string \<Rightarrow> string \<Rightarrow> 'w \<Rightarrow> 'w" where
  "remove_other_db api data_path data_path_to_keep w =
     (case env_children api data_path w of
        None \<Rightarrow> w
      | Some path_contents \<Rightarrow>
          fold (\<lambda>item w.
              let full_path = data_path @ ''/'' @ item in
              if item = ''..'' then w
              else if full_path = data_path_to_keep then w
              else snd (destroy_db api full_path w))
            path_contents w)"

text \<open>Later checks of the status override earlier ones.\<close>

definition set_open_error :: "db_status \<Rightarrow> string \<Rightarrow> 'd disk_cache \<Rightarrow> 'd disk_cache" where
  "set_open_error status message c =
     (let code = Unknown;
          code = (if status = DbNotFound then NotFound else code);
          code = (if status = DbInvalidArgument then InvalidArgument else code);
          code = (if status = DbCorruption \<or> status = DbIOError then InternalFailure else code);
          code = (if status = DbNotSupported then BadRequest else code)
      in c\<lparr>open_error := api_error_of_code code message False\<rparr>)"

definition disk_open ::
  "('w, 'd) storage_api \<Rightarrow> (db_status \<Rightarrow> string) \<Rightarrow> string \<Rightarrow> string \<Rightarrow> storage_settings \<Rightarrow> u8 \<Rightarrow>
   'd disk_cache \<Rightarrow> 'w \<Rightarrow> open_result \<times> 'd disk_cache \<times> 'w" where
  "disk_open api status_text data_path versioned_data_path settings options c w =
     (let c = c\<lparr>disk_cache_path := data_path\<rparr>;
          (ok, w) = (if dir_exists api data_path w then (True, w) else dir_create api data_path w)
      in if \<not> ok then (OpenFail, c, w)
      else
       (let is_read_only = (options AND ReadOnly = ReadOnly);
            c = c\<lparr>disk_max_size := max_disk_storage settings\<rparr>;
            opts = \<lparr>create_if_missing = False, write_buffer_size = max_chunk_size settings,
                    max_file_size_option = (if max_file_size settings \<noteq> 0 then Some (max_file_size settings) else None),
                    size_limited = None\<rparr>;
            (opts, c, w) =
              (if is_read_only then (opts, c, w)
               else
                (let opts = opts\<lparr>create_if_missing := True\<rparr>;
                     w = create_dir api data_path w;
                     w = (if data_path \<noteq> versioned_data_path
                          then remove_other_db api data_path versioned_data_path w else w)
                 in if disk_max_size c \<noteq> kSizeMax
                    then (opts\<lparr>size_limited := Some (versioned_data_path, enforce_immediate_flush settings)\<rparr>,
                          c\<lparr>environment := Some versioned_data_path\<rparr>, w)
                    else (opts, c, w)));
            c = c\<lparr>check_crc := (options AND CheckCrc \<noteq> 0)\<rparr>;
            ((status, db), w) = db_open api opts versioned_data_path w;
            (repaired, w) =
              (if (status = DbCorruption \<or> status = DbIOError) \<and> \<not> is_read_only
               then repair_cache api versioned_data_path w else (False, w))
        in if repaired
           then (let ((status, db), w) = db_open api opts versioned_data_path w in
                 if status = DbOk then (OpenRepaired, c\<lparr>database := Some db\<rparr>, w)
                 else (OpenFail, set_open_error status (status_text status) c, w))
           else if status \<noteq> DbOk then (OpenFail, set_open_error status (status_text status) c, w)
           else (OpenSuccess, c\<lparr>database := Some db\<rparr>, w)))"

section \<open>Operations\<close>

definition release_database :: "('w, 'd) storage_api \<Rightarrow> 'd disk_cache \<Rightarrow> 'w \<Rightarrow> 'd disk_cache \<times> 'w" where
  "release_database api c w =
     (c\<lparr>database := None\<rparr>, (case database c of None \<Rightarrow> w | Some d \<Rightarrow> db_close api d w))"

definition disk_close :: "('w, 'd) storage_api \<Rightarrow> 'd disk_cache \<Rightarrow> 'w \<Rightarrow> 'd disk_cache \<times> 'w" where
  "disk_close api c w = release_database api c w"

definition disk_clear :: "('w, 'd) storage_api \<Rightarrow> 'd disk_cache \<Rightarrow> 'w \<Rightarrow> bool \<times> 'd disk_cache \<times> 'w" where
  "disk_clear api c w =
     (let (c, w) = release_database api c w in
      if disk_cache_path c \<noteq> []
      then (let (ok, w) = dir_remove api (disk_cache_path c) w in (ok, c, w))
      else (True, c, w))"

definition disk_put :: "('w, 'd) storage_api \<Rightarrow> string \<Rightarrow> string \<Rightarrow> 'd disk_cache \<Rightarrow> 'w \<Rightarrow> bool \<times> 'w" where
  "disk_put api key val c w =
     (case database c of
        None \<Rightarrow> (False, w)
      | Some d \<Rightarrow>
          (if (case environment c of None \<Rightarrow> False
               | Some p \<Rightarrow> disk_max_size c \<noteq> kSizeMax \<and> disk_max_size c \<le> env_size api p w)
           then (False, w)
           else (let (status, w) = db_put api d key val w in (status = DbOk, w))))"

definition disk_get :: "('w, 'd) storage_api \<Rightarrow> string \<Rightarrow> 'd disk_cache \<Rightarrow> 'w \<Rightarrow> string option" where
  "disk_get api key c w =
     (case database c of
        None \<Rightarrow> None
      | Some d \<Rightarrow> (let (status, res) = db_get api d key w in if status = DbOk then Some res else None))"

definition disk_remove :: "('w, 'd) storage_api \<Rightarrow> string \<Rightarrow> 'd disk_cache \<Rightarrow> 'w \<Rightarrow> bool \<times> 'w" where
  "disk_remove api key c w =
     (case database c of
        None \<Rightarrow> (False, w)
      | Some d \<Rightarrow> (let (status, w) = db_delete api d key w in (status = DbOk, w)))"

definition disk_remove_keys_with_prefix ::
  "('w, 'd) storage_api \<Rightarrow> string \<Rightarrow> 'd disk_cache \<Rightarrow> 'w \<Rightarrow> bool \<times> 'w" where
  "disk_remove_keys_with_prefix api pre c w =
     (case database c of
        None \<Rightarrow> (False, w)
      | Some d \<Rightarrow>
          (let batch =
             (if pre = [] then db_keys_from api d (check_crc c) None w
              else takeWhile (\<lambda>k. take (length pre) k = pre) (db_keys_from api d (check_crc c) (Some pre) w));
               (status, w) = db_write_deletes api d batch w
           in (status = DbOk, w)))"


section \<open>The size limiting environment\<close>

text \<open>
  \<open>DiskCacheSizeLimitEnv\<close> keeps the total size of the files below its path, as LevelDB writes and
  deletes them. A writable file without a target swallows what is written to it.
\<close>

record size_env =
  total_size :: u64
  enforce_strict_data_save :: bool

definition size_env_new :: "bool \<Rightarrow> (string \<Rightarrow> u64 option) \<Rightarrow> string \<Rightarrow> string list option \<Rightarrow> size_env" where
  "size_env_new enforce file_size base_path children =
     \<lparr>total_size =
        (case children of None \<Rightarrow> 0
         | Some cs \<Rightarrow> fold (\<lambda>child total.
               case file_size (base_path @ ''/'' @ child) of None \<Rightarrow> total | Some sz \<Rightarrow> total + sz) cs 0),
      enforce_strict_data_save = enforce\<rparr>"

text \<open>\<open>compare\<close> at a position past the end throws: \<^term>\<open>None\<close> for names below four characters.\<close>

definition is_log_file :: "string \<Rightarrow> bool option" where
  "is_log_file name =
     (if length name < 4 then None else Some (drop (length name - 4) name = ''.log''))"

text \<open>
  The result of \<open>NewWritableFile\<close>: the status, and whether the new file has a target, given the status
  of the environment below. \<^term>\<open>None\<close> is the exception of \<open>is_log_file\<close>.
\<close>

definition new_writable_file :: "string \<Rightarrow> db_status \<Rightarrow> size_env \<Rightarrow> (db_status \<times> bool) option" where
  "new_writable_file f target_status e =
     (if enforce_strict_data_save e then Some (target_status, target_status = DbOk)
      else map_option (\<lambda>is_log. if \<not> is_log then (target_status, target_status = DbOk) else (DbOk, False))
             (is_log_file f))"

definition env_delete_file :: "u64 option \<Rightarrow> size_env \<Rightarrow> size_env" where
  "env_delete_file file_size e =
     (case file_size of None \<Rightarrow> e | Some sz \<Rightarrow> e\<lparr>total_size := total_size e - sz\<rparr>)"

definition env_add_size :: "u64 \<Rightarrow> size_env \<Rightarrow> size_env" where
  "env_add_size sz e = e\<lparr>total_size := total_size e + sz\<rparr>"

definition file_append :: "bool \<Rightarrow> db_status \<Rightarrow> u64 \<Rightarrow> size_env \<Rightarrow> db_status \<times> size_env" where
  "file_append has_target target_status sz e =
     (if has_target then (target_status, env_add_size sz e) else (DbOk, e))"

text \<open>\<open>Close\<close>, \<open>Flush\<close> and \<open>Sync\<close> of the file forward to the target.\<close>

definition file_forward :: "bool \<Rightarrow> db_status \<Rightarrow> db_status" where
  "file_forward has_target target_status = (if has_target then target_status else DbOk)"

section \<open>What the caches rely on\<close>

text \<open>
  The documented behaviour of a LevelDB handle, over the content \<open>contents d w\<close> of the database \<open>d\<close> in
  the world \<open>w\<close>: a successful write is visible, a failed one has happened or has not, a write to one
  database leaves the others alone; \<open>Get\<close> finds what is there; an iterator runs through the keys in
  order from where it was set.
\<close>

definition wrote :: "('d \<Rightarrow> 'w \<Rightarrow> (string \<rightharpoonup> string)) \<Rightarrow> 'd \<Rightarrow> 'w \<Rightarrow> db_status \<times> 'w \<Rightarrow>
    (string \<rightharpoonup> string) \<Rightarrow> bool" where
  "wrote contents d w r new \<longleftrightarrow>
     (\<forall>d'. d' \<noteq> d \<longrightarrow> contents d' (snd r) = contents d' w) \<and>
     (if fst r = DbOk then contents d (snd r) = new
      else contents d (snd r) = new \<or> contents d (snd r) = contents d w)"

definition storage_laws :: "('w, 'd) storage_api \<Rightarrow> ('d \<Rightarrow> 'w \<Rightarrow> (string \<rightharpoonup> string)) \<Rightarrow> bool" where
  "storage_laws api contents \<longleftrightarrow>
     (\<forall>d w k v. wrote contents d w (db_put api d k v w) ((contents d w)(k \<mapsto> v))) \<and>
     (\<forall>d w k. wrote contents d w (db_delete api d k w) ((contents d w)(k := None))) \<and>
     (\<forall>d w ks. wrote contents d w (db_write_deletes api d ks w) (contents d w |` (- set ks))) \<and>
     (\<forall>d w k. fst (db_get api d k w) = DbOk \<longrightarrow> contents d w k = Some (snd (db_get api d k w))) \<and>
     (\<forall>d w k. fst (db_get api d k w) = DbNotFound \<longrightarrow> contents d w k = None) \<and>
     (\<forall>d w crc from. set (db_keys_from api d crc from w) =
        {k \<in> dom (contents d w). case from of None \<Rightarrow> True | Some p \<Rightarrow> p \<le> k} \<and>
        sorted_wrt (<) (db_keys_from api d crc from w))"

lemma laws_put: "storage_laws api contents \<Longrightarrow> wrote contents d w (db_put api d k v w) ((contents d w)(k \<mapsto> v))"
  and laws_delete: "storage_laws api contents \<Longrightarrow> wrote contents d w (db_delete api d k w) ((contents d w)(k := None))"
  and laws_deletes: "storage_laws api contents \<Longrightarrow>
    wrote contents d w (db_write_deletes api d ks w) (contents d w |` (- set ks))"
  and laws_get: "storage_laws api contents \<Longrightarrow> db_get api d k w = (DbOk, v) \<Longrightarrow> contents d w k = Some v"
  and laws_keys: "storage_laws api contents \<Longrightarrow> set (db_keys_from api d crc from w) =
        {k \<in> dom (contents d w). case from of None \<Rightarrow> True | Some p \<Rightarrow> p \<le> k}"
  and laws_sorted: "storage_laws api contents \<Longrightarrow> sorted_wrt (<) (db_keys_from api d crc from w)"
  unfolding storage_laws_def by (metis fst_conv snd_conv)+

text \<open>The keys with a prefix are the first ones from the prefix on, in the order of the database.\<close>

lemma prefix_le: "take (length p) k = p \<Longrightarrow> p \<le> (k :: string)"
proof -
  assume "take (length p) k = p"
  then have "k = p @ drop (length p) k" by (metis append_take_drop_id)
  moreover have "p \<le> p @ s" for s :: string by (induction p) auto
  ultimately show "p \<le> k" by metis
qed

lemma prefix_between:
  "p \<le> x \<Longrightarrow> x \<le> p @ s \<Longrightarrow> take (length p) x = (p :: string)"
proof (induction p arbitrary: x)
  case (Cons c p)
  then obtain d y where x: "x = d # y" by (cases x) auto
  with Cons show ?case by auto
qed simp

lemma takeWhile_prefix_keys:
  assumes "sorted_wrt (<) ks" "\<forall>k \<in> set ks. p \<le> k"
  shows "set (takeWhile (\<lambda>k. take (length p) k = p) ks) = {k \<in> set ks. take (length p) k = (p :: string)}"
  using assms
proof (induction ks)
  case (Cons k ks)
  show ?case
  proof (cases "take (length p) k = p")
    case True
    then show ?thesis using Cons by auto
  next
    case False
    have "take (length p) j \<noteq> p" if "j \<in> set ks" for j
    proof
      assume "take (length p) j = p"
      then have "j = p @ drop (length p) j" by (metis append_take_drop_id)
      moreover have "k < j" "p \<le> k" using Cons.prems that by auto
      ultimately have "take (length p) k = p" by (metis less_imp_le prefix_between)
      with False show False ..
    qed
    with False show ?thesis by auto
  qed
qed simp

section \<open>What the operations do to the content\<close>

lemma disk_put_content:
  assumes "storage_laws api contents" "disk_put api k v c w = (ok, w')" "database c = Some d"
  shows "contents d w' = (contents d w)(k \<mapsto> v) \<or> \<not> ok \<and> contents d w' = contents d w"
    "d' \<noteq> d \<Longrightarrow> contents d' w' = contents d' w"
  using laws_put [OF assms(1), of d w k v] assms(2,3)
  by (auto simp: disk_put_def wrote_def split: if_splits option.splits prod.splits)

lemma disk_remove_content:
  assumes "storage_laws api contents" "disk_remove api k c w = (ok, w')" "database c = Some d"
  shows "contents d w' = (contents d w)(k := None) \<or> \<not> ok \<and> contents d w' = contents d w"
    "d' \<noteq> d \<Longrightarrow> contents d' w' = contents d' w"
  using laws_delete [OF assms(1), of d w k] assms(2,3)
  by (auto simp: disk_remove_def wrote_def split: if_splits option.splits prod.splits)

lemma disk_get_content:
  assumes "storage_laws api contents" "disk_get api k c w = Some v"
  shows "\<exists>d. database c = Some d \<and> contents d w k = Some v"
  using assms(2) laws_get [OF assms(1)]
  by (auto simp: disk_get_def split: option.splits prod.splits if_splits)

lemma batch_keys:
  assumes l: "storage_laws api contents"
  shows "set (if pre = [] then db_keys_from api d crc None w
          else takeWhile (\<lambda>k. take (length pre) k = pre) (db_keys_from api d crc (Some pre) w))
    = {k \<in> dom (contents d w). take (length pre) k = pre}"
proof (cases "pre = []")
  case False
  have "\<forall>k \<in> set (db_keys_from api d crc (Some pre) w). pre \<le> k"
    using laws_keys [OF l, of d crc "Some pre" w] by auto
  from takeWhile_prefix_keys [OF laws_sorted [OF l] this] show ?thesis
    using False laws_keys [OF l, of d crc "Some pre" w] prefix_le [of pre] by auto
qed (auto simp: laws_keys [OF l])

lemma disk_remove_prefix_content:
  assumes "storage_laws api contents" "disk_remove_keys_with_prefix api pre c w = (ok, w')" "database c = Some d"
  shows "contents d w' = contents d w |` {k. take (length pre) k \<noteq> pre} \<or> \<not> ok \<and> contents d w' = contents d w"
    "d' \<noteq> d \<Longrightarrow> contents d' w' = contents d' w"
proof -
  let ?b = "if pre = [] then db_keys_from api d (check_crc c) None w
          else takeWhile (\<lambda>k. take (length pre) k = pre) (db_keys_from api d (check_crc c) (Some pre) w)"
  have r: "contents d w |` (- set ?b) = contents d w |` {k. take (length pre) k \<noteq> pre}"
    unfolding batch_keys [OF assms(1)] by (auto simp: restrict_map_def fun_eq_iff domIff)
  note b = laws_deletes [OF assms(1), of d w ?b, unfolded r]
  obtain st where "db_write_deletes api d ?b w = (st, w')" "ok \<longleftrightarrow> st = DbOk"
    using assms(2,3) by (cases "db_write_deletes api d ?b w")
      (simp add: disk_remove_keys_with_prefix_def Let_def split del: if_split)
  note p = this b [unfolded this(1) wrote_def fst_conv snd_conv]
  show "contents d w' = contents d w |` {k. take (length pre) k \<noteq> pre} \<or> \<not> ok \<and> contents d w' = contents d w"
    using p by (auto split: if_splits)
  show "d' \<noteq> d \<Longrightarrow> contents d' w' = contents d' w"
    using p by (auto split: if_splits)
qed

text \<open>
  \<open>RemoveKeysWithPrefix\<close> of the disk cache, when it reports success, has removed exactly the keys
  with the prefix: the walk from the prefix to the first other key meets all of them. When it reports
  failure the content is either that or the old one.
\<close>

theorem disk_remove_prefix_exact:
  assumes "storage_laws api contents" "database c = Some d"
    and "disk_remove_keys_with_prefix api pre c w = (ok, w')"
  shows "contents d w' = contents d w |` {k. take (length pre) k \<noteq> pre} \<or> \<not> ok \<and> contents d w' = contents d w"
  by (rule disk_remove_prefix_content [OF assms(1,3,2)])

text \<open>An instance of the interface: one database that is an association list.\<close>

definition list_storage :: "((string \<times> string) list, unit) storage_api" where
  "list_storage =
     \<lparr>dir_exists = \<lambda>_ _. True, dir_create = \<lambda>_ w. (True, w), dir_remove = \<lambda>_ _. (True, []),
      env_create_dir = \<lambda>_ w. w, env_delete_dir = \<lambda>_ w. w, env_children = \<lambda>_ _. Some [],
      repair_db = \<lambda>_ w. (DbOk, w), destroy_db = \<lambda>_ _. (DbOk, []),
      db_open = \<lambda>_ _ w. ((DbOk, ()), w), db_close = \<lambda>_ w. w,
      db_put = \<lambda>_ k v w. (DbOk, (k, v) # w),
      db_get = \<lambda>_ k w. (case map_of w k of None \<Rightarrow> (DbNotFound, []) | Some v \<Rightarrow> (DbOk, v)),
      db_delete = \<lambda>_ k w. (DbOk, filter (\<lambda>x. fst x \<noteq> k) w),
      db_keys_from = \<lambda>_ _ from w.
        filter (\<lambda>k. case from of None \<Rightarrow> True | Some p \<Rightarrow> p \<le> k) (sorted_list_of_set (fst ` set w)),
      db_write_deletes = \<lambda>_ ks w. (DbOk, filter (\<lambda>x. fst x \<notin> set ks) w),
      env_size = \<lambda>_ _. 0\<rparr>"

lemma list_storage_laws: "storage_laws list_storage (\<lambda>_. map_of)"
proof -
  have "map_of (filter (\<lambda>x. fst x \<noteq> k) w) = (map_of w)(k := None)" for k and w :: "(string \<times> string) list"
    by (induction w) (auto simp: fun_eq_iff)
  moreover have "map_of (filter (\<lambda>x. fst x \<notin> S) w) = map_of w |` (- S)" for S and w :: "(string \<times> string) list"
    by (induction w) (auto simp: fun_eq_iff restrict_map_def)
  ultimately show ?thesis
    by (auto simp: storage_laws_def wrote_def list_storage_def dom_map_of_conv_image_fst sorted_wrt_filter
        split: option.splits)
qed

lemma disk_remove_prefix_exact_witness:
  "\<exists>ok w'. disk_remove_keys_with_prefix list_storage ''ab'' (disk_new\<lparr>database := Some ()\<rparr>)
      [(''abc'', ''1''), (''b'', ''2'')] = (ok, w') \<and>
    (map_of w' = map_of [(''abc'', ''1''), (''b'', ''2'')] |` {k. take (length ''ab'') k \<noteq> ''ab''} \<or>
     \<not> ok \<and> map_of w' = map_of [(''abc'', ''1''), (''b'', ''2'')])"
proof -
  let ?w = "[(''abc'', ''1''), (''b'', ''2'')]"
  obtain ok w' where r: "disk_remove_keys_with_prefix list_storage ''ab'' (disk_new\<lparr>database := Some ()\<rparr>) ?w = (ok, w')"
    by fastforce
  have d: "database (disk_new\<lparr>database := Some ()\<rparr>) = Some ()" by simp
  from disk_remove_prefix_exact [OF list_storage_laws d r] r show ?thesis by blast
qed

section \<open>The size limiting environment\<close>

datatype env_event = Appended bool u64 | Deleted "u64 option"

fun env_step :: "env_event \<Rightarrow> size_env \<Rightarrow> size_env" where
  "env_step (Appended has_target n) e = snd (file_append has_target DbOk n e)"
| "env_step (Deleted n) e = env_delete_file n e"

fun env_change :: "env_event \<Rightarrow> u64" where
  "env_change (Appended has_target n) = (if has_target then n else 0)"
| "env_change (Deleted n) = - (case n of None \<Rightarrow> 0 | Some m \<Rightarrow> m)"

text \<open>
  the counter of the size limiting environment stays the sum of the sizes of the files, whatever is
  appended to files with a target and deleted: writing what is deleted later comes out even, also when
  the 64 bit counter wraps in between.
\<close>

theorem env_counts_files:
  "total_size (fold env_step es e) = total_size e + sum_list (map env_change es)"
proof (induction es arbitrary: e)
  case (Cons x es)
  have "total_size (env_step x e) = total_size e + env_change x"
    by (cases x) (auto simp: file_append_def env_add_size_def env_delete_file_def split: option.split)
  with Cons show ?case by (simp add: add.assoc)
qed simp

end
