(* ===== verification/DefaultCache.thy ===== *)
theory DefaultCache
  imports InMemoryCache DiskCache Decimal
begin

text \<open>
  The default cache of \<open>src/cache/DefaultCache.cpp\<close>: the in-memory cache in front of a protected and a
  mutable disk cache.

  Exceptions and undefined behaviour are the faults on the left of a sum. The clock gives the times that
  the operation reads, in the order in which it reads them. The lock makes every operation atomic.
\<close>

section \<open>State\<close>

datatype fault = Undefined | BadAnyCast | StolFailed

text \<open>What a \<open>boost::any\<close> of the cache holds: shared bytes, or a value of another type.\<close>

datatype 'm cached_value = Bytes string | Typed 'm

record cache_settings =
  cs_disk_path :: "string option"
  cs_disk_path_mutable :: "string option"
  cs_max_disk_storage :: u64
  cs_max_chunk_size :: u64
  cs_enforce_immediate_flush :: bool
  cs_max_file_size :: u64
  cs_max_memory_cache_size :: u64
  cs_open_options :: u8
  cs_disk_path_protected :: "string option"

definition default_cache_settings :: cache_settings where
  "default_cache_settings =
     \<lparr>cs_disk_path = None, cs_disk_path_mutable = None, cs_max_disk_storage = 1024 * 1024 * 32,
      cs_max_chunk_size = 1024 * 1024 * 32, cs_enforce_immediate_flush = True,
      cs_max_file_size = 1024 * 1024 * 2, cs_max_memory_cache_size = 1024 * 1024, cs_open_options = 0,
      cs_disk_path_protected = None\<rparr>"

record ('m, 'd) default_cache =
  cache_settings_of :: cache_settings
  is_open :: bool
  memory_cache :: "'m cached_value mem_cache option"
  mutable_cache :: "'d disk_cache option"
  protected_cache :: "'d disk_cache option"

datatype storage_open_result = StorageSuccess | OpenDiskPathFailure

abbreviation (input) kDefaultExpiry :: int where
  "kDefaultExpiry \<equiv> kExpiryMax"

definition dc_new :: "cache_settings \<Rightarrow> ('m, 'd) default_cache" where
  "dc_new settings =
     \<lparr>cache_settings_of = settings, is_open = False, memory_cache = None, mutable_cache = None,
      protected_cache = None\<rparr>"

section \<open>Expiry of disk items\<close>

definition create_expiry_key :: "string \<Rightarrow> string" where
  "create_expiry_key key = key @ ''::expiry''"

definition get_remaining_expiry_time ::
  "('w, 'd) storage_api \<Rightarrow> int \<Rightarrow> string \<Rightarrow> 'd disk_cache \<Rightarrow> 'w \<Rightarrow> fault + int" where
  "get_remaining_expiry_time api now key disk w =
     (case disk_get api (create_expiry_key key) disk w of
        None \<Rightarrow> Inr kDefaultExpiry
      | Some expiry_value \<Rightarrow>
          (case stol expiry_value of
             None \<Rightarrow> Inl StolFailed
           | Some expiry \<Rightarrow> if expiry - now < - (2 ^ 63) then Inl Undefined else Inr (expiry - now)))"

definition purge_disk_item :: "('w, 'd) storage_api \<Rightarrow> string \<Rightarrow> 'd disk_cache \<Rightarrow> 'w \<Rightarrow> 'w" where
  "purge_disk_item api key disk w =
     (let (_, w) = disk_remove api key disk w;
          (_, w) = disk_remove api (create_expiry_key key) disk w
      in w)"

definition store_expiry ::
  "('w, 'd) storage_api \<Rightarrow> int \<Rightarrow> string \<Rightarrow> int \<Rightarrow> 'd disk_cache \<Rightarrow> 'w \<Rightarrow> fault + (bool \<times> 'w)" where
  "store_expiry api now key expiry disk w =
     (if kExpiryMax < expiry + now then Inl Undefined
      else Inr (disk_put api (create_expiry_key key) (int_to_string (expiry + now)) disk w))"

definition validate_disk_path :: "cache_settings \<Rightarrow> cache_settings" where
  "validate_disk_path settings =
     (if cs_disk_path_mutable settings = None
      then settings\<lparr>cs_disk_path_mutable := cs_disk_path settings\<rparr> else settings)"

section \<open>Opening and closing\<close>

definition close_disk :: "('w, 'd) storage_api \<Rightarrow> 'd disk_cache option \<Rightarrow> 'w \<Rightarrow> 'w" where
  "close_disk api disk w = (case disk of None \<Rightarrow> w | Some d \<Rightarrow> snd (disk_close api d w))"

definition open_mutable ::
  "('w, 'd) storage_api \<Rightarrow> (db_status \<Rightarrow> string) \<Rightarrow> ('m, 'd) default_cache \<Rightarrow> 'w \<Rightarrow>
   storage_open_result \<times> ('m, 'd) default_cache \<times> 'w" where
  "open_mutable api text c w =
     (case cs_disk_path_mutable (cache_settings_of c) of
        None \<Rightarrow> (StorageSuccess, c, w)
      | Some path \<Rightarrow>
          (let s = cache_settings_of c;
               storage = \<lparr>max_disk_storage = cs_max_disk_storage s, max_chunk_size = cs_max_chunk_size s,
                          enforce_immediate_flush = cs_enforce_immediate_flush s,
                          max_file_size = cs_max_file_size s\<rparr>;
               (status, disk, w) = disk_open api text path path storage 0 disk_new w
           in if status = OpenFail
              then (OpenDiskPathFailure,
                    c\<lparr>mutable_cache := None, cache_settings_of := s\<lparr>cs_disk_path_mutable := None\<rparr>\<rparr>,
                    close_disk api (Some disk) w)
              else (StorageSuccess, c\<lparr>mutable_cache := Some disk\<rparr>, w)))"

definition open_protected ::
  "('w, 'd) storage_api \<Rightarrow> (db_status \<Rightarrow> string) \<Rightarrow> ('m, 'd) default_cache \<Rightarrow> 'w \<Rightarrow>
   storage_open_result \<times> ('m, 'd) default_cache \<times> 'w" where
  "open_protected api text c w =
     (case cs_disk_path_protected (cache_settings_of c) of
        None \<Rightarrow> (StorageSuccess, c, w)
      | Some path \<Rightarrow>
          (let s = cache_settings_of c;
               (status, disk, w) = disk_open api text path path default_storage_settings ReadOnly disk_new w
           in if status = OpenFail
              then (OpenDiskPathFailure,
                    c\<lparr>protected_cache := None, cache_settings_of := s\<lparr>cs_disk_path_protected := None\<rparr>\<rparr>,
                    close_disk api (Some disk) w)
              else (StorageSuccess, c\<lparr>protected_cache := Some disk\<rparr>, w)))"

definition setup_storage ::
  "('w, 'd) storage_api \<Rightarrow> (db_status \<Rightarrow> string) \<Rightarrow> ('m, 'd) default_cache \<Rightarrow> 'w \<Rightarrow>
   storage_open_result \<times> ('m, 'd) default_cache \<times> 'w" where
  "setup_storage api text c w =
     (let w = close_disk api (mutable_cache c) w;
          w = close_disk api (protected_cache c) w;
          c = c\<lparr>memory_cache := None, mutable_cache := None, protected_cache := None\<rparr>;
          sz = cs_max_memory_cache_size (cache_settings_of c);
          c = (if 0 < sz then c\<lparr>memory_cache := Some (mem_new sz)\<rparr> else c);
          c = c\<lparr>cache_settings_of := validate_disk_path (cache_settings_of c)\<rparr>;
          (r1, c, w) = open_mutable api text c w;
          (r2, c, w) = open_protected api text c w
      in (if r2 \<noteq> StorageSuccess then r2 else r1, c, w))"

definition dc_open ::
  "('w, 'd) storage_api \<Rightarrow> (db_status \<Rightarrow> string) \<Rightarrow> ('m, 'd) default_cache \<Rightarrow> 'w \<Rightarrow>
   storage_open_result \<times> ('m, 'd) default_cache \<times> 'w" where
  "dc_open api text c w = setup_storage api text (c\<lparr>is_open := True\<rparr>) w"

definition dc_close :: "('w, 'd) storage_api \<Rightarrow> ('m, 'd) default_cache \<Rightarrow> 'w \<Rightarrow> ('m, 'd) default_cache \<times> 'w" where
  "dc_close api c w =
     (if \<not> is_open c then (c, w)
      else (let w = close_disk api (mutable_cache c) w;
                w = close_disk api (protected_cache c) w
            in (c\<lparr>memory_cache := None, mutable_cache := None, protected_cache := None, is_open := False\<rparr>, w)))"

definition dc_clear ::
  "('w, 'd) storage_api \<Rightarrow> (db_status \<Rightarrow> string) \<Rightarrow> ('m, 'd) default_cache \<Rightarrow> 'w \<Rightarrow>
   bool \<times> ('m, 'd) default_cache \<times> 'w" where
  "dc_clear api text c w =
     (if \<not> is_open c then (False, c, w)
      else
       (let c = c\<lparr>memory_cache := map_option mem_clear (memory_cache c)\<rparr>;
            (ok, c, w) =
              (case mutable_cache c of
                 None \<Rightarrow> (True, c, w)
               | Some disk \<Rightarrow> (let (ok, disk, w) = disk_clear api disk w in (ok, c\<lparr>mutable_cache := Some disk\<rparr>, w)))
        in if \<not> ok then (False, c, w)
           else (let (r, c, w) = setup_storage api text c w in (r = StorageSuccess, c, w))))"

section \<open>Reading and writing\<close>

definition memory_put ::
  "int \<Rightarrow> int \<Rightarrow> string \<Rightarrow> 'm cached_value option \<Rightarrow> int \<Rightarrow> nat \<Rightarrow> ('m, 'd) default_cache \<Rightarrow>
   fault + ('m, 'd) default_cache" where
  "memory_put now1 now2 key val expiry sz c =
     (case memory_cache c of
        None \<Rightarrow> Inr c
      | Some m \<Rightarrow>
          (case mem_put default_cache_cost now1 now2 key val expiry (of_nat sz) m of
             None \<Rightarrow> Inl Undefined
           | Some (m, _) \<Rightarrow> Inr (c\<lparr>memory_cache := Some m\<rparr>)))"

definition mutable_put ::
  "('w, 'd) storage_api \<Rightarrow> int \<Rightarrow> string \<Rightarrow> string \<Rightarrow> int \<Rightarrow> ('m, 'd) default_cache \<Rightarrow> 'w \<Rightarrow>
   fault + (bool \<times> 'w)" where
  "mutable_put api now key data expiry c w =
     (case mutable_cache c of
        None \<Rightarrow> Inr (True, w)
      | Some disk \<Rightarrow>
          (if expiry < kDefaultExpiry
           then (case store_expiry api now key expiry disk w of
                   Inl e \<Rightarrow> Inl e
                 | Inr (ok, w) \<Rightarrow> if \<not> ok then Inr (False, w) else Inr (disk_put api key data disk w))
           else Inr (disk_put api key data disk w)))"

text \<open>
  \<open>Put\<close> with an encoder; \<open>encoded\<close> is what the encoder returns. The clock is read twice by the
  in-memory cache and once for the expiry on disk.
\<close>

definition dc_put ::
  "('w, 'd) storage_api \<Rightarrow> (nat \<Rightarrow> int) \<Rightarrow> string \<Rightarrow> 'm cached_value option \<Rightarrow> string \<Rightarrow> int \<Rightarrow>
   ('m, 'd) default_cache \<Rightarrow> 'w \<Rightarrow> fault + (bool \<times> ('m, 'd) default_cache \<times> 'w)" where
  "dc_put api clock key val encoded expiry c w =
     (if \<not> is_open c then Inr (False, c, w)
      else
       (case memory_put (clock 0) (clock 1) key val expiry (length encoded) c of
          Inl e \<Rightarrow> Inl e
        | Inr c \<Rightarrow>
            (case mutable_put api (clock 2) key encoded expiry c w of
               Inl e \<Rightarrow> Inl e
             | Inr (ok, w) \<Rightarrow> Inr (ok, c, w))))"

definition dc_put_bytes ::
  "('w, 'd) storage_api \<Rightarrow> (nat \<Rightarrow> int) \<Rightarrow> string \<Rightarrow> string \<Rightarrow> int \<Rightarrow>
   ('m, 'd) default_cache \<Rightarrow> 'w \<Rightarrow> fault + (bool \<times> ('m, 'd) default_cache \<times> 'w)" where
  "dc_put_bytes api clock key bytes expiry c w =
     (if \<not> is_open c then Inr (False, c, w)
      else
       (case memory_put (clock 0) (clock 1) key (Some (Bytes bytes)) expiry (length bytes) c of
          Inl e \<Rightarrow> Inl e
        | Inr c \<Rightarrow>
            (case mutable_put api (clock 2) key bytes expiry c w of
               Inl e \<Rightarrow> Inl e
             | Inr (ok, w) \<Rightarrow> Inr (ok, c, w))))"

definition get_from_disc_cache ::
  "('w, 'd) storage_api \<Rightarrow> int \<Rightarrow> string \<Rightarrow> ('m, 'd) default_cache \<Rightarrow> 'w \<Rightarrow>
   fault + ((string \<times> int) option \<times> 'w)" where
  "get_from_disc_cache api now key c w =
     (case (case protected_cache c of None \<Rightarrow> None | Some disk \<Rightarrow> disk_get api key disk w) of
        Some result \<Rightarrow> Inr (Some (result, kDefaultExpiry), w)
      | None \<Rightarrow>
          (case mutable_cache c of
             None \<Rightarrow> Inr (None, w)
           | Some disk \<Rightarrow>
               (case get_remaining_expiry_time api now key disk w of
                  Inl e \<Rightarrow> Inl e
                | Inr expiry \<Rightarrow>
                    (if expiry \<le> 0 then Inr (None, purge_disk_item api key disk w)
                     else Inr (map_option (\<lambda>result. (result, expiry)) (disk_get api key disk w), w)))))"

definition memory_get ::
  "int \<Rightarrow> string \<Rightarrow> ('m, 'd) default_cache \<Rightarrow> fault + ('m cached_value option \<times> ('m, 'd) default_cache)" where
  "memory_get now key c =
     (case memory_cache c of
        None \<Rightarrow> Inr (None, c)
      | Some m \<Rightarrow>
          (case mem_get default_cache_cost now key m of
             None \<Rightarrow> Inl Undefined
           | Some (m, val) \<Rightarrow> Inr (val, c\<lparr>memory_cache := Some m\<rparr>)))"

text \<open>The clock is read by the in-memory cache, for the disk expiry, and twice for the put into memory.\<close>

definition dc_get ::
  "('w, 'd) storage_api \<Rightarrow> (nat \<Rightarrow> int) \<Rightarrow> (string \<Rightarrow> 'm cached_value option) \<Rightarrow> string \<Rightarrow>
   ('m, 'd) default_cache \<Rightarrow> 'w \<Rightarrow> fault + ('m cached_value option \<times> ('m, 'd) default_cache \<times> 'w)" where
  "dc_get api clock decoder key c w =
     (if \<not> is_open c then Inr (None, c, w)
      else
       (case memory_get (clock 0) key c of
          Inl e \<Rightarrow> Inl e
        | Inr (Some val, c) \<Rightarrow> Inr (Some val, c, w)
        | Inr (None, c) \<Rightarrow>
            (case get_from_disc_cache api (clock 1) key c w of
               Inl e \<Rightarrow> Inl e
             | Inr (None, w) \<Rightarrow> Inr (None, c, w)
             | Inr (Some (data, expiry), w) \<Rightarrow>
                 (let decoded_item = decoder data in
                  case memory_put (clock 2) (clock 3) key decoded_item expiry (length data) c of
                    Inl e \<Rightarrow> Inl e
                  | Inr c \<Rightarrow> Inr (decoded_item, c, w)))))"

definition dc_get_bytes ::
  "('w, 'd) storage_api \<Rightarrow> (nat \<Rightarrow> int) \<Rightarrow> string \<Rightarrow> ('m, 'd) default_cache \<Rightarrow> 'w \<Rightarrow>
   fault + (string option \<times> ('m, 'd) default_cache \<times> 'w)" where
  "dc_get_bytes api clock key c w =
     (if \<not> is_open c then Inr (None, c, w)
      else
       (case memory_get (clock 0) key c of
          Inl e \<Rightarrow> Inl e
        | Inr (Some (Bytes b), c) \<Rightarrow> Inr (Some b, c, w)
        | Inr (Some (Typed _), c) \<Rightarrow> Inl BadAnyCast
        | Inr (None, c) \<Rightarrow>
            (case get_from_disc_cache api (clock 1) key c w of
               Inl e \<Rightarrow> Inl e
             | Inr (None, w) \<Rightarrow> Inr (None, c, w)
             | Inr (Some (data, expiry), w) \<Rightarrow>
                 (case memory_put (clock 2) (clock 3) key (Some (Bytes data)) expiry (length data) c of
                    Inl e \<Rightarrow> Inl e
                  | Inr c \<Rightarrow> Inr (Some data, c, w)))))"

definition dc_remove ::
  "('w, 'd) storage_api \<Rightarrow> string \<Rightarrow> ('m, 'd) default_cache \<Rightarrow> 'w \<Rightarrow>
   fault + (bool \<times> ('m, 'd) default_cache \<times> 'w)" where
  "dc_remove api key c w =
     (if \<not> is_open c then Inr (False, c, w)
      else
       (let removed = (case memory_cache c of
                         None \<Rightarrow> Some c
                       | Some m \<Rightarrow> map_option (\<lambda>(m, _). c\<lparr>memory_cache := Some m\<rparr>) (mem_remove default_cache_cost key m))
        in case removed of
             None \<Rightarrow> Inl Undefined
           | Some c \<Rightarrow>
               (case mutable_cache c of
                  None \<Rightarrow> Inr (True, c, w)
                | Some disk \<Rightarrow> (let (ok, w) = disk_remove api key disk w in Inr (ok, c, w)))))"

definition dc_remove_keys_with_prefix ::
  "('w, 'd) storage_api \<Rightarrow> string \<Rightarrow> ('m, 'd) default_cache \<Rightarrow> 'w \<Rightarrow>
   fault + (bool \<times> ('m, 'd) default_cache \<times> 'w)" where
  "dc_remove_keys_with_prefix api key c w =
     (if \<not> is_open c then Inr (False, c, w)
      else
       (let removed = (case memory_cache c of
                         None \<Rightarrow> Some c
                       | Some m \<Rightarrow> map_option (\<lambda>m. c\<lparr>memory_cache := Some m\<rparr>)
                           (mem_remove_keys_with_prefix default_cache_cost key m))
        in case removed of
             None \<Rightarrow> Inl Undefined
           | Some c \<Rightarrow>
               (case mutable_cache c of
                  None \<Rightarrow> Inr (True, c, w)
                | Some disk \<Rightarrow> (let (ok, w) = disk_remove_keys_with_prefix api key disk w in Inr (ok, c, w)))))"

section \<open>The two levels agree\<close>

text \<open>Keys that are used for the expiry of another key.\<close>

definition is_expiry_key :: "string \<Rightarrow> bool" where
  "is_expiry_key k \<longleftrightarrow> drop (length k - 8) k = ''::expiry''"

lemma is_expiry_key_create [simp]: "is_expiry_key (create_expiry_key j)"
  by (simp add: is_expiry_key_def create_expiry_key_def)

definition mem_map :: "('m, 'd) default_cache \<Rightarrow> string \<rightharpoonup> 'm cached_value" where
  "mem_map c = (case memory_cache c of None \<Rightarrow> Map.empty | Some m \<Rightarrow> mem_view m)"

definition disk_map ::
  "('d \<Rightarrow> 'w \<Rightarrow> (string \<rightharpoonup> string)) \<Rightarrow> (string \<Rightarrow> 'm cached_value option) \<Rightarrow> ('m, 'd) default_cache \<Rightarrow> 'w \<Rightarrow>
   string \<rightharpoonup> 'm cached_value" where
  "disk_map contents dec c w k =
     (case Option.bind (mutable_cache c) database of
        None \<Rightarrow> None
      | Some d \<Rightarrow> if is_expiry_key k then None else Option.bind (contents d w k) dec)"

definition mem_ok :: "('m, 'd) default_cache \<Rightarrow> bool" where
  "mem_ok c = (case memory_cache c of None \<Rightarrow> True | Some m \<Rightarrow> mem_inv default_cache_cost m)"

definition same_disks :: "('m, 'd) default_cache \<Rightarrow> ('m, 'd) default_cache \<Rightarrow> bool" where
  "same_disks c c' \<longleftrightarrow> is_open c' = is_open c \<and> mutable_cache c' = mutable_cache c \<and>
     protected_cache c' = protected_cache c \<and> cache_settings_of c' = cache_settings_of c"

lemma same_disks_refl [simp]: "same_disks c c"
  by (simp add: same_disks_def)

lemma same_disks_trans: "same_disks a b \<Longrightarrow> same_disks b c \<Longrightarrow> same_disks a c"
  by (simp add: same_disks_def)

lemma disk_map_same: "same_disks c c' \<Longrightarrow> disk_map contents dec c' w = disk_map contents dec c w"
  by (simp add: same_disks_def disk_map_def fun_eq_iff)

lemma mem_put_overflow:
  assumes "\<not> time_ok put_time e" shows "mem_put cost purge_time put_time k item e sz c = None"
  using assms by (cases "purge_expired cost purge_time c") (auto simp: mem_put_def time_ok_def)

lemma memory_put_map:
  assumes "memory_put n1 n2 k val e sz c = Inr c'" "mem_ok c"
  shows "same_disks c c'" "mem_ok c'"
    "mem_map c' \<subseteq>\<^sub>m (if accepts e then (mem_map c)(k := val) else mem_map c)"
proof -
  have "same_disks c c' \<and> mem_ok c' \<and> mem_map c' \<subseteq>\<^sub>m (if accepts e then (mem_map c)(k := val) else mem_map c)"
  proof (cases "memory_cache c")
    case None
    then show ?thesis using assms by (simp add: memory_put_def mem_map_def map_le_def)
  next
    case (Some m)
    then obtain m' b where m': "mem_put default_cache_cost n1 n2 k val e (of_nat sz) m = Some (m', b)"
        "c' = c\<lparr>memory_cache := Some m'\<rparr>"
      using assms(1) by (auto simp: memory_put_def split: option.splits)
    let ?p = "MPut n1 n2 k val e (of_nat sz)"
    have ok: "mem_op_ok ?p" using m'(1) mem_put_overflow [of n2 e default_cache_cost n1 k val "of_nat sz" m] by auto
    have st: "mem_step default_cache_cost m ?p = Some (m', None)" using m'(1) by simp
    have inv: "mem_inv default_cache_cost m" using assms(2) Some by (simp add: mem_ok_def)
    show ?thesis
      using mem.step_inv [OF inv, of ?p m' None] mem.step_view [OF inv, of ?p m' None] ok st Some m'(2)
      by (auto simp: same_disks_def mem_ok_def mem_map_def split: if_splits)
  qed
  then show "same_disks c c'" "mem_ok c'"
    "mem_map c' \<subseteq>\<^sub>m (if accepts e then (mem_map c)(k := val) else mem_map c)" by blast+
qed

lemma memory_get_map:
  assumes "memory_get n k c = Inr (val, c')" "mem_ok c"
  shows "same_disks c c'" "mem_ok c'" "mem_map c' \<subseteq>\<^sub>m mem_map c" "val = Some v \<Longrightarrow> mem_map c k = Some v"
proof -
  have "same_disks c c' \<and> mem_ok c' \<and> mem_map c' \<subseteq>\<^sub>m mem_map c \<and> (val = Some v \<longrightarrow> mem_map c k = Some v)"
  proof (cases "memory_cache c")
    case None
    then show ?thesis using assms by (simp add: memory_get_def mem_map_def map_le_def)
  next
    case (Some m)
    then obtain m' where m': "mem_get default_cache_cost n k m = Some (m', val)"
        "c' = c\<lparr>memory_cache := Some m'\<rparr>"
      using assms(1) by (auto simp: memory_get_def split: option.splits)
    have inv: "mem_inv default_cache_cost m" using assms(2) Some by (simp add: mem_ok_def)
    show ?thesis
      using mem.step_inv [OF inv, of "MGet n k" m' val] mem.step_view [OF inv, of "MGet n k" m' val]
        mem.step_answer [OF inv, of "MGet n k" m' v] m' Some
      by (auto simp: same_disks_def mem_ok_def mem_map_def)
  qed
  then show "same_disks c c'" "mem_ok c'" "mem_map c' \<subseteq>\<^sub>m mem_map c" "val = Some v \<Longrightarrow> mem_map c k = Some v"
    by blast+
qed

section \<open>Runs of the cache\<close>

datatype 'm dc_op =
    DPut "nat \<Rightarrow> int" string "'m cached_value" string int
  | DGet "nat \<Rightarrow> int" string
  | DRemove string
  | DRemoveKeysWithPrefix string

text \<open>A step of a run; it ends in \<^term>\<open>None\<close> on a fault and when a write reports failure.\<close>

fun dc_step ::
  "('w, 'd) storage_api \<Rightarrow> (string \<Rightarrow> 'm cached_value option) \<Rightarrow> ('m, 'd) default_cache \<times> 'w \<Rightarrow> 'm dc_op \<Rightarrow>
   ((('m, 'd) default_cache \<times> 'w) \<times> 'm cached_value option) option" where
  "dc_step api dec (c, w) (DPut clock k v encoded e) =
     (case dc_put api clock k (Some v) encoded e c w of Inr (True, s) \<Rightarrow> Some (s, None) | _ \<Rightarrow> None)"
| "dc_step api dec (c, w) (DGet clock k) =
     (case dc_get api clock dec k c w of Inr (r, s) \<Rightarrow> Some (s, r) | _ \<Rightarrow> None)"
| "dc_step api dec (c, w) (DRemove k) =
     (case dc_remove api k c w of Inr (True, s) \<Rightarrow> Some (s, None) | _ \<Rightarrow> None)"
| "dc_step api dec (c, w) (DRemoveKeysWithPrefix p) =
     (case dc_remove_keys_with_prefix api p c w of Inr (True, s) \<Rightarrow> Some (s, None) | _ \<Rightarrow> None)"

fun dc_effect :: "'m dc_op \<Rightarrow> (string \<rightharpoonup> 'm cached_value) \<Rightarrow> (string \<rightharpoonup> 'm cached_value)" where
  "dc_effect (DPut clock k v encoded e) m = m(k \<mapsto> v)"
| "dc_effect (DGet clock k) m = m"
| "dc_effect (DRemove k) m = m(k := None)"
| "dc_effect (DRemoveKeysWithPrefix p) m = m |` {k. take (length p) k \<noteq> p}"

fun dc_asks :: "'m dc_op \<Rightarrow> string option" where
  "dc_asks (DGet clock k) = Some k"
| "dc_asks _ = None"

fun dc_op_ok :: "(string \<Rightarrow> 'm cached_value option) \<Rightarrow> 'm dc_op \<Rightarrow> bool" where
  "dc_op_ok dec (DPut clock k v encoded e) \<longleftrightarrow> \<not> is_expiry_key k \<and> accepts e \<and> dec encoded = Some v"
| "dc_op_ok dec (DGet clock k) \<longleftrightarrow> \<not> is_expiry_key k"
| "dc_op_ok dec (DRemove k) \<longleftrightarrow> \<not> is_expiry_key k"
| "dc_op_ok dec (DRemoveKeysWithPrefix p) \<longleftrightarrow> True"

definition dc_view ::
  "('d \<Rightarrow> 'w \<Rightarrow> (string \<rightharpoonup> string)) \<Rightarrow> (string \<Rightarrow> 'm cached_value option) \<Rightarrow> ('m, 'd) default_cache \<times> 'w \<Rightarrow>
   string \<rightharpoonup> 'm cached_value" where
  "dc_view contents dec s = disk_map contents dec (fst s) (snd s) ++ mem_map (fst s)"

definition dc_inv ::
  "('w, 'd) storage_api \<Rightarrow> ('d \<Rightarrow> 'w \<Rightarrow> (string \<rightharpoonup> string)) \<Rightarrow> (string \<Rightarrow> 'm cached_value option) \<Rightarrow>
   ('m, 'd) default_cache \<times> 'w \<Rightarrow> bool" where
  "dc_inv api contents dec s \<longleftrightarrow> storage_laws api contents \<and> is_open (fst s) \<and> protected_cache (fst s) = None \<and>
     mem_ok (fst s) \<and> disk_map contents dec (fst s) (snd s) \<subseteq>\<^sub>m dc_view contents dec s"

lemma map_le_addI: "a \<subseteq>\<^sub>m V \<Longrightarrow> b \<subseteq>\<^sub>m V \<Longrightarrow> b \<subseteq>\<^sub>m b ++ a \<and> b ++ a \<subseteq>\<^sub>m V"
  by (auto simp: map_le_def map_add_def split: option.splits) (metis domI option.inject)+


lemma dc_invI:
  assumes "storage_laws api contents" "is_open c" "protected_cache c = None" "mem_ok c"
    and "mem_map c \<subseteq>\<^sub>m V" "disk_map contents dec c w \<subseteq>\<^sub>m V"
  shows "dc_inv api contents dec (c, w) \<and> dc_view contents dec (c, w) \<subseteq>\<^sub>m V"
  using assms map_le_addI [OF assms(5,6)] by (simp add: dc_inv_def dc_view_def)

lemma dc_invD:
  assumes "dc_inv api contents dec (c, w)"
  shows "storage_laws api contents" "is_open c" "protected_cache c = None" "mem_ok c"
    "mem_map c \<subseteq>\<^sub>m dc_view contents dec (c, w)" "disk_map contents dec c w \<subseteq>\<^sub>m dc_view contents dec (c, w)"
  using assms by (simp_all add: dc_inv_def dc_view_def)

lemma disk_map_mono:
  assumes "\<And>d. Option.bind (mutable_cache c) database = Some d \<Longrightarrow>
      \<forall>k. \<not> is_expiry_key k \<longrightarrow> contents d w' k = None \<or> contents d w' k = contents d w k"
  shows "disk_map contents dec c w' \<subseteq>\<^sub>m disk_map contents dec c w"
  using assms by (fastforce simp: disk_map_def map_le_def dom_def split: option.splits if_splits)

lemma purge_disk_item_content:
  assumes l: "storage_laws api contents" and d: "database disk = Some d"
  shows "contents d (purge_disk_item api k disk w) j \<in> {None, contents d w j}"
proof -
  obtain ok1 w1 where r1: "disk_remove api k disk w = (ok1, w1)" by fastforce
  obtain ok2 w2 where r2: "disk_remove api (create_expiry_key k) disk w1 = (ok2, w2)" by fastforce
  show ?thesis
    using disk_remove_content(1) [OF l r1 d] disk_remove_content(1) [OF l r2 d] r1 r2
    by (auto simp: purge_disk_item_def fun_eq_iff)
qed

lemma get_from_disc_cache_map:
  assumes l: "storage_laws api contents" and p: "protected_cache c = None"
    and g: "get_from_disc_cache api now k c w = Inr (r, w')" and k: "\<not> is_expiry_key k"
  shows "disk_map contents dec c w' \<subseteq>\<^sub>m disk_map contents dec c w"
    "r = Some (data, e) \<Longrightarrow> disk_map contents dec c w k = dec data \<and> accepts e \<and> w' = w"
proof -
  have "disk_map contents dec c w' \<subseteq>\<^sub>m disk_map contents dec c w \<and>
    (r = Some (data, e) \<longrightarrow> disk_map contents dec c w k = dec data \<and> accepts e \<and> w' = w)"
  proof (cases "mutable_cache c")
    case None
    then show ?thesis using g p by (simp add: get_from_disc_cache_def disk_map_def map_le_def)
  next
    case (Some disk)
    then obtain expiry where ex: "get_remaining_expiry_time api now k disk w = Inr expiry"
      using g p by (auto simp: get_from_disc_cache_def split: sum.splits)
    show ?thesis
    proof (cases "expiry \<le> 0")
      case True
      then have "r = None" "w' = purge_disk_item api k disk w"
        using g p Some ex by (simp_all add: get_from_disc_cache_def)
      moreover have "disk_map contents dec c (purge_disk_item api k disk w) \<subseteq>\<^sub>m disk_map contents dec c w"
        using purge_disk_item_content [OF l, of disk _ k w] Some
        by (intro disk_map_mono) (auto split: option.splits)
      ultimately show ?thesis by simp
    next
      case False
      then have r: "r = map_option (\<lambda>result. (result, expiry)) (disk_get api k disk w)" "w' = w"
        using g p Some ex by (auto simp: get_from_disc_cache_def)
      have "r = Some (data, e) \<longrightarrow> disk_map contents dec c w k = dec data \<and> accepts e"
        using disk_get_content [OF l, of k disk w data] False r Some k
        by (auto simp: disk_map_def accepts_def)
      with r(2) show ?thesis by simp
    qed
  qed
  then show "disk_map contents dec c w' \<subseteq>\<^sub>m disk_map contents dec c w"
    "r = Some (data, e) \<Longrightarrow> disk_map contents dec c w k = dec data \<and> accepts e \<and> w' = w" by blast+
qed

lemma mutable_put_map:
  assumes l: "storage_laws api contents" and m: "mutable_put api now k data e c w = Inr (True, w')"
    and k: "\<not> is_expiry_key k"
  shows "disk_map contents dec c w' \<subseteq>\<^sub>m (disk_map contents dec c w)(k := dec data)"
proof (cases "mutable_cache c")
  case None
  then show ?thesis using m by (auto simp: disk_map_def map_le_def)
next
  case (Some disk)
  show ?thesis
  proof (cases "database disk")
    case None
    then show ?thesis using Some by (auto simp: disk_map_def map_le_def)
  next
    case d: (Some d)
    have "\<exists>w1. (\<forall>j. \<not> is_expiry_key j \<longrightarrow> contents d w1 j = contents d w j) \<and> disk_put api k data disk w1 = (True, w')"
    proof (cases "e < kDefaultExpiry")
      case True
      then obtain w1 where w1: "store_expiry api now k e disk w = Inr (True, w1)"
          "disk_put api k data disk w1 = (True, w')"
        using m Some by (auto simp: mutable_put_def split: sum.splits if_splits)
      then have "disk_put api (create_expiry_key k) (int_to_string (e + now)) disk w = (True, w1)"
        by (auto simp: store_expiry_def split: if_splits)
      from disk_put_content(1) [OF l this d] have "contents d w1 j = contents d w j" if "\<not> is_expiry_key j" for j
        using that by auto
      with w1(2) show ?thesis by blast
    qed (use m Some in \<open>auto simp: mutable_put_def\<close>)
    then obtain w1 where w1: "\<And>j. \<not> is_expiry_key j \<Longrightarrow> contents d w1 j = contents d w j"
        "disk_put api k data disk w1 = (True, w')" by blast
    from disk_put_content(1) [OF l w1(2) d] have "contents d w' = (contents d w1)(k \<mapsto> data)" by simp
    then show ?thesis using w1(1) k Some d by (auto simp: disk_map_def map_le_def)
  qed
qed

lemma dc_put_step:
  assumes i: "dc_inv api contents dec (c, w)" and ok: "dc_op_ok dec (DPut clock k v enc e)"
    and r: "dc_put api clock k (Some v) enc e c w = Inr (True, c', w')"
  shows "dc_inv api contents dec (c', w') \<and>
    dc_view contents dec (c', w') \<subseteq>\<^sub>m (dc_view contents dec (c, w))(k \<mapsto> v)"
proof -
  note d = dc_invD [OF i]
  from ok have k: "\<not> is_expiry_key k" and a: "accepts e" and dec: "dec enc = Some v" by simp_all
  obtain c1 where mp: "memory_put (clock 0) (clock 1) k (Some v) e (length enc) c = Inr c1"
      "mutable_put api (clock 2) k enc e c1 w = Inr (True, w')" "c' = c1"
    using r d(2) by (auto simp: dc_put_def split: sum.splits)
  note m = memory_put_map [OF mp(1) d(4)]
  have "mem_map c1 \<subseteq>\<^sub>m (dc_view contents dec (c, w))(k \<mapsto> v)"
    using m(3) a d(5) by (simp add: map_le_trans map_le_upd)
  moreover have "disk_map contents dec c1 w' \<subseteq>\<^sub>m (dc_view contents dec (c, w))(k \<mapsto> v)"
    using mutable_put_map [OF d(1) mp(2) k, of dec] map_le_upd [OF d(6)] dec
    by (simp add: disk_map_same [OF m(1)] map_le_trans)
  ultimately show ?thesis
    unfolding mp(3) using d m by (intro dc_invI) (auto simp: same_disks_def)
qed

lemma dc_get_step:
  assumes i: "dc_inv api contents dec (c, w)" and k: "\<not> is_expiry_key k"
    and r: "dc_get api clock dec k c w = Inr (a, c', w')"
  shows "dc_inv api contents dec (c', w') \<and> dc_view contents dec (c', w') \<subseteq>\<^sub>m dc_view contents dec (c, w) \<and>
    (\<forall>v. a = Some v \<longrightarrow> dc_view contents dec (c, w) k = Some v)"
proof -
  let ?V = "dc_view contents dec (c, w)"
  note d = dc_invD [OF i]
  have le: "x j = Some v \<Longrightarrow> x \<subseteq>\<^sub>m ?V \<Longrightarrow> ?V j = Some v" for x j v
    by (metis domI map_le_def)
  obtain val c1 where mg: "memory_get (clock 0) k c = Inr (val, c1)"
    using r d(2) by (auto simp: dc_get_def split: sum.splits)
  note m = memory_get_map [OF mg d(4)]
  have m3: "mem_map c1 \<subseteq>\<^sub>m ?V" using m(3) d(5) by (rule map_le_trans)
  have dm: "disk_map contents dec c1 = disk_map contents dec c"
    by (simp add: fun_eq_iff disk_map_same [OF m(1)])
  have c1: "is_open c1" "protected_cache c1 = None" using m(1) d(2,3) by (simp_all add: same_disks_def)
  show ?thesis
  proof (cases val)
    case (Some v)
    then have "a = Some v" "c' = c1" "w' = w" using r d(2) mg by (auto simp: dc_get_def)
    moreover have "?V k = Some v" using m(4) [OF Some] d(5) by (rule le)
    ultimately show ?thesis using dc_invI [OF d(1) c1 m(2) m3, of dec w] d(6) dm by simp
  next
    case None
    obtain r1 w1 where g: "get_from_disc_cache api (clock 1) k c1 w = Inr (r1, w1)"
      using r d(2) mg None by (auto simp: dc_get_def split: sum.splits)
    note gm = get_from_disc_cache_map [where dec = dec, OF d(1) c1(2) g k]
    have dv: "disk_map contents dec c1 w1 \<subseteq>\<^sub>m ?V" using gm(1) d(6) unfolding dm by (rule map_le_trans)
    show ?thesis
    proof (cases r1)
      case n: None
      then have "a = None" "c' = c1" "w' = w1" using r d(2) mg g None by (auto simp: dc_get_def)
      then show ?thesis using dc_invI [OF d(1) c1 m(2) m3 dv] by simp
    next
      case (Some de)
      then obtain data e where de: "r1 = Some (data, e)" by (cases de) auto
      note gd = gm(2) [OF de]
      obtain c2 where mp: "memory_put (clock 2) (clock 3) k (dec data) e (length data) c1 = Inr c2"
        and res: "a = dec data" "c' = c2" "w' = w1"
        using r d(2) mg g None de by (auto simp: dc_get_def Let_def split: sum.splits)
      note m2 = memory_put_map [OF mp m(2)]
      have V: "?V k = Some v" if "dec data = Some v" for v
        using le [of "disk_map contents dec c w" k v] gd d(6) that dm by simp
      have "(mem_map c1)(k := dec data) \<subseteq>\<^sub>m ?V"
        using m3 V by (cases "dec data") (auto simp: map_le_def dom_def)
      with m2(3) gd have "mem_map c2 \<subseteq>\<^sub>m ?V" by (auto intro: map_le_trans)
      moreover have "disk_map contents dec c2 w1 \<subseteq>\<^sub>m ?V"
        using dv disk_map_same [OF m2(1), of contents dec w1] by simp
      ultimately show ?thesis
        unfolding res using V dc_invI [OF d(1) _ _ m2(2), of ?V dec w1] m2(1) c1
        by (auto simp: same_disks_def)
    qed
  qed
qed

lemma mem_removed_map:
  assumes "mem_ok c" "memory_cache c = Some m" "mem_step default_cache_cost m p = Some (m', None)"
    "mem_op_ok p"
  shows "same_disks c (c\<lparr>memory_cache := Some m'\<rparr>) \<and> mem_ok (c\<lparr>memory_cache := Some m'\<rparr>) \<and>
    mem_map (c\<lparr>memory_cache := Some m'\<rparr>) \<subseteq>\<^sub>m mem_effect p (mem_map c)"
proof -
  have inv: "mem_inv default_cache_cost m" using assms(1,2) by (simp add: mem_ok_def)
  show ?thesis
    using mem.step_inv [OF inv, of p m' None] mem.step_view [OF inv, of p m' None] assms
    by (simp add: same_disks_def mem_ok_def mem_map_def)
qed

lemma dc_remove_step:
  assumes i: "dc_inv api contents dec (c, w)" and r: "dc_remove api k c w = Inr (True, c', w')"
  shows "dc_inv api contents dec (c', w') \<and>
    dc_view contents dec (c', w') \<subseteq>\<^sub>m (dc_view contents dec (c, w))(k := None)"
proof -
  let ?V = "dc_view contents dec (c, w)"
  have upd: "x \<subseteq>\<^sub>m ?V \<Longrightarrow> x(k := None) \<subseteq>\<^sub>m ?V(k := None)" for x
    by (auto simp: map_le_def)
  note d = dc_invD [OF i]
  obtain c1 where c1: "same_disks c c1" "mem_ok c1" "mem_map c1 \<subseteq>\<^sub>m (mem_map c)(k := None)" "c' = c1"
    and dr: "case mutable_cache c1 of None \<Rightarrow> w' = w | Some disk \<Rightarrow> disk_remove api k disk w = (True, w')"
  proof (cases "memory_cache c")
    case None
    then show thesis using that [of c] r d(2,4)
      by (auto simp: dc_remove_def mem_map_def split: option.splits prod.splits)
  next
    case (Some m)
    then obtain m' b where m': "mem_remove default_cache_cost k m = Some (m', b)"
      using r d(2) by (auto simp: dc_remove_def split: option.splits)
    then have "mem_step default_cache_cost m (MRemove k) = Some (m', None)" by simp
    from mem_removed_map [OF d(4) Some this] show thesis
      using that [of "c\<lparr>memory_cache := Some m'\<rparr>"] r d(2) Some m'
      by (auto simp: dc_remove_def split: option.splits prod.splits)
  qed
  have "disk_map contents dec c1 w' \<subseteq>\<^sub>m (disk_map contents dec c w)(k := None)"
  proof (cases "Option.bind (mutable_cache c) database")
    case None
    then show ?thesis unfolding disk_map_same [OF c1(1)] by (simp add: disk_map_def map_le_def)
  next
    case (Some b)
    then obtain disk where disk: "mutable_cache c = Some disk" "database disk = Some b"
      by (auto split: option.splits simp: bind_eq_Some_conv)
    then have "disk_remove api k disk w = (True, w')" using dr c1(1) by (simp add: same_disks_def)
    from disk_remove_content(1) [OF d(1) this disk(2)] show ?thesis
      unfolding disk_map_same [OF c1(1)] using disk by (auto simp: disk_map_def map_le_def)
  qed
  then show ?thesis
    unfolding c1(4) using d c1 upd [OF d(5)] upd [OF d(6)]
    by (intro dc_invI) (auto simp: same_disks_def intro: map_le_trans)
qed

lemma dc_remove_prefix_step:
  assumes i: "dc_inv api contents dec (c, w)" and r: "dc_remove_keys_with_prefix api p c w = Inr (True, c', w')"
  shows "dc_inv api contents dec (c', w') \<and>
    dc_view contents dec (c', w') \<subseteq>\<^sub>m dc_view contents dec (c, w) |` {k. take (length p) k \<noteq> p}"
proof -
  let ?V = "dc_view contents dec (c, w)"
  let ?A = "{k. take (length p) k \<noteq> p}"
  have upd: "x \<subseteq>\<^sub>m ?V \<Longrightarrow> x |` ?A \<subseteq>\<^sub>m ?V |` ?A" for x
    by (auto simp: map_le_def restrict_map_def dom_def)
  note d = dc_invD [OF i]
  obtain c1 where c1: "same_disks c c1" "mem_ok c1" "mem_map c1 \<subseteq>\<^sub>m mem_map c |` ?A" "c' = c1"
    and dr: "case mutable_cache c1 of None \<Rightarrow> w' = w | Some disk \<Rightarrow> disk_remove_keys_with_prefix api p disk w = (True, w')"
  proof (cases "memory_cache c")
    case None
    then show thesis using that [of c] r d(2,4)
      by (auto simp: dc_remove_keys_with_prefix_def mem_map_def split: option.splits prod.splits)
  next
    case (Some m)
    then obtain m' where m': "mem_remove_keys_with_prefix default_cache_cost p m = Some m'"
      using r d(2) by (auto simp: dc_remove_keys_with_prefix_def split: option.splits)
    then have "mem_step default_cache_cost m (MRemoveKeysWithPrefix p) = Some (m', None)" by simp
    from mem_removed_map [OF d(4) Some this] show thesis
      using that [of "c\<lparr>memory_cache := Some m'\<rparr>"] r d(2) Some m'
      by (auto simp: dc_remove_keys_with_prefix_def split: option.splits prod.splits)
  qed
  have "disk_map contents dec c1 w' \<subseteq>\<^sub>m disk_map contents dec c w |` ?A"
  proof (cases "Option.bind (mutable_cache c) database")
    case None
    then show ?thesis unfolding disk_map_same [OF c1(1)] by (simp add: disk_map_def map_le_def restrict_map_def dom_def)
  next
    case (Some b)
    then obtain disk where disk: "mutable_cache c = Some disk" "database disk = Some b"
      by (auto split: option.splits simp: bind_eq_Some_conv)
    then have "disk_remove_keys_with_prefix api p disk w = (True, w')" using dr c1(1) by (simp add: same_disks_def)
    from disk_remove_prefix_content(1) [OF d(1) this disk(2)] show ?thesis
      unfolding disk_map_same [OF c1(1)] using disk by (auto simp: disk_map_def map_le_def restrict_map_def)
  qed
  then show ?thesis
    unfolding c1(4) using d c1 upd [OF d(5)] upd [OF d(6)]
    by (intro dc_invI) (auto simp: same_disks_def intro: map_le_trans)
qed

text \<open>The contract with the users of the cache, which is the one of the in-memory cache.\<close>

interpretation dc: lossy_cache
  "\<lambda>s p. if dc_op_ok dec p then dc_step api dec s p else None" "dc_view contents (dec :: string \<Rightarrow> 'm cached_value option)" "dc_inv api contents dec"
  dc_effect dc_asks
proof unfold_locales
  fix s s' p r
  assume i: "dc_inv api contents dec s" and step: "(if dc_op_ok dec p then dc_step api dec s p else None) = Some (s', r)"
  obtain c w c' w' where s: "s = (c, w)" "s' = (c', w')" by (cases s; cases s')
  have "dc_inv api contents dec s' \<and> dc_view contents dec s' \<subseteq>\<^sub>m dc_effect p (dc_view contents dec s)"
  proof (cases p)
    case (DPut clock k v enc e)
    then show ?thesis using dc_put_step [of api contents dec c w clock k v enc e c' w'] i step s
      by (auto split: if_splits sum.splits bool.splits)
  next
    case (DGet clock k)
    then show ?thesis using dc_get_step [of api contents dec c w k clock r c' w'] i step s
      by (auto split: if_splits sum.splits)
  next
    case (DRemove k)
    then show ?thesis using dc_remove_step [of api contents dec c w k c' w'] i step s
      by (auto split: if_splits sum.splits bool.splits)
  next
    case (DRemoveKeysWithPrefix q)
    then show ?thesis using dc_remove_prefix_step [of api contents dec c w q c' w'] i step s
      by (auto split: if_splits sum.splits bool.splits)
  qed
  then show "dc_inv api contents dec s'" "dc_view contents dec s' \<subseteq>\<^sub>m dc_effect p (dc_view contents dec s)"
    by blast+
next
  fix s s' p v
  assume i: "dc_inv api contents dec s"
    and step: "(if dc_op_ok dec p then dc_step api dec s p else None) = Some (s', Some v)"
  obtain c w c' w' where s: "s = (c, w)" "s' = (c', w')" by (cases s; cases s')
  show "\<exists>k. dc_asks p = Some k \<and> dc_view contents dec s k = Some v"
    using dc_get_step [of api contents dec c w _ _ "Some v" c' w'] i step s
    by (cases p) (auto split: if_splits sum.splits bool.splits)
next
  fix m m' :: "string \<rightharpoonup> 'm cached_value" and p
  assume "m \<subseteq>\<^sub>m m'"
  then show "dc_effect p m \<subseteq>\<^sub>m dc_effect p m'"
    by (cases p) (auto simp: map_le_def restrict_map_def)
qed

lemma dc_run_guard:
  "\<forall>p \<in> set ps. dc_op_ok dec p \<Longrightarrow>
   run_steps (\<lambda>s p. if dc_op_ok dec p then dc_step api dec s p else None) s ps = run_steps (dc_step api dec) s ps"
  by (induction ps arbitrary: s) simp_all


section \<open>Expiry on disk\<close>

lemma create_expiry_key_neq [simp]: "create_expiry_key k \<noteq> k" "k \<noteq> create_expiry_key k"
  by (auto simp: create_expiry_key_def)

lemma disk_get_found:
  assumes "storage_laws api contents" "fst (db_get api d k w) \<in> {DbOk, DbNotFound}"
    and "database disk = Some d" "contents d w k = Some v"
  shows "disk_get api k disk w = Some v"
proof -
  have "fst (db_get api d k w) \<noteq> DbNotFound" using assms(1,4) unfolding storage_laws_def by fastforce
  with assms(2) have "db_get api d k w = (DbOk, snd (db_get api d k w))" by (simp add: prod_eq_iff)
  moreover from laws_get [OF assms(1) this] assms(4) have "snd (db_get api d k w) = v" by simp
  ultimately show ?thesis using assms(3) by (simp add: disk_get_def split: prod.splits)
qed


text \<open>A cache without memory whose mutable disk cache is open on an association list.\<close>

definition list_cache :: "u64 \<Rightarrow> (string, unit) default_cache" where
  "list_cache mx =
     (dc_new default_cache_settings)\<lparr>is_open := True,
        memory_cache := if 0 < mx then Some (mem_new mx) else None,
        mutable_cache := Some (disk_new\<lparr>database := Some ()\<rparr>)\<rparr>"

lemma list_cache_simps [simp]:
  "is_open (list_cache mx)" "protected_cache (list_cache mx) = None"
  "mutable_cache (list_cache mx) = Some (disk_new\<lparr>database := Some ()\<rparr>)"
  "memory_cache (list_cache mx) = (if 0 < mx then Some (mem_new mx) else None)"
  by (simp_all add: list_cache_def dc_new_def)

lemma list_storage_reads: "fst (db_get list_storage d k w) \<in> {DbOk, DbNotFound}"
  by (simp add: list_storage_def split: option.splits)

lemma list_cache_put:
  "dc_put list_storage (\<lambda>_. 100) ''k'' (Some (Bytes ''v'')) ''v'' 10 (list_cache 0) [] =
     Inr (True, list_cache 0, [(''k'', ''v''), (''k::expiry'', ''110'')])"
  by code_simp



text \<open>
  the expiry of an item on disk outlives it. Neither \<open>Put\<close> without an expiry nor \<open>Remove\<close> deletes the
  entry under \<open>::expiry\<close>, so a value put later without an expiry is purged at the old time, and the
  same value is still answered when the first \<open>Put\<close> had no expiry either.
\<close>

theorem disk_stale_expiry_purges_live_item:
  "map_option snd (run_steps (dc_step list_storage (Some \<circ> Bytes)) (list_cache 0, [])
     [DPut (\<lambda>_. 100) ''k'' (Bytes ''v'') ''v'' 10, DRemove ''k'',
      DPut (\<lambda>_. 101) ''k'' (Bytes ''w'') ''w'' kExpiryMax, DGet (\<lambda>_. 200) ''k'']) = Some [None, None, None, None] \<and>
   map_option snd (run_steps (dc_step list_storage (Some \<circ> Bytes)) (list_cache 0, [])
     [DPut (\<lambda>_. 100) ''k'' (Bytes ''v'') ''v'' kExpiryMax, DRemove ''k'',
      DPut (\<lambda>_. 101) ''k'' (Bytes ''w'') ''w'' kExpiryMax, DGet (\<lambda>_. 200) ''k'']) = Some [None, None, None, Some (Bytes ''w'')]"
  by code_simp

text \<open>
  two reads that throw. A value put with an encoder and then read as bytes, while it is in memory, is a
  bad cast. A key that is spelt like the expiry entry of another key, with a text that is no number, makes
  \<open>Get\<close> of that other key throw, after both \<open>Put\<close> have reported success.
\<close>

theorem default_cache_get_throws:
  "(case dc_put list_storage (\<lambda>_. 100) ''k'' (Some (Typed ''v'')) ''v'' kExpiryMax (list_cache 1000) [] of
      Inr (ok, c, w) \<Rightarrow> ok \<and> dc_get_bytes list_storage (\<lambda>_. 101) ''k'' c w = Inl BadAnyCast
    | Inl _ \<Rightarrow> False) \<and>
   (case dc_put_bytes list_storage (\<lambda>_. 100) ''k'' ''v'' kExpiryMax (list_cache 0) [] of
      Inr (ok, c, w) \<Rightarrow> ok \<and>
        (case dc_put_bytes list_storage (\<lambda>_. 100) (create_expiry_key ''k'') ''x'' kExpiryMax c w of
           Inr (ok, c, w) \<Rightarrow> ok \<and> dc_get_bytes list_storage (\<lambda>_. 101) ''k'' c w = Inl StolFailed
         | Inl _ \<Rightarrow> False)
    | Inl _ \<Rightarrow> False)"
  by code_simp

end
