(* ===== verification/KeyValueCache.thy ===== *)
theory KeyValueCache
  imports DefaultCache
begin

text \<open>
  The interface \<open>KeyValueCache\<close> of \<open>include/olp/core/cache/KeyValueCache.h\<close>, through which the data service
  uses a cache, the contract that its users rely on, and \<open>DefaultCache\<close> as a provider of it.
\<close>

section \<open>The interface\<close>

text \<open>
  The state of the cache is a parameter. A decoder turns the stored text into a value; where it would end in
  an assertion there is no value. An operation that throws is \<^term>\<open>None\<close>.
\<close>

record ('m, 's) key_value_cache =
  kv_put :: "string \<Rightarrow> 'm cached_value option \<Rightarrow> string \<Rightarrow> int \<Rightarrow> 's \<Rightarrow> (bool \<times> 's) option"
  kv_put_bytes :: "string \<Rightarrow> string \<Rightarrow> int \<Rightarrow> 's \<Rightarrow> (bool \<times> 's) option"
  kv_get :: "string \<Rightarrow> (string \<Rightarrow> 'm cached_value option) \<Rightarrow> 's \<Rightarrow> ('m cached_value option \<times> 's) option"
  kv_get_bytes :: "string \<Rightarrow> 's \<Rightarrow> (string option \<times> 's) option"
  kv_remove :: "string \<Rightarrow> 's \<Rightarrow> (bool \<times> 's) option"
  kv_remove_keys_with_prefix :: "string \<Rightarrow> 's \<Rightarrow> (bool \<times> 's) option"

text \<open>
  The contract. \<open>may s k v\<close> says that \<open>s\<close> may answer \<open>v\<close> for \<open>k\<close>: a cache forgets when it likes and answers
  only what was put. A write that reports failure, or whose expiry is already over, may leave what was
  there before beside the new value. \<open>dec k\<close> is the decoder that is used for the key \<open>k\<close>.
\<close>

locale kv_cache =
  fixes kv :: "('m, 's) key_value_cache" and dec :: "string \<Rightarrow> string \<Rightarrow> 'm cached_value option"
    and may :: "'s \<Rightarrow> string \<Rightarrow> 'm cached_value \<Rightarrow> bool" and inv :: "'s \<Rightarrow> bool" and proper :: "string \<Rightarrow> bool"
  assumes put_law: "inv s \<Longrightarrow> proper k \<Longrightarrow> kv_put kv k (Some v) enc e s = Some (ok, s') \<Longrightarrow>
      inv s' \<and> (\<forall>j u. proper j \<longrightarrow> may s' j u \<longrightarrow>
        (if j = k then u = v \<or> dec k enc = Some u \<or> \<not> (ok \<and> accepts e) \<and> may s k u else may s j u))"
    and put_bytes_law: "inv s \<Longrightarrow> proper k \<Longrightarrow> kv_put_bytes kv k b e s = Some (ok, s') \<Longrightarrow>
      inv s' \<and> (\<forall>j u. proper j \<longrightarrow> may s' j u \<longrightarrow>
        (if j = k then u = Bytes b \<or> dec k b = Some u \<or> \<not> (ok \<and> accepts e) \<and> may s k u else may s j u))"
    and get_law: "inv s \<Longrightarrow> proper k \<Longrightarrow> kv_get kv k (dec k) s = Some (r, s') \<Longrightarrow>
      inv s' \<and> (\<forall>j u. proper j \<longrightarrow> may s' j u \<longrightarrow> may s j u) \<and> (\<forall>v. r = Some v \<longrightarrow> may s k v)"
    and get_bytes_law: "inv s \<Longrightarrow> proper k \<Longrightarrow> (\<And>b. dec k b = Some (Bytes b)) \<Longrightarrow> kv_get_bytes kv k s = Some (x, s') \<Longrightarrow>
      inv s' \<and> (\<forall>j u. proper j \<longrightarrow> may s' j u \<longrightarrow> may s j u) \<and> (\<forall>b. x = Some b \<longrightarrow> may s k (Bytes b))"
    and remove_law: "inv s \<Longrightarrow> kv_remove kv k s = Some (ok, s') \<Longrightarrow>
      inv s' \<and> (\<forall>j u. proper j \<longrightarrow> may s' j u \<longrightarrow> may s j u \<and> (ok \<longrightarrow> j \<noteq> k))"
    and remove_prefix_law: "inv s \<Longrightarrow> kv_remove_keys_with_prefix kv p s = Some (ok, s') \<Longrightarrow>
      inv s' \<and> (\<forall>j u. proper j \<longrightarrow> may s' j u \<longrightarrow> may s j u \<and> (ok \<longrightarrow> take (length p) j \<noteq> p))"
begin

text \<open>A predicate of everything that may be answered survives every operation that puts only such values.\<close>

definition all_good :: "(string \<Rightarrow> 'm cached_value \<Rightarrow> bool) \<Rightarrow> 's \<Rightarrow> bool" where
  "all_good good s \<longleftrightarrow> inv s \<and> (\<forall>j u. proper j \<longrightarrow> may s j u \<longrightarrow> good j u)"

lemma good_put:
  "all_good good s \<Longrightarrow> proper k \<Longrightarrow> good k v \<Longrightarrow> (\<And>u. dec k enc = Some u \<Longrightarrow> good k u) \<Longrightarrow>
   kv_put kv k (Some v) enc e s = Some (ok, s') \<Longrightarrow> all_good good s'"
  using put_law [of s k v enc e ok s'] unfolding all_good_def by (metis (full_types))

lemma good_put_bytes:
  "all_good good s \<Longrightarrow> proper k \<Longrightarrow> good k (Bytes b) \<Longrightarrow> (\<And>u. dec k b = Some u \<Longrightarrow> good k u) \<Longrightarrow>
   kv_put_bytes kv k b e s = Some (ok, s') \<Longrightarrow> all_good good s'"
  using put_bytes_law [of s k b e ok s'] unfolding all_good_def by (metis (full_types))

lemma good_get:
  "all_good good s \<Longrightarrow> proper k \<Longrightarrow> kv_get kv k (dec k) s = Some (r, s') \<Longrightarrow>
   all_good good s' \<and> (\<forall>v. r = Some v \<longrightarrow> good k v)"
  using get_law [of s k r s'] unfolding all_good_def by blast

lemma good_get_bytes:
  "all_good good s \<Longrightarrow> proper k \<Longrightarrow> (\<And>b. dec k b = Some (Bytes b)) \<Longrightarrow> kv_get_bytes kv k s = Some (x, s') \<Longrightarrow>
   all_good good s' \<and> (\<forall>b. x = Some b \<longrightarrow> good k (Bytes b))"
  using get_bytes_law [of s k x s'] unfolding all_good_def by blast

lemma good_remove: "all_good good s \<Longrightarrow> kv_remove kv k s = Some (ok, s') \<Longrightarrow> all_good good s'"
  using remove_law [of s k ok s'] unfolding all_good_def by blast

lemma good_remove_prefix:
  "all_good good s \<Longrightarrow> kv_remove_keys_with_prefix kv p s = Some (ok, s') \<Longrightarrow> all_good good s'"
  using remove_prefix_law [of s p ok s'] unfolding all_good_def by blast

end

section \<open>The default cache as a provider\<close>

text \<open>The state is the cache, the world of its storage and the number of operations, by which the clock goes on.\<close>

type_synonym ('m, 'd, 'w) dc_state = "('m, 'd) default_cache \<times> 'w \<times> nat"

fun dc_result :: "nat \<Rightarrow> fault + ('r \<times> ('m, 'd) default_cache \<times> 'w) \<Rightarrow> ('r \<times> ('m, 'd, 'w) dc_state) option" where
  "dc_result n (Inl e) = None"
| "dc_result n (Inr (r, c, w)) = Some (r, c, w, Suc n)"

definition default_kv :: "('w, 'd) storage_api \<Rightarrow> (nat \<Rightarrow> nat \<Rightarrow> int) \<Rightarrow> ('m, ('m, 'd, 'w) dc_state) key_value_cache" where
  "default_kv api clock =
     \<lparr>kv_put = (\<lambda>k v enc e (c, w, n). dc_result n (dc_put api (clock n) k v enc e c w)),
      kv_put_bytes = (\<lambda>k b e (c, w, n). dc_result n (dc_put_bytes api (clock n) k b e c w)),
      kv_get = (\<lambda>k d (c, w, n). dc_result n (dc_get api (clock n) d k c w)),
      kv_get_bytes = (\<lambda>k (c, w, n). dc_result n (dc_get_bytes api (clock n) k c w)),
      kv_remove = (\<lambda>k (c, w, n). dc_result n (dc_remove api k c w)),
      kv_remove_keys_with_prefix = (\<lambda>k (c, w, n). dc_result n (dc_remove_keys_with_prefix api k c w))\<rparr>"

text \<open>What the cache holds in memory or on disk may be answered.\<close>

fun dc_may ::
  "('d \<Rightarrow> 'w \<Rightarrow> (string \<rightharpoonup> string)) \<Rightarrow> (string \<Rightarrow> string \<Rightarrow> 'm cached_value option) \<Rightarrow> ('m, 'd, 'w) dc_state \<Rightarrow>
   string \<Rightarrow> 'm cached_value \<Rightarrow> bool" where
  "dc_may contents dec (c, w, n) k v \<longleftrightarrow> mem_map c k = Some v \<or> disk_map contents (dec k) c w k = Some v"

fun dc_ready :: "('w, 'd) storage_api \<Rightarrow> ('d \<Rightarrow> 'w \<Rightarrow> (string \<rightharpoonup> string)) \<Rightarrow> ('m, 'd, 'w) dc_state \<Rightarrow> bool" where
  "dc_ready api contents (c, w, n) \<longleftrightarrow> storage_laws api contents \<and> protected_cache c = None \<and> mem_ok c"

lemma dc_result_Some:
  "dc_result n x = Some (r, s') \<longleftrightarrow> (\<exists>c w. x = Inr (r, c, w) \<and> s' = (c, w, Suc n))"
  by (cases x) auto

lemma map_leD: "m \<subseteq>\<^sub>m m' \<Longrightarrow> m k = Some v \<Longrightarrow> m' k = Some v"
  by (metis domI map_le_def)

lemma mutable_put_any:
  assumes l: "storage_laws api contents" and m: "mutable_put api now k data e c w = Inr (ok, w')"
    and u: "disk_map contents dec c w' j = Some u"
  shows "disk_map contents dec c w j = Some u \<or> j = k \<and> dec data = Some u"
proof (cases "mutable_cache c")
  case None
  then show ?thesis using m u by (auto simp: mutable_put_def disk_map_def)
next
  case (Some disk)
  then obtain d where d: "database disk = Some d" and j: "\<not> is_expiry_key j"
    using u by (auto simp: disk_map_def split: option.splits if_splits)
  have put: "contents d w2 j \<in> {contents d w1 j, if i = j then Some v else contents d w1 j}"
    if "disk_put api i v disk w1 = (b, w2)" for i v w1 w2 b
    using disk_put_content(1) [OF l that d] by auto
  have "contents d w' j = contents d w j \<or> j = k \<and> contents d w' j = Some data"
  proof (cases "e < kDefaultExpiry")
    case True
    then obtain b w1 where w1: "store_expiry api now k e disk w = Inr (b, w1)"
        "if b then disk_put api k data disk w1 = (ok, w') else w' = w1"
      using m Some by (auto simp: mutable_put_def split: sum.splits if_splits)
    then have "disk_put api (create_expiry_key k) (int_to_string (e + now)) disk w = (b, w1)"
      by (auto simp: store_expiry_def split: if_splits)
    from put [OF this] j have "contents d w1 j = contents d w j" by (auto split: if_splits)
    with w1(2) put [of k data w1 ok w'] show ?thesis by (auto split: if_splits)
  next
    case False
    then show ?thesis using m Some put [of k data w ok w'] by (auto simp: mutable_put_def split: if_splits)
  qed
  then show ?thesis using u Some d by (auto simp: disk_map_def split: if_splits)
qed

text \<open>What a write may leave: \<open>Put\<close> of both forms.\<close>

lemma default_put_may:
  assumes r: "dc_ready api contents (c, w, n)" and k: "\<not> is_expiry_key k" 
    and put: "dc_put api clk k (Some v) enc e c w = Inr (ok, c', w')"
  shows "dc_ready api contents (c', w', m) \<and> (\<forall>j u. \<not> is_expiry_key j \<longrightarrow> dc_may contents dec (c', w', m) j u \<longrightarrow>
    (if j = k then u = v \<or> dec k enc = Some u \<or> \<not> (ok \<and> accepts e) \<and> dc_may contents dec (c, w, n) k u
     else dc_may contents dec (c, w, n) j u))"
proof (cases "is_open c")
  case False
  then show ?thesis using r put by (auto simp: dc_put_def)
next
  case True
  then obtain mp: "memory_put (clk 0) (clk 1) k (Some v) e (length enc) c = Inr c'"
      "mutable_put api (clk 2) k enc e c' w = Inr (ok, w')"
    using put by (auto simp: dc_put_def split: sum.splits)
  have l: "storage_laws api contents" using r by simp
  have "mem_ok c" using r by simp
  note mm = memory_put_map [OF mp(1) this]
  have dm: "disk_map contents d c' x = disk_map contents d c x" for d :: "string \<Rightarrow> _" and x
    by (rule disk_map_same [OF mm(1)])
  have mem: "mem_map c' j = Some u \<Longrightarrow> (if accepts e then (mem_map c)(k \<mapsto> v) else mem_map c) j = Some u" for j u
    using map_leD [OF mm(3)] by simp
  have disk: "disk_map contents d c w' j = Some u \<Longrightarrow> disk_map contents d c w j = Some u \<or> j = k \<and> d enc = Some u"
    for d :: "string \<Rightarrow> _" and j u
    using mutable_put_any [OF l mp(2), of d j u] unfolding dm .
  have new: "ok \<Longrightarrow> disk_map contents (dec k) c w' k = Some u \<Longrightarrow> dec k enc = Some u" for u
    using mutable_put_map [OF l _ k, of "clk 2" enc e c' w w' "dec k"] mp(2) unfolding dm
    by (auto dest!: map_leD)
  have "dc_ready api contents (c', w', m)" using r mm by (simp add: same_disks_def)
  moreover have "if j = k then u = v \<or> dec k enc = Some u \<or> \<not> (ok \<and> accepts e) \<and> dc_may contents dec (c, w, n) k u
      else dc_may contents dec (c, w, n) j u"
    if "dc_may contents dec (c', w', m) j u" for j u
    using that mem [of j u] disk [of "dec j" j u] new [of u] unfolding dc_may.simps dm
    by (auto split: if_splits)
  ultimately show ?thesis by blast
qed

lemma dc_put_bytes_eq: "dc_put_bytes api clk k b e c w = dc_put api clk k (Some (Bytes b)) b e c w"
  by (simp add: dc_put_bytes_def dc_put_def)

lemma default_get_may:
  assumes r: "dc_ready api contents (c, w, n)" and k: "\<not> is_expiry_key k"
    and get: "dc_get api clk (dec k) k c w = Inr (a, c', w')"
  shows "dc_ready api contents (c', w', m) \<and>
    (\<forall>j u. \<not> is_expiry_key j \<longrightarrow> dc_may contents dec (c', w', m) j u \<longrightarrow> dc_may contents dec (c, w, n) j u) \<and>
    (\<forall>v. a = Some v \<longrightarrow> dc_may contents dec (c, w, n) k v)"
proof (cases "is_open c")
  case False
  then show ?thesis using r get by (auto simp: dc_get_def)
next
  case True
  have l: "storage_laws api contents" and ok: "mem_ok c" and p: "protected_cache c = None" using r by simp_all
  obtain val c1 where mg: "memory_get (clk 0) k c = Inr (val, c1)"
    using get True by (auto simp: dc_get_def split: sum.splits)
  note mm = memory_get_map [OF mg ok]
  have dm: "disk_map contents d c1 x = disk_map contents d c x" for d :: "string \<Rightarrow> _" and x
    by (rule disk_map_same [OF mm(1)])
  have p1: "protected_cache c1 = None" using mm(1) p by (simp add: same_disks_def)
  show ?thesis
  proof (cases val)
    case (Some v)
    then have "a = Some v" "c' = c1" "w' = w" using get True mg by (auto simp: dc_get_def)
    then show ?thesis using mm Some r map_leD [OF mm(3)] p1 unfolding dc_may.simps by (auto simp: dm)
  next
    case None
    obtain r1 w1 where g: "get_from_disc_cache api (clk 1) k c1 w = Inr (r1, w1)"
      using get True mg None by (auto simp: dc_get_def split: sum.splits)
    note gm = get_from_disc_cache_map [OF l p1 g k]
    have le: "disk_map contents d c w1 j = Some u \<Longrightarrow> disk_map contents d c w j = Some u" for d :: "string \<Rightarrow> _" and j u
      using map_leD [OF gm(1) [of d]] unfolding dm .
    show ?thesis
    proof (cases r1)
      case n: None
      then have "a = None" "c' = c1" "w' = w1" using get True mg g None by (auto simp: dc_get_def)
      then show ?thesis using mm r map_leD [OF mm(3)] p1 le unfolding dc_may.simps by (auto simp: dm)
    next
      case (Some de)
      then obtain data e where de: "r1 = Some (data, e)" by (cases de) auto
      note gd = gm(2) [OF de, of "dec k"]
      obtain c2 where mp: "memory_put (clk 2) (clk 3) k (dec k data) e (length data) c1 = Inr c2"
        and res: "a = dec k data" "c' = c2" "w' = w1"
        using get True mg g None de by (auto simp: dc_get_def Let_def split: sum.splits)
      note m2 = memory_put_map [OF mp mm(2)]
      have dm2: "disk_map contents d c2 x = disk_map contents d c x" for d :: "string \<Rightarrow> _" and x
        using disk_map_same [OF m2(1), of contents d x] dm [of d x] by simp
      have "mem_map c2 j = Some u \<Longrightarrow> mem_map c j = Some u \<or> disk_map contents (dec j) c w j = Some u" for j u
        using map_leD [OF m2(3), of j u] map_leD [OF mm(3), of j u] gd unfolding dm by (auto split: if_splits)
      then have "dc_may contents dec (c2, w1, m) j u \<Longrightarrow> dc_may contents dec (c, w, n) j u" for j u
        using le [of "dec j" j u] unfolding dc_may.simps dm2 by blast
      moreover have "protected_cache c2 = None" using m2(1) p1 by (simp add: same_disks_def)
      moreover have "dec k data = Some v \<Longrightarrow> dc_may contents dec (c, w, n) k v" for v
        using gd unfolding dm by simp
      ultimately show ?thesis using l m2(2) unfolding res dc_ready.simps by blast
    qed
  qed
qed

lemma dc_get_bytes_get:
  assumes "dc_get_bytes api clk k c w = Inr (x, c', w')" "\<And>b. d b = Some (Bytes b)"
  shows "dc_get api clk d k c w = Inr (map_option Bytes x, c', w')"
  using assms by (auto simp: dc_get_bytes_def dc_get_def Let_def split: if_splits sum.splits option.splits cached_value.splits)

lemma default_remove_may:
  fixes c :: "('m, 'd) default_cache"
  assumes r: "dc_ready api contents (c, w, n)" and x: "dc_remove api k c w = Inr (ok, c', w')"
  shows "dc_ready api contents (c', w', m) \<and>
    (\<forall>j u. \<not> is_expiry_key j \<longrightarrow> dc_may contents dec (c', w', m) j u \<longrightarrow> dc_may contents dec (c, w, n) j u \<and> (ok \<longrightarrow> j \<noteq> k))"
proof (cases "is_open c")
  case False
  then show ?thesis using r x by (auto simp: dc_remove_def)
next
  case True
  have l: "storage_laws api contents" and mok: "mem_ok c" and p: "protected_cache c = None" using r by simp_all
  obtain c1 where c1: "same_disks c c1" "mem_ok c1" "mem_map c1 \<subseteq>\<^sub>m (mem_map c)(k := None)" "c' = c1"
    and dr: "case mutable_cache c1 of None \<Rightarrow> ok \<and> w' = w | Some disk \<Rightarrow> disk_remove api k disk w = (ok, w')"
  proof (cases "memory_cache c")
    case None
    then show thesis using that [of c] x True mok
      by (auto simp: dc_remove_def mem_map_def map_le_def split: option.splits prod.splits)
  next
    case (Some mc)
    then obtain m' b where m': "mem_remove default_cache_cost k mc = Some (m', b)"
      using x True by (auto simp: dc_remove_def split: option.splits)
    then have "mem_step default_cache_cost mc (MRemove k) = Some (m', None)" by simp
    from mem_removed_map [OF mok Some this] show thesis
      using that [of "c\<lparr>memory_cache := Some m'\<rparr>"] x True Some m'
      by (auto simp: dc_remove_def split: option.splits prod.splits)
  qed
  have dm: "disk_map contents d c1 y = disk_map contents d c y" for d :: "string \<Rightarrow> _" and y
    by (rule disk_map_same [OF c1(1)])
  have "disk_map contents d c w' j = Some u \<Longrightarrow> disk_map contents d c w j = Some u \<and> (ok \<longrightarrow> j \<noteq> k)"
    for d :: "string \<Rightarrow> 'm cached_value option" and j u
  proof (cases "mutable_cache c")
    case None
    then show "disk_map contents d c w' j = Some u \<Longrightarrow> ?thesis" by (simp add: disk_map_def)
  next
    case (Some disk)
    then have dr': "disk_remove api k disk w = (ok, w')" using dr c1(1) by (simp add: same_disks_def)
    assume "disk_map contents d c w' j = Some u"
    then show ?thesis using disk_remove_content(1) [OF l dr'] Some
      by (fastforce simp: disk_map_def split: option.splits if_splits)
  qed
  moreover have "mem_map c1 j = Some u \<Longrightarrow> mem_map c j = Some u \<and> j \<noteq> k" for j u
    using map_leD [OF c1(3), of j u] by (auto split: if_splits)
  moreover have "protected_cache c1 = None" using c1(1) p by (simp add: same_disks_def)
  ultimately show ?thesis using c1(2) l unfolding c1(4) dc_may.simps dm by auto
qed

lemma default_remove_prefix_may:
  fixes c :: "('m, 'd) default_cache"
  assumes r: "dc_ready api contents (c, w, n)" and x: "dc_remove_keys_with_prefix api p c w = Inr (ok, c', w')"
  shows "dc_ready api contents (c', w', m) \<and>
    (\<forall>j u. \<not> is_expiry_key j \<longrightarrow> dc_may contents dec (c', w', m) j u \<longrightarrow>
      dc_may contents dec (c, w, n) j u \<and> (ok \<longrightarrow> take (length p) j \<noteq> p))"
proof (cases "is_open c")
  case False
  then show ?thesis using r x by (auto simp: dc_remove_keys_with_prefix_def)
next
  case True
  have l: "storage_laws api contents" and mok: "mem_ok c" and pr: "protected_cache c = None" using r by simp_all
  obtain c1 where c1: "same_disks c c1" "mem_ok c1" "mem_map c1 \<subseteq>\<^sub>m mem_map c |` {j. take (length p) j \<noteq> p}" "c' = c1"
    and dr: "case mutable_cache c1 of None \<Rightarrow> ok \<and> w' = w | Some disk \<Rightarrow> disk_remove_keys_with_prefix api p disk w = (ok, w')"
  proof (cases "memory_cache c")
    case None
    then show thesis using that [of c] x True mok
      by (auto simp: dc_remove_keys_with_prefix_def mem_map_def map_le_def split: option.splits prod.splits)
  next
    case (Some mc)
    then obtain m' where m': "mem_remove_keys_with_prefix default_cache_cost p mc = Some m'"
      using x True by (auto simp: dc_remove_keys_with_prefix_def split: option.splits)
    then have "mem_step default_cache_cost mc (MRemoveKeysWithPrefix p) = Some (m', None)" by simp
    from mem_removed_map [OF mok Some this] show thesis
      using that [of "c\<lparr>memory_cache := Some m'\<rparr>"] x True Some m'
      by (auto simp: dc_remove_keys_with_prefix_def split: option.splits prod.splits)
  qed
  have dm: "disk_map contents d c1 y = disk_map contents d c y" for d :: "string \<Rightarrow> _" and y
    by (rule disk_map_same [OF c1(1)])
  have "disk_map contents d c w' j = Some u \<Longrightarrow> disk_map contents d c w j = Some u \<and> (ok \<longrightarrow> take (length p) j \<noteq> p)"
    for d :: "string \<Rightarrow> 'm cached_value option" and j u
  proof (cases "mutable_cache c")
    case None
    then show "disk_map contents d c w' j = Some u \<Longrightarrow> ?thesis" by (simp add: disk_map_def)
  next
    case (Some disk)
    then have dr': "disk_remove_keys_with_prefix api p disk w = (ok, w')" using dr c1(1) by (simp add: same_disks_def)
    assume "disk_map contents d c w' j = Some u"
    then show ?thesis using disk_remove_prefix_content(1) [OF l dr'] Some
      by (fastforce simp: disk_map_def restrict_map_def split: option.splits if_splits)
  qed
  moreover have "mem_map c1 j = Some u \<Longrightarrow> mem_map c j = Some u \<and> take (length p) j \<noteq> p" for j u
    using map_leD [OF c1(3), of j u] by (auto simp: restrict_map_def split: if_splits)
  moreover have "protected_cache c1 = None" using c1(1) pr by (simp add: same_disks_def)
  ultimately show ?thesis using c1(2) l unfolding c1(4) dc_may.simps dm by auto
qed

text \<open>\<open>DefaultCache\<close> keeps the contract for all keys that are not spelt like those of its expiry entries.\<close>

interpretation dkv: kv_cache
  "default_kv api clock :: ('m, ('m, 'd, 'w) dc_state) key_value_cache" dec "dc_may contents dec" "dc_ready api contents" "\<lambda>k. \<not> is_expiry_key k"
proof unfold_locales
  fix s s' :: "('m, 'd, 'w) dc_state" and k enc v e ok
  assume a: "dc_ready api contents s" "\<not> is_expiry_key k"
    "kv_put (default_kv api clock) k (Some v) enc e s = Some (ok, s')"
  obtain c w n c' w' where s: "s = (c, w, n)" "s' = (c', w', Suc n)"
    "dc_put api (clock n) k (Some v) enc e c w = Inr (ok, c', w')"
    using a(3) by (cases s) (auto simp: default_kv_def dc_result_Some)
  show "dc_ready api contents s' \<and> (\<forall>j u. \<not> is_expiry_key j \<longrightarrow> dc_may contents dec s' j u \<longrightarrow>
      (if j = k then u = v \<or> dec k enc = Some u \<or> \<not> (ok \<and> accepts e) \<and> dc_may contents dec s k u else dc_may contents dec s j u))"
    using default_put_may [where dec = dec, OF a(1) [unfolded s(1)] a(2) s(3)] unfolding s(1,2) .
next
  fix s s' :: "('m, 'd, 'w) dc_state" and k b e ok
  assume a: "dc_ready api contents s" "\<not> is_expiry_key k"
    "kv_put_bytes (default_kv api clock) k b e s = Some (ok, s')"
  obtain c w n c' w' where s: "s = (c, w, n)" "s' = (c', w', Suc n)"
    "dc_put api (clock n) k (Some (Bytes b)) b e c w = Inr (ok, c', w')"
    using a(3) by (cases s) (auto simp: default_kv_def dc_result_Some dc_put_bytes_eq)
  show "dc_ready api contents s' \<and> (\<forall>j u. \<not> is_expiry_key j \<longrightarrow> dc_may contents dec s' j u \<longrightarrow>
      (if j = k then u = Bytes b \<or> dec k b = Some u \<or> \<not> (ok \<and> accepts e) \<and> dc_may contents dec s k u else dc_may contents dec s j u))"
    using default_put_may [where dec = dec, OF a(1) [unfolded s(1)] a(2) s(3)] unfolding s(1,2) .
next
  fix s s' :: "('m, 'd, 'w) dc_state" and k r
  assume a: "dc_ready api contents s" "\<not> is_expiry_key k" "kv_get (default_kv api clock) k (dec k) s = Some (r, s')"
  obtain c w n c' w' where s: "s = (c, w, n)" "s' = (c', w', Suc n)" "dc_get api (clock n) (dec k) k c w = Inr (r, c', w')"
    using a(3) by (cases s) (auto simp: default_kv_def dc_result_Some)
  show "dc_ready api contents s' \<and> (\<forall>j u. \<not> is_expiry_key j \<longrightarrow> dc_may contents dec s' j u \<longrightarrow> dc_may contents dec s j u) \<and>
      (\<forall>v. r = Some v \<longrightarrow> dc_may contents dec s k v)"
    using default_get_may [where dec = dec, OF a(1) [unfolded s(1)] a(2) s(3)] unfolding s(1,2) .
next
  fix s s' :: "('m, 'd, 'w) dc_state" and k x
  assume a: "dc_ready api contents s" "\<not> is_expiry_key k" "\<And>b. dec k b = Some (Bytes b)"
    "kv_get_bytes (default_kv api clock) k s = Some (x, s')"
  obtain c w n c' w' where s: "s = (c, w, n)" "s' = (c', w', Suc n)" "dc_get_bytes api (clock n) k c w = Inr (x, c', w')"
    using a(4) by (cases s) (auto simp: default_kv_def dc_result_Some)
  show "dc_ready api contents s' \<and> (\<forall>j u. \<not> is_expiry_key j \<longrightarrow> dc_may contents dec s' j u \<longrightarrow> dc_may contents dec s j u) \<and>
      (\<forall>b. x = Some b \<longrightarrow> dc_may contents dec s k (Bytes b))"
    using default_get_may [where dec = dec, OF a(1) [unfolded s(1)] a(2) dc_get_bytes_get [OF s(3) a(3)]]
    unfolding s(1,2) by simp
next
  fix s s' :: "('m, 'd, 'w) dc_state" and k ok
  assume a: "dc_ready api contents s" "kv_remove (default_kv api clock) k s = Some (ok, s')"
  obtain c w n c' w' where s: "s = (c, w, n)" "s' = (c', w', Suc n)" "dc_remove api k c w = Inr (ok, c', w')"
    using a(2) by (cases s) (auto simp: default_kv_def dc_result_Some)
  show "dc_ready api contents s' \<and> (\<forall>j u. \<not> is_expiry_key j \<longrightarrow> dc_may contents dec s' j u \<longrightarrow>
      dc_may contents dec s j u \<and> (ok \<longrightarrow> j \<noteq> k))"
    using default_remove_may [OF a(1) [unfolded s(1)] s(3)] unfolding s(1,2) .
next
  fix s s' :: "('m, 'd, 'w) dc_state" and p ok
  assume a: "dc_ready api contents s" "kv_remove_keys_with_prefix (default_kv api clock) p s = Some (ok, s')"
  obtain c w n c' w' where s: "s = (c, w, n)" "s' = (c', w', Suc n)"
    "dc_remove_keys_with_prefix api p c w = Inr (ok, c', w')"
    using a(2) by (cases s) (auto simp: default_kv_def dc_result_Some)
  show "dc_ready api contents s' \<and> (\<forall>j u. \<not> is_expiry_key j \<longrightarrow> dc_may contents dec s' j u \<longrightarrow>
      dc_may contents dec s j u \<and> (ok \<longrightarrow> take (length p) j \<noteq> p))"
    using default_remove_prefix_may [OF a(1) [unfolded s(1)] s(3)] unfolding s(1,2) .
qed

end
