(* ===== verification/ReadCaches.thy ===== *)
theory ReadCaches
  imports KeyValueCache CatalogModel ReadModel Hrn
begin

text \<open>
  The cache repositories of the read service: \<open>src/repositories/PartitionsCacheRepository.cpp\<close>,
  \<open>CatalogCacheRepository.cpp\<close>, \<open>DataCacheRepository.cpp\<close> and \<open>ApiCacheRepository.cpp\<close>. Each of them maps
  its objects to keys and values of a \<open>KeyValueCache\<close>. An operation is \<^term>\<open>None\<close> when the cache throws or
  a \<open>boost::any_cast\<close> does; what \<open>Put\<close> and \<open>RemoveKeysWithPrefix\<close> return is ignored, as in the code.
\<close>

section \<open>Values and keys\<close>

text \<open>The types that the repositories put into the cache, beside bytes.\<close>

datatype read_value =
    VPartition partition
  | VIds "string list"
  | VLayerVersions layer_versions
  | VCatalog catalog
  | VVersion version_response
  | VUrl string

type_synonym 's read_cache = "(read_value, 's) key_value_cache"

text \<open>RapidJSON, which writes a document as text and reads a text, if it is a document.\<close>

record json_lib =
  json_text :: "json \<Rightarrow> string"
  json_parse :: "string \<Rightarrow> json option"

definition partition_key :: "string \<Rightarrow> string \<Rightarrow> string \<Rightarrow> int option \<Rightarrow> string" where
  "partition_key hrn lid partitionId version =
     hrn @ ''::'' @ lid @ ''::'' @ partitionId @ ''::'' @
     (case version of Some v \<Rightarrow> int_to_string v @ ''::partition'' | None \<Rightarrow> [])"

definition partitions_key :: "string \<Rightarrow> string \<Rightarrow> int option \<Rightarrow> string" where
  "partitions_key hrn lid version =
     hrn @ ''::'' @ lid @ ''::'' @ (case version of Some v \<Rightarrow> int_to_string v @ ''::partitions'' | None \<Rightarrow> [])"

definition layer_versions_key :: "string \<Rightarrow> int \<Rightarrow> string" where
  "layer_versions_key hrn catalogVersion = hrn @ ''::'' @ int_to_string catalogVersion @ ''::layerVersions''"

definition catalog_key :: "string \<Rightarrow> string" where
  "catalog_key hrn = hrn @ ''::catalog''"

definition version_key :: "string \<Rightarrow> string" where
  "version_key hrn = hrn @ ''::latestVersion''"

definition data_key :: "string \<Rightarrow> string \<Rightarrow> string \<Rightarrow> string" where
  "data_key hrn lid datahandle = hrn @ ''::'' @ lid @ ''::'' @ datahandle @ ''::Data''"

definition api_key :: "string \<Rightarrow> string \<Rightarrow> string \<Rightarrow> string" where
  "api_key hrn serv serviceVersion = hrn @ ''::'' @ serv @ ''::'' @ serviceVersion @ ''::api''"

section \<open>Decoders and casts\<close>

definition decode_partition :: "json_lib \<Rightarrow> string \<Rightarrow> read_value cached_value option" where
  "decode_partition j t = map_option (Typed \<circ> VPartition) (parse_document partition_from_json empty_partition (json_parse j t))"

definition decode_ids :: "json_lib \<Rightarrow> string \<Rightarrow> read_value cached_value option" where
  "decode_ids j t = map_option (Typed \<circ> VIds) (parse_document (vector_from_json string_from_json) [] (json_parse j t))"

definition decode_layer_versions :: "json_lib \<Rightarrow> string \<Rightarrow> read_value cached_value option" where
  "decode_layer_versions j t =
     map_option (Typed \<circ> VLayerVersions) (parse_document layer_versions_from_json empty_layer_versions (json_parse j t))"

definition decode_catalog :: "json_lib \<Rightarrow> string \<Rightarrow> read_value cached_value option" where
  "decode_catalog j t = map_option (Typed \<circ> VCatalog) (parse_document catalog_from_json empty_catalog (json_parse j t))"

definition decode_version :: "json_lib \<Rightarrow> string \<Rightarrow> read_value cached_value option" where
  "decode_version j t =
     map_option (Typed \<circ> VVersion) (parse_document version_response_from_json empty_version_response (json_parse j t))"

definition decode_url :: "string \<Rightarrow> read_value cached_value option" where
  "decode_url t = Some (Typed (VUrl t))"

text \<open>\<open>boost::any_cast\<close> of what is in the cache, which throws at a value of another type.\<close>

fun cast_partition :: "read_value cached_value \<Rightarrow> partition option" where
  "cast_partition (Typed (VPartition x)) = Some x"
| "cast_partition _ = None"

fun cast_ids :: "read_value cached_value \<Rightarrow> string list option" where
  "cast_ids (Typed (VIds x)) = Some x"
| "cast_ids _ = None"

fun cast_layer_versions :: "read_value cached_value \<Rightarrow> layer_versions option" where
  "cast_layer_versions (Typed (VLayerVersions x)) = Some x"
| "cast_layer_versions _ = None"

fun cast_catalog :: "read_value cached_value \<Rightarrow> catalog option" where
  "cast_catalog (Typed (VCatalog x)) = Some x"
| "cast_catalog _ = None"

fun cast_version :: "read_value cached_value \<Rightarrow> version_response option" where
  "cast_version (Typed (VVersion x)) = Some x"
| "cast_version _ = None"

fun cast_url :: "read_value cached_value \<Rightarrow> string option" where
  "cast_url (Typed (VUrl x)) = Some x"
| "cast_url _ = None"

text \<open>\<open>Get\<close> followed by the cast of what was found.\<close>

definition get_as ::
  "'s read_cache \<Rightarrow> (string \<Rightarrow> read_value cached_value option) \<Rightarrow> (read_value cached_value \<Rightarrow> 'a option) \<Rightarrow> string \<Rightarrow>
   's \<Rightarrow> ('a option \<times> 's) option" where
  "get_as kv decoder any_cast key s = do {
     (found, s) \<leftarrow> kv_get kv key decoder s;
     (case found of
        None \<Rightarrow> Some (None, s)
      | Some v \<Rightarrow> do { x \<leftarrow> any_cast v; Some (Some x, s) }) }"

section \<open>Partitions\<close>

text \<open>The repository is made for the catalog \<open>hrn\<close>, the text of its name.\<close>

fun put_partitions ::
  "json_lib \<Rightarrow> 's read_cache \<Rightarrow> string \<Rightarrow> int option \<Rightarrow> string \<Rightarrow> int \<Rightarrow> partition list \<Rightarrow> 's \<Rightarrow> 's option" where
  "put_partitions j kv hrn version lid expiry [] s = Some s"
| "put_partitions j kv hrn version lid expiry (p # ps) s = do {
     (_, s) \<leftarrow> kv_put kv (partition_key hrn lid (partition_partition p) version) (Some (Typed (VPartition p)))
                 (json_text j (partition_to_json p)) expiry s;
     put_partitions j kv hrn version lid expiry ps s }"

definition pc_put ::
  "json_lib \<Rightarrow> 's read_cache \<Rightarrow> string \<Rightarrow> int option \<Rightarrow> partitions \<Rightarrow> string \<Rightarrow> int option \<Rightarrow> bool \<Rightarrow> 's \<Rightarrow> 's option" where
  "pc_put j kv hrn version ps lid expiry allLayer s =
     (let expiry = (case expiry of Some e \<Rightarrow> e | None \<Rightarrow> kDefaultExpiry) in do {
        s \<leftarrow> put_partitions j kv hrn version lid expiry (partitions_list ps) s;
        (if allLayer
         then (let partitionIds = map partition_partition (partitions_list ps) in do {
            (_, s) \<leftarrow> kv_put kv (partitions_key hrn lid version) (Some (Typed (VIds partitionIds)))
                        (json_text j (vector_to_json JString partitionIds)) expiry s;
            Some s })
         else Some s) })"

fun get_partitions_loop ::
  "json_lib \<Rightarrow> 's read_cache \<Rightarrow> string \<Rightarrow> int option \<Rightarrow> string \<Rightarrow> string list \<Rightarrow> 's \<Rightarrow> (partition list \<times> 's) option" where
  "get_partitions_loop j kv hrn version lid [] s = Some ([], s)"
| "get_partitions_loop j kv hrn version lid (partitionId # ids) s = do {
     (found, s) \<leftarrow> get_as kv (decode_partition j) cast_partition (partition_key hrn lid partitionId version) s;
     (ps, s) \<leftarrow> get_partitions_loop j kv hrn version lid ids s;
     Some ((case found of Some p \<Rightarrow> p # ps | None \<Rightarrow> ps), s) }"

definition pc_get ::
  "json_lib \<Rightarrow> 's read_cache \<Rightarrow> string \<Rightarrow> int option \<Rightarrow> string list \<Rightarrow> string \<Rightarrow> 's \<Rightarrow> (partitions \<times> 's) option" where
  "pc_get j kv hrn version partitionIds lid s = do {
     (ps, s) \<leftarrow> get_partitions_loop j kv hrn version lid partitionIds s;
     Some (\<lparr>partitions_list = ps\<rparr>, s) }"

definition pc_get_all ::
  "json_lib \<Rightarrow> 's read_cache \<Rightarrow> string \<Rightarrow> int option \<Rightarrow> string \<Rightarrow> 's \<Rightarrow> (partitions option \<times> 's) option" where
  "pc_get_all j kv hrn version lid s = do {
     (ids, s) \<leftarrow> get_as kv (decode_ids j) cast_ids (partitions_key hrn lid version) s;
     (case ids of
        None \<Rightarrow> Some (None, s)
      | Some ids \<Rightarrow> do { (ps, s) \<leftarrow> pc_get j kv hrn version ids lid s; Some (Some ps, s) }) }"

definition pc_put_layer_versions :: "json_lib \<Rightarrow> 's read_cache \<Rightarrow> string \<Rightarrow> int \<Rightarrow> layer_versions \<Rightarrow> 's \<Rightarrow> 's option" where
  "pc_put_layer_versions j kv hrn catalogVersion layerVersions s =
     map_option snd (kv_put kv (layer_versions_key hrn catalogVersion) (Some (Typed (VLayerVersions layerVersions)))
       (json_text j (layer_versions_to_json layerVersions)) kDefaultExpiry s)"

definition pc_get_layer_versions :: "json_lib \<Rightarrow> 's read_cache \<Rightarrow> string \<Rightarrow> int \<Rightarrow> 's \<Rightarrow> (layer_versions option \<times> 's) option" where
  "pc_get_layer_versions j kv hrn catalogVersion s =
     get_as kv (decode_layer_versions j) cast_layer_versions (layer_versions_key hrn catalogVersion) s"

definition pc_clear :: "'s read_cache \<Rightarrow> string \<Rightarrow> string \<Rightarrow> 's \<Rightarrow> 's option" where
  "pc_clear kv hrn lid s = map_option snd (kv_remove_keys_with_prefix kv (partitions_key hrn lid None) s)"

fun clear_partitions_loop :: "'s read_cache \<Rightarrow> string \<Rightarrow> string \<Rightarrow> partition list \<Rightarrow> 's \<Rightarrow> 's option" where
  "clear_partitions_loop kv hrn lid [] s = Some s"
| "clear_partitions_loop kv hrn lid (p # ps) s = do {
     (_, s) \<leftarrow> kv_remove_keys_with_prefix kv (hrn @ ''::'' @ lid @ ''::'' @ partition_data_handle p) s;
     (_, s) \<leftarrow> kv_remove_keys_with_prefix kv (hrn @ ''::'' @ lid @ ''::'' @ partition_partition p) s;
     clear_partitions_loop kv hrn lid ps s }"

definition pc_clear_partitions ::
  "json_lib \<Rightarrow> 's read_cache \<Rightarrow> string \<Rightarrow> int option \<Rightarrow> string list \<Rightarrow> string \<Rightarrow> 's \<Rightarrow> 's option" where
  "pc_clear_partitions j kv hrn version partitionIds lid s = do {
     (cached, s) \<leftarrow> pc_get j kv hrn version partitionIds lid s;
     clear_partitions_loop kv hrn lid (partitions_list cached) s }"

section \<open>The catalog and its latest version\<close>

abbreviation (input) kCatalogVersionExpireTime :: int where
  "kCatalogVersionExpireTime \<equiv> 5 * 60"

definition cc_put :: "json_lib \<Rightarrow> 's read_cache \<Rightarrow> string \<Rightarrow> catalog \<Rightarrow> 's \<Rightarrow> 's option" where
  "cc_put j kv hrn c s =
     map_option snd (kv_put kv (catalog_key hrn) (Some (Typed (VCatalog c))) (json_text j (catalog_to_json c)) kDefaultExpiry s)"

definition cc_get :: "json_lib \<Rightarrow> 's read_cache \<Rightarrow> string \<Rightarrow> 's \<Rightarrow> (catalog option \<times> 's) option" where
  "cc_get j kv hrn s = get_as kv (decode_catalog j) cast_catalog (catalog_key hrn) s"

definition cc_put_version :: "json_lib \<Rightarrow> 's read_cache \<Rightarrow> string \<Rightarrow> version_response \<Rightarrow> 's \<Rightarrow> 's option" where
  "cc_put_version j kv hrn v s =
     map_option snd (kv_put kv (version_key hrn) (Some (Typed (VVersion v))) (json_text j (version_response_to_json v))
       kCatalogVersionExpireTime s)"

definition cc_get_version :: "json_lib \<Rightarrow> 's read_cache \<Rightarrow> string \<Rightarrow> 's \<Rightarrow> (version_response option \<times> 's) option" where
  "cc_get_version j kv hrn s = get_as kv (decode_version j) cast_version (version_key hrn) s"

definition cc_clear :: "'s read_cache \<Rightarrow> string \<Rightarrow> 's \<Rightarrow> 's option" where
  "cc_clear kv hrn s = map_option snd (kv_remove_keys_with_prefix kv hrn s)"

section \<open>Data and service addresses\<close>

definition data_put :: "'s read_cache \<Rightarrow> string \<Rightarrow> string \<Rightarrow> string \<Rightarrow> string \<Rightarrow> 's \<Rightarrow> 's option" where
  "data_put kv hrn d lid data_handle s = map_option snd (kv_put_bytes kv (data_key hrn lid data_handle) d kDefaultExpiry s)"

definition data_get :: "'s read_cache \<Rightarrow> string \<Rightarrow> string \<Rightarrow> string \<Rightarrow> 's \<Rightarrow> (string option \<times> 's) option" where
  "data_get kv hrn lid data_handle s = kv_get_bytes kv (data_key hrn lid data_handle) s"

definition data_clear :: "'s read_cache \<Rightarrow> string \<Rightarrow> string \<Rightarrow> string \<Rightarrow> 's \<Rightarrow> 's option" where
  "data_clear kv hrn lid data_handle s = map_option snd (kv_remove_keys_with_prefix kv (data_key hrn lid data_handle) s)"

definition api_put :: "'s read_cache \<Rightarrow> string \<Rightarrow> string \<Rightarrow> string \<Rightarrow> string \<Rightarrow> 's \<Rightarrow> 's option" where
  "api_put kv hrn serv serviceVersion serviceUrl s =
     map_option snd (kv_put kv (api_key hrn serv serviceVersion) (Some (Typed (VUrl serviceUrl))) serviceUrl 3600 s)"

definition api_get :: "'s read_cache \<Rightarrow> string \<Rightarrow> string \<Rightarrow> string \<Rightarrow> 's \<Rightarrow> (string option \<times> 's) option" where
  "api_get kv hrn serv serviceVersion s = get_as kv decode_url cast_url (api_key hrn serv serviceVersion) s"

end
