(* ===== verification/ReadApi.thy ===== *)
theory ReadApi
  imports ReadCaches OlpClient
begin

text \<open>
  The calls to the services of the platform: \<open>src/generated/api\<close> of the read service. Each builds the path,
  the query and the headers of a request, passes them to \<open>OlpClient::CallApi\<close> and reads the answer.

  \<open>CallApi\<close> is an argument, \<open>call\<close>, with a state \<open>'n\<close> of the network; \<open>call_api\<close> of the client under an
  environment is the instance of the code. The result is \<^term>\<open>None\<close> when RapidJSON stops at an assertion
  while the answer is read.
\<close>

section \<open>Requests\<close>

text \<open>The arguments of \<open>CallApi\<close>: client, path, verb, query, headers, body and content type.\<close>

type_synonym 'n api_call =
  "olp_client \<Rightarrow> string \<Rightarrow> string \<Rightarrow> (string \<times> string) list \<Rightarrow> (string \<times> string) list \<Rightarrow> string option \<Rightarrow> string \<Rightarrow>
   'n \<Rightarrow> http_response \<times> 'n"

text \<open>\<open>emplace\<close> of a \<open>std::multimap\<close>: equal keys keep their order.\<close>

fun mm_emplace :: "string \<Rightarrow> string \<Rightarrow> (string \<times> string) list \<Rightarrow> (string \<times> string) list" where
  "mm_emplace k v [] = [(k, v)]"
| "mm_emplace k v (e # m) = (if k < fst e then (k, v) # e # m else e # mm_emplace k v m)"

definition mm_optional :: "string \<Rightarrow> string option \<Rightarrow> (string \<times> string) list \<Rightarrow> (string \<times> string) list" where
  "mm_optional k v m = (case v of Some x \<Rightarrow> mm_emplace k x m | None \<Rightarrow> m)"

abbreviation (input) HTTP_OK :: int where "HTTP_OK \<equiv> 200"
abbreviation (input) HTTP_CREATED :: int where "HTTP_CREATED \<equiv> 201"
abbreviation (input) HTTP_FORBIDDEN :: int where "HTTP_FORBIDDEN \<equiv> 403"
abbreviation (input) HTTP_NOT_FOUND :: int where "HTTP_NOT_FOUND \<equiv> 404"

text \<open>The end of every call: another status is an error, an answer is read.\<close>

definition api_answer :: "int \<Rightarrow> (string \<Rightarrow> 'a option) \<Rightarrow> http_response \<times> 'n \<Rightarrow> ('a api_response \<times> 'n) option" where
  "api_answer expected read r =
     (case r of (response, n) \<Rightarrow>
        if resp_status response \<noteq> expected
        then Some (Inl (api_error_of_status (resp_status response) (resp_body response)), n)
        else map_option (\<lambda>x. (Inr x, n)) (read (resp_body response)))"

definition read_json :: "json_lib \<Rightarrow> (json \<Rightarrow> 'a option) \<Rightarrow> 'a \<Rightarrow> string \<Rightarrow> 'a option" where
  "read_json j from_json result text = parse_document from_json result (json_parse j text)"

section \<open>Blobs, configuration and lookup\<close>

definition get_blob ::
  "'n api_call \<Rightarrow> olp_client \<Rightarrow> string \<Rightarrow> string \<Rightarrow> string option \<Rightarrow> string option \<Rightarrow> 'n \<Rightarrow> (string api_response \<times> 'n) option" where
  "get_blob call client lid data_handle billing_tag byte_range n =
     (let header_params = mm_optional ''Range'' byte_range (mm_emplace ''Accept'' ''application/json'' []);
          query_params = mm_optional ''billingTag'' billing_tag [];
          metadata_uri = ''/layers/'' @ lid @ ''/data/'' @ data_handle
      in api_answer HTTP_OK Some (call client metadata_uri ''GET'' query_params header_params None [] n))"

definition get_volatile_blob ::
  "'n api_call \<Rightarrow> olp_client \<Rightarrow> string \<Rightarrow> string \<Rightarrow> string option \<Rightarrow> 'n \<Rightarrow> (string api_response \<times> 'n) option" where
  "get_volatile_blob call client lid data_handle billing_tag n =
     (let header_params = mm_emplace ''Accept'' ''application/json'' [];
          query_params = mm_optional ''billingTag'' billing_tag [];
          metadata_uri = ''/layers/'' @ lid @ ''/data/'' @ data_handle
      in api_answer HTTP_OK Some (call client metadata_uri ''GET'' query_params header_params None [] n))"

definition config_get_catalog ::
  "json_lib \<Rightarrow> 'n api_call \<Rightarrow> olp_client \<Rightarrow> string \<Rightarrow> string option \<Rightarrow> 'n \<Rightarrow> (catalog api_response \<times> 'n) option" where
  "config_get_catalog j call client hrn billing_tag n =
     (let header_params = mm_emplace ''Accept'' ''application/json'' [];
          query_params = mm_optional ''billingTag'' billing_tag [];
          catalog_uri = ''/catalogs/'' @ hrn
      in api_answer HTTP_OK (read_json j catalog_from_json empty_catalog)
           (call client catalog_uri ''GET'' query_params header_params None [] n))"

definition platform_get_apis ::
  "json_lib \<Rightarrow> 'n api_call \<Rightarrow> olp_client \<Rightarrow> string \<Rightarrow> string \<Rightarrow> 'n \<Rightarrow> (api list api_response \<times> 'n) option" where
  "platform_get_apis j call client serv service_version n =
     (let header_params = mm_emplace ''Accept'' ''application/json'' [];
          platform_url = ''/platform/apis/'' @ serv @ ''/'' @ service_version
      in api_answer HTTP_OK (read_json j (vector_from_json api_from_json) [])
           (call client platform_url ''GET'' [] header_params None [] n))"

definition resources_get_apis ::
  "json_lib \<Rightarrow> 'n api_call \<Rightarrow> olp_client \<Rightarrow> string \<Rightarrow> string \<Rightarrow> string \<Rightarrow> 'n \<Rightarrow> (api list api_response \<times> 'n) option" where
  "resources_get_apis j call client hrn serv service_version n =
     (let header_params = mm_emplace ''Accept'' ''application/json'' [];
          resource_url = ''/resources/'' @ hrn @ ''/apis/'' @ serv @ ''/'' @ service_version
      in api_answer HTTP_OK (read_json j (vector_from_json api_from_json) [])
           (call client resource_url ''GET'' [] header_params None [] n))"

section \<open>Metadata and queries\<close>

text \<open>The same function in two files; of no strings it reads before the beginning.\<close>

definition concat_string_array :: "string list \<Rightarrow> string \<Rightarrow> string option" where
  "concat_string_array strings delimiter =
     (case strings of
        [] \<Rightarrow> None
      | [s] \<Rightarrow> Some s
      | _ \<Rightarrow> Some (concat (map (\<lambda>s. s @ delimiter) (butlast strings)) @ last strings))"

definition with_fields :: "string list option \<Rightarrow> (string \<times> string) list \<Rightarrow> (string \<times> string) list option" where
  "with_fields additional_fields m =
     (case additional_fields of
        None \<Rightarrow> Some m
      | Some fs \<Rightarrow> map_option (\<lambda>s. mm_emplace ''additionalFields'' s m) (concat_string_array fs '',''))"

definition metadata_get_layer_versions ::
  "json_lib \<Rightarrow> 'n api_call \<Rightarrow> olp_client \<Rightarrow> int \<Rightarrow> string option \<Rightarrow> 'n \<Rightarrow> (layer_versions api_response \<times> 'n) option" where
  "metadata_get_layer_versions j call client version billing_tag n =
     (let header_params = mm_emplace ''Accept'' ''application/json'' [];
          query_params = mm_optional ''billingTag'' billing_tag (mm_emplace ''version'' (int_to_string version) [])
      in api_answer HTTP_OK (read_json j layer_versions_from_json empty_layer_versions)
           (call client ''/layerVersions'' ''GET'' query_params header_params None [] n))"

definition metadata_get_partitions ::
  "json_lib \<Rightarrow> 'n api_call \<Rightarrow> olp_client \<Rightarrow> string \<Rightarrow> int option \<Rightarrow> string list option \<Rightarrow> string option \<Rightarrow> string option \<Rightarrow>
   'n \<Rightarrow> (partitions api_response \<times> 'n) option" where
  "metadata_get_partitions j call client lid version additional_fields byte_range billing_tag n =
     (let header_params = mm_optional ''Range'' byte_range (mm_emplace ''Accept'' ''application/json'' []) in
      Option.bind (with_fields additional_fields []) (\<lambda>query_params.
        let query_params = mm_optional ''billingTag'' billing_tag query_params;
            query_params = mm_optional ''version'' (map_option int_to_string version) query_params;
            metadataUri = ''/layers/'' @ lid @ ''/partitions''
        in api_answer HTTP_OK (read_json j partitions_from_json empty_partitions)
             (call client metadataUri ''GET'' query_params header_params None [] n)))"

definition metadata_get_latest_catalog_version ::
  "json_lib \<Rightarrow> 'n api_call \<Rightarrow> olp_client \<Rightarrow> int \<Rightarrow> string option \<Rightarrow> 'n \<Rightarrow> (version_response api_response \<times> 'n) option" where
  "metadata_get_latest_catalog_version j call client startVersion billing_tag n =
     (let header_params = mm_emplace ''Accept'' ''application/json'' [];
          query_params = mm_optional ''billingTag'' billing_tag (mm_emplace ''startVersion'' (int_to_string startVersion) [])
      in api_answer HTTP_OK (read_json j version_response_from_json empty_version_response)
           (call client ''/versions/latest'' ''GET'' query_params header_params None [] n))"

definition query_get_partitions_by_id ::
  "json_lib \<Rightarrow> 'n api_call \<Rightarrow> olp_client \<Rightarrow> string \<Rightarrow> string list \<Rightarrow> int option \<Rightarrow> string list option \<Rightarrow> string option \<Rightarrow>
   'n \<Rightarrow> (partitions api_response \<times> 'n) option" where
  "query_get_partitions_by_id j call client lid ids version additional_fields billing_tag n =
     (let header_params = mm_emplace ''Accept'' ''application/json'' [];
          query_params = fold (mm_emplace ''partition'') ids []
      in Option.bind (with_fields additional_fields query_params) (\<lambda>query_params.
           let query_params = mm_optional ''billingTag'' billing_tag query_params;
               query_params = mm_optional ''version'' (map_option int_to_string version) query_params;
               metadata_uri = ''/layers/'' @ lid @ ''/partitions''
           in api_answer HTTP_OK (read_json j partitions_from_json empty_partitions)
                (call client metadata_uri ''GET'' query_params header_params None [] n)))"

definition query_quad_tree_index ::
  "json_lib \<Rightarrow> 'n api_call \<Rightarrow> olp_client \<Rightarrow> string \<Rightarrow> int \<Rightarrow> string \<Rightarrow> int \<Rightarrow> string list option \<Rightarrow> string option \<Rightarrow>
   'n \<Rightarrow> (quad_index api_response \<times> 'n) option" where
  "query_quad_tree_index j call client lid version quad_key depth additional_fields billing_tag n =
     (let header_params = mm_emplace ''Accept'' ''application/json'' [] in
      Option.bind (with_fields additional_fields []) (\<lambda>query_params.
        let query_params = mm_optional ''billingTag'' billing_tag query_params;
            metadata_uri = ''/layers/'' @ lid @ ''/versions/'' @ int_to_string version @ ''/quadkeys/'' @ quad_key @
              ''/depths/'' @ int_to_string depth
        in api_answer HTTP_OK (read_json j quad_index_from_json empty_quad_index)
             (call client metadata_uri ''GET'' query_params header_params None [] n)))"

section \<open>Streams\<close>

definition stream_subscribe ::
  "json_lib \<Rightarrow> 'n api_call \<Rightarrow> olp_client \<Rightarrow> string \<Rightarrow> string option \<Rightarrow> string option \<Rightarrow> string option \<Rightarrow>
   consumer_options option \<Rightarrow> 'n \<Rightarrow> (subscribe_response api_response \<times> 'n) option" where
  "stream_subscribe j call client lid subscription_id mode consumer_id subscription_properties n =
     (let metadata_uri = ''/layers/'' @ lid @ ''/subscribe'';
          query_params = mm_optional ''consumerId'' consumer_id
            (mm_optional ''mode'' mode (mm_optional ''subscriptionId'' subscription_id []));
          header_params = mm_emplace ''Accept'' ''application/json'' [];
          body = map_option (\<lambda>p. json_text j (consumer_properties_to_json p)) subscription_properties
      in api_answer HTTP_CREATED (read_json j subscribe_response_from_json empty_subscribe_response)
           (call client metadata_uri ''POST'' query_params header_params body ''application/json'' n))"

definition stream_consume_data ::
  "json_lib \<Rightarrow> 'n api_call \<Rightarrow> olp_client \<Rightarrow> string \<Rightarrow> string option \<Rightarrow> string option \<Rightarrow> string \<Rightarrow>
   'n \<Rightarrow> (messages api_response \<times> 'n) option" where
  "stream_consume_data j call client lid subscription_id mode x_correlation_id n =
     (let metadata_uri = ''/layers/'' @ lid @ ''/partitions'';
          query_params = mm_optional ''mode'' mode (mm_optional ''subscriptionId'' subscription_id []);
          header_params = mm_emplace ''X-Correlation-Id'' x_correlation_id (mm_emplace ''Accept'' ''application/json'' [])
      in api_answer HTTP_OK (read_json j messages_from_json empty_messages)
           (call client metadata_uri ''GET'' query_params header_params None [] n))"

text \<open>On success the result is the status.\<close>

definition stream_handle_offsets ::
  "json_lib \<Rightarrow> 'n api_call \<Rightarrow> olp_client \<Rightarrow> string \<Rightarrow> stream_offsets \<Rightarrow> string option \<Rightarrow> string option \<Rightarrow> string \<Rightarrow> string \<Rightarrow>
   'n \<Rightarrow> (int api_response \<times> 'n) option" where
  "stream_handle_offsets j call client lid offsets subscription_id mode endpoint x_correlation_id n =
     (let metadata_uri = ''/layers/'' @ lid @ ''/'' @ endpoint;
          query_params = mm_optional ''mode'' mode (mm_optional ''subscriptionId'' subscription_id []);
          header_params = mm_emplace ''X-Correlation-Id'' x_correlation_id (mm_emplace ''Accept'' ''application/json'' []);
          body = json_text j (stream_offsets_to_json offsets)
      in api_answer HTTP_OK (\<lambda>_. Some HTTP_OK)
           (call client metadata_uri ''PUT'' query_params header_params (Some body) ''application/json'' n))"

definition stream_commit_offsets ::
  "json_lib \<Rightarrow> 'n api_call \<Rightarrow> olp_client \<Rightarrow> string \<Rightarrow> stream_offsets \<Rightarrow> string option \<Rightarrow> string option \<Rightarrow> string \<Rightarrow>
   'n \<Rightarrow> (int api_response \<times> 'n) option" where
  "stream_commit_offsets j call client lid offsets subscription_id mode x_correlation_id n =
     stream_handle_offsets j call client lid offsets subscription_id mode ''offsets'' x_correlation_id n"

definition stream_seek_to_offset ::
  "json_lib \<Rightarrow> 'n api_call \<Rightarrow> olp_client \<Rightarrow> string \<Rightarrow> stream_offsets \<Rightarrow> string option \<Rightarrow> string option \<Rightarrow> string \<Rightarrow>
   'n \<Rightarrow> (int api_response \<times> 'n) option" where
  "stream_seek_to_offset j call client lid offsets subscription_id mode x_correlation_id n =
     stream_handle_offsets j call client lid offsets subscription_id mode ''seek'' x_correlation_id n"

definition stream_delete_subscription ::
  "'n api_call \<Rightarrow> olp_client \<Rightarrow> string \<Rightarrow> string \<Rightarrow> string \<Rightarrow> string \<Rightarrow> 'n \<Rightarrow> (int api_response \<times> 'n) option" where
  "stream_delete_subscription call client lid subscription_id mode x_correlation_id n =
     (let metadata_uri = ''/layers/'' @ lid @ ''/subscribe'';
          query_params = mm_emplace ''mode'' mode (mm_emplace ''subscriptionId'' subscription_id []);
          header_params = mm_emplace ''X-Correlation-Id'' x_correlation_id (mm_emplace ''Accept'' ''application/json'' [])
      in api_answer HTTP_OK (\<lambda>_. Some HTTP_OK)
           (call client metadata_uri ''DELETE'' query_params header_params None [] n))"

end
