(* ===== verification/ReadRepositories.thy ===== *)
theory ReadRepositories
  imports ReadApi
begin

text \<open>
  The repositories of the read service: \<open>src/ApiClientLookup.cpp\<close>, \<open>src/repositories/CatalogRepository.cpp\<close>,
  \<open>PartitionsRepository.cpp\<close> and \<open>DataRepository.cpp\<close>, with the requests they take. The state is the one
  of the cache and the one of the network.
\<close>

section \<open>Requests\<close>

datatype fetch_options = OnlineIfNotFound | OnlineOnly | CacheOnly | CacheWithUpdate

record catalog_request =
  cr_billing_tag :: "string option"
  cr_fetch_option :: fetch_options

record catalog_version_request =
  cvr_start_version :: int
  cvr_billing_tag :: "string option"
  cvr_fetch_option :: fetch_options

record partitions_request =
  pr_version :: "int option"
  pr_billing_tag :: "string option"
  pr_fetch_option :: fetch_options

record data_request =
  dr_partition_id :: "string option"
  dr_version :: "int option"
  dr_data_handle :: "string option"
  dr_billing_tag :: "string option"
  dr_fetch_option :: fetch_options

definition new_catalog_version_request :: catalog_version_request where
  "new_catalog_version_request = \<lparr>cvr_start_version = 0, cvr_billing_tag = None, cvr_fetch_option = OnlineIfNotFound\<rparr>"

definition new_data_request :: data_request where
  "new_data_request = \<lparr>dr_partition_id = None, dr_version = None, dr_data_handle = None, dr_billing_tag = None,
     dr_fetch_option = OnlineIfNotFound\<rparr>"

text \<open>What the settings and the cancellation context of an operation give it.\<close>

record ('s, 'n) read_env =
  env_json :: json_lib
  env_cache :: "'s read_cache"
  env_call :: "'n api_call"
  env_settings :: olp_client_settings
  env_cancelled :: "'n \<Rightarrow> bool"

text \<open>An operation may throw; else it has a response and the state after it.\<close>

type_synonym ('a, 's, 'n) read_result = "('a api_response \<times> 's \<times> 'n) option"

definition cache_miss :: "string \<Rightarrow> api_error" where
  "cache_miss what = api_error_of_code NotFound (''Cache only resource not found in cache ('' @ what @ '').'') False"

definition forbidden :: "api_error \<Rightarrow> bool" where
  "forbidden e \<longleftrightarrow> http_status_code e = HTTP_FORBIDDEN"

section \<open>Lookup of a service\<close>

definition datastore_server_url :: "(string \<times> string) list" where
  "datastore_server_url =
     [(''here'', ''data.api.platform.here.com''), (''here-dev'', ''data.api.platform.in.here.com''),
      (''here-cn'', ''data.api.platform.hereolp.cn''), (''here-cn-dev'', ''data.api.platform.in.hereolp.cn'')]"

definition get_datastore_server_url :: "string \<Rightarrow> string" where
  "get_datastore_server_url part =
     (case map_of datastore_server_url part of
        Some url \<Rightarrow> ''https://api-lookup.'' @ url @ ''/lookup/v1''
      | None \<Rightarrow> [])"

definition client_of :: "string \<Rightarrow> olp_client_settings \<Rightarrow> olp_client" where
  "client_of url settings = \<lparr>base_url = url, default_headers = [], client_settings = settings\<rparr>"

definition lookup_api ::
  "('s, 'n) read_env \<Rightarrow> hrn \<Rightarrow> string \<Rightarrow> string \<Rightarrow> fetch_options \<Rightarrow> 's \<times> 'n \<Rightarrow> (olp_client, 's, 'n) read_result" where
  "lookup_api env cat serv ver options sn =
     (case sn of (s, n) \<Rightarrow>
      let hrn = to_catalog_hrn_string cat in do {
        (url, s) \<leftarrow> (if options \<noteq> OnlineOnly then api_get (env_cache env) hrn serv ver s else Some (None, s));
        (case url of
           Some url \<Rightarrow> Some (Inr (client_of url (env_settings env)), s, n)
         | None \<Rightarrow>
             (if options = CacheOnly then Some (Inl (cache_miss ''loopup api''), s, n)
              else
               (let client = client_of (get_datastore_server_url (partition_of cat)) (env_settings env) in do {
                  (response, n) \<leftarrow>
                    (if serv = ''config'' then platform_get_apis (env_json env) (env_call env) client serv ver n
                     else resources_get_apis (env_json env) (env_call env) client hrn serv ver n);
                  (case response of
                     Inl e \<Rightarrow> Some (Inl e, s, n)
                   | Inr [] \<Rightarrow>
                       Some (Inl (api_error_of_code ServiceUnavailable ''Service/Version not available for given HRN'' False), s, n)
                   | Inr (a # _) \<Rightarrow> do {
                       s \<leftarrow> api_put (env_cache env) hrn serv ver (api_base_url a) s;
                       Some (Inr (client_of (api_base_url a) (env_settings env)), s, n) }) }))) })"

section \<open>Fetching\<close>

text \<open>
  What all repositories share: the cache is asked unless the option is \<open>OnlineOnly\<close>; an answer of it ends the
  operation, and so does its absence for \<open>CacheOnly\<close>. Otherwise the service is looked up and asked; its answer
  is put into the cache, and a refusal clears what is cached.
\<close>

definition fetch ::
  "fetch_options \<Rightarrow> string \<Rightarrow> ('s \<Rightarrow> ('a option \<times> 's) option) \<Rightarrow> ('s \<times> 'n \<Rightarrow> (olp_client, 's, 'n) read_result) \<Rightarrow>
   (olp_client \<Rightarrow> 'n \<Rightarrow> ('a api_response \<times> 'n) option) \<Rightarrow> ('a \<Rightarrow> 's \<Rightarrow> 's option) \<Rightarrow> ('s \<Rightarrow> 's option) \<Rightarrow> 's \<times> 'n \<Rightarrow>
   ('a, 's, 'n) read_result" where
  "fetch option what cached lookup ask put clear sn =
     (case sn of (s, n) \<Rightarrow> do {
        (found, s) \<leftarrow> (if option \<noteq> OnlineOnly then cached s else Some (None, s));
        (case found of
           Some x \<Rightarrow> Some (Inr x, s, n)
         | None \<Rightarrow>
             (if option = CacheOnly then Some (Inl (cache_miss what), s, n)
              else do {
                (api, s, n) \<leftarrow> lookup (s, n);
                (case api of
                   Inl e \<Rightarrow> Some (Inl e, s, n)
                 | Inr client \<Rightarrow> do {
                     (response, n) \<leftarrow> ask client n;
                     s \<leftarrow> (case response of Inr x \<Rightarrow> put x s | Inl e \<Rightarrow> if forbidden e then clear s else Some s);
                     Some (response, s, n) }) })) })"

section \<open>Catalogs and versions\<close>

definition get_catalog :: "('s, 'n) read_env \<Rightarrow> hrn \<Rightarrow> catalog_request \<Rightarrow> 's \<times> 'n \<Rightarrow> (catalog, 's, 'n) read_result" where
  "get_catalog env cat request sn =
     (let hrn = to_catalog_hrn_string cat; j = env_json env; kv = env_cache env; option = cr_fetch_option request in
      fetch option ''catalog'' (cc_get j kv hrn) (lookup_api env cat ''config'' ''v1'' option)
        (\<lambda>client. config_get_catalog j (env_call env) client hrn (cr_billing_tag request))
        (cc_put j kv hrn) (cc_clear kv hrn) sn)"

definition get_latest_version ::
  "('s, 'n) read_env \<Rightarrow> hrn \<Rightarrow> catalog_version_request \<Rightarrow> 's \<times> 'n \<Rightarrow> (version_response, 's, 'n) read_result" where
  "get_latest_version env cat request sn =
     (let hrn = to_catalog_hrn_string cat; j = env_json env; kv = env_cache env; option = cvr_fetch_option request in
      fetch option ''catalog version'' (cc_get_version j kv hrn) (lookup_api env cat ''metadata'' ''v1'' option)
        (\<lambda>client. metadata_get_latest_catalog_version j (env_call env) client (- 1) (cvr_billing_tag request))
        (cc_put_version j kv hrn) (cc_clear kv hrn) sn)"

section \<open>Partitions\<close>

text \<open>The time to live of a layer is in milliseconds, the expiry in seconds; the division of C++ rounds to zero.\<close>

definition ttl_for_layer :: "layer list \<Rightarrow> string \<Rightarrow> int option api_response" where
  "ttl_for_layer layers lid =
     (case find (\<lambda>l. layer_id l = lid) layers of
        Some l \<Rightarrow> Inr (map_option (\<lambda>t. sgn t * (\<bar>t\<bar> div 1000)) (layer_ttl l))
      | None \<Rightarrow> Inl (api_error_of_code NotFound ''Layer specified doesn't exist.'' False))"

definition get_partitions ::
  "('s, 'n) read_env \<Rightarrow> hrn \<Rightarrow> string \<Rightarrow> partitions_request \<Rightarrow> int option \<Rightarrow> 's \<times> 'n \<Rightarrow> (partitions, 's, 'n) read_result" where
  "get_partitions env cat lid request expiry sn =
     (let hrn = to_catalog_hrn_string cat; j = env_json env; kv = env_cache env; option = pr_fetch_option request;
          version = pr_version request in
      fetch option ''partition'' (pc_get_all j kv hrn version lid) (lookup_api env cat ''metadata'' ''v1'' option)
        (\<lambda>client. metadata_get_partitions j (env_call env) client lid version None None (pr_billing_tag request))
        (\<lambda>ps. pc_put j kv hrn version ps lid expiry True) (pc_clear kv hrn lid) sn)"

definition get_versioned_partitions ::
  "('s, 'n) read_env \<Rightarrow> hrn \<Rightarrow> string \<Rightarrow> partitions_request \<Rightarrow> 's \<times> 'n \<Rightarrow> (partitions, 's, 'n) read_result" where
  "get_versioned_partitions env cat lid request sn =
     (case pr_version request of
        Some _ \<Rightarrow> get_partitions env cat lid request None sn
      | None \<Rightarrow> do {
          (latest, sn) \<leftarrow> get_latest_version env cat
             (new_catalog_version_request\<lparr>cvr_fetch_option := pr_fetch_option request, cvr_billing_tag := pr_billing_tag request\<rparr>) sn;
          (case latest of
             Inl e \<Rightarrow> Some (Inl e, sn)
           | Inr v \<Rightarrow> get_partitions env cat lid (request\<lparr>pr_version := Some (response_version v)\<rparr>) None sn) })"

definition get_volatile_partitions ::
  "('s, 'n) read_env \<Rightarrow> hrn \<Rightarrow> string \<Rightarrow> partitions_request \<Rightarrow> 's \<times> 'n \<Rightarrow> (partitions, 's, 'n) read_result" where
  "get_volatile_partitions env cat lid request sn =
     (let request = request\<lparr>pr_version := None\<rparr>;
          catalog_request = \<lparr>cr_billing_tag = pr_billing_tag request, cr_fetch_option = pr_fetch_option request\<rparr>
      in do {
        (response, sn) \<leftarrow> get_catalog env cat catalog_request sn;
        (case response of
           Inl e \<Rightarrow> Some (Inl e, sn)
         | Inr c \<Rightarrow>
             (case ttl_for_layer (catalog_layers c) lid of
                Inl e \<Rightarrow> Some (Inl e, sn)
              | Inr expiry \<Rightarrow> get_partitions env cat lid request expiry sn)) })"

text \<open>A cached answer counts when it has all partitions asked for, which is one.\<close>

definition get_partition_by_id ::
  "('s, 'n) read_env \<Rightarrow> hrn \<Rightarrow> string \<Rightarrow> data_request \<Rightarrow> 's \<times> 'n \<Rightarrow> (partitions, 's, 'n) read_result" where
  "get_partition_by_id env cat lid request sn =
     (case dr_partition_id request of
        None \<Rightarrow> Some (Inl (api_error_of_code PreconditionFailed ''Partition Id is missing'' False), sn)
      | Some pid \<Rightarrow>
          (let hrn = to_catalog_hrn_string cat; j = env_json env; kv = env_cache env; option = dr_fetch_option request;
               version = dr_version request; ids = [pid] in
           fetch option ''partition''
             (\<lambda>s. do { (ps, s) \<leftarrow> pc_get j kv hrn version ids lid s;
                        Some (if length (partitions_list ps) = length ids then Some ps else None, s) })
             (lookup_api env cat ''query'' ''v1'' option)
             (\<lambda>client. query_get_partitions_by_id j (env_call env) client lid ids version None (dr_billing_tag request))
             (\<lambda>ps. pc_put j kv hrn version ps lid None False) (pc_clear_partitions j kv hrn version ids lid) sn))"

section \<open>Data\<close>

definition get_blob_data ::
  "('s, 'n) read_env \<Rightarrow> hrn \<Rightarrow> string \<Rightarrow> string \<Rightarrow> data_request \<Rightarrow> 's \<times> 'n \<Rightarrow> (string, 's, 'n) read_result" where
  "get_blob_data env cat lid serv request sn =
     (case dr_data_handle request of
        None \<Rightarrow> Some (Inl (api_error_of_code PreconditionFailed ''Data handle is missing'' False), sn)
      | Some handle \<Rightarrow>
          (let hrn = to_catalog_hrn_string cat; kv = env_cache env; option = dr_fetch_option request in
           fetch option ''data'' (data_get kv hrn lid handle) (lookup_api env cat serv ''v1'' option)
             (\<lambda>client. if serv = ''blob'' then get_blob (env_call env) client lid handle (dr_billing_tag request) None
                        else get_volatile_blob (env_call env) client lid handle (dr_billing_tag request))
             (\<lambda>d. data_put kv hrn d lid handle) (data_clear kv hrn lid handle) sn))"

text \<open>The data handle of the first partition found.\<close>

definition with_handle_of ::
  "data_request \<Rightarrow> partitions api_response \<Rightarrow> data_request api_response" where
  "with_handle_of request response =
     (case response of
        Inl e \<Rightarrow> Inl e
      | Inr ps \<Rightarrow>
          (case partitions_list ps of
             [] \<Rightarrow> Inl (api_error_of_code NotFound ''Partition not found'' False)
           | p # _ \<Rightarrow> Inr (request\<lparr>dr_data_handle := Some (partition_data_handle p)\<rparr>)))"

definition both_given :: api_error where
  "both_given = api_error_of_code PreconditionFailed ''Both data handle and partition id specified'' False"

text \<open>The request with the latest version, when it has none.\<close>

definition with_latest_version ::
  "('s, 'n) read_env \<Rightarrow> hrn \<Rightarrow> data_request \<Rightarrow> 's \<times> 'n \<Rightarrow> (data_request, 's, 'n) read_result" where
  "with_latest_version env cat request sn =
     (if dr_version request \<noteq> None then Some (Inr request, sn)
      else do {
        (latest, sn) \<leftarrow> get_latest_version env cat
           (new_catalog_version_request\<lparr>cvr_fetch_option := dr_fetch_option request, cvr_billing_tag := dr_billing_tag request\<rparr>) sn;
        Some (map_sum id (\<lambda>v. request\<lparr>dr_version := Some (response_version v)\<rparr>) latest, sn) })"

definition get_versioned_data ::
  "('s, 'n) read_env \<Rightarrow> hrn \<Rightarrow> string \<Rightarrow> data_request \<Rightarrow> 's \<times> 'n \<Rightarrow> (string, 's, 'n) read_result" where
  "get_versioned_data env cat lid request sn =
     (if dr_data_handle request \<noteq> None \<and> dr_partition_id request \<noteq> None then Some (Inl both_given, sn)
      else if dr_data_handle request \<noteq> None then get_blob_data env cat lid ''blob'' request sn
      else do {
        (versioned, sn) \<leftarrow> with_latest_version env cat request sn;
        (case versioned of
           Inl e \<Rightarrow> Some (Inl e, sn)
         | Inr request \<Rightarrow> do {
             (ps, sn) \<leftarrow> get_partition_by_id env cat lid request sn;
             (case with_handle_of request ps of
                Inl e \<Rightarrow> Some (Inl e, sn)
              | Inr request \<Rightarrow> get_blob_data env cat lid ''blob'' request sn) }) })"

definition get_volatile_data ::
  "('s, 'n) read_env \<Rightarrow> hrn \<Rightarrow> string \<Rightarrow> data_request \<Rightarrow> 's \<times> 'n \<Rightarrow> (string, 's, 'n) read_result" where
  "get_volatile_data env cat lid request sn =
     (if dr_data_handle request \<noteq> None \<and> dr_partition_id request \<noteq> None then Some (Inl both_given, sn)
      else if dr_data_handle request \<noteq> None then get_blob_data env cat lid ''volatile-blob'' request sn
      else do {
        (ps, sn) \<leftarrow> get_partition_by_id env cat lid request sn;
        (case with_handle_of request ps of
           Inl e \<Rightarrow> Some (Inl e, sn)
         | Inr request \<Rightarrow> get_blob_data env cat lid ''volatile-blob'' request sn) })"

section \<open>What every fetch keeps\<close>

text \<open>The ways through \<open>fetch\<close>: from the cache, not found, no service, and the answer of the service.\<close>

lemma fetch_cases:
  assumes "fetch option what cached lookup ask put clear (s, n) = Some (r, s', n')"
  obtains
    (Hit) x where "option \<noteq> OnlineOnly" "cached s = Some (Some x, s')" "r = Inr x" "n' = n"
  | (Miss) "option = CacheOnly" "cached s = Some (None, s')" "r = Inl (cache_miss what)" "n' = n"
  | (NoService) e s1 where "option \<noteq> CacheOnly" "if option = OnlineOnly then s1 = s else cached s = Some (None, s1)"
      "lookup (s1, n) = Some (Inl e, s', n')" "r = Inl e"
  | (Asked) s1 client s2 n2 where "option \<noteq> CacheOnly" "if option = OnlineOnly then s1 = s else cached s = Some (None, s1)"
      "lookup (s1, n) = Some (Inr client, s2, n2)" "ask client n2 = Some (r, n')"
      "case r of Inr x \<Rightarrow> put x s2 = Some s' | Inl e \<Rightarrow> if forbidden e then clear s2 = Some s' else s' = s2"
proof -
  obtain found s1 where c: "(if option \<noteq> OnlineOnly then cached s else Some (None, s)) = Some (found, s1)"
    using assms by (auto simp: fetch_def bind_eq_Some_conv)
  show thesis
  proof (cases found)
    case (Some x)
    then show thesis using assms c Hit [of x] by (auto simp: fetch_def split: if_splits)
  next
    case None
    then have c': "if option = OnlineOnly then s1 = s else cached s = Some (None, s1)" using c by (simp split: if_splits)
    show thesis
    proof (cases "option = CacheOnly")
      case True
      then show thesis using assms c None Miss by (auto simp: fetch_def)
    next
      case False
      obtain api s2 n2 where l: "lookup (s1, n) = Some (api, s2, n2)"
        using assms c None False by (auto simp: fetch_def bind_eq_Some_conv)
      show thesis
      proof (cases api)
        case (Inl e)
        then show thesis using assms c None False l NoService [OF False c', of e] by (simp add: fetch_def)
      next
        case (Inr client)
        obtain response n3 s3 where a: "ask client n2 = Some (response, n3)"
          and p: "(case response of Inr x \<Rightarrow> put x s2 | Inl e \<Rightarrow> if forbidden e then clear s2 else Some s2) = Some s3"
          and res: "(r, s', n') = (response, s3, n3)"
          using assms c None False l Inr by (simp add: fetch_def bind_eq_Some_conv) blast
        show thesis
          using Asked [OF False c' l [unfolded Inr], of] a p res by (auto split: sum.splits if_splits)
      qed
    qed
  qed
qed

text \<open>An invariant of the state of the cache and a predicate of the answers.\<close>

lemma fetch_rule:
  assumes run: "fetch option what cached lookup ask put clear (s, n) = Some (r, s', n')" and I: "I s"
    and cached: "\<And>s x s'. I s \<Longrightarrow> cached s = Some (x, s') \<Longrightarrow> I s' \<and> pred_option P x"
    and lookup: "\<And>s n r s' n'. I s \<Longrightarrow> lookup (s, n) = Some (r, s', n') \<Longrightarrow> I s'"
    and ask: "\<And>c n x n'. ask c n = Some (Inr x, n') \<Longrightarrow> P x"
    and put: "\<And>x s s'. I s \<Longrightarrow> P x \<Longrightarrow> put x s = Some s' \<Longrightarrow> I s'"
    and clear: "\<And>s s'. I s \<Longrightarrow> clear s = Some s' \<Longrightarrow> I s'"
  shows "I s' \<and> (\<forall>x. r = Inr x \<longrightarrow> P x)"
  using run
proof (cases rule: fetch_cases)
  case (Hit x)
  then show ?thesis using cached [OF I Hit(2)] by simp
next
  case Miss
  then show ?thesis using cached [OF I Miss(2)] by simp
next
  case (NoService e s1)
  then have "I s1" using I cached [of s None s1] by (auto split: if_splits)
  then show ?thesis using lookup NoService by blast
next
  case (Asked s1 client s2 n2)
  then have "I s1" using I cached [of s None s1] by (auto split: if_splits)
  then have s2: "I s2" using lookup Asked(3) by blast
  show ?thesis
  proof (cases r)
    case (Inl e)
    then show ?thesis using Asked(5) s2 clear by (auto split: if_splits)
  next
    case (Inr x)
    then have "P x" using ask Asked(4) by blast
    then show ?thesis using Asked(5) s2 put Inr by auto
  qed
qed

section \<open>Offline and online\<close>

text \<open>A result that leaves the network as it was.\<close>

definition offline :: "'n \<Rightarrow> ('a, 's, 'n) read_result \<Rightarrow> bool" where
  "offline n result \<longleftrightarrow> (case result of None \<Rightarrow> True | Some (r, s, n') \<Rightarrow> n' = n)"

lemma offline_Some [simp]: "offline n (Some (r, s, n')) \<longleftrightarrow> n' = n"
  by (simp add: offline_def)

lemma offline_bind:
  assumes "offline n x" "\<And>r s. x = Some (r, s, n) \<Longrightarrow> offline n (f (r, s, n))" shows "offline n (Option.bind x f)"
  using assms by (cases x) (auto simp: offline_def)

lemma offline_fetch [simp]: "offline n (fetch CacheOnly what cached lookup ask put clear (s, n))"
proof (cases "fetch CacheOnly what cached lookup ask put clear (s, n)")
  case (Some x)
  obtain r s' n' where "x = (r, s', n')" by (cases x)
  with Some show ?thesis by (auto elim: fetch_cases)
qed (simp add: offline_def)

lemma offline_get_catalog [simp]: "cr_fetch_option q = CacheOnly \<Longrightarrow> offline n (get_catalog env cat q (s, n))"
  by (simp add: get_catalog_def Let_def)

lemma offline_get_latest_version [simp]: "cvr_fetch_option q = CacheOnly \<Longrightarrow> offline n (get_latest_version env cat q (s, n))"
  by (simp add: get_latest_version_def Let_def)

lemma offline_get_partitions [simp]: "pr_fetch_option q = CacheOnly \<Longrightarrow> offline n (get_partitions env cat lid q e (s, n))"
  by (simp add: get_partitions_def Let_def)

lemma offline_get_partition_by_id [simp]:
  "dr_fetch_option q = CacheOnly \<Longrightarrow> offline n (get_partition_by_id env cat lid q (s, n))"
  by (cases "dr_partition_id q") (simp_all add: get_partition_by_id_def Let_def)

lemma offline_get_blob_data [simp]:
  "dr_fetch_option q = CacheOnly \<Longrightarrow> offline n (get_blob_data env cat lid serv q (s, n))"
  by (cases "dr_data_handle q") (simp_all add: get_blob_data_def Let_def)

lemma with_handle_fetch_option: "with_handle_of q ps = Inr q' \<Longrightarrow> dr_fetch_option q' = dr_fetch_option q"
  by (auto simp: with_handle_of_def split: sum.splits list.splits)

lemma offline_with_latest_version [simp]:
  "dr_fetch_option q = CacheOnly \<Longrightarrow> offline n (with_latest_version env cat q (s, n))"
  by (auto simp: with_latest_version_def intro!: offline_bind)

lemma map_sum_Inr: "map_sum f g x = Inr y \<longleftrightarrow> (\<exists>z. x = Inr z \<and> y = g z)"
  by (cases x) auto

lemma with_latest_version_fetch_option:
  "with_latest_version env cat q sn = Some (Inr q', sn') \<Longrightarrow>
     dr_fetch_option q' = dr_fetch_option q"
  by (auto simp: with_latest_version_def bind_eq_Some_conv map_sum_Inr split: if_splits)

lemma offline_data:
  "dr_fetch_option q = CacheOnly \<Longrightarrow> offline n (do { (ps, sn) \<leftarrow> get_partition_by_id env cat lid q (s, n);
      (case with_handle_of q ps of Inl e \<Rightarrow> Some (Inl e, sn) | Inr q \<Rightarrow> get_blob_data env cat lid serv q sn) })"
  by (rule offline_bind) (auto split: sum.split dest: with_handle_fetch_option)

text \<open>
  C17: an operation with \<open>CacheOnly\<close> never uses the network, whatever the cache holds: catalogs, versions,
  partitions and data of versioned and of volatile layers, with all the steps that they are made of.
\<close>

theorem cache_only_stays_offline:
  "offline n (get_catalog env cat (cq\<lparr>cr_fetch_option := CacheOnly\<rparr>) (s, n)) \<and>
   offline n (get_latest_version env cat (vq\<lparr>cvr_fetch_option := CacheOnly\<rparr>) (s, n)) \<and>
   offline n (get_versioned_partitions env cat lid (pq\<lparr>pr_fetch_option := CacheOnly\<rparr>) (s, n)) \<and>
   offline n (get_volatile_partitions env cat lid (pq\<lparr>pr_fetch_option := CacheOnly\<rparr>) (s, n)) \<and>
   offline n (get_versioned_data env cat lid (dq\<lparr>dr_fetch_option := CacheOnly\<rparr>) (s, n)) \<and>
   offline n (get_volatile_data env cat lid (dq\<lparr>dr_fetch_option := CacheOnly\<rparr>) (s, n))"
proof (intro conjI)
  show "offline n (get_catalog env cat (cq\<lparr>cr_fetch_option := CacheOnly\<rparr>) (s, n))"
    "offline n (get_latest_version env cat (vq\<lparr>cvr_fetch_option := CacheOnly\<rparr>) (s, n))" by simp_all
  show "offline n (get_versioned_partitions env cat lid (pq\<lparr>pr_fetch_option := CacheOnly\<rparr>) (s, n))"
    unfolding get_versioned_partitions_def by (auto split: option.split sum.split intro!: offline_bind)
  show "offline n (get_volatile_partitions env cat lid (pq\<lparr>pr_fetch_option := CacheOnly\<rparr>) (s, n))"
    unfolding get_volatile_partitions_def Let_def by (auto split: sum.split intro!: offline_bind)
  show "offline n (get_volatile_data env cat lid (dq\<lparr>dr_fetch_option := CacheOnly\<rparr>) (s, n))"
    unfolding get_volatile_data_def by (auto intro: offline_data)
  show "offline n (get_versioned_data env cat lid (dq\<lparr>dr_fetch_option := CacheOnly\<rparr>) (s, n))"
    unfolding get_versioned_data_def
    by (auto split: sum.split intro!: offline_bind [of _ "with_latest_version env cat q sn" for q sn] offline_data
        simp: with_latest_version_fetch_option)
qed

text \<open>Two results with the same response and the same network, unless one of them throws.\<close>

definition agree :: "('a, 's, 'n) read_result \<Rightarrow> ('a, 's, 'n) read_result \<Rightarrow> bool" where
  "agree x y \<longleftrightarrow> (case (x, y) of (Some (r, _, n), Some (r', _, n')) \<Rightarrow> r = r' \<and> n = n' | _ \<Rightarrow> True)"

lemma agree_simps [simp]:
  "agree None y" "agree x None" "agree (Some (r, s, n)) (Some (r', s', n')) \<longleftrightarrow> r = r' \<and> n = n'"
  by (simp_all add: agree_def split: option.split)

lemma agree_bind:
  assumes "agree x y" "\<And>r s s' n. x = Some (r, s, n) \<Longrightarrow> agree (f (r, s, n)) (f (r, s', n))"
  shows "agree (Option.bind x f) (Option.bind y f)"
  using assms by (cases x; cases y) auto

lemma agree_cache: "(\<And>t t'. agree (f t) (g t')) \<Longrightarrow> agree (Option.bind a f) (Option.bind b g)"
  by (cases a; cases b) auto

lemma agree_lookup [simp]: "agree (lookup_api env cat serv ver OnlineOnly (s, n)) (lookup_api env cat serv ver OnlineOnly (s', n))"
proof -
  let ?client = "client_of (get_datastore_server_url (partition_of cat)) (env_settings env)"
  let ?ask = "if serv = ''config'' then platform_get_apis (env_json env) (env_call env) ?client serv ver n
    else resources_get_apis (env_json env) (env_call env) ?client (to_catalog_hrn_string cat) serv ver n"
  show ?thesis
  proof (cases ?ask)
    case (Some x)
    then show ?thesis
      by (cases x) (auto simp: lookup_api_def Let_def intro!: agree_cache split: sum.split list.split)
  qed (simp add: lookup_api_def Let_def)
qed

lemma agree_fetch:
  assumes "agree (lookup (s, n)) (lookup (s', n))"
  shows "agree (fetch OnlineOnly what cached lookup ask put clear (s, n)) (fetch OnlineOnly what cached' lookup ask put clear (s', n))"
proof -
  have "agree (Option.bind (lookup (s, n)) f) (Option.bind (lookup (s', n)) f)"
    if "f = (\<lambda>(api, s, n). case api of Inl e \<Rightarrow> Some (Inl e, s, n)
      | Inr client \<Rightarrow> Option.bind (ask client n) (\<lambda>(response, n).
          Option.bind (case response of Inr x \<Rightarrow> put x s | Inl e \<Rightarrow> if forbidden e then clear s else Some s)
            (\<lambda>s. Some (response, s, n))))" for f
  proof (rule agree_bind [OF assms])
    fix r s s' n
    show "agree (f (r, s, n)) (f (r, s', n))"
    proof (cases r)
      case (Inr client)
      then show ?thesis by (cases "ask client n") (auto simp: that intro!: agree_cache)
    qed (simp add: that)
  qed
  then show ?thesis by (simp add: fetch_def)
qed

lemma agree_get_catalog [simp]:
  "cr_fetch_option q = OnlineOnly \<Longrightarrow> agree (get_catalog env cat q (s, n)) (get_catalog env cat q (s', n))"
  by (simp add: get_catalog_def Let_def agree_fetch)

lemma agree_get_latest_version [simp]:
  "cvr_fetch_option q = OnlineOnly \<Longrightarrow> agree (get_latest_version env cat q (s, n)) (get_latest_version env cat q (s', n))"
  by (simp add: get_latest_version_def Let_def agree_fetch)

lemma agree_get_partitions [simp]:
  "pr_fetch_option q = OnlineOnly \<Longrightarrow> agree (get_partitions env cat lid q e (s, n)) (get_partitions env cat lid q e (s', n))"
  by (simp add: get_partitions_def Let_def agree_fetch)

lemma agree_get_partition_by_id [simp]:
  "dr_fetch_option q = OnlineOnly \<Longrightarrow> agree (get_partition_by_id env cat lid q (s, n)) (get_partition_by_id env cat lid q (s', n))"
  by (cases "dr_partition_id q") (simp_all add: get_partition_by_id_def Let_def agree_fetch)

lemma agree_get_blob_data [simp]:
  "dr_fetch_option q = OnlineOnly \<Longrightarrow> agree (get_blob_data env cat lid serv q (s, n)) (get_blob_data env cat lid serv q (s', n))"
  by (cases "dr_data_handle q") (simp_all add: get_blob_data_def Let_def agree_fetch)

lemma agree_with_latest_version [simp]:
  "dr_fetch_option q = OnlineOnly \<Longrightarrow> agree (with_latest_version env cat q (s, n)) (with_latest_version env cat q (s', n))"
  by (auto simp: with_latest_version_def intro!: agree_bind)

lemma agree_data:
  "dr_fetch_option q = OnlineOnly \<Longrightarrow>
   agree (do { (ps, sn) \<leftarrow> get_partition_by_id env cat lid q (s, n);
      (case with_handle_of q ps of Inl e \<Rightarrow> Some (Inl e, sn) | Inr q \<Rightarrow> get_blob_data env cat lid serv q sn) })
    (do { (ps, sn) \<leftarrow> get_partition_by_id env cat lid q (s', n);
      (case with_handle_of q ps of Inl e \<Rightarrow> Some (Inl e, sn) | Inr q \<Rightarrow> get_blob_data env cat lid serv q sn) })"
  by (rule agree_bind) (auto split: sum.split dest: with_handle_fetch_option)

text \<open>
  C18: an operation with \<open>OnlineOnly\<close> does not depend on the cache: from any two states of the cache it makes
  the same requests and gives the same response, unless an exception of the cache ends one of them.
\<close>

theorem online_only_ignores_cache:
  "agree (get_catalog env cat (cq\<lparr>cr_fetch_option := OnlineOnly\<rparr>) (s, n)) (get_catalog env cat (cq\<lparr>cr_fetch_option := OnlineOnly\<rparr>) (s', n)) \<and>
   agree (get_latest_version env cat (vq\<lparr>cvr_fetch_option := OnlineOnly\<rparr>) (s, n))
     (get_latest_version env cat (vq\<lparr>cvr_fetch_option := OnlineOnly\<rparr>) (s', n)) \<and>
   agree (get_versioned_partitions env cat lid (pq\<lparr>pr_fetch_option := OnlineOnly\<rparr>) (s, n))
     (get_versioned_partitions env cat lid (pq\<lparr>pr_fetch_option := OnlineOnly\<rparr>) (s', n)) \<and>
   agree (get_volatile_partitions env cat lid (pq\<lparr>pr_fetch_option := OnlineOnly\<rparr>) (s, n))
     (get_volatile_partitions env cat lid (pq\<lparr>pr_fetch_option := OnlineOnly\<rparr>) (s', n)) \<and>
   agree (get_versioned_data env cat lid (dq\<lparr>dr_fetch_option := OnlineOnly\<rparr>) (s, n))
     (get_versioned_data env cat lid (dq\<lparr>dr_fetch_option := OnlineOnly\<rparr>) (s', n)) \<and>
   agree (get_volatile_data env cat lid (dq\<lparr>dr_fetch_option := OnlineOnly\<rparr>) (s, n))
     (get_volatile_data env cat lid (dq\<lparr>dr_fetch_option := OnlineOnly\<rparr>) (s', n))"
proof (intro conjI)
  show "agree (get_catalog env cat (cq\<lparr>cr_fetch_option := OnlineOnly\<rparr>) (s, n)) (get_catalog env cat (cq\<lparr>cr_fetch_option := OnlineOnly\<rparr>) (s', n))"
    "agree (get_latest_version env cat (vq\<lparr>cvr_fetch_option := OnlineOnly\<rparr>) (s, n))
      (get_latest_version env cat (vq\<lparr>cvr_fetch_option := OnlineOnly\<rparr>) (s', n))" by simp_all
  show "agree (get_versioned_partitions env cat lid (pq\<lparr>pr_fetch_option := OnlineOnly\<rparr>) (s, n))
      (get_versioned_partitions env cat lid (pq\<lparr>pr_fetch_option := OnlineOnly\<rparr>) (s', n))"
    unfolding get_versioned_partitions_def by (auto split: option.split sum.split intro!: agree_bind)
  show "agree (get_volatile_partitions env cat lid (pq\<lparr>pr_fetch_option := OnlineOnly\<rparr>) (s, n))
      (get_volatile_partitions env cat lid (pq\<lparr>pr_fetch_option := OnlineOnly\<rparr>) (s', n))"
    unfolding get_volatile_partitions_def Let_def by (auto split: sum.split intro!: agree_bind)
  show "agree (get_volatile_data env cat lid (dq\<lparr>dr_fetch_option := OnlineOnly\<rparr>) (s, n))
      (get_volatile_data env cat lid (dq\<lparr>dr_fetch_option := OnlineOnly\<rparr>) (s', n))"
    unfolding get_volatile_data_def by (auto intro: agree_data)
  show "agree (get_versioned_data env cat lid (dq\<lparr>dr_fetch_option := OnlineOnly\<rparr>) (s, n))
      (get_versioned_data env cat lid (dq\<lparr>dr_fetch_option := OnlineOnly\<rparr>) (s', n))"
    unfolding get_versioned_data_def
    by (auto split: sum.split intro!: agree_bind [where x = "with_latest_version env cat q sn" for q sn] agree_data
        simp: with_latest_version_fetch_option)
qed

end
