(* ===== verification/ReadOrigin.thy ===== *)
theory ReadOrigin
  imports ReadRepositories
begin

text \<open>
  The cache is transparent for versioned layers: whatever the fetch options, the requests that were made
  before, what the cache has evicted, expired or lost, and which writes have failed, a successful answer is
  the one of the service. The contract of the cache, \<open>kv_cache\<close>, is all that is used of it.
\<close>

section \<open>Kinds of keys\<close>

definition ends_with :: "string \<Rightarrow> string \<Rightarrow> bool" where
  "ends_with suf k \<longleftrightarrow> take (length suf) (rev k) = rev suf"

text \<open>The decoder that the repositories use for a key, which its ending tells.\<close>

definition read_dec :: "json_lib \<Rightarrow> string \<Rightarrow> string \<Rightarrow> read_value cached_value option" where
  "read_dec j k =
     (if ends_with ''::Data'' k then (\<lambda>b. Some (Bytes b))
      else if ends_with ''::partition'' k then decode_partition j
      else if ends_with ''::partitions'' k then decode_ids j
      else if ends_with ''::layerVersions'' k then decode_layer_versions j
      else if ends_with ''::api'' k then decode_url
      else if ends_with ''::catalog'' k then decode_catalog j
      else if ends_with ''::latestVersion'' k then decode_version j
      else (\<lambda>_. None))"

lemma is_expiry_key_ends: "is_expiry_key k \<Longrightarrow> ends_with ''::expiry'' k"
proof -
  assume "is_expiry_key k"
  then have "drop (length k - 8) k = ''::expiry''" by (simp add: is_expiry_key_def)
  then have "rev (drop (length k - 8) k) = rev ''::expiry''" by simp
  then show ?thesis by (simp add: rev_drop ends_with_def split: if_splits) (cases "8 \<le> length k"; simp add: eval_nat_numeral)
qed

lemma key_kinds [simp]:
  "read_dec j (data_key hrn lid h) = (\<lambda>b. Some (Bytes b))"
  "read_dec j (partition_key hrn lid pid (Some v)) = decode_partition j"
  "read_dec j (partitions_key hrn lid (Some v)) = decode_ids j"
  "read_dec j (api_key hrn serv ver) = decode_url"
  "read_dec j (catalog_key hrn) = decode_catalog j"
  "read_dec j (version_key hrn) = decode_version j"
  by (simp_all add: read_dec_def ends_with_def data_key_def partition_key_def partitions_key_def api_key_def
      catalog_key_def version_key_def)

lemma not_expiry [simp]:
  "\<not> is_expiry_key (data_key hrn lid h)" "\<not> is_expiry_key (partition_key hrn lid pid (Some v))"
  "\<not> is_expiry_key (partitions_key hrn lid (Some v))" "\<not> is_expiry_key (api_key hrn serv ver)"
  "\<not> is_expiry_key (catalog_key hrn)" "\<not> is_expiry_key (version_key hrn)"
  by (auto dest!: is_expiry_key_ends simp: ends_with_def data_key_def partition_key_def partitions_key_def api_key_def
      catalog_key_def version_key_def)

lemma decimal_inj [simp]: "decimal m = decimal n \<longleftrightarrow> m = n"
  by (metis digits_value_decimal)

lemma no_colon_decimal: "CHR '':'' \<notin> set (decimal n)"
  using decimal_digits [of n] by (auto simp: list_all_iff is_digit_def)

lemma no_minus_decimal: "decimal n \<noteq> CHR ''-'' # s"
  using decimal_digits [of n] by (auto simp: is_digit_def)

lemma int_to_string_inj [simp]: "int_to_string a = int_to_string b \<longleftrightarrow> a = b"
  using no_minus_decimal [of "nat a" "decimal (nat (- b))"] no_minus_decimal [of "nat b" "decimal (nat (- a))"]
  by (auto simp: int_to_string_def)

lemma no_colon_int: "CHR '':'' \<notin> set (int_to_string i)"
  using no_colon_decimal by (simp add: int_to_string_def)

lemma last_colon_unique:
  "a @ CHR '':'' # v = b @ CHR '':'' # w \<Longrightarrow> CHR '':'' \<notin> set v \<Longrightarrow> CHR '':'' \<notin> set w \<Longrightarrow> a = b \<and> v = w"
  by (auto simp: append_eq_append_conv2 Cons_eq_append_conv append_eq_Cons_conv)

lemma partition_key_inj [simp]:
  "partition_key hrn lid p (Some v) = partition_key hrn lid q (Some w) \<longleftrightarrow> p = q \<and> v = w"
  using last_colon_unique [of "hrn @ ''::'' @ lid @ ''::'' @ p @ '':''" "int_to_string v"
      "hrn @ ''::'' @ lid @ ''::'' @ q @ '':''" "int_to_string w"] no_colon_int
  by (auto simp: partition_key_def)

lemma data_key_inj [simp]: "data_key hrn lid h = data_key hrn lid g \<longleftrightarrow> h = g"
  by (simp add: data_key_def)

section \<open>The service and the cache\<close>

text \<open>
  What the service has: the partitions of a layer in every version of the catalog, and the data under a
  handle. A version of a versioned layer never changes.
\<close>

record origin =
  origin_partition :: "string \<Rightarrow> int \<Rightarrow> partition option"
  origin_blob :: "string \<Rightarrow> string"

text \<open>
  The service answers what it has, and RapidJSON reads the partitions back that it has written. What fails,
  and how, is open.
\<close>

definition serves :: "origin \<Rightarrow> string \<Rightarrow> ('s, 'n) read_env \<Rightarrow> bool" where
  "serves org lid env \<longleftrightarrow>
     (\<forall>client ids v tag n ps n'.
        query_get_partitions_by_id (env_json env) (env_call env) client lid ids (Some v) None tag n = Some (Inr ps, n') \<longrightarrow>
        (\<forall>p \<in> set (partitions_list ps). \<exists>pid \<in> set ids. origin_partition org pid v = Some p)) \<and>
     (\<forall>client v tag n ps n'.
        metadata_get_partitions (env_json env) (env_call env) client lid (Some v) None None tag n = Some (Inr ps, n') \<longrightarrow>
        (\<forall>p \<in> set (partitions_list ps). \<exists>pid. origin_partition org pid v = Some p)) \<and>
     (\<forall>client h tag n d n'. get_blob (env_call env) client lid h tag None n = Some (Inr d, n') \<longrightarrow> d = origin_blob org h) \<and>
     (\<forall>pid v p. origin_partition org pid v = Some p \<longrightarrow>
        partition_partition p = pid \<and> partition_ok p \<and>
        json_parse (env_json env) (json_text (env_json env) (partition_to_json p)) = Some (partition_to_json p))"

text \<open>What the cache may hold of the layer.\<close>

definition genuine :: "origin \<Rightarrow> string \<Rightarrow> string \<Rightarrow> string \<Rightarrow> read_value cached_value \<Rightarrow> bool" where
  "genuine org hrn lid k u \<longleftrightarrow>
     (\<forall>pid v. k = partition_key hrn lid pid (Some v) \<longrightarrow> (\<exists>p. origin_partition org pid v = Some p \<and> u = Typed (VPartition p))) \<and>
     (\<forall>h. k = data_key hrn lid h \<longrightarrow> u = Bytes (origin_blob org h))"

lemma partition_data_key_neq [simp]:
  "partition_key hrn lid pid (Some v) \<noteq> data_key hrn' lid' h" "data_key hrn' lid' h \<noteq> partition_key hrn lid pid (Some v)"
  by (auto simp: partition_key_def data_key_def dest!: arg_cong [of _ _ rev])

lemma genuine_other [simp]:
  "genuine org hrn lid (partitions_key hrn' lid' (Some v)) u" "genuine org hrn lid (api_key hrn' serv ver) u"
  "genuine org hrn lid (version_key hrn') u" "genuine org hrn lid (catalog_key hrn') u"
  by (auto simp: genuine_def partition_key_def data_key_def partitions_key_def api_key_def version_key_def catalog_key_def
      dest!: arg_cong [of _ _ rev])

lemma genuine_partition [simp]:
  "genuine org hrn lid (partition_key hrn lid pid (Some v)) u \<longleftrightarrow>
     (\<exists>p. origin_partition org pid v = Some p \<and> u = Typed (VPartition p))"
  by (auto simp: genuine_def)

lemma genuine_data [simp]: "genuine org hrn lid (data_key hrn lid h) u \<longleftrightarrow> u = Bytes (origin_blob org h)"
  by (auto simp: genuine_def)

lemma servesD:
  assumes "serves org lid env"
  shows "query_get_partitions_by_id (env_json env) (env_call env) client lid ids (Some v) None tag n = Some (Inr ps, n') \<Longrightarrow>
      p \<in> set (partitions_list ps) \<Longrightarrow> \<exists>pid \<in> set ids. origin_partition org pid v = Some p"
    and "metadata_get_partitions (env_json env) (env_call env) client lid (Some v) None None tag n = Some (Inr ps, n') \<Longrightarrow>
      p \<in> set (partitions_list ps) \<Longrightarrow> \<exists>pid. origin_partition org pid v = Some p"
    and "get_blob (env_call env) client lid h tag None n = Some (Inr d, n') \<Longrightarrow> d = origin_blob org h"
    and "origin_partition org pid v = Some p \<Longrightarrow> partition_partition p = pid"
    and "origin_partition org pid v = Some p \<Longrightarrow> partition_ok p"
    and "origin_partition org pid v = Some p \<Longrightarrow>
      json_parse (env_json env) (json_text (env_json env) (partition_to_json p)) = Some (partition_to_json p)"
  using assms unfolding serves_def Let_def by - (elim conjE; metis)+

lemma decode_origin:
  assumes "serves org lid env" "origin_partition org pid v = Some p"
  shows "decode_partition (env_json env) (json_text (env_json env) (partition_to_json p)) = Some (Typed (VPartition p))"
proof -
  obtain ms where ms: "partition_to_json p = JObject ms" by (simp add: partition_to_json_def Let_def)
  have "partition_from_json (JObject ms) = Some p"
    using partition_codec.round_trip [OF servesD(5) [OF assms]] ms by metis
  then show ?thesis using servesD(6) [OF assms] unfolding ms
    by (simp add: decode_partition_def parse_document_def)
qed

section \<open>The repositories over a cache with the contract\<close>

abbreviation (input) catalog_text :: "hrn \<Rightarrow> string" where
  "catalog_text \<equiv> to_catalog_hrn_string"

text \<open>Partitions that the service has in a version.\<close>

abbreviation (input) all_of :: "origin \<Rightarrow> int \<Rightarrow> partition list \<Rightarrow> bool" where
  "all_of org v ps \<equiv> \<forall>p \<in> set ps. \<exists>pid. origin_partition org pid v = Some p"

locale read_cache_laws = kv_cache kv "read_dec j" may inv proper
  for kv :: "'s read_cache" and j may inv proper +
  fixes env :: "('s, 'n) read_env" and org :: origin and cat :: hrn and lid :: string
  assumes proper_key: "\<not> is_expiry_key k \<Longrightarrow> proper k"
    and env_cache: "env_cache env = kv" and env_json: "env_json env = j"
begin

text \<open>The service keeps its promises, and everything that the cache may answer for the layer is genuine.\<close>

definition good :: "'s \<Rightarrow> bool" where
  "good s \<longleftrightarrow> serves org lid env \<and> all_good (genuine org (catalog_text cat) lid) s"

lemma good_serves: "good s \<Longrightarrow> serves org lid env" and good_all: "good s \<Longrightarrow> all_good (genuine org (catalog_text cat) lid) s"
  by (simp_all add: good_def)

lemma good_get_as:
  assumes "good s" "\<not> is_expiry_key k" "get_as kv (read_dec j k) cast k s = Some (x, s')"
  shows "good s' \<and> (\<forall>y. x = Some y \<longrightarrow> (\<exists>u. genuine org (catalog_text cat) lid k u \<and> cast u = Some y))"
proof -
  obtain r where r: "kv_get kv k (read_dec j k) s = Some (r, s')"
      "case r of None \<Rightarrow> x = None | Some u \<Rightarrow> \<exists>y. cast u = Some y \<and> x = Some y"
    using assms(3) by (auto simp: get_as_def bind_eq_Some_conv split: option.splits)
  from good_get [of "genuine org (catalog_text cat) lid", OF _ proper_key [OF assms(2)] r(1)] assms(1)
  have "good s' \<and> (\<forall>u. r = Some u \<longrightarrow> genuine org (catalog_text cat) lid k u)" by (simp add: good_def)
  with r(2) show ?thesis by (auto split: option.splits)
qed

lemma good_typed_put:
  assumes "good s" "\<not> is_expiry_key k" "genuine org (catalog_text cat) lid k v"
    "\<And>u. read_dec j k enc = Some u \<Longrightarrow> genuine org (catalog_text cat) lid k u" "kv_put kv k (Some v) enc e s = Some (ok, s')"
  shows "good s'"
  using good_put [OF good_all [OF assms(1)] proper_key [OF assms(2)] assms(3,4,5)] assms(1) by (simp add: good_def)

lemma good_remove_keys: "good s \<Longrightarrow> kv_remove_keys_with_prefix kv p s = Some (ok, s') \<Longrightarrow> good s'"
  using good_remove_prefix unfolding good_def by blast

lemma good_put_partitions:
  "good s \<Longrightarrow> all_of org v ps \<Longrightarrow> put_partitions j kv (catalog_text cat) (Some v) lid e ps s = Some s' \<Longrightarrow> good s'"
proof (induction ps arbitrary: s)
  case (Cons p ps)
  obtain pid where p: "origin_partition org pid v = Some p" using Cons.prems(2) by auto
  have pp: "partition_partition p = pid" using servesD(4) [OF good_serves [OF Cons.prems(1)] p] .
  obtain ok s1 where s1: "kv_put kv (partition_key (catalog_text cat) lid pid (Some v)) (Some (Typed (VPartition p)))
      (json_text j (partition_to_json p)) e s = Some (ok, s1)" "put_partitions j kv (catalog_text cat) (Some v) lid e ps s1 = Some s'"
    using Cons.prems(3) pp by (auto simp: bind_eq_Some_conv)
  have "good s1"
    using decode_origin [OF good_serves [OF Cons.prems(1)] p] p env_json
    by (intro good_typed_put [OF Cons.prems(1) _ _ _ s1(1)]) auto
  then show ?case using Cons.IH [OF _ _ s1(2)] Cons.prems(2) by simp
qed simp

lemma good_pc_put:
  assumes "good s" "all_of org v (partitions_list ps)" "pc_put j kv (catalog_text cat) (Some v) ps lid e al s = Some s'"
  shows "good s'"
proof -
  obtain s1 where s1: "put_partitions j kv (catalog_text cat) (Some v) lid (case e of Some e \<Rightarrow> e | None \<Rightarrow> kDefaultExpiry)
      (partitions_list ps) s = Some s1"
    using assms(3) by (auto simp: pc_put_def Let_def bind_eq_Some_conv)
  have "good s1" using good_put_partitions [OF assms(1,2) s1] .
  show ?thesis
  proof (cases al)
    case True
    then obtain ok where "kv_put kv (partitions_key (catalog_text cat) lid (Some v)) (Some (Typed (VIds (map partition_partition (partitions_list ps)))))
        (json_text j (vector_to_json JString (map partition_partition (partitions_list ps))))
        (case e of Some e \<Rightarrow> e | None \<Rightarrow> kDefaultExpiry) s1 = Some (ok, s')"
      using assms(3) s1 by (auto simp: pc_put_def Let_def bind_eq_Some_conv)
    then show ?thesis by (rule good_typed_put [OF \<open>good s1\<close>, rotated 3]) simp_all
  qed (use assms(3) s1 \<open>good s1\<close> in \<open>simp add: pc_put_def\<close>)
qed

lemma good_get_loop:
  "good s \<Longrightarrow> get_partitions_loop j kv (catalog_text cat) (Some v) lid ids s = Some (ps, s') \<Longrightarrow>
   good s' \<and> (\<forall>p \<in> set ps. \<exists>pid \<in> set ids. origin_partition org pid v = Some p)"
proof (induction ids arbitrary: s ps)
  case (Cons i ids)
  obtain f s1 qs where f: "get_as kv (decode_partition j) cast_partition (partition_key (catalog_text cat) lid i (Some v)) s = Some (f, s1)"
      "get_partitions_loop j kv (catalog_text cat) (Some v) lid ids s1 = Some (qs, s')"
      "ps = (case f of Some p \<Rightarrow> p # qs | None \<Rightarrow> qs)"
    using Cons.prems(2) by (auto simp: bind_eq_Some_conv)
  from good_get_as [of s "partition_key (catalog_text cat) lid i (Some v)" cast_partition f s1] Cons.prems(1) f(1)
  have "good s1 \<and> (\<forall>p. f = Some p \<longrightarrow> origin_partition org i v = Some p)" by auto
  with Cons.IH [of s1 qs] f(2,3) show ?case by (auto split: option.splits)
qed simp

lemma good_pc_get:
  "good s \<Longrightarrow> pc_get j kv (catalog_text cat) (Some v) ids lid s = Some (ps, s') \<Longrightarrow>
   good s' \<and> (\<forall>p \<in> set (partitions_list ps). \<exists>pid \<in> set ids. origin_partition org pid v = Some p)"
  using good_get_loop [of s v ids _ s'] by (auto simp: pc_get_def bind_eq_Some_conv)

lemma good_pc_get_all:
  assumes "good s" "pc_get_all j kv (catalog_text cat) (Some v) lid s = Some (x, s')"
  shows "good s' \<and> pred_option (\<lambda>ps. all_of org v (partitions_list ps)) x"
proof -
  obtain ids s1 where i: "get_as kv (decode_ids j) cast_ids (partitions_key (catalog_text cat) lid (Some v)) s = Some (ids, s1)"
      "case ids of None \<Rightarrow> x = None \<and> s' = s1 | Some xs \<Rightarrow> \<exists>ps. pc_get j kv (catalog_text cat) (Some v) xs lid s1 = Some (ps, s') \<and> x = Some ps"
    using assms(2) by (auto simp: pc_get_all_def bind_eq_Some_conv split: option.splits)
  have s1: "good s1" using good_get_as [of s "partitions_key (catalog_text cat) lid (Some v)" cast_ids ids s1] assms(1) i(1) by simp
  show ?thesis
  proof (cases ids)
    case (Some xs)
    then show ?thesis using i(2) good_pc_get [OF s1, of v xs _ s'] by fastforce
  qed (use i(2) s1 in simp)
qed

lemma good_clear_partitions_loop: "good s \<Longrightarrow> clear_partitions_loop kv (catalog_text cat) lid ps s = Some s' \<Longrightarrow> good s'"
proof (induction ps arbitrary: s)
  case (Cons p ps)
  then obtain ok1 s1 ok2 s2 where "kv_remove_keys_with_prefix kv ((catalog_text cat) @ ''::'' @ lid @ ''::'' @ partition_data_handle p) s = Some (ok1, s1)"
      "kv_remove_keys_with_prefix kv ((catalog_text cat) @ ''::'' @ lid @ ''::'' @ partition_partition p) s1 = Some (ok2, s2)"
      "clear_partitions_loop kv (catalog_text cat) lid ps s2 = Some s'"
    by (auto simp: bind_eq_Some_conv)
  then show ?case using Cons.IH good_remove_keys Cons.prems(1) by metis
qed simp

lemma good_pc_clear_partitions: "good s \<Longrightarrow> pc_clear_partitions j kv (catalog_text cat) (Some v) ids lid s = Some s' \<Longrightarrow> good s'"
  by (auto simp: pc_clear_partitions_def bind_eq_Some_conv dest: good_pc_get good_clear_partitions_loop)

lemma good_lookup: "good s \<Longrightarrow> lookup_api env cat serv ver opt (s, n) = Some (r, s', n') \<Longrightarrow> good s'"
proof -
  assume g: "good s" and run: "lookup_api env cat serv ver opt (s, n) = Some (r, s', n')"
  have get: "good t'" if "good t" "api_get kv (catalog_text cat) serv ver t = Some (x, t')" for t x t'
    using good_get_as [of t "api_key (catalog_text cat) serv ver" cast_url x t'] that by (simp add: api_get_def)
  have put: "good t'" if gt: "good t" and pt: "api_put kv (catalog_text cat) serv ver u t = Some t'" for t u t'
  proof -
    obtain ok where "kv_put kv (api_key (catalog_text cat) serv ver) (Some (Typed (VUrl u))) u 3600 t = Some (ok, t')"
      using pt by (auto simp: api_put_def)
    then show ?thesis by (rule good_typed_put [OF gt, rotated 3]) simp_all
  qed
  obtain url s1 where c: "(if opt \<noteq> OnlineOnly then api_get (env_cache env) (catalog_text cat) serv ver s else Some (None, s)) = Some (url, s1)"
    using run by (auto simp: lookup_api_def Let_def bind_eq_Some_conv)
  then have s1: "good s1" using g get env_cache by (auto split: if_splits)
  show ?thesis
  proof (cases "url = None \<and> opt \<noteq> CacheOnly")
    case False
    then show ?thesis using run c s1 by (auto simp: lookup_api_def Let_def split: option.splits)
  next
    case True
    let ?client = "client_of (get_datastore_server_url (partition_of cat)) (env_settings env)"
    obtain resp n1 where a: "(if serv = ''config'' then platform_get_apis (env_json env) (env_call env) ?client serv ver n
        else resources_get_apis (env_json env) (env_call env) ?client (catalog_text cat) serv ver n) = Some (resp, n1)"
      using run c True by (auto simp: lookup_api_def Let_def bind_eq_Some_conv)
    consider (Err) "s' = s1" | (Put) a as where "resp = Inr (a # as)" "api_put kv (catalog_text cat) serv ver (api_base_url a) s1 = Some s'"
      using run c True a env_cache by (auto simp: lookup_api_def Let_def bind_eq_Some_conv split: sum.splits list.splits)
    then show ?thesis using s1 put by cases auto
  qed
qed

text \<open>What the four operations of a versioned layer answer.\<close>

lemma good_get_latest_version:
  assumes "good s" "get_latest_version env cat q (s, n) = Some (r, s', n')" shows "good s'"
proof -
  have get: "good t'" if "good t" "cc_get_version j kv (catalog_text cat) t = Some (x, t')" for t x t'
    using good_get_as [of t "version_key (catalog_text cat)" cast_version x t'] that by (simp add: cc_get_version_def)
  have put: "good t'" if gt: "good t" and pt: "cc_put_version j kv (catalog_text cat) u t = Some t'" for t u t'
  proof -
    obtain ok where "kv_put kv (version_key (catalog_text cat)) (Some (Typed (VVersion u))) (json_text j (version_response_to_json u))
        kCatalogVersionExpireTime t = Some (ok, t')"
      using pt by (auto simp: cc_put_version_def)
    then show ?thesis by (rule good_typed_put [OF gt, rotated 3]) simp_all
  qed
  have "good s' \<and> (\<forall>x. r = Inr x \<longrightarrow> True)"
    using assms(2) unfolding get_latest_version_def Let_def env_cache env_json
    by (rule fetch_rule [where I = good and P = "\<lambda>_. True", OF _ assms(1)])
      (auto dest: get put good_lookup simp: cc_clear_def intro: good_remove_keys simp: pred_option_def)
  then show ?thesis by simp
qed

lemma good_get_partition_by_id:
  assumes "good s" "get_partition_by_id env cat lid q (s, n) = Some (r, s', n')" "dr_version q = Some v"
  shows "good s' \<and> (\<forall>ps. r = Inr ps \<longrightarrow> (\<exists>pid. dr_partition_id q = Some pid \<and>
    (\<forall>p \<in> set (partitions_list ps). origin_partition org pid v = Some p)))"
proof (cases "dr_partition_id q")
  case (Some pid)
  let ?P = "\<lambda>ps. \<forall>p \<in> set (partitions_list ps). origin_partition org pid v = Some p"
  have "good s' \<and> (\<forall>ps. r = Inr ps \<longrightarrow> ?P ps)"
  proof (rule fetch_rule [where I = good and P = ?P, OF _ assms(1)])
    show "fetch (dr_fetch_option q) ''partition''
        (\<lambda>s. do { (ps, s) \<leftarrow> pc_get j kv (catalog_text cat) (Some v) [pid] lid s;
                   Some (if length (partitions_list ps) = length [pid] then Some ps else None, s) })
        (lookup_api env cat ''query'' ''v1'' (dr_fetch_option q))
        (\<lambda>client. query_get_partitions_by_id j (env_call env) client lid [pid] (Some v) None (dr_billing_tag q))
        (\<lambda>ps. pc_put j kv (catalog_text cat) (Some v) ps lid None False) (pc_clear_partitions j kv (catalog_text cat) (Some v) [pid] lid) (s, n) =
        Some (r, s', n')"
      using assms(2,3) Some unfolding get_partition_by_id_def Let_def env_cache env_json by simp
  next
    fix s x s'
    assume "good s" "do { (ps, s) \<leftarrow> pc_get j kv (catalog_text cat) (Some v) [pid] lid s;
      Some (if length (partitions_list ps) = length [pid] then Some ps else None, s) } = Some (x, s')"
    then show "good s' \<and> pred_option ?P x"
      using good_pc_get [of s v "[pid]" _ s'] by (fastforce simp: bind_eq_Some_conv)
  next
    show "query_get_partitions_by_id j (env_call env) c lid [pid] (Some v) None (dr_billing_tag q) n = Some (Inr x, n') \<Longrightarrow> ?P x"
      for c n x n' using servesD(1) [OF good_serves [OF assms(1)]] env_json by fastforce
  qed (auto dest: good_lookup good_pc_put good_pc_clear_partitions)
  with Some show ?thesis by simp
qed (use assms(1,2) in \<open>auto simp: get_partition_by_id_def\<close>)

lemma good_get_partitions:
  assumes "good s" "get_partitions env cat lid q e (s, n) = Some (r, s', n')" "pr_version q = Some v"
  shows "good s' \<and> (\<forall>ps. r = Inr ps \<longrightarrow> all_of org v (partitions_list ps))"
proof (rule fetch_rule [where I = good and P = "\<lambda>ps. all_of org v (partitions_list ps)", OF _ assms(1)])
  show "fetch (pr_fetch_option q) ''partition'' (pc_get_all j kv (catalog_text cat) (Some v) lid)
      (lookup_api env cat ''metadata'' ''v1'' (pr_fetch_option q))
      (\<lambda>client. metadata_get_partitions j (env_call env) client lid (Some v) None None (pr_billing_tag q))
      (\<lambda>ps. pc_put j kv (catalog_text cat) (Some v) ps lid e True) (pc_clear kv (catalog_text cat) lid) (s, n) = Some (r, s', n')"
    using assms(2,3) unfolding get_partitions_def Let_def env_cache env_json by simp
  show "metadata_get_partitions j (env_call env) c lid (Some v) None None (pr_billing_tag q) n = Some (Inr x, n') \<Longrightarrow>
      all_of org v (partitions_list x)" for c n x n'
    using servesD(2) [OF good_serves [OF assms(1)]] env_json by blast
qed (auto dest: good_lookup good_pc_put good_pc_get_all good_remove_keys simp: pc_clear_def)

lemma good_get_blob_data:
  assumes "good s" "get_blob_data env cat lid ''blob'' q (s, n) = Some (r, s', n')"
  shows "good s' \<and> (\<forall>d. r = Inr d \<longrightarrow> (\<exists>h. dr_data_handle q = Some h \<and> d = origin_blob org h))"
proof (cases "dr_data_handle q")
  case (Some h)
  have put: "good t'" if gt: "good t" and pt: "data_put kv (catalog_text cat) (origin_blob org h) lid h t = Some t'" for t t'
  proof -
    obtain ok where "kv_put_bytes kv (data_key (catalog_text cat) lid h) (origin_blob org h) kDefaultExpiry t = Some (ok, t')"
      using pt by (auto simp: data_put_def)
    then have "all_good (genuine org (catalog_text cat) lid) t'"
      by (rule good_put_bytes [of "genuine org (catalog_text cat) lid", OF good_all [OF gt] proper_key, rotated 3]) simp_all
    then show ?thesis using gt by (simp add: good_def)
  qed
  have get: "good t' \<and> pred_option (\<lambda>d. d = origin_blob org h) x" if "good t" "data_get kv (catalog_text cat) lid h t = Some (x, t')" for t x t'
    using good_get_bytes [of "genuine org (catalog_text cat) lid" t "data_key (catalog_text cat) lid h" x t'] proper_key that
    by (auto simp: good_def data_get_def pred_option_def)
  have "good s' \<and> (\<forall>d. r = Inr d \<longrightarrow> d = origin_blob org h)"
  proof (rule fetch_rule [where I = good and P = "\<lambda>d. d = origin_blob org h", OF _ assms(1)])
    show "fetch (dr_fetch_option q) ''data'' (data_get kv (catalog_text cat) lid h) (lookup_api env cat ''blob'' ''v1'' (dr_fetch_option q))
        (\<lambda>client. get_blob (env_call env) client lid h (dr_billing_tag q) None)
        (\<lambda>d. data_put kv (catalog_text cat) d lid h) (data_clear kv (catalog_text cat) lid h) (s, n) = Some (r, s', n')"
      using assms(2) Some unfolding get_blob_data_def Let_def env_cache by simp
    show "get_blob (env_call env) c lid h (dr_billing_tag q) None n = Some (Inr x, n') \<Longrightarrow> x = origin_blob org h" for c n x n'
      using servesD(3) [OF good_serves [OF assms(1)]] by blast
  qed (auto dest: good_lookup put good_remove_keys simp: data_clear_def get)
  with Some show ?thesis by simp
qed (use assms in \<open>auto simp: get_blob_data_def\<close>)

lemma good_get_versioned_partitions:
  assumes "good s" "get_versioned_partitions env cat lid q (s, n) = Some (r, s', n')"
  shows "good s' \<and> (\<forall>ps. r = Inr ps \<longrightarrow> (\<exists>v. pr_version q \<in> {None, Some v} \<and> all_of org v (partitions_list ps)))"
proof (cases "pr_version q")
  case (Some v)
  then show ?thesis using good_get_partitions [OF assms(1) _ Some] assms(2) by (auto simp: get_versioned_partitions_def)
next
  case None
  then obtain lr s1 n1 where l: "get_latest_version env cat
      (new_catalog_version_request\<lparr>cvr_fetch_option := pr_fetch_option q, cvr_billing_tag := pr_billing_tag q\<rparr>) (s, n) =
      Some (lr, s1, n1)"
    using assms(2) by (auto simp: get_versioned_partitions_def bind_eq_Some_conv)
  have s1: "good s1" using good_get_latest_version [OF assms(1) l] .
  show ?thesis
  proof (cases lr)
    case (Inl e)
    then show ?thesis using assms(2) l None s1 by (auto simp: get_versioned_partitions_def)
  next
    case (Inr x)
    then have "get_partitions env cat lid (q\<lparr>pr_version := Some (response_version x)\<rparr>) None (s1, n1) = Some (r, s', n')"
      using assms(2) l None by (simp add: get_versioned_partitions_def)
    from good_get_partitions [OF s1 this, of "response_version x"] None show ?thesis by auto
  qed
qed

lemma good_get_versioned_data:
  assumes "good s" "get_versioned_data env cat lid q (s, n) = Some (r, s', n')"
  shows "good s' \<and> (\<forall>d. r = Inr d \<longrightarrow>
    (case dr_data_handle q of
       Some h \<Rightarrow> d = origin_blob org h
     | None \<Rightarrow> (\<exists>pid v. dr_partition_id q = Some pid \<and> dr_version q \<in> {None, Some v} \<and>
                 (\<exists>p. origin_partition org pid v = Some p \<and> d = origin_blob org (partition_data_handle p)))))"
proof (cases "dr_data_handle q")
  case (Some h)
  then show ?thesis using good_get_blob_data [OF assms(1), of q n r s' n'] assms
    by (auto simp: get_versioned_data_def split: if_splits)
next
  case None
  then obtain vr s1 n1 where v: "with_latest_version env cat q (s, n) = Some (vr, s1, n1)"
    using assms(2) by (auto simp: get_versioned_data_def bind_eq_Some_conv)
  have s1: "good s1"
    using v assms(1) good_get_latest_version by (auto simp: with_latest_version_def bind_eq_Some_conv split: if_splits)
  show ?thesis
  proof (cases vr)
    case (Inl e)
    then show ?thesis using assms(2) v None s1 by (auto simp: get_versioned_data_def)
  next
    case (Inr q')
    obtain w where w: "dr_version q' = Some w" "dr_version q \<in> {None, Some w}" "dr_partition_id q' = dr_partition_id q"
      using v Inr by (auto simp: with_latest_version_def bind_eq_Some_conv map_sum_Inr split: if_splits)
    obtain pr s2 n2 where p: "get_partition_by_id env cat lid q' (s1, n1) = Some (pr, s2, n2)"
        "(case with_handle_of q' pr of Inl e \<Rightarrow> Some (Inl e, s2, n2) | Inr q \<Rightarrow> get_blob_data env cat lid ''blob'' q (s2, n2)) =
         Some (r, s', n')"
      using assms(2) v None Inr by (auto simp: get_versioned_data_def bind_eq_Some_conv)
    note g = good_get_partition_by_id [OF s1 p(1) w(1)]
    show ?thesis
    proof (cases "with_handle_of q' pr")
      case (Inl e)
      then show ?thesis using p(2) g by auto
    next
      case (Inr q2)
      then obtain ps pa rest where ps: "pr = Inr ps" "partitions_list ps = pa # rest"
          "q2 = q'\<lparr>dr_data_handle := Some (partition_data_handle pa)\<rparr>"
        by (auto simp: with_handle_of_def split: sum.splits list.splits)
      have "get_blob_data env cat lid ''blob'' q2 (s2, n2) = Some (r, s', n')" using p(2) Inr by simp
      from good_get_blob_data [OF _ this] g ps None w(2,3) show ?thesis by fastforce
    qed
  qed
qed

end

section \<open>Versioned layers\<close>

datatype versioned_call = CallData data_request | CallPartitions partitions_request

datatype versioned_answer = AnsData "string api_response" | AnsPartitions "partitions api_response"

fun versioned_step ::
  "('s, 'n) read_env \<Rightarrow> hrn \<Rightarrow> string \<Rightarrow> 's \<times> 'n \<Rightarrow> versioned_call \<Rightarrow> (('s \<times> 'n) \<times> versioned_answer option) option" where
  "versioned_step env cat lid sn (CallData q) =
     map_option (\<lambda>(r, sn). (sn, Some (AnsData r))) (get_versioned_data env cat lid q sn)"
| "versioned_step env cat lid sn (CallPartitions q) =
     map_option (\<lambda>(r, sn). (sn, Some (AnsPartitions r))) (get_versioned_partitions env cat lid q sn)"

text \<open>An answer to a call is an error or what the service has, in the version asked for, if there is one.\<close>

fun genuine_answer :: "origin \<Rightarrow> versioned_call \<Rightarrow> versioned_answer option \<Rightarrow> bool" where
  "genuine_answer org (CallData q) (Some (AnsData (Inr d))) \<longleftrightarrow>
     (case dr_data_handle q of
        Some h \<Rightarrow> d = origin_blob org h
      | None \<Rightarrow> (\<exists>pid v. dr_partition_id q = Some pid \<and> dr_version q \<in> {None, Some v} \<and>
                  (\<exists>p. origin_partition org pid v = Some p \<and> d = origin_blob org (partition_data_handle p))))"
| "genuine_answer org (CallPartitions q) (Some (AnsPartitions (Inr ps))) \<longleftrightarrow>
     (\<exists>v. pr_version q \<in> {None, Some v} \<and> (\<forall>p \<in> set (partitions_list ps). \<exists>pid. origin_partition org pid v = Some p))"
| "genuine_answer org (CallData q) (Some (AnsData (Inl e))) \<longleftrightarrow> True"
| "genuine_answer org (CallPartitions q) (Some (AnsPartitions (Inl e))) \<longleftrightarrow> True"
| "genuine_answer org _ _ \<longleftrightarrow> False"

context read_cache_laws
begin

lemma versioned_run_genuine:
  "good s \<Longrightarrow> run_steps (versioned_step env cat lid) (s, n) calls = Some (sn', rs) \<Longrightarrow> list_all2 (genuine_answer org) calls rs"
proof (induction calls arbitrary: s n rs)
  case (Cons c calls)
  obtain s1 n1 a rs' where st: "versioned_step env cat lid (s, n) c = Some ((s1, n1), a)"
      "run_steps (versioned_step env cat lid) (s1, n1) calls = Some (sn', rs')" "rs = a # rs'"
    using Cons.prems(2) by (auto simp: bind_eq_Some_conv)
  have "good s1 \<and> genuine_answer org c a"
  proof (cases c)
    case (CallData q)
    then obtain r where "get_versioned_data env cat lid q (s, n) = Some (r, s1, n1)" "a = Some (AnsData r)"
      using st(1) by auto
    with good_get_versioned_data [OF Cons.prems(1) this(1)] CallData show ?thesis by (cases r) auto
  next
    case (CallPartitions q)
    then obtain r where "get_versioned_partitions env cat lid q (s, n) = Some (r, s1, n1)" "a = Some (AnsPartitions r)"
      using st(1) by auto
    with good_get_versioned_partitions [OF Cons.prems(1) this(1)] CallPartitions show ?thesis by (cases r) auto
  qed
  with Cons.IH [of s1 n1 rs'] st show ?case by simp
qed simp

lemma versioned_run_from_empty:
  "inv s \<Longrightarrow> (\<And>k u. \<not> may s k u) \<Longrightarrow> serves org lid env \<Longrightarrow>
   run_steps (versioned_step env cat lid) (s, n) calls = Some (sn', rs) \<Longrightarrow> list_all2 (genuine_answer org) calls rs"
  by (rule versioned_run_genuine) (simp_all add: good_def all_good_def)

end

section \<open>The default cache\<close>

interpretation drc: read_cache_laws
  "default_kv api clock :: (read_value, (read_value, 'd, 'w) dc_state) key_value_cache" "env_json env"
  "dc_may contents (read_dec (env_json env))" "dc_ready api contents" "\<lambda>k. \<not> is_expiry_key k"
  "env\<lparr>env_cache := default_kv api clock\<rparr>" org cat lid
  for env api clock contents org cat lid
  by unfold_locales simp_all

text \<open>A default cache that has just been opened on an empty storage.\<close>

definition fresh_cache :: "('d \<Rightarrow> 'w \<Rightarrow> (string \<rightharpoonup> string)) \<Rightarrow> ('m, 'd, 'w) dc_state \<Rightarrow> bool" where
  "fresh_cache contents s \<longleftrightarrow> (case s of (c, w, n) \<Rightarrow>
     protected_cache c = None \<and> (memory_cache c = None \<or> (\<exists>mx. memory_cache c = Some (mem_new mx))) \<and>
     (\<forall>d. Option.bind (mutable_cache c) database = Some d \<longrightarrow> contents d w = Map.empty))"

lemma mem_view_new: "mem_view (mem_new mx) = Map.empty"
  using mem_rel_view [OF mem_rel_new] by (auto simp: shown_def fun_eq_iff)

lemma fresh_cache_empty:
  assumes "fresh_cache contents s" "storage_laws api contents"
  shows "dc_ready api contents s \<and> \<not> dc_may contents dec s k v"
proof -
  obtain c w n where s: "s = (c, w, n)" by (cases s)
  have "mem_map c = Map.empty \<and> mem_ok c"
    using assms(1) unfolding s fresh_cache_def mem_map_def mem_ok_def mem_inv_def
    by (auto simp: mem_view_new intro!: exI [of _ "[]"] mem_rel_new)
  then show ?thesis using assms unfolding s
    by (auto simp: fresh_cache_def disk_map_def split: option.splits)
qed

text \<open>
  C16: the cache is transparent for a versioned layer. From a default cache opened on an empty storage, any
  sequence of requests for data and partitions, with any fetch options, versions, handles and billing tags,
  under any clock and any failures of the storage and the network, answers only what the service has: the data
  of the handle, the data of the partition in the version asked for (in some version, when none is asked
  for), and partitions of that version.
\<close>

theorem versioned_layer_answers_genuine:
  assumes "storage_laws api contents" "fresh_cache contents s"
    and "serves org lid (env\<lparr>env_cache := default_kv api clock\<rparr>)"
    and "run_steps (versioned_step (env\<lparr>env_cache := default_kv api clock\<rparr>) cat lid) (s, n) calls = Some (sn', rs)"
  shows "list_all2 (genuine_answer org) calls rs"
  using drc.versioned_run_from_empty [OF _ _ assms(3,4)] fresh_cache_empty [OF assms(2,1)] by blast

text \<open>A service with one partition in one version, and its documents.\<close>

definition demo_partition :: partition where
  "demo_partition = empty_partition\<lparr>partition_partition := ''t'', partition_data_handle := ''h''\<rparr>"

definition demo_origin :: origin where
  "demo_origin = \<lparr>origin_partition = (\<lambda>pid v. if pid = ''t'' \<and> v = 1 then Some demo_partition else None),
     origin_blob = (\<lambda>_. ''blob'')\<rparr>"

definition demo_json :: json_lib where
  "demo_json = \<lparr>json_text = (\<lambda>_. ''partition''),
     json_parse = (\<lambda>t. if t = ''partition'' then Some (partition_to_json demo_partition)
       else if t = ''partitions'' then Some (partitions_to_json \<lparr>partitions_list = [demo_partition]\<rparr>)
       else if t = ''apis'' then Some (JArray [api_to_json (empty_api\<lparr>api_base_url := ''https://node''\<rparr>)])
       else None)\<rparr>"

definition demo_call :: "nat api_call" where
  "demo_call client path verb query headers body content n =
     (\<lparr>resp_status = 200,
       resp_body = (if path = ''/layers/l/partitions''
                    then (if (''partition'', ''t'') \<in> set query \<and> (''version'', ''1'') \<in> set query then ''partitions'' else [])
                    else if take 11 path = ''/resources/'' then ''apis'' else ''blob'')\<rparr>, Suc n)"

definition demo_env :: "((read_value, unit, (string \<times> string) list) dc_state, nat) read_env" where
  "demo_env = \<lparr>env_json = demo_json, env_cache = default_kv list_storage (\<lambda>n _. int n), env_call = demo_call,
     env_settings = \<lparr>retry_settings_of = default_retry_settings, proxy_settings_of = None, authentication_of = None\<rparr>,
     env_cancelled = (\<lambda>_. False)\<rparr>"

lemma set_mm_emplace [simp]: "set (mm_emplace k v m) = insert (k, v) (set m)"
  by (induction m) auto

lemma set_mm_optional [simp]: "set (mm_optional k v m) = (case v of Some x \<Rightarrow> insert (k, x) (set m) | None \<Rightarrow> set m)"
  by (simp add: mm_optional_def split: option.split)

lemma set_fold_emplace [simp]: "set (fold (mm_emplace k) vs m) = Pair k ` set vs \<union> set m"
  by (induction vs arbitrary: m) auto

lemma demo_docs:
  "read_json demo_json partitions_from_json empty_partitions ''partitions'' = Some \<lparr>partitions_list = [demo_partition]\<rparr>"
  "read_json demo_json partitions_from_json empty_partitions [] = Some \<lparr>partitions_list = []\<rparr>"
  by code_simp+

lemma version_one [simp]: "int_to_string v = ''1'' \<longleftrightarrow> v = 1" "''1'' = int_to_string v \<longleftrightarrow> v = 1"
proof -
  have "int_to_string 1 = ''1''" by code_simp
  then show "int_to_string v = ''1'' \<longleftrightarrow> v = 1" by (metis int_to_string_inj)
  then show "''1'' = int_to_string v \<longleftrightarrow> v = 1" by metis
qed

lemma demo_serves: "serves demo_origin ''l'' (demo_env\<lparr>env_cache := kv\<rparr>)"
proof -
  have "partition_ok demo_partition \<and> partition_partition demo_partition = ''t''"
    by (simp add: demo_partition_def empty_partition_def partition_ok_def no_null_def)
  moreover have "json_parse demo_json (json_text demo_json d) = Some (partition_to_json demo_partition)" for d
    by (simp add: demo_json_def)
  ultimately show ?thesis
    by (auto simp: serves_def demo_env_def demo_origin_def query_get_partitions_by_id_def metadata_get_partitions_def
        get_blob_def with_fields_def api_answer_def demo_call_def demo_docs version_one Let_def
        split: if_splits option.splits)
qed

abbreviation (input) demo_catalog_name :: hrn where
  "demo_catalog_name \<equiv> empty_hrn\<lparr>partition_of := ''here'', service := DataService, catalogId := ''c''\<rparr>"

text \<open>A cache without memory, opened on an empty disk.\<close>

definition demo_cache :: "(read_value, unit, (string \<times> string) list) dc_state" where
  "demo_cache = ((dc_new default_cache_settings)\<lparr>is_open := True, mutable_cache := Some (disk_new\<lparr>database := Some ()\<rparr>)\<rparr>, [], 0)"

abbreviation (input) demo_calls :: "versioned_call list" where
  "demo_calls \<equiv> [CallData (new_data_request\<lparr>dr_partition_id := Some ''t'', dr_version := Some 1\<rparr>),
     CallData (new_data_request\<lparr>dr_partition_id := Some ''t'', dr_version := Some 1, dr_fetch_option := CacheOnly\<rparr>)]"

lemma demo_run:
  "map_option snd (run_steps (versioned_step (demo_env\<lparr>env_cache := default_kv list_storage (\<lambda>n _. int n)\<rparr>) demo_catalog_name ''l'')
     (demo_cache, 0) demo_calls) =
   Some [Some (AnsData (Inr ''blob'')), Some (AnsData (Inr ''blob''))]"
  by code_simp

lemma versioned_layer_answers_genuine_witness:
  "list_all2 (genuine_answer demo_origin) demo_calls [Some (AnsData (Inr ''blob'')), Some (AnsData (Inr ''blob''))]"
proof -
  obtain sn' where r: "run_steps (versioned_step (demo_env\<lparr>env_cache := default_kv list_storage (\<lambda>n _. int n)\<rparr>) demo_catalog_name ''l'')
      (demo_cache, 0) demo_calls = Some (sn', [Some (AnsData (Inr ''blob'')), Some (AnsData (Inr ''blob''))])"
    using demo_run by auto
  have "fresh_cache (\<lambda>_. map_of) demo_cache"
    by (simp add: fresh_cache_def demo_cache_def dc_new_def)
  from versioned_layer_answers_genuine [OF list_storage_laws this demo_serves r] show ?thesis .
qed

end
