(* ===== verification/ReadPrefetch.thy ===== *)
theory ReadPrefetch
  imports TileTree ReadRepositories
begin

text \<open>
  The tiles that a prefetch fetches: \<open>src/repositories/PrefetchTilesRepository.cpp\<close> and the request it takes.

  A loop that need not end is a partial function: its value is \<^term>\<open>None\<close> when it runs for ever. The
  recursion over the children of a tile takes its depth as fuel.
\<close>

section \<open>Requests\<close>

record prefetch_tiles_request =
  pt_layer_id :: string
  pt_tile_keys :: "tile_key list"
  pt_min_level :: u32
  pt_max_level :: u32
  pt_catalog_version :: "int option"
  pt_billing_tag :: "string option"

definition new_prefetch_tiles_request :: prefetch_tiles_request where
  "new_prefetch_tiles_request = \<lparr>pt_layer_id = [], pt_tile_keys = [], pt_min_level = 0, pt_max_level = 0,
     pt_catalog_version = None, pt_billing_tag = None\<rparr>"

type_synonym sub_quads_request = "(string, tile_key \<times> int) smap"

abbreviation (input) kMaxQuadTreeIndexDepth :: u32 where "kMaxQuadTreeIndexDepth \<equiv> 4"

section \<open>The quads that cover the tiles\<close>

text \<open>\<open>GetChildAtLevel\<close>, with the four rounds of its loop.\<close>

partial_function (option) get_child_at_level :: "tile_key \<Rightarrow> u32 \<Rightarrow> tile_key list option" where
  "get_child_at_level t min_level =
     (if min_level \<le> level t then Some [t]
      else do {
        a \<leftarrow> get_child_at_level (get_child 0 t) min_level;
        b \<leftarrow> get_child_at_level (get_child 1 t) min_level;
        c \<leftarrow> get_child_at_level (get_child 2 t) min_level;
        d \<leftarrow> get_child_at_level (get_child 3 t) min_level;
        Some (a @ b @ c @ d) })"

partial_function (option) add_parents :: "u32 \<Rightarrow> u32 \<Rightarrow> tile_key \<Rightarrow> sub_quads_request \<Rightarrow> sub_quads_request option" where
  "add_parents min_level max_level tile ret =
     (if min_level \<le> level tile
      then add_parents min_level max_level (parent tile)
             (if level tile \<le> max_level then smap_put (to_here_tile tile) (tile, 0) ret else ret)
      else Some ret)"

declare get_child_at_level.simps [code] add_parents.simps [code]

text \<open>Quads are merged into the result; of two depths for one tile the greater is kept.\<close>

definition keep_deeper :: "string \<times> (tile_key \<times> int) \<Rightarrow> sub_quads_request \<Rightarrow> sub_quads_request" where
  "keep_deeper tile ret =
     (case map_of ret (fst tile) of
        Some old \<Rightarrow> smap_put (fst tile) (max old (snd tile)) ret
      | None \<Rightarrow> smap_put (fst tile) (snd tile) ret)"

fun add_children ::
  "(tile_key \<Rightarrow> sub_quads_request option) \<Rightarrow> tile_key list \<Rightarrow> sub_quads_request \<Rightarrow> sub_quads_request option" where
  "add_children f [] ret = Some ret"
| "add_children f (t # ts) ret = do { child_tiles \<leftarrow> f t; add_children f ts (fold keep_deeper child_tiles ret) }"

text \<open>Fuel bounds the depth of the recursion.\<close>

fun effective_tile_keys :: "nat \<Rightarrow> tile_key \<Rightarrow> u32 \<Rightarrow> u32 \<Rightarrow> bool \<Rightarrow> sub_quads_request option" where
  "effective_tile_keys 0 t min_level max_level add_ancestors = None"
| "effective_tile_keys (Suc n) t min_level max_level add_ancestors =
     (let again = (\<lambda>c. effective_tile_keys n c min_level max_level False) in
      if max_level < level t then add_parents min_level max_level (parent t) []
      else if level t < min_level then do {
        children \<leftarrow> get_child_at_level t min_level;
        add_children again children [] }
      else do {
        ret \<leftarrow> (if add_ancestors then add_parents min_level max_level (parent t) [] else Some []);
        (if max_level - level t \<le> kMaxQuadTreeIndexDepth
         then Some (smap_put (to_here_tile t) (t, int (unat (max_level - level t))) ret)
         else do {
           let ret = smap_put (to_here_tile t) (t, 4) ret;
           children \<leftarrow> get_child_at_level t (level t + kMaxQuadTreeIndexDepth + 1);
           add_children again children ret }) })"

definition effective_tile_keys_all :: "nat \<Rightarrow> tile_key list \<Rightarrow> u32 \<Rightarrow> u32 \<Rightarrow> sub_quads_request option" where
  "effective_tile_keys_all n tile_keys min_level max_level =
     add_children (\<lambda>t. effective_tile_keys n t min_level max_level True) tile_keys []"

section \<open>Sub quads and sub tiles\<close>

definition partition_from_sub_quad :: "sub_quad \<Rightarrow> string \<Rightarrow> partition" where
  "partition_from_sub_quad sub_quad part =
     empty_partition\<lparr>partition_partition := part, partition_data_handle := sub_quad_data_handle sub_quad,
       partition_version := Some (sub_quad_version sub_quad), partition_data_size := sub_quad_data_size sub_quad,
       partition_checksum := sub_quad_checksum sub_quad,
       partition_compressed_data_size := sub_quad_compressed_data_size sub_quad\<rparr>"

type_synonym sub_quads_result = "(tile_key \<times> string) list"

definition get_sub_quads ::
  "('s, 'n) read_env \<Rightarrow> hrn \<Rightarrow> string \<Rightarrow> int \<Rightarrow> string option \<Rightarrow> tile_key \<Rightarrow> int \<Rightarrow> 's \<times> 'n \<Rightarrow>
   (sub_quads_result, 's, 'n) read_result" where
  "get_sub_quads env cat lid version billing_tag tile depth sn = do {
     (query_api, s, n) \<leftarrow> lookup_api env cat ''query'' ''v1'' OnlineIfNotFound sn;
     (case query_api of
        Inl e \<Rightarrow> Some (Inl e, s, n)
      | Inr client \<Rightarrow> do {
          (quad_tree, n) \<leftarrow> query_quad_tree_index (env_json env) (env_call env) client lid version (to_here_tile tile)
             depth None billing_tag n;
          (case quad_tree of
             Inl e \<Rightarrow> Some (Inl e, s, n)
           | Inr index \<Rightarrow>
               (let subtile = (\<lambda>q. added_sub_here_tile (sub_quad_key q) tile);
                    result = map (\<lambda>q. (subtile q, sub_quad_data_handle q)) (index_sub_quads index);
                    ps = map (\<lambda>q. partition_from_sub_quad q (to_here_tile (subtile q))) (index_sub_quads index)
                in do {
                  s \<leftarrow> pc_put (env_json env) (env_cache env) (to_catalog_hrn_string cat) (Some version)
                         \<lparr>partitions_list = ps\<rparr> lid None False s;
                  Some (Inr result, s, n) })) }) }"

text \<open>An error other than a missing quad ends the loop; so does a cancellation.\<close>

fun get_sub_tiles_loop ::
  "('s, 'n) read_env \<Rightarrow> hrn \<Rightarrow> string \<Rightarrow> int \<Rightarrow> string option \<Rightarrow> (string \<times> (tile_key \<times> int)) list \<Rightarrow>
   sub_quads_result \<Rightarrow> 's \<times> 'n \<Rightarrow> (sub_quads_result, 's, 'n) read_result" where
  "get_sub_tiles_loop env cat lid version billing_tag [] result sn = Some (Inr result, sn)"
| "get_sub_tiles_loop env cat lid version billing_tag ((_, tile, depth) # quads) result sn =
     (if env_cancelled env (snd sn) then Some (Inl (api_error_of_code Cancelled ''Cancelled'' True), sn)
      else do {
        (response, sn) \<leftarrow> get_sub_quads env cat lid version billing_tag tile depth sn;
        (case response of
           Inl e \<Rightarrow>
             (if http_status_code e \<noteq> HTTP_NOT_FOUND then Some (Inl e, sn)
              else get_sub_tiles_loop env cat lid version billing_tag quads result sn)
         | Inr subtiles \<Rightarrow> get_sub_tiles_loop env cat lid version billing_tag quads (result @ subtiles) sn) })"

definition get_sub_tiles ::
  "('s, 'n) read_env \<Rightarrow> hrn \<Rightarrow> string \<Rightarrow> prefetch_tiles_request \<Rightarrow> sub_quads_request \<Rightarrow> 's \<times> 'n \<Rightarrow>
   (sub_quads_result, 's, 'n) read_result" where
  "get_sub_tiles env cat lid request sub_quads sn =
     (case pt_catalog_version request of
        None \<Rightarrow> Some (Inl (api_error_of_code InvalidArgument ''Catalog version invalid'' False), sn)
      | Some version \<Rightarrow> get_sub_tiles_loop env cat lid version (pt_billing_tag request) sub_quads [] sn)"

section \<open>A minimum level of zero\<close>

lemma add_parents_zero: "add_parents 0 max_level tile ret = None"
proof -
  have "min_level \<noteq> 0" if "add_parents min_level max_level tile ret = Some r" for min_level r
    using _ that
  proof (rule add_parents.raw_induct [where P = "\<lambda>min_level _ _ _ _. min_level \<noteq> 0"])
    fix rec :: "u32 \<Rightarrow> u32 \<Rightarrow> tile_key \<Rightarrow> sub_quads_request \<Rightarrow> sub_quads_request option" and m x t q r'
    assume "\<And>m x t q r'. rec m x t q = Some r' \<Longrightarrow> m \<noteq> 0"
      and "(if m \<le> level t then rec m x (parent t) (if level t \<le> x then smap_put (to_here_tile t) (t, 0) q else q)
        else Some q) = Some r'"
    then show "m \<noteq> 0" by (cases "m \<le> level t") auto
  qed
  then show ?thesis by (cases "add_parents 0 max_level tile ret") auto
qed

text \<open>
  C22: with the default minimum level, zero, a prefetch never ends: the loop that adds the ancestors of a tile
  goes on from the root to the invalid key, whose level is again above the minimum, and so on for ever. No
  depth of the recursion is enough, whatever tiles are asked for.
\<close>

theorem prefetch_from_level_zero_never_ends:
  "effective_tile_keys_all n (t # ts) 0 max_level = None"
proof -
  have "effective_tile_keys n t 0 max_level True = None"
    by (cases n) (simp_all add: add_parents_zero Let_def)
  then show ?thesis by (simp add: effective_tile_keys_all_def)
qed

section \<open>Ancestors\<close>

text \<open>\<open>s\<close> is \<open>k\<close> levels below \<open>t\<close>.\<close>

definition below :: "nat \<Rightarrow> tile_key \<Rightarrow> tile_key \<Rightarrow> bool" where
  "below k s t \<longleftrightarrow> is_valid s \<and> is_valid t \<and> unat (level s) = unat (level t) + k \<and> (parent ^^ k) s = t"

lemma below_0 [simp]: "below 0 s t \<longleftrightarrow> is_valid t \<and> s = t"
  by (auto simp: below_def)

lemma below_Suc: "below (Suc k) s t \<longleftrightarrow> 0 < level s \<and> is_valid s \<and> below k (parent s) t"
proof (cases "is_valid s \<and> 0 < level s")
  case True
  then show ?thesis
    using parent_valid [of s] by (auto simp: below_def funpow_Suc_right simp del: funpow.simps)
next
  case False
  then have "\<not> below (Suc k) s t" by (auto simp: below_def word_less_nat_alt)
  then show ?thesis using False by blast
qed

lemma below_trans: "below j r s \<Longrightarrow> below k s t \<Longrightarrow> below (j + k) r t"
  by (induction j arbitrary: r) (auto simp: below_Suc)

lemma below_split: "below (j + k) r t \<Longrightarrow> \<exists>s. below j r s \<and> below k s t"
proof (induction j arbitrary: r)
  case 0
  then show ?case by (auto simp: below_def)
next
  case (Suc j)
  then show ?case by (auto simp: below_Suc)
qed

lemma below_unique: "below k s t \<Longrightarrow> below k s t' \<Longrightarrow> t = t'"
  by (simp add: below_def)

lemma below_level: "below k s t \<Longrightarrow> below j s t' \<Longrightarrow> k \<le> j \<longleftrightarrow> level t' \<le> level t"
  by (auto simp: below_def word_le_nat_alt)

lemma below_valid: "below k s t \<Longrightarrow> is_valid s" "below k s t \<Longrightarrow> is_valid t"
  by (simp_all add: below_def)

lemma below_1: "below 1 s t \<longleftrightarrow> is_valid s \<and> 0 < level s \<and> parent s = t"
  using below_Suc [of 0 s t] parent_valid(1) [of s] by auto

lemma less_4_u8: "i < 4 \<longleftrightarrow> i = 0 \<or> i = 1 \<or> i = 2 \<or> i = 3" for i :: u8
proof
  assume "i < 4"
  then have "unat i < 4" by (simp add: word_less_nat_alt)
  then have "unat i = 0 \<or> unat i = 1 \<or> unat i = 2 \<or> unat i = 3" by linarith
  then have "of_nat (unat i) = (of_nat 0 :: u8) \<or> of_nat (unat i) = (of_nat 1 :: u8) \<or>
      of_nat (unat i) = (of_nat 2 :: u8) \<or> of_nat (unat i) = (of_nat 3 :: u8)"
    by metis
  then show "i = 0 \<or> i = 1 \<or> i = 2 \<or> i = 3" by simp
qed auto

lemma below_1_children:
  assumes "is_valid t" "level t < 31"
  shows "below 1 s t \<longleftrightarrow> s \<in> {get_child 0 t, get_child 1 t, get_child 2 t, get_child 3 t}"
proof
  assume s: "below 1 s t"
  then have v: "is_valid s" "0 < level s" "parent s = t" by (simp_all add: below_1 del: One_nat_def)
  have "get_child (quadrant_index (relationship_to_parent s)) t = s"
    using get_child_relationship [OF v(1,2)] v(3) by simp
  moreover have "quadrant_index (relationship_to_parent s) < 4"
    using relationship_bits [OF v(1,2)] quadrant_bits by (auto simp: less_4_u8)
  ultimately show "s \<in> {get_child 0 t, get_child 1 t, get_child 2 t, get_child 3 t}"
    by (auto simp: less_4_u8)
next
  have "below 1 (get_child i t) t" if "i < 4" for i
    using is_valid_get_child [OF assms that] parent_get_child [OF assms that] unat_Suc_level [OF assms(2)]
      get_child_bits(1) [OF assms that] by (simp add: below_1 word_less_nat_alt del: One_nat_def)
  then show "s \<in> {get_child 0 t, get_child 1 t, get_child 2 t, get_child 3 t} \<Longrightarrow> below 1 s t"
    by (auto simp: less_4_u8)
qed

lemma funpow_parent_bits:
  "is_valid s \<Longrightarrow> k \<le> unat (level s) \<Longrightarrow>
   unat (level ((parent ^^ k) s)) = unat (level s) - k \<and> is_valid ((parent ^^ k) s) \<and>
   (\<forall>n. bit (row ((parent ^^ k) s)) n = bit (row s) (n + k)) \<and>
   (\<forall>n. bit (column ((parent ^^ k) s)) n = bit (column s) (n + k))"
proof (induction k)
  case (Suc k)
  then have IH: "unat (level ((parent ^^ k) s)) = unat (level s) - k" "is_valid ((parent ^^ k) s)"
    "\<And>n. bit (row ((parent ^^ k) s)) n = bit (row s) (n + k)"
    "\<And>n. bit (column ((parent ^^ k) s)) n = bit (column s) (n + k)" by auto
  have l: "0 < level ((parent ^^ k) s)" using IH(1) Suc.prems(2) by (simp add: word_less_nat_alt)
  show ?case
    using parent_valid [OF IH(2) l] parent_bits [OF l] IH Suc.prems(2) by simp
qed simp

lemma is_child_of_below:
  assumes s: "is_valid s" and t: "is_valid t"
  shows "is_child_of s t \<longleftrightarrow> (\<exists>k. 0 < k \<and> below k s t)"
proof (cases "level t < level s")
  case False
  then show ?thesis by (auto simp: is_child_of_def below_def word_less_nat_alt word_le_nat_alt)
next
  case True
  define k where "k = unat (level s) - unat (level t)"
  have k: "0 < k" "k \<le> unat (level s)" "unat (level s) = unat (level t) + k"
    using True by (auto simp: k_def word_less_nat_alt)
  note f = funpow_parent_bits [OF s k(2)]
  have c: "changed_level_to (level t) s = \<lparr>row = drop_bit k (row s), column = drop_bit k (column s), level = level t\<rparr>"
    using changed_level_to_down [of "level t" s] True s by (simp add: is_valid_def k_def)
  have "level ((parent ^^ k) s) = level t" using f k by (simp add: word_unat_eq_iff)
  then have "changed_level_to (level t) s = (parent ^^ k) s"
    unfolding c using f by (intro tile_key_bit_eqI) (simp_all add: bit_drop_bit_eq add.commute)
  then show ?thesis
    using True k s t by (auto simp: is_child_of_def below_def)
qed

section \<open>The quads cover the related tiles\<close>

definition descends :: "tile_key \<Rightarrow> tile_key \<Rightarrow> bool" where
  "descends s t \<longleftrightarrow> (\<exists>k. below k s t)"

lemma descends_refl [simp]: "descends t t \<longleftrightarrow> is_valid t"
  by (metis below_0 below_valid(2) descends_def)

lemma descends_trans: "descends r s \<Longrightarrow> descends s t \<Longrightarrow> descends r t"
  unfolding descends_def using below_trans by blast

lemma descends_valid: "descends s t \<Longrightarrow> is_valid s \<and> is_valid t \<and> level t \<le> level s"
  by (auto simp: descends_def below_def word_le_nat_alt)

lemma descends_level: "descends s t \<Longrightarrow> level s = level t \<Longrightarrow> s = t"
  by (auto simp: descends_def below_def)

lemma descends_iff_child:
  "is_valid s \<Longrightarrow> is_valid t \<Longrightarrow> descends s t \<longleftrightarrow> s = t \<or> is_child_of s t"
  unfolding descends_def by (metis below_0 is_child_of_below neq0_conv)

text \<open>Between a tile and its descendant there is one tile of every level.\<close>

lemma descends_via:
  assumes "descends r t" "level t \<le> l" "l \<le> level r"
  shows "\<exists>s. level s = l \<and> descends r s \<and> descends s t"
proof -
  obtain k where k: "below k r t" using assms(1) by (auto simp: descends_def)
  define i where "i = unat (level r) - unat l"
  have "i \<le> k" and lv: "unat (level r) = unat l + i"
    using k assms(2,3) by (auto simp: below_def i_def word_le_nat_alt)
  then obtain s where s: "below i r s" "below (k - i) s t" using below_split [of i "k - i" r t] k by auto
  then have "level s = l" using lv by (simp add: below_def word_unat_eq_iff)
  then show ?thesis using s by (auto simp: descends_def)
qed

lemma descends_same: "descends r s \<Longrightarrow> descends r t \<Longrightarrow> level s \<le> level t \<Longrightarrow> descends t s"
proof -
  assume *: "descends r s" "descends r t" "level s \<le> level t"
  then obtain t' where "level t' = level t" "descends r t'" "descends t' s"
    using descends_via [of r s "level t"] descends_valid by blast
  moreover have "t' = t"
    using * calculation by (auto simp: descends_def below_def)
  ultimately show ?thesis by simp
qed

lemma descends_children:
  assumes "is_valid t" "level t < 31"
  shows "descends s t \<longleftrightarrow> s = t \<or> descends s (get_child 0 t) \<or> descends s (get_child 1 t) \<or>
    descends s (get_child 2 t) \<or> descends s (get_child 3 t)"
proof -
  have "descends (get_child i t) t \<and> level (get_child i t) = level t + 1" if "i < 4" for i
  proof -
    have "below 1 (get_child i t) t" using that unfolding below_1_children [OF assms] by (auto simp: less_4_u8)
    then show ?thesis using get_child_bits(1) [OF assms that] by (auto simp: descends_def)
  qed
  then have c: "descends (get_child i t) t" if "i < 4" for i using that by blast
  have "\<exists>i < 4. descends s (get_child i t)" if st: "descends s t" "s \<noteq> t"
  proof -
    obtain k where k: "below k s t" using st(1) by (auto simp: descends_def)
    with st(2) have "k \<noteq> 0" by (metis below_0)
    with k obtain r where "below (k - 1) s r" "below 1 r t" using below_split [of "k - 1" 1 s t] by auto
    then show ?thesis unfolding below_1_children [OF assms] by (auto simp: descends_def less_4_u8)
  qed
  then show ?thesis using c [of 0] c [of 1] c [of 2] c [of 3] descends_trans assms(1)
    by (auto simp: less_4_u8)
qed

lemma get_child_at_level_gives:
  "is_valid t \<Longrightarrow> l \<le> 31 \<Longrightarrow> level t \<le> l \<Longrightarrow>
   \<exists>ts. get_child_at_level t l = Some ts \<and> set ts = {s. descends s t \<and> level s = l}"
proof (induction "unat l - unat (level t)" arbitrary: t)
  case 0
  then have "level t = l" by (simp add: word_le_nat_alt word_unat_eq_iff)
  then have "{s. descends s t \<and> level s = l} = {t}" using 0 descends_level by auto
  then show ?case using \<open>level t = l\<close> by (subst get_child_at_level.simps) simp
next
  case (Suc k)
  then have l: "level t < l" "level t < 31" by (auto simp: word_le_nat_alt word_less_nat_alt)
  have c: "\<exists>ts. get_child_at_level (get_child i t) l = Some ts \<and>
      set ts = {s. descends s (get_child i t) \<and> level s = l}" if "i < 4" for i
  proof (rule Suc.hyps(1))
    show "is_valid (get_child i t)" by (rule is_valid_get_child [OF Suc.prems(1) l(2) that])
    have lv: "unat (level (get_child i t)) = Suc (unat (level t))"
      using get_child_bits(1) [OF Suc.prems(1) l(2) that] unat_Suc_level [OF l(2)] by simp
    then show "k = unat l - unat (level (get_child i t))" "level (get_child i t) \<le> l"
      using Suc.hyps(2) l(1) by (simp_all add: word_le_nat_alt word_less_nat_alt)
    show "l \<le> 31" by (rule Suc.prems(2))
  qed
  obtain t0 t1 t2 t3 where "get_child_at_level (get_child 0 t) l = Some t0" "get_child_at_level (get_child 1 t) l = Some t1"
    "get_child_at_level (get_child 2 t) l = Some t2" "get_child_at_level (get_child 3 t) l = Some t3"
    and "set t0 = {s. descends s (get_child 0 t) \<and> level s = l}" "set t1 = {s. descends s (get_child 1 t) \<and> level s = l}"
    "set t2 = {s. descends s (get_child 2 t) \<and> level s = l}" "set t3 = {s. descends s (get_child 3 t) \<and> level s = l}"
    using c [of 0] c [of 1] c [of 2] c [of 3] by (auto simp: less_4_u8)
  moreover have "\<not> l \<le> level t" using l(1) by simp
  ultimately show ?case
    using l(1) by (subst get_child_at_level.simps) (auto simp: descends_children [OF Suc.prems(1) l(2)])
qed

text \<open>A quad of the request stands for the tile and its descendants down to the depth.\<close>

definition quad_has :: "tile_key \<times> int \<Rightarrow> tile_key \<Rightarrow> bool" where
  "quad_has q s \<longleftrightarrow> descends s (fst q) \<and> int (unat (level s)) \<le> int (unat (level (fst q))) + snd q"

definition covered :: "sub_quads_request \<Rightarrow> tile_key \<Rightarrow> bool" where
  "covered ret s \<longleftrightarrow> (\<exists>e \<in> set ret. quad_has (snd e) s)"

text \<open>Well formed quads between two levels.\<close>

definition quad_ok :: "u32 \<Rightarrow> u32 \<Rightarrow> string \<times> (tile_key \<times> int) \<Rightarrow> bool" where
  "quad_ok lo hi e \<longleftrightarrow>
     (case e of (k, q, d) \<Rightarrow>
        k = to_here_tile q \<and> is_valid q \<and> 0 \<le> d \<and> d \<le> 4 \<and> lo \<le> level q \<and> int (unat (level q)) + d \<le> int (unat hi))"

definition quads_ok :: "u32 \<Rightarrow> u32 \<Rightarrow> sub_quads_request \<Rightarrow> bool" where
  "quads_ok lo hi ret \<longleftrightarrow> smap_wf ret \<and> (\<forall>e \<in> set ret. quad_ok lo hi e)"

lemma quads_ok_Nil [simp]: "quads_ok lo hi []"
  by (simp add: quads_ok_def)

lemma covered_Nil [simp]: "\<not> covered [] s"
  by (simp add: covered_def)

lemma here_tile_inj: "is_valid s \<Longrightarrow> is_valid t \<Longrightarrow> to_here_tile s = to_here_tile t \<Longrightarrow> s = t"
  by (metis from_to_here_tile)

lemma set_smap_put:
  "smap_wf m \<Longrightarrow> set (smap_put k v m) = insert (k, v) {e \<in> set m. fst e \<noteq> k}"
proof -
  assume wf: "smap_wf m"
  have "e \<in> set (smap_put k v m) \<longleftrightarrow> e \<in> insert (k, v) {e \<in> set m. fst e \<noteq> k}" for e
  proof -
    have "(fst e, snd e) \<in> set (smap_put k v m) \<longleftrightarrow> map_of (smap_put k v m) (fst e) = Some (snd e)"
      by (rule map_of_eq_Some_iff [OF smap_wf_distinct [OF smap_wf_put [OF wf]], symmetric])
    also have "\<dots> \<longleftrightarrow> (if fst e = k then snd e = v else (fst e, snd e) \<in> set m)"
      using map_of_eq_Some_iff [OF smap_wf_distinct [OF wf], of "fst e" "snd e"] by auto
    finally show ?thesis by (cases e) (auto split: if_splits)
  qed
  then show ?thesis by blast
qed

lemma put_quad:
  assumes ok: "quads_ok lo hi ret" and e: "quad_ok lo hi (k, q, d)"
    and old: "\<And>v. map_of ret k = Some v \<Longrightarrow> snd v \<le> d"
  shows "quads_ok lo hi (smap_put k (q, d) ret)"
    and "covered (smap_put k (q, d) ret) s \<longleftrightarrow> covered ret s \<or> quad_has (q, d) s"
proof -
  have wf: "smap_wf ret" using ok by (simp add: quads_ok_def)
  show "quads_ok lo hi (smap_put k (q, d) ret)"
    using ok e by (auto simp: quads_ok_def set_smap_put [OF wf])
  have "quad_has (snd e') s \<Longrightarrow> quad_has (q, d) s" if mem: "e' \<in> set ret" "fst e' = k" for e'
  proof -
    obtain q' d' where e': "e' = (k, q', d')" using mem(2) by (cases e') auto
    then have "quad_ok lo hi (k, q', d')" using ok mem(1) by (auto simp: quads_ok_def)
    then have "q' = q" using e here_tile_inj [of q' q] by (auto simp: quad_ok_def)
    moreover have "map_of ret k = Some (q', d')"
      using mem(1) e' smap_wf_distinct [OF wf] by (simp add: map_of_eq_Some_iff)
    ultimately show "quad_has (snd e') s \<Longrightarrow> quad_has (q, d) s"
      using old [of "(q', d')"] by (auto simp: e' quad_has_def)
  qed
  then have "(\<exists>e \<in> {e \<in> set ret. fst e \<noteq> k}. quad_has (snd e) s) \<or> quad_has (q, d) s \<longleftrightarrow>
      (\<exists>e \<in> set ret. quad_has (snd e) s) \<or> quad_has (q, d) s" by blast
  then show "covered (smap_put k (q, d) ret) s \<longleftrightarrow> covered ret s \<or> quad_has (q, d) s"
    unfolding covered_def set_smap_put [OF wf] bex_simps snd_conv by blast
qed

lemma keep_deeper_quad:
  assumes ok: "quads_ok lo hi ret" and e: "quad_ok lo hi e"
  shows "quads_ok lo hi (keep_deeper e ret)"
    and "covered (keep_deeper e ret) s \<longleftrightarrow> covered ret s \<or> quad_has (snd e) s"
proof -
  obtain k q d where kqd: "e = (k, q, d)" by (cases e) auto
  have "quads_ok lo hi (keep_deeper e ret) \<and>
      (covered (keep_deeper e ret) s \<longleftrightarrow> covered ret s \<or> quad_has (snd e) s)"
  proof (cases "map_of ret k")
    case None
    then show ?thesis using put_quad [OF ok e [unfolded kqd]] by (simp add: keep_deeper_def kqd)
  next
    case (Some old)
    obtain q' d' where old: "old = (q', d')" by (cases old) auto
    have mem: "(k, q', d') \<in> set ret" using Some old by (auto dest: map_of_SomeD)
    then have ok': "quad_ok lo hi (k, q', d')" using ok by (auto simp: quads_ok_def)
    have q: "q' = q" using ok' e kqd here_tile_inj [of q' q] by (auto simp: quad_ok_def)
    have m: "max (q, d') (q, d) = (q, max d' d)" by (auto simp: max_def less_eq_prod_def)
    have "quad_ok lo hi (k, q, max d' d)" using ok' e q by (auto simp: quad_ok_def kqd max_def)
    then have "quads_ok lo hi (smap_put k (q, max d' d) ret)"
      and "covered (smap_put k (q, max d' d) ret) s \<longleftrightarrow> covered ret s \<or> quad_has (q, max d' d) s"
      using put_quad [OF ok, of k q "max d' d"] Some old by auto
    moreover have "quad_has (q, max d' d) s \<longleftrightarrow> quad_has (q, d') s \<or> quad_has (q, d) s"
      by (auto simp: quad_has_def max_def)
    moreover have "quad_has (q, d') s \<Longrightarrow> covered ret s" using mem q by (force simp: covered_def)
    ultimately show ?thesis using Some by (auto simp: keep_deeper_def kqd old q m)
  qed
  then show "quads_ok lo hi (keep_deeper e ret)"
    and "covered (keep_deeper e ret) s \<longleftrightarrow> covered ret s \<or> quad_has (snd e) s" by blast+
qed

lemma fold_keep_deeper:
  "quads_ok lo hi ret \<Longrightarrow> \<forall>e \<in> set es. quad_ok lo hi e \<Longrightarrow>
   quads_ok lo hi (fold keep_deeper es ret) \<and> (covered (fold keep_deeper es ret) s \<longleftrightarrow> covered ret s \<or> covered es s)"
proof (induction es arbitrary: ret)
  case (Cons e es)
  then show ?case
    using keep_deeper_quad [of lo hi ret e] Cons.IH [of "keep_deeper e ret"] by (auto simp: covered_def)
qed (simp add: covered_def)

lemma add_children_quads:
  assumes "\<And>t. t \<in> set ts \<Longrightarrow> \<exists>r. f t = Some r \<and> quads_ok lo hi r \<and> (\<forall>s. covered r s \<longleftrightarrow> C t s)"
    and "quads_ok lo hi ret"
  shows "\<exists>r. add_children f ts ret = Some r \<and> quads_ok lo hi r \<and>
    (\<forall>s. covered r s \<longleftrightarrow> covered ret s \<or> (\<exists>t \<in> set ts. C t s))"
  using assms
proof (induction ts arbitrary: ret)
  case (Cons t ts)
  obtain c where c: "f t = Some c" "quads_ok lo hi c" "\<And>s. covered c s \<longleftrightarrow> C t s" using Cons.prems(1) by force
  have "quads_ok lo hi (fold keep_deeper c ret)"
    "\<And>s. covered (fold keep_deeper c ret) s \<longleftrightarrow> covered ret s \<or> covered c s"
    using fold_keep_deeper [OF Cons.prems(2), of c] c(2) by (auto simp: quads_ok_def)
  then show ?case using Cons.IH [of "fold keep_deeper c ret"] Cons.prems(1) c by auto
qed simp

text \<open>The ancestors between the levels, each as a quad of depth zero.\<close>

lemma add_parents_gives:
  "is_valid t \<Longrightarrow> 0 < lo \<Longrightarrow> quads_ok lo hi ret \<Longrightarrow>
   (\<And>v q. map_of ret (to_here_tile q) = Some v \<Longrightarrow> is_valid q \<Longrightarrow> level q \<le> level t \<Longrightarrow> False) \<Longrightarrow>
   \<exists>r. add_parents lo hi t ret = Some r \<and> quads_ok lo hi r \<and>
     (\<forall>s. covered r s \<longleftrightarrow> covered ret s \<or> (descends t s \<and> lo \<le> level s \<and> level s \<le> hi)) \<and>
     (\<forall>q v. map_of r (to_here_tile q) = Some v \<longrightarrow> is_valid q \<longrightarrow>
        map_of ret (to_here_tile q) = Some v \<or> level q \<le> level t)"
proof (induction "unat (level t)" arbitrary: t ret)
  case 0
  then have "level t = 0" by (simp add: word_unat_eq_iff)
  moreover have "\<not> lo \<le> level s" if "descends t s" for s
    using descends_valid [OF that] \<open>level t = 0\<close> \<open>0 < lo\<close> by (auto simp: word_le_nat_alt word_less_nat_alt)
  ultimately show ?case using 0 by (subst add_parents.simps) auto
next
  case (Suc k)
  then have "0 < level t" by (simp add: word_less_nat_alt)
  note pv = parent_valid [OF Suc.prems(1) this]
  have anc: "descends t s \<longleftrightarrow> s = t \<or> descends (parent t) s" for s
  proof
    have "descends t (parent t)"
      using \<open>0 < level t\<close> Suc.prems(1) below_1 [of t "parent t"] by (auto simp: descends_def)
    then show "s = t \<or> descends (parent t) s \<Longrightarrow> descends t s" using descends_trans Suc.prems(1) by auto
    show "descends t s \<Longrightarrow> s = t \<or> descends (parent t) s"
      unfolding descends_def by (metis below_0 below_Suc not0_implies_Suc)
  qed
  show ?case
  proof (cases "lo \<le> level t")
    case False
    then have "\<not> lo \<le> level s" if "descends t s" for s
      using descends_valid [OF that] by auto
    then show ?thesis using False Suc.prems(3) by (subst add_parents.simps) auto
  next
    case True
    define ret' where "ret' = (if level t \<le> hi then smap_put (to_here_tile t) (t, 0) ret else ret)"
    have "quad_ok lo hi (to_here_tile t, t, 0)" if "level t \<le> hi"
      using True that Suc.prems(1) by (simp add: quad_ok_def word_le_def)
    moreover have none: "map_of ret (to_here_tile t) = None"
      using Suc.prems(4) [of t] Suc.prems(1) by (cases "map_of ret (to_here_tile t)") auto
    moreover have "quad_has (t, 0) s \<longleftrightarrow> s = t" for s
      using Suc.prems(1) descends_valid [of s t] descends_level [of s t]
      by (auto simp: quad_has_def word_le_def word_uint_eq_iff intro: antisym)
    ultimately have r: "quads_ok lo hi ret'" "\<And>s. covered ret' s \<longleftrightarrow> covered ret s \<or> (s = t \<and> level t \<le> hi)"
      using put_quad [OF Suc.prems(3), of "to_here_tile t" t 0] Suc.prems(3) by (auto simp: ret'_def)
    have lp: "level (parent t) < level t" using pv(4) by (simp add: word_less_nat_alt)
    have keys: "map_of ret' (to_here_tile q) = Some v \<Longrightarrow> is_valid q \<Longrightarrow>
        q = t \<or> map_of ret (to_here_tile q) = Some v" for q v
      using here_tile_inj [OF _ Suc.prems(1), of q] by (auto simp: ret'_def split: if_splits)
    have "\<exists>r. add_parents lo hi (parent t) ret' = Some r \<and> quads_ok lo hi r \<and>
       (\<forall>s. covered r s \<longleftrightarrow> covered ret' s \<or> (descends (parent t) s \<and> lo \<le> level s \<and> level s \<le> hi)) \<and>
       (\<forall>q v. map_of r (to_here_tile q) = Some v \<longrightarrow> is_valid q \<longrightarrow>
          map_of ret' (to_here_tile q) = Some v \<or> level q \<le> level (parent t))"
    proof (rule Suc.hyps(1))
      show "k = unat (level (parent t))" using Suc.hyps(2) pv(4) by simp
      fix v q assume a: "map_of ret' (to_here_tile q) = Some v" "is_valid q" "level q \<le> level (parent t)"
      then have "q \<noteq> t" "level q \<le> level t" using lp by auto
      then show False using keys [OF a(1,2)] Suc.prems(4) a(2) by blast
    qed (use pv r Suc.prems in auto)
    then obtain r where "add_parents lo hi (parent t) ret' = Some r" "quads_ok lo hi r"
       "\<And>s. covered r s \<longleftrightarrow> covered ret' s \<or> (descends (parent t) s \<and> lo \<le> level s \<and> level s \<le> hi)"
       "\<And>q v. map_of r (to_here_tile q) = Some v \<Longrightarrow> is_valid q \<Longrightarrow>
          map_of ret' (to_here_tile q) = Some v \<or> level q \<le> level (parent t)" by blast
    moreover have "add_parents lo hi t ret = add_parents lo hi (parent t) ret'"
      using True by (subst add_parents.simps) (simp add: ret'_def)
    ultimately show ?thesis using r(2) anc True keys lp by (auto; metis order_trans less_imp_le order_refl)
  qed
qed

lemma descends_parent:
  assumes "is_valid t" "0 < level t"
  shows "descends t s \<longleftrightarrow> s = t \<or> descends (parent t) s"
proof
  have "descends t (parent t)" using assms below_1 [of t "parent t"] by (auto simp: descends_def)
  then show "s = t \<or> descends (parent t) s \<Longrightarrow> descends t s" using descends_trans assms(1) by auto
  show "descends t s \<Longrightarrow> s = t \<or> descends (parent t) s"
    unfolding descends_def by (metis below_0 below_Suc not0_implies_Suc)
qed

text \<open>Above the maximum or as part of the answer: the ancestors.\<close>

lemma parents_of:
  assumes "is_valid t" "0 < lo" "lo \<le> level t"
  shows "\<exists>r. add_parents lo hi (parent t) [] = Some r \<and> quads_ok lo hi r \<and>
    (\<forall>s. covered r s \<longleftrightarrow> s \<noteq> t \<and> descends t s \<and> lo \<le> level s \<and> level s \<le> hi) \<and> map_of r (to_here_tile t) = None"
proof -
  have l: "0 < level t" using assms(2,3) by (rule less_le_trans)
  note pv = parent_valid [OF assms(1) l]
  have lp: "\<not> level t \<le> level (parent t)" using pv(4) by (simp add: word_le_nat_alt)
  obtain r where r: "add_parents lo hi (parent t) [] = Some r" "quads_ok lo hi r"
    "\<And>s. covered r s \<longleftrightarrow> descends (parent t) s \<and> lo \<le> level s \<and> level s \<le> hi"
    "\<And>q v. map_of r (to_here_tile q) = Some v \<Longrightarrow> is_valid q \<Longrightarrow> level q \<le> level (parent t)"
    using add_parents_gives [OF pv(1) assms(2), of hi "[]"] by auto
  have "\<not> descends (parent t) t" using descends_valid lp by blast
  then have "descends (parent t) s \<longleftrightarrow> s \<noteq> t \<and> descends t s" for s
    by (auto simp: descends_parent [OF assms(1) l])
  moreover have "map_of r (to_here_tile t) = None"
    using r(4) [of t] lp assms(1) by (cases "map_of r (to_here_tile t)") auto
  ultimately show ?thesis using r by auto
qed

lemma unat_add_u32: "unat (a :: u32) + unat b < 2 ^ 32 \<Longrightarrow> unat (a + b) = unat a + unat b"
  by (simp add: unat_word_ariths)

lemma below_levels:
  assumes "is_valid t" "level t \<le> l" "level r \<ge> l" "descends r t"
  shows "\<exists>c. level c = l \<and> descends c t \<and> descends r c"
  using descends_via [OF assms(4,2,3)] by blast

text \<open>Within the levels.\<close>

lemma effective_in_range:
  "is_valid t \<Longrightarrow> 0 < lo \<Longrightarrow> lo \<le> level t \<Longrightarrow> level t \<le> hi \<Longrightarrow> hi \<le> 31 \<Longrightarrow> unat hi < unat (level t) + 5 * n \<Longrightarrow>
   \<exists>r. effective_tile_keys n t lo hi b = Some r \<and> quads_ok lo hi r \<and>
     (\<forall>s. covered r s \<longleftrightarrow> (descends s t \<and> level s \<le> hi) \<or> (b \<and> descends t s \<and> lo \<le> level s))"
proof (induction n arbitrary: t b)
  case 0
  then show ?case by (simp add: word_le_nat_alt)
next
  case (Suc n)
  obtain ret where ret: "(if b then add_parents lo hi (parent t) [] else Some []) = Some ret" "quads_ok lo hi ret"
    "\<And>s. covered ret s \<longleftrightarrow> b \<and> s \<noteq> t \<and> descends t s \<and> lo \<le> level s \<and> level s \<le> hi"
    "map_of ret (to_here_tile t) = None"
    using parents_of [OF Suc.prems(1-3), of hi] by (cases b) auto
  have up: "descends t s \<Longrightarrow> level s \<le> hi" for s using descends_valid [of t s] Suc.prems(4) by auto
  have in_range: "\<not> hi < level t" "\<not> level t < lo" using Suc.prems(3,4) by auto
  have d: "unat (hi - level t) = unat hi - unat (level t)" using Suc.prems(4) by (simp add: unat_sub)
  have self: "descends t t" using Suc.prems(1) by simp
  show ?case
  proof (cases "hi - level t \<le> 4")
    case True
    then have le: "unat hi \<le> unat (level t) + 4" using d by (simp add: word_le_nat_alt)
    define e where "e = int (unat (hi - level t))"
    have e: "int (unat (level t)) + e = int (unat hi)" "0 \<le> e" "e \<le> 4"
      using d le Suc.prems(4) unfolding e_def word_le_nat_alt by linarith+
    have "quad_ok lo hi (to_here_tile t, t, e)" using Suc.prems e by (simp add: quad_ok_def)
    note q = put_quad [OF ret(2) this]
    have has: "quad_has (t, e) s \<longleftrightarrow> descends s t \<and> level s \<le> hi" for s
      using e by (simp add: quad_has_def word_le_def)
    have "effective_tile_keys (Suc n) t lo hi b = Some (smap_put (to_here_tile t) (t, e) ret)"
      using in_range ret(1) True by (simp add: Let_def e_def)
    then show ?thesis
      using q ret(3,4) has up self Suc.prems(4) Suc.prems(1) by auto
  next
    case False
    then have gr: "unat (level t) + 4 < unat hi" using d by (simp add: word_le_nat_alt)
    have hi: "unat hi \<le> 31" using Suc.prems(5) by (simp add: word_le_nat_alt)
    define l where "l = level t + 4 + 1"
    have "unat (level t + 5) = unat (level t) + 5" using gr hi by (subst unat_add_u32) auto
    then have l: "unat l = unat (level t) + 5" by (simp add: l_def add.assoc)
    have l': "l \<le> 31" "level t \<le> l" "l \<le> hi" "lo \<le> l"
      using gr hi l Suc.prems(3) by (simp_all add: word_le_nat_alt)
    have "int (unat (level t)) + 4 \<le> int (unat hi)" using gr by linarith
    then have "quad_ok lo hi (to_here_tile t, t, 4)" using Suc.prems by (simp add: quad_ok_def)
    note q = put_quad [OF ret(2) this]
    define ret' where "ret' = smap_put (to_here_tile t) (t, 4) ret"
    have "int (unat (level s)) \<le> int (unat (level t)) + 4 \<longleftrightarrow> level s < l" for s :: tile_key
      unfolding word_less_nat_alt l by linarith
    then have has: "quad_has (t, 4) s \<longleftrightarrow> descends s t \<and> level s < l" for s by (simp only: quad_has_def fst_conv snd_conv)
    have ret': "quads_ok lo hi ret'" "\<And>s. covered ret' s \<longleftrightarrow> covered ret s \<or> (descends s t \<and> level s < l)"
      using q ret(4) has by (simp_all add: ret'_def)
    obtain ts where ts: "get_child_at_level t l = Some ts" "set ts = {s. descends s t \<and> level s = l}"
      using get_child_at_level_gives [OF Suc.prems(1) l'(1,2)] by blast
    have "\<exists>r. effective_tile_keys n c lo hi False = Some r \<and> quads_ok lo hi r \<and>
        (\<forall>s. covered r s \<longleftrightarrow> descends s c \<and> level s \<le> hi)" if "c \<in> set ts" for c
    proof -
      have c: "level c = l" "is_valid c" using that ts(2) descends_valid by auto
      have "unat hi < unat (level c) + 5 * n" using Suc.prems(6) c(1) l by simp
      then show ?thesis using Suc.IH [of c False] c l' Suc.prems(2,5) by auto
    qed
    from add_children_quads [where f = "\<lambda>c. effective_tile_keys n c lo hi False" and
        C = "\<lambda>c s. descends s c \<and> level s \<le> hi" and ts = ts, OF this ret'(1)] obtain r where
      r: "add_children (\<lambda>c. effective_tile_keys n c lo hi False) ts ret' = Some r" "quads_ok lo hi r"
        "\<And>s. covered r s \<longleftrightarrow> covered ret' s \<or> (\<exists>c \<in> set ts. descends s c \<and> level s \<le> hi)"
      by blast
    have "(\<exists>c \<in> set ts. descends s c) \<longleftrightarrow> descends s t \<and> l \<le> level s" for s
      using below_levels [OF Suc.prems(1) l'(2), of s] descends_trans [of s _ t] descends_valid [of s]
      by (auto simp: ts(2))
    then have r': "covered r s \<longleftrightarrow> (b \<and> s \<noteq> t \<and> descends t s \<and> lo \<le> level s \<and> level s \<le> hi) \<or>
        (descends s t \<and> level s < l) \<or> (descends s t \<and> l \<le> level s \<and> level s \<le> hi)" for s
      unfolding r(3) ret'(2) ret(3) by blast
    have "level s < l \<or> (l \<le> level s \<and> level s \<le> hi) \<longleftrightarrow> level s \<le> hi" for s :: tile_key
      using l'(3) by (meson leI less_imp_le order_trans)
    moreover have "t = s \<Longrightarrow> descends s t \<and> level s \<le> hi" for s using self Suc.prems(4) by blast
    ultimately have cov: "covered r s \<longleftrightarrow> (descends s t \<and> level s \<le> hi) \<or> (b \<and> descends t s \<and> lo \<le> level s)" for s
      unfolding r' using up by blast
    have "effective_tile_keys (Suc n) t lo hi b = Some r"
      using in_range ret(1) False ts(1) r(1) by (simp add: Let_def l_def ret'_def)
    then show ?thesis using r(2) cov by blast
  qed
qed

lemma effective_tile_keys_quads:
  assumes t: "is_valid t" and lo: "0 < lo" "lo \<le> hi" and hi: "hi \<le> 31" and n: "8 \<le> n"
  shows "\<exists>r. effective_tile_keys n t lo hi True = Some r \<and> quads_ok lo hi r \<and>
    (\<forall>s. covered r s \<longleftrightarrow> lo \<le> level s \<and> level s \<le> hi \<and> (descends s t \<or> descends t s))"
proof -
  obtain m where m: "n = Suc m" "7 \<le> m" using n by (cases n) auto
  have u: "unat hi \<le> 31" using hi by (simp add: word_le_nat_alt)
  consider (above) "hi < level t" | (under) "level t < lo" | (within) "lo \<le> level t" "level t \<le> hi" by fastforce
  then show ?thesis
  proof cases
    case above
    then have "lo \<le> level t" using lo(2) by auto
    from parents_of [OF t lo(1) this, of hi] obtain r where
      r: "add_parents lo hi (parent t) [] = Some r" "quads_ok lo hi r"
        "\<And>s. covered r s \<longleftrightarrow> s \<noteq> t \<and> descends t s \<and> lo \<le> level s \<and> level s \<le> hi" by blast
    have "level s \<le> hi \<Longrightarrow> \<not> descends s t \<and> s \<noteq> t" for s
      using above descends_valid [of s t] by auto
    then have "covered r s \<longleftrightarrow> lo \<le> level s \<and> level s \<le> hi \<and> (descends s t \<or> descends t s)" for s
      unfolding r(3) by blast
    then show ?thesis using r above m(1) by (simp add: Let_def)
  next
    case under
    then have b: "level t \<le> lo" "lo \<le> 31" "\<not> hi < level t" using lo(2) hi by auto
    obtain ts where ts: "get_child_at_level t lo = Some ts" "set ts = {s. descends s t \<and> level s = lo}"
      using get_child_at_level_gives [OF t b(2,1)] by blast
    have "\<exists>r. effective_tile_keys m c lo hi False = Some r \<and> quads_ok lo hi r \<and>
        (\<forall>s. covered r s \<longleftrightarrow> descends s c \<and> level s \<le> hi)" if "c \<in> set ts" for c
    proof -
      have c: "level c = lo" "is_valid c" using that ts(2) descends_valid by auto
      then show ?thesis using effective_in_range [OF c(2) lo(1), of hi m False] lo(2) hi m(2) u by auto
    qed
    from add_children_quads [where f = "\<lambda>c. effective_tile_keys m c lo hi False" and
        C = "\<lambda>c s. descends s c \<and> level s \<le> hi" and ts = ts, OF this quads_ok_Nil] obtain r where
      r: "add_children (\<lambda>c. effective_tile_keys m c lo hi False) ts [] = Some r" "quads_ok lo hi r"
        "\<And>s. covered r s \<longleftrightarrow> (\<exists>c \<in> set ts. descends s c \<and> level s \<le> hi)" by auto
    have "(\<exists>c \<in> set ts. descends s c) \<longleftrightarrow> descends s t \<and> lo \<le> level s" for s
      using below_levels [OF t b(1), of s] descends_trans [of s _ t] descends_valid [of s] by (auto simp: ts(2))
    moreover have "lo \<le> level s \<Longrightarrow> \<not> descends t s" for s
      using under descends_valid [of t s] by auto
    ultimately have "covered r s \<longleftrightarrow> lo \<le> level s \<and> level s \<le> hi \<and> (descends s t \<or> descends t s)" for s
      unfolding r(3) by blast
    then show ?thesis using r(1,2) ts(1) under b(3) m(1) by (simp add: Let_def)
  next
    case within
    have "unat hi < unat (level t) + 5 * n" using u n by linarith
    then obtain r where r: "effective_tile_keys n t lo hi True = Some r" "quads_ok lo hi r"
      "\<And>s. covered r s \<longleftrightarrow> (descends s t \<and> level s \<le> hi) \<or> (descends t s \<and> lo \<le> level s)"
      using effective_in_range [OF t lo(1) within hi, of n True] by auto
    have "descends s t \<Longrightarrow> lo \<le> level s" "descends t s \<Longrightarrow> level s \<le> hi" for s
      using within descends_valid [of s t] descends_valid [of t s] by (auto intro: order_trans)
    then have "covered r s \<longleftrightarrow> lo \<le> level s \<and> level s \<le> hi \<and> (descends s t \<or> descends t s)" for s
      unfolding r(3) by blast
    then show ?thesis using r(1,2) by blast
  qed
qed

text \<open>
  C20: the quads requested for a prefetch cover exactly the tiles related to those asked for. For valid keys and
  levels \<open>1 \<le> lo \<le> hi \<le> 31\<close> the computation ends, each quad has a valid tile, at most the four levels that
  the service allows, and stays between the levels; and a tile is below some quad, within its depth, exactly
  when it is between the levels and is one of the keys, below one of them or above one of them.
\<close>

theorem prefetch_covers_related_tiles:
  assumes "0 < lo" "lo \<le> hi" "hi \<le> 31" "\<forall>t \<in> set ts. is_valid t" "8 \<le> n"
  shows "\<exists>r. effective_tile_keys_all n ts lo hi = Some r \<and>
    (\<forall>(k, q, d) \<in> set r. k = to_here_tile q \<and> is_valid q \<and> 0 \<le> d \<and> d \<le> 4 \<and> lo \<le> level q \<and>
       int (unat (level q)) + d \<le> int (unat hi)) \<and>
    (\<forall>s. is_valid s \<longrightarrow>
       ((\<exists>(k, q, d) \<in> set r. (s = q \<or> is_child_of s q) \<and> int (unat (level s)) \<le> int (unat (level q)) + d) \<longleftrightarrow>
        lo \<le> level s \<and> level s \<le> hi \<and> (\<exists>t \<in> set ts. s = t \<or> is_child_of s t \<or> is_parent_of s t)))"
proof -
  have "\<exists>r. effective_tile_keys n t lo hi True = Some r \<and> quads_ok lo hi r \<and>
      (\<forall>s. covered r s \<longleftrightarrow> lo \<le> level s \<and> level s \<le> hi \<and> (descends s t \<or> descends t s))" if "t \<in> set ts" for t
    using effective_tile_keys_quads assms that by blast
  from add_children_quads [where f = "\<lambda>t. effective_tile_keys n t lo hi True" and
      C = "\<lambda>t s. lo \<le> level s \<and> level s \<le> hi \<and> (descends s t \<or> descends t s)" and ts = ts, OF this quads_ok_Nil]
  obtain r where r: "effective_tile_keys_all n ts lo hi = Some r" "quads_ok lo hi r"
    "\<And>s. covered r s \<longleftrightarrow> (\<exists>t \<in> set ts. lo \<le> level s \<and> level s \<le> hi \<and> (descends s t \<or> descends t s))"
    by (auto simp: effective_tile_keys_all_def)
  have ok: "quad_ok lo hi e" if "e \<in> set r" for e using r(2) that by (simp add: quads_ok_def)
  have "(\<exists>(k, q, d) \<in> set r. (s = q \<or> is_child_of s q) \<and> int (unat (level s)) \<le> int (unat (level q)) + d) \<longleftrightarrow>
        lo \<le> level s \<and> level s \<le> hi \<and> (\<exists>t \<in> set ts. s = t \<or> is_child_of s t \<or> is_parent_of s t)" if s: "is_valid s" for s
  proof -
    have "covered r s \<longleftrightarrow>
        (\<exists>(k, q, d) \<in> set r. (s = q \<or> is_child_of s q) \<and> int (unat (level s)) \<le> int (unat (level q)) + d)"
      unfolding covered_def using ok
      by (intro bex_cong refl) (auto simp: quad_has_def quad_ok_def descends_iff_child [OF s] split: prod.splits)
    moreover have "(descends s t \<or> descends t s) \<longleftrightarrow> s = t \<or> is_child_of s t \<or> is_parent_of s t" if "t \<in> set ts" for t
      using assms(4) that s by (auto simp: descends_iff_child is_parent_of_def)
    ultimately show ?thesis using r(3) by blast
  qed
  then show ?thesis using r(1) ok by (auto simp: quad_ok_def)
qed

lemma prefetch_covers_related_tiles_witness:
  "\<exists>r. effective_tile_keys_all 8 [\<lparr>row = 5, column = 3, level = 3\<rparr>, \<lparr>row = 0, column = 1, level = 1\<rparr>] 2 12 = Some r \<and>
    (\<forall>(k, q, d) \<in> set r. k = to_here_tile q \<and> is_valid q \<and> 0 \<le> d \<and> d \<le> 4 \<and> 2 \<le> level q \<and>
       int (unat (level q)) + d \<le> int (unat (12 :: u32))) \<and>
    (\<forall>s. is_valid s \<longrightarrow>
       ((\<exists>(k, q, d) \<in> set r. (s = q \<or> is_child_of s q) \<and> int (unat (level s)) \<le> int (unat (level q)) + d) \<longleftrightarrow>
        2 \<le> level s \<and> level s \<le> 12 \<and>
        (\<exists>t \<in> set [\<lparr>row = 5, column = 3, level = 3\<rparr>, \<lparr>row = 0, column = 1, level = 1\<rparr>].
           s = t \<or> is_child_of s t \<or> is_parent_of s t)))"
  by (rule prefetch_covers_related_tiles) (simp_all add: is_valid_def)

end
