(* ===== verification/ReadScenarios.thy ===== *)
theory ReadScenarios
  imports ReadRepositories
begin

text \<open>
  What happens to the cache when the platform refuses a request, and when time passes, on an ideal cache: one
  that forgets nothing before its expiry. Its state is the time and the entries with their deadlines.
\<close>

section \<open>An ideal cache\<close>

type_synonym 'm ideal_cache = "int \<times> (string \<times> 'm cached_value \<times> int) list"

definition ideal_keep :: "(string \<Rightarrow> bool) \<Rightarrow> 'm ideal_cache \<Rightarrow> 'm ideal_cache" where
  "ideal_keep P s = (fst s, filter (P \<circ> fst) (snd s))"

definition ideal_put :: "string \<Rightarrow> 'm cached_value option \<Rightarrow> int \<Rightarrow> 'm ideal_cache \<Rightarrow> 'm ideal_cache" where
  "ideal_put k v e s =
     (case ideal_keep (\<lambda>j. j \<noteq> k) s of (now, m) \<Rightarrow>
        (now, case v of Some v \<Rightarrow> (k, v, now + e) # m | None \<Rightarrow> m))"

definition ideal_get :: "string \<Rightarrow> 'm ideal_cache \<Rightarrow> 'm cached_value option" where
  "ideal_get k s =
     (case s of (now, m) \<Rightarrow>
        (case map_of m k of Some (v, deadline) \<Rightarrow> if now < deadline then Some v else None | None \<Rightarrow> None))"

definition ideal_kv :: "('m, 'm ideal_cache) key_value_cache" where
  "ideal_kv =
     \<lparr>kv_put = (\<lambda>k v enc e s. Some (True, ideal_put k v e s)),
      kv_put_bytes = (\<lambda>k b e s. Some (True, ideal_put k (Some (Bytes b)) e s)),
      kv_get = (\<lambda>k d s. Some (ideal_get k s, s)),
      kv_get_bytes = (\<lambda>k s. case ideal_get k s of
         None \<Rightarrow> Some (None, s) | Some (Bytes b) \<Rightarrow> Some (Some b, s) | Some (Typed _) \<Rightarrow> None),
      kv_remove = (\<lambda>k s. Some (True, ideal_keep (\<lambda>j. j \<noteq> k) s)),
      kv_remove_keys_with_prefix = (\<lambda>p s. Some (True, ideal_keep (\<lambda>j. take (length p) j \<noteq> p) s))\<rparr>"

lemma map_of_keep: "map_of (filter (P \<circ> fst) m) k = (if P k then map_of m k else None)"
  by (induction m) auto

lemma ideal_get_keep: "ideal_get j (ideal_keep P s) = (if P j then ideal_get j s else None)"
  by (cases s) (simp add: ideal_get_def ideal_keep_def map_of_keep)

lemma ideal_get_put:
  "ideal_get j (ideal_put k (Some v) e s) = (if j = k then if 0 < e then Some v else None else ideal_get j s)"
  by (cases s) (simp add: ideal_get_def ideal_put_def ideal_keep_def map_of_keep)

lemma ideal_bytes: "kv_get_bytes ideal_kv k s = Some (x, s') \<Longrightarrow> s' = s \<and> (\<forall>b. x = Some b \<longrightarrow> ideal_get k s = Some (Bytes b))"
  by (auto simp: ideal_kv_def split: option.splits cached_value.splits)

interpretation ideal: kv_cache "ideal_kv :: ('m, 'm ideal_cache) key_value_cache" dec "\<lambda>s k v. ideal_get k s = Some v" "\<lambda>_. True" "\<lambda>_. True"
proof unfold_locales
  fix s s' :: "'m ideal_cache" and k x
  assume "kv_get_bytes ideal_kv k s = Some (x, s')"
  from ideal_bytes [OF this]
  show "True \<and> (\<forall>j u. True \<longrightarrow> ideal_get j s' = Some u \<longrightarrow> ideal_get j s = Some u) \<and>
      (\<forall>b. x = Some b \<longrightarrow> ideal_get k s = Some (Bytes b))" by simp
qed (auto simp: ideal_kv_def ideal_get_put ideal_get_keep split: if_splits)

section \<open>A scripted platform\<close>

text \<open>
  The platform looks all services up under one address and lists the partitions \<open>1\<close> and \<open>10\<close>. It answers a
  query of a partition and a catalog with the given status, and a volatile blob with the number of requests.
\<close>

definition script_partition :: "string \<Rightarrow> partition" where
  "script_partition pid = empty_partition\<lparr>partition_partition := pid, partition_data_handle := ''h'' @ pid\<rparr>"

definition script_json :: json_lib where
  "script_json = \<lparr>json_text = (\<lambda>_. []),
     json_parse = (\<lambda>t. if t = ''P'' then Some (partitions_to_json \<lparr>partitions_list = [script_partition ''1'', script_partition ''10'']\<rparr>)
       else if t = ''1'' then Some (partitions_to_json \<lparr>partitions_list = [script_partition ''1'']\<rparr>)
       else if t = ''A'' then Some (JArray [api_to_json (empty_api\<lparr>api_base_url := ''n''\<rparr>)])
       else if t = ''C'' then Some (catalog_to_json (empty_catalog\<lparr>catalog_id := ''c'', catalog_layers := [empty_layer\<lparr>layer_id := ''l'', layer_ttl := Some 1000\<rparr>]\<rparr>))
       else None)\<rparr>"

definition script_call :: "int \<Rightarrow> nat api_call" where
  "script_call status client path verb query headers body content n =
     (if take 2 path = ''/r'' \<or> take 2 path = ''/p'' then (\<lparr>resp_status = 200, resp_body = ''A''\<rparr>, n + 1)
      else if take 2 path = ''/c'' then (\<lparr>resp_status = status, resp_body = ''C''\<rparr>, n + 1)
      else if path = ''/layers/l/partitions''
      then (if query \<noteq> [] \<and> fst (hd query) = ''partition'' then (\<lparr>resp_status = status, resp_body = ''1''\<rparr>, n + 1)
            else (\<lparr>resp_status = 200, resp_body = ''P''\<rparr>, n + 1))
      else (\<lparr>resp_status = 200, resp_body = replicate n CHR ''x''\<rparr>, n + 1))"

definition script_env :: "int \<Rightarrow> (read_value ideal_cache, nat) read_env" where
  "script_env status = \<lparr>env_json = script_json, env_cache = ideal_kv, env_call = script_call status,
     env_settings = \<lparr>retry_settings_of = default_retry_settings, proxy_settings_of = None, authentication_of = None\<rparr>,
     env_cancelled = (\<lambda>_. False)\<rparr>"

abbreviation (input) catalog_c :: hrn where
  "catalog_c \<equiv> empty_hrn\<lparr>partition_of := ''here'', service := DataService, catalogId := ''c''\<rparr>"

abbreviation (input) partitions_at_5 :: "fetch_options \<Rightarrow> partitions_request" where
  "partitions_at_5 opt \<equiv> \<lparr>pr_version = Some 5, pr_billing_tag = None, pr_fetch_option = opt\<rparr>"

abbreviation (input) names :: "(partitions, 's, 'n) read_result \<Rightarrow> (string list option \<times> 'n) option" where
  "names r \<equiv> map_option (\<lambda>(r, s, n). (case r of Inr ps \<Rightarrow> Some (map partition_partition (partitions_list ps)) | Inl _ \<Rightarrow> None, n)) r"

text \<open>The states after the partitions were listed, and after the partition \<open>1\<close> was refused.\<close>

definition listed :: "read_value ideal_cache \<times> nat" where
  "listed = snd (the (get_versioned_partitions (script_env 403) catalog_c ''l'' (partitions_at_5 OnlineIfNotFound) ((0, []), 0)))"

definition refused :: "read_value ideal_cache \<times> nat" where
  "refused = snd (the (get_versioned_data (script_env 403) catalog_c ''l''
     (new_data_request\<lparr>dr_partition_id := Some ''1'', dr_version := Some 5, dr_fetch_option := OnlineOnly\<rparr>) listed))"

text \<open>
  a refused partition spoils the list of its layer. After the partitions \<open>1\<close> and \<open>10\<close> of a version have
  been listed, the service refuses the data of \<open>1\<close>. From then on the list is answered from the cache, as a
  success and without a request, but empty: the entry of \<open>1\<close> is gone, and that of \<open>10\<close> with it, since it
  is removed by the prefix \<open>1\<close>, while the list of the names stays and names without an entry are left out.
\<close>

theorem refused_partition_spoils_list:
  "names (get_versioned_partitions (script_env 403) catalog_c ''l'' (partitions_at_5 CacheOnly) listed) = Some (Some [''1'', ''10''], 2) \<and>
   snd refused = 4 \<and>
   names (get_versioned_partitions (script_env 403) catalog_c ''l'' (partitions_at_5 OnlineIfNotFound) refused) = Some (Some [], 4)"
  by code_simp

abbreviation (input) found :: "('a, 's, 'n) read_result \<Rightarrow> bool option" where
  "found r \<equiv> map_option (is_successful \<circ> fst) r"

abbreviation (input) catalog_with :: "fetch_options \<Rightarrow> catalog_request" where
  "catalog_with opt \<equiv> \<lparr>cr_billing_tag = None, cr_fetch_option = opt\<rparr>"

text \<open>The state after the catalog \<open>c2\<close> was fetched, and after the catalog \<open>c\<close> was refused.\<close>

definition fetched_c2 :: "read_value ideal_cache \<times> nat" where
  "fetched_c2 = snd (the (get_catalog (script_env 200) (catalog_c\<lparr>catalogId := ''c2''\<rparr>) (catalog_with OnlineIfNotFound) ((0, []), 0)))"

definition refused_c :: "read_value ideal_cache \<times> nat" where
  "refused_c = snd (the (get_catalog (script_env 403) catalog_c (catalog_with OnlineOnly) fetched_c2))"

text \<open>
  a refused catalog clears the catalogs whose names extend its name. The cached configuration of \<open>c2\<close> is
  gone after the service has refused \<open>c\<close>.
\<close>

theorem refused_catalog_clears_others:
  "found (get_catalog (script_env 200) (catalog_c\<lparr>catalogId := ''c2''\<rparr>) (catalog_with CacheOnly) fetched_c2) = Some True \<and>
   found (get_catalog (script_env 200) (catalog_c\<lparr>catalogId := ''c2''\<rparr>) (catalog_with CacheOnly) refused_c) = Some False"
  by code_simp

text \<open>The state after the data of a volatile layer was read, at the given later time.\<close>

definition volatile_read :: "int \<Rightarrow> read_value ideal_cache \<times> nat" where
  "volatile_read t =
     (let sn = snd (the (get_volatile_data (script_env 200) catalog_c ''l'' (new_data_request\<lparr>dr_partition_id := Some ''1''\<rparr>) ((0, []), 0)))
      in ((t, snd (fst sn)), snd sn))"

text \<open>
  the data of a volatile layer is cached for ever: the time to live of the layer is not consulted for it.
  Eleven days after a partition was read, its data is answered from the cache without a request, while the
  service has other data by then.
\<close>

theorem volatile_data_never_expires:
  "map_option (map_prod id snd) (get_volatile_data (script_env 200) catalog_c ''l''
     (new_data_request\<lparr>dr_partition_id := Some ''1''\<rparr>) (volatile_read 1000000)) = Some (Inr ''xxx'', 4) \<and>
   map_option (map_prod id snd) (get_volatile_data (script_env 200) catalog_c ''l''
     (new_data_request\<lparr>dr_partition_id := Some ''1'', dr_fetch_option := OnlineOnly\<rparr>) (volatile_read 1000000)) = Some (Inr ''xxxxxxx'', 8)"
  by code_simp

end
