(* ===== verification/ReadClients.thy ===== *)
theory ReadClients
  imports ReadPrefetch ReadScenarios TaskContext
begin

text \<open>
  The clients of the read service: \<open>src/Common.h\<close>, \<open>CatalogClientImpl.cpp\<close>, \<open>VersionedLayerClientImpl.cpp\<close>,
  \<open>VolatileLayerClientImpl.cpp\<close> and \<open>StreamLayerClientImpl.cpp\<close>.

  Every operation of a client becomes a task whose response goes to the callback of the user. A task is here
  what \<open>TaskContext::Execute\<close> does when it runs to its end; that it does so once, whatever is cancelled
  meanwhile, is the subject of the theory of tasks.
\<close>

section \<open>Scheduling\<close>

text \<open>\<open>cancelled\<close> tells whether the context of the task is cancelled when the network is in a state.\<close>

definition run_task ::
  "('n \<Rightarrow> bool) \<Rightarrow> ('s \<times> 'n \<Rightarrow> ('a, 's, 'n) read_result) \<Rightarrow> 's \<times> 'n \<Rightarrow> ('a, 's, 'n) read_result" where
  "run_task cancelled f sn =
     (if cancelled (snd sn) then Some (cancelled_response, sn)
      else do { (r, sn) \<leftarrow> f sn; Some (keep_response (cancelled (snd sn)) r, sn) })"

text \<open>The tasks of a request: the request each one is made with and whether it has the callback of the user.\<close>

definition schedule_fetch :: "('q \<Rightarrow> fetch_options) \<Rightarrow> (fetch_options \<Rightarrow> 'q \<Rightarrow> 'q) \<Rightarrow> 'q \<Rightarrow> ('q \<times> bool) list" where
  "schedule_fetch get_fetch_option with_fetch_option request =
     (if get_fetch_option request = CacheWithUpdate
      then [(with_fetch_option CacheOnly request, True), (with_fetch_option OnlineOnly request, False)]
      else [(request, True)])"

text \<open>
  Without a scheduler, or with one thread, the tasks run in the order in which they are scheduled. The answers
  are the calls of the callback.
\<close>

fun run_tasks ::
  "('n \<Rightarrow> bool) \<Rightarrow> ('q \<Rightarrow> 's \<times> 'n \<Rightarrow> ('a, 's, 'n) read_result) \<Rightarrow> ('q \<times> bool) list \<Rightarrow> 's \<times> 'n \<Rightarrow>
   ('a api_response list \<times> 's \<times> 'n) option" where
  "run_tasks cancelled f [] sn = Some ([], sn)"
| "run_tasks cancelled f ((q, has_callback) # qs) sn = do {
     (r, sn) \<leftarrow> run_task cancelled (f q) sn;
     (rs, sn) \<leftarrow> run_tasks cancelled f qs sn;
     Some (if has_callback then r # rs else rs, sn) }"

section \<open>Catalog client\<close>

definition cc_client_get_catalog ::
  "('s, 'n) read_env \<Rightarrow> hrn \<Rightarrow> catalog_request \<Rightarrow> 's \<times> 'n \<Rightarrow> (catalog api_response list \<times> 's \<times> 'n) option" where
  "cc_client_get_catalog env cat request =
     run_tasks (env_cancelled env) (get_catalog env cat)
       (schedule_fetch cr_fetch_option (\<lambda>x. cr_fetch_option_update (\<lambda>_. x)) request)"

definition cc_client_get_latest_version ::
  "('s, 'n) read_env \<Rightarrow> hrn \<Rightarrow> catalog_version_request \<Rightarrow> 's \<times> 'n \<Rightarrow>
   (version_response api_response list \<times> 's \<times> 'n) option" where
  "cc_client_get_latest_version env cat request =
     run_tasks (env_cancelled env) (get_latest_version env cat)
       (schedule_fetch cvr_fetch_option (\<lambda>x. cvr_fetch_option_update (\<lambda>_. x)) request)"

section \<open>Layer clients\<close>

definition versioned_client_get_partitions ::
  "('s, 'n) read_env \<Rightarrow> hrn \<Rightarrow> string \<Rightarrow> partitions_request \<Rightarrow> 's \<times> 'n \<Rightarrow>
   (partitions api_response list \<times> 's \<times> 'n) option" where
  "versioned_client_get_partitions env cat lid request =
     run_tasks (env_cancelled env) (get_versioned_partitions env cat lid)
       (schedule_fetch pr_fetch_option (\<lambda>x. pr_fetch_option_update (\<lambda>_. x)) request)"

definition versioned_client_get_data ::
  "('s, 'n) read_env \<Rightarrow> hrn \<Rightarrow> string \<Rightarrow> data_request \<Rightarrow> 's \<times> 'n \<Rightarrow> (string api_response list \<times> 's \<times> 'n) option" where
  "versioned_client_get_data env cat lid request =
     run_tasks (env_cancelled env) (get_versioned_data env cat lid)
       (schedule_fetch dr_fetch_option (\<lambda>x. dr_fetch_option_update (\<lambda>_. x)) request)"

definition volatile_client_get_partitions ::
  "('s, 'n) read_env \<Rightarrow> hrn \<Rightarrow> string \<Rightarrow> partitions_request \<Rightarrow> 's \<times> 'n \<Rightarrow>
   (partitions api_response list \<times> 's \<times> 'n) option" where
  "volatile_client_get_partitions env cat lid request =
     run_tasks (env_cancelled env) (get_volatile_partitions env cat lid)
       (schedule_fetch pr_fetch_option (\<lambda>x. pr_fetch_option_update (\<lambda>_. x)) request)"

definition volatile_client_get_data ::
  "('s, 'n) read_env \<Rightarrow> hrn \<Rightarrow> string \<Rightarrow> data_request \<Rightarrow> 's \<times> 'n \<Rightarrow> (string api_response list \<times> 's \<times> 'n) option" where
  "volatile_client_get_data env cat lid request =
     run_tasks (env_cancelled env) (get_volatile_data env cat lid)
       (schedule_fetch dr_fetch_option (\<lambda>x. dr_fetch_option_update (\<lambda>_. x)) request)"

section \<open>Prefetching tiles\<close>

text \<open>
  The operation without a scheduler, where every added task runs at once. The task of the operation adds one
  task for every tile and a last one that collects the results and calls the callback. Each has a context of
  its own; \<open>inner i\<close> tells when the one of the \<open>i\<close>-th added task is cancelled.
\<close>

type_synonym prefetch_tile_result = "tile_key \<times> unit api_response"

definition prefetch_tile ::
  "('s, 'n) read_env \<Rightarrow> ('n \<Rightarrow> bool) \<Rightarrow> hrn \<Rightarrow> string \<Rightarrow> string option \<Rightarrow> tile_key \<times> string \<Rightarrow> 's \<times> 'n \<Rightarrow>
   (prefetch_tile_result \<times> 's \<times> 'n) option" where
  "prefetch_tile env cancelled cat lid billing_tag tile sn =
     (if cancelled (snd sn)
      then Some ((fst tile, Inl (api_error_of_code Cancelled ''Cancelled'' False)), sn)
      else do {
        (data, sn) \<leftarrow> get_versioned_data env cat lid
           (new_data_request\<lparr>dr_data_handle := Some (snd tile), dr_billing_tag := billing_tag\<rparr>) sn;
        Some ((fst tile, case data of Inl e \<Rightarrow> Inl e | Inr _ \<Rightarrow> Inr ()), sn) })"

fun prefetch_tiles_loop ::
  "('s, 'n) read_env \<Rightarrow> (nat \<Rightarrow> 'n \<Rightarrow> bool) \<Rightarrow> hrn \<Rightarrow> string \<Rightarrow> string option \<Rightarrow> nat \<Rightarrow> (tile_key \<times> string) list \<Rightarrow>
   's \<times> 'n \<Rightarrow> (prefetch_tile_result list \<times> 's \<times> 'n) option" where
  "prefetch_tiles_loop env inner cat lid billing_tag i [] sn = Some ([], sn)"
| "prefetch_tiles_loop env inner cat lid billing_tag i (tile # tiles) sn =
     (if env_cancelled env (snd sn) then Some ([], sn)
      else do {
        (r, sn) \<leftarrow> prefetch_tile env (inner i) cat lid billing_tag tile sn;
        (rs, sn) \<leftarrow> prefetch_tiles_loop env inner cat lid billing_tag (Suc i) tiles sn;
        Some (r # rs, sn) })"

text \<open>
  The response of the task, the calls of the callback made by the last added task, and the state after it.
\<close>

definition prefetch_tiles_task ::
  "nat \<Rightarrow> ('s, 'n) read_env \<Rightarrow> (nat \<Rightarrow> 'n \<Rightarrow> bool) \<Rightarrow> hrn \<Rightarrow> string \<Rightarrow> prefetch_tiles_request \<Rightarrow> 's \<times> 'n \<Rightarrow>
   (unit api_response \<times> prefetch_tile_result list api_response list \<times> 's \<times> 'n) option" where
  "prefetch_tiles_task fuel env inner cat lid request sn =
     (let failed = (\<lambda>e sn. Some (Inl e, [], sn));
          invalid = (\<lambda>text. failed (api_error_of_code InvalidArgument text False)) in
      if pt_tile_keys request = [] then invalid ''Empty tile key list'' sn
      else do {
        (version, sn) \<leftarrow>
          (case pt_catalog_version request of
             Some v \<Rightarrow> Some (Inr v, sn)
           | None \<Rightarrow> do {
               (response, sn) \<leftarrow> get_latest_version env cat
                  (new_catalog_version_request\<lparr>cvr_billing_tag := pt_billing_tag request\<rparr>) sn;
               Some (map_sum id response_version response, sn) });
        (case version of
           Inl e \<Rightarrow> failed e sn
         | Inr v \<Rightarrow>
             (let request = request\<lparr>pt_catalog_version := Some v\<rparr> in do {
                sub_quads \<leftarrow> effective_tile_keys_all fuel (pt_tile_keys request) (pt_min_level request) (pt_max_level request);
                (if sub_quads = [] then invalid ''TileKeys/levels mismatch'' sn
                 else do {
                   (sub_tiles, sn) \<leftarrow> get_sub_tiles env cat lid request sub_quads sn;
                   (case sub_tiles of
                      Inl e \<Rightarrow> failed e sn
                    | Inr tiles \<Rightarrow>
                        (if tiles = [] then invalid ''Subquads retrieval failed'' sn
                         else do {
                           (results, sn) \<leftarrow> prefetch_tiles_loop env inner cat lid (pt_billing_tag request) 0 tiles sn;
                           (answer, sn) \<leftarrow> run_task (inner (length results)) (\<lambda>sn. Some (Inr results, sn)) sn;
                           Some (Inr (), [answer], sn) })) }) })) })"

text \<open>All calls of the callback; the one of the operation's task only passes on errors.\<close>

definition versioned_client_prefetch_tiles ::
  "nat \<Rightarrow> ('s, 'n) read_env \<Rightarrow> (nat \<Rightarrow> 'n \<Rightarrow> bool) \<Rightarrow> hrn \<Rightarrow> string \<Rightarrow> prefetch_tiles_request \<Rightarrow> 's \<times> 'n \<Rightarrow>
   (prefetch_tile_result list api_response list \<times> 's \<times> 'n) option" where
  "versioned_client_prefetch_tiles fuel env inner cat lid request sn =
     (if env_cancelled env (snd sn) then Some ([cancelled_response], sn)
      else do {
        (response, calls, sn) \<leftarrow> prefetch_tiles_task fuel env inner cat lid request sn;
        (case keep_response (env_cancelled env (snd sn)) response of
           Inl e \<Rightarrow> Some (calls @ [Inl e], sn)
         | Inr _ \<Rightarrow> Some (calls, sn)) })"

section \<open>Stream layer client\<close>

datatype subscription_mode = kSerial | kParallel

record subscribe_request =
  sr_subscription_mode :: subscription_mode
  sr_subscription_id :: "string option"
  sr_consumer_id :: "string option"
  sr_consumer_properties :: "consumer_options option"

definition get_subscription_mode :: "subscription_mode \<Rightarrow> string" where
  "get_subscription_mode mode = (if mode = kSerial then ''serial'' else ''parallel'')"

text \<open>\<open>client_context_\<close>: what the client knows of its subscription. The correlation id is never assigned.\<close>

record stream_layer_client_context =
  slc_subscription_id :: string
  slc_subscription_mode :: string
  slc_correlation_id :: string
  slc_client :: olp_client

type_synonym client_context = "stream_layer_client_context option"

definition already_subscribed :: api_error where
  "already_subscribed = api_error_of_code InvalidArgument ''Already subscribed'' False"

definition not_subscribed :: api_error where
  "not_subscribed = api_error_of_code PreconditionFailed ''Not subscribed'' False"

text \<open>\<open>Subscribe\<close> between its two locked sections.\<close>

definition open_subscription ::
  "('s, 'n) read_env \<Rightarrow> hrn \<Rightarrow> string \<Rightarrow> subscribe_request \<Rightarrow> 's \<times> 'n \<Rightarrow>
   (stream_layer_client_context, 's, 'n) read_result" where
  "open_subscription env cat lid request sn =
     (let mode = get_subscription_mode (sr_subscription_mode request) in do {
        (stream_api, s, n) \<leftarrow> lookup_api env cat ''stream'' ''v2'' OnlineIfNotFound sn;
        (case stream_api of
           Inl e \<Rightarrow> Some (Inl e, s, n)
         | Inr client \<Rightarrow> do {
             (subscription, n) \<leftarrow> stream_subscribe (env_json env) (env_call env) client lid (sr_subscription_id request)
                (Some mode) (sr_consumer_id request) (sr_consumer_properties request) n;
             Some (map_sum id (\<lambda>r.
               \<lparr>slc_subscription_id = subscribe_subscription_id r, slc_subscription_mode = mode, slc_correlation_id = [],
                slc_client = client_of (subscribe_node_base_url r) (env_settings env)\<rparr>) subscription, s, n) }) })"

definition slc_subscribe ::
  "('s, 'n) read_env \<Rightarrow> hrn \<Rightarrow> string \<Rightarrow> subscribe_request \<Rightarrow> client_context \<times> 's \<times> 'n \<Rightarrow>
   (string api_response \<times> client_context \<times> 's \<times> 'n) option" where
  "slc_subscribe env cat lid request csn =
     (case csn of (ctx, sn) \<Rightarrow>
        if ctx \<noteq> None then Some (Inl already_subscribed, ctx, sn)
        else do {
          (subscription, sn) \<leftarrow> open_subscription env cat lid request sn;
          (case subscription of
             Inl e \<Rightarrow> Some (Inl e, ctx, sn)
           | Inr c \<Rightarrow> Some (Inr (slc_subscription_id c), Some c, sn)) })"

definition slc_unsubscribe ::
  "('s, 'n) read_env \<Rightarrow> string \<Rightarrow> client_context \<times> 's \<times> 'n \<Rightarrow> (string api_response \<times> client_context \<times> 's \<times> 'n) option" where
  "slc_unsubscribe env lid csn =
     (case csn of (ctx, s, n) \<Rightarrow>
        (case ctx of
           None \<Rightarrow> Some (Inl not_subscribed, ctx, s, n)
         | Some c \<Rightarrow> do {
             (response, n) \<leftarrow> stream_delete_subscription (env_call env) (slc_client c) lid (slc_subscription_id c)
                (slc_subscription_mode c) (slc_correlation_id c) n;
             (case response of
                Inl e \<Rightarrow> Some (Inl e, ctx, s, n)
              | Inr _ \<Rightarrow> Some (Inr (slc_subscription_id c), None, s, n)) }))"

definition slc_get_data ::
  "('s, 'n) read_env \<Rightarrow> hrn \<Rightarrow> string \<Rightarrow> message \<Rightarrow> 's \<times> 'n \<Rightarrow> (string, 's, 'n) read_result" where
  "slc_get_data env cat lid message sn =
     (case metadata_data_handle (message_meta_data message) of
        None \<Rightarrow> Some (Inl (api_error_of_code InvalidArgument
          ''Data handle is missing in the message metadata. Please use embedded message data directly.'' False), sn)
      | Some handle \<Rightarrow> do {
          (blob_api, s, n) \<leftarrow> lookup_api env cat ''blob'' ''v1'' OnlineIfNotFound sn;
          (case blob_api of
             Inl e \<Rightarrow> Some (Inl e, s, n)
           | Inr client \<Rightarrow> do {
               (blob, n) \<leftarrow> get_blob (env_call env) client lid handle None None n;
               Some (blob, s, n) }) })"

text \<open>
  The offsets to commit: from the last message to the first into a set ordered by the partition, which keeps the
  first that comes for a partition.
\<close>

fun set_emplace :: "('a \<Rightarrow> 'a \<Rightarrow> bool) \<Rightarrow> 'a \<Rightarrow> 'a list \<Rightarrow> 'a list" where
  "set_emplace lt x [] = [x]"
| "set_emplace lt x (y # ys) =
     (if lt x y then x # y # ys else if lt y x then y # set_emplace lt x ys else y # ys)"

definition offset_less :: "stream_offset \<Rightarrow> stream_offset \<Rightarrow> bool" where
  "offset_less a b \<longleftrightarrow> offset_partition a < offset_partition b"

definition offsets_to_commit :: "message list \<Rightarrow> stream_offset list" where
  "offsets_to_commit ms = fold (set_emplace offset_less) (map message_offset (rev ms)) []"

definition slc_poll ::
  "('s, 'n) read_env \<Rightarrow> string \<Rightarrow> client_context \<times> 's \<times> 'n \<Rightarrow> (messages api_response \<times> client_context \<times> 's \<times> 'n) option" where
  "slc_poll env lid csn =
     (case csn of (ctx, s, n) \<Rightarrow>
        (case ctx of
           None \<Rightarrow> Some (Inl not_subscribed, ctx, s, n)
         | Some c \<Rightarrow> do {
             (data, n) \<leftarrow> stream_consume_data (env_json env) (env_call env) (slc_client c) lid
                (Some (slc_subscription_id c)) (Some (slc_subscription_mode c)) (slc_correlation_id c) n;
             (case data of
                Inl e \<Rightarrow> Some (Inl e, ctx, s, n)
              | Inr res \<Rightarrow>
                  (if messages_list res = [] then Some (Inr res, ctx, s, n)
                   else do {
                     (commit_res, n) \<leftarrow> stream_commit_offsets (env_json env) (env_call env) (slc_client c) lid
                        \<lparr>offsets_list = offsets_to_commit (messages_list res)\<rparr> (Some (slc_subscription_id c))
                        (Some (slc_subscription_mode c)) (slc_correlation_id c) n;
                     Some (map_sum id (\<lambda>_. res) commit_res, ctx, s, n) })) }))"

section \<open>The offsets of a poll\<close>

definition offsets_sorted :: "stream_offset list \<Rightarrow> bool" where
  "offsets_sorted os \<longleftrightarrow> sorted_wrt offset_less os"

lemma set_emplace_offsets:
  "offsets_sorted os \<Longrightarrow>
   offsets_sorted (set_emplace offset_less x os) \<and>
   set (set_emplace offset_less x os) =
     (if offset_partition x \<in> offset_partition ` set os then set os else insert x (set os))"
proof (induction os)
  case (Cons y os)
  then show ?case
    by (auto simp: offsets_sorted_def offset_less_def dest!: linorder_not_less [THEN iffD1] order.antisym split: if_splits)
qed (simp add: offsets_sorted_def)

lemma fold_set_emplace:
  "offsets_sorted os \<Longrightarrow>
   offsets_sorted (fold (set_emplace offset_less) xs os) \<and>
   (x \<in> set (fold (set_emplace offset_less) xs os) \<longleftrightarrow>
      x \<in> set os \<or> offset_partition x \<notin> offset_partition ` set os \<and>
        (\<exists>ys zs. xs = ys @ x # zs \<and> offset_partition x \<notin> offset_partition ` set ys))"
proof (induction xs arbitrary: os)
  case (Cons a xs)
  have IH: "offsets_sorted (fold (set_emplace offset_less) (a # xs) os)"
    "x \<in> set (fold (set_emplace offset_less) (a # xs) os) \<longleftrightarrow>
      x \<in> set (set_emplace offset_less a os) \<or>
        offset_partition x \<notin> offset_partition ` set (set_emplace offset_less a os) \<and>
        (\<exists>ys zs. xs = ys @ x # zs \<and> offset_partition x \<notin> offset_partition ` set ys)"
    using Cons.IH [of "set_emplace offset_less a os"] set_emplace_offsets [OF Cons.prems, of a] by auto
  have sp: "(\<exists>ys zs. a # xs = ys @ x # zs \<and> offset_partition x \<notin> offset_partition ` set ys) \<longleftrightarrow>
      a = x \<or> offset_partition x \<noteq> offset_partition a \<and>
        (\<exists>ys zs. xs = ys @ x # zs \<and> offset_partition x \<notin> offset_partition ` set ys)"
    (is "?l \<longleftrightarrow> ?r")
  proof
    show "?l \<Longrightarrow> ?r" by (auto simp: Cons_eq_append_conv)
    assume ?r
    then show ?l
    proof
      assume "a = x"
      then have "a # xs = [] @ x # xs" by simp
      then show ?l by fastforce
    next
      assume "offset_partition x \<noteq> offset_partition a \<and>
        (\<exists>ys zs. xs = ys @ x # zs \<and> offset_partition x \<notin> offset_partition ` set ys)"
      then obtain ys zs where "a # xs = (a # ys) @ x # zs" "offset_partition x \<notin> offset_partition ` set (a # ys)" by auto
      then show ?l by blast
    qed
  qed
  show ?case
    unfolding sp using IH set_emplace_offsets [OF Cons.prems, of a] by (auto split: if_splits)
qed simp

text \<open>
  a poll commits, for every partition that occurs in the messages and for no other, the offset of the last
  message of the partition; the offsets are sent in the order of the partitions, one for each.
\<close>

theorem poll_commits_last_offsets:
  "sorted_wrt (\<lambda>a b. offset_partition a < offset_partition b) (offsets_to_commit ms) \<and>
   (x \<in> set (offsets_to_commit ms) \<longleftrightarrow>
      (\<exists>xs m ys. ms = xs @ m # ys \<and> message_offset m = x \<and>
         offset_partition x \<notin> (offset_partition \<circ> message_offset) ` set ys))"
proof -
  have e: "offsets_sorted []" by (simp add: offsets_sorted_def)
  have "(\<exists>ys zs. map message_offset (rev ms) = ys @ x # zs \<and> offset_partition x \<notin> offset_partition ` set ys) \<longleftrightarrow>
      (\<exists>xs m ys. ms = xs @ m # ys \<and> message_offset m = x \<and>
         offset_partition x \<notin> (offset_partition \<circ> message_offset) ` set ys)" (is "?l \<longleftrightarrow> ?r")
  proof
    assume ?l
    then obtain us m vs where "rev ms = us @ m # vs" "message_offset m = x"
      "offset_partition x \<notin> offset_partition ` set (map message_offset us)"
      by (auto simp: map_eq_append_conv map_eq_Cons_conv)
    then have "ms = rev vs @ m # rev us" "message_offset m = x"
      "offset_partition x \<notin> (offset_partition \<circ> message_offset) ` set (rev us)"
      by (auto simp: rev_swap image_comp)
    then show ?r by blast
  next
    assume ?r
    then obtain xs m ys where r: "ms = xs @ m # ys" "message_offset m = x"
      "offset_partition x \<notin> (offset_partition \<circ> message_offset) ` set ys" by blast
    then have "map message_offset (rev ms) = map message_offset (rev ys) @ x # map message_offset (rev xs)"
      "offset_partition x \<notin> offset_partition ` set (map message_offset (rev ys))" by (auto simp: image_comp)
    then show ?l by blast
  qed
  then show ?thesis
    using fold_set_emplace [OF e, of "map message_offset (rev ms)" x]
    by (simp add: offsets_to_commit_def offsets_sorted_def offset_less_def [abs_def])
qed

section \<open>Subscriptions, one operation after the other\<close>

datatype stream_call = CallSubscribe subscribe_request | CallUnsubscribe | CallPoll

datatype stream_answer =
  AnsSubscribe "string api_response" | AnsUnsubscribe "string api_response" | AnsPoll "messages api_response"

fun stream_step ::
  "('s, 'n) read_env \<Rightarrow> hrn \<Rightarrow> string \<Rightarrow> client_context \<times> 's \<times> 'n \<Rightarrow> stream_call \<Rightarrow>
   ((client_context \<times> 's \<times> 'n) \<times> stream_answer) option" where
  "stream_step env cat lid csn (CallSubscribe request) =
     map_option (\<lambda>(r, csn). (csn, AnsSubscribe r)) (slc_subscribe env cat lid request csn)"
| "stream_step env cat lid csn CallUnsubscribe = map_option (\<lambda>(r, csn). (csn, AnsUnsubscribe r)) (slc_unsubscribe env lid csn)"
| "stream_step env cat lid csn CallPoll = map_option (\<lambda>(r, csn). (csn, AnsPoll r)) (slc_poll env lid csn)"

text \<open>The subscription that the answers so far have left, and the answers that are allowed with it.\<close>

fun subscription_after :: "stream_answer \<Rightarrow> string option \<Rightarrow> string option" where
  "subscription_after (AnsSubscribe (Inr sid)) cur = Some sid"
| "subscription_after (AnsUnsubscribe (Inr sid)) cur = None"
| "subscription_after _ cur = cur"

fun answer_allowed :: "string option \<Rightarrow> stream_answer \<Rightarrow> bool" where
  "answer_allowed cur (AnsSubscribe r) \<longleftrightarrow> (cur \<noteq> None \<longrightarrow> r = Inl already_subscribed)"
| "answer_allowed cur (AnsUnsubscribe r) \<longleftrightarrow>
     (cur = None \<longrightarrow> r = Inl not_subscribed) \<and> (\<forall>sid. r = Inr sid \<longrightarrow> cur = Some sid)"
| "answer_allowed cur (AnsPoll r) \<longleftrightarrow> (cur = None \<longrightarrow> r = Inl not_subscribed)"

fun answers_allowed :: "string option \<Rightarrow> stream_answer list \<Rightarrow> bool" where
  "answers_allowed cur [] \<longleftrightarrow> True"
| "answers_allowed cur (a # as) \<longleftrightarrow> answer_allowed cur a \<and> answers_allowed (subscription_after a cur) as"

abbreviation (input) known_subscription :: "client_context \<Rightarrow> string option" where
  "known_subscription ctx \<equiv> map_option slc_subscription_id ctx"

lemma slc_subscribe_step:
  "slc_subscribe env cat lid request (ctx, sn) = Some (r, ctx', sn') \<Longrightarrow>
   known_subscription ctx' = subscription_after (AnsSubscribe r) (known_subscription ctx) \<and>
   answer_allowed (known_subscription ctx) (AnsSubscribe r)"
  by (auto simp: slc_subscribe_def split: Option.bind_split_asm prod.split_asm if_split_asm sum.split_asm)

lemma slc_unsubscribe_step:
  "slc_unsubscribe env lid (ctx, s, n) = Some (r, ctx', sn') \<Longrightarrow>
   known_subscription ctx' = subscription_after (AnsUnsubscribe r) (known_subscription ctx) \<and>
   answer_allowed (known_subscription ctx) (AnsUnsubscribe r)"
  by (auto simp: slc_unsubscribe_def split: Option.bind_split_asm prod.split_asm option.split_asm sum.split_asm)

lemma slc_poll_step:
  "slc_poll env lid (ctx, s, n) = Some (r, ctx', sn') \<Longrightarrow>
   known_subscription ctx' = subscription_after (AnsPoll r) (known_subscription ctx) \<and>
   answer_allowed (known_subscription ctx) (AnsPoll r)"
  by (auto simp: slc_poll_def split: Option.bind_split_asm prod.split_asm option.split_asm sum.split_asm if_split_asm)

lemma stream_step_allowed:
  "stream_step env cat lid (ctx, s, n) c = Some ((ctx', sn'), a) \<Longrightarrow>
   known_subscription ctx' = subscription_after a (known_subscription ctx) \<and>
   answer_allowed (known_subscription ctx) a"
  by (cases c) (auto dest: slc_subscribe_step slc_unsubscribe_step slc_poll_step)

text \<open>
  C23: used by one thread, the stream layer client keeps track of its subscription. In every sequence of calls the
  answers are those of the protocol: a second subscription is refused, polling and unsubscribing without one
  are refused, unsubscribing answers the identifier that the last subscription answered; and what the client
  knows at the end is what the answers say.
\<close>

theorem stream_calls_follow_protocol:
  assumes "run_steps (stream_step env cat lid) (ctx, sn) calls = Some ((ctx', sn'), answers)"
  shows "answers_allowed (map_option slc_subscription_id ctx) answers \<and>
    map_option slc_subscription_id ctx' = fold subscription_after answers (map_option slc_subscription_id ctx)"
  using assms
proof (induction calls arbitrary: ctx sn answers)
  case (Cons c calls)
  obtain s n where sn: "sn = (s, n)" by (cases sn)
  obtain ctx1 sn1 a as where s1: "stream_step env cat lid (ctx, s, n) c = Some ((ctx1, sn1), a)"
    "run_steps (stream_step env cat lid) (ctx1, sn1) calls = Some ((ctx', sn'), as)" "answers = a # as"
    using Cons.prems by (auto simp: bind_eq_Some_conv sn)
  then show ?case using stream_step_allowed [OF s1(1)] Cons.IH [OF s1(2)] by simp
qed simp

text \<open>A platform with a stream: subscriptions are named by the number of requests before them.\<close>

definition stream_json :: json_lib where
  "stream_json = \<lparr>json_text = (\<lambda>_. []),
     json_parse = (\<lambda>t. if t = ''A'' then Some (JArray [api_to_json (empty_api\<lparr>api_base_url := ''n''\<rparr>)])
       else if t = ''M'' then Some (JObject [(''messages'', JArray
         [JObject [(''offset'', stream_offset_to_json \<lparr>offset_partition = 7, offset_offset = 4\<rparr>)]])])
       else Some (JObject [(''nodeBaseURL'', JString ''n''), (''subscriptionId'', JString t)]))\<rparr>"

definition stream_script :: "nat api_call" where
  "stream_script client path verb query headers body content n =
     (if take 2 path = ''/r'' then (\<lparr>resp_status = 200, resp_body = ''A''\<rparr>, n + 1)
      else if verb = ''POST'' then (\<lparr>resp_status = 201, resp_body = ''s'' @ replicate n CHR ''x''\<rparr>, n + 1)
      else (\<lparr>resp_status = 200, resp_body = ''M''\<rparr>, n + 1))"

definition stream_env :: "(read_value ideal_cache, nat) read_env" where
  "stream_env = \<lparr>env_json = stream_json, env_cache = ideal_kv, env_call = stream_script,
     env_settings = \<lparr>retry_settings_of = default_retry_settings, proxy_settings_of = None, authentication_of = None\<rparr>,
     env_cancelled = (\<lambda>_. False)\<rparr>"

abbreviation (input) any_subscription :: subscribe_request where
  "any_subscription \<equiv> \<lparr>sr_subscription_mode = kSerial, sr_subscription_id = None, sr_consumer_id = None, sr_consumer_properties = None\<rparr>"

definition stream_demo :: "stream_call list" where
  "stream_demo = [CallPoll, CallSubscribe any_subscription, CallPoll, CallSubscribe any_subscription, CallUnsubscribe, CallUnsubscribe]"

definition stream_demo_end :: "((client_context \<times> read_value ideal_cache \<times> nat) \<times> stream_answer list) option" where
  "stream_demo_end = run_steps (stream_step stream_env catalog_c ''l'') (None, (0, []), 0) stream_demo"

lemma stream_demo_runs:
  "map_option (\<lambda>(csn, answers). (snd (snd csn), map (\<lambda>a. case a of
       AnsSubscribe r \<Rightarrow> is_successful r | AnsUnsubscribe r \<Rightarrow> is_successful r | AnsPoll r \<Rightarrow> is_successful r) answers))
     stream_demo_end = Some (5, [False, True, True, False, True, False])"
  by code_simp

lemma stream_calls_follow_protocol_witness:
  "\<exists>ctx' sn' answers. stream_demo_end = Some ((ctx', sn'), answers) \<and>
     answers_allowed (map_option slc_subscription_id None) answers \<and>
     map_option slc_subscription_id ctx' = fold subscription_after answers (map_option slc_subscription_id None)"
proof -
  obtain ctx' sn' answers where e: "stream_demo_end = Some ((ctx', sn'), answers)"
    using stream_demo_runs by (cases stream_demo_end) auto
  then show ?thesis
    using stream_calls_follow_protocol [of stream_env catalog_c "''l''" None "((0, []), 0)" stream_demo]
    by (simp add: stream_demo_end_def)
qed

section \<open>Two threads that subscribe\<close>

text \<open>
  \<open>Subscribe\<close> locks the mutex twice: to look whether there is a subscription, and to store the new one. The
  steps of threads that subscribe, in every order.
\<close>

datatype subscribe_pc =
    Calling
  | Free
  | OpenedAs "stream_layer_client_context api_response"
  | Answered "string api_response"

record ('s, 'n) stream_system =
  sys_context :: client_context
  sys_world :: "'s \<times> 'n"
  sys_thread :: "nat \<Rightarrow> subscribe_pc"

inductive subscribe_step ::
  "('s, 'n) read_env \<Rightarrow> hrn \<Rightarrow> string \<Rightarrow> (nat \<Rightarrow> subscribe_request) \<Rightarrow> ('s, 'n) stream_system \<Rightarrow> ('s, 'n) stream_system \<Rightarrow> bool"
  for env cat lid requests where
  found_subscribed: "sys_thread y i = Calling \<Longrightarrow> sys_context y \<noteq> None \<Longrightarrow>
    subscribe_step env cat lid requests y (y\<lparr>sys_thread := (sys_thread y)(i := Answered (Inl already_subscribed))\<rparr>)"
| found_free: "sys_thread y i = Calling \<Longrightarrow> sys_context y = None \<Longrightarrow>
    subscribe_step env cat lid requests y (y\<lparr>sys_thread := (sys_thread y)(i := Free)\<rparr>)"
| asks_service: "sys_thread y i = Free \<Longrightarrow>
    open_subscription env cat lid (requests i) (sys_world y) = Some (r, sn) \<Longrightarrow>
    subscribe_step env cat lid requests y (y\<lparr>sys_world := sn, sys_thread := (sys_thread y)(i := OpenedAs r)\<rparr>)"
| stores: "sys_thread y i = OpenedAs (Inr c) \<Longrightarrow>
    subscribe_step env cat lid requests y
      (y\<lparr>sys_context := Some c, sys_thread := (sys_thread y)(i := Answered (Inr (slc_subscription_id c)))\<rparr>)"
| passes_error: "sys_thread y i = OpenedAs (Inl e) \<Longrightarrow>
    subscribe_step env cat lid requests y (y\<lparr>sys_thread := (sys_thread y)(i := Answered (Inl e))\<rparr>)"

text \<open>
  two threads that subscribe at the same time lose a subscription. When the service grants both requests, there
  is an order of the steps in which both calls succeed, with the subscriptions that the service opened, while
  the client keeps only the second: the first is never polled and never deleted by it.
\<close>

theorem concurrent_subscribe_loses_subscription:
  assumes "open_subscription env cat lid (requests 0) sn = Some (Inr c0, sn1)"
    and "open_subscription env cat lid (requests 1) sn1 = Some (Inr c1, sn2)"
  shows "\<exists>y. (subscribe_step env cat lid requests)\<^sup>*\<^sup>*
      \<lparr>sys_context = None, sys_world = sn, sys_thread = \<lambda>_. Calling\<rparr> y \<and>
    sys_thread y 0 = Answered (Inr (slc_subscription_id c0)) \<and> sys_thread y 1 = Answered (Inr (slc_subscription_id c1)) \<and>
    sys_context y = Some c1 \<and> sys_world y = sn2"
proof -
  let ?T = "\<lambda>a b. (\<lambda>_. Calling)(0 := a, 1 := b)"
  let ?Y = "\<lambda>c w a b. \<lparr>sys_context = c, sys_world = w, sys_thread = ?T a b\<rparr>"
  let ?S = "subscribe_step env cat lid requests"
  have 1: "?S (?Y None sn Calling Calling) (?Y None sn Free Calling)"
    using found_free [of "?Y None sn Calling Calling" 0] by (simp add: fun_upd_twist)
  have 2: "?S (?Y None sn Free Calling) (?Y None sn Free Free)"
    using found_free [of "?Y None sn Free Calling" 1] by simp
  have 3: "?S (?Y None sn Free Free) (?Y None sn1 (OpenedAs (Inr c0)) Free)"
    using asks_service [of "?Y None sn Free Free" 0 env cat lid requests "Inr c0" sn1] assms(1) by (simp add: fun_upd_twist)
  have 4: "?S (?Y None sn1 (OpenedAs (Inr c0)) Free) (?Y None sn2 (OpenedAs (Inr c0)) (OpenedAs (Inr c1)))"
    using asks_service [of "?Y None sn1 (OpenedAs (Inr c0)) Free" 1 env cat lid requests "Inr c1" sn2] assms(2) by simp
  have 5: "?S (?Y None sn2 (OpenedAs (Inr c0)) (OpenedAs (Inr c1)))
      (?Y (Some c0) sn2 (Answered (Inr (slc_subscription_id c0))) (OpenedAs (Inr c1)))"
    using stores [of "?Y None sn2 (OpenedAs (Inr c0)) (OpenedAs (Inr c1))" 0 c0] by (simp add: fun_upd_twist)
  have 6: "?S (?Y (Some c0) sn2 (Answered (Inr (slc_subscription_id c0))) (OpenedAs (Inr c1)))
      (?Y (Some c1) sn2 (Answered (Inr (slc_subscription_id c0))) (Answered (Inr (slc_subscription_id c1))))"
    using stores [of "?Y (Some c0) sn2 (Answered (Inr (slc_subscription_id c0))) (OpenedAs (Inr c1))" 1 c1] by simp
  have "?Y None sn Calling Calling = \<lparr>sys_context = None, sys_world = sn, sys_thread = \<lambda>_. Calling\<rparr>"
    by (simp add: fun_eq_iff)
  with 1 2 3 4 5 6 have "?S\<^sup>*\<^sup>* \<lparr>sys_context = None, sys_world = sn, sys_thread = \<lambda>_. Calling\<rparr>
      (?Y (Some c1) sn2 (Answered (Inr (slc_subscription_id c0))) (Answered (Inr (slc_subscription_id c1))))"
    by (metis (no_types, lifting) converse_rtranclp_into_rtranclp rtranclp.rtrancl_refl)
  then show ?thesis by (intro exI conjI) (assumption, simp_all)
qed


lemma stream_script_opens:
  "map_option (\<lambda>(r, sn). (map_sum id slc_subscription_id r, snd sn)) (open_subscription stream_env catalog_c ''l'' any_subscription ((0, []), 0))
     = Some (Inr ''sx'', 2)"
  "map_option (\<lambda>(r, sn). (map_sum id slc_subscription_id r, snd sn)) (open_subscription stream_env catalog_c ''l'' any_subscription
     (snd (the (open_subscription stream_env catalog_c ''l'' any_subscription ((0, []), 0))))) = Some (Inr ''sxx'', 3)"
  by code_simp+

lemma success_of:
  assumes "map_option (\<lambda>(r, sn). (map_sum id f r, g sn)) x = Some (Inr a, b)"
  shows "\<exists>c sn. x = Some (Inr c, sn) \<and> f c = a \<and> g sn = b"
proof -
  obtain r sn where "x = Some (r, sn)" "map_sum id f r = Inr a" "g sn = b" using assms by auto
  then show ?thesis by (cases r) auto
qed

lemma concurrent_subscribe_loses_subscription_witness:
  "\<exists>y. (subscribe_step stream_env catalog_c ''l'' (\<lambda>_. any_subscription))\<^sup>*\<^sup>*
      \<lparr>sys_context = None, sys_world = ((0, []), 0), sys_thread = \<lambda>_. Calling\<rparr> y \<and>
    sys_thread y 0 = Answered (Inr ''sx'') \<and> sys_thread y 1 = Answered (Inr ''sxx'') \<and>
    map_option slc_subscription_id (sys_context y) = Some ''sxx''"
proof -
  let ?open = "open_subscription stream_env catalog_c ''l'' any_subscription"
  obtain c0 sn1 where 0: "?open ((0, []), 0) = Some (Inr c0, sn1)" "slc_subscription_id c0 = ''sx''"
    using success_of [OF stream_script_opens(1)] by blast
  then obtain c1 sn2 where 1: "?open sn1 = Some (Inr c1, sn2)" "slc_subscription_id c1 = ''sxx''"
    using success_of [OF stream_script_opens(2)] by auto
  show ?thesis
    using concurrent_subscribe_loses_subscription [of stream_env catalog_c "''l''" "\<lambda>_. any_subscription", OF 0(1) 1(1)] 0(2) 1(2)
    by auto
qed

section \<open>The callback of a prefetch\<close>

lemma prefetch_tiles_task_calls:
  "prefetch_tiles_task fuel env inner cat lid request sn = Some (r, calls, sn') \<Longrightarrow>
   (\<exists>e. r = Inl e \<and> calls = []) \<or> (\<exists>answer. r = Inr () \<and> calls = [answer])"
  by (auto simp: prefetch_tiles_task_def Let_def split: if_split_asm Option.bind_split_asm prod.split_asm sum.split_asm)

lemma keep_response_cases: "keep_response b r = r \<or> b \<and> keep_response b r = cancelled_response"
  by (auto simp: keep_response_def)

text \<open>
  the callback of a prefetch is called once, as long as its context is not cancelled by the time its task
  ends; otherwise it may be called twice, the second time with the cancellation.
\<close>

theorem prefetch_callback_count:
  assumes "versioned_client_prefetch_tiles fuel env inner cat lid request sn = Some (calls, sn')"
  shows "(\<not> env_cancelled env (snd sn') \<longrightarrow> length calls = 1) \<and>
    (length calls = 1 \<or> length calls = 2 \<and> calls ! 1 = cancelled_response \<and> env_cancelled env (snd sn'))"
proof (cases "env_cancelled env (snd sn)")
  case True
  then show ?thesis using assms by (auto simp: versioned_client_prefetch_tiles_def)
next
  case False
  then obtain r cs where t: "prefetch_tiles_task fuel env inner cat lid request sn = Some (r, cs, sn')"
    and c: "calls = (case keep_response (env_cancelled env (snd sn')) r of Inl e \<Rightarrow> cs @ [Inl e] | Inr _ \<Rightarrow> cs)"
    using assms False by (simp add: versioned_client_prefetch_tiles_def split: Option.bind_split_asm prod.split_asm sum.split_asm)
  then show ?thesis
    using prefetch_tiles_task_calls [OF t] keep_response_cases [of "env_cancelled env (snd sn')" r]
    by (auto simp: cancelled_response_def split: sum.splits)
qed

text \<open>The bound of \<open>strtoull\<close> as a binary number, to evaluate it.\<close>

lemma strtoull_code [code]:
  "strtoull s =
     (let s = dropWhile is_space s;
          negative = (s \<noteq> [] \<and> hd s = CHR ''-'');
          s = (if s \<noteq> [] \<and> (hd s = CHR ''-'' \<or> hd s = CHR ''+'') then tl s else s);
          n = int (digits_value (takeWhile is_digit s))
      in if 18446744073709551616 \<le> n then 18446744073709551615
         else if negative then - word_of_int n else word_of_int n)"
proof -
  have "(2 :: nat) ^ 64 \<le> n \<longleftrightarrow> 18446744073709551616 \<le> int n" for n by simp
  then show ?thesis by (simp add: strtoull_def Let_def)
qed

definition tile_json :: json_lib where
  "tile_json = \<lparr>json_text = (\<lambda>_. []),
     json_parse = (\<lambda>t. if t = ''A'' then Some (JArray [api_to_json (empty_api\<lparr>api_base_url := ''n''\<rparr>)])
       else Some (JObject [(''subQuads'', JArray [JObject [(''subQuadKey'', JString ''1''), (''dataHandle'', JString ''h''), (''version'', JInt 5)]]),
                           (''parentQuads'', JArray [])]))\<rparr>"

definition tile_script :: "nat api_call" where
  "tile_script client path verb query headers body content n =
     (\<lparr>resp_status = 200, resp_body = (if take 2 path = ''/r'' then ''A'' else ''q'')\<rparr>, n + 1)"

text \<open>The environment in which the context is cancelled after the given number of requests.\<close>

definition tile_env :: "nat \<Rightarrow> (read_value ideal_cache, nat) read_env" where
  "tile_env limit = \<lparr>env_json = tile_json, env_cache = ideal_kv, env_call = tile_script,
     env_settings = \<lparr>retry_settings_of = default_retry_settings, proxy_settings_of = None, authentication_of = None\<rparr>,
     env_cancelled = (\<lambda>n. limit \<le> n)\<rparr>"

abbreviation (input) one_tile :: prefetch_tiles_request where
  "one_tile \<equiv> new_prefetch_tiles_request\<lparr>pt_tile_keys := [\<lparr>row = 5, column = 2, level = 3\<rparr>], pt_min_level := 3, pt_max_level := 3,
     pt_catalog_version := Some 5\<rparr>"

definition prefetch_one_tile :: "nat \<Rightarrow> (prefetch_tile_result list api_response list \<times> read_value ideal_cache \<times> nat) option" where
  "prefetch_one_tile limit = versioned_client_prefetch_tiles 1 (tile_env limit) (\<lambda>_ _. False) catalog_c ''l'' one_tile ((0, []), 0)"

text \<open>
  a prefetch that is cancelled while its last tile is downloaded calls the callback twice: once with the
  tiles, all of them fetched, and once with the cancellation. (The variant that returns a future sets its
  promise twice, which throws.) Without the cancellation there is one call.
\<close>

theorem prefetch_cancelled_late_calls_back_twice:
  "map_option (map (map_sum error_code_of id) \<circ> fst) (prefetch_one_tile 4) =
     Some [Inr [(\<lparr>row = 5, column = 2, level = 3\<rparr>, Inr ())], Inl Cancelled] \<and>
   map_option (map (map_sum error_code_of id) \<circ> fst) (prefetch_one_tile 5) =
     Some [Inr [(\<lparr>row = 5, column = 2, level = 3\<rparr>, Inr ())]]"
  by code_simp

lemma prefetch_callback_count_witness:
  "\<exists>calls sn'. prefetch_one_tile 4 = Some (calls, sn') \<and> (\<not> env_cancelled (tile_env 4) (snd sn') \<longrightarrow> length calls = 1) \<and>
    (length calls = 1 \<or> length calls = 2 \<and> calls ! 1 = cancelled_response \<and> env_cancelled (tile_env 4) (snd sn'))"
proof -
  have "prefetch_one_tile 4 \<noteq> None" by code_simp
  then obtain calls sn' where "prefetch_one_tile 4 = Some (calls, sn')" by auto
  then show ?thesis
    using prefetch_callback_count [of 1 "tile_env 4" "\<lambda>_ _. False" catalog_c "''l''" one_tile "((0, []), 0)" calls sn']
    by (simp add: prefetch_one_tile_def)
qed

end
