(* ===== verification/ReadOffline.thy ===== *)
theory ReadOffline
  imports ReadClients
begin

text \<open>
  What a prefetch leaves in the cache: on a cache that forgets nothing, every tile that it reports as fetched is
  readable without the network.
\<close>

section \<open>Keys\<close>

lemma offline_partition_key_inj: "partition_key hrn lid a (Some v) = partition_key hrn lid b (Some v) \<longleftrightarrow> a = b"
  by (simp add: partition_key_def)

lemma offline_data_key_inj: "data_key hrn lid a = data_key hrn lid b \<longleftrightarrow> a = b"
  by (simp add: data_key_def)

lemma last_of_keys:
  "last (partition_key hrn lid a (Some v)) = CHR ''n''" "last (data_key hrn lid h) = CHR ''a''"
  "last (api_key hrn serv ver) = CHR ''i''" "last (version_key hrn) = CHR ''n''"
  by (simp_all add: partition_key_def data_key_def api_key_def version_key_def)

lemma last_neq: "last a \<noteq> last b \<Longrightarrow> a \<noteq> b"
  by blast

lemma keys_differ:
  "partition_key hrn lid a (Some v) \<noteq> data_key hrn' lid' h" "data_key hrn' lid' h \<noteq> partition_key hrn lid a (Some v)"
  "partition_key hrn lid a (Some v) \<noteq> api_key hrn' serv ver" "api_key hrn' serv ver \<noteq> partition_key hrn lid a (Some v)"
  "data_key hrn lid h \<noteq> api_key hrn' serv ver" "api_key hrn' serv ver \<noteq> data_key hrn lid h"
  by (rule last_neq, simp only: last_of_keys, simp)+

section \<open>Operations on the ideal cache\<close>

text \<open>\<open>keeps K s s'\<close>: the entries of the keys in \<open>K\<close> are in \<open>s'\<close> what they were in \<open>s\<close>.\<close>

definition keeps :: "string set \<Rightarrow> read_value ideal_cache \<Rightarrow> read_value ideal_cache \<Rightarrow> bool" where
  "keeps K s s' \<longleftrightarrow> (\<forall>k \<in> K. ideal_get k s' = ideal_get k s)"

lemma keeps_refl [simp]: "keeps K s s"
  by (simp add: keeps_def)

lemma keeps_trans: "keeps K s s1 \<Longrightarrow> keeps K s1 s2 \<Longrightarrow> keeps K s s2"
  by (simp add: keeps_def)

lemma ideal_ops:
  "kv_get ideal_kv k d s = Some (ideal_get k s, s)"
  "kv_put ideal_kv k v enc e s = Some (True, ideal_put k v e s)"
  "kv_put_bytes ideal_kv k b e s = Some (True, ideal_put k (Some (Bytes b)) e s)"
  by (simp_all add: ideal_kv_def)

lemma default_expiry_positive: "0 < kDefaultExpiry"
  by (simp add: kExpiryMax_def)

lemma api_get_ideal: "api_get ideal_kv h serv ver s = Some (x, s1) \<Longrightarrow> s1 = s"
  by (auto simp: api_get_def get_as_def ideal_ops split: option.split_asm Option.bind_split_asm)

lemma api_put_ideal: "api_put ideal_kv h serv ver u s = Some s1 \<Longrightarrow> api_key h serv ver \<notin> K \<Longrightarrow> keeps K s s1"
  by (auto simp: api_put_def ideal_ops keeps_def ideal_get_put)

lemma lookup_api_keeps:
  assumes "env_cache env = ideal_kv" and "\<And>k. k \<in> K \<Longrightarrow> last k \<noteq> CHR ''i''"
    and "lookup_api env cat serv ver opt (s, n) = Some (r, s', n')"
  shows "keeps K s s'"
proof -
  have k: "api_key h serv ver \<notin> K" for h serv ver using assms(2) last_of_keys(3) by blast
  show ?thesis
    using assms(3) unfolding lookup_api_def assms(1)
    by (auto simp: Let_def dest!: api_get_ideal dest: api_put_ideal [OF _ k]
        split: if_split_asm option.split_asm sum.split_asm list.split_asm prod.split_asm Option.bind_split_asm)
qed

section \<open>What the phases of a prefetch leave\<close>

abbreviation (input) partition_keys :: "string \<Rightarrow> string \<Rightarrow> int \<Rightarrow> string set" where
  "partition_keys hrn lid v \<equiv> range (\<lambda>pid. partition_key hrn lid pid (Some v))"

abbreviation (input) data_keys :: "string \<Rightarrow> string \<Rightarrow> string set" where
  "data_keys hrn lid \<equiv> range (data_key hrn lid)"

lemma put_partitions_ideal:
  "put_partitions j ideal_kv hrn (Some v) lid e ps s = Some s' \<Longrightarrow> 0 < e \<Longrightarrow>
   (\<exists>p \<in> set ps. partition_partition p = pid \<and>
      ideal_get (partition_key hrn lid pid (Some v)) s' = Some (Typed (VPartition p))) \<or>
   pid \<notin> partition_partition ` set ps \<and>
     ideal_get (partition_key hrn lid pid (Some v)) s' = ideal_get (partition_key hrn lid pid (Some v)) s"
proof (induction ps arbitrary: s)
  case (Cons p ps)
  let ?s1 = "ideal_put (partition_key hrn lid (partition_partition p) (Some v)) (Some (Typed (VPartition p))) e s"
  have "put_partitions j ideal_kv hrn (Some v) lid e ps ?s1 = Some s'" using Cons.prems(1) by (simp add: ideal_ops)
  from Cons.IH [OF this Cons.prems(2)] show ?case
    using Cons.prems(2) by (auto simp: ideal_get_put offline_partition_key_inj)
qed simp

text \<open>The partition that is cached for a tile names a data handle of the result.\<close>

definition located :: "string \<Rightarrow> string \<Rightarrow> int \<Rightarrow> sub_quads_result \<Rightarrow> read_value ideal_cache \<Rightarrow> string \<Rightarrow> bool" where
  "located hrn lid v result s pid \<longleftrightarrow>
     (\<exists>p t. ideal_get (partition_key hrn lid pid (Some v)) s = Some (Typed (VPartition p)) \<and>
        (t, partition_data_handle p) \<in> set result \<and> to_here_tile t = pid)"

lemma located_mono:
  "located hrn lid v result s pid \<Longrightarrow> set result \<subseteq> set result' \<Longrightarrow> keeps (partition_keys hrn lid v) s s' \<Longrightarrow>
   located hrn lid v result' s' pid"
  by (auto simp: located_def keeps_def)

lemma get_sub_quads_locates:
  assumes kv: "env_cache env = ideal_kv" and run: "get_sub_quads env cat lid v bt tile d (s, n) = Some (r, s', n')"
  shows "(\<forall>e. r = Inl e \<longrightarrow> keeps (partition_keys (to_catalog_hrn_string cat) lid v) s s') \<and>
    (\<forall>res pid. r = Inr res \<longrightarrow>
       located (to_catalog_hrn_string cat) lid v res s' pid \<or>
       pid \<notin> to_here_tile ` fst ` set res \<and>
         ideal_get (partition_key (to_catalog_hrn_string cat) lid pid (Some v)) s' =
         ideal_get (partition_key (to_catalog_hrn_string cat) lid pid (Some v)) s)"
proof -
  let ?K = "partition_keys (to_catalog_hrn_string cat) lid v"
  have K: "last k \<noteq> CHR ''i''" if "k \<in> ?K" for k using that last_of_keys(1) by auto
  obtain api s1 n1 where l: "lookup_api env cat ''query'' ''v1'' OnlineIfNotFound (s, n) = Some (api, s1, n1)"
    using run by (auto simp: get_sub_quads_def split: Option.bind_split_asm)
  note k1 = lookup_api_keeps [where K = ?K, OF kv K l]
  show ?thesis
  proof (cases api)
    case (Inl e)
    then show ?thesis using run l k1 by (auto simp: get_sub_quads_def)
  next
    case (Inr client)
    obtain q n2 where q: "query_quad_tree_index (env_json env) (env_call env) client lid v (to_here_tile tile) d None bt n1 = Some (q, n2)"
      using run l Inr by (auto simp: get_sub_quads_def split: Option.bind_split_asm)
    show ?thesis
    proof (cases q)
      case (Inl e)
      then show ?thesis using run l Inr k1 q \<open>api = Inr client\<close> by (auto simp: get_sub_quads_def)
    next
      case (Inr index)
      let ?st = "\<lambda>q. added_sub_here_tile (sub_quad_key q) tile"
      let ?ps = "map (\<lambda>q. partition_from_sub_quad q (to_here_tile (?st q))) (index_sub_quads index)"
      have p: "put_partitions (env_json env) ideal_kv (to_catalog_hrn_string cat) (Some v) lid kDefaultExpiry ?ps s1 = Some s'"
        and r: "r = Inr (map (\<lambda>q. (?st q, sub_quad_data_handle q)) (index_sub_quads index))"
        using run l q \<open>api = Inr client\<close> Inr
        by (auto simp: get_sub_quads_def Let_def pc_put_def kv split: Option.bind_split_asm)
      let ?res = "map (\<lambda>q. (?st q, sub_quad_data_handle q)) (index_sub_quads index)"
      have ids: "partition_partition ` set ?ps = to_here_tile ` fst ` set ?res"
        by (auto simp: partition_from_sub_quad_def image_image)
      have "located (to_catalog_hrn_string cat) lid v ?res s' pid \<or>
          pid \<notin> to_here_tile ` fst ` set ?res \<and>
          ideal_get (partition_key (to_catalog_hrn_string cat) lid pid (Some v)) s' =
          ideal_get (partition_key (to_catalog_hrn_string cat) lid pid (Some v)) s" for pid
        using put_partitions_ideal [OF p default_expiry_positive, of pid]
      proof
        assume "\<exists>x \<in> set ?ps. partition_partition x = pid \<and>
          ideal_get (partition_key (to_catalog_hrn_string cat) lid pid (Some v)) s' = Some (Typed (VPartition x))"
        then have "located (to_catalog_hrn_string cat) lid v ?res s' pid"
          by (force simp: located_def partition_from_sub_quad_def)
        then show ?thesis by blast
      qed (use k1 ids in \<open>simp add: keeps_def\<close>)
      then show ?thesis using r by simp
    qed
  qed
qed

lemma get_sub_tiles_locates:
  assumes kv: "env_cache env = ideal_kv"
  shows "get_sub_tiles_loop env cat lid v bt quads result (s, n) = Some (Inr tiles, s', n') \<Longrightarrow>
    \<forall>e \<in> set result. located (to_catalog_hrn_string cat) lid v result s (to_here_tile (fst e)) \<Longrightarrow>
    \<forall>e \<in> set tiles. located (to_catalog_hrn_string cat) lid v tiles s' (to_here_tile (fst e))"
proof (induction quads arbitrary: result s n)
  case (Cons quad quads)
  obtain k tile d where quad: "quad = (k, tile, d)" by (cases quad)
  obtain r s1 n1 where q: "get_sub_quads env cat lid v bt tile d (s, n) = Some (r, s1, n1)"
    using Cons.prems(1) by (auto simp: quad split: if_split_asm Option.bind_split_asm)
  note loc = get_sub_quads_locates [OF kv q]
  show ?case
  proof (cases r)
    case (Inl e)
    then have "get_sub_tiles_loop env cat lid v bt quads result (s1, n1) = Some (Inr tiles, s', n')"
      using Cons.prems(1) q by (auto simp: quad split: if_split_asm)
    moreover have "keeps (partition_keys (to_catalog_hrn_string cat) lid v) s s1" using loc Inl by simp
    ultimately show ?thesis using Cons.IH Cons.prems(2) located_mono by blast
  next
    case (Inr res)
    have "get_sub_tiles_loop env cat lid v bt quads (result @ res) (s1, n1) = Some (Inr tiles, s', n')"
      using Cons.prems(1) q Inr by (auto simp: quad split: if_split_asm)
    moreover have "located (to_catalog_hrn_string cat) lid v (result @ res) s1 (to_here_tile (fst e))"
      if e: "e \<in> set (result @ res)" for e
    proof (cases "located (to_catalog_hrn_string cat) lid v res s1 (to_here_tile (fst e))")
      case True
      then show ?thesis by (auto simp: located_def)
    next
      case False
      then have "to_here_tile (fst e) \<notin> to_here_tile ` fst ` set res"
        and "ideal_get (partition_key (to_catalog_hrn_string cat) lid (to_here_tile (fst e)) (Some v)) s1 =
          ideal_get (partition_key (to_catalog_hrn_string cat) lid (to_here_tile (fst e)) (Some v)) s"
        using loc Inr by blast+
      moreover from this(1) have "e \<in> set result" using e by auto
      ultimately show ?thesis using Cons.prems(2) by (fastforce simp: located_def)
    qed
    ultimately show ?thesis using Cons.IH by blast
  qed
qed simp

definition has_data :: "string \<Rightarrow> string \<Rightarrow> read_value ideal_cache \<Rightarrow> string \<Rightarrow> bool" where
  "has_data hrn lid s h \<longleftrightarrow> (\<exists>b. ideal_get (data_key hrn lid h) s = Some (Bytes b))"

lemma blob_data_stays:
  assumes kv: "env_cache env = ideal_kv" and h: "dr_data_handle request = Some h" "dr_fetch_option request = OnlineIfNotFound"
    and run: "get_blob_data env cat lid serv request (s, n) = Some (Inr d, s', n')"
  shows "keeps (partition_keys (to_catalog_hrn_string cat) lid v) s s' \<and> has_data (to_catalog_hrn_string cat) lid s' h \<and>
    (\<forall>g. has_data (to_catalog_hrn_string cat) lid s g \<longrightarrow> has_data (to_catalog_hrn_string cat) lid s' g)"
proof -
  let ?hrn = "to_catalog_hrn_string cat"
  let ?K = "partition_keys ?hrn lid v \<union> data_keys ?hrn lid"
  have K: "last k \<noteq> CHR ''i''" if "k \<in> ?K" for k using that last_of_keys(1,2) by auto
  have run': "fetch OnlineIfNotFound ''data'' (data_get ideal_kv ?hrn lid h) (lookup_api env cat serv ''v1'' OnlineIfNotFound)
      (\<lambda>client. if serv = ''blob'' then get_blob (env_call env) client lid h (dr_billing_tag request) None
        else get_volatile_blob (env_call env) client lid h (dr_billing_tag request))
      (\<lambda>d. data_put ideal_kv ?hrn d lid h) (data_clear ideal_kv ?hrn lid h) (s, n) = Some (Inr d, s', n')"
    using run by (simp add: get_blob_data_def h kv Let_def)
  have get: "data_get ideal_kv ?hrn lid h s0 = Some (x, s1) \<Longrightarrow>
      s1 = s0 \<and> (\<forall>b. x = Some b \<longrightarrow> ideal_get (data_key ?hrn lid h) s0 = Some (Bytes b))" for x s0 s1
    using ideal_bytes by (simp add: data_get_def)
  from run' show ?thesis
  proof (cases rule: fetch_cases)
    case (Hit x)
    then show ?thesis using get [OF Hit(2)] by (auto simp: has_data_def)
  next
    case (Asked s1 client s2 n2)
    have s1: "s1 = s" using Asked(2) get by auto
    have k: "keeps ?K s s2" using lookup_api_keeps [where K = ?K, OF kv K Asked(3)] s1 by simp
    have "s' = ideal_put (data_key ?hrn lid h) (Some (Bytes d)) kDefaultExpiry s2"
      using Asked(5) by (auto simp: data_put_def ideal_ops)
    then have g: "ideal_get k s' = (if k = data_key ?hrn lid h then Some (Bytes d) else ideal_get k s2)" for k
      by (simp add: ideal_get_put kExpiryMax_def)
    have "keeps (partition_keys ?hrn lid v) s s'"
      using k by (auto simp: keeps_def g keys_differ)
    moreover have "has_data ?hrn lid s' h" by (simp add: has_data_def g)
    moreover have "has_data ?hrn lid s j \<Longrightarrow> has_data ?hrn lid s' j" for j
      using k by (auto simp: has_data_def g keeps_def)
    ultimately show ?thesis by blast
  qed (use h in auto)
qed

lemma prefetch_tile_stays:
  assumes kv: "env_cache env = ideal_kv"
    and run: "prefetch_tile env c cat lid bt (t, h) (s, n) = Some ((u, Inr ()), s', n')"
  shows "u = t \<and> keeps (partition_keys (to_catalog_hrn_string cat) lid v) s s' \<and> has_data (to_catalog_hrn_string cat) lid s' h \<and>
    (\<forall>g. has_data (to_catalog_hrn_string cat) lid s g \<longrightarrow> has_data (to_catalog_hrn_string cat) lid s' g)"
proof -
  let ?req = "new_data_request\<lparr>dr_data_handle := Some h, dr_billing_tag := bt\<rparr>"
  obtain data sn where d: "get_versioned_data env cat lid ?req (s, n) = Some (data, sn)" "u = t"
      "(case data of Inl e \<Rightarrow> Inl e | Inr _ \<Rightarrow> Inr ()) = (Inr () :: unit api_response)" "sn = (s', n')"
    using run by (auto simp: prefetch_tile_def split: if_split_asm Option.bind_split_asm)
  then obtain b where "get_blob_data env cat lid ''blob'' ?req (s, n) = Some (Inr b, s', n')"
    by (auto simp: get_versioned_data_def new_data_request_def split: sum.split_asm)
  then show ?thesis using d(2) blob_data_stays [OF kv, of ?req h] by (simp add: new_data_request_def)
qed

lemma prefetch_loop_stays:
  assumes kv: "env_cache env = ideal_kv" and nc: "\<And>n. \<not> env_cancelled env n"
  shows "prefetch_tiles_loop env inner cat lid bt i tiles (s, n) = Some (results, s', n') \<Longrightarrow>
    \<forall>e \<in> set results. snd e = Inr () \<Longrightarrow>
    map fst results = map fst tiles \<and> keeps (partition_keys (to_catalog_hrn_string cat) lid v) s s' \<and>
    (\<forall>g. has_data (to_catalog_hrn_string cat) lid s g \<or> g \<in> snd ` set tiles \<longrightarrow> has_data (to_catalog_hrn_string cat) lid s' g)"
proof (induction tiles arbitrary: i s n results)
  case (Cons tile tiles)
  obtain t h where tile: "tile = (t, h)" by (cases tile)
  obtain r s1 n1 rs where p: "prefetch_tile env (inner i) cat lid bt (t, h) (s, n) = Some (r, s1, n1)"
      and rest: "prefetch_tiles_loop env inner cat lid bt (Suc i) tiles (s1, n1) = Some (rs, s', n')" "results = r # rs"
    using Cons.prems(1) nc by (auto simp: tile split: Option.bind_split_asm)
  obtain u where "r = (u, Inr ())" using Cons.prems(2) rest(2) by (cases r) auto
  note a = prefetch_tile_stays [OF kv p [unfolded this], of v]
  note b = Cons.IH [OF rest(1)] 
  show ?case using a b Cons.prems(2) rest(2) \<open>r = (u, Inr ())\<close> tile keeps_trans [of _ s s1 s'] by auto
qed simp

text \<open>A tile whose partition and data are cached is read without the network.\<close>

lemma read_offline:
  assumes kv: "env_cache env = ideal_kv"
    and p: "ideal_get (partition_key (to_catalog_hrn_string cat) lid pid (Some v)) s = Some (Typed (VPartition p))"
    and b: "ideal_get (data_key (to_catalog_hrn_string cat) lid (partition_data_handle p)) s = Some (Bytes b)"
  shows "get_versioned_data env cat lid
    (new_data_request\<lparr>dr_partition_id := Some pid, dr_version := Some v, dr_fetch_option := CacheOnly\<rparr>) (s, n) =
    Some (Inr b, s, n)"
proof -
  let ?req = "new_data_request\<lparr>dr_partition_id := Some pid, dr_version := Some v, dr_fetch_option := CacheOnly\<rparr>"
  have "get_partition_by_id env cat lid ?req (s, n) = Some (Inr \<lparr>partitions_list = [p]\<rparr>, s, n)"
    using p by (simp add: get_partition_by_id_def new_data_request_def fetch_def pc_get_def get_as_def kv ideal_ops)
  moreover have "kv_get_bytes ideal_kv (data_key (to_catalog_hrn_string cat) lid (partition_data_handle p)) s = Some (Some b, s)"
    using b by (simp add: ideal_kv_def)
  ultimately show ?thesis
    by (simp add: get_versioned_data_def new_data_request_def with_latest_version_def with_handle_of_def
        get_blob_data_def fetch_def data_get_def kv)
qed



abbreviation (input) free_env :: "(read_value ideal_cache, nat) read_env" where
  "free_env \<equiv> (tile_env 9)\<lparr>env_cancelled := \<lambda>_. False\<rparr>"


end
