(* ===== verification/AuthResults.thy ===== *)
theory AuthResults
  imports Json ApiError Decimal
begin

text \<open>
  The results of the authentication library: \<open>BaseResult\<close>, \<open>SignInResultImpl\<close>, \<open>SignInUserResultImpl\<close>,
  \<open>SignUpResultImpl\<close> and \<open>SignOutResultImpl\<close>, \<open>TokenResult\<close>, \<open>AuthenticationError\<close>, and the credentials that
  \<open>AuthenticationCredentials.cpp\<close> reads from a stream.

  A document is what RapidJSON made of the body: \<^term>\<open>None\<close> after a parse error. A constructor that
  reads a member of the wrong type, or asks a document that is no object for a member, runs into an
  assertion of RapidJSON: \<^term>\<open>None\<close>. Times are in seconds.
\<close>

section \<open>Members of a document\<close>

definition has_member :: "json \<Rightarrow> string \<Rightarrow> bool option" where
  "has_member v k = (case v of JObject ms \<Rightarrow> Some (map_of ms k \<noteq> None) | _ \<Rightarrow> None)"

definition member :: "json \<Rightarrow> string \<Rightarrow> json option" where
  "member v k = (case v of JObject ms \<Rightarrow> map_of ms k | _ \<Rightarrow> None)"

definition uint_from_json :: "json \<Rightarrow> int option" where
  "uint_from_json v = (case v of JInt i \<Rightarrow> if 0 \<le> i \<and> i < 2 ^ 32 then Some i else None | _ \<Rightarrow> None)"

text \<open>\<open>if (HasMember(k)) x = v[k].GetString()\<close>\<close>

definition string_member :: "json \<Rightarrow> string \<Rightarrow> string \<Rightarrow> string option" where
  "string_member v k x = do {
     present \<leftarrow> has_member v k;
     if present then Option.bind (member v k) string_from_json else Some x }"

section \<open>BaseResult\<close>

abbreviation (input) HTTP_OK :: int where "HTTP_OK \<equiv> 200"

record error_response =
  err_code :: int
  err_message :: string
  err_error_id :: string

record error_field = error_response +
  field_name :: string

definition no_error_response :: error_response where
  "no_error_response = \<lparr>err_code = 0, err_message = [], err_error_id = []\<rparr>"

record base_result =
  br_is_valid :: bool
  br_status :: int
  br_error :: error_response
  br_error_fields :: "error_field list"

definition br_has_error :: "'a base_result_scheme \<Rightarrow> bool" where
  "br_has_error r \<longleftrightarrow> br_status r \<noteq> HTTP_OK"

fun read_error_fields :: "json list \<Rightarrow> error_field list option" where
  "read_error_fields [] = Some []"
| "read_error_fields (f # fs) = do {
     present \<leftarrow> has_member f ''message'';
     if present then do {
       n \<leftarrow> Option.bind (member f ''name'') string_from_json;
       c \<leftarrow> Option.bind (member f ''errorCode'') uint_from_json;
       m \<leftarrow> Option.bind (member f ''message'') string_from_json;
       es \<leftarrow> read_error_fields fs;
       Some (\<lparr>err_code = c, err_message = m, err_error_id = [], field_name = n\<rparr> # es) }
     else read_error_fields fs }"

text \<open>\<open>message.substr(0, message.find_first_of(".") + 1)\<close>: nothing when there is no full stop, as \<open>npos + 1\<close> is \<open>0\<close>.\<close>

definition first_sentence :: "string \<Rightarrow> string" where
  "first_sentence message =
     (if CHR ''.'' \<in> set message then takeWhile (\<lambda>c. c \<noteq> CHR ''.'') message @ ''.'' else [])"

text \<open>The reading of the error details of a document that has an error code.\<close>

definition read_error_details :: "json \<Rightarrow> base_result \<Rightarrow> base_result option" where
  "read_error_details d r = do {
     i \<leftarrow> string_member d ''errorId'' (err_error_id (br_error r));
     c \<leftarrow> Option.bind (member d ''errorCode'') uint_from_json;
     let r = r\<lparr>br_error := (br_error r)\<lparr>err_error_id := i, err_code := c\<rparr>\<rparr>;
     present \<leftarrow> has_member d ''message'';
     if \<not> present then Some r
     else do {
       message \<leftarrow> Option.bind (member d ''message'') string_from_json;
       fields \<leftarrow> has_member d ''errorFields'';
       if \<not> fields then Some (r\<lparr>br_error := (br_error r)\<lparr>err_message := message\<rparr>\<rparr>)
       else do {
         let r = r\<lparr>br_error := (br_error r)\<lparr>err_message := first_sentence message\<rparr>\<rparr>;
         (case member d ''errorFields'' of
            Some (JArray fs) \<Rightarrow> map_option (\<lambda>es. r\<lparr>br_error_fields := es\<rparr>) (read_error_fields fs)
          | _ \<Rightarrow> Some r) } } }"

definition base_result :: "int \<Rightarrow> string \<Rightarrow> json option \<Rightarrow> base_result option" where
  "base_result status error doc =
     (let r = \<lparr>br_is_valid = is_some doc, br_status = status, br_error = no_error_response\<lparr>err_message := error\<rparr>,
               br_error_fields = []\<rparr>
      in case doc of
           None \<Rightarrow> Some r
         | Some d \<Rightarrow>
             if \<not> br_has_error r then Some r
             else do {
               present \<leftarrow> has_member d ''errorCode'';
               if present then read_error_details d r else Some r })"

section \<open>Results of the requests\<close>

record sign_in_result = base_result +
  sr_is_valid :: bool
  sr_access_token :: string
  sr_token_type :: string
  sr_expiry_time :: int
  sr_expires_in :: int
  sr_refresh_token :: string
  sr_user_identifier :: string
  sr_scope :: string

text \<open>
  \<open>now\<close> is \<open>std::time\<close>. \<open>expires_in_\<close> has no initialiser, in the class or in the constructor: \<open>stale\<close> is what the
  memory of the object holds before.
\<close>

definition sign_in_result :: "int \<Rightarrow> int \<Rightarrow> int \<Rightarrow> string \<Rightarrow> json option \<Rightarrow> sign_in_result option" where
  "sign_in_result stale now status error doc = do {
     b \<leftarrow> base_result status error doc;
     valid \<leftarrow>
       (case doc of
          None \<Rightarrow> Some False
        | Some d \<Rightarrow> do {
            a \<leftarrow> has_member d ''accessToken'';
            t \<leftarrow> has_member d ''tokenType'';
            e \<leftarrow> has_member d ''expiresIn'';
            Some (a \<and> t \<and> e) });
     let r = base_result.extend b
       \<lparr>sr_is_valid = valid, sr_access_token = [], sr_token_type = [], sr_expiry_time = 0, sr_expires_in = stale,
        sr_refresh_token = [], sr_user_identifier = [], sr_scope = []\<rparr>;
     if br_has_error r then Some r
     else if \<not> valid
     then Some (r\<lparr>br_status := HTTP_SERVICE_UNAVAILABLE, br_error := (br_error r)\<lparr>err_message := ''Service unavailable''\<rparr>\<rparr>)
     else do {
       d \<leftarrow> doc;
       a \<leftarrow> string_member d ''accessToken'' [];
       t \<leftarrow> string_member d ''tokenType'' [];
       f \<leftarrow> string_member d ''refreshToken'' [];
       e \<leftarrow> Option.bind (member d ''expiresIn'') uint_from_json;
       u \<leftarrow> string_member d ''userId'' [];
       s \<leftarrow> string_member d ''scope'' [];
       Some (r\<lparr>sr_access_token := a, sr_token_type := t, sr_refresh_token := f, sr_expiry_time := now + e,
               sr_expires_in := e, sr_user_identifier := u, sr_scope := s\<rparr>) } }"

text \<open>The default constructor.\<close>

definition default_sign_in_result :: "int \<Rightarrow> sign_in_result option" where
  "default_sign_in_result stale = sign_in_result stale 0 HTTP_SERVICE_UNAVAILABLE ''Service unavailable'' None"

record sign_in_user_result = sign_in_result +
  term_acceptance_token :: string
  terms_of_service_url :: string
  terms_of_service_url_json :: string
  private_policy_url :: string
  private_policy_url_json :: string

definition sign_in_user_result :: "int \<Rightarrow> int \<Rightarrow> int \<Rightarrow> string \<Rightarrow> json option \<Rightarrow> sign_in_user_result option" where
  "sign_in_user_result stale now status error doc = do {
     s \<leftarrow> sign_in_result stale now status error doc;
     let r = sign_in_result.extend s
       \<lparr>term_acceptance_token = [], terms_of_service_url = [], terms_of_service_url_json = [],
        private_policy_url = [], private_policy_url_json = []\<rparr>;
     (case doc of
        None \<Rightarrow> Some r
      | Some d \<Rightarrow> do {
          t \<leftarrow> string_member d ''termsReacceptanceToken'' [];
          let r = r\<lparr>term_acceptance_token := t\<rparr>;
          urls \<leftarrow> has_member d ''url'';
          if \<not> urls then Some r
          else do {
            obj \<leftarrow> member d ''url'';
            tos \<leftarrow> string_member obj ''tos'' [];
            tos_json \<leftarrow> string_member obj ''tosJSON'' [];
            pp \<leftarrow> string_member obj ''pp'' [];
            pp_json \<leftarrow> string_member obj ''ppJSON'' [];
            Some (r\<lparr>terms_of_service_url := tos, terms_of_service_url_json := tos_json,
                    private_policy_url := pp, private_policy_url_json := pp_json\<rparr>) } }) }"

record sign_up_result = base_result +
  up_user_identifier :: string

definition sign_up_result :: "int \<Rightarrow> string \<Rightarrow> json option \<Rightarrow> sign_up_result option" where
  "sign_up_result status error doc = do {
     b \<leftarrow> base_result status error doc;
     u \<leftarrow> (case doc of None \<Rightarrow> Some [] | Some d \<Rightarrow> string_member d ''userId'' []);
     Some (base_result.extend b \<lparr>up_user_identifier = u\<rparr>) }"

definition sign_out_result :: "int \<Rightarrow> string \<Rightarrow> json option \<Rightarrow> base_result option" where
  "sign_out_result status error doc = base_result status error doc"

section \<open>Errors and tokens\<close>

record authentication_error =
  auth_error_code :: error_code
  auth_error_message :: string
  auth_error_retryable :: bool

definition is_retryable_network_code :: "int \<Rightarrow> bool" where
  "is_retryable_network_code network_code \<longleftrightarrow>
     network_code \<in> {http_error_value OFFLINE_ERROR, http_error_value CANCELLED_ERROR, http_error_value TIMEOUT_ERROR}"

definition authentication_error_of :: "int \<Rightarrow> string \<Rightarrow> authentication_error" where
  "authentication_error_of network_code message =
     \<lparr>auth_error_code = get_error_code network_code, auth_error_message = message,
      auth_error_retryable = is_retryable_network_code network_code\<rparr>"

record token_result =
  tr_access_token :: string
  tr_expiry_time :: int
  tr_expires_in :: int
  tr_http_status :: int
  tr_error :: error_response

text \<open>\<open>ApiResponse\<close> value-initialises the result that an error comes with.\<close>

definition default_token_result :: token_result where
  "default_token_result =
     \<lparr>tr_access_token = [], tr_expiry_time = 0, tr_expires_in = 0, tr_http_status = 0, tr_error = no_error_response\<rparr>"

definition token_result_at :: "int \<Rightarrow> string \<Rightarrow> int \<Rightarrow> int \<Rightarrow> error_response \<Rightarrow> token_result" where
  "token_result_at now access_token expiry_time http_status error =
     \<lparr>tr_access_token = access_token, tr_expiry_time = expiry_time, tr_expires_in = expiry_time - now,
      tr_http_status = http_status, tr_error = error\<rparr>"

definition token_result_in :: "int \<Rightarrow> string \<Rightarrow> int \<Rightarrow> int \<Rightarrow> error_response \<Rightarrow> token_result" where
  "token_result_in now access_token expires_in http_status error =
     \<lparr>tr_access_token = access_token, tr_expiry_time = now + expires_in, tr_expires_in = expires_in,
      tr_http_status = http_status, tr_error = error\<rparr>"

section \<open>Credentials\<close>

record credentials =
  cred_key :: string
  cred_secret :: string

text \<open>\<open>std::getline\<close>: no last line after a line feed at the end.\<close>

fun get_lines :: "string \<Rightarrow> string \<Rightarrow> string list" where
  "get_lines line [] = (if line = [] then [] else [line])"
| "get_lines line (c # cs) = (if c = CHR 0x0A then line # get_lines [] cs else get_lines (line @ [c]) cs)"

text \<open>
  The iterator over what the matches of \<open>\s*=\s*\<close> leave: a match begins at the white space before a \<open>=\<close> and takes
  all white space after it. The rest after the last match is a token unless it is empty and there was a match.
\<close>

function split_pairs :: "bool \<Rightarrow> string \<Rightarrow> string list" where
  "split_pairs matched line =
     (if CHR ''='' \<in> set line
      then rev (dropWhile is_space (rev (takeWhile (\<lambda>c. c \<noteq> CHR ''='') line))) #
        split_pairs True (dropWhile is_space (tl (dropWhile (\<lambda>c. c \<noteq> CHR ''='') line)))
      else if matched \<and> line = [] then [] else [line])"
  by auto
termination
proof (relation "measure (\<lambda>(m, l). length l)")
  fix matched and line :: string
  assume "CHR ''='' \<in> set line"
  then have "dropWhile (\<lambda>c. c \<noteq> CHR ''='') line \<noteq> []" by (auto simp: dropWhile_eq_Nil_conv)
  then have "length (tl (dropWhile (\<lambda>c. c \<noteq> CHR ''='') line)) < length (dropWhile (\<lambda>c. c \<noteq> CHR ''='') line)" by simp
  also have "\<dots> \<le> length line" by (rule length_dropWhile_le)
  finally show "((True, dropWhile is_space (tl (dropWhile (\<lambda>c. c \<noteq> CHR ''='') line))), matched, line)
      \<in> measure (\<lambda>(m, l). length l)"
    using length_dropWhile_le [of is_space "tl (dropWhile (\<lambda>c. c \<noteq> CHR ''='') line)"] by simp
qed simp

declare split_pairs.simps [simp del]

definition read_line :: "string \<Rightarrow> string \<times> string \<Rightarrow> string \<times> string" where
  "read_line line c =
     (case split_pairs False line of
        [k, v] \<Rightarrow>
          if k = ''here.access.key.id'' then (v, snd c)
          else if k = ''here.access.key.secret'' then (fst c, v)
          else c
      | _ \<Rightarrow> c)"

definition read_from_stream :: "string \<Rightarrow> credentials option" where
  "read_from_stream text =
     (let (key, secret) = fold read_line (get_lines [] text) ([], [])
      in if key \<noteq> [] \<and> secret \<noteq> [] then Some \<lparr>cred_key = key, cred_secret = secret\<rparr> else None)"

text \<open>\<open>home\<close> is the environment variable, \<open>open_file\<close> the content of a file that can be opened.\<close>

definition get_default_path :: "string option \<Rightarrow> string" where
  "get_default_path home = (case home of Some h \<Rightarrow> h @ ''/.here/credentials.properties'' | None \<Rightarrow> [])"

definition read_from_file :: "string option \<Rightarrow> (string \<Rightarrow> string option) \<Rightarrow> string \<Rightarrow> credentials option" where
  "read_from_file home open_file filename =
     (let filename = (if filename = [] then get_default_path home else filename)
      in Option.bind (open_file filename) read_from_stream)"

section \<open>Reading credentials back\<close>

lemma get_lines_append: "CHR 0x0A \<notin> set l \<Longrightarrow> get_lines p (l @ CHR 0x0A # rest) = (p @ l) # get_lines [] rest"
  by (induction l arbitrary: p) auto

lemma get_lines_last: "CHR 0x0A \<notin> set l \<Longrightarrow> get_lines p l = (if p @ l = [] then [] else [p @ l])"
  by (induction l arbitrary: p) auto

lemma takeWhile_before: "(\<forall>x \<in> set xs. P x) \<Longrightarrow> \<not> P y \<Longrightarrow> takeWhile P (xs @ y # ys) = xs"
  by (induction xs) auto

lemma dropWhile_before: "(\<forall>x \<in> set xs. P x) \<Longrightarrow> \<not> P y \<Longrightarrow> dropWhile P (xs @ y # ys) = y # ys"
  by (induction xs) auto

lemma strip_spaces: "\<forall>c \<in> set w. is_space c \<Longrightarrow> (s = [] \<or> \<not> is_space (hd s)) \<Longrightarrow> dropWhile is_space (w @ s) = s"
  by (induction w) (auto simp: dropWhile_eq_self_iff)

lemma not_space_eq [simp]: "\<not> is_space (CHR ''='')"
  by (simp add: is_space_def)

lemma split_pairs_assignment:
  assumes "\<forall>c \<in> set w1. is_space c" "\<forall>c \<in> set w2. is_space c"
    and "CHR ''='' \<notin> set k" "k = [] \<or> \<not> is_space (last k)"
    and "CHR ''='' \<notin> set v" "v \<noteq> []" "\<not> is_space (hd v)"
  shows "split_pairs False (k @ w1 @ ''='' @ w2 @ v) = [k, v]"
proof -
  have w: "CHR ''='' \<notin> set w1" using assms(1) by auto
  have k: "\<forall>c \<in> set (k @ w1). c \<noteq> CHR ''=''" using w assms(3) by auto
  have line: "k @ w1 @ ''='' @ w2 @ v = (k @ w1) @ CHR ''='' # (w2 @ v)" by simp
  have "dropWhile is_space (rev (k @ w1)) = rev k"
    using strip_spaces [of "rev w1" "rev k"] assms(1,4) by (auto simp: hd_rev)
  moreover have "dropWhile is_space (w2 @ v) = v" using strip_spaces [of w2 v] assms(2,7) by simp
  moreover have "split_pairs True v = [v]" using assms(5,6) by (simp add: split_pairs.simps)
  ultimately show ?thesis
    unfolding line using takeWhile_before [OF k] dropWhile_before [OF k] by (subst split_pairs.simps) simp
qed

definition assignment :: "string \<Rightarrow> string \<Rightarrow> string \<Rightarrow> string \<Rightarrow> string" where
  "assignment k w1 w2 v = k @ w1 @ ''='' @ w2 @ v"

text \<open>A value that the file can hold: no line feed, no equals sign, no white space in front.\<close>

definition storable :: "string \<Rightarrow> bool" where
  "storable v \<longleftrightarrow> v \<noteq> [] \<and> \<not> is_space (hd v) \<and> CHR 0x0A \<notin> set v \<and> CHR ''='' \<notin> set v"

definition blanks :: "string \<Rightarrow> bool" where
  "blanks w \<longleftrightarrow> (\<forall>c \<in> set w. is_space c \<and> c \<noteq> CHR 0x0A)"

lemma read_line_assignment:
  assumes "blanks w1" "blanks w2" "storable v"
  shows "read_line (assignment ''here.access.key.id'' w1 w2 v) c = (v, snd c)"
    and "read_line (assignment ''here.access.key.secret'' w1 w2 v) c = (fst c, v)"
  using assms split_pairs_assignment [of w1 w2 "''here.access.key.id''" v]
    split_pairs_assignment [of w1 w2 "''here.access.key.secret''" v]
  by (simp_all add: read_line_def assignment_def storable_def blanks_def is_space_def)

lemma two_lines:
  assumes "CHR 0x0A \<notin> set a" "CHR 0x0A \<notin> set b" "b \<noteq> []" "last_line \<in> {[], [CHR 0x0A]}"
  shows "get_lines [] (a @ [CHR 0x0A] @ b @ last_line) = [a, b]"
  using assms get_lines_append [of a "[]" "b @ last_line"] get_lines_append [of b "[]" "[]"] get_lines_last [of b "[]"]
  by auto

lemma assignment_line: "CHR 0x0A \<notin> set k \<Longrightarrow> blanks w1 \<Longrightarrow> blanks w2 \<Longrightarrow> storable v \<Longrightarrow> CHR 0x0A \<notin> set (assignment k w1 w2 v)"
  by (auto simp: assignment_def blanks_def storable_def)

text \<open>
  Credentials that are written to a file as two assignments, with any blanks around the equals signs, are
  read back, in either order, with or without a line feed at the end, as long as no value has a line feed,
  an equals sign or white space in front.
\<close>

theorem credentials_round_trip:
  assumes "storable (cred_key cred)" and "storable (cred_secret cred)"
    and "blanks w1" and "blanks w2" and "blanks w3" and "blanks w4" and "last_line \<in> {[], [CHR 0x0A]}"
  shows "read_from_stream (assignment ''here.access.key.id'' w1 w2 (cred_key cred) @ [CHR 0x0A] @
      assignment ''here.access.key.secret'' w3 w4 (cred_secret cred) @ last_line) = Some cred \<and>
    read_from_stream (assignment ''here.access.key.secret'' w3 w4 (cred_secret cred) @ [CHR 0x0A] @
      assignment ''here.access.key.id'' w1 w2 (cred_key cred) @ last_line) = Some cred"
proof -
  let ?k = "assignment ''here.access.key.id'' w1 w2 (cred_key cred)"
  let ?s = "assignment ''here.access.key.secret'' w3 w4 (cred_secret cred)"
  have lf: "CHR 0x0A \<notin> set ?k" "CHR 0x0A \<notin> set ?s" "?k \<noteq> []" "?s \<noteq> []"
    using assms assignment_line [of "''here.access.key.id''"] assignment_line [of "''here.access.key.secret''"]
    by (auto simp: assignment_def)
  have ne: "cred_key cred \<noteq> []" "cred_secret cred \<noteq> []" using assms(1,2) by (simp_all add: storable_def)
  show ?thesis
    unfolding read_from_stream_def two_lines [OF lf(1,2,4) assms(7)] two_lines [OF lf(2,1,3) assms(7)]
    using assms ne by (simp add: read_line_assignment)
qed

theorem credentials_round_trip_witness:
  "read_from_stream (assignment ''here.access.key.id'' '' '' '' '' ''abc'' @ [CHR 0x0A] @
     assignment ''here.access.key.secret'' [] ''  '' ''s-1_2'' @ [CHR 0x0A]) = Some \<lparr>cred_key = ''abc'', cred_secret = ''s-1_2''\<rparr>"
  using credentials_round_trip [of "\<lparr>cred_key = ''abc'', cred_secret = ''s-1_2''\<rparr>" "'' ''" "'' ''" "[]" "''  ''" "[CHR 0x0A]"]
  by (simp add: storable_def blanks_def is_space_def)

text \<open>
  A secret that contains an equals sign is cut at it when nothing follows, and is not found otherwise; and
  a file with carriage returns gives values that end with them.
\<close>

theorem padded_secret_is_cut:
  "read_from_stream (assignment ''here.access.key.id'' [] [] ''id'' @ [CHR 0x0A] @
     assignment ''here.access.key.secret'' [] [] ''c2VjcmV0MQ='') = Some \<lparr>cred_key = ''id'', cred_secret = ''c2VjcmV0MQ''\<rparr> \<and>
   read_from_stream (assignment ''here.access.key.id'' [] [] ''id'' @ [CHR 0x0A] @
     assignment ''here.access.key.secret'' [] [] ''c2VjcmV0MQ=='') = None \<and>
   read_from_stream (assignment ''here.access.key.id'' [] [] ''id'' @ [CHR 0x0D, CHR 0x0A] @
     assignment ''here.access.key.secret'' [] [] ''s'' @ [CHR 0x0D, CHR 0x0A]) =
     Some \<lparr>cred_key = ''id'' @ [CHR 0x0D], cred_secret = ''s'' @ [CHR 0x0D]\<rparr>"
  by code_simp

end
