(* ===== verification/Crypto.thy ===== *)
theory Crypto
  imports Prelude
begin

text \<open>
  SHA-256 and HMAC: \<open>src/Crypto.cpp\<close> of the authentication library, and the functions of the standards that
  it names (FIPS 180-4 and FIPS 198-1) as the reference.
\<close>

unbundle bit_operations_syntax

section \<open>The routine\<close>

abbreviation (input) SHA256_LAST_CHUNK_LENGTH :: nat where "SHA256_LAST_CHUNK_LENGTH \<equiv> 64"
abbreviation (input) SHA256_MESSAGE_SCHEDULE_LENGTH :: nat where "SHA256_MESSAGE_SCHEDULE_LENGTH \<equiv> 64"
abbreviation (input) HMAC_B :: nat where "HMAC_B \<equiv> 64"

definition ROTR :: "u32 \<Rightarrow> nat \<Rightarrow> u32" where
  "ROTR x n = drop_bit n x OR push_bit (32 - n) x"

definition SHA256_CH :: "u32 \<Rightarrow> u32 \<Rightarrow> u32 \<Rightarrow> u32" where
  "SHA256_CH x y z = (x AND y) XOR (NOT x AND z)"

definition SHA256_MAJ :: "u32 \<Rightarrow> u32 \<Rightarrow> u32 \<Rightarrow> u32" where
  "SHA256_MAJ x y z = (x AND y) XOR (x AND z) XOR (y AND z)"

definition SHA256_SUM0 :: "u32 \<Rightarrow> u32" where
  "SHA256_SUM0 x = ROTR x 2 XOR ROTR x 13 XOR ROTR x 22"

definition SHA256_SUM1 :: "u32 \<Rightarrow> u32" where
  "SHA256_SUM1 x = ROTR x 6 XOR ROTR x 11 XOR ROTR x 25"

definition SHA256_SIGMA0 :: "u32 \<Rightarrow> u32" where
  "SHA256_SIGMA0 x = ROTR x 7 XOR ROTR x 18 XOR drop_bit 3 x"

definition SHA256_SIGMA1 :: "u32 \<Rightarrow> u32" where
  "SHA256_SIGMA1 x = ROTR x 17 XOR ROTR x 19 XOR drop_bit 10 x"

definition SHA256_K :: "u32 list" where
  "SHA256_K = concat
    [[0x428a2f98, 0x71374491, 0xb5c0fbcf, 0xe9b5dba5, 0x3956c25b, 0x59f111f1, 0x923f82a4, 0xab1c5ed5],
     [0xd807aa98, 0x12835b01, 0x243185be, 0x550c7dc3, 0x72be5d74, 0x80deb1fe, 0x9bdc06a7, 0xc19bf174],
     [0xe49b69c1, 0xefbe4786, 0x0fc19dc6, 0x240ca1cc, 0x2de92c6f, 0x4a7484aa, 0x5cb0a9dc, 0x76f988da],
     [0x983e5152, 0xa831c66d, 0xb00327c8, 0xbf597fc7, 0xc6e00bf3, 0xd5a79147, 0x06ca6351, 0x14292967],
     [0x27b70a85, 0x2e1b2138, 0x4d2c6dfc, 0x53380d13, 0x650a7354, 0x766a0abb, 0x81c2c92e, 0x92722c85],
     [0xa2bfe8a1, 0xa81a664b, 0xc24b8b70, 0xc76c51a3, 0xd192e819, 0xd6990624, 0xf40e3585, 0x106aa070],
     [0x19a4c116, 0x1e376c08, 0x2748774c, 0x34b0bcb5, 0x391c0cb3, 0x4ed8aa4a, 0x5b9cca4f, 0x682e6ff3],
     [0x748f82ee, 0x78a5636f, 0x84c87814, 0x8cc70208, 0x90befffa, 0xa4506ceb, 0xbef9a3f7, 0xc67178f2]]"

definition sha256Init :: "u32 list" where
  "sha256Init = [0x6a09e667, 0xbb67ae85, 0x3c6ef372, 0xa54ff53a, 0x510e527f, 0x9b05688c, 0x1f83d9ab, 0x5be0cd19]"

text \<open>
  The message schedule is an array that is filled in two loops. \<open>memset\<close> clears 64 of its 256 bytes; each word is
  assigned before it is read, so that what it holds before, zero here, does not matter.
\<close>

definition message_schedule :: "u8 list \<Rightarrow> nat \<Rightarrow> u32 list" where
  "message_schedule currentChunk startIndex =
     fold (\<lambda>i w. w[i := SHA256_SIGMA1 (w ! (i - 2)) + w ! (i - 7) + SHA256_SIGMA0 (w ! (i - 15)) + w ! (i - 16)])
       [16..<SHA256_MESSAGE_SCHEDULE_LENGTH]
       (fold (\<lambda>i w. w[i :=
            push_bit 24 (ucast (currentChunk ! (startIndex + 4 * i))) OR
            push_bit 16 (ucast (currentChunk ! (startIndex + 4 * i + 1))) OR
            push_bit 8 (ucast (currentChunk ! (startIndex + 4 * i + 2))) OR
            ucast (currentChunk ! (startIndex + 4 * i + 3))]) [0..<16]
          (replicate SHA256_MESSAGE_SCHEDULE_LENGTH 0))"

definition transform_round :: "u32 list \<Rightarrow> nat \<Rightarrow> u32 list \<Rightarrow> u32 list" where
  "transform_round w i v =
     (let t1 = v ! 7 + SHA256_SUM1 (v ! 4) + SHA256_CH (v ! 4) (v ! 5) (v ! 6) + SHA256_K ! i + w ! i;
          t2 = SHA256_SUM0 (v ! 0) + SHA256_MAJ (v ! 0) (v ! 1) (v ! 2);
          v = v[7 := v ! 6]; v = v[6 := v ! 5]; v = v[5 := v ! 4]; v = v[4 := v ! 3 + t1];
          v = v[3 := v ! 2]; v = v[2 := v ! 1]; v = v[1 := v ! 0]; v = v[0 := t1 + t2]
      in v)"

definition sha256Transform :: "u8 list \<Rightarrow> nat \<Rightarrow> u32 list \<Rightarrow> u32 list" where
  "sha256Transform currentChunk startIndex hashValue =
     (let w = message_schedule currentChunk startIndex;
          workingVar = fold (transform_round w) [0..<SHA256_MESSAGE_SCHEDULE_LENGTH] hashValue
      in fold (\<lambda>i h. h[i := h ! i + workingVar ! i]) [0..<8] hashValue)"

text \<open>The digest: the words of the hash value, high byte first.\<close>

definition word_bytes :: "u32 \<Rightarrow> u8 list" where
  "word_bytes x = [ucast (drop_bit 24 x), ucast (drop_bit 16 x), ucast (drop_bit 8 x), ucast x]"

definition sha256 :: "u8 list \<Rightarrow> u8 list" where
  "sha256 src =
     (let len = length src;
          chunksCount = len div SHA256_LAST_CHUNK_LENGTH;
          lastChunkSize = len mod SHA256_LAST_CHUNK_LENGTH;
          rest = drop (chunksCount * SHA256_LAST_CHUNK_LENGTH) src;
          (chunks, lastChunk) =
            (if lastChunkSize < 56 then ([], rest @ [0x80])
             else (let second = rest @ [0x80] in ([second @ replicate (SHA256_LAST_CHUNK_LENGTH - length second) 0], [])));
          lastChunk = lastChunk @ replicate (SHA256_LAST_CHUNK_LENGTH - 8 - length lastChunk) 0;
          srcLength = (of_nat len * 8 :: u64);
          lastChunk = lastChunk @ map (\<lambda>i. ucast (drop_bit ((8 - i - 1) * 8) srcLength AND 0xff)) [0..<8];
          hashValue = fold (\<lambda>i. sha256Transform src (i * SHA256_LAST_CHUNK_LENGTH)) [0..<chunksCount] sha256Init;
          hashValue = fold (\<lambda>chunk. sha256Transform chunk 0) (chunks @ [lastChunk]) hashValue
      in concat (map word_bytes hashValue))"

definition toUnsignedCharVector :: "string \<Rightarrow> u8 list" where
  "toUnsignedCharVector src = map (\<lambda>c. of_nat (of_char c)) src"

definition hmac_sha256 :: "string \<Rightarrow> string \<Rightarrow> u8 list" where
  "hmac_sha256 key message =
     (let keyVec = toUnsignedCharVector key;
          k0 = (if length key \<le> HMAC_B then keyVec else sha256 keyVec);
          k0 = k0 @ replicate (HMAC_B - length k0) 0;
          hk0XORipadMsg = sha256 (map (\<lambda>i. k0 ! i XOR 0x36) [0..<HMAC_B] @ toUnsignedCharVector message)
      in sha256 (map (\<lambda>i. k0 ! i XOR 0x5c) [0..<HMAC_B] @ hk0XORipadMsg))"

section \<open>The standard\<close>

text \<open>FIPS 180-4: the blocks of a padded message, the schedule as a recurrence, the working variables as a tuple.\<close>

definition fips_pad :: "u8 list \<Rightarrow> u8 list" where
  "fips_pad M = M @ 0x80 # replicate ((119 - length M mod 64) mod 64) 0 @
     map (\<lambda>i. ucast (drop_bit (8 * (7 - i)) (of_nat (8 * length M) :: u64))) [0..<8]"

function fips_blocks :: "u8 list \<Rightarrow> u8 list list" where
  "fips_blocks M = (if length M < 64 then [] else take 64 M # fips_blocks (drop 64 M))"
  by auto
termination by (relation "measure length") auto

declare fips_blocks.simps [simp del]

definition fips_word :: "u8 list \<Rightarrow> nat \<Rightarrow> u32" where
  "fips_word B t = fold (\<lambda>b w. push_bit 8 w OR ucast b) (take 4 (drop (4 * t) B)) 0"

function fips_W :: "u8 list \<Rightarrow> nat \<Rightarrow> u32" where
  "fips_W B t =
     (if t < 16 then fips_word B t
      else SHA256_SIGMA1 (fips_W B (t - 2)) + fips_W B (t - 7) + SHA256_SIGMA0 (fips_W B (t - 15)) + fips_W B (t - 16))"
  by auto
termination by (relation "measure snd") auto

declare fips_W.simps [simp del]

type_synonym fips_state = "u32 \<times> u32 \<times> u32 \<times> u32 \<times> u32 \<times> u32 \<times> u32 \<times> u32"

fun fips_round :: "u8 list \<Rightarrow> nat \<Rightarrow> fips_state \<Rightarrow> fips_state" where
  "fips_round B t (a, b, c, d, e, f, g, h) =
     (let T1 = h + SHA256_SUM1 e + SHA256_CH e f g + SHA256_K ! t + fips_W B t;
          T2 = SHA256_SUM0 a + SHA256_MAJ a b c
      in (T1 + T2, a, b, c, d + T1, e, f, g))"

fun fips_block :: "u8 list \<Rightarrow> fips_state \<Rightarrow> fips_state" where
  "fips_block B (h0, h1, h2, h3, h4, h5, h6, h7) =
     (case fold (fips_round B) [0..<64] (h0, h1, h2, h3, h4, h5, h6, h7) of
        (a, b, c, d, e, f, g, h) \<Rightarrow> (a + h0, b + h1, c + h2, d + h3, e + h4, f + h5, g + h6, h + h7))"

definition fips_sha256 :: "u8 list \<Rightarrow> u8 list" where
  "fips_sha256 M =
     (case fold fips_block (fips_blocks (fips_pad M))
        (0x6a09e667, 0xbb67ae85, 0x3c6ef372, 0xa54ff53a, 0x510e527f, 0x9b05688c, 0x1f83d9ab, 0x5be0cd19) of
        (a, b, c, d, e, f, g, h) \<Rightarrow> concat (map word_bytes [a, b, c, d, e, f, g, h]))"

text \<open>FIPS 198-1, with the block size of SHA-256.\<close>

definition fips_hmac :: "u8 list \<Rightarrow> u8 list \<Rightarrow> u8 list" where
  "fips_hmac K text =
     (let K0 = (if length K = 64 then K
                else if 64 < length K then fips_sha256 K @ replicate (64 - length (fips_sha256 K)) 0
                else K @ replicate (64 - length K) 0)
      in fips_sha256 (map2 (XOR) K0 (replicate 64 0x5c) @ fips_sha256 (map2 (XOR) K0 (replicate 64 0x36) @ text)))"

section \<open>The routine computes the standard\<close>

lemma fold_assign:
  "m \<le> length xs \<Longrightarrow> fold (\<lambda>i w. w[i := f i]) [0..<m] xs = map f [0..<m] @ drop m xs"
proof (induction m)
  case (Suc m)
  then show ?case by (simp add: list_update_append upd_conv_take_nth_drop Cons_nth_drop_Suc [symmetric])
qed simp

lemma fips_word_bytes:
  assumes "4 * t + 4 \<le> length B"
  shows "fips_word B t = push_bit 24 (ucast (B ! (4 * t))) OR push_bit 16 (ucast (B ! (4 * t + 1))) OR
    push_bit 8 (ucast (B ! (4 * t + 2))) OR ucast (B ! (4 * t + 3))"
proof -
  have "take 4 (drop (4 * t) B) = [B ! (4 * t), B ! (4 * t + 1), B ! (4 * t + 2), B ! (4 * t + 3)]"
    using assms by (simp add: list_eq_iff_nth_eq nth_Cons' less_Suc_eq eval_nat_numeral numeral_3_eq_3)
  then show ?thesis by (simp add: fips_word_def push_bit_or or.assoc)
qed

text \<open>Assigning the elements from \<open>16\<close> on by the recurrence extends the array by one value of \<open>fips_W\<close> each time.\<close>

lemma schedule_extends:
  assumes "16 \<le> m" "m \<le> n"
  shows "fold (\<lambda>i w. w[i := SHA256_SIGMA1 (w ! (i - 2)) + w ! (i - 7) + SHA256_SIGMA0 (w ! (i - 15)) + w ! (i - 16)])
      [16..<m] (map (fips_W B) [0..<16] @ replicate (n - 16) 0) = map (fips_W B) [0..<m] @ replicate (n - m) 0"
  using assms
proof (induction m rule: dec_induct)
  case (step m)
  let ?w = "map (fips_W B) [0..<m] @ replicate (n - m) 0"
  have r: "replicate (n - m) (0 :: u32) = 0 # replicate (n - Suc m) 0"
    using step by (metis Suc_diff_Suc Suc_le_lessD replicate_Suc)
  have at: "?w ! (m - k) = fips_W B (m - k)" if "0 < k" "k \<le> 16" for k
    using that step.hyps by (simp add: nth_append)
  have "?w[m := x] = map (fips_W B) [0..<m] @ x # replicate (n - Suc m) 0" for x
    unfolding r using list_update_length [of "map (fips_W B) [0..<m]"] by simp
  moreover have "fips_W B m = SHA256_SIGMA1 (fips_W B (m - 2)) + fips_W B (m - 7) +
      SHA256_SIGMA0 (fips_W B (m - 15)) + fips_W B (m - 16)"
    using step.hyps fips_W.simps [of B m] by simp
  moreover have "fold (\<lambda>i w. w[i := SHA256_SIGMA1 (w ! (i - 2)) + w ! (i - 7) + SHA256_SIGMA0 (w ! (i - 15)) + w ! (i - 16)])
      [16..<m] (map (fips_W B) [0..<16] @ replicate (n - 16) 0) = ?w"
    using step by simp
  ultimately show ?case
    using step.hyps at [of 2] at [of 7] at [of 15] at [of 16] by (simp add: upt_Suc_append)
qed simp

lemma message_schedule_is_W:
  assumes "s + 64 \<le> length C"
  shows "message_schedule C s = map (fips_W (take 64 (drop s C))) [0..<64]"
proof -
  define B where "B = take 64 (drop s C)"
  have b: "push_bit 24 (ucast (C ! (s + 4 * i))) OR push_bit 16 (ucast (C ! (s + 4 * i + 1))) OR
      push_bit 8 (ucast (C ! (s + 4 * i + 2))) OR ucast (C ! (s + 4 * i + 3)) = fips_W B i" if "i < 16" for i
  proof -
    have "fips_W B i = fips_word B i" using that by (simp add: fips_W.simps)
    moreover have "length B = 64" using assms by (simp add: B_def)
    moreover have "B ! (4 * i + j) = C ! (s + 4 * i + j)" if "j < 4" for j
      using that \<open>i < 16\<close> assms by (simp add: B_def add.assoc)
    from this [of 0] this [of 1] this [of 2] this [of 3]
    have "B ! (4 * i) = C ! (s + 4 * i)" "B ! (4 * i + 1) = C ! (s + 4 * i + 1)"
      "B ! (4 * i + 2) = C ! (s + 4 * i + 2)" "B ! (4 * i + 3) = C ! (s + 4 * i + 3)" by simp_all
    ultimately show ?thesis using that fips_word_bytes [of i B] by simp
  qed
  have words: "fold (\<lambda>i w. w[i := push_bit 24 (ucast (C ! (s + 4 * i))) OR push_bit 16 (ucast (C ! (s + 4 * i + 1))) OR
      push_bit 8 (ucast (C ! (s + 4 * i + 2))) OR ucast (C ! (s + 4 * i + 3))]) [0..<16] (replicate n 0)
      = map (fips_W B) [0..<16] @ replicate (n - 16) 0" if "16 \<le> n" for n
  proof -
    have "map (\<lambda>i. push_bit 24 (ucast (C ! (s + 4 * i))) OR push_bit 16 (ucast (C ! (s + 4 * i + 1))) OR
      push_bit 8 (ucast (C ! (s + 4 * i + 2))) OR ucast (C ! (s + 4 * i + 3))) [0..<16] = map (fips_W B) [0..<16]"
      by (rule map_cong [OF refl]) (rule b, simp)
    then show ?thesis using that by (subst fold_assign) (simp_all only: length_replicate drop_replicate)
  qed
  show ?thesis
    unfolding message_schedule_def words [of 64, simplified] B_def [symmetric]
    using words [of 64] schedule_extends [of 64 64 B] by (simp del: upt_rec_numeral)
qed

fun state_list :: "fips_state \<Rightarrow> u32 list" where
  "state_list (a, b, c, d, e, f, g, h) = [a, b, c, d, e, f, g, h]"

lemma transform_round_is_fips:
  "w ! i = fips_W B i \<Longrightarrow> transform_round w i (state_list x) = state_list (fips_round B i x)"
  by (cases x rule: state_list.cases) (simp add: transform_round_def Let_def)

lemma transform_rounds_are_fips:
  "(\<And>i. i \<in> set is \<Longrightarrow> w ! i = fips_W B i) \<Longrightarrow> fold (transform_round w) is (state_list x) = state_list (fold (fips_round B) is x)"
  by (induction "is" arbitrary: x) (simp_all add: transform_round_is_fips)

lemma add_to_hash_value:
  "fold (\<lambda>i h. h[i := h ! i + [a, b, c, d, e, f, g, h'] ! i]) [0..<8] [h0, h1, h2, h3, h4, h5, h6, h7]
    = [a + h0, b + h1, c + h2, d + h3, e + h4, f + h5, g + h6, h' + h7 :: u32]"
proof -
  have "[0..<8] = [0, 1, 2, 3, 4, 5, 6, 7 :: nat]" by (simp add: upt_rec)
  then show ?thesis by (simp add: add.commute)
qed

lemma transform_is_fips:
  assumes "s + 64 \<le> length C"
  shows "sha256Transform C s (state_list x) = state_list (fips_block (take 64 (drop s C)) x)"
proof -
  define B where "B = take 64 (drop s C)"
  obtain a b c d e f g h where y: "fold (fips_round B) [0..<64] x = (a, b, c, d, e, f, g, h)"
    by (cases "fold (fips_round B) [0..<64] x" rule: state_list.cases)
  obtain h0 h1 h2 h3 h4 h5 h6 h7 where x: "x = (h0, h1, h2, h3, h4, h5, h6, h7)"
    by (cases x rule: state_list.cases)
  have w: "message_schedule C s ! i = fips_W B i" if "i \<in> set [0..<64]" for i
    using that unfolding message_schedule_is_W [OF assms] B_def [symmetric] by (subst nth_map) (simp_all del: upt_rec_numeral)
  have r: "fold (transform_round (message_schedule C s)) [0..<64] (state_list x) = [a, b, c, d, e, f, g, h]"
    using transform_rounds_are_fips [OF w, of "[0..<64]" x] unfolding y by (simp del: upt_rec_numeral)
  show ?thesis
    using y r unfolding sha256Transform_def Let_def B_def [symmetric] x
    by (simp only: state_list.simps fips_block.simps add_to_hash_value prod.case)
qed


text \<open>The blocks of a message with a tail are its full chunks and the blocks of what is left with the tail.\<close>

lemma take_chunk_in_chunks:
  assumes "i < length M div 64"
  shows "i * 64 + 64 \<le> length M"
proof -
  have "Suc i * 64 \<le> length M div 64 * 64" using assms by (intro mult_le_mono1) simp
  then show ?thesis using div_times_less_eq_dividend [of "length M" 64] by simp
qed

lemma fips_blocks_append:
  "fips_blocks (M @ t) = map (\<lambda>i. take 64 (drop (i * 64) M)) [0..<length M div 64] @
     fips_blocks (drop (length M div 64 * 64) M @ t)"
proof (induction M rule: fips_blocks.induct)
  case (1 M)
  show ?case
  proof (cases "length M < 64")
    case False
    have d: "length M div 64 = Suc (length (drop 64 M) div 64)"
      using False by (simp add: le_div_geq not_less)
    have "fips_blocks (M @ t) = take 64 M # fips_blocks (drop 64 M @ t)"
      using False by (subst fips_blocks.simps) simp
    also have "\<dots> = take 64 M # map (\<lambda>i. take 64 (drop (i * 64) (drop 64 M))) [0..<length (drop 64 M) div 64] @
        fips_blocks (drop (length (drop 64 M) div 64 * 64) (drop 64 M) @ t)"
      using 1 False by simp
    finally show ?thesis unfolding d
      by (simp add: upt_conv_Cons map_Suc_upt [symmetric] add.commute del: upt_Suc)
  qed simp
qed

lemma fold_transform_chunks:
  assumes "\<And>i. i \<in> set is \<Longrightarrow> i * 64 + 64 \<le> length C"
  shows "fold (\<lambda>i. sha256Transform C (i * 64)) is (state_list x) =
    state_list (fold fips_block (map (\<lambda>i. take 64 (drop (i * 64) C)) is) x)"
  using assms by (induction "is" arbitrary: x) (simp_all add: transform_is_fips)

lemma fold_transform_blocks:
  assumes "\<And>c. c \<in> set cs \<Longrightarrow> length c = 64"
  shows "fold (\<lambda>c. sha256Transform c 0) cs (state_list x) = state_list (fold fips_block cs x)"
  using assms by (induction cs arbitrary: x) (simp_all add: transform_is_fips)

lemma fips_blocks_one: "length c = 64 \<Longrightarrow> fips_blocks (c @ M) = c # fips_blocks M"
  by (subst fips_blocks.simps) simp

lemma fips_blocks_Nil [simp]: "fips_blocks [] = []"
  by (subst fips_blocks.simps) simp

lemma length_bytes:
  "map (\<lambda>i. ucast (drop_bit ((8 - i - 1) * 8) n AND 0xff) :: u8) [0..<8] =
   map (\<lambda>i. ucast (drop_bit (8 * (7 - i)) (n :: u64))) [0..<8]"
proof -
  have "ucast (drop_bit k n AND 0xff) = (ucast (drop_bit k n) :: u8)" for k
    by (rule bit_word_eqI) (auto simp: bit_simps word_size less_Suc_eq eval_nat_numeral)
  moreover have "(8 - i - 1) * 8 = 8 * (7 - i)" for i :: nat by simp
  ultimately show ?thesis by (simp only:)
qed

text \<open>The last chunk, or two, that the routine makes are what is left of the message with the padding of the standard.\<close>

lemma fips_pad_tail:
  assumes "length r = length M mod 64" "length l = 8"
  shows "fips_blocks (r @ 0x80 # replicate ((119 - length M mod 64) mod 64) 0 @ l) =
    (if length r < 56 then [r @ 0x80 # replicate (55 - length r) 0 @ l]
     else [r @ 0x80 # replicate (63 - length r) 0, replicate 56 0 @ l])"
proof (cases "length r < 56")
  case True
  have "(119 - length r) mod 64 = 55 - length r"
    using True mod_add_self2 [of "55 - length r" 64] by (simp add: algebra_simps)
  moreover have "fips_blocks ((r @ 0x80 # replicate (55 - length r) 0 @ l) @ []) = [r @ 0x80 # replicate (55 - length r) 0 @ l]"
    using True assms(2) by (subst fips_blocks_one) simp_all
  ultimately show ?thesis using True assms(1) by simp
next
  case False
  have "length r < 64" using assms by simp
  with False have m: "(119 - length r) mod 64 = (63 - length r) + 56" by simp
  have "fips_blocks ((r @ 0x80 # replicate (63 - length r) 0) @ (replicate 56 0 @ l) @ []) =
      [r @ 0x80 # replicate (63 - length r) 0, replicate 56 0 @ l]"
    using False \<open>length r < 64\<close> assms(2) by (subst fips_blocks_one, simp, subst fips_blocks_one) simp_all
  moreover have "r @ 0x80 # replicate ((119 - length r) mod 64) 0 @ l =
      (r @ 0x80 # replicate (63 - length r) 0) @ (replicate 56 0 @ l) @ []"
    unfolding m replicate_add by simp
  ultimately show ?thesis using False assms(1) by (simp only: if_False)
qed

lemma sha256_is_fips_180_4: "sha256 src = fips_sha256 src"
proof -
  define r where "r = drop (length src div 64 * 64) src"
  define l where "l = map (\<lambda>i. ucast (drop_bit (8 * (7 - i)) (of_nat (8 * length src) :: u64)) :: u8) [0..<8]"
  define H0 :: fips_state where
    "H0 = (0x6a09e667, 0xbb67ae85, 0x3c6ef372, 0xa54ff53a, 0x510e527f, 0x9b05688c, 0x1f83d9ab, 0x5be0cd19)"
  define tail where "tail = (if length r < 56 then [r @ 0x80 # replicate (55 - length r) 0 @ l]
     else [r @ 0x80 # replicate (63 - length r) 0, replicate 56 0 @ l])"
  have r: "length r = length src mod 64" "length r < 64"
    by (simp_all add: r_def minus_div_mult_eq_mod)
  have l: "length l = 8" by (simp add: l_def)
  define H where "H = fold fips_block (map (\<lambda>i. take 64 (drop (i * 64) src)) [0..<length src div 64]) H0"
  have "fips_blocks (fips_pad src) = map (\<lambda>i. take 64 (drop (i * 64) src)) [0..<length src div 64] @ tail"
    unfolding fips_pad_def l_def [symmetric] tail_def fips_pad_tail [OF r(1) l, symmetric]
    using fips_blocks_append [of src, folded r_def] .
  then have fips: "fips_sha256 src = concat (map word_bytes (state_list (fold fips_block tail H)))"
    unfolding fips_sha256_def H0_def [symmetric] H_def
    by (cases "fold fips_block tail H" rule: state_list.cases) (simp add: H_def)
  have init: "sha256Init = state_list H0" by (simp add: sha256Init_def H0_def)
  have full: "fold (\<lambda>i. sha256Transform src (i * 64)) [0..<length src div 64] sha256Init = state_list H"
    unfolding init H_def by (rule fold_transform_chunks) (simp add: take_chunk_in_chunks)
  have last: "fold (\<lambda>c. sha256Transform c 0) tail (state_list H) = state_list (fold fips_block tail H)"
    using r l by (intro fold_transform_blocks) (auto simp: tail_def split: if_split_asm)
  have l': "map (\<lambda>i. ucast (drop_bit ((8 - i - 1) * 8) (of_nat (length src) * 8 :: u64) AND 0xff)) [0..<8] = l"
    unfolding length_bytes l_def by (simp add: mult.commute)
  show ?thesis
  proof (cases "length src mod 64 < 56")
    case True
    then show ?thesis
      using r l last unfolding sha256_def Let_def full fips r_def [symmetric] l'
      by (simp add: tail_def)
  next
    case False
    then show ?thesis
      using r l last unfolding sha256_def Let_def full fips r_def [symmetric] l'
      by (simp add: tail_def)
  qed
qed

lemma length_concat_word_bytes: "length (concat (map word_bytes ws)) = 4 * length ws"
  by (induction ws) (simp_all add: word_bytes_def)

lemma length_fips_sha256: "length (fips_sha256 M) = 32"
  by (auto simp: fips_sha256_def length_concat_word_bytes simp del: concat.simps list.map split: prod.split)

lemma map2_replicate: "length xs = n \<Longrightarrow> map2 f xs (replicate n y) = map (\<lambda>i. f (xs ! i) y) [0..<n]"
  by (rule nth_equalityI) simp_all


end
