(* ===== verification/Authentication.thy ===== *)
theory Authentication
  imports AuthResults Crypto OlpClient LruCache
begin

text \<open>
  The authentication client: \<open>src/AuthenticationClient.cpp\<close>.

  A sign-in with client credentials takes two exchanges with the network, the time of the server and the
  token; it is a flow whose steps are the start, the two answers of the network, and a cancellation, in
  any order. Requests for users take one exchange. A step that runs into an assertion of RapidJSON or
  reads through a null pointer is \<^term>\<open>None\<close>.
\<close>

section \<open>The libraries outside\<close>

text \<open>RapidJSON's parser and writer, the Base64 of Boost, and the user agent that the build sets.\<close>

record auth_lib =
  parse_json :: "string \<Rightarrow> json option"
  write_json :: "json \<Rightarrow> string"
  base64_of :: "u8 list \<Rightarrow> string"
  auth_user_agent :: string

text \<open>What a request reads of its surroundings: the clock, a new UUID, and the outcome of \<open>Send\<close>.\<close>

record send_inputs =
  in_clock :: int
  in_uid :: string
  in_outcome :: "network_request \<Rightarrow> send_outcome"

section \<open>Bodies\<close>

record sign_in_properties =
  si_scope :: "string option"
  si_expires_in :: int

record user_properties =
  up_email :: string
  up_password :: string
  up_expires_in :: u32

record federated_properties =
  fp_access_token :: string
  fp_country_code :: string
  fp_language :: string
  fp_email :: string
  fp_expires_in :: u32

record refresh_properties =
  rp_access_token :: string
  rp_refresh_token :: string
  rp_expires_in :: u32

record sign_up_properties =
  su_email :: string
  su_password :: string
  su_date_of_birth :: string
  su_first_name :: string
  su_last_name :: string
  su_country_code :: string
  su_language :: string
  su_marketing_enabled :: bool
  su_phone_number :: string
  su_realm :: string
  su_invite_token :: string

datatype federated_sign_in_type = FacebookSignIn | GoogleSignIn | ArcgisSignIn

definition body_string :: "string \<Rightarrow> string \<Rightarrow> (string \<times> json) list" where
  "body_string k s = (if s = [] then [] else [(k, JString (c_str s))])"

definition body_uint :: "string \<Rightarrow> u32 \<Rightarrow> (string \<times> json) list" where
  "body_uint k n = (if 0 < n then [(k, JInt (uint n))] else [])"

definition generate_client_body :: "sign_in_properties \<Rightarrow> json" where
  "generate_client_body p = JObject
     ([(''grantType'', JString ''client_credentials'')] @
      body_uint ''expiresIn'' (of_int (si_expires_in p)) @
      (case si_scope p of None \<Rightarrow> [] | Some s \<Rightarrow> [(''scope'', JString (c_str s))]))"

definition generate_user_body :: "user_properties \<Rightarrow> json" where
  "generate_user_body p = JObject
     ([(''grantType'', JString ''password'')] @
      body_string ''email'' (up_email p) @
      body_string ''password'' (up_password p) @
      body_uint ''expiresIn'' (up_expires_in p))"

fun federated_grant_type :: "federated_sign_in_type \<Rightarrow> string" where
  "federated_grant_type FacebookSignIn = ''facebook''"
| "federated_grant_type GoogleSignIn = ''google''"
| "federated_grant_type ArcgisSignIn = ''arcgis''"

definition generate_federated_body :: "federated_sign_in_type \<Rightarrow> federated_properties \<Rightarrow> json" where
  "generate_federated_body type p = JObject
     ([(''grantType'', JString (federated_grant_type type))] @
      body_string ''accessToken'' (fp_access_token p) @
      body_string ''countryCode'' (fp_country_code p) @
      body_string ''language'' (fp_language p) @
      body_string ''email'' (fp_email p) @
      body_uint ''expiresIn'' (fp_expires_in p))"

definition generate_refresh_body :: "refresh_properties \<Rightarrow> json" where
  "generate_refresh_body p = JObject
     ([(''grantType'', JString ''refresh_token'')] @
      body_string ''accessToken'' (rp_access_token p) @
      body_string ''refreshToken'' (rp_refresh_token p) @
      body_uint ''expiresIn'' (rp_expires_in p))"

definition generate_sign_up_body :: "sign_up_properties \<Rightarrow> json" where
  "generate_sign_up_body p = JObject
     (body_string ''email'' (su_email p) @
      body_string ''password'' (su_password p) @
      body_string ''dob'' (su_date_of_birth p) @
      body_string ''firstname'' (su_first_name p) @
      body_string ''lastname'' (su_last_name p) @
      body_string ''countryCode'' (su_country_code p) @
      body_string ''language'' (su_language p) @
      (if su_marketing_enabled p then [(''marketingEnabled'', JBool True)] else []) @
      body_string ''phoneNumber'' (su_phone_number p) @
      body_string ''realm'' (su_realm p) @
      body_string ''inviteToken'' (su_invite_token p))"

definition generate_accept_term_body :: "string \<Rightarrow> json" where
  "generate_accept_term_body reacceptance_token =
     JObject [(''termsReacceptanceToken'', JString (c_str reacceptance_token))]"

section \<open>Signatures\<close>

text \<open>Base64 may come in lines: the first one counts.\<close>

definition base64_encode :: "auth_lib \<Rightarrow> u8 list \<Rightarrow> string" where
  "base64_encode lib bytes = takeWhile (\<lambda>c. c \<noteq> CHR 0x0A) (base64_of lib bytes)"

definition signature_base :: "credentials \<Rightarrow> string \<Rightarrow> string \<Rightarrow> string \<Rightarrow> string" where
  "signature_base cred url uid current_time =
     ''POST'' @ ''&'' @ url_encode url @ ''&'' @
     url_encode (''oauth_consumer_key'' @ ''='' @ cred_key cred @ ''&'' @
       ''oauth_nonce'' @ ''='' @ uid @ ''&'' @
       ''oauth_signature_method'' @ ''='' @ ''HMAC-SHA256'' @ ''&'' @
       ''oauth_timestamp'' @ ''='' @ current_time @ ''&'' @
       ''oauth_version'' @ ''='' @ ''1.0'')"

definition quoted :: "string \<Rightarrow> string \<Rightarrow> string" where
  "quoted name v = name @ ''='' @ [CHR 0x22] @ v @ [CHR 0x22]"

definition generate_header :: "auth_lib \<Rightarrow> string \<Rightarrow> credentials \<Rightarrow> string \<Rightarrow> int \<Rightarrow> string" where
  "generate_header lib uid cred url timestamp =
     (let current_time = int_to_string timestamp;
          hmac_result = hmac_sha256 (cred_secret cred @ ''&'') (signature_base cred url uid current_time);
          signature = base64_encode lib hmac_result
      in ''OAuth '' @ quoted ''oauth_consumer_key'' (url_encode (cred_key cred)) @ '','' @
         quoted ''oauth_nonce'' (url_encode uid) @ '','' @
         quoted ''oauth_signature_method'' ''HMAC-SHA256'' @ '','' @
         quoted ''oauth_timestamp'' (url_encode current_time) @ '','' @
         quoted ''oauth_version'' ''1.0'' @ '','' @
         quoted ''oauth_signature'' (url_encode signature))"

definition generate_bearer_header :: "string \<Rightarrow> string" where
  "generate_bearer_header bearer_token = ''Bearer'' @ '' '' @ bearer_token"

section \<open>The client\<close>

text \<open>Networks and schedulers are known by their addresses.\<close>

record auth_client =
  server_url :: string
  client_token_cache :: "(string, sign_in_result) lru_cache"
  user_token_cache :: "(string, sign_in_user_result) lru_cache"
  auth_network_settings :: network_settings
  auth_network :: "nat option"
  auth_scheduler :: "nat option"

definition auth_client_new :: "string \<Rightarrow> u64 \<Rightarrow> auth_client" where
  "auth_client_new url token_cache_limit =
     \<lparr>server_url = url, client_token_cache = lru_new token_cache_limit, user_token_cache = lru_new token_cache_limit,
      auth_network_settings = default_network_settings, auth_network = None, auth_scheduler = None\<rparr>"

definition set_network_proxy_settings :: "network_proxy_settings \<Rightarrow> auth_client \<Rightarrow> auth_client" where
  "set_network_proxy_settings p c = c\<lparr>auth_network_settings := (auth_network_settings c)\<lparr>net_proxy := p\<rparr>\<rparr>"

definition set_network :: "nat option \<Rightarrow> auth_client \<Rightarrow> auth_client" where
  "set_network n c = (if auth_network c \<noteq> n then c\<lparr>auth_network := n\<rparr> else c)"

definition set_task_scheduler :: "nat option \<Rightarrow> auth_client \<Rightarrow> auth_client" where
  "set_task_scheduler s c = (if auth_scheduler c \<noteq> s then c\<lparr>auth_scheduler := s\<rparr> else c)"

text \<open>Where a callback runs that is not a callback of the network.\<close>

datatype delivery = Immediately | Scheduled

definition execute_or_schedule :: "auth_client \<Rightarrow> delivery" where
  "execute_or_schedule c = (if auth_scheduler c = None then Immediately else Scheduled)"

text \<open>A failed \<open>Send\<close>.\<close>

definition refused :: "send_outcome \<Rightarrow> authentication_error" where
  "refused oc = authentication_error_of (http_error_value (outcome_error oc)) (http_error_string (outcome_error oc))"

section \<open>The time of the server\<close>

definition time_request :: "auth_lib \<Rightarrow> auth_client \<Rightarrow> network_request" where
  "time_request lib c =
     (with_header ''User-Agent'' (auth_user_agent lib) (request_of_url (server_url c @ ''/timestamp'')))
       \<lparr>request_verb := GET, request_settings := auth_network_settings c\<rparr>"

definition parse_time_response :: "json option \<Rightarrow> int api_response" where
  "parse_time_response doc =
     (case doc of
        Some (JObject ms) \<Rightarrow>
          (case Option.bind (map_of ms ''timestamp'') uint_from_json of
             None \<Rightarrow> Inl (api_error_of_code InternalFailure ''JSON document must contain timestamp integer field'' False)
           | Some t \<Rightarrow> Inr t)
      | _ \<Rightarrow> Inl (api_error_of_code InternalFailure ''JSON document root is not an Object type'' False))"

definition time_response :: "auth_lib \<Rightarrow> network_response \<Rightarrow> string \<Rightarrow> int api_response" where
  "time_response lib response payload =
     (if net_status response \<noteq> HTTP_OK then Inl (api_error_of_status (net_status response) (net_error response))
      else parse_time_response (parse_json lib payload))"

section \<open>Sign-in with client credentials\<close>

definition post_request :: "auth_lib \<Rightarrow> auth_client \<Rightarrow> string \<Rightarrow> string \<Rightarrow> network_request" where
  "post_request lib c url authorization =
     (with_header ''User-Agent'' (auth_user_agent lib)
       (with_header ''Content-Type'' ''application/json''
         (with_header ''Authorization'' authorization (request_of_url url))))
       \<lparr>request_verb := POST, request_settings := auth_network_settings c\<rparr>"

definition sign_in_request ::
  "auth_lib \<Rightarrow> string \<Rightarrow> int \<Rightarrow> credentials \<Rightarrow> sign_in_properties \<Rightarrow> auth_client \<Rightarrow> network_request" where
  "sign_in_request lib uid timestamp cred props c =
     (let url = server_url c @ ''/oauth2/token''
      in (post_request lib c url (generate_header lib uid cred url timestamp))
           \<lparr>request_body := Some (write_json lib (generate_client_body props))\<rparr>)"

text \<open>
  The answer to the token request: the cache of tokens is asked when the network failed, and filled when
  the status is \<open>200\<close>.
\<close>

definition client_answer ::
  "auth_lib \<Rightarrow> int \<Rightarrow> int \<Rightarrow> credentials \<Rightarrow> network_response \<Rightarrow> string \<Rightarrow> (string, sign_in_result) lru_cache \<Rightarrow>
   ((string, sign_in_result) lru_cache \<times> (authentication_error + sign_in_result)) option" where
  "client_answer lib stale now cred response payload cache =
     (let status = net_status response; error_msg = net_error response in
      if status < 0 then
        (if status = http_error_value CANCELLED_ERROR then Some (cache, Inl (authentication_error_of status error_msg))
         else do {
           (cache, it) \<leftarrow> lru_find (cred_key cred) cache;
           (case it of
              None \<Rightarrow> Some (cache, Inl (authentication_error_of status error_msg))
            | Some k \<Rightarrow> do { r \<leftarrow> it_value cache it; Some (cache, Inr r) }) })
      else do {
        result \<leftarrow> sign_in_result stale now status error_msg (parse_json lib payload);
        if status = HTTP_OK then do {
          (cache, _) \<leftarrow> lru_insert_or_assign (\<lambda>_. 1) (cred_key cred) result cache;
          Some (cache, Inr result) }
        else Some (cache, Inr result) })"

text \<open>A flow: where it is, the request that its context would cancel, the requests sent, the callbacks made.\<close>

datatype sign_in_pc = TimePending u64 | TokenPending u64 | SignInDone

record sign_in_flow =
  flow_cred :: credentials
  flow_props :: sign_in_properties
  flow_pc :: sign_in_pc
  flow_operation :: "u64 option"
  flow_cancelled :: bool
  flow_sent :: "network_request list"
  flow_replies :: "(delivery \<times> (authentication_error + sign_in_result)) list"

definition reply_with :: "delivery \<Rightarrow> authentication_error + sign_in_result \<Rightarrow> sign_in_flow \<Rightarrow> sign_in_flow" where
  "reply_with d r f = f\<lparr>flow_pc := SignInDone, flow_replies := flow_replies f @ [(d, r)]\<rparr>"

text \<open>\<open>time_callback\<close>: the clock of the machine is the fallback.\<close>

definition time_callback ::
  "auth_lib \<Rightarrow> send_inputs \<Rightarrow> auth_client \<Rightarrow> int api_response \<Rightarrow> sign_in_flow \<Rightarrow> sign_in_flow option" where
  "time_callback lib inp c response f =
     (let timestamp = (case response of Inr t \<Rightarrow> t | Inl _ \<Rightarrow> in_clock inp);
          request = sign_in_request lib (in_uid inp) timestamp (flow_cred f) (flow_props f) c
      in if flow_cancelled f
         then Some (reply_with Immediately
           (Inl (authentication_error_of (http_error_value CANCELLED_ERROR) ''Cancelled'')) f)
         else if auth_network c = None then None
         else
          (let oc = in_outcome inp request; f = f\<lparr>flow_sent := flow_sent f @ [request]\<rparr> in
           if \<not> outcome_successful oc
           then Some (reply_with Immediately (Inl (refused oc)) (f\<lparr>flow_operation := None\<rparr>))
           else Some (f\<lparr>flow_pc := TokenPending (outcome_request_id oc),
                        flow_operation := Some (outcome_request_id oc)\<rparr>)))"

text \<open>
  \<open>SignInClient\<close> with \<open>GetTimeFromServer\<close>. When \<open>Send\<close> refuses the request for the time, the callback runs inside of
  the function that \<open>ExecuteOrCancelled\<close> executes, which then stores the empty token of that function.
\<close>

definition start_sign_in ::
  "auth_lib \<Rightarrow> send_inputs \<Rightarrow> send_inputs \<Rightarrow> credentials \<Rightarrow> sign_in_properties \<Rightarrow> auth_client \<Rightarrow> sign_in_flow option" where
  "start_sign_in lib inp1 inp2 cred props c =
     (let f = \<lparr>flow_cred = cred, flow_props = props, flow_pc = SignInDone, flow_operation = None,
               flow_cancelled = False, flow_sent = [], flow_replies = []\<rparr> in
      if auth_network c = None
      then Some (reply_with (execute_or_schedule c)
        (Inl (authentication_error_of (http_error_value IO_ERROR) ''Cannot sign in while offline'')) f)
      else
       (let request = time_request lib c; oc = in_outcome inp1 request; f = f\<lparr>flow_sent := [request]\<rparr> in
        if \<not> outcome_successful oc
        then map_option (\<lambda>f. f\<lparr>flow_operation := None\<rparr>)
          (time_callback lib inp2 c
            (Inl (api_error_of_status (http_error_value (outcome_error oc)) (http_error_string (outcome_error oc)))) f)
        else Some (f\<lparr>flow_pc := TimePending (outcome_request_id oc),
                     flow_operation := Some (outcome_request_id oc)\<rparr>)))"

text \<open>The callbacks of the network, which it makes while the request is pending.\<close>

definition deliver_time ::
  "auth_lib \<Rightarrow> send_inputs \<Rightarrow> auth_client \<Rightarrow> network_response \<Rightarrow> string \<Rightarrow> sign_in_flow \<Rightarrow> sign_in_flow option" where
  "deliver_time lib inp c response payload f = time_callback lib inp c (time_response lib response payload) f"

definition deliver_token ::
  "auth_lib \<Rightarrow> int \<Rightarrow> int \<Rightarrow> network_response \<Rightarrow> string \<Rightarrow> auth_client \<Rightarrow> sign_in_flow \<Rightarrow>
   (auth_client \<times> sign_in_flow) option" where
  "deliver_token lib stale now response payload c f = do {
     (cache, r) \<leftarrow> client_answer lib stale now (flow_cred f) response payload (client_token_cache c);
     Some (c\<lparr>client_token_cache := cache\<rparr>, reply_with Immediately r f) }"

text \<open>The token that \<open>SignInClient\<close> returns: the request that \<open>Cancel\<close> of the network is called with.\<close>

definition cancel_sign_in :: "sign_in_flow \<Rightarrow> sign_in_flow \<times> u64 option" where
  "cancel_sign_in f =
     (if flow_cancelled f then (f, None)
      else (f\<lparr>flow_operation := None, flow_cancelled := True\<rparr>, flow_operation f))"

section \<open>Requests for users\<close>

text \<open>The callback at once, or a request with its identifier.\<close>

datatype 'r call_result = Replied delivery "authentication_error + 'r" | Pending u64 network_request

definition send_or_refuse :: "send_inputs \<Rightarrow> auth_client \<Rightarrow> network_request \<Rightarrow> 'r call_result" where
  "send_or_refuse inp c request =
     (let oc = in_outcome inp request in
      if \<not> outcome_successful oc then Replied (execute_or_schedule c) (Inl (refused oc))
      else Pending (outcome_request_id oc) request)"

definition offline_error :: "auth_client \<Rightarrow> string \<Rightarrow> 'r call_result" where
  "offline_error c message =
     Replied (execute_or_schedule c) (Inl (authentication_error_of (http_error_value IO_ERROR) message))"

definition handle_user_request ::
  "auth_lib \<Rightarrow> send_inputs \<Rightarrow> credentials \<Rightarrow> string \<Rightarrow> json \<Rightarrow> auth_client \<Rightarrow> sign_in_user_result call_result" where
  "handle_user_request lib inp cred endpoint body c =
     (if auth_network c = None then offline_error c ''Cannot handle user request while offline''
      else
       (let url = server_url c @ endpoint;
            request = post_request lib c url (generate_header lib (in_uid inp) cred url (in_clock inp))
        in send_or_refuse inp c (request\<lparr>request_body := Some (write_json lib body)\<rparr>)))"

definition sign_in_here_user ::
  "auth_lib \<Rightarrow> send_inputs \<Rightarrow> credentials \<Rightarrow> user_properties \<Rightarrow> auth_client \<Rightarrow> sign_in_user_result call_result" where
  "sign_in_here_user lib inp cred props = handle_user_request lib inp cred ''/oauth2/token'' (generate_user_body props)"

definition sign_in_refresh ::
  "auth_lib \<Rightarrow> send_inputs \<Rightarrow> credentials \<Rightarrow> refresh_properties \<Rightarrow> auth_client \<Rightarrow> sign_in_user_result call_result" where
  "sign_in_refresh lib inp cred props = handle_user_request lib inp cred ''/oauth2/token'' (generate_refresh_body props)"

definition sign_in_federated ::
  "auth_lib \<Rightarrow> send_inputs \<Rightarrow> credentials \<Rightarrow> federated_sign_in_type \<Rightarrow> federated_properties \<Rightarrow> auth_client \<Rightarrow>
   sign_in_user_result call_result" where
  "sign_in_federated lib inp cred type props =
     handle_user_request lib inp cred ''/oauth2/token'' (generate_federated_body type props)"

definition accept_terms ::
  "auth_lib \<Rightarrow> send_inputs \<Rightarrow> credentials \<Rightarrow> string \<Rightarrow> auth_client \<Rightarrow> sign_in_user_result call_result" where
  "accept_terms lib inp cred reacceptance_token =
     handle_user_request lib inp cred ''/terms'' (generate_accept_term_body reacceptance_token)"

text \<open>The callback of the network. A result that is not valid is never stored.\<close>

definition user_answer ::
  "auth_lib \<Rightarrow> int \<Rightarrow> int \<Rightarrow> credentials \<Rightarrow> network_response \<Rightarrow> string \<Rightarrow> auth_client \<Rightarrow>
   (auth_client \<times> (authentication_error + sign_in_user_result)) option" where
  "user_answer lib stale now cred response payload c =
     (let status = net_status response; error_msg = net_error response; cache = user_token_cache c in
      if status < 0 then
        (if status = http_error_value CANCELLED_ERROR then Some (c, Inl (authentication_error_of status error_msg))
         else do {
           (cache, it) \<leftarrow> lru_find (cred_key cred) cache;
           let c = c\<lparr>user_token_cache := cache\<rparr>;
           (case it of
              None \<Rightarrow> do { r \<leftarrow> sign_in_user_result stale now status error_msg None; Some (c, Inr r) }
            | Some k \<Rightarrow> do { r \<leftarrow> it_value cache it; Some (c, Inr r) }) })
      else do {
        result \<leftarrow> sign_in_user_result stale now status error_msg (parse_json lib payload);
        if \<not> sr_is_valid result then Some (c, Inr result)
        else if status = HTTP_OK then do {
          (cache, _) \<leftarrow> lru_insert_or_assign (\<lambda>_. 1) (cred_key cred) result cache;
          Some (c\<lparr>user_token_cache := cache\<rparr>, Inr result) }
        else Some (c, Inr result) })"

definition sign_up_here_user ::
  "auth_lib \<Rightarrow> send_inputs \<Rightarrow> credentials \<Rightarrow> sign_up_properties \<Rightarrow> auth_client \<Rightarrow> sign_up_result call_result" where
  "sign_up_here_user lib inp cred props c =
     (if auth_network c = None then offline_error c ''Cannot sign up while offline''
      else
       (let url = server_url c @ ''/user'';
            request = post_request lib c url (generate_header lib (in_uid inp) cred url (in_clock inp))
        in send_or_refuse inp c (request\<lparr>request_body := Some (write_json lib (generate_sign_up_body props))\<rparr>)))"

definition sign_up_answer ::
  "auth_lib \<Rightarrow> network_response \<Rightarrow> string \<Rightarrow> (authentication_error + sign_up_result) option" where
  "sign_up_answer lib response payload =
     (if net_status response < 0 then Some (Inl (authentication_error_of (net_status response) (net_error response)))
      else map_option Inr (sign_up_result (net_status response) (net_error response) (parse_json lib payload)))"

definition sign_out ::
  "auth_lib \<Rightarrow> send_inputs \<Rightarrow> credentials \<Rightarrow> string \<Rightarrow> auth_client \<Rightarrow> base_result call_result" where
  "sign_out lib inp cred user_access_token c =
     (if auth_network c = None then offline_error c ''Cannot sign out while offline''
      else send_or_refuse inp c
        ((with_header ''User-Agent'' (auth_user_agent lib)
           (with_header ''Authorization'' (generate_bearer_header user_access_token)
             (request_of_url (server_url c @ ''/logout''))))
           \<lparr>request_verb := POST, request_settings := auth_network_settings c\<rparr>))"

definition sign_out_answer ::
  "auth_lib \<Rightarrow> network_response \<Rightarrow> string \<Rightarrow> (authentication_error + base_result) option" where
  "sign_out_answer lib response payload =
     (if net_status response < 0 then Some (Inl (authentication_error_of (net_status response) (net_error response)))
      else map_option Inr (sign_out_result (net_status response) (net_error response) (parse_json lib payload)))"

section \<open>Tokens while the network fails\<close>

text \<open>An answer of the network to a token request, and the pairs that a sequence of answers stores.\<close>

type_synonym token_answer = "int \<times> int \<times> credentials \<times> network_response \<times> string"

fun answer_step ::
  "auth_lib \<Rightarrow> (string, sign_in_result) lru_cache \<Rightarrow> token_answer \<Rightarrow>
   ((string, sign_in_result) lru_cache \<times> (authentication_error + sign_in_result)) option" where
  "answer_step lib cache (stale, now, cred, response, payload) = client_answer lib stale now cred response payload cache"

fun ok_result :: "auth_lib \<Rightarrow> token_answer \<Rightarrow> (string \<times> sign_in_result) option" where
  "ok_result lib (stale, now, cred, response, payload) =
     (if net_status response = HTTP_OK
      then map_option (Pair (cred_key cred))
        (sign_in_result stale now (net_status response) (net_error response) (parse_json lib payload))
      else None)"

definition ok_results :: "auth_lib \<Rightarrow> token_answer list \<Rightarrow> (string \<times> sign_in_result) list" where
  "ok_results lib answers = List.map_filter (ok_result lib) answers"

definition last_ok :: "auth_lib \<Rightarrow> string \<Rightarrow> token_answer list \<Rightarrow> sign_in_result option" where
  "last_ok lib key answers = map_of (rev (ok_results lib answers)) key"

definition tokens_inv ::
  "u64 \<Rightarrow> (string, sign_in_result) lru_cache \<Rightarrow> (string \<times> sign_in_result) list \<Rightarrow> bool" where
  "tokens_inv limit cache oks \<longleftrightarrow>
     (\<exists>items. lru_rel (\<lambda>_. 1) cache items \<and> max_size cache = limit \<and> map_of items \<subseteq>\<^sub>m map_of (rev oks) \<and>
        (card (fst ` set oks) \<le> unat limit \<longrightarrow> map_of items = map_of (rev oks)))"

lemma total_one: "total (\<lambda>_. 1) xs = of_nat (length xs)"
  by (induction xs) simp_all

lemma spec_evict_unchanged: "length xs \<le> unat mx \<Longrightarrow> spec_evict (\<lambda>_. 1) mx xs = (xs, [])"
proof -
  assume l: "length xs \<le> unat mx"
  have "unat (of_nat (length xs) :: u64) \<le> length xs" by (simp add: unat_of_nat)
  then have "\<not> mx < of_nat (length xs)" using l by (simp add: word_less_nat_alt)
  then show ?thesis by (simp add: spec_evict.simps total_one)
qed

lemma spec_assign_room:
  assumes "distinct (map fst xs)" "card (insert k (fst ` set xs)) \<le> unat mx"
  shows "map_of (fst (spec_assign (\<lambda>_. 1) mx k v xs)) = (map_of xs)(k \<mapsto> v)"
proof (cases "map_of xs k")
  case None
  then have k: "k \<notin> fst ` set xs" by (simp add: map_of_eq_None_iff)
  have "length xs = card (fst ` set xs)" using assms(1) distinct_card [of "map fst xs"] by simp
  then have l: "length ((k, v) # xs) \<le> unat mx" using assms(2) k by simp
  then have "\<not> mx < 1" by (auto simp: word_less_nat_alt)
  then show ?thesis using None spec_evict_unchanged [OF l] by (simp add: spec_assign_def)
next
  case (Some w)
  then have k: "insert k (fst ` set xs) = fst ` set xs" by (force dest: map_of_SomeD)
  have "length (to_front k v xs) = card (fst ` set (to_front k v xs))"
    using distinct_card [of "map fst (to_front k v xs)"] distinct_to_front [OF assms(1), of k v] by simp
  also have "\<dots> \<le> card (insert k (fst ` set xs))"
    by (intro card_mono) (auto simp: to_front_def)
  finally have l: "length (to_front k v xs) \<le> unat mx" using assms(2) by linarith
  then show ?thesis using Some spec_evict_unchanged [OF l] by (simp add: spec_assign_def map_of_to_front_upd)
qed

lemma tokens_inv_store:
  assumes "tokens_inv limit cache oks"
  shows "\<exists>cache' r. lru_insert_or_assign (\<lambda>_. 1) k v cache = Some (cache', r) \<and> tokens_inv limit cache' (oks @ [(k, v)])"
proof -
  obtain items where i: "lru_rel (\<lambda>_. 1) cache items" "max_size cache = limit" "map_of items \<subseteq>\<^sub>m map_of (rev oks)"
    "card (fst ` set oks) \<le> unat limit \<Longrightarrow> map_of items = map_of (rev oks)"
    using assms by (auto simp: tokens_inv_def)
  let ?items = "fst (spec_assign (\<lambda>_. 1) limit k v items)"
  obtain cache' where c: "lru_insert_or_assign (\<lambda>_. 1) k v cache = Some (cache', snd (spec_assign (\<lambda>_. 1) limit k v items))"
    "lru_rel (\<lambda>_. 1) cache' ?items" "max_size cache' = limit"
    using lru_insert_or_assign_refines [OF i(1), of k v] i(2) by auto
  have "map_of ?items \<subseteq>\<^sub>m (map_of items)(k \<mapsto> v)" by (rule map_of_spec_assign)
  also have "\<dots> \<subseteq>\<^sub>m map_of (rev (oks @ [(k, v)]))" using i(3) by (auto simp: map_le_def)
  finally have sub: "map_of ?items \<subseteq>\<^sub>m map_of (rev (oks @ [(k, v)]))" .
  moreover have "map_of ?items = map_of (rev (oks @ [(k, v)]))" if room: "card (fst ` set (oks @ [(k, v)])) \<le> unat limit"
  proof -
    have "card (fst ` set oks) \<le> card (fst ` set (oks @ [(k, v)]))" by (intro card_mono) auto
    then have m: "map_of items = map_of (rev oks)" using i(4) room by linarith
    then have "fst ` set items = fst ` set oks" by (metis dom_map_of_conv_image_fst set_rev)
    then show ?thesis
      using spec_assign_room [of items k limit v] room m lru_rel_distinct [OF i(1)] i(1) by (simp add: lru_rel_def)
  qed
  ultimately show ?thesis using c unfolding tokens_inv_def by (intro exI conjI) auto
qed

lemma tokens_inv_find:
  assumes "tokens_inv limit cache oks"
  shows "\<exists>cache' it. lru_find k cache = Some (cache', it) \<and> tokens_inv limit cache' oks \<and>
    (it = None \<and> (map_of (rev oks) k = None \<or> unat limit < card (fst ` set oks)) \<or>
     it = Some k \<and> it_value cache' it \<noteq> None \<and> it_value cache' it = map_of (rev oks) k)"
proof -
  obtain items where i: "lru_rel (\<lambda>_. 1) cache items" "max_size cache = limit" "map_of items \<subseteq>\<^sub>m map_of (rev oks)"
    "card (fst ` set oks) \<le> unat limit \<Longrightarrow> map_of items = map_of (rev oks)"
    using assms by (auto simp: tokens_inv_def)
  have same: "map_of (fst (spec_find k items)) = map_of items"
    by (auto simp: spec_find_def map_of_to_front_upd split: option.split)
  obtain cache' where c: "lru_find k cache = Some (cache', if map_of items k = None then None else Some k)"
    "lru_rel (\<lambda>_. 1) cache' (fst (spec_find k items))" "max_size cache' = limit"
    using lru_find_refines [OF i(1), of k] i(2) by auto
  have inv: "tokens_inv limit cache' oks"
    unfolding tokens_inv_def using c(2,3) same i(3,4) by (intro exI [of _ "fst (spec_find k items)"]) simp
  have v: "it_value cache' (Some k) = map_of items k" using it_value_rel [OF c(2)] same by simp
  show ?thesis
  proof (cases "map_of items k")
    case None
    then show ?thesis using c(1) inv i(4) by fastforce
  next
    case (Some r)
    then have "map_of (rev oks) k = Some r" using i(3) by (metis domI map_le_def)
    then show ?thesis using c(1) inv v Some by auto
  qed
qed

lemma answer_step_inv:
  assumes "tokens_inv limit cache oks" "answer_step lib cache a = Some (cache', r)"
  shows "tokens_inv limit cache' (oks @ ok_results lib [a])"
proof -
  obtain stale now cred response payload where a: "a = (stale, now, cred, response, payload)" by (cases a)
  note step = assms(2) [unfolded a, simplified, unfolded client_answer_def Let_def]
  consider (offline) "net_status response < 0" | (ok) "net_status response = 200"
    | (other) "\<not> net_status response < 0" "net_status response \<noteq> 200" by linarith
  then show ?thesis
  proof cases
    case offline
    then have "ok_results lib [a] = []" by (simp add: a ok_results_def List.map_filter_def)
    then show ?thesis
      using step assms(1) tokens_inv_find [OF assms(1), of "cred_key cred"] offline
      by (auto split: if_split_asm Option.bind_split_asm option.split_asm prod.split_asm)
  next
    case ok
    then obtain v where v: "sign_in_result stale now 200 (net_error response) (parse_json lib payload) = Some v"
      using step by (auto split: Option.bind_split_asm)
    then have "ok_results lib [a] = [(cred_key cred, v)]" using ok by (simp add: a ok_results_def List.map_filter_def)
    then show ?thesis using step ok v tokens_inv_store [OF assms(1), of "cred_key cred" v] by auto
  next
    case other
    then have "ok_results lib [a] = []" by (simp add: a ok_results_def List.map_filter_def)
    then show ?thesis using step assms(1) other by (auto split: Option.bind_split_asm)
  qed
qed

lemma answers_inv:
  "run_steps (answer_step lib) cache answers = Some (cache', rs) \<Longrightarrow> tokens_inv limit cache oks \<Longrightarrow>
   tokens_inv limit cache' (oks @ ok_results lib answers)"
proof (induction answers arbitrary: cache oks rs)
  case Nil
  then show ?case by (simp add: ok_results_def List.map_filter_def)
next
  case (Cons a answers)
  obtain c1 r rs' where c1: "answer_step lib cache a = Some (c1, r)" "run_steps (answer_step lib) c1 answers = Some (cache', rs')"
    using Cons.prems(1) by (auto split: Option.bind_split_asm prod.split_asm)
  have "ok_results lib (a # answers) = ok_results lib [a] @ ok_results lib answers"
    by (simp add: ok_results_def List.map_filter_def)
  then show ?case using Cons.IH [OF c1(2) answer_step_inv [OF Cons.prems(2) c1(1)]] by simp
qed

lemma tokens_inv_new: "tokens_inv limit (lru_new limit) []"
  unfolding tokens_inv_def
  by (intro exI [of _ "[]"] conjI) (simp_all add: lru_rel_new, simp_all add: lru_new_def)

text \<open>
  C25: While the network fails, a sign-in is answered with the result of the last response \<open>200\<close> to a sign-in
  with the same access key, whatever other sign-ins came between; the error comes through only if there
  was none, or if the responses were for more access keys than the cache holds.
\<close>

theorem offline_sign_in_answers_last_token:
  assumes "run_steps (answer_step lib) (lru_new limit) answers = Some (cache, replies)"
    and "net_status response < 0" and "net_status response \<noteq> http_error_value CANCELLED_ERROR"
  shows "\<exists>cache' r. client_answer lib stale now cred response payload cache = Some (cache', r) \<and>
    (case r of
       Inr result \<Rightarrow> last_ok lib (cred_key cred) answers = Some result
     | Inl e \<Rightarrow> e = authentication_error_of (net_status response) (net_error response) \<and>
         (last_ok lib (cred_key cred) answers = None \<or> unat limit < card (fst ` set (ok_results lib answers))))"
proof -
  have "tokens_inv limit cache (ok_results lib answers)"
    using answers_inv [OF assms(1) tokens_inv_new] by simp
  from tokens_inv_find [OF this, of "cred_key cred"] show ?thesis
    using assms(2,3) by (cases "last_ok lib (cred_key cred) answers") (auto simp: client_answer_def Let_def last_ok_def)
qed

text \<open>A library, credentials and answers to look at.\<close>

definition demo_lib :: auth_lib where
  "demo_lib =
     \<lparr>parse_json = (\<lambda>s.
        if s = ''token'' then Some (JObject [(''accessToken'', JString ''abc''), (''tokenType'', JString ''bearer''),
                                             (''expiresIn'', JInt 3600)])
        else if s = ''time'' then Some (JObject [(''timestamp'', JInt 5)])
        else None),
      write_json = (\<lambda>_. ''body''), base64_of = (\<lambda>_. ''signature''), auth_user_agent = ''agent''\<rparr>"

definition demo_cred :: credentials where
  "demo_cred = \<lparr>cred_key = ''key'', cred_secret = ''secret''\<rparr>"

lemma demo_key: "cred_key demo_cred = ''key''"
  by (simp add: demo_cred_def)

definition with_status :: "int \<Rightarrow> network_response" where
  "with_status status = \<lparr>net_request_id = 1, net_status = status, net_error = []\<rparr>"

lemma with_status_simps [simp]: "net_status (with_status s) = s" "net_error (with_status s) = []"
  by (simp_all add: with_status_def)

theorem offline_sign_in_answers_last_token_witness:
  "\<exists>cache replies. run_steps (answer_step demo_lib) (lru_new 2) [(0, 100, demo_cred, with_status 200, ''token'')]
      = Some (cache, replies) \<and>
    (\<exists>cache' result. client_answer demo_lib 0 200 demo_cred (with_status (-3)) [] cache = Some (cache', Inr result) \<and>
       sr_access_token result = ''abc'')"
proof -
  let ?as = "[(0, 100, demo_cred, with_status 200, ''token'')]"
  have "is_some (run_steps (answer_step demo_lib) (lru_new 2) ?as)" by code_simp
  then obtain cache replies where run: "run_steps (answer_step demo_lib) (lru_new 2) ?as = Some (cache, replies)"
    by (auto simp: is_some_def)
  have last: "map_option sr_access_token (last_ok demo_lib ''key'' ?as) = Some ''abc''" by code_simp
  have room: "card (fst ` set (ok_results demo_lib ?as)) \<le> unat (2 :: u64)" by code_simp
  have "net_status (with_status (-3)) < 0" "net_status (with_status (-3)) \<noteq> http_error_value CANCELLED_ERROR" by simp_all
  from offline_sign_in_answers_last_token [OF run this]
  obtain cache' r where r: "client_answer demo_lib 0 200 demo_cred (with_status (-3)) [] cache = Some (cache', r)"
    "case r of Inr result \<Rightarrow> last_ok demo_lib (cred_key demo_cred) ?as = Some result
     | Inl e \<Rightarrow> e = authentication_error_of (-3) [] \<and>
         (last_ok demo_lib (cred_key demo_cred) ?as = None \<or> unat (2 :: u64) < card (fst ` set (ok_results demo_lib ?as)))"
    unfolding with_status_simps by blast
  then obtain result where "r = Inr result" "last_ok demo_lib ''key'' ?as = Some result"
    using last room by (cases r) (auto simp: demo_key simp del: unat_numeral)
  then show ?thesis using run r(1) last by auto
qed

section \<open>One sign-in\<close>

datatype flow_input =
    TimeAnswer send_inputs network_response string
  | TokenAnswer int int network_response string
  | CancelSignIn

text \<open>The step returns the request that the network is told to cancel. The network answers a pending request.\<close>

fun flow_step ::
  "auth_lib \<Rightarrow> auth_client \<times> sign_in_flow \<Rightarrow> flow_input \<Rightarrow> ((auth_client \<times> sign_in_flow) \<times> u64 option) option" where
  "flow_step lib (c, f) (TimeAnswer inp response payload) =
     (case flow_pc f of
        TimePending _ \<Rightarrow> map_option (\<lambda>f. ((c, f), None)) (deliver_time lib inp c response payload f)
      | _ \<Rightarrow> None)"
| "flow_step lib (c, f) (TokenAnswer stale now response payload) =
     (case flow_pc f of
        TokenPending _ \<Rightarrow> map_option (\<lambda>s. (s, None)) (deliver_token lib stale now response payload c f)
      | _ \<Rightarrow> None)"
| "flow_step lib (c, f) CancelSignIn = (let (f, cancelled) = cancel_sign_in f in Some ((c, f), cancelled))"

definition is_done :: "sign_in_flow \<Rightarrow> bool" where
  "is_done f \<longleftrightarrow> flow_pc f = SignInDone"

text \<open>
  One callback at the end; the token request only after the time request; after a cancellation before the
  answer with the time, no token request, and the callback gets the cancellation.
\<close>

definition flow_inv :: "sign_in_flow \<Rightarrow> bool" where
  "flow_inv f \<longleftrightarrow>
     length (flow_replies f) = (if is_done f then 1 else 0) \<and>
     (\<forall>i. flow_pc f = TimePending i \<longrightarrow> length (flow_sent f) = 1) \<and>
     (\<forall>i. flow_pc f = TokenPending i \<longrightarrow> length (flow_sent f) = 2) \<and>
     length (flow_sent f) \<le> 2"

lemma reply_with_simps [simp]:
  "flow_pc (reply_with d r f) = SignInDone" "flow_sent (reply_with d r f) = flow_sent f"
  "flow_replies (reply_with d r f) = flow_replies f @ [(d, r)]"
  "flow_cancelled (reply_with d r f) = flow_cancelled f" "flow_cred (reply_with d r f) = flow_cred f"
  by (simp_all add: reply_with_def)

lemma time_callback_inv:
  assumes "time_callback lib inp c response f = Some f'" "length (flow_sent f) = 1" "flow_replies f = []"
  shows "flow_inv f'"
  using assms by (auto simp: time_callback_def flow_inv_def is_done_def Let_def split: if_split_asm)

lemma start_sign_in_inv: "start_sign_in lib inp1 inp2 cred props c = Some f \<Longrightarrow> flow_inv f"
  by (auto simp: start_sign_in_def Let_def split: if_split_asm dest!: time_callback_inv)
    (auto simp: flow_inv_def is_done_def)

lemma flow_step_inv:
  assumes "flow_step lib s input = Some (s', out)" "flow_inv (snd s)"
  shows "flow_inv (snd s')"
proof (cases "(lib, s, input)" rule: flow_step.cases)
  case (1 lib c f inp response payload)
  then show ?thesis
    using assms by (auto simp: deliver_time_def flow_inv_def is_done_def split: sign_in_pc.split_asm
        dest: time_callback_inv [unfolded flow_inv_def is_done_def])
next
  case (2 lib c f stale now response payload)
  then show ?thesis
    using assms by (auto simp: deliver_token_def flow_inv_def is_done_def
        split: sign_in_pc.split_asm Option.bind_split_asm prod.split_asm)
next
  case (3 lib c f)
  then show ?thesis
    using assms by (auto simp: cancel_sign_in_def flow_inv_def is_done_def split: if_split_asm)
qed

lemma run_steps_inv:
  assumes "\<And>s i s' r. step s i = Some (s', r) \<Longrightarrow> P s \<Longrightarrow> P s'" "run_steps step s is = Some (s', rs)" "P s"
  shows "P s'"
  using assms(2,3)
proof (induction "is" arbitrary: s rs)
  case (Cons i "is")
  then show ?case by (auto split: Option.bind_split_asm prod.split_asm dest: assms(1))
qed simp

text \<open>
  C26: A sign-in calls its callback at most once, whatever the network answers and whenever it is cancelled:
  not before its last request was answered, exactly once after; and it sends at most two requests.
\<close>

theorem sign_in_calls_back_once:
  assumes "start_sign_in lib inp1 inp2 cred props c = Some f"
    and "run_steps (flow_step lib) (c, f) inputs = Some ((c', f'), out)"
  shows "length (flow_replies f') = (if is_done f' then 1 else 0) \<and> length (flow_sent f') \<le> 2"
proof -
  have "flow_inv (snd (c', f'))"
    by (rule run_steps_inv [where P = "\<lambda>s. flow_inv (snd s)", OF _ assms(2)])
      (use flow_step_inv start_sign_in_inv [OF assms(1)] in auto)
  then show ?thesis by (simp add: flow_inv_def)
qed

text \<open>Inputs of a request that is accepted with a number, or refused.\<close>

definition accepted :: "u64 \<Rightarrow> send_inputs" where
  "accepted i = \<lparr>in_clock = 7, in_uid = ''uid'', in_outcome = (\<lambda>_. outcome_of_id i)\<rparr>"

definition refused_with :: "http_error \<Rightarrow> send_inputs" where
  "refused_with e = \<lparr>in_clock = 7, in_uid = ''uid'', in_outcome = (\<lambda>_. outcome_of_error e)\<rparr>"

abbreviation (input) demo_auth_client :: auth_client where
  "demo_auth_client \<equiv> set_network (Some 1) (auth_client_new ''https://account'' 100)"

abbreviation (input) demo_props :: sign_in_properties where
  "demo_props \<equiv> \<lparr>si_scope = None, si_expires_in = 0\<rparr>"

theorem sign_in_calls_back_once_witness:
  "\<exists>f c' f' out. start_sign_in demo_lib (accepted 1) (accepted 2) demo_cred demo_props demo_auth_client = Some f \<and>
     run_steps (flow_step demo_lib) (demo_auth_client, f)
       [TimeAnswer (accepted 2) (with_status 200) ''time'', CancelSignIn, TokenAnswer 0 100 (with_status (-5)) []]
       = Some ((c', f'), out) \<and> out = [None, Some 2, None] \<and> length (flow_replies f') = 1"
proof -
  let ?is = "[TimeAnswer (accepted 2) (with_status 200) ''time'', CancelSignIn, TokenAnswer 0 100 (with_status (-5)) []]"
  let ?oc = "\<lambda>i. outcome_successful (outcome_of_id i)"
  have oc: "?oc 1" "?oc 2" by (simp_all add: outcome_successful_def outcome_of_id_def kInvalidRequestId_def)
  obtain f where f: "start_sign_in demo_lib (accepted 1) (accepted 2) demo_cred demo_props demo_auth_client = Some f"
    "flow_pc f = TimePending 1" "\<not> flow_cancelled f" "flow_replies f = []"
    using oc by (simp add: start_sign_in_def accepted_def set_network_def auth_client_new_def Let_def outcome_of_id_def)
  obtain c' f' out where r: "run_steps (flow_step demo_lib) (demo_auth_client, f) ?is = Some ((c', f'), out)"
    "out = [None, Some 2, None]" "is_done f'"
    using f(2-4) oc
    by (simp add: deliver_time_def time_callback_def accepted_def set_network_def auth_client_new_def Let_def
        outcome_of_id_def cancel_sign_in_def deliver_token_def client_answer_def is_done_def)
  show ?thesis using sign_in_calls_back_once [OF f(1) r(1)] f(1) r by auto
qed

text \<open>
  When the network refuses the request for the time but takes the request for the token, the sign-in
  can no longer be cancelled: the token that \<open>SignInClient\<close> returned tells the network nothing, while the
  request for the token is pending.
\<close>

theorem refused_time_request_loses_cancellation:
  assumes "auth_network c \<noteq> None"
    and "\<not> outcome_successful (in_outcome inp1 (time_request lib c))"
    and "outcome_successful (in_outcome inp2 (sign_in_request lib (in_uid inp2) (in_clock inp2) cred props c))"
  shows "\<exists>f. start_sign_in lib inp1 inp2 cred props c = Some f \<and> (\<exists>i. flow_pc f = TokenPending i) \<and>
    snd (cancel_sign_in f) = None"
  using assms by (simp add: start_sign_in_def time_callback_def cancel_sign_in_def Let_def)

theorem refused_time_request_loses_cancellation_witness:
  "\<exists>f. start_sign_in demo_lib (refused_with OFFLINE_ERROR) (accepted 2) demo_cred demo_props demo_auth_client = Some f \<and>
    (\<exists>i. flow_pc f = TokenPending i) \<and> snd (cancel_sign_in f) = None"
  by (rule refused_time_request_loses_cancellation)
    (simp_all add: refused_with_def accepted_def set_network_def outcome_successful_def outcome_of_id_def
      outcome_of_error_def kInvalidRequestId_def)

end
