(* ===== verification/TokenProvider.thy ===== *)
theory TokenProvider
  imports Authentication
begin

text \<open>
  The sources of tokens on top of the authentication client: \<open>src/TokenEndpoint.cpp\<close>, \<open>src/AutoRefreshingToken.cpp\<close>
  and \<open>include/olp/authentication/TokenProvider.h\<close>.

  A blocking request waits for the callback, so it is the whole flow of a sign-in; \<open>exchange\<close> is what happens
  in it. Points of the steady clock are in nanoseconds, durations in seconds.
\<close>

section \<open>The token endpoint\<close>

record auth_settings =
  set_credentials :: credentials
  set_network_handler :: "nat option"
  set_scheduler :: "nat option"
  set_proxy :: "network_proxy_settings option"
  token_endpoint_url :: string

definition default_auth_settings :: "credentials \<Rightarrow> auth_settings" where
  "default_auth_settings cred =
     \<lparr>set_credentials = cred, set_network_handler = None, set_scheduler = None, set_proxy = None,
      token_endpoint_url = ''https://account.api.here.com/oauth2/token''\<rparr>"

record token_endpoint =
  endpoint_client :: auth_client
  endpoint_credentials :: credentials

text \<open>\<open>find\<close> and \<open>erase\<close>: the first occurrence goes.\<close>

fun erase_first :: "string \<Rightarrow> string \<Rightarrow> string" where
  "erase_first pat [] = []"
| "erase_first pat (c # cs) =
     (if take (length pat) (c # cs) = pat then drop (length pat) (c # cs) else c # erase_first pat cs)"

definition token_endpoint_new :: "auth_settings \<Rightarrow> token_endpoint" where
  "token_endpoint_new s =
     (let c = auth_client_new (erase_first ''/oauth2/token'' (token_endpoint_url s)) 100;
          c = (case set_proxy s of None \<Rightarrow> c | Some p \<Rightarrow> set_network_proxy_settings p c);
          c = set_network (set_network_handler s) c;
          c = set_task_scheduler (set_scheduler s) c
      in \<lparr>endpoint_client = c, endpoint_credentials = set_credentials s\<rparr>)"

type_synonym token_response = "authentication_error + token_result"

text \<open>What \<open>GetResult\<close> finds in a response.\<close>

definition get_token_result :: "token_response \<Rightarrow> token_result" where
  "get_token_result r = (case r of Inl _ \<Rightarrow> default_token_result | Inr t \<Rightarrow> t)"

text \<open>The callback that \<open>RequestToken\<close> gives to \<open>SignInClient\<close>; \<open>now\<close> is \<open>std::time\<close>.\<close>

definition token_of_sign_in :: "int \<Rightarrow> authentication_error + sign_in_result \<Rightarrow> token_response" where
  "token_of_sign_in now r =
     (case r of
        Inl e \<Rightarrow> Inl e
      | Inr s \<Rightarrow> Inr (token_result_in now (sr_access_token s) (sr_expires_in s) (br_status s) (br_error s)))"

text \<open>One request for a token, with all that comes from outside.\<close>

record exchange =
  ex_time_inputs :: send_inputs
  ex_time_answer :: "network_response \<times> string"
  ex_token_inputs :: send_inputs
  ex_token_answer :: "network_response \<times> string"
  ex_memory :: int
  ex_now :: int

text \<open>The flow of a sign-in to its end, which nobody cancels.\<close>

definition finish_sign_in :: "auth_lib \<Rightarrow> exchange \<Rightarrow> auth_client \<times> sign_in_flow \<Rightarrow> (auth_client \<times> sign_in_flow) option" where
  "finish_sign_in lib ex cf =
     (let (c, f) = cf in
      case flow_pc f of
        TokenPending _ \<Rightarrow> deliver_token lib (ex_memory ex) (ex_now ex) (fst (ex_token_answer ex)) (snd (ex_token_answer ex)) c f
      | _ \<Rightarrow> Some (c, f))"

definition sign_in_client ::
  "auth_lib \<Rightarrow> exchange \<Rightarrow> credentials \<Rightarrow> sign_in_properties \<Rightarrow> auth_client \<Rightarrow> (auth_client \<times> sign_in_flow) option" where
  "sign_in_client lib ex cred props c = do {
     f \<leftarrow> start_sign_in lib (ex_time_inputs ex) (ex_token_inputs ex) cred props c;
     f \<leftarrow> (case flow_pc f of
             TimePending _ \<Rightarrow> deliver_time lib (ex_token_inputs ex) c (fst (ex_time_answer ex)) (snd (ex_time_answer ex)) f
           | _ \<Rightarrow> Some f);
     finish_sign_in lib ex (c, f) }"

definition request_token ::
  "auth_lib \<Rightarrow> exchange \<Rightarrow> int \<Rightarrow> token_endpoint \<Rightarrow> (token_endpoint \<times> token_response) option" where
  "request_token lib ex expires_in ep = do {
     (c, f) \<leftarrow> sign_in_client lib ex (endpoint_credentials ep) \<lparr>si_scope = None, si_expires_in = expires_in\<rparr>
                 (endpoint_client ep);
     Some (ep\<lparr>endpoint_client := c\<rparr>, token_of_sign_in (ex_now ex) (snd (last (flow_replies f)))) }"

section \<open>The token that refreshes itself\<close>

abbreviation (input) nanoseconds :: int where "nanoseconds \<equiv> 1000000000"

abbreviation (input) kDefaultMinimumValidity :: int where "kDefaultMinimumValidity \<equiv> 300"

abbreviation (input) kForceRefresh :: int where "kForceRefresh \<equiv> 0"

definition compute_refresh_time :: "int \<Rightarrow> int \<Rightarrow> int \<Rightarrow> int" where
  "compute_refresh_time now expires_in minimum_validity =
     (let expiry_time_chrono = now + expires_in * nanoseconds
      in if expiry_time_chrono \<le> now then now else expiry_time_chrono - minimum_validity * nanoseconds)"

text \<open>The default response is an error; the default point of time is the epoch of the clock.\<close>

definition default_authentication_error :: authentication_error where
  "default_authentication_error = \<lparr>auth_error_code = Unknown, auth_error_message = [], auth_error_retryable = False\<rparr>"

record auto_refreshing_token =
  art_endpoint :: token_endpoint
  art_request_expires_in :: int
  current_token :: token_response
  token_refresh_time :: int

definition auto_refreshing_token_new :: "token_endpoint \<Rightarrow> int \<Rightarrow> auto_refreshing_token" where
  "auto_refreshing_token_new ep expires_in =
     \<lparr>art_endpoint = ep, art_request_expires_in = expires_in, current_token = Inl default_authentication_error,
      token_refresh_time = 0\<rparr>"

definition force_refresh :: "int \<Rightarrow> bool" where
  "force_refresh minimum_validity \<longleftrightarrow> minimum_validity \<le> kForceRefresh"

definition should_refresh_now :: "int \<Rightarrow> auto_refreshing_token \<Rightarrow> bool" where
  "should_refresh_now now t \<longleftrightarrow> token_refresh_time t \<le> now"

text \<open>What both variants of \<open>TryRefreshCurrentToken\<close> do with the response.\<close>

definition store_token :: "int \<Rightarrow> int \<Rightarrow> token_response \<Rightarrow> auto_refreshing_token \<Rightarrow> auto_refreshing_token" where
  "store_token now minimum_validity response t =
     t\<lparr>current_token := response,
       token_refresh_time := compute_refresh_time now (tr_expires_in (get_token_result response)) minimum_validity\<rparr>"

definition try_refresh_current_token ::
  "auth_lib \<Rightarrow> int \<Rightarrow> exchange \<Rightarrow> int \<Rightarrow> auto_refreshing_token \<Rightarrow> auto_refreshing_token option" where
  "try_refresh_current_token lib stored ex minimum_validity t = do {
     (ep, response) \<leftarrow> request_token lib ex (art_request_expires_in t) (art_endpoint t);
     Some (store_token stored minimum_validity response (t\<lparr>art_endpoint := ep\<rparr>)) }"

text \<open>
  \<open>GetToken\<close>: \<open>call_asked\<close> is the time of the call, \<open>call_stored\<close> the time when a response is stored. The callback
  of the other variant gets the response that this one returns.
\<close>

record token_call =
  call_asked :: int
  call_stored :: int
  call_exchange :: exchange

definition get_token ::
  "auth_lib \<Rightarrow> int \<Rightarrow> auto_refreshing_token \<Rightarrow> token_call \<Rightarrow> (auto_refreshing_token \<times> token_response) option" where
  "get_token lib minimum_validity t call = do {
     t \<leftarrow> (if force_refresh minimum_validity \<or> should_refresh_now (call_asked call) t
           then try_refresh_current_token lib (call_stored call) (call_exchange call) minimum_validity t
           else Some t);
     Some (t, current_token t) }"

section \<open>The provider\<close>

definition token_is_successful :: "token_response \<Rightarrow> bool" where
  "token_is_successful resp = (case resp of Inl _ \<Rightarrow> False | Inr _ \<Rightarrow> True)"

definition is_token_response_ok :: "token_response \<Rightarrow> bool" where
  "is_token_response_ok resp \<longleftrightarrow> token_is_successful resp \<and> err_code (tr_error (get_token_result resp)) = 0"

definition provider_bool ::
  "auth_lib \<Rightarrow> int \<Rightarrow> token_call \<Rightarrow> auto_refreshing_token \<Rightarrow> (auto_refreshing_token \<times> bool) option" where
  "provider_bool lib validity call t = do {
     (t, resp) \<leftarrow> get_token lib validity t call;
     Some (t, is_token_response_ok resp) }"

text \<open>The other operators ask twice: for the success, and then for the result.\<close>

definition ask_twice ::
  "(token_result \<Rightarrow> 'a) \<Rightarrow> 'a \<Rightarrow> auth_lib \<Rightarrow> int \<Rightarrow> token_call \<Rightarrow> token_call \<Rightarrow> auto_refreshing_token \<Rightarrow>
   (auto_refreshing_token \<times> 'a) option" where
  "ask_twice get failed lib validity call1 call2 t = do {
     (t, resp) \<leftarrow> get_token lib validity t call1;
     if token_is_successful resp then do {
       (t, resp) \<leftarrow> get_token lib validity t call2;
       Some (t, get (get_token_result resp)) }
     else Some (t, failed) }"

definition provider_token ::
  "auth_lib \<Rightarrow> int \<Rightarrow> token_call \<Rightarrow> token_call \<Rightarrow> auto_refreshing_token \<Rightarrow> (auto_refreshing_token \<times> string) option" where
  "provider_token = ask_twice tr_access_token []"

definition provider_error_response ::
  "auth_lib \<Rightarrow> int \<Rightarrow> token_call \<Rightarrow> token_call \<Rightarrow> auto_refreshing_token \<Rightarrow> (auto_refreshing_token \<times> error_response) option" where
  "provider_error_response = ask_twice tr_error no_error_response"

definition provider_http_status_code ::
  "auth_lib \<Rightarrow> int \<Rightarrow> token_call \<Rightarrow> token_call \<Rightarrow> auto_refreshing_token \<Rightarrow> (auto_refreshing_token \<times> int) option" where
  "provider_http_status_code = ask_twice tr_http_status 503"

section \<open>Lifetimes\<close>


text \<open>
  The minimum validity of a call is that of the call which fetched the token: after a call with a smaller
  one, such as a forced refresh, a token that is about to expire is handed out to a call that asks for a
  longer validity.
\<close>

theorem minimum_validity_of_fetching_call_counts:
  assumes "try_refresh_current_token lib stored ex m t = Some t'" and "current_token t' = Inr token"
    and "0 < m'" and "call_asked call + m * nanoseconds < stored + tr_expires_in token * nanoseconds"
    and "stored + tr_expires_in token * nanoseconds \<le> call_asked call + m' * nanoseconds"
    and "0 < tr_expires_in token"
  shows "get_token lib m' t' call = Some (t', Inr token)"
proof -
  have "token_refresh_time t' = stored + tr_expires_in token * nanoseconds - m * nanoseconds"
    using assms(1,2,6) by (auto simp: try_refresh_current_token_def store_token_def compute_refresh_time_def Let_def
        get_token_result_def split: Option.bind_split_asm prod.split_asm)
  then show ?thesis using assms by (simp add: get_token_def force_refresh_def should_refresh_now_def)
qed

text \<open>
  A sign-in that the server refuses without a body to parse is a success for the provider of tokens: it
  says that it has a token, which is empty, and keeps it for as long as the memory of the result says,
  whose lifetime was never initialised.
\<close>

theorem refused_sign_in_counts_as_token:
  assumes "0 \<le> net_status response" and "net_status response \<noteq> HTTP_OK" and "parse_json lib payload = None"
  shows "\<exists>r. client_answer lib stale now cred response payload cache = Some (cache, r) \<and>
    is_token_response_ok (token_of_sign_in now r) \<and>
    tr_access_token (get_token_result (token_of_sign_in now r)) = [] \<and>
    token_refresh_time (store_token stored m (token_of_sign_in now r) t) =
      (if stale \<le> 0 then stored else stored + stale * nanoseconds - m * nanoseconds)"
  using assms
  by (simp add: client_answer_def sign_in_result_def base_result_def base_result.extend_def br_has_error_def Let_def
      token_of_sign_in_def is_token_response_ok_def token_is_successful_def get_token_result_def token_result_in_def
      store_token_def compute_refresh_time_def no_error_response_def)

text \<open>
  While the network fails, the cached token comes with its whole lifetime again, counted from now: a
  token that has expired is handed out as a fresh one.
\<close>

theorem cached_token_lives_again:
  assumes "run_steps (answer_step lib) (lru_new limit) answers = Some (client_token_cache c, replies)"
    and "last_ok lib (cred_key (flow_cred f)) answers = Some result"
    and "card (fst ` set (ok_results lib answers)) \<le> unat limit"
    and "net_status response < 0" and "net_status response \<noteq> http_error_value CANCELLED_ERROR"
  shows "\<exists>c' f' token. deliver_token lib stale now response payload c f = Some (c', f') \<and>
    token_of_sign_in now (snd (last (flow_replies f'))) = Inr token \<and>
    tr_access_token token = sr_access_token result \<and> tr_expiry_time token = now + sr_expires_in result"
proof -
  have "tokens_inv limit (client_token_cache c) (ok_results lib answers)"
    using answers_inv [OF assms(1) tokens_inv_new] by simp
  from tokens_inv_find [OF this, of "cred_key (flow_cred f)"] show ?thesis
    using assms(2-5) by (auto simp: deliver_token_def client_answer_def Let_def last_ok_def token_of_sign_in_def token_result_in_def)
qed


text \<open>
  A response \<open>200\<close> whose body does not parse takes the place of the token in the cache: while the network
  fails, the sign-in is answered with an empty token and the status \<open>503\<close>.
\<close>

theorem malformed_response_replaces_token:
  assumes "run_steps (answer_step lib) (lru_new limit) (answers @ [(stale, now, cred, ok, payload)]) = Some (cache, replies)"
    and "card (fst ` set (ok_results lib (answers @ [(stale, now, cred, ok, payload)]))) \<le> unat limit"
    and "net_status ok = HTTP_OK" and "parse_json lib payload = None"
    and "net_status response < 0" and "net_status response \<noteq> http_error_value CANCELLED_ERROR"
  shows "\<exists>cache' result. client_answer lib stale' now' cred response payload' cache = Some (cache', Inr result) \<and>
    sr_access_token result = [] \<and> br_status result = HTTP_SERVICE_UNAVAILABLE"
proof -
  let ?answers = "answers @ [(stale, now, cred, ok, payload)]"
  obtain result where r: "sign_in_result stale now 200 (net_error ok) None = Some result" "sr_access_token result = []"
    "br_status result = HTTP_SERVICE_UNAVAILABLE"
    by (simp add: sign_in_result_def base_result_def base_result.extend_def br_has_error_def Let_def)
  then have "last_ok lib (cred_key cred) ?answers = Some result"
    using assms(3,4) by (simp add: last_ok_def ok_results_def List.map_filter_def)
  moreover have "tokens_inv limit cache (ok_results lib ?answers)"
    using answers_inv [OF assms(1) tokens_inv_new] by simp
  ultimately show ?thesis
    using tokens_inv_find [of limit cache "ok_results lib ?answers" "cred_key cred"] assms(2,5,6) r
    by (auto simp: client_answer_def Let_def last_ok_def)
qed

section \<open>Examples\<close>

definition demo_endpoint :: token_endpoint where
  "demo_endpoint = token_endpoint_new ((default_auth_settings demo_cred)\<lparr>set_network_handler := Some 1\<rparr>)"

definition demo_exchange :: exchange where
  "demo_exchange =
     \<lparr>ex_time_inputs = accepted 1, ex_time_answer = (with_status 200, ''time''), ex_token_inputs = accepted 2,
      ex_token_answer = (with_status 200, ''token''), ex_memory = 0, ex_now = 100\<rparr>"

definition demo_token :: auto_refreshing_token where
  "demo_token = auto_refreshing_token_new demo_endpoint 0"

definition call_at :: "int \<Rightarrow> token_call" where
  "call_at now = \<lparr>call_asked = now, call_stored = now, call_exchange = demo_exchange\<rparr>"

definition demo_result :: sign_in_result where
  "demo_result =
     \<lparr>br_is_valid = True, br_status = 200, br_error = no_error_response, br_error_fields = [], sr_is_valid = True,
      sr_access_token = ''abc'', sr_token_type = ''bearer'', sr_expiry_time = 3700, sr_expires_in = 3600,
      sr_refresh_token = [], sr_user_identifier = [], sr_scope = []\<rparr>"

lemma demo_sign_in_result: "sign_in_result 0 100 200 [] (parse_json demo_lib ''token'') = Some demo_result"
  by code_simp

lemma demo_sign_in:
  "\<exists>cache. client_answer demo_lib 0 100 demo_cred (with_status 200) ''token'' (lru_new 100) = Some (cache, Inr demo_result)"
  using tokens_inv_store [of 100 "lru_new 100" "[]" "cred_key demo_cred" demo_result] demo_sign_in_result tokens_inv_new
  by (auto simp: client_answer_def)

lemma demo_refresh:
  "\<exists>t. try_refresh_current_token demo_lib stored demo_exchange m demo_token = Some t \<and>
    current_token t = Inr (token_result_in 100 ''abc'' 3600 200 no_error_response)"
proof -
  have oc: "outcome_successful (outcome_of_id 1)" "outcome_successful (outcome_of_id 2)"
    by (simp_all add: outcome_successful_def outcome_of_id_def kInvalidRequestId_def)
  show ?thesis
    using demo_sign_in oc
    by (auto simp: try_refresh_current_token_def request_token_def sign_in_client_def start_sign_in_def demo_exchange_def
        demo_token_def auto_refreshing_token_new_def demo_endpoint_def token_endpoint_new_def default_auth_settings_def
        set_network_def set_task_scheduler_def auth_client_new_def accepted_def Let_def deliver_time_def time_callback_def
        finish_sign_in_def deliver_token_def outcome_of_id_def reply_with_def store_token_def token_of_sign_in_def
        demo_result_def)
qed


theorem minimum_validity_of_fetching_call_counts_witness:
  "\<exists>t. get_token demo_lib 300 t (call_at (3599 * nanoseconds)) =
     Some (t, Inr (token_result_in 100 ''abc'' 3600 200 no_error_response))"
proof -
  let ?token = "token_result_in 100 ''abc'' 3600 200 no_error_response"
  obtain t where t: "try_refresh_current_token demo_lib 0 demo_exchange kForceRefresh demo_token = Some t" "current_token t = Inr ?token"
    using demo_refresh by blast
  show ?thesis
    using minimum_validity_of_fetching_call_counts [OF t, of 300 "call_at (3599 * nanoseconds)"]
    by (auto simp: call_at_def token_result_in_def)
qed

theorem refused_sign_in_counts_as_token_witness:
  "\<exists>r. client_answer demo_lib 1000000 100 demo_cred (with_status 401) [] (lru_new 100) = Some (lru_new 100, r) \<and>
    is_token_response_ok (token_of_sign_in 100 r) \<and>
    tr_access_token (get_token_result (token_of_sign_in 100 r)) = [] \<and>
    token_refresh_time (store_token 0 300 (token_of_sign_in 100 r) demo_token) = 999700 * nanoseconds"
proof -
  have "parse_json demo_lib [] = None" by (simp add: demo_lib_def)
  from refused_sign_in_counts_as_token [of "with_status 401", OF _ _ this, of 1000000 100 demo_cred "lru_new 100" 0 300 demo_token]
  show ?thesis by simp
qed

lemma demo_answers:
  "\<exists>cache. run_steps (answer_step demo_lib) (lru_new 100) [(0, 100, demo_cred, with_status 200, ''token'')] =
    Some (cache, [Inr demo_result])"
  using demo_sign_in by auto

lemma demo_ok_results: "ok_results demo_lib [(0, 100, demo_cred, with_status 200, ''token'')] = [(''key'', demo_result)]"
  using demo_sign_in_result by (simp add: ok_results_def List.map_filter_def demo_key)

theorem cached_token_lives_again_witness:
  "\<exists>c f c' f' token. deliver_token demo_lib 0 5000 (with_status (-3)) [] c f = Some (c', f') \<and>
    token_of_sign_in 5000 (snd (last (flow_replies f'))) = Inr token \<and>
    tr_access_token token = ''abc'' \<and> tr_expiry_time token = 8600"
proof -
  obtain cache where cache: "run_steps (answer_step demo_lib) (lru_new 100) [(0, 100, demo_cred, with_status 200, ''token'')] =
      Some (cache, [Inr demo_result])"
    using demo_answers by blast
  define c where "c = (auth_client_new [] 100)\<lparr>client_token_cache := cache\<rparr>"
  define f where "f = \<lparr>flow_cred = demo_cred, flow_props = demo_props, flow_pc = TokenPending 2, flow_operation = Some 2,
    flow_cancelled = False, flow_sent = [], flow_replies = []\<rparr>"
  have run: "run_steps (answer_step demo_lib) (lru_new 100) [(0, 100, demo_cred, with_status 200, ''token'')] =
      Some (client_token_cache c, [Inr demo_result])"
    using cache by (simp add: c_def)
  have "last_ok demo_lib (cred_key (flow_cred f)) [(0, 100, demo_cred, with_status 200, ''token'')] = Some demo_result"
    by (simp add: last_ok_def demo_ok_results f_def demo_key)
  from cached_token_lives_again [OF run this, of "with_status (-3)" 0 5000 "[]"]
  have "\<exists>c' f' token. deliver_token demo_lib 0 5000 (with_status (-3)) [] c f = Some (c', f') \<and>
      token_of_sign_in 5000 (snd (last (flow_replies f'))) = Inr token \<and>
      tr_access_token token = ''abc'' \<and> tr_expiry_time token = 8600"
    unfolding demo_ok_results by (simp add: demo_result_def)
  then show ?thesis by blast
qed

theorem malformed_response_replaces_token_witness:
  "\<exists>cache cache' result. run_steps (answer_step demo_lib) (lru_new 100)
      [(0, 100, demo_cred, with_status 200, ''token''), (0, 200, demo_cred, with_status 200, ''<html>'')] = Some cache \<and>
    client_answer demo_lib 0 300 demo_cred (with_status (-3)) [] (fst cache) = Some (cache', Inr result) \<and>
    sr_access_token result = [] \<and> br_status result = 503"
proof -
  let ?as = "[(0, 100, demo_cred, with_status 200, ''token'')] @ [(0, 200, demo_cred, with_status 200, ''<html>'')]"
  have "is_some (run_steps (answer_step demo_lib) (lru_new 100) ?as)" by code_simp
  then obtain cache replies where run: "run_steps (answer_step demo_lib) (lru_new 100) ?as = Some (cache, replies)"
    by (auto simp: is_some_def)
  have "card (fst ` set (ok_results demo_lib ?as)) \<le> unat (100 :: u64)" by code_simp
  moreover have "parse_json demo_lib ''<html>'' = None" by (simp add: demo_lib_def)
  ultimately have "\<exists>cache' result. client_answer demo_lib 0 300 demo_cred (with_status (-3)) [] cache = Some (cache', Inr result) \<and>
      sr_access_token result = [] \<and> br_status result = 503"
    using malformed_response_replaces_token [OF run, of "with_status (-3)" 0 300 "[]"] by simp
  then show ?thesis using run by auto
qed

end
