(* ===== verification/WriteModel.thy ===== *)
theory WriteModel
  imports Json
begin

text \<open>
  The models of the write service: \<open>src/generated/model\<close>, \<open>include/olp/dataservice/write/generated/model\<close> and
  \<open>include/olp/dataservice/write/model\<close>, with their readers in \<open>src/generated/parser\<close> and their writers in
  \<open>src/generated/serializer\<close>. The classes of the catalog and of the partitions have the names of those of
  the read service, but are its own; they get the prefix \<open>w_\<close>.

  Null pointers are \<^term>\<open>None\<close>. A writer that hits an assertion of RapidJSON is \<^term>\<open>None\<close>.
\<close>

section \<open>The catalog\<close>

record w_coverage =
  w_admin_areas :: "string list"

definition empty_w_coverage :: w_coverage where
  "empty_w_coverage = \<lparr>w_admin_areas = []\<rparr>"

definition w_coverage_from_json :: "json \<Rightarrow> w_coverage option" where
  "w_coverage_from_json value = do {
     a \<leftarrow> parse (vector_from_json string_from_json) [] value ''adminAreas'';
     Some \<lparr>w_admin_areas = a\<rparr> }"

record w_index_definition =
  w_definition_name :: string
  w_definition_type :: string
  w_definition_duration :: int
  w_definition_zoomLevel :: int

definition empty_w_index_definition :: w_index_definition where
  "empty_w_index_definition = \<lparr>w_definition_name = [], w_definition_type = [], w_definition_duration = 0,
     w_definition_zoomLevel = 0\<rparr>"

definition w_index_definition_from_json :: "json \<Rightarrow> w_index_definition option" where
  "w_index_definition_from_json value = do {
     a \<leftarrow> parse string_from_json [] value ''name'';
     b \<leftarrow> parse string_from_json [] value ''type'';
     c \<leftarrow> parse int64_from_json 0 value ''duration'';
     d \<leftarrow> parse int64_from_json 0 value ''zoomLevel'';
     Some \<lparr>w_definition_name = a, w_definition_type = b, w_definition_duration = c,
           w_definition_zoomLevel = d\<rparr> }"

record w_index_properties =
  w_index_ttl :: string
  w_index_definitions :: "w_index_definition list"

definition empty_w_index_properties :: w_index_properties where
  "empty_w_index_properties = \<lparr>w_index_ttl = [], w_index_definitions = []\<rparr>"

definition w_index_properties_from_json :: "json \<Rightarrow> w_index_properties option" where
  "w_index_properties_from_json value = do {
     a \<leftarrow> parse string_from_json [] value ''ttl'';
     b \<leftarrow> parse (vector_from_json w_index_definition_from_json) [] value ''indexDefinitions'';
     Some \<lparr>w_index_ttl = a, w_index_definitions = b\<rparr> }"

record w_creator =
  w_creator_id :: string

definition empty_w_creator :: w_creator where
  "empty_w_creator = \<lparr>w_creator_id = []\<rparr>"

definition w_creator_from_json :: "json \<Rightarrow> w_creator option" where
  "w_creator_from_json value = do {
     a \<leftarrow> parse string_from_json [] value ''id'';
     Some \<lparr>w_creator_id = a\<rparr> }"

record w_owner =
  w_owner_creator :: w_creator
  w_owner_organisation :: w_creator

definition empty_w_owner :: w_owner where
  "empty_w_owner = \<lparr>w_owner_creator = empty_w_creator, w_owner_organisation = empty_w_creator\<rparr>"

definition w_owner_from_json :: "json \<Rightarrow> w_owner option" where
  "w_owner_from_json value = do {
     a \<leftarrow> parse w_creator_from_json empty_w_creator value ''creator'';
     b \<leftarrow> parse w_creator_from_json empty_w_creator value ''organisation'';
     Some \<lparr>w_owner_creator = a, w_owner_organisation = b\<rparr> }"

record w_partitioning =
  w_partitioning_scheme :: string
  w_partitioning_tile_levels :: "int list"

definition empty_w_partitioning :: w_partitioning where
  "empty_w_partitioning = \<lparr>w_partitioning_scheme = [], w_partitioning_tile_levels = []\<rparr>"

definition w_partitioning_from_json :: "json \<Rightarrow> w_partitioning option" where
  "w_partitioning_from_json value = do {
     a \<leftarrow> parse string_from_json [] value ''scheme'';
     b \<leftarrow> parse (vector_from_json int64_from_json) [] value ''tileLevels'';
     Some \<lparr>w_partitioning_scheme = a, w_partitioning_tile_levels = b\<rparr> }"

record w_schema =
  w_schema_hrn :: string

definition empty_w_schema :: w_schema where
  "empty_w_schema = \<lparr>w_schema_hrn = []\<rparr>"

definition w_schema_from_json :: "json \<Rightarrow> w_schema option" where
  "w_schema_from_json value = do {
     a \<leftarrow> parse string_from_json [] value ''hrn'';
     Some \<lparr>w_schema_hrn = a\<rparr> }"

record w_stream_properties =
  w_stream_data_in_throughput_mbps :: int
  w_stream_data_out_throughput_mbps :: int

definition empty_w_stream_properties :: w_stream_properties where
  "empty_w_stream_properties = \<lparr>w_stream_data_in_throughput_mbps = 0, w_stream_data_out_throughput_mbps = 0\<rparr>"

definition w_stream_properties_from_json :: "json \<Rightarrow> w_stream_properties option" where
  "w_stream_properties_from_json value = do {
     a \<leftarrow> parse double_from_json (Double 0 0) value ''dataInThroughputMbps'';
     a \<leftarrow> int64_of_double a;
     b \<leftarrow> parse double_from_json (Double 0 0) value ''dataOutThroughputMbps'';
     b \<leftarrow> int64_of_double b;
     Some \<lparr>w_stream_data_in_throughput_mbps = a, w_stream_data_out_throughput_mbps = b\<rparr> }"

record w_encryption =
  w_encryption_algorithm :: string

definition empty_w_encryption :: w_encryption where
  "empty_w_encryption = \<lparr>w_encryption_algorithm = []\<rparr>"

definition w_encryption_from_json :: "json \<Rightarrow> w_encryption option" where
  "w_encryption_from_json value = do {
     a \<leftarrow> parse string_from_json [] value ''algorithm'';
     Some \<lparr>w_encryption_algorithm = a\<rparr> }"

record w_volume =
  w_volume_type :: string
  w_volume_max_memory_policy :: string
  w_volume_package_type :: string
  w_volume_encryption :: w_encryption

definition empty_w_volume :: w_volume where
  "empty_w_volume = \<lparr>w_volume_type = [], w_volume_max_memory_policy = [], w_volume_package_type = [],
     w_volume_encryption = empty_w_encryption\<rparr>"

definition w_volume_from_json :: "json \<Rightarrow> w_volume option" where
  "w_volume_from_json value = do {
     a \<leftarrow> parse string_from_json [] value ''volumeType'';
     b \<leftarrow> parse string_from_json [] value ''maxMemoryPolicy'';
     c \<leftarrow> parse string_from_json [] value ''packageType'';
     d \<leftarrow> parse w_encryption_from_json empty_w_encryption value ''encryption'';
     Some \<lparr>w_volume_type = a, w_volume_max_memory_policy = b, w_volume_package_type = c,
           w_volume_encryption = d\<rparr> }"

record w_layer =
  w_layer_id :: string
  w_layer_name :: string
  w_layer_summary :: string
  w_layer_description :: string
  w_layer_owner :: w_owner
  w_layer_coverage :: w_coverage
  w_layer_schema :: w_schema
  w_layer_content_type :: string
  w_layer_content_encoding :: string
  w_layer_partitioning :: w_partitioning
  w_layer_layer_type :: string
  w_layer_digest :: string
  w_layer_tags :: "string list"
  w_layer_billing_tags :: "string list"
  w_layer_ttl :: int
  w_layer_index_properties :: w_index_properties
  w_layer_stream_properties :: w_stream_properties
  w_layer_volume :: w_volume

definition empty_w_layer :: w_layer where
  "empty_w_layer = \<lparr>w_layer_id = [], w_layer_name = [], w_layer_summary = [], w_layer_description = [],
     w_layer_owner = empty_w_owner, w_layer_coverage = empty_w_coverage,
     w_layer_schema = empty_w_schema, w_layer_content_type = [], w_layer_content_encoding = [],
     w_layer_partitioning = empty_w_partitioning, w_layer_layer_type = [], w_layer_digest = [],
     w_layer_tags = [], w_layer_billing_tags = [], w_layer_ttl = 0,
     w_layer_index_properties = empty_w_index_properties,
     w_layer_stream_properties = empty_w_stream_properties, w_layer_volume = empty_w_volume\<rparr>"

definition w_layer_from_json :: "json \<Rightarrow> w_layer option" where
  "w_layer_from_json value = do {
     a \<leftarrow> parse string_from_json [] value ''id'';
     b \<leftarrow> parse string_from_json [] value ''name'';
     c \<leftarrow> parse string_from_json [] value ''summary'';
     d \<leftarrow> parse string_from_json [] value ''description'';
     e \<leftarrow> parse w_owner_from_json empty_w_owner value ''owner'';
     f \<leftarrow> parse w_coverage_from_json empty_w_coverage value ''coverage'';
     g \<leftarrow> parse w_schema_from_json empty_w_schema value ''schema'';
     h \<leftarrow> parse string_from_json [] value ''contentType'';
     i \<leftarrow> parse string_from_json [] value ''contentEncoding'';
     j \<leftarrow> parse w_partitioning_from_json empty_w_partitioning value ''partitioning'';
     k \<leftarrow> parse string_from_json [] value ''layerType'';
     l \<leftarrow> parse string_from_json [] value ''digest'';
     m \<leftarrow> parse (vector_from_json string_from_json) [] value ''tags'';
     n \<leftarrow> parse (vector_from_json string_from_json) [] value ''billingTags'';
     p \<leftarrow> parse int64_from_json 0 value ''ttl'';
     q \<leftarrow> parse w_index_properties_from_json empty_w_index_properties value ''indexProperties'';
     r \<leftarrow> parse w_stream_properties_from_json empty_w_stream_properties value ''streamProperties'';
     s \<leftarrow> parse w_volume_from_json empty_w_volume value ''volume'';
     Some \<lparr>w_layer_id = a, w_layer_name = b, w_layer_summary = c, w_layer_description = d,
           w_layer_owner = e, w_layer_coverage = f, w_layer_schema = g, w_layer_content_type = h,
           w_layer_content_encoding = i, w_layer_partitioning = j, w_layer_layer_type = k,
           w_layer_digest = l, w_layer_tags = m, w_layer_billing_tags = n, w_layer_ttl = p,
           w_layer_index_properties = q, w_layer_stream_properties = r, w_layer_volume = s\<rparr> }"

record w_notifications =
  w_notifications_enabled :: bool

definition empty_w_notifications :: w_notifications where
  "empty_w_notifications = \<lparr>w_notifications_enabled = False\<rparr>"

definition w_notifications_from_json :: "json \<Rightarrow> w_notifications option" where
  "w_notifications_from_json value = do {
     a \<leftarrow> parse bool_from_json False value ''enabled'';
     Some \<lparr>w_notifications_enabled = a\<rparr> }"

record w_catalog =
  w_catalog_id :: string
  w_catalog_hrn :: string
  w_catalog_name :: string
  w_catalog_summary :: string
  w_catalog_description :: string
  w_catalog_coverage :: w_coverage
  w_catalog_owner :: w_owner
  w_catalog_tags :: "string list"
  w_catalog_billing_tags :: "string list"
  w_catalog_created :: string
  w_catalog_layers :: "w_layer list"
  w_catalog_version :: int
  w_catalog_notifications :: w_notifications

definition empty_w_catalog :: w_catalog where
  "empty_w_catalog = \<lparr>w_catalog_id = [], w_catalog_hrn = [], w_catalog_name = [], w_catalog_summary = [],
     w_catalog_description = [], w_catalog_coverage = empty_w_coverage,
     w_catalog_owner = empty_w_owner, w_catalog_tags = [], w_catalog_billing_tags = [],
     w_catalog_created = [], w_catalog_layers = [], w_catalog_version = 0,
     w_catalog_notifications = empty_w_notifications\<rparr>"

definition w_catalog_from_json :: "json \<Rightarrow> w_catalog option" where
  "w_catalog_from_json value = do {
     a \<leftarrow> parse string_from_json [] value ''id'';
     b \<leftarrow> parse string_from_json [] value ''hrn'';
     c \<leftarrow> parse string_from_json [] value ''name'';
     d \<leftarrow> parse string_from_json [] value ''summary'';
     e \<leftarrow> parse string_from_json [] value ''description'';
     f \<leftarrow> parse w_coverage_from_json empty_w_coverage value ''coverage'';
     g \<leftarrow> parse w_owner_from_json empty_w_owner value ''owner'';
     h \<leftarrow> parse (vector_from_json string_from_json) [] value ''tags'';
     i \<leftarrow> parse (vector_from_json string_from_json) [] value ''billingTags'';
     j \<leftarrow> parse string_from_json [] value ''created'';
     k \<leftarrow> parse (vector_from_json w_layer_from_json) [] value ''layers'';
     l \<leftarrow> parse int64_from_json 0 value ''version'';
     m \<leftarrow> parse w_notifications_from_json empty_w_notifications value ''notifications'';
     Some \<lparr>w_catalog_id = a, w_catalog_hrn = b, w_catalog_name = c, w_catalog_summary = d,
           w_catalog_description = e, w_catalog_coverage = f, w_catalog_owner = g, w_catalog_tags = h,
           w_catalog_billing_tags = i, w_catalog_created = j, w_catalog_layers = k, w_catalog_version = l,
           w_catalog_notifications = m\<rparr> }"

section \<open>Services, versions and partitions\<close>

record w_api =
  w_api_api :: string
  w_api_version :: string
  w_api_base_url :: string
  w_api_parameters :: "(string, string) smap"

definition empty_w_api :: w_api where
  "empty_w_api = \<lparr>w_api_api = [], w_api_version = [], w_api_base_url = [], w_api_parameters = []\<rparr>"

definition w_api_from_json :: "json \<Rightarrow> w_api option" where
  "w_api_from_json value = do {
     a \<leftarrow> parse string_from_json [] value ''api'';
     b \<leftarrow> parse string_from_json [] value ''version'';
     c \<leftarrow> parse string_from_json [] value ''baseURL'';
     d \<leftarrow> parse (map_from_json string_from_json) [] value ''parameters'';
     Some \<lparr>w_api_api = a, w_api_version = b, w_api_base_url = c, w_api_parameters = d\<rparr> }"

record w_layer_version =
  w_layer_version_layer :: string
  w_layer_version_version :: int
  w_layer_version_timestamp :: int

definition empty_w_layer_version :: w_layer_version where
  "empty_w_layer_version = \<lparr>w_layer_version_layer = [], w_layer_version_version = 0, w_layer_version_timestamp = 0\<rparr>"

definition w_layer_version_from_json :: "json \<Rightarrow> w_layer_version option" where
  "w_layer_version_from_json value = do {
     a \<leftarrow> parse string_from_json [] value ''layer'';
     b \<leftarrow> parse int64_from_json 0 value ''version'';
     c \<leftarrow> parse int64_from_json 0 value ''timestamp'';
     Some \<lparr>w_layer_version_layer = a, w_layer_version_version = b, w_layer_version_timestamp = c\<rparr> }"

record w_layer_versions =
  w_layer_versions_list :: "w_layer_version list"
  w_layer_versions_version :: int

definition empty_w_layer_versions :: w_layer_versions where
  "empty_w_layer_versions = \<lparr>w_layer_versions_list = [], w_layer_versions_version = 0\<rparr>"

definition w_layer_versions_from_json :: "json \<Rightarrow> w_layer_versions option" where
  "w_layer_versions_from_json value = do {
     a \<leftarrow> parse (vector_from_json w_layer_version_from_json) [] value ''layerVersions'';
     b \<leftarrow> parse int64_from_json 0 value ''version'';
     Some \<lparr>w_layer_versions_list = a, w_layer_versions_version = b\<rparr> }"

record w_partition =
  w_partition_checksum :: "string option"
  w_partition_compressed_data_size :: "int option"
  w_partition_data_handle :: string
  w_partition_data_size :: "int option"
  w_partition_partition :: string
  w_partition_version :: "int option"

definition empty_w_partition :: w_partition where
  "empty_w_partition = \<lparr>w_partition_checksum = None, w_partition_compressed_data_size = None,
     w_partition_data_handle = [], w_partition_data_size = None, w_partition_partition = [],
     w_partition_version = None\<rparr>"

definition w_partition_from_json :: "json \<Rightarrow> w_partition option" where
  "w_partition_from_json value = do {
     a \<leftarrow> parse (optional_from_json string_from_json) None value ''checksum'';
     b \<leftarrow> parse (optional_from_json int64_from_json) None value ''compressedDataSize'';
     c \<leftarrow> parse string_from_json [] value ''dataHandle'';
     d \<leftarrow> parse (optional_from_json int64_from_json) None value ''dataSize'';
     e \<leftarrow> parse string_from_json [] value ''partition'';
     f \<leftarrow> parse (optional_from_json int64_from_json) None value ''version'';
     Some \<lparr>w_partition_checksum = a, w_partition_compressed_data_size = b, w_partition_data_handle = c,
           w_partition_data_size = d, w_partition_partition = e, w_partition_version = f\<rparr> }"

record w_partitions =
  w_partitions_list :: "w_partition list"

definition empty_w_partitions :: w_partitions where
  "empty_w_partitions = \<lparr>w_partitions_list = []\<rparr>"

definition w_partitions_from_json :: "json \<Rightarrow> w_partitions option" where
  "w_partitions_from_json value = do {
     a \<leftarrow> parse (vector_from_json w_partition_from_json) [] value ''partitions'';
     Some \<lparr>w_partitions_list = a\<rparr> }"

record w_version_response =
  w_response_version :: int

definition empty_w_version_response :: w_version_response where
  "empty_w_version_response = \<lparr>w_response_version = 0\<rparr>"

definition w_version_response_from_json :: "json \<Rightarrow> w_version_response option" where
  "w_version_response_from_json value = do {
     a \<leftarrow> parse int64_from_json 0 value ''version'';
     Some \<lparr>w_response_version = a\<rparr> }"

record trace_id =
  trace_parent_id :: string
  trace_generated_ids :: "string list"

definition empty_trace_id :: trace_id where
  "empty_trace_id = \<lparr>trace_parent_id = [], trace_generated_ids = []\<rparr>"

definition trace_id_from_json :: "json \<Rightarrow> trace_id option" where
  "trace_id_from_json value = do {
     a \<leftarrow> parse string_from_json [] value ''ParentID'';
     b \<leftarrow> parse (vector_from_json string_from_json) [] value ''GeneratedIDs'';
     Some \<lparr>trace_parent_id = a, trace_generated_ids = b\<rparr> }"

record response_ok =
  response_trace_id :: trace_id

definition empty_response_ok :: response_ok where
  "empty_response_ok = \<lparr>response_trace_id = empty_trace_id\<rparr>"

definition response_ok_from_json :: "json \<Rightarrow> response_ok option" where
  "response_ok_from_json value = do {
     a \<leftarrow> parse trace_id_from_json empty_trace_id value ''TraceID'';
     Some \<lparr>response_trace_id = a\<rparr> }"

record response_ok_single =
  single_trace_id :: string

definition empty_response_ok_single :: response_ok_single where
  "empty_response_ok_single = \<lparr>single_trace_id = []\<rparr>"

definition response_ok_single_from_json :: "json \<Rightarrow> response_ok_single option" where
  "response_ok_single_from_json value = do {
     a \<leftarrow> parse string_from_json [] value ''TraceID'';
     Some \<lparr>single_trace_id = a\<rparr> }"

section \<open>Publications\<close>

text \<open>The readers set every optional field, to the default of its type where the member is missing.\<close>

record details =
  details_state :: string
  details_message :: string
  details_started :: int
  details_modified :: int
  details_expires :: int

definition empty_details :: details where
  "empty_details = \<lparr>details_state = [], details_message = [], details_started = 0, details_modified = 0,
     details_expires = 0\<rparr>"

definition details_from_json :: "json \<Rightarrow> details option" where
  "details_from_json value = do {
     a \<leftarrow> parse string_from_json [] value ''state'';
     b \<leftarrow> parse string_from_json [] value ''message'';
     c \<leftarrow> parse int64_from_json 0 value ''started'';
     d \<leftarrow> parse int64_from_json 0 value ''modified'';
     e \<leftarrow> parse int64_from_json 0 value ''expires'';
     Some \<lparr>details_state = a, details_message = b, details_started = c, details_modified = d,
           details_expires = e\<rparr> }"

record version_dependency =
  dependency_direct :: bool
  dependency_hrn :: string
  dependency_version :: int

definition empty_version_dependency :: version_dependency where
  "empty_version_dependency = \<lparr>dependency_direct = False, dependency_hrn = [], dependency_version = 0\<rparr>"

definition version_dependency_from_json :: "json \<Rightarrow> version_dependency option" where
  "version_dependency_from_json value = do {
     a \<leftarrow> parse bool_from_json False value ''direct'';
     b \<leftarrow> parse string_from_json [] value ''hrn'';
     c \<leftarrow> parse int64_from_json 0 value ''version'';
     Some \<lparr>dependency_direct = a, dependency_hrn = b, dependency_version = c\<rparr> }"

record publication =
  publication_id :: "string option"
  publication_details :: "details option"
  publication_layer_ids :: "(string list) option"
  publication_catalog_version :: "int option"
  publication_version_dependencies :: "(version_dependency list) option"

definition empty_publication :: publication where
  "empty_publication = \<lparr>publication_id = None, publication_details = None, publication_layer_ids = None,
     publication_catalog_version = None, publication_version_dependencies = None\<rparr>"

definition publication_from_json :: "json \<Rightarrow> publication option" where
  "publication_from_json value = do {
     a \<leftarrow> parse string_from_json [] value ''id'';
     b \<leftarrow> parse details_from_json empty_details value ''details'';
     c \<leftarrow> parse (vector_from_json string_from_json) [] value ''layerIds'';
     d \<leftarrow> parse int64_from_json 0 value ''catalogVersion'';
     e \<leftarrow> parse (vector_from_json version_dependency_from_json) [] value ''versionDependencies'';
     Some \<lparr>publication_id = Some a, publication_details = Some b, publication_layer_ids = Some c,
           publication_catalog_version = Some d, publication_version_dependencies = Some e\<rparr> }"

record publish_partition =
  pp_partition :: "string option"
  pp_checksum :: "string option"
  pp_compressed_data_size :: "int option"
  pp_data_size :: "int option"
  pp_data :: "string option"
  pp_data_handle :: "string option"
  pp_timestamp :: "int option"

definition empty_publish_partition :: publish_partition where
  "empty_publish_partition = \<lparr>pp_partition = None, pp_checksum = None, pp_compressed_data_size = None, pp_data_size = None,
     pp_data = None, pp_data_handle = None, pp_timestamp = None\<rparr>"

definition publish_partition_from_json :: "json \<Rightarrow> publish_partition option" where
  "publish_partition_from_json value = do {
     a \<leftarrow> parse string_from_json [] value ''partition'';
     b \<leftarrow> parse string_from_json [] value ''checksum'';
     c \<leftarrow> parse int64_from_json 0 value ''compressedDataSize'';
     d \<leftarrow> parse int64_from_json 0 value ''dataSize'';
     e \<leftarrow> parse (optional_from_json string_from_json) None value ''data'';
     f \<leftarrow> parse string_from_json [] value ''dataHandle'';
     g \<leftarrow> parse int64_from_json 0 value ''timestamp'';
     Some \<lparr>pp_partition = Some a, pp_checksum = Some b, pp_compressed_data_size = Some c,
           pp_data_size = Some d, pp_data = e, pp_data_handle = Some f, pp_timestamp = Some g\<rparr> }"

record publish_partitions =
  pps_partitions :: "(publish_partition list) option"

definition empty_publish_partitions :: publish_partitions where
  "empty_publish_partitions = \<lparr>pps_partitions = None\<rparr>"

definition publish_partitions_from_json :: "json \<Rightarrow> publish_partitions option" where
  "publish_partitions_from_json value = do {
     a \<leftarrow> parse (vector_from_json publish_partition_from_json) [] value ''partitions'';
     Some \<lparr>pps_partitions = Some a\<rparr> }"

record publish_data_request =
  pdr_data :: "string option"
  pdr_layer_id :: string
  pdr_trace_id :: "string option"
  pdr_billing_tag :: "string option"
  pdr_checksum :: "string option"

definition empty_publish_data_request :: publish_data_request where
  "empty_publish_data_request = \<lparr>pdr_data = None, pdr_layer_id = [], pdr_trace_id = None, pdr_billing_tag = None,
     pdr_checksum = None\<rparr>"

definition publish_data_request_from_json :: "json \<Rightarrow> publish_data_request option" where
  "publish_data_request_from_json value = do {
     a \<leftarrow> parse (optional_from_json string_from_json) None value ''data'';
     b \<leftarrow> parse string_from_json [] value ''layerId'';
     c \<leftarrow> parse string_from_json [] value ''traceId'';
     d \<leftarrow> parse string_from_json [] value ''billingTag'';
     e \<leftarrow> parse string_from_json [] value ''checksum'';
     Some \<lparr>pdr_data = a, pdr_layer_id = b, pdr_trace_id = Some c, pdr_billing_tag = Some d,
           pdr_checksum = Some e\<rparr> }"

section \<open>Writers\<close>

text \<open>
  \<open>StringRef\<close> of a C string ends at its first null character. \<open>AddMember\<close> does not look for the name; on a
  value that is no object it is an assertion.
\<close>

definition string_ref :: "string \<Rightarrow> json" where
  "string_ref s = JString (c_str s)"

definition add_member :: "string \<Rightarrow> json \<Rightarrow> json \<Rightarrow> json option" where
  "add_member k x v = (case v of JObject ms \<Rightarrow> Some (JObject (ms @ [(k, x)])) | _ \<Rightarrow> None)"

definition add_optional :: "string \<Rightarrow> ('a \<Rightarrow> json) \<Rightarrow> 'a option \<Rightarrow> json \<Rightarrow> json option" where
  "add_optional k to_json x v = (case x of Some y \<Rightarrow> add_member k (to_json y) v | None \<Rightarrow> Some v)"

definition details_to_json :: "details \<Rightarrow> json" where
  "details_to_json x =
     JObject [(''state'', string_ref (details_state x)), (''message'', string_ref (details_message x)),
       (''started'', JInt (details_started x)), (''modified'', JInt (details_modified x)), (''expires'', JInt (details_expires x))]"

definition version_dependency_to_json :: "version_dependency \<Rightarrow> json" where
  "version_dependency_to_json x =
     JObject [(''direct'', JBool (dependency_direct x)), (''hrn'', string_ref (dependency_hrn x)),
       (''version'', JInt (dependency_version x))]"

definition publication_to_json :: "publication \<Rightarrow> json \<Rightarrow> json option" where
  "publication_to_json x value = do {
     value \<leftarrow> add_optional ''id'' string_ref (publication_id x) value;
     value \<leftarrow> add_optional ''details'' details_to_json (publication_details x) value;
     value \<leftarrow> add_optional ''layerIds'' (vector_to_json string_ref) (publication_layer_ids x) value;
     value \<leftarrow> add_optional ''catalogVersion'' JInt (publication_catalog_version x) value;
     add_optional ''versionDependencies'' (vector_to_json version_dependency_to_json) (publication_version_dependencies x) value }"

text \<open>Data is written with its length.\<close>

definition publish_partition_to_json :: "publish_partition \<Rightarrow> json \<Rightarrow> json option" where
  "publish_partition_to_json x value = do {
     value \<leftarrow> add_optional ''partition'' string_ref (pp_partition x) value;
     value \<leftarrow> add_optional ''checksum'' string_ref (pp_checksum x) value;
     value \<leftarrow> add_optional ''compressedDataSize'' JInt (pp_compressed_data_size x) value;
     value \<leftarrow> add_optional ''dataSize'' JInt (pp_data_size x) value;
     value \<leftarrow> add_optional ''data'' JString (pp_data x) value;
     value \<leftarrow> add_optional ''dataHandle'' string_ref (pp_data_handle x) value;
     add_optional ''timestamp'' JInt (pp_timestamp x) value }"

definition publish_partitions_to_json :: "publish_partitions \<Rightarrow> json \<Rightarrow> json option" where
  "publish_partitions_to_json x value =
     (case pps_partitions x of
        None \<Rightarrow> Some value
      | Some ps \<Rightarrow> do {
          vs \<leftarrow> those (map (\<lambda>p. publish_partition_to_json p (JObject [])) ps);
          add_member ''partitions'' (JArray vs) value })"

definition publish_data_request_to_json :: "publish_data_request \<Rightarrow> json \<Rightarrow> json option" where
  "publish_data_request_to_json x value = do {
     value \<leftarrow> add_optional ''data'' JString (pdr_data x) value;
     value \<leftarrow> add_member ''layerId'' (string_ref (pdr_layer_id x)) value;
     value \<leftarrow> add_optional ''traceId'' string_ref (pdr_trace_id x) value;
     value \<leftarrow> add_optional ''billingTag'' string_ref (pdr_billing_tag x) value;
     add_optional ''checksum'' string_ref (pdr_checksum x) value }"

section \<open>Index requests\<close>

datatype index_type = StringType | IntType | BoolType | HeretileType | TimeWindowType | UnsupportedType

text \<open>
  The classes of index values. Each is built with a type of the caller's choice, by which the writer casts
  it; the cast of a value to another class is undefined.
\<close>

datatype index_value =
    UnsupportedIndexValue index_type
  | BooleanIndexValue bool index_type
  | IntIndexValue int index_type
  | StringIndexValue string index_type
  | TimeWindowIndexValue int index_type
  | HereTileIndexValue int index_type
  | EmptyIndexValue index_type

fun get_index_type :: "index_value \<Rightarrow> index_type" where
  "get_index_type (UnsupportedIndexValue t) = t"
| "get_index_type (BooleanIndexValue _ t) = t"
| "get_index_type (IntIndexValue _ t) = t"
| "get_index_type (StringIndexValue _ t) = t"
| "get_index_type (TimeWindowIndexValue _ t) = t"
| "get_index_type (HereTileIndexValue _ t) = t"
| "get_index_type (EmptyIndexValue t) = t"

record index =
  index_checksum :: "string option"
  index_metadata :: "(string, string) smap option"
  index_size :: "int option"
  index_id :: string
  index_fields :: "(string, index_value) smap"

fun index_value_to_json :: "index_value \<Rightarrow> json option" where
  "index_value_to_json (StringIndexValue s StringType) = Some (JString s)"
| "index_value_to_json (IntIndexValue i IntType) = Some (JInt i)"
| "index_value_to_json (BooleanIndexValue b BoolType) = Some (JBool b)"
| "index_value_to_json (HereTileIndexValue i HeretileType) = Some (JInt i)"
| "index_value_to_json (TimeWindowIndexValue i TimeWindowType) = Some (JInt i)"
| "index_value_to_json _ = None"

fun add_index_fields :: "(string, index_value) smap \<Rightarrow> json \<Rightarrow> json option" where
  "add_index_fields [] indexFields = Some indexFields"
| "add_index_fields ((k, v) # fs) indexFields =
     (if get_index_type v = UnsupportedType then add_index_fields fs indexFields
      else do {
        x \<leftarrow> index_value_to_json v;
        indexFields \<leftarrow> add_member (c_str k) x indexFields;
        add_index_fields fs indexFields })"

fun add_metadata :: "(string, string) smap \<Rightarrow> json \<Rightarrow> json option" where
  "add_metadata [] indexFields = Some indexFields"
| "add_metadata ((k, v) # ms) indexFields = do {
     indexFields \<leftarrow> add_member (c_str k) (string_ref v) indexFields;
     add_metadata ms indexFields }"

text \<open>\<open>AddMember\<close> moves its value: \<open>indexFields\<close> is null when the metadata is added to it.\<close>

definition index_object :: "index \<Rightarrow> json option" where
  "index_object x = do {
     jsonValue \<leftarrow> add_member ''id'' (string_ref (index_id x)) (JObject []);
     indexFields \<leftarrow> add_index_fields (index_fields x) (JObject []);
     jsonValue \<leftarrow> add_member ''fields'' indexFields jsonValue;
     _ \<leftarrow> (case index_metadata x of Some ms \<Rightarrow> add_metadata ms JNull | None \<Rightarrow> Some JNull);
     jsonValue \<leftarrow> add_optional ''checksum'' string_ref (index_checksum x) jsonValue;
     add_optional ''size'' JInt (index_size x) jsonValue }"

definition index_to_json :: "index \<Rightarrow> json option" where
  "index_to_json x = map_option (\<lambda>v. JArray [v]) (index_object x)"

record update_index_request =
  uir_layer_id :: string
  uir_billing_tag :: "string option"
  uir_checksum :: "string option"
  uir_index_additions :: "index list"
  uir_index_removals :: "string list"

definition update_index_request_to_json :: "update_index_request \<Rightarrow> json \<Rightarrow> json option" where
  "update_index_request_to_json x value = do {
     additions \<leftarrow> those (map index_object (uir_index_additions x));
     value \<leftarrow> add_member ''additions'' (JArray additions) value;
     add_member ''removals'' (vector_to_json string_ref (uir_index_removals x)) value }"

section \<open>Other requests\<close>

record publish_sdii_request =
  psr_sdii_message_list :: "string option"
  psr_layer_id :: string
  psr_trace_id :: "string option"
  psr_billing_tag :: "string option"
  psr_checksum :: "string option"

record publish_partition_data_request =
  ppr_data :: "string option"
  ppr_layer_id :: string
  ppr_partition_id :: "string option"
  ppr_billing_tag :: "string option"
  ppr_checksum :: "string option"

record publish_index_request =
  pir_data :: "string option"
  pir_layer_id :: string
  pir_billing_tag :: "string option"
  pir_checksum :: "string option"
  pir_index :: index

record delete_index_data_request =
  dir_layer_id :: string
  dir_index_id :: string

record check_data_exists_request =
  cdr_layer_id :: string
  cdr_data_handle :: string

record start_batch_request =
  sbr_layers :: "string list option"
  sbr_version_dependencies :: "version_dependency list option"
  sbr_billing_tag :: "string option"

record flush_request =
  fr_num_requests_per_flush :: int

section \<open>Round trips\<close>

text \<open>What reading back makes of a text of a C string, and of an optional one.\<close>

abbreviation (input) text_or_empty :: "string option \<Rightarrow> string option" where
  "text_or_empty x \<equiv> Some (case x of Some s \<Rightarrow> c_str s | None \<Rightarrow> [])"

lemma c_str_idem [simp]: "c_str (c_str s) = c_str s"
  by (simp add: c_str_def takeWhile_idem)

lemma c_str_Nil [simp]: "c_str [] = []"
  by (simp add: c_str_def)

lemma c_str_eq_iff: "c_str s = s \<longleftrightarrow> no_null s"
  by (auto simp: c_str_def no_null_def takeWhile_eq_all_conv)

lemma string_from_ref [simp]: "string_from_json (string_ref s) = Some (c_str s)"
  by (simp add: string_from_json_def string_ref_def)

lemma publish_data_request_read_back:
  "Option.bind (publish_data_request_to_json r (JObject [])) publish_data_request_from_json =
     Some \<lparr>pdr_data = map_option c_str (pdr_data r), pdr_layer_id = c_str (pdr_layer_id r),
       pdr_trace_id = text_or_empty (pdr_trace_id r), pdr_billing_tag = text_or_empty (pdr_billing_tag r),
       pdr_checksum = text_or_empty (pdr_checksum r)\<rparr>"
  by (cases "pdr_data r"; cases "pdr_trace_id r"; cases "pdr_billing_tag r"; cases "pdr_checksum r")
    (auto simp: publish_data_request_to_json_def publish_data_request_from_json_def add_optional_def add_member_def
      parse_def optional_from_json_def string_from_json_def string_ref_def)

text \<open>
  C30: A request to publish that was queued on disk is read back as it was exactly if its optional fields are all
  present and no text, nor the data, has a null character.
\<close>
theorem queued_request_read_back_iff:
  "Option.bind (publish_data_request_to_json r (JObject [])) publish_data_request_from_json = Some r \<longleftrightarrow>
   (\<forall>d. pdr_data r = Some d \<longrightarrow> no_null d) \<and> no_null (pdr_layer_id r) \<and>
   (\<exists>t b c. pdr_trace_id r = Some t \<and> pdr_billing_tag r = Some b \<and> pdr_checksum r = Some c \<and>
      no_null t \<and> no_null b \<and> no_null c)"
  unfolding publish_data_request_read_back
  by (cases r; cases "pdr_data r"; cases "pdr_trace_id r"; cases "pdr_billing_tag r"; cases "pdr_checksum r")
    (auto simp: c_str_eq_iff)

lemma queued_request_read_back_iff_witness:
  "Option.bind (publish_data_request_to_json
      \<lparr>pdr_data = Some ''d'', pdr_layer_id = ''l'', pdr_trace_id = Some ''t'', pdr_billing_tag = Some ''b'', pdr_checksum = Some ''c''\<rparr>
      (JObject [])) publish_data_request_from_json =
    Some \<lparr>pdr_data = Some ''d'', pdr_layer_id = ''l'', pdr_trace_id = Some ''t'', pdr_billing_tag = Some ''b'', pdr_checksum = Some ''c''\<rparr>"
  using queued_request_read_back_iff [of "\<lparr>pdr_data = Some ''d'', pdr_layer_id = ''l'', pdr_trace_id = Some ''t'',
      pdr_billing_tag = Some ''b'', pdr_checksum = Some ''c''\<rparr>"]
  by (simp add: no_null_def)

definition details_ok :: "details \<Rightarrow> bool" where
  "details_ok d \<longleftrightarrow> no_null (details_state d) \<and> no_null (details_message d) \<and>
     is_int64 (details_started d) \<and> is_int64 (details_modified d) \<and> is_int64 (details_expires d)"

interpretation details_codec: json_codec details_to_json details_from_json details_ok
  by unfold_locales
    (auto simp: details_to_json_def details_from_json_def details_ok_def parse_def string_from_json_def string_ref_def int64_from_json_def)

definition version_dependency_ok :: "version_dependency \<Rightarrow> bool" where
  "version_dependency_ok d \<longleftrightarrow> no_null (dependency_hrn d) \<and> is_int64 (dependency_version d)"

interpretation version_dependency_codec: json_codec version_dependency_to_json version_dependency_from_json version_dependency_ok
  by unfold_locales
    (auto simp: version_dependency_to_json_def version_dependency_from_json_def version_dependency_ok_def parse_def
      string_from_json_def string_ref_def int64_from_json_def bool_from_json_def)

interpretation string_ref_codec: json_codec string_ref string_from_json no_null
  by unfold_locales (auto simp: string_ref_def string_from_json_def)

text \<open>A publication whose fields are all present is read back from what is written.\<close>

definition publication_ok :: "publication \<Rightarrow> bool" where
  "publication_ok p \<longleftrightarrow>
     (\<exists>i d ls v ds. p = \<lparr>publication_id = Some i, publication_details = Some d, publication_layer_ids = Some ls,
        publication_catalog_version = Some v, publication_version_dependencies = Some ds\<rparr> \<and>
      no_null i \<and> details_ok d \<and> list_all no_null ls \<and> is_int64 v \<and> list_all version_dependency_ok ds)"

lemma publication_read_back:
  "publication_ok p \<Longrightarrow>
   Option.bind (publication_to_json p (JObject [])) publication_from_json = Some p"
  by (auto simp: publication_ok_def publication_to_json_def publication_from_json_def add_optional_def add_member_def
      parse_def int64_from_json_def details_codec.round_trip version_dependency_codec.vector_round_trip
      string_ref_codec.vector_round_trip)

end
