(* ===== verification/WriteApi.thy ===== *)
theory WriteApi
  imports WriteModel ReadApi
begin

text \<open>
  The calls of the write service: \<open>src/generated/*Api.cpp\<close>. The requests are built and answered as those of
  the read service (\<open>ReadApi\<close>). Most calls exist twice, with a callback and with a cancellation context; both
  send the same request and read its answer in the same way, by the two variants of \<open>OlpClient::CallApi\<close>.
\<close>

abbreviation (input) HTTP_ACCEPTED :: int where "HTTP_ACCEPTED \<equiv> 202"
abbreviation (input) HTTP_NO_CONTENT :: int where "HTTP_NO_CONTENT \<equiv> 204"

text \<open>The answer of a call without a result: every status outside of a set is an error.\<close>

definition no_result :: "(int \<Rightarrow> bool) \<Rightarrow> http_response \<times> 'n \<Rightarrow> (unit api_response \<times> 'n) option" where
  "no_result success r =
     (case r of (response, n) \<Rightarrow>
        if \<not> success (resp_status response)
        then Some (Inl (api_error_of_status (resp_status response) (resp_body response)), n)
        else Some (Inr (), n))"

abbreviation (input) accept_json :: "(string \<times> string) list" where
  "accept_json \<equiv> mm_emplace ''Accept'' ''application/json'' []"

abbreviation (input) billing_query :: "string option \<Rightarrow> (string \<times> string) list" where
  "billing_query billing_tag \<equiv> mm_optional ''billingTag'' billing_tag []"

section \<open>Blobs\<close>

definition put_blob ::
  "'n api_call \<Rightarrow> olp_client \<Rightarrow> string \<Rightarrow> string \<Rightarrow> string \<Rightarrow> string option \<Rightarrow> string option \<Rightarrow>
   'n \<Rightarrow> (unit api_response \<times> 'n) option" where
  "put_blob call client lid content_type data_handle data billing_tag n =
     (let put_blob_uri = ''/layers/'' @ lid @ ''/data/'' @ data_handle
      in no_result (\<lambda>status. status = HTTP_OK \<or> status = HTTP_NO_CONTENT)
           (call client put_blob_uri ''PUT'' (billing_query billing_tag) accept_json data content_type n))"

definition put_blob_async ::
  "'n api_call \<Rightarrow> olp_client \<Rightarrow> string \<Rightarrow> string \<Rightarrow> string \<Rightarrow> string option \<Rightarrow> string option \<Rightarrow>
   'n \<Rightarrow> (unit api_response \<times> 'n) option" where
  "put_blob_async = put_blob"

definition delete_blob ::
  "'n api_call \<Rightarrow> olp_client \<Rightarrow> string \<Rightarrow> string \<Rightarrow> string option \<Rightarrow> 'n \<Rightarrow> (unit api_response \<times> 'n) option" where
  "delete_blob call client lid data_handle billing_tag n =
     (let delete_blob_uri = ''/layers/'' @ lid @ ''/data/'' @ data_handle
      in no_result (\<lambda>status. status = HTTP_OK \<or> status = HTTP_ACCEPTED)
           (call client delete_blob_uri ''DELETE'' (billing_query billing_tag) accept_json None [] n))"

definition check_blob_exists ::
  "'n api_call \<Rightarrow> olp_client \<Rightarrow> string \<Rightarrow> string \<Rightarrow> string option \<Rightarrow> 'n \<Rightarrow> (int api_response \<times> 'n) option" where
  "check_blob_exists call client lid data_handle billing_tag n =
     (let check_blob_uri = ''/layers/'' @ lid @ ''/data/'' @ data_handle;
          (response, n) = call client check_blob_uri ''HEAD'' (billing_query billing_tag) accept_json None [] n
      in if resp_status response = HTTP_OK \<or> resp_status response = HTTP_NOT_FOUND
         then Some (Inr (resp_status response), n)
         else Some (Inl (api_error_of_status (resp_status response) (resp_body response)), n))"

section \<open>Configuration and lookup\<close>

definition w_config_get_catalog ::
  "json_lib \<Rightarrow> 'n api_call \<Rightarrow> olp_client \<Rightarrow> string \<Rightarrow> string option \<Rightarrow> 'n \<Rightarrow> (w_catalog api_response \<times> 'n) option" where
  "w_config_get_catalog j call client hrn billing_tag n =
     (let catalog_uri = ''/catalogs/'' @ hrn
      in api_answer HTTP_OK (read_json j w_catalog_from_json empty_w_catalog)
           (call client catalog_uri ''GET'' (billing_query billing_tag) accept_json None [] n))"

definition w_config_get_catalog_async ::
  "json_lib \<Rightarrow> 'n api_call \<Rightarrow> olp_client \<Rightarrow> string \<Rightarrow> string option \<Rightarrow> 'n \<Rightarrow> (w_catalog api_response \<times> 'n) option" where
  "w_config_get_catalog_async = w_config_get_catalog"

definition w_platform_get_apis ::
  "json_lib \<Rightarrow> 'n api_call \<Rightarrow> olp_client \<Rightarrow> string \<Rightarrow> string \<Rightarrow> 'n \<Rightarrow> (w_api list api_response \<times> 'n) option" where
  "w_platform_get_apis j call client serv service_version n =
     (let platform_url = ''/platform/apis/'' @ serv @ ''/'' @ service_version
      in api_answer HTTP_OK (read_json j (vector_from_json w_api_from_json) [])
           (call client platform_url ''GET'' [] accept_json None [] n))"

definition w_platform_get_apis_async ::
  "json_lib \<Rightarrow> 'n api_call \<Rightarrow> olp_client \<Rightarrow> string \<Rightarrow> string \<Rightarrow> 'n \<Rightarrow> (w_api list api_response \<times> 'n) option" where
  "w_platform_get_apis_async = w_platform_get_apis"

definition w_resources_get_apis ::
  "json_lib \<Rightarrow> 'n api_call \<Rightarrow> olp_client \<Rightarrow> string \<Rightarrow> string \<Rightarrow> string \<Rightarrow> 'n \<Rightarrow> (w_api list api_response \<times> 'n) option" where
  "w_resources_get_apis j call client hrn serv service_version n =
     (let resource_url = ''/resources/'' @ hrn @ ''/apis/'' @ serv @ ''/'' @ service_version
      in api_answer HTTP_OK (read_json j (vector_from_json w_api_from_json) [])
           (call client resource_url ''GET'' [] accept_json None [] n))"

definition w_resources_get_apis_async ::
  "json_lib \<Rightarrow> 'n api_call \<Rightarrow> olp_client \<Rightarrow> string \<Rightarrow> string \<Rightarrow> string \<Rightarrow> 'n \<Rightarrow> (w_api list api_response \<times> 'n) option" where
  "w_resources_get_apis_async = w_resources_get_apis"

section \<open>Publications\<close>

text \<open>The publication is written before the request is sent.\<close>

definition init_publication ::
  "json_lib \<Rightarrow> 'n api_call \<Rightarrow> olp_client \<Rightarrow> publication \<Rightarrow> string option \<Rightarrow> 'n \<Rightarrow> (publication api_response \<times> 'n) option" where
  "init_publication j call client publication billing_tag n =
     Option.bind (publication_to_json publication (JObject [])) (\<lambda>doc.
       api_answer HTTP_OK (read_json j publication_from_json empty_publication)
         (call client ''/publications'' ''POST'' (billing_query billing_tag) accept_json (Some (json_text j doc))
            ''application/json'' n))"

definition init_publication_async ::
  "json_lib \<Rightarrow> 'n api_call \<Rightarrow> olp_client \<Rightarrow> publication \<Rightarrow> string option \<Rightarrow> 'n \<Rightarrow> (publication api_response \<times> 'n) option" where
  "init_publication_async = init_publication"

definition upload_partitions ::
  "json_lib \<Rightarrow> 'n api_call \<Rightarrow> olp_client \<Rightarrow> publish_partitions \<Rightarrow> string \<Rightarrow> string \<Rightarrow> string option \<Rightarrow>
   'n \<Rightarrow> (unit api_response \<times> 'n) option" where
  "upload_partitions j call client publish_partitions pid lid billing_tag n =
     (let upload_partitions_uri = ''/layers/'' @ lid @ ''/publications/'' @ pid @ ''/partitions''
      in Option.bind (publish_partitions_to_json publish_partitions (JObject [])) (\<lambda>doc.
           no_result (\<lambda>status. status = HTTP_NO_CONTENT)
             (call client upload_partitions_uri ''POST'' (billing_query billing_tag) accept_json (Some (json_text j doc))
                ''application/json'' n)))"

definition upload_partitions_async ::
  "json_lib \<Rightarrow> 'n api_call \<Rightarrow> olp_client \<Rightarrow> publish_partitions \<Rightarrow> string \<Rightarrow> string \<Rightarrow> string option \<Rightarrow>
   'n \<Rightarrow> (unit api_response \<times> 'n) option" where
  "upload_partitions_async = upload_partitions"

definition submit_publication ::
  "'n api_call \<Rightarrow> olp_client \<Rightarrow> string \<Rightarrow> string option \<Rightarrow> 'n \<Rightarrow> (unit api_response \<times> 'n) option" where
  "submit_publication call client pid billing_tag n =
     (let submit_publication_uri = ''/publications/'' @ pid
      in no_result (\<lambda>status. status = HTTP_NO_CONTENT)
           (call client submit_publication_uri ''PUT'' (billing_query billing_tag) accept_json None ''application/json'' n))"

definition submit_publication_async ::
  "'n api_call \<Rightarrow> olp_client \<Rightarrow> string \<Rightarrow> string option \<Rightarrow> 'n \<Rightarrow> (unit api_response \<times> 'n) option" where
  "submit_publication_async = submit_publication"

definition get_publication ::
  "json_lib \<Rightarrow> 'n api_call \<Rightarrow> olp_client \<Rightarrow> string \<Rightarrow> string option \<Rightarrow> 'n \<Rightarrow> (publication api_response \<times> 'n) option" where
  "get_publication j call client pid billing_tag n =
     (let get_publication_uri = ''/publications/'' @ pid
      in api_answer HTTP_OK (read_json j publication_from_json empty_publication)
           (call client get_publication_uri ''GET'' (billing_query billing_tag) accept_json None ''application/json'' n))"

definition cancel_publication ::
  "'n api_call \<Rightarrow> olp_client \<Rightarrow> string \<Rightarrow> string option \<Rightarrow> 'n \<Rightarrow> (unit api_response \<times> 'n) option" where
  "cancel_publication call client pid billing_tag n =
     (let submit_publication_uri = ''/publications/'' @ pid
      in no_result (\<lambda>status. status = HTTP_NO_CONTENT)
           (call client submit_publication_uri ''DELETE'' (billing_query billing_tag) accept_json None ''application/json'' n))"

section \<open>Ingestion\<close>

abbreviation (input) ingest_headers :: "string option \<Rightarrow> string option \<Rightarrow> (string \<times> string) list" where
  "ingest_headers trace_id checksum \<equiv>
     mm_optional ''X-HERE-Checksum'' checksum (mm_optional ''X-HERE-TraceId'' trace_id accept_json)"

definition ingest_data ::
  "json_lib \<Rightarrow> 'n api_call \<Rightarrow> olp_client \<Rightarrow> string \<Rightarrow> string \<Rightarrow> string option \<Rightarrow> string option \<Rightarrow> string option \<Rightarrow>
   string option \<Rightarrow> 'n \<Rightarrow> (response_ok_single api_response \<times> 'n) option" where
  "ingest_data j call client lid content_type data trace_id billing_tag checksum n =
     (let ingest_uri = ''/layers/'' @ lid
      in api_answer HTTP_OK (read_json j response_ok_single_from_json empty_response_ok_single)
           (call client ingest_uri ''POST'' (billing_query billing_tag) (ingest_headers trace_id checksum) data content_type n))"

definition ingest_data_async ::
  "json_lib \<Rightarrow> 'n api_call \<Rightarrow> olp_client \<Rightarrow> string \<Rightarrow> string \<Rightarrow> string option \<Rightarrow> string option \<Rightarrow> string option \<Rightarrow>
   string option \<Rightarrow> 'n \<Rightarrow> (response_ok_single api_response \<times> 'n) option" where
  "ingest_data_async = ingest_data"

definition ingest_sdii ::
  "json_lib \<Rightarrow> 'n api_call \<Rightarrow> olp_client \<Rightarrow> string \<Rightarrow> string option \<Rightarrow> string option \<Rightarrow> string option \<Rightarrow>
   string option \<Rightarrow> 'n \<Rightarrow> (response_ok api_response \<times> 'n) option" where
  "ingest_sdii j call client lid sdii_message_list trace_id billing_tag checksum n =
     (let ingest_uri = ''/layers/'' @ lid @ ''/sdiiMessageList''
      in api_answer HTTP_OK (read_json j response_ok_from_json empty_response_ok)
           (call client ingest_uri ''POST'' (billing_query billing_tag) (ingest_headers trace_id checksum) sdii_message_list
              ''application/x-protobuf'' n))"

section \<open>Indexes\<close>

text \<open>Only a status above 201 is an error here.\<close>

definition insert_indexes ::
  "json_lib \<Rightarrow> 'n api_call \<Rightarrow> olp_client \<Rightarrow> index \<Rightarrow> string \<Rightarrow> string option \<Rightarrow> 'n \<Rightarrow> (unit api_response \<times> 'n) option" where
  "insert_indexes j call client indexes lid billing_tag n =
     Option.bind (index_to_json indexes) (\<lambda>doc.
       no_result (\<lambda>status. \<not> HTTP_CREATED < status)
         (call client (''/layers/'' @ lid) ''POST'' (billing_query billing_tag) accept_json (Some (json_text j doc))
            ''application/json'' n))"

definition perform_update ::
  "json_lib \<Rightarrow> 'n api_call \<Rightarrow> olp_client \<Rightarrow> update_index_request \<Rightarrow> string option \<Rightarrow> 'n \<Rightarrow> (unit api_response \<times> 'n) option" where
  "perform_update j call client request billing_tag n =
     Option.bind (update_index_request_to_json request (JObject [])) (\<lambda>doc.
       no_result (\<lambda>status. \<not> HTTP_CREATED < status)
         (call client (''/layers/'' @ uir_layer_id request) ''PUT'' (billing_query billing_tag) accept_json
            (Some (json_text j doc)) ''application/json'' n))"

section \<open>Metadata and queries\<close>

definition w_metadata_get_layer_versions ::
  "json_lib \<Rightarrow> 'n api_call \<Rightarrow> olp_client \<Rightarrow> int \<Rightarrow> string option \<Rightarrow> 'n \<Rightarrow> (w_layer_versions api_response \<times> 'n) option" where
  "w_metadata_get_layer_versions j call client version billing_tag n =
     (let query_params = mm_optional ''billingTag'' billing_tag (mm_emplace ''version'' (int_to_string version) [])
      in api_answer HTTP_OK (read_json j w_layer_versions_from_json empty_w_layer_versions)
           (call client ''/layerVersions'' ''GET'' query_params accept_json None [] n))"

definition w_metadata_get_partitions ::
  "json_lib \<Rightarrow> 'n api_call \<Rightarrow> olp_client \<Rightarrow> string \<Rightarrow> int option \<Rightarrow> string list option \<Rightarrow> string option \<Rightarrow> string option \<Rightarrow>
   'n \<Rightarrow> (w_partitions api_response \<times> 'n) option" where
  "w_metadata_get_partitions j call client lid version additional_fields byte_range billing_tag n =
     Option.bind (with_fields additional_fields []) (\<lambda>query_params.
       let query_params = mm_optional ''billingTag'' billing_tag query_params;
           query_params = mm_optional ''version'' (map_option int_to_string version) query_params;
           metadata_uri = ''/layers/'' @ lid @ ''/partitions''
       in api_answer HTTP_OK (read_json j w_partitions_from_json empty_w_partitions)
            (call client metadata_uri ''GET'' query_params (mm_optional ''Range'' byte_range accept_json) None [] n))"

definition w_metadata_get_latest_catalog_version ::
  "json_lib \<Rightarrow> 'n api_call \<Rightarrow> olp_client \<Rightarrow> int \<Rightarrow> string option \<Rightarrow> 'n \<Rightarrow> (w_version_response api_response \<times> 'n) option" where
  "w_metadata_get_latest_catalog_version j call client startVersion billing_tag n =
     (let query_params = mm_optional ''billingTag'' billing_tag (mm_emplace ''startVersion'' (int_to_string startVersion) [])
      in api_answer HTTP_OK (read_json j w_version_response_from_json empty_w_version_response)
           (call client ''/versions/latest'' ''GET'' query_params accept_json None [] n))"

text \<open>All the identifiers go into one parameter.\<close>

definition w_query_get_partitions_by_id ::
  "json_lib \<Rightarrow> 'n api_call \<Rightarrow> olp_client \<Rightarrow> string \<Rightarrow> string list \<Rightarrow> int option \<Rightarrow> string list option \<Rightarrow> string option \<Rightarrow>
   'n \<Rightarrow> (w_partitions api_response \<times> 'n) option" where
  "w_query_get_partitions_by_id j call client lid partition_ids version additional_fields billing_tag n =
     Option.bind (concat_string_array partition_ids ''&partition='') (\<lambda>ids.
       Option.bind (with_fields additional_fields (mm_emplace ''partition'' ids [])) (\<lambda>query_params.
         let query_params = mm_optional ''billingTag'' billing_tag query_params;
             query_params = mm_optional ''version'' (map_option int_to_string version) query_params;
             query_uri = ''/layers/'' @ lid @ ''/partitions''
         in api_answer HTTP_OK (read_json j w_partitions_from_json empty_w_partitions)
              (call client query_uri ''GET'' query_params accept_json None [] n)))"

end
