(* ===== verification/WriteStream.thy ===== *)
theory WriteStream
  imports WriteApi ReadClients
begin

text \<open>
  \<open>src/ApiClientLookup.cpp\<close> and \<open>src/StreamLayerClientImpl.cpp\<close> of the write service: the lookup of a service,
  the queue of requests in the cache, flushing it, and publishing. An operation runs as a task; its state is
  the one of the cache and the one of the network, and \<^term>\<open>None\<close> is an exception, an assertion, a null pointer
  that is used, or a loop that never ends.
\<close>

section \<open>Environment\<close>

text \<open>The cache holds texts and requests.\<close>

datatype write_value = WText string | WRequest publish_data_request

text \<open>
  The two variants of \<open>CallApi\<close>, with a cancellation context and with a callback; the generator of UUIDs draws
  from the state of the network. The cache may be a null pointer.
\<close>

record ('s, 'n) write_env =
  we_json :: json_lib
  we_cache :: "(write_value, 's) key_value_cache option"
  we_call :: "'n api_call"
  we_call_async :: "'n api_call"
  we_settings :: olp_client_settings
  we_cancelled :: "'n \<Rightarrow> bool"
  we_uuid :: "'n \<Rightarrow> string \<times> 'n"

definition decode_text :: "string \<Rightarrow> write_value cached_value option" where
  "decode_text s = Some (Typed (WText s))"

fun cast_text :: "write_value cached_value \<Rightarrow> string option" where
  "cast_text (Typed (WText x)) = Some x"
| "cast_text _ = None"

definition decode_request :: "json_lib \<Rightarrow> string \<Rightarrow> write_value cached_value option" where
  "decode_request j t =
     map_option (Typed \<circ> WRequest) (parse_document publish_data_request_from_json empty_publish_data_request (json_parse j t))"

fun cast_request :: "write_value cached_value \<Rightarrow> publish_data_request option" where
  "cast_request (Typed (WRequest x)) = Some x"
| "cast_request _ = None"

text \<open>\<open>Get\<close> of the cache and the cast of what it finds.\<close>

definition w_get_as ::
  "(write_value, 's) key_value_cache \<Rightarrow> (string \<Rightarrow> write_value cached_value option) \<Rightarrow> (write_value cached_value \<Rightarrow> 'a option) \<Rightarrow>
   string \<Rightarrow> 's \<Rightarrow> ('a option \<times> 's) option" where
  "w_get_as kv decoder any_cast key s = do {
     (found, s) \<leftarrow> kv_get kv key decoder s;
     (case found of
        None \<Rightarrow> Some (None, s)
      | Some v \<Rightarrow> do { x \<leftarrow> any_cast v; Some (Some x, s) }) }"

section \<open>Lookup of a service\<close>

definition w_datastore_server_url :: "string \<Rightarrow> string" where
  "w_datastore_server_url part =
     (case map_of
        [(''here'', ''data.api.platform.here.com''), (''here-dev'', ''data.api.platform.in.here.com''),
         (''here-cn'', ''data.api.platform.hereolp.cn''), (''here-cn-dev'', ''data.api.platform.in.hereolp.cn'')] part of
        Some url \<Rightarrow> ''https://api-lookup.'' @ url @ ''/lookup/v1''
      | None \<Rightarrow> [])"

definition create_key_for_cache :: "string \<Rightarrow> string \<Rightarrow> string \<Rightarrow> string" where
  "create_key_for_cache hrn serv service_version = hrn @ ''::'' @ serv @ ''::'' @ service_version @ ''::api''"

definition invalid_hrn :: api_error where
  "invalid_hrn = api_error_of_code NotFound ''Invalid or broken HRN'' False"

definition service_not_available :: api_error where
  "service_not_available = api_error_of_code ServiceUnavailable ''Service/Version not available for given HRN'' False"

text \<open>Whether \<open>Put\<close> succeeds is only logged. The address is kept for an hour.\<close>

definition lookup_api_client ::
  "('s, 'n) write_env \<Rightarrow> hrn \<Rightarrow> string \<Rightarrow> string \<Rightarrow> 's \<times> 'n \<Rightarrow> (olp_client, 's, 'n) read_result" where
  "lookup_api_client env cat serv service_version sn =
     (case sn of (s, n) \<Rightarrow>
      let key = create_key_for_cache (to_catalog_hrn_string cat) serv service_version in do {
        (url, s) \<leftarrow> (case we_cache env of
          Some kv \<Rightarrow> w_get_as kv decode_text cast_text key s
        | None \<Rightarrow> Some (None, s));
        (case url of
           Some url \<Rightarrow> Some (Inr (client_of url (we_settings env)), s, n)
         | None \<Rightarrow>
             (let server = w_datastore_server_url (partition_of cat);
                  input_client = client_of server (we_settings env)
              in if server = [] then Some (Inl invalid_hrn, s, n)
                 else do {
                   (response, n) \<leftarrow>
                     (if serv = ''config'' then w_platform_get_apis (we_json env) (we_call env) input_client serv service_version n
                      else w_resources_get_apis (we_json env) (we_call env) input_client (to_catalog_hrn_string cat)
                             serv service_version n);
                   (case response of
                      Inl e \<Rightarrow> Some (Inl e, s, n)
                    | Inr [] \<Rightarrow> Some (Inl service_not_available, s, n)
                    | Inr (a # _) \<Rightarrow> do {
                        s \<leftarrow> (case we_cache env of
                          Some kv \<Rightarrow> do {
                            (_, s) \<leftarrow> kv_put kv key (Some (Typed (WText (w_api_base_url a)))) (w_api_base_url a) 3600 s;
                            Some s }
                        | None \<Rightarrow> Some s);
                        Some (Inr (client_of (w_api_base_url a) (we_settings env)), s, n) }) })) })"

section \<open>The queue\<close>

record stream_layer_client =
  sl_catalog :: hrn
  sl_maximum_requests :: nat

definition find_content_type :: "w_catalog \<Rightarrow> string \<Rightarrow> string" where
  "find_content_type cat lid =
     (case find (\<lambda>l. w_layer_id l = lid) (w_catalog_layers cat) of Some l \<Rightarrow> w_layer_content_type l | None \<Rightarrow> [])"

definition get_uuid_list_key :: "stream_layer_client \<Rightarrow> string" where
  "get_uuid_list_key cl = to_catalog_hrn_string (sl_catalog cl) @ ''-stream-queue-cache''"

text \<open>The list of the queue is a text in which a comma follows every key.\<close>

definition get_uuid_list :: "(write_value, 's) key_value_cache \<Rightarrow> stream_layer_client \<Rightarrow> 's \<Rightarrow> (string option \<times> 's) option" where
  "get_uuid_list kv cl s = w_get_as kv decode_text cast_text (get_uuid_list_key cl) s"

definition put_uuid_list :: "(write_value, 's) key_value_cache \<Rightarrow> stream_layer_client \<Rightarrow> string \<Rightarrow> 's \<Rightarrow> 's option" where
  "put_uuid_list kv cl uuid_list s =
     map_option snd (kv_put kv (get_uuid_list_key cl) (Some (Typed (WText uuid_list))) uuid_list kDefaultExpiry s)"

definition queue_size :: "('s, 'n) write_env \<Rightarrow> stream_layer_client \<Rightarrow> 's \<Rightarrow> (nat \<times> 's) option" where
  "queue_size env cl s = do {
     kv \<leftarrow> we_cache env;
     (uuid_list, s) \<leftarrow> get_uuid_list kv cl s;
     Some (case uuid_list of Some l \<Rightarrow> length (filter (\<lambda>c. c = CHR '','') l) | None \<Rightarrow> 0, s) }"

text \<open>The answer is the text of an error, if there is one.\<close>

definition queue ::
  "('s, 'n) write_env \<Rightarrow> stream_layer_client \<Rightarrow> publish_data_request \<Rightarrow> 's \<times> 'n \<Rightarrow> (string option \<times> 's \<times> 'n) option" where
  "queue env cl request sn =
     (case sn of (s, n) \<Rightarrow>
      if we_cache env = None then Some (Some ''No cache provided to StreamLayerClient'', s, n)
      else if pdr_data request = None then Some (Some ''PublishDataRequest does not contain any Data'', s, n)
      else if pdr_layer_id request = [] then Some (Some ''PublishDataRequest does not contain a Layer ID'', s, n)
      else do {
        (size, s) \<leftarrow> queue_size env cl s;
        if \<not> size < sl_maximum_requests cl then Some (Some ''Maximum number of requests has reached'', s, n)
        else do {
          kv \<leftarrow> we_cache env;
          let (key, n) = we_uuid env n;
          doc \<leftarrow> publish_data_request_to_json request (JObject []);
          (_, s) \<leftarrow> kv_put kv key (Some (Typed (WRequest request))) (json_text (we_json env) doc) kDefaultExpiry s;
          (uuid_list, s) \<leftarrow> get_uuid_list kv cl s;
          s \<leftarrow> put_uuid_list kv cl ((case uuid_list of Some l \<Rightarrow> l | None \<Rightarrow> []) @ key @ '','') s;
          Some (None, s, n) } })"

definition pop_from_queue ::
  "('s, 'n) write_env \<Rightarrow> stream_layer_client \<Rightarrow> 's \<Rightarrow> (publish_data_request option \<times> 's) option" where
  "pop_from_queue env cl s = do {
     kv \<leftarrow> we_cache env;
     (uuid_list, s) \<leftarrow> get_uuid_list kv cl s;
     (case uuid_list of
        None \<Rightarrow> Some (None, s)
      | Some l \<Rightarrow>
          (let pos = length (takeWhile (\<lambda>c. c \<noteq> CHR '','') l) in
           if pos = length l then Some (None, s)
           else do {
             let key = take pos l;
             (found, s) \<leftarrow> kv_get kv key (decode_request (we_json env)) s;
             (_, s) \<leftarrow> kv_remove kv key s;
             s \<leftarrow> put_uuid_list kv cl (drop (pos + 1) l) s;
             (case found of
                None \<Rightarrow> Some (None, s)
              | Some v \<Rightarrow> do { r \<leftarrow> cast_request v; Some (Some r, s) }) })) }"

section \<open>Publishing\<close>

text \<open>An error ends an operation; a call of a service leaves the cache alone.\<close>

definition on_success ::
  "('a, 's, 'n) read_result \<Rightarrow> ('a \<Rightarrow> 's \<times> 'n \<Rightarrow> ('b, 's, 'n) read_result) \<Rightarrow> ('b, 's, 'n) read_result" where
  "on_success result f = do {
     (response, sn) \<leftarrow> result;
     (case response of Inl e \<Rightarrow> Some (Inl e, sn) | Inr x \<Rightarrow> f x sn) }"

definition on_network :: "('n \<Rightarrow> ('a api_response \<times> 'n) option) \<Rightarrow> 's \<times> 'n \<Rightarrow> ('a, 's, 'n) read_result" where
  "on_network f sn = do { (response, n) \<leftarrow> f (snd sn); Some (response, fst sn, n) }"

definition new_uuid :: "('c, 'n) write_env \<Rightarrow> (string \<Rightarrow> 's \<times> 'n \<Rightarrow> ('a, 's, 'n) read_result) \<Rightarrow> 's \<times> 'n \<Rightarrow> ('a, 's, 'n) read_result" where
  "new_uuid env f sn = (case we_uuid env (snd sn) of (uuid, n) \<Rightarrow> f uuid (fst sn, n))"

definition stream_layer_not_found :: "string \<Rightarrow> hrn \<Rightarrow> api_error" where
  "stream_layer_not_found lid cat =
     api_error_of_code InvalidArgument
       (''Unable to find the Layer ID=`'' @ lid @ ''` provided in the PublishDataRequest in the Catalog='' @ hrn_to_string cat) False"

definition publish_data_less_than_twenty_mib ::
  "('s, 'n) write_env \<Rightarrow> stream_layer_client \<Rightarrow> publish_data_request \<Rightarrow> 's \<times> 'n \<Rightarrow> (response_ok_single, 's, 'n) read_result" where
  "publish_data_less_than_twenty_mib env cl request sn =
     (let cat = sl_catalog cl; lid = pdr_layer_id request; billing_tag = pdr_billing_tag request in
      on_success (lookup_api_client env cat ''config'' ''v1'' sn) (\<lambda>client sn.
      on_success (on_network (w_config_get_catalog (we_json env) (we_call env) client (hrn_to_string cat) billing_tag) sn)
        (\<lambda>catalog_model sn.
          let content_type = find_content_type catalog_model lid in
          if content_type = [] then Some (Inl (stream_layer_not_found lid cat), sn)
          else
            on_success (lookup_api_client env cat ''ingest'' ''v1'' sn) (\<lambda>client.
              on_network (ingest_data (we_json env) (we_call env) client lid content_type (pdr_data request)
                (pdr_trace_id request) billing_tag (pdr_checksum request))))))"

definition no_publication :: api_error where
  "no_publication =
     api_error_of_code InvalidArgument
       ''Response from server on InitPublication request doesn't contain any publication'' False"

definition publish_data_greater_than_twenty_mib ::
  "('s, 'n) write_env \<Rightarrow> stream_layer_client \<Rightarrow> publish_data_request \<Rightarrow> 's \<times> 'n \<Rightarrow> (response_ok_single, 's, 'n) read_result" where
  "publish_data_greater_than_twenty_mib env cl request sn =
     (let cat = sl_catalog cl; lid = pdr_layer_id request; billing_tag = pdr_billing_tag request; j = we_json env; call = we_call env in
      on_success (lookup_api_client env cat ''config'' ''v1'' sn) (\<lambda>config_client sn.
      on_success (on_network (w_config_get_catalog j call config_client (hrn_to_string cat) billing_tag) sn) (\<lambda>catalog_model sn.
      let content_type = find_content_type catalog_model lid in
      if content_type = [] then Some (Inl (stream_layer_not_found lid cat), sn)
      else
      on_success (lookup_api_client env cat ''publish'' ''v2'' sn) (\<lambda>publish_client sn.
      on_success (lookup_api_client env cat ''blob'' ''v1'' sn) (\<lambda>blob_client sn.
      on_success (on_network (init_publication j call publish_client (empty_publication\<lparr>publication_layer_ids := Some [lid]\<rparr>)
        billing_tag) sn) (\<lambda>publication sn.
      case publication_id publication of
        None \<Rightarrow> Some (Inl no_publication, sn)
      | Some pid \<Rightarrow>
          new_uuid env (\<lambda>data_handle sn.
          on_success (on_network (put_blob call blob_client lid content_type data_handle (pdr_data request) billing_tag) sn) (\<lambda>_.
          new_uuid env (\<lambda>partition_id sn.
          let partitions = \<lparr>pps_partitions =
            Some [empty_publish_partition\<lparr>pp_partition := Some partition_id, pp_data_handle := Some data_handle\<rparr>]\<rparr> in
          on_success (on_network (upload_partitions j call publish_client partitions pid lid billing_tag) sn) (\<lambda>_ sn.
          on_success (on_network (submit_publication call publish_client pid billing_tag) sn) (\<lambda>_ sn.
            Some (Inr \<lparr>single_trace_id = partition_id\<rparr>, sn)))))) sn))))))"

text \<open>The boundary is 20 MiB.\<close>

definition publish_data_task ::
  "('s, 'n) write_env \<Rightarrow> stream_layer_client \<Rightarrow> publish_data_request \<Rightarrow> 's \<times> 'n \<Rightarrow> (response_ok_single, 's, 'n) read_result" where
  "publish_data_task env cl request sn = do {
     data \<leftarrow> pdr_data request;
     if length data \<le> 20971520 then publish_data_less_than_twenty_mib env cl request sn
     else publish_data_greater_than_twenty_mib env cl request sn }"

definition stream_publish_data ::
  "('s, 'n) write_env \<Rightarrow> stream_layer_client \<Rightarrow> publish_data_request \<Rightarrow> 's \<times> 'n \<Rightarrow> (response_ok_single, 's, 'n) read_result" where
  "stream_publish_data env cl request sn =
     (if pdr_data request = None
      then Some (Inl (api_error_of_code InvalidArgument ''Request's data is null.'' False), sn)
      else run_task (we_cancelled env) (publish_data_task env cl request) sn)"

definition stream_ingest_sdii ::
  "('s, 'n) write_env \<Rightarrow> stream_layer_client \<Rightarrow> publish_sdii_request \<Rightarrow> 's \<times> 'n \<Rightarrow> (response_ok, 's, 'n) read_result" where
  "stream_ingest_sdii env cl request sn =
     on_success (lookup_api_client env (sl_catalog cl) ''ingest'' ''v1'' sn) (\<lambda>client.
       on_network (ingest_sdii (we_json env) (we_call env) client (psr_layer_id request) (psr_sdii_message_list request)
         (psr_trace_id request) (psr_billing_tag request) (psr_checksum request)))"

definition publish_sdii_task ::
  "('s, 'n) write_env \<Rightarrow> stream_layer_client \<Rightarrow> publish_sdii_request \<Rightarrow> 's \<times> 'n \<Rightarrow> (response_ok, 's, 'n) read_result" where
  "publish_sdii_task env cl request sn =
     (if psr_sdii_message_list request = None
      then Some (Inl (api_error_of_code InvalidArgument ''Request sdii message list null.'' False), sn)
      else if psr_layer_id request = []
      then Some (Inl (api_error_of_code InvalidArgument ''Request layer id empty.'' False), sn)
      else stream_ingest_sdii env cl request sn)"

definition stream_publish_sdii ::
  "('s, 'n) write_env \<Rightarrow> stream_layer_client \<Rightarrow> publish_sdii_request \<Rightarrow> 's \<times> 'n \<Rightarrow> (response_ok, 's, 'n) read_result" where
  "stream_publish_sdii env cl request = run_task (we_cancelled env) (publish_sdii_task env cl request)"

section \<open>Flushing\<close>

text \<open>
  \<open>PublishDataTask\<close> is virtual, here the parameter \<open>publish\<close>. An entry of the queue that cannot be restored is
  skipped and not counted, so the loop may go on for ever. A request that is published while the operation is
  cancelled goes back to the end of the queue.
\<close>

type_synonym ('s, 'n) publisher = "publish_data_request \<Rightarrow> 's \<times> 'n \<Rightarrow> (response_ok_single, 's, 'n) read_result"

type_synonym flush_response = "response_ok_single api_response list"

partial_function (option) flush_loop ::
  "('s, 'n) write_env \<Rightarrow> stream_layer_client \<Rightarrow> ('s, 'n) publisher \<Rightarrow> int \<Rightarrow> int \<Rightarrow> flush_response \<Rightarrow> 's \<times> 'n \<Rightarrow>
   (flush_response \<times> 's \<times> 'n) option" where
  "flush_loop env cl publish maximum_events_number counter responses sn =
     (if \<not> (maximum_events_number = 0 \<or> counter < maximum_events_number) then Some (responses, sn)
      else
       Option.bind (queue_size env cl (fst sn)) (\<lambda>(size, s).
       if size = 0 \<or> we_cancelled env (snd sn) then Some (responses, s, snd sn)
       else
       Option.bind (pop_from_queue env cl s) (\<lambda>(popped, s).
       case popped of
         None \<Rightarrow> flush_loop env cl publish maximum_events_number counter responses (s, snd sn)
       | Some request \<Rightarrow>
           Option.bind (publish request (s, snd sn)) (\<lambda>(response, sn).
           if we_cancelled env (snd sn)
           then Option.bind (queue env cl request sn) (\<lambda>(_, sn). Some (responses @ [response], sn))
           else flush_loop env cl publish maximum_events_number (counter + 1) (responses @ [response]) sn))))"

definition flush_task ::
  "('s, 'n) write_env \<Rightarrow> stream_layer_client \<Rightarrow> ('s, 'n) publisher \<Rightarrow> flush_request \<Rightarrow> 's \<times> 'n \<Rightarrow> (flush_response \<times> 's \<times> 'n) option" where
  "flush_task env cl publish request sn =
     (let maximum_events_number = fr_num_requests_per_flush request in
      if maximum_events_number < 0 then Some ([], sn)
      else flush_loop env cl publish maximum_events_number 0 [] sn)"

text \<open>
  The calls of the callback: in the task, or when the task was cancelled before it began, after it.
\<close>

definition stream_flush ::
  "('s, 'n) write_env \<Rightarrow> stream_layer_client \<Rightarrow> ('s, 'n) publisher \<Rightarrow> flush_request \<Rightarrow> 's \<times> 'n \<Rightarrow> (flush_response list \<times> 's \<times> 'n) option" where
  "stream_flush env cl publish request sn =
     (if we_cancelled env (snd sn) then Some ([[]], sn)
      else do { (responses, sn) \<leftarrow> flush_task env cl publish request sn; Some ([responses], sn) })"

end
