(* ===== verification/WriteQueue.thy ===== *)
theory WriteQueue
  imports WriteStream
begin

text \<open>
  The queue of the stream layer client as a list. The contract of a queue is a locale, in which flushing is
  proved correct; it is interpreted on the operations of \<open>StreamLayerClientImpl\<close> over a cache that forgets
  nothing, as \<open>DefaultCache\<close> is while its memory is not full.
\<close>

section \<open>The contract\<close>

text \<open>\<open>holds s rs\<close>: the cache \<open>s\<close> holds the queue of the requests \<open>rs\<close>, the first to leave first.\<close>

locale request_queue =
  fixes env :: "('s, 'n) write_env" and cl :: stream_layer_client
    and holds :: "'s \<Rightarrow> publish_data_request list \<Rightarrow> bool"
  assumes size_law: "holds s rs \<Longrightarrow> \<exists>s'. queue_size env cl s = Some (length rs, s') \<and> holds s' rs"
    and pop_law: "holds s (r # rs) \<Longrightarrow> \<exists>s'. pop_from_queue env cl s = Some (Some r, s') \<and> holds s' rs"
begin

text \<open>
  A publisher that always comes back, leaves the queue alone, and is recorded by the network: \<open>published\<close> is
  what it was called with and what it answered.
\<close>

definition recorded :: "('n \<Rightarrow> (publish_data_request \<times> response_ok_single api_response) list) \<Rightarrow> ('s, 'n) publisher \<Rightarrow> bool" where
  "recorded published publish \<longleftrightarrow>
     (\<forall>r s n rs. holds s rs \<longrightarrow>
        (\<exists>a s' n'. publish r (s, n) = Some (a, s', n') \<and> holds s' rs \<and> published n' = published n @ [(r, a)]))"

lemma flush_loop_done:
  assumes "holds s rs" and "rs = []"
  shows "\<exists>s'. flush_loop env cl publish m c responses (s, n) = Some (responses, s', n) \<and> holds s' rs"
proof -
  obtain s' where q: "queue_size env cl s = Some (0, s')" "holds s' rs" using size_law [OF assms(1)] assms(2) by auto
  show ?thesis
    by (cases "m = 0 \<or> c < m") (use q assms in \<open>simp_all add: flush_loop.simps [of env cl publish m c responses]\<close>)
qed

lemma flush_loop_publishes:
  assumes "recorded published publish" and "\<And>n. \<not> we_cancelled env n" and "holds s rs"
    and "0 \<le> c" and "k = (if m = 0 then length rs else min (nat (m - c)) (length rs))"
  shows "\<exists>s' n' as. flush_loop env cl publish m c responses (s, n) = Some (responses @ as, s', n') \<and>
    holds s' (drop k rs) \<and> length as = k \<and> published n' = published n @ zip (take k rs) as"
  using assms(3,4,5)
proof (induction rs arbitrary: s n c responses k)
  case Nil
  have "k = 0" using Nil.prems(3) by (simp split: if_splits)
  then show ?case using flush_loop_done [OF Nil.prems(1) refl, of publish m c responses n] by auto
next
  case (Cons r rs)
  show ?case
  proof (cases "m = 0 \<or> c < m")
    case False
    then have "k = 0" using Cons.prems(3) by simp
    then show ?thesis using False Cons.prems(1) by (auto simp: flush_loop.simps [of env cl publish m c responses])
  next
    case True
    obtain s1 where s1: "queue_size env cl s = Some (Suc (length rs), s1)" "holds s1 (r # rs)"
      using size_law [OF Cons.prems(1)] by auto
    obtain s2 where s2: "pop_from_queue env cl s1 = Some (Some r, s2)" "holds s2 rs" using pop_law [OF s1(2)] by blast
    obtain a s3 n3 where p: "publish r (s2, n) = Some (a, s3, n3)" "holds s3 rs" "published n3 = published n @ [(r, a)]"
      using assms(1) s2(2) unfolding recorded_def by blast
    define k' where "k' = (if m = 0 then length rs else min (nat (m - (c + 1))) (length rs))"
    have k: "k = Suc k'" using True Cons.prems(2,3) by (auto simp: k'_def min_def)
    from Cons.IH [OF p(2) _ k'_def, of "responses @ [a]" n3] Cons.prems(2)
    obtain s' n' as where ih: "flush_loop env cl publish m (c + 1) (responses @ [a]) (s3, n3) = Some (responses @ [a] @ as, s', n')"
        "holds s' (drop k' rs)" "length as = k'" "published n' = published n3 @ zip (take k' rs) as" by auto
    have "flush_loop env cl publish m c responses (s, n) = Some (responses @ (a # as), s', n')"
      using True s1 s2 p ih(1) assms(2) by (simp add: flush_loop.simps [of env cl publish m c responses])
    then show ?thesis using ih(2-4) p(3) k by (intro exI [of _ s'] exI [of _ n'] exI [of _ "a # as"]) simp
  qed
qed

lemma flush_publishes:
  assumes "recorded published publish" and "\<And>n. \<not> we_cancelled env n" and "holds s rs" and "0 \<le> fr_num_requests_per_flush request"
    and "k = (if fr_num_requests_per_flush request = 0 then length rs
      else min (nat (fr_num_requests_per_flush request)) (length rs))"
  shows "\<exists>s' n' as. flush_task env cl publish request (s, n) = Some (as, s', n') \<and>
    holds s' (drop k rs) \<and> length as = k \<and> published n' = published n @ zip (take k rs) as"
proof -
  have "\<exists>s' n' as. flush_loop env cl publish (fr_num_requests_per_flush request) 0 [] (s, n) = Some ([] @ as, s', n') \<and>
      holds s' (drop k rs) \<and> length as = k \<and> published n' = published n @ zip (take k rs) as"
    by (rule flush_loop_publishes [OF assms(1,2,3)]) (simp_all add: assms(5))
  then show ?thesis using assms(4) by (simp add: flush_task_def Let_def)
qed

text \<open>A request whose publishing ends while the flush is cancelled is queued again, whatever was answered.\<close>

lemma flush_cancelled:
  assumes "holds s (r # rs)" and "\<not> we_cancelled env n" and "0 \<le> fr_num_requests_per_flush request"
    and "\<And>s. holds s rs \<Longrightarrow> \<exists>s'. publish r (s, n) = Some (a, s', n') \<and> holds s' rs" and "we_cancelled env n'"
    and "\<And>s. holds s rs \<Longrightarrow> \<exists>s'. queue env cl r (s, n') = Some (None, s', n'') \<and> P s'"
  shows "\<exists>s'. flush_task env cl publish request (s, n) = Some ([a], s', n'') \<and> P s'"
proof -
  obtain s1 where s1: "queue_size env cl s = Some (Suc (length rs), s1)" "holds s1 (r # rs)"
    using size_law [OF assms(1)] by auto
  obtain s2 where s2: "pop_from_queue env cl s1 = Some (Some r, s2)" "holds s2 rs" using pop_law [OF s1(2)] by blast
  obtain s3 where s3: "publish r (s2, n) = Some (a, s3, n')" "holds s3 rs" using assms(4) [OF s2(2)] by blast
  obtain s4 where s4: "queue env cl r (s3, n') = Some (None, s4, n'')" "P s4" using assms(6) [OF s3(2)] by blast
  have "fr_num_requests_per_flush request = 0 \<or> 0 < fr_num_requests_per_flush request" using assms(3) by auto
  then show ?thesis using s1 s2 s3 s4 assms(2,3,5)
    by (auto simp: flush_task_def Let_def flush_loop.simps [of env cl publish "fr_num_requests_per_flush request" 0 "[]"])
qed

end

section \<open>The queue in a cache that forgets nothing\<close>

abbreviation (input) joined :: "string list \<Rightarrow> string" where
  "joined ks \<equiv> concat (map (\<lambda>k. k @ '','') ks)"

definition no_comma :: "string \<Rightarrow> bool" where
  "no_comma k \<longleftrightarrow> CHR '','' \<notin> set k"

text \<open>The list names the requests in their order; each is stored under a key of its own.\<close>

definition queue_holds :: "stream_layer_client \<Rightarrow> write_value ideal_cache \<Rightarrow> publish_data_request list \<Rightarrow> bool" where
  "queue_holds cl s rs \<longleftrightarrow>
     (\<exists>ks. (ideal_get (get_uuid_list_key cl) s = Some (Typed (WText (joined ks))) \<or>
            ideal_get (get_uuid_list_key cl) s = None \<and> ks = []) \<and>
        distinct ks \<and> list_all no_comma ks \<and> get_uuid_list_key cl \<notin> set ks \<and>
        list_all2 (\<lambda>k r. ideal_get k s = Some (Typed (WRequest r))) ks rs)"

lemma count_joined: "list_all no_comma ks \<Longrightarrow> length (filter (\<lambda>c. c = CHR '','') (joined ks)) = length ks"
  by (induction ks) (auto simp: no_comma_def filter_empty_conv)

lemma takeWhile_joined: "no_comma k \<Longrightarrow> takeWhile (\<lambda>c. c \<noteq> CHR '','') (k @ CHR '','' # t) = k"
  by (simp add: no_comma_def takeWhile_tail) (metis takeWhile_append2 takeWhile.simps(2) append_Nil2)

lemma ideal_kv_ops:
  "kv_get ideal_kv k d s = Some (ideal_get k s, s)"
  "kv_put ideal_kv k v enc e s = Some (True, ideal_put k v e s)"
  "kv_put_bytes ideal_kv k b e s = Some (True, ideal_put k (Some (Bytes b)) e s)"
  "kv_remove ideal_kv k s = Some (True, ideal_keep (\<lambda>j. j \<noteq> k) s)"
  by (simp_all add: ideal_kv_def)

lemma ideal_text:
  "get_uuid_list ideal_kv cl s =
     (case ideal_get (get_uuid_list_key cl) s of
        None \<Rightarrow> Some (None, s) | Some v \<Rightarrow> map_option (\<lambda>t. (Some t, s)) (cast_text v))"
  by (auto simp: get_uuid_list_def w_get_as_def ideal_kv_ops map_option_case split: option.splits)

lemma put_text:
  "put_uuid_list ideal_kv cl t s = Some (ideal_put (get_uuid_list_key cl) (Some (Typed (WText t))) kDefaultExpiry s)"
  by (simp add: put_uuid_list_def ideal_kv_ops)

lemma joined_append: "joined (ks @ [k]) = joined ks @ k @ '',''"
  by simp

text \<open>The requests stay where they are while other keys are written.\<close>

lemma stored_put:
  "list_all2 (\<lambda>k r. ideal_get k s = Some (Typed (WRequest r))) ks rs \<Longrightarrow> j \<notin> set ks \<Longrightarrow>
   list_all2 (\<lambda>k r. ideal_get k (ideal_put j (Some v) e s) = Some (Typed (WRequest r))) ks rs"
  by (induction rule: list_all2_induct) (auto simp: ideal_get_put)

lemma stored_keep:
  "list_all2 (\<lambda>k r. ideal_get k s = Some (Typed (WRequest r))) ks rs \<Longrightarrow> j \<notin> set ks \<Longrightarrow>
   list_all2 (\<lambda>k r. ideal_get k (ideal_keep (\<lambda>i. i \<noteq> j) s) = Some (Typed (WRequest r))) ks rs"
  by (induction rule: list_all2_induct) (auto simp: ideal_get_keep)

lemma queue_size_holds:
  assumes "we_cache env = Some ideal_kv" and "queue_holds cl s rs"
  shows "queue_size env cl s = Some (length rs, s)"
proof -
  obtain ks where ks: "ideal_get (get_uuid_list_key cl) s = Some (Typed (WText (joined ks))) \<or>
        ideal_get (get_uuid_list_key cl) s = None \<and> ks = []" "list_all no_comma ks"
      "list_all2 (\<lambda>k r. ideal_get k s = Some (Typed (WRequest r))) ks rs"
    using assms(2) unfolding queue_holds_def by blast
  have "length ks = length rs" using ks(3) by (rule list_all2_lengthD)
  then show ?thesis using ks(1) count_joined [OF ks(2)] assms(1)
    by (elim disjE) (simp_all add: queue_size_def ideal_text)
qed

lemma pop_from_queue_holds:
  assumes "we_cache env = Some ideal_kv" and "queue_holds cl s (r # rs)"
  shows "\<exists>s'. pop_from_queue env cl s = Some (Some r, s') \<and> queue_holds cl s' rs \<and>
    (\<forall>u. u \<noteq> get_uuid_list_key cl \<longrightarrow> ideal_get u s = None \<longrightarrow> ideal_get u s' = None)"
proof -
  obtain ks where ks: "ideal_get (get_uuid_list_key cl) s = Some (Typed (WText (joined ks))) \<or>
        ideal_get (get_uuid_list_key cl) s = None \<and> ks = []" "distinct ks" "list_all no_comma ks" "get_uuid_list_key cl \<notin> set ks"
      "list_all2 (\<lambda>k r. ideal_get k s = Some (Typed (WRequest r))) ks (r # rs)"
    using assms(2) unfolding queue_holds_def by blast
  from ks(5) obtain k ks' where k: "ks = k # ks'" "ideal_get k s = Some (Typed (WRequest r))"
      "list_all2 (\<lambda>k r. ideal_get k s = Some (Typed (WRequest r))) ks' rs"
    by (auto simp: list_all2_Cons2)
  have nc: "no_comma k" using ks(3) k(1) by simp
  let ?s1 = "ideal_keep (\<lambda>j. j \<noteq> k) s"
  let ?s2 = "ideal_put (get_uuid_list_key cl) (Some (Typed (WText (joined ks')))) kDefaultExpiry ?s1"
  have l: "ideal_get (get_uuid_list_key cl) s = Some (Typed (WText (k @ CHR '','' # joined ks')))"
    using ks(1) k(1) by simp
  have "pop_from_queue env cl s = Some (Some r, ?s2)"
    using assms(1) k(2)
    by (simp add: pop_from_queue_def ideal_text l takeWhile_joined [OF nc] Let_def put_text ideal_kv_ops)
  moreover have "list_all2 (\<lambda>k r. ideal_get k ?s2 = Some (Typed (WRequest r))) ks' rs"
    using ks(2,4) k(1) by (intro stored_put stored_keep k(3)) simp_all
  then have "queue_holds cl ?s2 rs"
    using ks k unfolding queue_holds_def
    by (intro exI [of _ ks']) (simp add: ideal_get_put kExpiryMax_def)
  moreover have "\<forall>u. u \<noteq> get_uuid_list_key cl \<longrightarrow> ideal_get u s = None \<longrightarrow> ideal_get u ?s2 = None"
    by (simp add: ideal_get_put ideal_get_keep)
  ultimately show ?thesis by blast
qed

text \<open>The keys of a set stay unused, beside the queue.\<close>

interpretation stored_queue: request_queue env cl
    "\<lambda>s rs. we_cache env = Some ideal_kv \<and> queue_holds cl s rs \<and> (\<forall>u \<in> unused. u \<noteq> get_uuid_list_key cl \<and> ideal_get u s = None)"
proof unfold_locales
  fix s r rs
  assume a: "we_cache env = Some ideal_kv \<and> queue_holds cl s (r # rs) \<and> (\<forall>u \<in> unused. u \<noteq> get_uuid_list_key cl \<and> ideal_get u s = None)"
  then obtain s' where s': "pop_from_queue env cl s = Some (Some r, s')" "queue_holds cl s' rs"
      "\<And>u. u \<noteq> get_uuid_list_key cl \<Longrightarrow> ideal_get u s = None \<Longrightarrow> ideal_get u s' = None"
    using pop_from_queue_holds [of env cl s r rs] by auto
  show "\<exists>s'. pop_from_queue env cl s = Some (Some r, s') \<and>
      (we_cache env = Some ideal_kv \<and> queue_holds cl s' rs \<and> (\<forall>u \<in> unused. u \<noteq> get_uuid_list_key cl \<and> ideal_get u s' = None))"
    by (rule exI [of _ s']) (use a s' in simp)
qed (use queue_size_holds in blast)

text \<open>A fresh key is none that the cache holds, and no part of the list.\<close>

definition fresh_uuid :: "('s, 'n) write_env \<Rightarrow> stream_layer_client \<Rightarrow> write_value ideal_cache \<Rightarrow> 'n \<Rightarrow> bool" where
  "fresh_uuid env cl s n \<longleftrightarrow>
     (let k = fst (we_uuid env n) in no_comma k \<and> ideal_get k s = None \<and> k \<noteq> get_uuid_list_key cl)"

lemma queue_appends:
  assumes "we_cache env = Some ideal_kv" and "queue_holds cl s rs" and "pdr_data r \<noteq> None" and "pdr_layer_id r \<noteq> []"
    and "length rs < sl_maximum_requests cl" and "fresh_uuid env cl s n"
  shows "\<exists>s'. queue env cl r (s, n) = Some (None, s', snd (we_uuid env n)) \<and> queue_holds cl s' (rs @ [r])"
proof -
  obtain ks where ks: "ideal_get (get_uuid_list_key cl) s = Some (Typed (WText (joined ks))) \<or>
        ideal_get (get_uuid_list_key cl) s = None \<and> ks = []" "distinct ks" "list_all no_comma ks" "get_uuid_list_key cl \<notin> set ks"
      "list_all2 (\<lambda>k r. ideal_get k s = Some (Typed (WRequest r))) ks rs"
    using assms(2) unfolding queue_holds_def by blast
  obtain k n' where u: "we_uuid env n = (k, n')" by fastforce
  have k: "no_comma k" "ideal_get k s = None" "k \<noteq> get_uuid_list_key cl"
    using assms(6) u by (simp_all add: fresh_uuid_def Let_def)
  have nk: "k \<notin> set ks"
    using ks(5) k(2) by (auto simp: list_all2_conv_all_nth in_set_conv_nth)
  obtain doc where doc: "publish_data_request_to_json r (JObject []) = Some doc"
    using publish_data_request_read_back [of r] by (auto simp: bind_eq_Some_conv)
  let ?s1 = "ideal_put k (Some (Typed (WRequest r))) kDefaultExpiry s"
  let ?s2 = "ideal_put (get_uuid_list_key cl) (Some (Typed (WText (joined (ks @ [k]))))) kDefaultExpiry ?s1"
  have uuids: "get_uuid_list ideal_kv cl ?s1 = Some (if ideal_get (get_uuid_list_key cl) s = None then None else Some (joined ks), ?s1)"
    using ks(1) k(3) by (auto simp: ideal_text ideal_get_put)
  have l: "(case if ideal_get (get_uuid_list_key cl) s = None then None else Some (joined ks) of Some l \<Rightarrow> l | None \<Rightarrow> []) @ k @ '','' =
      joined (ks @ [k])" using ks(1) by auto
  have "queue env cl r (s, n) = Some (None, ?s2, n')"
    using assms(1,3-5) queue_size_holds [OF assms(1,2)] u doc uuids l
    by (simp add: queue_def put_text ideal_kv_ops)
  moreover have "list_all2 (\<lambda>k r. ideal_get k ?s2 = Some (Typed (WRequest r))) ks rs"
    using ks(4,5) nk by (intro stored_put)
  then have "list_all2 (\<lambda>k r. ideal_get k ?s2 = Some (Typed (WRequest r))) (ks @ [k]) (rs @ [r])"
    using k(3) by (simp add: list_all2_appendI ideal_get_put kExpiryMax_def)
  then have "queue_holds cl ?s2 (rs @ [r])"
    using ks k nk unfolding queue_holds_def
    by (intro exI [of _ "ks @ [k]"]) (simp add: ideal_get_put kExpiryMax_def)
  ultimately show ?thesis using u by auto
qed

section \<open>Properties\<close>



text \<open>
  when a flush is cancelled while its first request is being published, that request goes to the end of the
  queue, whatever the answer was: it is overtaken by the others, and published twice if it had succeeded.
\<close>
theorem cancelled_flush_requeues_at_end:
  assumes "we_cache env = Some ideal_kv" and "queue_holds cl s (r # rs)" and "0 \<le> fr_num_requests_per_flush request"
    and "\<not> we_cancelled env n" and "we_cancelled env n'"
    and "\<And>s. queue_holds cl s rs \<Longrightarrow> publish r (s, n) = Some (a, s, n')" and "fresh_uuid env cl s n'" and "pdr_data r \<noteq> None" and "pdr_layer_id r \<noteq> []" and "length rs < sl_maximum_requests cl"
  shows "\<exists>s'. stream_flush env cl publish request (s, n) = Some ([[a]], s', snd (we_uuid env n')) \<and> queue_holds cl s' (rs @ [r])"
proof -
  let ?u = "fst (we_uuid env n')"
  let ?holds = "\<lambda>s rs. we_cache env = Some ideal_kv \<and> queue_holds cl s rs \<and> (\<forall>u \<in> {?u}. u \<noteq> get_uuid_list_key cl \<and> ideal_get u s = None)"
  have "\<exists>s'. flush_task env cl publish request (s, n) = Some ([a], s', snd (we_uuid env n')) \<and> queue_holds cl s' (rs @ [r])"
  proof -
    have h: "?holds s (r # rs)" using assms(1,2,7) by (simp add: fresh_uuid_def Let_def)
    have q: "\<exists>s'. queue env cl r (s, n') = Some (None, s', snd (we_uuid env n')) \<and> queue_holds cl s' (rs @ [r])"
      if "?holds s rs" for s
    proof (rule queue_appends [OF assms(1) _ assms(8,9,10)])
      show "queue_holds cl s rs" "fresh_uuid env cl s n'" using that assms(7) by (simp_all add: fresh_uuid_def Let_def)
    qed
    show ?thesis
      by (rule stored_queue.flush_cancelled [OF h assms(4,3) _ assms(5) q]) (use assms(6) in auto)
  qed
  then show ?thesis using assms(4) by (auto simp: stream_flush_def)
qed

section \<open>Witnesses\<close>

definition queue_client :: stream_layer_client where
  "queue_client = \<lparr>sl_catalog = hrn_of_string ''hrn:here:data::o:c'', sl_maximum_requests = 3\<rparr>"

definition queued :: "char \<Rightarrow> publish_data_request" where
  "queued c = empty_publish_data_request\<lparr>pdr_data := Some [c], pdr_layer_id := ''l''\<rparr>"

text \<open>The network is the record of what was published.\<close>

type_synonym publish_record = "(publish_data_request \<times> response_ok_single api_response) list"

definition queue_env :: "(publish_record \<Rightarrow> bool) \<Rightarrow> (write_value ideal_cache, publish_record) write_env" where
  "queue_env stop = \<lparr>we_json = \<lparr>json_text = \<lambda>_. [], json_parse = \<lambda>_. None\<rparr>, we_cache = Some ideal_kv,
     we_call = (\<lambda>_ _ _ _ _ _ _ n. (\<lparr>resp_status = 500, resp_body = []\<rparr>, n)),
     we_call_async = (\<lambda>_ _ _ _ _ _ _ n. (\<lparr>resp_status = 500, resp_body = []\<rparr>, n)),
     we_settings = \<lparr>retry_settings_of = default_retry_settings, proxy_settings_of = None, authentication_of = None\<rparr>,
     we_cancelled = stop, we_uuid = (\<lambda>n. (replicate (Suc (length n)) CHR ''u'', n))\<rparr>"

definition refusing :: "('s, publish_record) publisher" where
  "refusing r sn = (let a = Inl (api_error_of_status 400 []) in Some (a, fst sn, snd sn @ [(r, a)]))"

definition queue_cache :: "write_value ideal_cache" where
  "queue_cache = ideal_put (get_uuid_list_key queue_client) (Some (Typed (WText ''a,b,''))) kDefaultExpiry
     (ideal_put ''a'' (Some (Typed (WRequest (queued CHR ''A'')))) kDefaultExpiry
       (ideal_put ''b'' (Some (Typed (WRequest (queued CHR ''B'')))) kDefaultExpiry (0, [])))"

lemma list_key_queue_client: "get_uuid_list_key queue_client = ''hrn:here:data::o:c-stream-queue-cache''"
  by code_simp

lemma queue_cache_holds: "queue_holds queue_client queue_cache [queued CHR ''A'', queued CHR ''B'']"
  unfolding queue_holds_def queue_cache_def list_key_queue_client
  by (intro exI [of _ "[''a'', ''b'']"]) (simp add: ideal_get_put no_comma_def kExpiryMax_def)

lemma queue_env_simps [simp]:
  "we_cache (queue_env stop) = Some ideal_kv" "we_cancelled (queue_env stop) = stop"
  "we_uuid (queue_env stop) n = (replicate (Suc (length n)) CHR ''u'', n)"
  by (simp_all add: queue_env_def)

lemma queue_cache_fresh: "fresh_uuid (queue_env stop) queue_client queue_cache n"
  by (simp add: fresh_uuid_def queue_cache_def list_key_queue_client no_comma_def ideal_get_put)
    (simp add: ideal_get_def)



theorem cancelled_flush_requeues_at_end_witness:
  "\<exists>s'. stream_flush (queue_env (\<lambda>n. n \<noteq> [])) queue_client refusing \<lparr>fr_num_requests_per_flush = 0\<rparr> (queue_cache, []) =
     Some ([[Inl (api_error_of_status 400 [])]], s', [(queued CHR ''A'', Inl (api_error_of_status 400 []))]) \<and>
   queue_holds queue_client s' [queued CHR ''B'', queued CHR ''A'']"
  using cancelled_flush_requeues_at_end [of "queue_env (\<lambda>n. n \<noteq> [])" queue_client queue_cache "queued CHR ''A''"
      "[queued CHR ''B'']" "\<lparr>fr_num_requests_per_flush = 0\<rparr>" "[]"
      "[(queued CHR ''A'', Inl (api_error_of_status 400 []))]" refusing "Inl (api_error_of_status 400 [])"]
    queue_cache_holds queue_cache_fresh [of "\<lambda>n. n \<noteq> []"]
  by (simp add: refusing_def Let_def queued_def queue_client_def)

end
