(* ===== verification/StreamTypes.thy ===== *)
theory StreamTypes
  imports WriteQueue
begin

text \<open>
  The cache of \<open>StreamLayerClientImpl\<close> holds values of any type, which are cast when they are read. The types are
  sound: no cast of the queue or of the lookup fails after any calls of the client.
\<close>

declare split_paired_All [simp del] split_paired_Ex [simp del]

section \<open>Well-typed caches\<close>

text \<open>
  The list is a text that names keys of requests; the addresses of services are texts; all else is a request.
\<close>

definition request_key :: "stream_layer_client \<Rightarrow> string \<Rightarrow> bool" where
  "request_key cl k \<longleftrightarrow> no_comma k \<and> k \<noteq> get_uuid_list_key cl \<and> \<not> suffix ''::api'' k"

definition value_typed :: "stream_layer_client \<Rightarrow> string \<Rightarrow> write_value cached_value \<Rightarrow> bool" where
  "value_typed cl k v \<longleftrightarrow>
     (if k = get_uuid_list_key cl then \<exists>ks. v = Typed (WText (joined ks)) \<and> list_all (request_key cl) ks
      else if suffix ''::api'' k then \<exists>t. v = Typed (WText t)
      else \<exists>r. v = Typed (WRequest r))"

definition cache_typed :: "stream_layer_client \<Rightarrow> write_value ideal_cache \<Rightarrow> bool" where
  "cache_typed cl s \<longleftrightarrow> (\<forall>k v. ideal_get k s = Some v \<longrightarrow> value_typed cl k v)"

lemma cache_typedD: "cache_typed cl s \<Longrightarrow> ideal_get k s = Some v \<Longrightarrow> value_typed cl k v"
  by (simp add: cache_typed_def)

lemma typed_put: "cache_typed cl s \<Longrightarrow> value_typed cl k v \<Longrightarrow> cache_typed cl (ideal_put k (Some v) e s)"
  by (simp add: cache_typed_def ideal_get_put)

lemma typed_keep: "cache_typed cl s \<Longrightarrow> cache_typed cl (ideal_keep P s)"
  by (simp add: cache_typed_def ideal_get_keep)

lemma list_key_no_address: "\<not> suffix ''::api'' (get_uuid_list_key cl)"
proof
  assume "suffix ''::api'' (get_uuid_list_key cl)"
  then have "last ''::api'' = last (get_uuid_list_key cl)"
    unfolding suffix_def by (metis last_appendR list.distinct(1))
  then show False by (simp add: get_uuid_list_key_def)
qed

lemma value_typed_list: "list_all (request_key cl) ks \<Longrightarrow> value_typed cl (get_uuid_list_key cl) (Typed (WText (joined ks)))"
  by (auto simp: value_typed_def)

lemma value_typed_request: "request_key cl k \<Longrightarrow> value_typed cl k (Typed (WRequest r))"
  by (simp add: value_typed_def request_key_def)

lemma value_typed_address: "value_typed cl (create_key_for_cache h serv ver) (Typed (WText t))"
proof -
  have "suffix ''::api'' (create_key_for_cache h serv ver)"
    by (simp add: create_key_for_cache_def suffix_def)
  then show ?thesis using list_key_no_address [of cl] by (auto simp: value_typed_def)
qed

section \<open>The queue\<close>

text \<open>What the list can be.\<close>

lemma list_typed:
  assumes "cache_typed cl s"
  obtains "ideal_get (get_uuid_list_key cl) s = None"
  | ks where "ideal_get (get_uuid_list_key cl) s = Some (Typed (WText (joined ks)))" "list_all (request_key cl) ks"
  using cache_typedD [OF assms, of "get_uuid_list_key cl"]
  by (cases "ideal_get (get_uuid_list_key cl) s") (auto simp: value_typed_def)

lemma queue_size_typed:
  assumes "we_cache env = Some ideal_kv" and "cache_typed cl s"
  shows "\<exists>m. queue_size env cl s = Some (m, s)"
  by (rule list_typed [OF assms(2)]) (use assms(1) in \<open>simp_all add: queue_size_def ideal_text\<close>)

lemma pop_typed:
  assumes "we_cache env = Some ideal_kv" and "cache_typed cl s"
  shows "\<exists>r s'. pop_from_queue env cl s = Some (r, s') \<and> cache_typed cl s'"
proof (rule list_typed [OF assms(2)])
  assume "ideal_get (get_uuid_list_key cl) s = None"
  then show ?thesis using assms by (simp add: pop_from_queue_def ideal_text)
next
  fix ks assume ks: "ideal_get (get_uuid_list_key cl) s = Some (Typed (WText (joined ks)))" "list_all (request_key cl) ks"
  show ?thesis
  proof (cases ks)
    case Nil
    then show ?thesis using ks assms by (simp add: pop_from_queue_def ideal_text Let_def)
  next
    case (Cons k ks')
    have k: "request_key cl k" and nc: "no_comma k" and ks': "list_all (request_key cl) ks'"
      using ks(2) Cons by (simp_all add: request_key_def)
    let ?s' = "ideal_put (get_uuid_list_key cl) (Some (Typed (WText (joined ks')))) kDefaultExpiry (ideal_keep (\<lambda>j. j \<noteq> k) s)"
    have "ideal_get k s = None \<or> (\<exists>r. ideal_get k s = Some (Typed (WRequest r)))"
      using cache_typedD [OF assms(2), of k] k by (cases "ideal_get k s") (auto simp: value_typed_def request_key_def)
    then have "\<exists>r. pop_from_queue env cl s = Some (r, ?s')"
      using assms(1) ks(1) Cons
      by (auto simp: pop_from_queue_def ideal_text takeWhile_joined [OF nc] Let_def put_text ideal_kv_ops)
    moreover have "cache_typed cl ?s'"
      by (intro typed_put typed_keep assms(2) value_typed_list ks')
    ultimately show ?thesis by blast
  qed
qed

lemma queue_typed:
  assumes "we_cache env = Some ideal_kv" and "cache_typed cl s" and "request_key cl (fst (we_uuid env n))"
  shows "\<exists>e s' n'. queue env cl r (s, n) = Some (e, s', n') \<and> cache_typed cl s'"
proof (cases "pdr_data r \<noteq> None \<and> pdr_layer_id r \<noteq> []")
  case False
  then show ?thesis using assms by (auto simp: queue_def)
next
  case True
  obtain m where m: "queue_size env cl s = Some (m, s)" using queue_size_typed [OF assms(1,2)] by blast
  show ?thesis
  proof (cases "m < sl_maximum_requests cl")
    case False
    then show ?thesis using True m assms by (simp add: queue_def)
  next
    case max: True
    obtain k n' where u: "we_uuid env n = (k, n')" by fastforce
    then have k: "request_key cl k" using assms(3) by simp
    obtain doc where doc: "publish_data_request_to_json r (JObject []) = Some doc"
      using publish_data_request_read_back [of r] by (auto simp: bind_eq_Some_conv)
    let ?s1 = "ideal_put k (Some (Typed (WRequest r))) kDefaultExpiry s"
    have t: "cache_typed cl ?s1" by (intro typed_put assms(2) value_typed_request k)
    have "\<exists>l. get_uuid_list ideal_kv cl ?s1 = Some (l, ?s1) \<and>
        (\<exists>ks. list_all (request_key cl) ks \<and> joined ks = (case l of Some l \<Rightarrow> l | None \<Rightarrow> []))"
      by (rule list_typed [OF t]) (auto simp: ideal_text intro: exI [of _ "[]"])
    then obtain l ks where l: "get_uuid_list ideal_kv cl ?s1 = Some (l, ?s1)" "list_all (request_key cl) ks"
        "(case l of Some l \<Rightarrow> l | None \<Rightarrow> []) = joined ks" by metis
    have "value_typed cl (get_uuid_list_key cl) (Typed (WText (joined ks @ k @ '','')))"
      using value_typed_list [of cl "ks @ [k]"] l(2) k by simp
    then have "cache_typed cl (ideal_put (get_uuid_list_key cl) (Some (Typed (WText (joined ks @ k @ '','')))) kDefaultExpiry ?s1)"
      by (rule typed_put [OF t])
    then show ?thesis using True max m assms(1) u doc l by (auto simp: queue_def put_text ideal_kv_ops)
  qed
qed

section \<open>Publishing\<close>

text \<open>What comes back leaves a well-typed cache.\<close>

definition leaves_typed :: "stream_layer_client \<Rightarrow> ('r \<times> write_value ideal_cache \<times> 'n) option \<Rightarrow> bool" where
  "leaves_typed cl result \<longleftrightarrow> (\<forall>a s n. result = Some (a, s, n) \<longrightarrow> cache_typed cl s)"

lemma leaves_typedD: "leaves_typed cl result \<Longrightarrow> result = Some (a, s, n) \<Longrightarrow> cache_typed cl s"
  by (simp add: leaves_typed_def)

lemma leaves_typed_answer: "cache_typed cl (fst sn) \<Longrightarrow> leaves_typed cl (Some (a, sn))"
  by (cases sn) (simp add: leaves_typed_def)

lemma leaves_typed_on_network: "cache_typed cl (fst sn) \<Longrightarrow> leaves_typed cl (on_network f sn)"
  by (auto simp: leaves_typed_def on_network_def bind_eq_Some_conv)

lemma leaves_typed_on_success:
  assumes "leaves_typed cl result" and "\<And>a sn. cache_typed cl (fst sn) \<Longrightarrow> leaves_typed cl (f a sn)"
  shows "leaves_typed cl (on_success result f)"
  unfolding leaves_typed_def
proof (intro allI impI)
  fix a s n assume "on_success result f = Some (a, s, n)"
  then obtain b s1 n1 where b: "result = Some (b, s1, n1)"
      "(case b of Inl e \<Rightarrow> Some (Inl e, s1, n1) | Inr x \<Rightarrow> f x (s1, n1)) = Some (a, s, n)"
    by (auto simp: on_success_def bind_eq_Some_conv)
  have t: "cache_typed cl s1" using leaves_typedD [OF assms(1) b(1)] .
  show "cache_typed cl s"
    using b(2) t leaves_typedD [OF assms(2), of "(s1, n1)"] by (auto split: sum.splits)
qed

lemma leaves_typed_new_uuid:
  "cache_typed cl (fst sn) \<Longrightarrow> (\<And>u sn. cache_typed cl (fst sn) \<Longrightarrow> leaves_typed cl (f u sn)) \<Longrightarrow> leaves_typed cl (new_uuid env f sn)"
  by (simp add: new_uuid_def split: prod.split)

lemma leaves_typed_lookup:
  assumes "we_cache env = Some ideal_kv" and "cache_typed cl (fst sn)"
  shows "leaves_typed cl (lookup_api_client env h serv ver sn)"
  unfolding leaves_typed_def
proof (intro allI impI)
  fix a s' n'
  obtain s n where sn: "sn = (s, n)" by fastforce
  let ?k = "create_key_for_cache (to_catalog_hrn_string h) serv ver"
  assume r: "lookup_api_client env h serv ver sn = Some (a, s', n')"
  have "s' = s \<or> (\<exists>t. s' = ideal_put ?k (Some (Typed (WText t))) 3600 s)"
    using r assms(1)
    by (auto simp: lookup_api_client_def sn Let_def w_get_as_def ideal_kv_ops bind_eq_Some_conv
        split: option.split_asm sum.split_asm list.split_asm if_split_asm)
  then show "cache_typed cl s'" using assms(2) sn by (auto intro: typed_put value_typed_address)
qed

lemmas leaves_typed_intros = leaves_typed_answer leaves_typed_on_network leaves_typed_on_success leaves_typed_new_uuid
  leaves_typed_lookup

lemma leaves_typed_less:
  "we_cache env = Some ideal_kv \<Longrightarrow> cache_typed cl (fst sn) \<Longrightarrow>
   leaves_typed cl (publish_data_less_than_twenty_mib env cl' request sn)"
  by (auto simp: publish_data_less_than_twenty_mib_def Let_def intro!: leaves_typed_intros)

lemma leaves_typed_greater:
  "we_cache env = Some ideal_kv \<Longrightarrow> cache_typed cl (fst sn) \<Longrightarrow>
   leaves_typed cl (publish_data_greater_than_twenty_mib env cl' request sn)"
  by (auto simp: publish_data_greater_than_twenty_mib_def Let_def intro!: leaves_typed_intros split: option.split)

lemma leaves_typed_publish:
  "we_cache env = Some ideal_kv \<Longrightarrow> cache_typed cl (fst sn) \<Longrightarrow> leaves_typed cl (publish_data_task env cl' request sn)"
  by (cases "pdr_data request") (simp_all add: publish_data_task_def leaves_typed_less leaves_typed_greater leaves_typed_def [of _ None])

lemma leaves_typed_run_task:
  "cache_typed cl (fst sn) \<Longrightarrow> leaves_typed cl (f sn) \<Longrightarrow> leaves_typed cl (run_task cancelled f sn)"
  by (cases sn) (auto simp: run_task_def leaves_typed_def bind_eq_Some_conv)

section \<open>Flushing\<close>

text \<open>A client whose keys and whose publisher are typed.\<close>

definition typed_client :: "(write_value ideal_cache, 'n) write_env \<Rightarrow> stream_layer_client \<Rightarrow> (write_value ideal_cache, 'n) publisher \<Rightarrow> bool" where
  "typed_client env cl publish \<longleftrightarrow> we_cache env = Some ideal_kv \<and> (\<forall>n. request_key cl (fst (we_uuid env n))) \<and>
     (\<forall>r sn. cache_typed cl (fst sn) \<longrightarrow> leaves_typed cl (publish r sn))"

lemma flush_loop_typed:
  "flush_loop env cl publish m c responses sn = Some x \<Longrightarrow>
   typed_client env cl publish \<longrightarrow> cache_typed cl (fst sn) \<longrightarrow> cache_typed cl (fst (snd x))"
proof (erule flush_loop.raw_induct [rotated], intro impI)
  fix loop env cl publish m c responses sn x
  assume ih: "\<And>env cl publish m c responses sn x. loop env cl publish m c responses sn = Some x \<Longrightarrow>
      typed_client env cl publish \<longrightarrow> cache_typed cl (fst sn) \<longrightarrow> cache_typed cl (fst (snd x))"
    and x: "(if \<not> (m = 0 \<or> c < m) then Some (responses, sn)
      else Option.bind (queue_size env cl (fst sn)) (\<lambda>(size, s).
       if size = 0 \<or> we_cancelled env (snd sn) then Some (responses, s, snd sn)
       else Option.bind (pop_from_queue env cl s) (\<lambda>(popped, s).
       case popped of
         None \<Rightarrow> loop env cl publish m c responses (s, snd sn)
       | Some request \<Rightarrow>
           Option.bind (publish request (s, snd sn)) (\<lambda>(response, sn).
           if we_cancelled env (snd sn)
           then Option.bind (queue env cl request sn) (\<lambda>(_, sn). Some (responses @ [response], sn))
           else loop env cl publish m (c + 1) (responses @ [response]) sn)))) = Some x"
    and cl: "typed_client env cl publish" and s: "cache_typed cl (fst sn)"
  from cl have kv: "we_cache env = Some ideal_kv" and uuid: "\<And>n. request_key cl (fst (we_uuid env n))"
    and pub: "\<And>r sn. cache_typed cl (fst sn) \<Longrightarrow> leaves_typed cl (publish r sn)"
    by (simp_all add: typed_client_def)
  obtain k where k: "queue_size env cl (fst sn) = Some (k, fst sn)" using queue_size_typed [OF kv s] by blast
  obtain r s2 where p: "pop_from_queue env cl (fst sn) = Some (r, s2)" "cache_typed cl s2" using pop_typed [OF kv s] by blast
  show "cache_typed cl (fst (snd x))"
  proof (cases "(m = 0 \<or> c < m) \<and> k \<noteq> 0 \<and> \<not> we_cancelled env (snd sn)")
    case False
    then show ?thesis using x k s by (auto split: if_split_asm)
  next
    case go: True
    show ?thesis
    proof (cases r)
      case None
      then show ?thesis using x go k p ih [of env cl publish m c responses "(s2, snd sn)" x] cl by simp
    next
      case (Some request)
      then obtain response s3 n3 where a: "publish request (s2, snd sn) = Some (response, s3, n3)"
          "(if we_cancelled env n3 then Option.bind (queue env cl request (s3, n3)) (\<lambda>(_, sn). Some (responses @ [response], sn))
            else loop env cl publish m (c + 1) (responses @ [response]) (s3, n3)) = Some x"
        using x go k p by (auto simp: bind_eq_Some_conv simp del: bind_assoc split: if_split_asm)
      have s3: "cache_typed cl s3" using leaves_typedD [OF pub a(1)] p(2) by simp
      obtain e s4 n4 where q: "queue env cl request (s3, n3) = Some (e, s4, n4)" "cache_typed cl s4"
        using queue_typed [OF kv s3 uuid, of request] by blast
      show ?thesis
        using a(2) q s3 cl ih [of env cl publish m "c + 1" "responses @ [response]" "(s3, n3)" x] by (auto split: if_split_asm)
    qed
  qed
qed

lemma stream_flush_typed:
  "typed_client env cl publish \<Longrightarrow> cache_typed cl (fst sn) \<Longrightarrow> leaves_typed cl (stream_flush env cl publish request sn)"
  using flush_loop_typed [of env cl publish "fr_num_requests_per_flush request" 0 "[]" sn]
  by (cases sn) (auto simp: leaves_typed_def stream_flush_def flush_task_def Let_def bind_eq_Some_conv split: if_split_asm)

section \<open>Calls of the client\<close>

text \<open>Calls that come back, one after the other; \<open>Flush\<close> publishes with \<open>PublishDataTask\<close>.\<close>

datatype stream_call = PublishData publish_data_request | PublishSdii publish_sdii_request | QueueRequest publish_data_request
  | FlushQueue flush_request

fun stream_call_step :: "('s, 'n) write_env \<Rightarrow> stream_layer_client \<Rightarrow> stream_call \<Rightarrow> 's \<times> 'n \<Rightarrow> ('s \<times> 'n) option" where
  "stream_call_step env cl (PublishData r) sn = map_option snd (stream_publish_data env cl r sn)"
| "stream_call_step env cl (PublishSdii r) sn = map_option snd (stream_publish_sdii env cl r sn)"
| "stream_call_step env cl (QueueRequest r) sn = map_option snd (queue env cl r sn)"
| "stream_call_step env cl (FlushQueue r) sn = map_option snd (stream_flush env cl (publish_data_task env cl) r sn)"

fun stream_calls :: "('s, 'n) write_env \<Rightarrow> stream_layer_client \<Rightarrow> stream_call list \<Rightarrow> 's \<times> 'n \<Rightarrow> ('s \<times> 'n) option" where
  "stream_calls env cl [] sn = Some sn"
| "stream_calls env cl (c # cs) sn = Option.bind (stream_call_step env cl c sn) (stream_calls env cl cs)"

lemma map_option_typed:
  "leaves_typed cl result \<Longrightarrow> map_option snd result = Some sn' \<Longrightarrow> cache_typed cl (fst sn')"
  by (auto simp: leaves_typed_def)

lemma stream_call_step_typed:
  assumes "we_cache env = Some ideal_kv" and "\<And>n. request_key cl (fst (we_uuid env n))"
    and "cache_typed cl (fst sn)" and "stream_call_step env cl c sn = Some sn'"
  shows "cache_typed cl (fst sn')"
proof (cases c)
  case (PublishData r)
  have "leaves_typed cl (stream_publish_data env cl r sn)"
    using assms(1,3) by (auto simp: stream_publish_data_def intro!: leaves_typed_answer leaves_typed_run_task leaves_typed_publish)
  then show ?thesis using map_option_typed assms(4) PublishData by fastforce
next
  case (PublishSdii r)
  have "leaves_typed cl (stream_publish_sdii env cl r sn)"
    unfolding stream_publish_sdii_def publish_sdii_task_def stream_ingest_sdii_def
    using assms(1,3) by (auto intro!: leaves_typed_run_task leaves_typed_intros)
  then show ?thesis using map_option_typed assms(4) PublishSdii by fastforce
next
  case (QueueRequest r)
  obtain s n where sn: "sn = (s, n)" by fastforce
  obtain e s2 n2 where "queue env cl r (s, n) = Some (e, s2, n2)" "cache_typed cl s2"
    using queue_typed [OF assms(1) _ assms(2), of s r n] assms(3) sn by auto
  then show ?thesis using assms(4) QueueRequest sn by auto
next
  case (FlushQueue r)
  have "typed_client env cl (publish_data_task env cl)"
    using assms(1,2) by (simp add: typed_client_def leaves_typed_publish)
  from map_option_typed [OF stream_flush_typed [OF this assms(3)]] show ?thesis using assms(4) FlushQueue by simp
qed

lemma stream_calls_typed:
  assumes "we_cache env = Some ideal_kv" and "\<And>n. request_key cl (fst (we_uuid env n))"
  shows "cache_typed cl (fst sn) \<Longrightarrow> stream_calls env cl cs sn = Some sn' \<Longrightarrow> cache_typed cl (fst sn')"
proof (induction cs arbitrary: sn)
  case (Cons c cs)
  then obtain sn1 where "stream_call_step env cl c sn = Some sn1" "stream_calls env cl cs sn1 = Some sn'"
    by (auto simp: bind_eq_Some_conv)
  then show ?case using Cons.IH Cons.prems(1) stream_call_step_typed [OF assms] by blast
qed simp


text \<open>One request is queued and popped again.\<close>

lemma queue_env_keys: "request_key queue_client (fst (we_uuid (queue_env stop) n))"
proof -
  have "set (replicate (Suc (length n)) CHR ''u'') = {CHR ''u''}" by (rule set_replicate_Suc)
  then have "\<not> suffix ''::api'' (replicate (Suc (length n)) CHR ''u'')"
    by (auto dest!: set_mono_suffix simp del: replicate.simps)
  then show ?thesis by (simp add: request_key_def no_comma_def list_key_queue_client)
qed


end
