(* ===== verification/WriteClients.thy ===== *)
theory WriteClients
  imports WriteStream
begin

text \<open>
  The clients of versioned, volatile and index layers: \<open>src/VersionedLayerClientImpl.cpp\<close>,
  \<open>VolatileLayerClientImpl.cpp\<close> and \<open>IndexLayerClientImpl.cpp\<close>, with \<open>CancellationTokenList.cpp\<close>.

  An operation is a chain of requests, each sent from the callback of the one before. It is a function of the
  client and the network: operations follow each other, and the network answers after the call that sends a
  request has returned. \<open>we_cancelled\<close> tells whether the operation is cancelled when the network is in a state;
  a request that is cancelled is answered by the network. \<^term>\<open>None\<close> is an exception, an assertion, a null
  pointer that is used, or undefined behaviour.
\<close>

section \<open>Cancellation tokens\<close>

text \<open>The vector is sorted by identifier, where the binary searches look for the bounds.\<close>

type_synonym 't token_list = "(int \<times> 't) list"

definition add_task :: "int \<Rightarrow> 't \<Rightarrow> 't token_list \<Rightarrow> 't token_list" where
  "add_task i token l = takeWhile (\<lambda>t. \<not> i < fst t) l @ (i, token) # dropWhile (\<lambda>t. \<not> i < fst t) l"

definition remove_task :: "int \<Rightarrow> 't token_list \<Rightarrow> 't token_list" where
  "remove_task i l =
     (case dropWhile (\<lambda>t. fst t < i) l of
        [] \<Rightarrow> l
      | t # ts \<Rightarrow> if fst t \<noteq> i then l else takeWhile (\<lambda>t. fst t < i) l @ ts)"

definition get_task_id_list :: "'t token_list \<Rightarrow> int list" where
  "get_task_id_list l = map fst l"

text \<open>\<open>cancel\<close> is what cancelling a token does to the list: the callbacks it runs may add and remove tasks.\<close>

definition cancel_task_id :: "('t \<Rightarrow> 't token_list \<Rightarrow> 't token_list) \<Rightarrow> int \<Rightarrow> 't token_list \<Rightarrow> 't token_list" where
  "cancel_task_id cancel i l =
     (case dropWhile (\<lambda>t. fst t < i) l of
        [] \<Rightarrow> l
      | t # _ \<Rightarrow> if fst t \<noteq> i then l else cancel (snd t) l)"

partial_function (option) cancel_all_tasks ::
  "('t \<Rightarrow> 't token_list \<Rightarrow> 't token_list) \<Rightarrow> 't token_list \<Rightarrow> 't token_list option" where
  "cancel_all_tasks cancel l =
     (if get_task_id_list l = [] then Some l
      else
       (let ids = get_task_id_list l;
            l = fold (cancel_task_id cancel) ids l
        in cancel_all_tasks cancel (filter (\<lambda>t. fst t \<notin> set ids) l)))"

section \<open>The state of a client\<close>

datatype api_slot = ApiBlob | ApiConfig | ApiMetadata | ApiPublish | ApiQuery | ApiIndex

text \<open>
  The members of the three classes; the clients of services are null pointers at first. The counter of
  identifiers is static. \<open>lc_unregistered\<close> are the operations of which the caller's thread has not added the
  token yet: that happens when the call returns, after a first request was sent or the operation has ended.
\<close>

record layer_client =
  lc_catalog :: hrn
  lc_catalog_model :: w_catalog
  lc_apis :: "api_slot \<Rightarrow> olp_client option"
  lc_init_in_progress :: bool
  lc_tokens :: "unit token_list"
  lc_next_id :: int
  lc_unregistered :: "int list"

definition layer_client_new :: "hrn \<Rightarrow> layer_client" where
  "layer_client_new cat = \<lparr>lc_catalog = cat, lc_catalog_model = empty_w_catalog, lc_apis = (\<lambda>_. None),
     lc_init_in_progress = False, lc_tokens = [], lc_next_id = 0, lc_unregistered = []\<rparr>"

type_synonym ('a, 'n) client_result = "('a, layer_client, 'n) read_result"
type_synonym ('a, 'n) client_op = "layer_client \<times> 'n \<Rightarrow> ('a, 'n) client_result"

definition set_base_url :: "api_slot \<Rightarrow> string \<Rightarrow> layer_client \<Rightarrow> layer_client" where
  "set_base_url slot url c = c\<lparr>lc_apis := (lc_apis c)(slot := map_option (base_url_update (\<lambda>_. url)) (lc_apis c slot))\<rparr>"

definition register_tokens :: "layer_client \<Rightarrow> layer_client" where
  "register_tokens c = c\<lparr>lc_tokens := fold (\<lambda>i. add_task i ()) (lc_unregistered c) (lc_tokens c), lc_unregistered := []\<rparr>"

definition remove_token :: "int \<Rightarrow> layer_client \<Rightarrow> layer_client" where
  "remove_token i c = c\<lparr>lc_tokens := remove_task i (lc_tokens c)\<rparr>"

text \<open>A request: the caller's thread goes on, then the answer arrives.\<close>

definition ask :: "('n \<Rightarrow> ('a api_response \<times> 'n) option) \<Rightarrow> ('a, 'n) client_op" where
  "ask f sn = on_network f (register_tokens (fst sn), snd sn)"

definition ask_api :: "api_slot \<Rightarrow> (olp_client \<Rightarrow> 'n \<Rightarrow> ('a api_response \<times> 'n) option) \<Rightarrow> ('a, 'n) client_op" where
  "ask_api slot f sn = (case lc_apis (fst sn) slot of None \<Rightarrow> None | Some client \<Rightarrow> ask (f client) sn)"

definition operation_cancelled :: api_error where
  "operation_cancelled = api_error_of_code Cancelled ''Operation cancelled.'' True"

definition if_not_cancelled :: "('s, 'n) write_env \<Rightarrow> ('a, 'n) client_op \<Rightarrow> ('a, 'n) client_op" where
  "if_not_cancelled env f sn = (if we_cancelled env (snd sn) then Some (Inl operation_cancelled, sn) else f sn)"

text \<open>
  The frame of an operation: it gets an identifier, and the token is added before the call returns. The task
  of the identifier is removed when the callback is called.
\<close>

definition add_token :: "int \<Rightarrow> layer_client \<Rightarrow> layer_client" where
  "add_token i c =
     (if i \<in> set (lc_unregistered c)
      then c\<lparr>lc_tokens := add_task i () (lc_tokens c), lc_unregistered := removeAll i (lc_unregistered c)\<rparr> else c)"

definition client_operation :: "(int \<Rightarrow> ('a, 'n) client_op) \<Rightarrow> ('a, 'n) client_op" where
  "client_operation body sn =
     (let c = fst sn; i = lc_next_id c in do {
        (response, c, n) \<leftarrow> body i (c\<lparr>lc_next_id := i + 1, lc_unregistered := i # lc_unregistered c\<rparr>, snd sn);
        Some (response, add_token i c, n) })"

definition removing :: "int \<Rightarrow> ('a, 'n) client_result \<Rightarrow> ('a, 'n) client_result" where
  "removing i r = do { (response, c, n) \<leftarrow> r; Some (response, remove_token i c, n) }"

section \<open>Lookup of the services\<close>

definition lookup_api_async ::
  "('s, 'n) write_env \<Rightarrow> api_slot \<Rightarrow> string \<Rightarrow> string \<Rightarrow> (w_api list, 'n) client_op" where
  "lookup_api_async env slot serv service_version sn =
     (let c = fst sn; url = w_datastore_server_url (partition_of (lc_catalog c)) in
      if url = [] then Some (Inl invalid_hrn, sn)
      else
        ask_api slot (\<lambda>client.
            if serv = ''config'' then w_platform_get_apis_async (we_json env) (we_call_async env) client serv service_version
            else w_resources_get_apis_async (we_json env) (we_call_async env) client (to_catalog_hrn_string (lc_catalog c))
                   serv service_version)
          (set_base_url slot url c, snd sn))"

definition lookup_api_client_async ::
  "('s, 'n) write_env \<Rightarrow> api_slot \<Rightarrow> string \<Rightarrow> string \<Rightarrow> (olp_client, 'n) client_op" where
  "lookup_api_client_async env slot serv service_version sn =
     on_success (lookup_api_async env slot serv service_version sn) (\<lambda>apis (c, n).
       case apis of
         [] \<Rightarrow> Some (Inl service_not_available, c, n)
       | a # _ \<Rightarrow>
           (let c = set_base_url slot (w_api_base_url a) c in
            case lc_apis c slot of None \<Rightarrow> None | Some client \<Rightarrow> Some (Inr client, c, n)))"

text \<open>
  The chain of lookups. An answer without an address is an exception. An error ends the initialisation; a
  cancellation between two lookups does not, it only calls the callback.
\<close>

fun init_chain :: "('s, 'n) write_env \<Rightarrow> (api_slot \<times> string \<times> string) list \<Rightarrow> (unit, 'n) client_op" where
  "init_chain env [] sn = Some (Inr (), (fst sn)\<lparr>lc_init_in_progress := False\<rparr>, snd sn)"
| "init_chain env ((slot, serv, ver) # rest) sn =
     Option.bind (lookup_api_async env slot serv ver sn) (\<lambda>(apis, c, n).
       case apis of
         Inl e \<Rightarrow> Some (Inl e, c\<lparr>lc_init_in_progress := False\<rparr>, n)
       | Inr [] \<Rightarrow> None
       | Inr (a # _) \<Rightarrow>
           (let c = set_base_url slot (w_api_base_url a) c in
            if rest \<noteq> [] \<and> we_cancelled env n then Some (Inl operation_cancelled, c, n)
            else init_chain env rest (c, n)))"

definition create_api_clients :: "('s, 'n) write_env \<Rightarrow> api_slot set \<Rightarrow> layer_client \<Rightarrow> layer_client" where
  "create_api_clients env slots c =
     c\<lparr>lc_init_in_progress := True,
       lc_apis := (\<lambda>slot. if slot \<in> slots then Some (client_of [] (we_settings env)) else lc_apis c slot)\<rparr>"

text \<open>
  The clients count as initialised when the one that is looked up last has an address. While another
  initialisation is in progress, the call waits with a lock that it does not hold, which is undefined.
\<close>

definition init_api_clients ::
  "('s, 'n) write_env \<Rightarrow> api_slot set \<Rightarrow> api_slot \<Rightarrow> (api_slot \<times> string \<times> string) list \<Rightarrow> (unit, 'n) client_op" where
  "init_api_clients env slots final lookups sn =
     (let c = fst sn in
      if lc_init_in_progress c then None
      else if (case lc_apis c final of Some client \<Rightarrow> base_url client \<noteq> [] | None \<Rightarrow> False)
      then Some (Inr (), sn)
      else
        init_chain env lookups (create_api_clients env slots c, snd sn))"

definition versioned_init_api_clients :: "('s, 'n) write_env \<Rightarrow> (unit, 'n) client_op" where
  "versioned_init_api_clients env =
     init_api_clients env {ApiBlob, ApiConfig, ApiMetadata, ApiPublish, ApiQuery} ApiPublish
       [(ApiMetadata, ''metadata'', ''v1''), (ApiConfig, ''config'', ''v1''), (ApiBlob, ''blob'', ''v1''),
        (ApiPublish, ''publish'', ''v2'')]"

definition volatile_init_api_clients :: "('s, 'n) write_env \<Rightarrow> (unit, 'n) client_op" where
  "volatile_init_api_clients env =
     init_api_clients env {ApiBlob, ApiConfig, ApiMetadata, ApiPublish, ApiQuery} ApiPublish
       [(ApiConfig, ''config'', ''v1''), (ApiMetadata, ''metadata'', ''v1''), (ApiBlob, ''volatile-blob'', ''v1''),
        (ApiQuery, ''query'', ''v1''), (ApiPublish, ''publish'', ''v2'')]"

definition index_init_api_clients :: "('s, 'n) write_env \<Rightarrow> (unit, 'n) client_op" where
  "index_init_api_clients env =
     init_api_clients env {ApiBlob, ApiConfig, ApiIndex} ApiIndex
       [(ApiConfig, ''config'', ''v1''), (ApiBlob, ''blob'', ''v1''), (ApiIndex, ''index'', ''v1'')]"

text \<open>What most operations do with a request: initialise, and send it unless they are cancelled.\<close>

definition with_apis :: "('s, 'n) write_env \<Rightarrow> (unit, 'n) client_op \<Rightarrow> ('a, 'n) client_op \<Rightarrow> ('a, 'n) client_op" where
  "with_apis env init f = if_not_cancelled env (\<lambda>sn. on_success (init sn) (\<lambda>_. if_not_cancelled env f))"

section \<open>Versioned layers\<close>

definition invalid_argument :: "string \<Rightarrow> bool \<Rightarrow> api_error" where
  "invalid_argument message retryable = api_error_of_code InvalidArgument message retryable"

definition contains :: "string \<Rightarrow> string \<Rightarrow> bool" where
  "contains t s \<longleftrightarrow> list_ex (\<lambda>i. take (length t) (drop i s) = t) [0..<Suc (length s)]"

text \<open>The error of a successful response is the default one.\<close>

definition start_publication :: "('s, 'n) write_env \<Rightarrow> start_batch_request \<Rightarrow> (publication, 'n) client_op" where
  "start_publication env request sn =
     (let pub = empty_publication\<lparr>
        publication_layer_ids := Some (case sbr_layers request of Some ls \<Rightarrow> ls | None \<Rightarrow> []),
        publication_version_dependencies := Some (case sbr_version_dependencies request of Some ds \<Rightarrow> ds | None \<Rightarrow> [])\<rparr>
      in on_success
           (ask_api ApiPublish (\<lambda>client. init_publication_async (we_json env) (we_call_async env) client pub (sbr_billing_tag request)) sn)
           (\<lambda>p sn. if publication_id p = None then Some (Inl default_error, sn) else Some (Inr p, sn)))"

definition versioned_start_batch :: "('s, 'n) write_env \<Rightarrow> start_batch_request \<Rightarrow> (publication, 'n) client_op" where
  "versioned_start_batch env request sn =
     (if sbr_layers request = None \<or> sbr_layers request = Some []
      then Some (Inl (invalid_argument ''Invalid layer'' True), sn)
      else client_operation (\<lambda>i sn. removing i
             (with_apis env (versioned_init_api_clients env) (start_publication env request) sn)) sn)"

text \<open>A catalog without versions answers 404; the base version is the default one then.\<close>

definition ask_base_version :: "('s, 'n) write_env \<Rightarrow> (w_version_response, 'n) client_op" where
  "ask_base_version env sn = do {
     (response, sn) \<leftarrow> ask_api ApiMetadata (\<lambda>client.
       w_metadata_get_latest_catalog_version (we_json env) (we_call_async env) client (- 1) None) sn;
     (case response of
        Inl e \<Rightarrow> (if http_status_code e = HTTP_NOT_FOUND \<and> contains ''Catalog has no versions'' (error_message e)
                  then Some (Inr empty_w_version_response, sn) else Some (Inl e, sn))
      | Inr v \<Rightarrow> Some (Inr v, sn)) }"

definition versioned_get_base_version :: "('s, 'n) write_env \<Rightarrow> (w_version_response, 'n) client_op" where
  "versioned_get_base_version env =
     client_operation (\<lambda>i sn. removing i (with_apis env (versioned_init_api_clients env) (ask_base_version env) sn))"

text \<open>The operations on a publication: one without an identifier is refused.\<close>

definition on_publication ::
  "('s, 'n) write_env \<Rightarrow> (unit, 'n) client_op \<Rightarrow> publication \<Rightarrow> (string \<Rightarrow> olp_client \<Rightarrow> 'n \<Rightarrow> ('a api_response \<times> 'n) option) \<Rightarrow>
   ('a, 'n) client_op" where
  "on_publication env init pub f sn =
     (let pid = (case publication_id pub of Some i \<Rightarrow> i | None \<Rightarrow> []) in
      if pid = [] then Some (Inl (invalid_argument ''Invalid publication'' True), sn)
      else client_operation (\<lambda>i sn. removing i (with_apis env init (ask_api ApiPublish (f pid)) sn)) sn)"

definition versioned_get_batch :: "('s, 'n) write_env \<Rightarrow> publication \<Rightarrow> (publication, 'n) client_op" where
  "versioned_get_batch env pub =
     on_publication env (versioned_init_api_clients env) pub
       (\<lambda>pid client. get_publication (we_json env) (we_call_async env) client pid None)"

definition versioned_complete_batch :: "('s, 'n) write_env \<Rightarrow> publication \<Rightarrow> (unit, 'n) client_op" where
  "versioned_complete_batch env pub =
     on_publication env (versioned_init_api_clients env) pub
       (\<lambda>pid client. submit_publication_async (we_call_async env) client pid None)"

definition versioned_cancel_batch :: "('s, 'n) write_env \<Rightarrow> publication \<Rightarrow> (unit, 'n) client_op" where
  "versioned_cancel_batch env pub =
     on_publication env (versioned_init_api_clients env) pub
       (\<lambda>pid client. cancel_publication (we_call_async env) client pid None)"

definition find_content_type_for_layer_id :: "layer_client \<Rightarrow> string \<Rightarrow> string" where
  "find_content_type_for_layer_id c lid = find_content_type (lc_catalog_model c) lid"

text \<open>The catalog is asked for once: until its identifier is not empty.\<close>

definition ask_catalog_model :: "('s, 'n) write_env \<Rightarrow> (unit, 'n) client_op" where
  "ask_catalog_model env sn =
     on_success
       (ask_api ApiConfig (\<lambda>client.
          w_config_get_catalog_async (we_json env) (we_call_async env) client (hrn_to_string (lc_catalog (fst sn))) None) sn)
       (\<lambda>model (c, n). Some (Inr (), c\<lparr>lc_catalog_model := model\<rparr>, n))"

definition versioned_init_catalog_model :: "('s, 'n) write_env \<Rightarrow> (unit, 'n) client_op" where
  "versioned_init_catalog_model env =
     if_not_cancelled env (\<lambda>sn. on_success (versioned_init_api_clients env sn) (\<lambda>_ sn.
       if w_catalog_id (lc_catalog_model (fst sn)) \<noteq> [] then Some (Inr (), sn)
       else if_not_cancelled env (ask_catalog_model env) sn))"

definition layer_not_found :: "string \<Rightarrow> string \<Rightarrow> string \<Rightarrow> api_error" where
  "layer_not_found lid where_from client_name =
     invalid_argument (''Unable to find the Layer ID ('' @ lid @ '') provided in the '' @ where_from @
       ''the Catalog specified when creating this '' @ client_name @ '' instance.'') False"

definition versioned_upload_blob ::
  "('s, 'n) write_env \<Rightarrow> string option \<Rightarrow> string \<Rightarrow> string \<Rightarrow> (unit, 'n) client_op" where
  "versioned_upload_blob env data data_handle lid sn =
     (let content_type = find_content_type_for_layer_id (fst sn) lid in
      if content_type = [] then Some (Inl (layer_not_found lid ''request in '' ''VersionedLayerClient''), sn)
      else with_apis env (versioned_init_api_clients env)
             (ask_api ApiBlob (\<lambda>client. put_blob_async (we_call_async env) client lid content_type data_handle data None)) sn)"

definition versioned_upload_partition ::
  "('s, 'n) write_env \<Rightarrow> string \<Rightarrow> string \<Rightarrow> string \<Rightarrow> string \<Rightarrow> (unit, 'n) client_op" where
  "versioned_upload_partition env pid partition_id data_handle lid =
     (let partitions = \<lparr>pps_partitions =
        Some [empty_publish_partition\<lparr>pp_partition := Some partition_id, pp_data_handle := Some data_handle\<rparr>]\<rparr>
      in with_apis env (versioned_init_api_clients env)
           (ask_api ApiPublish (\<lambda>client. upload_partitions_async (we_json env) (we_call_async env) client partitions pid lid None)))"

definition versioned_publish_to_batch ::
  "('s, 'n) write_env \<Rightarrow> publication \<Rightarrow> publish_partition_data_request \<Rightarrow> (response_ok_single, 'n) client_op" where
  "versioned_publish_to_batch env pub request sn =
     (let pid = (case publication_id pub of Some i \<Rightarrow> i | None \<Rightarrow> []); lid = ppr_layer_id request;
          partition_id = (case ppr_partition_id request of Some p \<Rightarrow> p | None \<Rightarrow> []) in
      if pid = [] then Some (Inl (invalid_argument ''Invalid publication'' True), sn)
      else if lid = [] then Some (Inl (invalid_argument ''Invalid request'' True), sn)
      else
        new_uuid env (\<lambda>data_handle. client_operation (\<lambda>i sn. removing i
          (on_success (versioned_init_catalog_model env sn) (\<lambda>_ sn.
           on_success (versioned_upload_blob env (ppr_data request) data_handle lid sn) (\<lambda>_ sn.
           on_success (versioned_upload_partition env pid partition_id data_handle lid sn) (\<lambda>_ sn.
             Some (Inr \<lparr>single_trace_id = partition_id\<rparr>, sn))))))) sn)"

text \<open>Only the answer of the last request removes the task here.\<close>

definition versioned_check_data_exists ::
  "('s, 'n) write_env \<Rightarrow> check_data_exists_request \<Rightarrow> (int, 'n) client_op" where
  "versioned_check_data_exists env request sn =
     (if cdr_layer_id request = [] then Some (Inl (invalid_argument ''Invalid layer'' True), sn)
      else client_operation (\<lambda>i. with_apis env (versioned_init_api_clients env) (\<lambda>sn. removing i
             (ask_api ApiBlob (\<lambda>client.
                check_blob_exists (we_call_async env) client (cdr_layer_id request) (cdr_data_handle request) None) sn))) sn)"

section \<open>Volatile layers\<close>

definition volatile_get_base_version :: "('s, 'n) write_env \<Rightarrow> (w_version_response, 'n) client_op" where
  "volatile_get_base_version env =
     client_operation (\<lambda>i sn. removing i (with_apis env (volatile_init_api_clients env) (ask_base_version env) sn))"

definition volatile_start_batch :: "('s, 'n) write_env \<Rightarrow> start_batch_request \<Rightarrow> (publication, 'n) client_op" where
  "volatile_start_batch env request =
     client_operation (\<lambda>i sn. removing i (with_apis env (volatile_init_api_clients env) (start_publication env request) sn))"

definition volatile_get_batch :: "('s, 'n) write_env \<Rightarrow> publication \<Rightarrow> (publication, 'n) client_op" where
  "volatile_get_batch env pub =
     on_publication env (volatile_init_api_clients env) pub
       (\<lambda>pid client. get_publication (we_json env) (we_call_async env) client pid None)"

definition volatile_complete_batch :: "('s, 'n) write_env \<Rightarrow> publication \<Rightarrow> (unit, 'n) client_op" where
  "volatile_complete_batch env pub =
     on_publication env (volatile_init_api_clients env) pub
       (\<lambda>pid client. submit_publication_async (we_call_async env) client pid None)"

definition init_catalog_model :: "('s, 'n) write_env \<Rightarrow> (unit, 'n) client_op" where
  "init_catalog_model env sn =
     (if w_catalog_id (lc_catalog_model (fst sn)) \<noteq> [] then Some (Inr (), sn) else ask_catalog_model env sn)"

definition data_handle_map :: "string list \<Rightarrow> w_partitions \<Rightarrow> (string, string) smap" where
  "data_handle_map partition_ids ps =
     fold (\<lambda>p m. if w_partition_partition p \<in> set partition_ids
                 then smap_put (w_partition_partition p) (w_partition_data_handle p) m else m) (w_partitions_list ps) []"

definition get_data_handle_map ::
  "('s, 'n) write_env \<Rightarrow> string \<Rightarrow> string list \<Rightarrow> int option \<Rightarrow> string list option \<Rightarrow> string option \<Rightarrow>
   ((string, string) smap, 'n) client_op" where
  "get_data_handle_map env lid partition_ids version additional_fields billing_tag sn =
     (if partition_ids = [] \<or> lid = [] then Some (Inl (invalid_argument ''Empty partition ids or layer id'' True), sn)
      else if 100 < length partition_ids
      then Some (Inl (invalid_argument ''Exceeds the maximum allowed number of partition per call'' True), sn)
      else client_operation (\<lambda>i sn. removing i (with_apis env (volatile_init_api_clients env) (\<lambda>sn.
             on_success
               (ask_api ApiQuery (\<lambda>client. w_query_get_partitions_by_id (we_json env) (we_call_async env) client lid
                  partition_ids version additional_fields billing_tag) sn)
               (\<lambda>ps sn. Some (Inr (data_handle_map partition_ids ps), sn))) sn)) sn)"

text \<open>The map has one entry at most, as one partition is asked for.\<close>

definition volatile_publish_partition_data ::
  "('s, 'n) write_env \<Rightarrow> publish_partition_data_request \<Rightarrow> (response_ok_single, 'n) client_op" where
  "volatile_publish_partition_data env request sn =
     (let lid = ppr_layer_id request in
      case ppr_partition_id request of
        None \<Rightarrow> Some (Inl (invalid_argument ''Request data or partition id is not defined.'' False), sn)
      | Some partition_id \<Rightarrow>
          if ppr_data request = None
          then Some (Inl (invalid_argument ''Request data or partition id is not defined.'' False), sn)
          else client_operation (\<lambda>i sn. removing i (with_apis env (volatile_init_api_clients env) (\<lambda>sn.
                 on_success (init_catalog_model env sn) (\<lambda>_. if_not_cancelled env (\<lambda>sn.
                 on_success (get_data_handle_map env lid [partition_id] None None None sn) (\<lambda>handles sn.
                 case handles of
                   [] \<Rightarrow> Some (Inl (invalid_argument (''Unable to find requested partition,the partition '' @
                          ''metadata has to exist in OLP before invoking this API.'') False), sn)
                 | (_, data_handle) # _ \<Rightarrow> if_not_cancelled env (\<lambda>sn.
                     let content_type = find_content_type_for_layer_id (fst sn) lid in
                     if content_type = []
                     then Some (Inl (layer_not_found lid ''PublishPartitionDataRequest in '' ''VolatileLayerClient''), sn)
                     else on_success
                       (ask_api ApiBlob (\<lambda>client. put_blob_async (we_call_async env) client lid content_type data_handle
                          (ppr_data request) (ppr_billing_tag request)) sn)
                       (\<lambda>_ sn. Some (Inr \<lparr>single_trace_id = partition_id\<rparr>, sn))) sn)))) sn)) sn)"

text \<open>The check of the requests, in their order.\<close>

fun check_partitions :: "string \<Rightarrow> publish_partition_data_request list \<Rightarrow> api_error option" where
  "check_partitions first_layer_id [] = None"
| "check_partitions first_layer_id (p # ps) =
     (if ppr_layer_id p = [] \<or> ppr_layer_id p \<noteq> first_layer_id
      then Some (invalid_argument (''A PublishPartitionDataRequest provided does not specify a layer, or '' @
             ''it is different from other layers in the list.'') True)
      else if ppr_data p \<noteq> None
      then Some (invalid_argument (''PublishPartitionDataRequest contains data. This request is for '' @
             ''publishing metadata only, please see the documentation.'') True)
      else if ppr_partition_id p = None \<or> ppr_partition_id p = Some []
      then Some (invalid_argument ''A PublishPartitionDataRequest in the list does not specify a PartitionId'' True)
      else check_partitions first_layer_id ps)"

text \<open>A checksum takes the place of the data handle.\<close>

fun publish_partition_list ::
  "('s, 'n) write_env \<Rightarrow> publish_partition_data_request list \<Rightarrow> 'n \<Rightarrow> publish_partition list \<times> 'n" where
  "publish_partition_list env [] n = ([], n)"
| "publish_partition_list env (p # ps) n =
     (let (uuid, n) = we_uuid env n;
          pub_partition = empty_publish_partition\<lparr>
            pp_partition := Some (case ppr_partition_id p of Some i \<Rightarrow> i | None \<Rightarrow> []), pp_data_handle := Some uuid\<rparr>;
          pub_partition = (case ppr_checksum p of Some c \<Rightarrow> pub_partition\<lparr>pp_data_handle := Some c\<rparr> | None \<Rightarrow> pub_partition);
          (rest, n) = publish_partition_list env ps n
      in (pub_partition # rest, n))"

definition volatile_publish_to_batch ::
  "('s, 'n) write_env \<Rightarrow> publication \<Rightarrow> publish_partition_data_request list \<Rightarrow> (unit, 'n) client_op" where
  "volatile_publish_to_batch env pub requests sn =
     (let pid = (case publication_id pub of Some i \<Rightarrow> i | None \<Rightarrow> []) in
      if pid = [] then Some (Inl (invalid_argument ''Invalid publication - missing ID'' True), sn)
      else case requests of
        [] \<Rightarrow> Some (Inl (invalid_argument ''PublishPartitionDataRequest list provided is empty'' True), sn)
      | first # _ \<Rightarrow>
          (case check_partitions (ppr_layer_id first) requests of
             Some e \<Rightarrow> Some (Inl e, sn)
           | None \<Rightarrow> client_operation (\<lambda>i sn. removing i (with_apis env (volatile_init_api_clients env) (\<lambda>sn.
               let (ps, n) = publish_partition_list env requests (snd sn) in
               ask_api ApiPublish (\<lambda>client. upload_partitions_async (we_json env) (we_call_async env) client
                 \<lparr>pps_partitions = Some ps\<rparr> pid (ppr_layer_id first) (ppr_billing_tag first)) (fst sn, n)) sn)) sn))"

section \<open>Index layers\<close>

text \<open>A layer that is not in the catalog does not remove the task.\<close>

definition index_publish_index ::
  "('s, 'n) write_env \<Rightarrow> publish_index_request \<Rightarrow> (response_ok_single, 'n) client_op" where
  "index_publish_index env request sn =
     (let lid = pir_layer_id request; billing_tag = pir_billing_tag request in
      if pir_data request = None then Some (Inl (invalid_argument ''Request data empty.'' False), sn)
      else if lid = [] then Some (Inl (invalid_argument ''Request layer Id empty.'' False), sn)
      else client_operation (\<lambda>i. new_uuid env (\<lambda>data_handle sn. do {
             (response, sn) \<leftarrow> with_apis env (index_init_api_clients env) (init_catalog_model env) sn;
             (case response of
                Inl e \<Rightarrow> removing i (Some (Inl e, sn))
              | Inr _ \<Rightarrow>
                  (let content_type = find_content_type_for_layer_id (fst sn) lid in
                   if content_type = []
                   then Some (Inl (layer_not_found lid ''PublishIndexRequest in '' ''IndexLayerClient''), sn)
                   else removing i (if_not_cancelled env (\<lambda>sn.
                     on_success
                       (ask_api ApiBlob (\<lambda>client. put_blob_async (we_call_async env) client lid content_type data_handle
                          (pir_data request) billing_tag) sn) (\<lambda>_. if_not_cancelled env (\<lambda>sn.
                     on_success
                       (ask_api ApiIndex (\<lambda>client. insert_indexes (we_json env) (we_call_async env) client
                          ((pir_index request)\<lparr>index_id := data_handle\<rparr>) lid billing_tag) sn)
                       (\<lambda>_ sn. Some (Inr \<lparr>single_trace_id = data_handle\<rparr>, sn))))) sn))) })) sn)"

definition index_delete_index_data :: "('s, 'n) write_env \<Rightarrow> delete_index_data_request \<Rightarrow> (unit, 'n) client_op" where
  "index_delete_index_data env request sn =
     (if dir_layer_id request = [] \<or> dir_index_id request = []
      then Some (Inl (invalid_argument ''Request layer ID or Index Id is not defined.'' False), sn)
      else client_operation (\<lambda>i sn. removing i (with_apis env (index_init_api_clients env)
             (ask_api ApiBlob (\<lambda>client.
                delete_blob (we_call_async env) client (dir_layer_id request) (dir_index_id request) None)) sn)) sn)"

definition index_update_index :: "('s, 'n) write_env \<Rightarrow> update_index_request \<Rightarrow> (unit, 'n) client_op" where
  "index_update_index env request =
     client_operation (\<lambda>i sn. removing i (with_apis env (index_init_api_clients env)
       (ask_api ApiIndex (\<lambda>client. perform_update (we_json env) (we_call_async env) client request None)) sn))"

end
