(* ===== verification/WriteBatches.thy ===== *)
theory WriteBatches
  imports WriteClients
begin

text \<open>
  What the clients of the write service send and how they fail. The requests are observed by a network that
  records them; the rules about recorded requests are proved in a locale, whose interpretation is the record
  that is put around any network.
\<close>

lemma split_after: "a @ x # r = b @ y # c \<Longrightarrow> y \<notin> set a \<Longrightarrow> y \<noteq> x \<Longrightarrow> x \<in> set b \<and> y \<in> set r"
proof (induction a arbitrary: b)
  case Nil
  then show ?case by (cases b) auto
next
  case (Cons z a)
  then show ?case by (cases b) auto
qed

section \<open>Observing the requests\<close>

text \<open>Verb, path, body and the status of the answer.\<close>

type_synonym sent_request = "string \<times> string \<times> string option \<times> int"

locale observed_network =
  fixes env :: "('s, 'n) write_env" and sent :: "'n \<Rightarrow> sent_request list"
  assumes call_law: "we_call_async env client path verb query headers body content n = (response, n') \<Longrightarrow>
      sent n' = sent n @ [(verb, path, body, resp_status response)]"
    and uuid_law: "we_uuid env n = (uuid, n') \<Longrightarrow> sent n' = sent n"
begin

text \<open>\<open>sends n P r\<close>: the requests that lead from the network \<open>n\<close> to a result \<open>r\<close> satisfy \<open>P\<close>.\<close>

definition sends :: "'n \<Rightarrow> ('a api_response \<Rightarrow> sent_request list \<Rightarrow> bool) \<Rightarrow> ('a, 'n) client_result \<Rightarrow> bool" where
  "sends n P r \<longleftrightarrow> (\<forall>a c' n'. r = Some (a, c', n') \<longrightarrow> (\<exists>new. sent n' = sent n @ new \<and> P a new))"

lemma sendsD: "sends n P (Some (a, c', n')) \<Longrightarrow> \<exists>new. sent n' = sent n @ new \<and> P a new"
  by (simp add: sends_def)

lemma sends_None [simp]: "sends n P None"
  by (simp add: sends_def)

lemma sends_nothing: "P a [] \<Longrightarrow> sends n P (Some (a, c, n))"
  by (simp add: sends_def)

lemma sends_mono: "sends n P r \<Longrightarrow> (\<And>a new. P a new \<Longrightarrow> Q a new) \<Longrightarrow> sends n Q r"
  unfolding sends_def by blast

lemma sends_bind:
  assumes r: "sends n P r" and f: "\<And>a c n' new. P a new \<Longrightarrow> sends n' (\<lambda>b new'. Q b (new @ new')) (f (a, c, n'))"
  shows "sends n Q (Option.bind r f)"
proof (cases r)
  case (Some x)
  obtain a c n' where x: "x = (a, c, n')" by (cases x)
  obtain new where n: "sent n' = sent n @ new" "P a new" using r Some x sendsD by blast
  show ?thesis
    unfolding sends_def
  proof (intro allI impI)
    fix b c2 n2
    assume "Option.bind r f = Some (b, c2, n2)"
    then have "f (a, c, n') = Some (b, c2, n2)" using Some x by simp
    then obtain new' where "sent n2 = sent n' @ new'" "Q b (new @ new')"
      using f [OF n(2), of n' c] by (auto dest: sendsD)
    then show "\<exists>new. sent n2 = sent n @ new \<and> Q b new" using n(1) by auto
  qed
qed simp

lemma sends_on_success:
  assumes "sends n P r" and "\<And>x c n' new. P (Inr x) new \<Longrightarrow> sends n' (\<lambda>b new'. Q b (new @ new')) (f x (c, n'))"
    and "\<And>e new. P (Inl e) new \<Longrightarrow> Q (Inl e) new"
  shows "sends n Q (on_success r f)"
  unfolding on_success_def
  by (rule sends_bind [OF assms(1)]) (use assms(2,3) in \<open>auto split: sum.split intro!: sends_nothing\<close>)

lemma sends_if_not_cancelled:
  "(\<And>e. P (Inl e) []) \<Longrightarrow> sends n P (f (c, n)) \<Longrightarrow> sends n P (if_not_cancelled env f (c, n))"
  by (simp add: if_not_cancelled_def sends_nothing)

lemma sends_removing: "sends n P r \<Longrightarrow> sends n P (removing i r)"
  unfolding removing_def by (auto simp: sends_def split: Option.bind_split_asm)

lemma sends_operation:
  "(\<And>i c. sends n P (body i (c, n))) \<Longrightarrow> sends n P (client_operation body (c, n))"
  unfolding client_operation_def Let_def by (fastforce simp: sends_def split: Option.bind_split_asm)

lemma sends_ask_api:
  "(\<And>client r n'. f client n = Some (r, n') \<Longrightarrow> \<exists>new. sent n' = sent n @ new \<and> P r new) \<Longrightarrow>
   sends n P (ask_api slot f (c, n))"
  by (fastforce simp: ask_api_def ask_def on_network_def sends_def split: option.splits Option.bind_split_asm)

subsection \<open>The calls\<close>

abbreviation gets :: "sent_request list \<Rightarrow> bool" where
  "gets new \<equiv> list_all (\<lambda>(verb, _). verb = ''GET'') new"

lemma gets_no_post: "gets new \<Longrightarrow> (''POST'', path, body, status) \<notin> set new"
  by (induction new) auto

lemma api_answer_sends:
  assumes "api_answer expected read (we_call_async env client path verb query headers body content n) = Some (r, n')"
  shows "\<exists>status. sent n' = sent n @ [(verb, path, body, status)]"
  using assms call_law [of client path verb query headers body content n]
  by (auto simp: api_answer_def split: prod.splits if_splits)

lemma no_result_sends:
  assumes "no_result success (we_call_async env client path verb query headers body content n) = Some (r, n')"
  shows "\<exists>status. sent n' = sent n @ [(verb, path, body, status)] \<and> (success status \<longleftrightarrow> r = Inr ())"
  using assms call_law [of client path verb query headers body content n]
  by (auto simp: no_result_def split: prod.splits if_splits)

lemma lookup_api_async_gets: "sends n (\<lambda>_. gets) (lookup_api_async env slot serv ver (c, n))"
  by (auto simp: lookup_api_async_def Let_def w_platform_get_apis_async_def w_platform_get_apis_def
      w_resources_get_apis_async_def w_resources_get_apis_def
      intro!: sends_nothing sends_ask_api dest!: api_answer_sends split: if_splits)

lemma init_chain_gets: "sends n (\<lambda>_. gets) (init_chain env lookups (c, n))"
proof (induction lookups arbitrary: c n)
  case (Cons l ls)
  obtain slot serv ver where "l = (slot, serv, ver)" by (cases l)
  then show ?case
    by (auto intro!: sends_bind [OF lookup_api_async_gets] sends_nothing sends_mono [OF Cons.IH]
        simp: Let_def split: sum.split list.split)
qed (simp add: sends_nothing)

lemma init_api_clients_gets: "sends n (\<lambda>_. gets) (init_api_clients env slots final lookups (c, n))"
  by (auto simp: init_api_clients_def Let_def init_chain_gets intro: sends_nothing)

lemma versioned_init_gets: "sends n (\<lambda>_. gets) (versioned_init_api_clients env (c, n))"
  by (simp add: versioned_init_api_clients_def init_api_clients_gets)

lemma ask_catalog_model_gets: "sends n (\<lambda>_. gets) (ask_catalog_model env (c, n))"
  unfolding ask_catalog_model_def
  by (rule sends_on_success [of n "\<lambda>_. gets"])
    (auto simp: w_config_get_catalog_async_def w_config_get_catalog_def Let_def
      intro!: sends_nothing sends_ask_api dest!: api_answer_sends)

lemma versioned_init_catalog_model_gets: "sends n (\<lambda>_. gets) (versioned_init_catalog_model env (c, n))"
  unfolding versioned_init_catalog_model_def
  by (intro sends_if_not_cancelled sends_on_success [OF versioned_init_gets])
    (auto intro!: sends_nothing sends_if_not_cancelled sends_mono [OF ask_catalog_model_gets])

lemma with_apis_sends:
  assumes "\<And>c n. sends n (\<lambda>_. gets) (init (c, n))" and "\<And>e new. gets new \<Longrightarrow> P (Inl e) new"
    and "\<And>c n' new. gets new \<Longrightarrow> sends n' (\<lambda>b new'. P b (new @ new')) (f (c, n'))"
  shows "sends n P (with_apis env init f (c, n))"
  unfolding with_apis_def
  by (intro sends_if_not_cancelled sends_on_success [OF assms(1)])
    (use assms in \<open>auto intro: sends_if_not_cancelled\<close>)

subsection \<open>Publishing to a batch\<close>

text \<open>A request whose success is the one of the operation, after requests that only read.\<close>

definition stores :: "(int \<Rightarrow> bool) \<Rightarrow> string \<Rightarrow> string \<Rightarrow> (string option \<Rightarrow> bool) \<Rightarrow> unit api_response \<Rightarrow> sent_request list \<Rightarrow> bool" where
  "stores success verb path P a new \<longleftrightarrow>
     (\<exists>gs rest. new = gs @ rest \<and> gets gs \<and>
        (rest = [] \<and> a \<noteq> Inr () \<or>
         (\<exists>body status. rest = [(verb, path, body, status)] \<and> P body \<and> (success status \<longleftrightarrow> a = Inr ()))))"

lemma storesI:
  "gets gs \<Longrightarrow> P body \<Longrightarrow> (success status \<longleftrightarrow> a = Inr ()) \<Longrightarrow> stores success verb path P a (gs @ [(verb, path, body, status)])"
  unfolding stores_def by blast

lemma stores_nothing: "gets new \<Longrightarrow> stores success verb path P (Inl e) new"
  unfolding stores_def by (intro exI [of _ new] exI [of _ "[]"]) simp

lemma stores_after_gets:
  assumes "stores success verb path P a new" and "gets gs"
  shows "stores success verb path P a (gs @ new)"
proof -
  obtain gs1 rest where n: "new = gs1 @ rest" "gets gs1"
      "rest = [] \<and> a \<noteq> Inr () \<or> (\<exists>body status. rest = [(verb, path, body, status)] \<and> P body \<and> (success status \<longleftrightarrow> a = Inr ()))"
    using assms(1) unfolding stores_def by blast
  then show ?thesis unfolding stores_def by (intro exI [of _ "gs @ gs1"] exI [of _ rest]) (simp add: assms(2))
qed

lemma versioned_upload_blob_stores:
  "sends n (stores (\<lambda>status. status = 200 \<or> status = 204) ''PUT'' (''/layers/'' @ lid @ ''/data/'' @ handle) (\<lambda>body. body = data))
     (versioned_upload_blob env data handle lid (c, n))"
  by (auto simp: versioned_upload_blob_def Let_def put_blob_async_def put_blob_def
      intro!: sends_nothing stores_nothing with_apis_sends [OF versioned_init_gets] sends_ask_api storesI
      dest!: no_result_sends)

lemma versioned_upload_partition_stores:
  "sends n (stores (\<lambda>status. status = 204) ''POST'' (''/layers/'' @ lid @ ''/publications/'' @ pid @ ''/partitions'') (\<lambda>_. True))
     (versioned_upload_partition env pid partition_id handle lid (c, n))"
  by (auto simp: versioned_upload_partition_def Let_def upload_partitions_async_def upload_partitions_def bind_eq_Some_conv
      intro!: stores_nothing with_apis_sends [OF versioned_init_gets] sends_ask_api storesI
      dest!: no_result_sends)

text \<open>A partition is uploaded after its blob was stored, and reported only when it was.\<close>

definition upload_follows_blob ::
  "string \<Rightarrow> string \<Rightarrow> string option \<Rightarrow> 'a api_response \<Rightarrow> sent_request list \<Rightarrow> bool" where
  "upload_follows_blob blob_path upload_path data a new \<longleftrightarrow>
     (\<forall>before path body status after. new = before @ (''POST'', path, body, status) # after \<longrightarrow>
        path = upload_path \<and> (\<exists>st. (''PUT'', blob_path, data, st) \<in> set before \<and> (st = 200 \<or> st = 204))) \<and>
     (is_successful a \<longrightarrow> (\<exists>body. (''POST'', upload_path, body, 204) \<in> set new))"

lemma upload_follows_blob_nothing: "gets new \<Longrightarrow> upload_follows_blob bp up data (Inl e) new"
  by (auto simp: upload_follows_blob_def is_successful_def)

lemma upload_follows_failed_blob:
  assumes "stores success ''PUT'' bp P a new" and "a \<noteq> Inr ()"
  shows "upload_follows_blob bp up data (Inl e) new"
proof -
  obtain gs rest where g: "new = gs @ rest" "gets gs" "rest = [] \<or> (\<exists>body status. rest = [(''PUT'', bp, body, status)])"
    using assms unfolding stores_def by blast
  then have "(''POST'', path, body, status) \<notin> set new" for path body status using gets_no_post [OF g(2)] by auto
  then have "new \<noteq> before @ (''POST'', path, body, status) # after" for before path body status after
    by (metis in_set_conv_decomp)
  then show ?thesis by (simp add: upload_follows_blob_def is_successful_def)
qed

lemma upload_follows_stored_blob:
  assumes b: "stores (\<lambda>status. status = 200 \<or> status = 204) ''PUT'' bp (\<lambda>body. body = data) (Inr ()) new"
    and u: "stores (\<lambda>status. status = 204) ''POST'' up P a new'" and r: "is_successful r \<longleftrightarrow> a = Inr ()" and g: "gets gs"
  shows "upload_follows_blob bp up data r (gs @ new @ new')"
proof -
  obtain gs1 st where b': "new = gs1 @ [(''PUT'', bp, data, st)]" "gets gs1" "st = 200 \<or> st = 204"
    using b unfolding stores_def by blast
  obtain gs2 rest where u': "new' = gs2 @ rest" "gets gs2"
      "rest = [] \<and> a \<noteq> Inr () \<or> (\<exists>body status. rest = [(''POST'', up, body, status)] \<and> (status = 204 \<longleftrightarrow> a = Inr ()))"
    using u unfolding stores_def by blast
  have "path = up \<and> (\<exists>st. (''PUT'', bp, data, st) \<in> set before \<and> (st = 200 \<or> st = 204))"
    if split: "gs @ new @ new' = before @ (''POST'', path, body, status) # after" for before path body status after
  proof -
    have all: "gets (gs @ gs1)" using g b'(2) by simp
    have eq: "(gs @ gs1) @ (''PUT'', bp, data, st) # gs2 @ rest = before @ (''POST'', path, body, status) # after"
      using split b'(1) u'(1) by simp
    have "(''POST'', path, body, status) \<notin> set (gs @ gs1)" by (rule gets_no_post [OF all])
    from split_after [OF eq this]
    have "(''PUT'', bp, data, st) \<in> set before" "(''POST'', path, body, status) \<in> set (gs2 @ rest)" by simp_all
    moreover have "(''POST'', path, body, status) \<notin> set gs2" by (rule gets_no_post [OF u'(2)])
    ultimately show ?thesis using u'(3) b'(3) by auto
  qed
  moreover have "\<exists>body. (''POST'', up, body, 204) \<in> set (gs @ new @ new')" if "is_successful r"
    using that r u'(1,3) by auto
  ultimately show ?thesis unfolding upload_follows_blob_def by blast
qed

lemma publish_to_batch_sends:
  assumes "we_uuid env n = (handle, n1)" and "publication_id pub = Some pid"
  shows "sends n (upload_follows_blob (''/layers/'' @ ppr_layer_id request @ ''/data/'' @ handle)
      (''/layers/'' @ ppr_layer_id request @ ''/publications/'' @ pid @ ''/partitions'') (ppr_data request))
    (versioned_publish_to_batch env pub request (c, n))"
proof -
  have n: "sent n1 = sent n" using uuid_law [OF assms(1)] .
  let ?P = "upload_follows_blob (''/layers/'' @ ppr_layer_id request @ ''/data/'' @ handle)
      (''/layers/'' @ ppr_layer_id request @ ''/publications/'' @ pid @ ''/partitions'') (ppr_data request)"
  let ?lid = "ppr_layer_id request"
  have stage: "sends n1 ?P
      (on_success (versioned_init_catalog_model env (c, n1)) (\<lambda>_ sn.
           on_success (versioned_upload_blob env (ppr_data request) handle ?lid sn) (\<lambda>_ sn.
           on_success (versioned_upload_partition env pid part handle ?lid sn) (\<lambda>_ sn. Some (Inr y, sn)))))" for c part y
  proof (intro sends_on_success [OF versioned_init_catalog_model_gets])
    fix x :: unit and c n' new
    assume g: "gets new"
    show "sends n' (\<lambda>b new'. ?P b (new @ new'))
        (on_success (versioned_upload_blob env (ppr_data request) handle ?lid (c, n')) (\<lambda>_ sn.
           on_success (versioned_upload_partition env pid part handle ?lid sn) (\<lambda>_ sn. Some (Inr y, sn))))"
    proof (intro sends_on_success [OF versioned_upload_blob_stores])
      fix x :: unit and c n'' new'
      assume b: "stores (\<lambda>status. status = 200 \<or> status = 204) ''PUT'' (''/layers/'' @ ?lid @ ''/data/'' @ handle)
          (\<lambda>body. body = ppr_data request) (Inr x) new'"
      show "sends n'' (\<lambda>b new''. ?P b (new @ new' @ new''))
          (on_success (versioned_upload_partition env pid part handle ?lid (c, n'')) (\<lambda>_ sn. Some (Inr y, sn)))"
      proof (rule sends_on_success [OF versioned_upload_partition_stores])
        fix u :: unit and c n3 new''
        assume "stores (\<lambda>status. status = 204) ''POST'' (''/layers/'' @ ?lid @ ''/publications/'' @ pid @ ''/partitions'')
            (\<lambda>_. True) (Inr u) new''"
        from upload_follows_stored_blob [OF _ this _ g, where r = "Inr y"] b
        show "sends n3 (\<lambda>b new3. ?P b (new @ new' @ new'' @ new3)) (Some (Inr y, c, n3))"
          by (intro sends_nothing) (simp add: is_successful_def)
      next
        fix e new''
        assume "stores (\<lambda>status. status = 204) ''POST'' (''/layers/'' @ ?lid @ ''/publications/'' @ pid @ ''/partitions'')
            (\<lambda>_. True) (Inl e) new''"
        from upload_follows_stored_blob [OF _ this _ g, where r = "Inl e"] b
        show "?P (Inl e) (new @ new' @ new'')" by (simp add: is_successful_def)
      qed
    next
      fix e new'
      assume "stores (\<lambda>status. status = 200 \<or> status = 204) ''PUT'' (''/layers/'' @ ?lid @ ''/data/'' @ handle)
          (\<lambda>body. body = ppr_data request) (Inl e) new'"
      then have "stores (\<lambda>status. status = 200 \<or> status = 204) ''PUT'' (''/layers/'' @ ?lid @ ''/data/'' @ handle)
          (\<lambda>body. body = ppr_data request) (Inl e) (new @ new')" by (rule stores_after_gets [OF _ g])
      then show "?P (Inl e) (new @ new')" by (rule upload_follows_failed_blob) simp
    qed
  qed (rule upload_follows_blob_nothing)
  show ?thesis
  proof (cases "pid = [] \<or> ?lid = []")
    case True
    then show ?thesis using assms(2)
      by (auto simp: versioned_publish_to_batch_def Let_def intro!: sends_nothing upload_follows_blob_nothing)
  next
    case False
    have "sends n1 ?P (client_operation (\<lambda>i sn. removing i
          (on_success (versioned_init_catalog_model env sn) (\<lambda>_ sn.
           on_success (versioned_upload_blob env (ppr_data request) handle ?lid sn) (\<lambda>_ sn.
           on_success (versioned_upload_partition env pid part handle ?lid sn) (\<lambda>_ sn. Some (Inr y, sn)))))) (c, n1))" for part y
      by (intro sends_operation sends_removing stage)
    then show ?thesis using False assms n
      by (simp add: versioned_publish_to_batch_def Let_def new_uuid_def sends_def)
  qed
qed

end

section \<open>The record around a network\<close>

definition observed :: "('s, 'n) write_env \<Rightarrow> ('s, 'n \<times> sent_request list) write_env" where
  "observed env =
     \<lparr>we_json = we_json env, we_cache = we_cache env,
      we_call = (\<lambda>client path verb query headers body content (n, l).
        case we_call env client path verb query headers body content n of
          (response, n') \<Rightarrow> (response, n', l @ [(verb, path, body, resp_status response)])),
      we_call_async = (\<lambda>client path verb query headers body content (n, l).
        case we_call_async env client path verb query headers body content n of
          (response, n') \<Rightarrow> (response, n', l @ [(verb, path, body, resp_status response)])),
      we_settings = we_settings env, we_cancelled = we_cancelled env \<circ> fst,
      we_uuid = (\<lambda>(n, l). case we_uuid env n of (uuid, n') \<Rightarrow> (uuid, n', l))\<rparr>"

interpretation observed: observed_network "observed env" snd
  by unfold_locales (auto simp: observed_def split: prod.splits)


section \<open>Initialisation\<close>

text \<open>What the changes of the state leave alone.\<close>

lemma client_state_simps [simp]:
  "lc_init_in_progress (set_base_url slot u c) = lc_init_in_progress c"
  "lc_init_in_progress (register_tokens c) = lc_init_in_progress c"
  "lc_init_in_progress (remove_token i c) = lc_init_in_progress c"
  "lc_init_in_progress (add_token i c) = lc_init_in_progress c"
  "lc_catalog (set_base_url slot u c) = lc_catalog c" "lc_catalog (register_tokens c) = lc_catalog c"
  "lc_apis (register_tokens c) = lc_apis c" "lc_apis (remove_token i c) = lc_apis c" "lc_apis (add_token i c) = lc_apis c"
  "lc_apis (set_base_url slot u c) slot' =
     (if slot' = slot then map_option (base_url_update (\<lambda>_. u)) (lc_apis c slot) else lc_apis c slot')"
  by (simp_all add: set_base_url_def register_tokens_def remove_token_def add_token_def)

lemma create_api_clients_simps [simp]:
  "lc_tokens (create_api_clients env slots c) = lc_tokens c" "lc_unregistered (create_api_clients env slots c) = lc_unregistered c"
  "lc_init_in_progress (create_api_clients env slots c)" "lc_catalog (create_api_clients env slots c) = lc_catalog c"
  "lc_apis (create_api_clients env slots c) slot = (if slot \<in> slots then Some (client_of [] (we_settings env)) else lc_apis c slot)"
  by (simp_all add: create_api_clients_def)

lemma client_of_base_url [simp]: "(client_of u settings)\<lparr>base_url := v\<rparr> = client_of v settings" "base_url (client_of u settings) = u"
  by (simp_all add: client_of_def)

lemma lookup_answered:
  assumes "w_datastore_server_url (partition_of (lc_catalog c)) = url" "url \<noteq> []" "lc_apis c slot = Some client" "serv \<noteq> ''config''"
    and "w_resources_get_apis_async (we_json env) (we_call_async env) (client\<lparr>base_url := url\<rparr>)
      (to_catalog_hrn_string (lc_catalog c)) serv ver n = Some (a, n1)"
  shows "lookup_api_async env slot serv ver (c, n) = Some (a, register_tokens (set_base_url slot url c), n1)"
  using assms by (simp add: lookup_api_async_def Let_def ask_api_def ask_def on_network_def)

lemma init_chain_cancelled:
  "lookup_api_async env slot serv ver (c, n) = Some (Inr (a # as), c', n') \<Longrightarrow> rest \<noteq> [] \<Longrightarrow> we_cancelled env n' \<Longrightarrow>
   init_chain env ((slot, serv, ver) # rest) (c, n) = Some (Inl operation_cancelled, set_base_url slot (w_api_base_url a) c', n')"
  by (simp add: Let_def)

lemma get_base_version_in_progress:
  "lc_init_in_progress c \<Longrightarrow> \<not> we_cancelled env n \<Longrightarrow> versioned_get_base_version env (c, n) = None"
  by (simp add: versioned_get_base_version_def client_operation_def Let_def removing_def with_apis_def if_not_cancelled_def
      on_success_def versioned_init_api_clients_def init_api_clients_def)

lemma complete_batch_in_progress:
  "lc_init_in_progress c \<Longrightarrow> \<not> we_cancelled env n \<Longrightarrow> publication_id pub = Some (x # xs) \<Longrightarrow>
   versioned_complete_batch env pub (c, n) = None"
  by (simp add: versioned_complete_batch_def on_publication_def client_operation_def Let_def removing_def with_apis_def
      if_not_cancelled_def on_success_def versioned_init_api_clients_def init_api_clients_def)


text \<open>
  After an initialisation that failed, the client of the service that is looked up last has no address, or the one of
  the lookup server.
\<close>

lemma lookup_api_async_base_url:
  "lookup_api_async env slot serv ver (c, n) = Some (a, c', n') \<Longrightarrow>
   lc_catalog c' = lc_catalog c \<and> lc_init_in_progress c' = lc_init_in_progress c \<and>
   (\<forall>i. i \<noteq> slot \<longrightarrow> lc_apis c' i = lc_apis c i) \<and>
   (\<forall>client. lc_apis c' slot = Some client \<longrightarrow>
      lc_apis c slot = Some client \<or> base_url client = w_datastore_server_url (partition_of (lc_catalog c)))"
  by (auto simp: lookup_api_async_def Let_def ask_api_def ask_def on_network_def
      split: if_split_asm option.split_asm Option.bind_split_asm)

lemma init_chain_failed_base_url:
  assumes "init_chain env lookups (c, n) = Some (Inl e, c', n')" and "lc_apis c' final = Some client"
    and "final \<notin> fst ` set (butlast lookups)" and "\<And>client. lc_apis c final = Some client \<Longrightarrow> base_url client = []"
  shows "base_url client = [] \<or> base_url client = w_datastore_server_url (partition_of (lc_catalog c))"
  using assms
proof (induction lookups arbitrary: c n)
  case (Cons l ls)
  obtain slot serv ver where l: "l = (slot, serv, ver)" by (cases l)
  obtain a c1 n1 where look: "lookup_api_async env slot serv ver (c, n) = Some (a, c1, n1)"
    using Cons.prems(1) l by (auto split: Option.bind_split_asm)
  have base: "lc_catalog c1 = lc_catalog c" "\<And>i. i \<noteq> slot \<Longrightarrow> lc_apis c1 i = lc_apis c i"
      "\<And>client. lc_apis c1 slot = Some client \<Longrightarrow>
        lc_apis c slot = Some client \<or> base_url client = w_datastore_server_url (partition_of (lc_catalog c))"
    using lookup_api_async_base_url [OF look] by blast+
  show ?case
  proof (cases a)
    case (Inl e')
    then have "c' = c1\<lparr>lc_init_in_progress := False\<rparr>" using Cons.prems(1) l look by simp
    then have "lc_apis c1 final = Some client" using Cons.prems(2) by simp
    then have "lc_apis c final = Some client \<or> base_url client = w_datastore_server_url (partition_of (lc_catalog c))"
      using base(2) [of final] base(3) by (cases "final = slot") auto
    then show ?thesis using Cons.prems(4) by blast
  next
    case (Inr as)
    then obtain b bs where as: "as = b # bs" using Cons.prems(1) l look by (cases as) auto
    let ?c2 = "set_base_url slot (w_api_base_url b) c1"
    have rest: "ls \<noteq> []" using Cons.prems(1) l look Inr as by (cases ls) (auto simp: Let_def)
    then have final: "final \<noteq> slot" "final \<notin> fst ` set (butlast ls)" using Cons.prems(3) l by auto
    have c2: "lc_apis ?c2 final = lc_apis c final" using base(2) [OF final(1)] final(1) by simp
    show ?thesis
    proof (cases "we_cancelled env n1")
      case True
      then have "c' = ?c2" using Cons.prems(1) l look Inr as rest by (simp add: Let_def)
      then show ?thesis using Cons.prems(2,4) c2 by simp
    next
      case False
      then have "init_chain env ls (?c2, n1) = Some (Inl e, c', n')" using Cons.prems(1) l look Inr as by (simp add: Let_def)
      from Cons.IH [OF this Cons.prems(2) final(2)] have
        "base_url client = [] \<or> base_url client = w_datastore_server_url (partition_of (lc_catalog ?c2))"
        unfolding c2 using Cons.prems(4) by blast
      then show ?thesis by (simp add: base(1))
    qed
  qed
qed simp

text \<open>
  when the lookup of the last service fails, its client keeps the address of the lookup server; it counts as
  initialised from then on, and the requests of the service go to the lookup server.
\<close>
theorem failed_lookup_leaves_lookup_server:
  assumes "versioned_init_api_clients env (c, n) = Some (Inl e, c', n')" and "lc_apis c ApiPublish = None"
    and "\<not> lc_init_in_progress c'" and "lc_apis c' ApiPublish = Some client" and "base_url client \<noteq> []"
  shows "base_url client = w_datastore_server_url (partition_of (lc_catalog c)) \<and>
    (\<forall>n2. versioned_init_api_clients env (c', n2) = Some (Inr (), c', n2))"
proof -
  let ?c1 = "create_api_clients env {ApiBlob, ApiConfig, ApiMetadata, ApiPublish, ApiQuery} c"
  let ?lookups = "[(ApiMetadata, ''metadata'', ''v1''), (ApiConfig, ''config'', ''v1''), (ApiBlob, ''blob'', ''v1''),
        (ApiPublish, ''publish'', ''v2'')]"
  have "init_chain env ?lookups (?c1, n) = Some (Inl e, c', n')"
    using assms(1,2) unfolding versioned_init_api_clients_def init_api_clients_def
    by (simp add: Let_def del: init_chain.simps split: if_split_asm)
  from init_chain_failed_base_url [OF this assms(4)] assms(5)
  show ?thesis using assms(3,4,5)
    by (simp add: versioned_init_api_clients_def init_api_clients_def)
qed

section \<open>Index layers\<close>

text \<open>
  an update of an index is reported as done when the network fails: being offline, a timeout and the other
  errors of the network are negative, and only a status above 201 is an error.
\<close>
theorem failed_index_update_counts_as_done:
  assumes "\<not> lc_init_in_progress c" and "lc_apis c ApiIndex = Some client" and "base_url client \<noteq> []" and "\<not> we_cancelled env n"
    and "update_index_request_to_json request (JObject []) = Some doc"
    and "we_call_async env client (''/layers/'' @ uir_layer_id request) ''PUT'' [] [(''Accept'', ''application/json'')]
        (Some (json_text (we_json env) doc)) ''application/json'' n = (response, n')"
    and "resp_status response < 0"
  shows "\<exists>c'. index_update_index env request (c, n) = Some (Inr (), c', n')"
  using assms
  by (simp add: index_update_index_def client_operation_def Let_def removing_def with_apis_def if_not_cancelled_def on_success_def
      index_init_api_clients_def init_api_clients_def ask_api_def ask_def on_network_def register_tokens_def perform_update_def
      no_result_def mm_optional_def)

text \<open>An index with metadata is never written: an assertion of RapidJSON fails.\<close>

lemma index_with_metadata_aborts: "index_metadata x = Some (m # ms) \<Longrightarrow> index_to_json x = None"
  by (cases m) (auto simp: index_to_json_def index_object_def add_member_def bind_eq_None_conv split: Option.bind_splits)

section \<open>Tokens\<close>

lemma add_remove_task:
  assumes "\<And>t. t \<in> set l \<Longrightarrow> fst t < i"
  shows "add_task i u l = l @ [(i, u)]" and "remove_task i (l @ [(i, u)]) = l" and "remove_task i l = l"
proof -
  have less: "fst t < i" "\<not> i < fst t" if "t \<in> set l" for t using assms [OF that] by simp_all
  show "add_task i u l = l @ [(i, u)]" using less by (simp add: add_task_def takeWhile_eq_all_conv [THEN iffD2] dropWhile_eq_Nil_conv [THEN iffD2])
  show "remove_task i (l @ [(i, u)]) = l" "remove_task i l = l"
    using less by (simp_all add: remove_task_def takeWhile_append dropWhile_append dropWhile_eq_Nil_conv [THEN iffD2])
qed

text \<open>
  a token is removed when its operation has ended, if a request was sent; an operation that ends before it
  sends one, as with a resource name of an unknown realm, adds its token afterwards, and it stays.
\<close>
theorem base_version_token:
  assumes "\<And>t. t \<in> set (lc_tokens c) \<Longrightarrow> fst t < lc_next_id c" and "lc_unregistered c = []" and "\<not> lc_init_in_progress c"
    and "\<not> we_cancelled env n"
  shows "(lc_apis c ApiPublish = Some client \<and> base_url client \<noteq> [] \<and>
      versioned_get_base_version env (c, n) = Some (a, c', n') \<longrightarrow> lc_tokens c' = lc_tokens c) \<and>
    (lc_apis c ApiPublish = None \<and> w_datastore_server_url (partition_of (lc_catalog c)) = [] \<longrightarrow>
      (\<exists>c'. versioned_get_base_version env (c, n) = Some (Inl invalid_hrn, c', n) \<and>
         lc_tokens c' = lc_tokens c @ [(lc_next_id c, ())]))"
proof (intro conjI impI)
  assume h: "lc_apis c ApiPublish = Some client \<and> base_url client \<noteq> [] \<and>
      versioned_get_base_version env (c, n) = Some (a, c', n')"
  then show "lc_tokens c' = lc_tokens c"
    using assms add_remove_task [OF assms(1)]
    by (auto simp: versioned_get_base_version_def client_operation_def Let_def removing_def with_apis_def if_not_cancelled_def
        on_success_def versioned_init_api_clients_def init_api_clients_def ask_base_version_def ask_api_def ask_def on_network_def
        register_tokens_def remove_token_def add_token_def split: Option.bind_split_asm option.split_asm sum.split_asm if_split_asm)
next
  assume h: "lc_apis c ApiPublish = None \<and> w_datastore_server_url (partition_of (lc_catalog c)) = []"
  then show "\<exists>c'. versioned_get_base_version env (c, n) = Some (Inl invalid_hrn, c', n) \<and>
         lc_tokens c' = lc_tokens c @ [(lc_next_id c, ())]"
    using assms add_remove_task [OF assms(1)]
    by (simp add: versioned_get_base_version_def client_operation_def Let_def removing_def with_apis_def if_not_cancelled_def
        on_success_def versioned_init_api_clients_def init_api_clients_def lookup_api_async_def remove_token_def add_token_def)
qed

text \<open>
  as long as cancelling a token adds no task, \<open>CancelAll\<close> ends, and leaves no task.
\<close>
theorem cancel_all_tasks_empties:
  assumes "\<And>t l. set (cancel t l) \<subseteq> set l"
  shows "cancel_all_tasks cancel l = Some []"
proof -
  have "set (cancel_task_id cancel i l) \<subseteq> set l" for i l
    using assms by (auto simp: cancel_task_id_def split: list.splits)
  then have "set (fold (cancel_task_id cancel) ids l) \<subseteq> set l" for ids l
    by (induction ids arbitrary: l) (simp, fastforce)
  then have "filter (\<lambda>t. fst t \<notin> set (get_task_id_list l)) (fold (cancel_task_id cancel) (get_task_id_list l) l) = []"
    by (force simp: filter_empty_conv get_task_id_list_def)
  then show ?thesis
    by (simp add: cancel_all_tasks.simps [of cancel l] cancel_all_tasks.simps [of cancel "[]"] Let_def) (simp add: get_task_id_list_def)
qed

section \<open>Witnesses\<close>

text \<open>
  The platform answers every lookup with one address and the catalog with one layer; the other requests are
  accepted. \<open>fails\<close> gives the status of some requests, by their number.
\<close>

definition batch_json :: json_lib where
  "batch_json = \<lparr>json_text = (\<lambda>_. ''J''),
     json_parse = (\<lambda>t. if t = ''A'' then Some (JArray [JObject [(''baseURL'', JString ''n'')]])
       else if t = ''C'' then Some (JObject [(''id'', JString ''c''),
         (''layers'', JArray [JObject [(''id'', JString ''l''), (''contentType'', JString ''t'')]])])
       else None)\<rparr>"

definition batch_call :: "(nat \<Rightarrow> int option) \<Rightarrow> nat api_call" where
  "batch_call fails client path verb query headers body content n =
     ((case fails n of
         Some status \<Rightarrow> \<lparr>resp_status = status, resp_body = []\<rparr>
       | None \<Rightarrow>
           if take 3 path = ''/re'' \<or> take 3 path = ''/pl'' then \<lparr>resp_status = 200, resp_body = ''A''\<rparr>
           else if take 2 path = ''/c'' then \<lparr>resp_status = 200, resp_body = ''C''\<rparr>
           else \<lparr>resp_status = 204, resp_body = []\<rparr>), n + 1)"

definition batch_env :: "(nat \<Rightarrow> int option) \<Rightarrow> (nat \<Rightarrow> bool) \<Rightarrow> (unit, nat) write_env" where
  "batch_env fails stop = \<lparr>we_json = batch_json, we_cache = None, we_call = batch_call fails, we_call_async = batch_call fails,
     we_settings = \<lparr>retry_settings_of = default_retry_settings, proxy_settings_of = None, authentication_of = None\<rparr>,
     we_cancelled = stop, we_uuid = (\<lambda>n. (''u'', n))\<rparr>"

definition batch_client :: "string \<Rightarrow> layer_client" where
  "batch_client realm = layer_client_new (hrn_of_string (''hrn:'' @ realm @ '':data::o:c''))"

definition batch_request :: publish_partition_data_request where
  "batch_request = \<lparr>ppr_data = Some ''D'', ppr_layer_id = ''l'', ppr_partition_id = Some ''p'', ppr_billing_tag = None, ppr_checksum = None\<rparr>"

definition batch :: publication where
  "batch = empty_publication\<lparr>publication_id := Some ''b''\<rparr>"

definition batch_run :: "(response_ok_single, nat \<times> sent_request list) client_result" where
  "batch_run = versioned_publish_to_batch (observed (batch_env (\<lambda>_. None) (\<lambda>_. False))) batch batch_request (batch_client ''here'', 0, [])"

lemma batch_run_succeeds: "map_option fst batch_run = Some (Inr \<lparr>single_trace_id = ''p''\<rparr>)"
  by code_simp


lemma batch_catalog: "lc_catalog (batch_client realm) = hrn_of_string (''hrn:'' @ realm @ '':data::o:c'')"
  and batch_new: "\<not> lc_init_in_progress (batch_client realm)" "lc_apis (batch_client realm) slot = None"
    "lc_tokens (batch_client realm) = []" "lc_unregistered (batch_client realm) = []"
  by (simp_all add: batch_client_def layer_client_new_def)

lemma batch_realms:
  "w_datastore_server_url (partition_of (hrn_of_string ''hrn:here:data::o:c'')) =
     ''https://api-lookup.data.api.platform.here.com/lookup/v1''"
  "w_datastore_server_url (partition_of (hrn_of_string ''hrn:mars:data::o:c'')) = []"
  by code_simp+

lemma batch_lookup:
  "w_resources_get_apis_async (we_json (batch_env (\<lambda>_. None) stop)) (we_call_async (batch_env (\<lambda>_. None) stop)) client h serv ver n =
     Some (Inr [empty_w_api\<lparr>w_api_base_url := ''n''\<rparr>], n + 1)"
  by (simp add: w_resources_get_apis_async_def w_resources_get_apis_def batch_env_def batch_call_def batch_json_def api_answer_def
      read_json_def parse_document_def vector_from_json_def w_api_from_json_def parse_def string_from_json_def empty_w_api_def)
    (simp add: c_str_def)


definition failed_init :: "(unit, nat) client_result" where
  "failed_init = versioned_init_api_clients (batch_env (\<lambda>n. if n = 3 then Some 503 else None) (\<lambda>_. False)) (batch_client ''here'', 0)"

lemma failed_init_fails:
  "map_option (\<lambda>(a, c, n). (a, lc_init_in_progress c, map_option base_url (lc_apis c ApiPublish))) failed_init =
     Some (Inl (api_error_of_status 503 []), False, Some ''https://api-lookup.data.api.platform.here.com/lookup/v1'')"
  by code_simp

theorem failed_lookup_leaves_lookup_server_witness:
  "\<exists>c' n'. failed_init = Some (Inl (api_error_of_status 503 []), c', n') \<and>
     versioned_init_api_clients (batch_env (\<lambda>n. if n = 3 then Some 503 else None) (\<lambda>_. False)) (c', 7) = Some (Inr (), c', 7)"
proof -
  obtain c' n' client where run: "failed_init = Some (Inl (api_error_of_status 503 []), c', n')" "\<not> lc_init_in_progress c'"
      "lc_apis c' ApiPublish = Some client" "base_url client \<noteq> []"
    using failed_init_fails by (cases failed_init) auto
  from failed_lookup_leaves_lookup_server [OF run(1) [unfolded failed_init_def] batch_new(2) run(2-4)] run(1)
  show ?thesis by blast
qed

definition ready_client :: layer_client where
  "ready_client = (batch_client ''here'')\<lparr>lc_apis := (\<lambda>_. Some (client_of ''n''
     \<lparr>retry_settings_of = default_retry_settings, proxy_settings_of = None, authentication_of = None\<rparr>))\<rparr>"

definition empty_update :: update_index_request where
  "empty_update = \<lparr>uir_layer_id = ''l'', uir_billing_tag = None, uir_checksum = None, uir_index_additions = [], uir_index_removals = [''i'']\<rparr>"

theorem failed_index_update_counts_as_done_witness:
  "\<exists>c'. index_update_index (batch_env (\<lambda>_. Some (http_error_value OFFLINE_ERROR)) (\<lambda>_. False)) empty_update (ready_client, 0) =
     Some (Inr (), c', 1)"
  by (rule failed_index_update_counts_as_done [where client = "client_of ''n''
        \<lparr>retry_settings_of = default_retry_settings, proxy_settings_of = None, authentication_of = None\<rparr>" and
        doc = "JObject [(''additions'', JArray []), (''removals'', JArray [string_ref ''i''])]" and
        response = "\<lparr>resp_status = http_error_value OFFLINE_ERROR, resp_body = []\<rparr>"])
    (simp_all add: ready_client_def batch_new empty_update_def batch_env_def batch_call_def update_index_request_to_json_def
      add_member_def vector_to_json_def client_of_def)

theorem base_version_token_witness:
  "\<exists>c'. versioned_get_base_version (batch_env (\<lambda>_. None) (\<lambda>_. False)) (batch_client ''mars'', 0) = Some (Inl invalid_hrn, c', 0) \<and>
     lc_tokens c' = [(lc_next_id (batch_client ''mars''), ())]"
  using base_version_token [of "batch_client ''mars''" "batch_env (\<lambda>_. None) (\<lambda>_. False)" 0]
  by (simp add: batch_new batch_catalog batch_realms batch_env_def)

lemma set_remove_task: "set (remove_task i l) \<subseteq> set l"
proof -
  have "set ts \<subseteq> set l" if "dropWhile (\<lambda>t. fst t < i) l = t # ts" for t ts
    using set_dropWhileD [of _ "\<lambda>t. fst t < i" l] that by auto
  then show ?thesis by (auto simp: remove_task_def split: list.splits dest: set_takeWhileD)
qed

theorem cancel_all_tasks_empties_witness:
  "cancel_all_tasks (\<lambda>_. remove_task 4) [(3, ''x''), (4, ''y'')] = Some []"
  by (rule cancel_all_tasks_empties) (rule set_remove_task)

end
