(* ===== verification/AutoFlush.thy ===== *)
theory AutoFlush
  imports TaskContext
begin

text \<open>
  Automatic flushing of the stream layer client: \<open>src/AutoFlushController.cpp\<close>, \<open>BackgroundTaskCollection.cpp\<close>,
  \<open>DefaultFlushEventListener.h\<close>, \<open>FlushMetrics.h\<close>, \<open>AutoFlushSettings.h\<close> and, beside it, \<open>TimeUtils.cpp\<close>.

  The enabled controller is a state machine: every flush has a thread of its own, and the flush calls back while
  or after it is called. A step is what a thread does under one lock.
\<close>

section \<open>Background tasks\<close>

text \<open>The counter is static; a wait ends when there are no tasks.\<close>

record background_task_collection =
  next_task_id :: nat
  background_tasks_ids :: "nat list"

definition background_add_task :: "background_task_collection \<Rightarrow> nat \<times> background_task_collection" where
  "background_add_task b =
     (next_task_id b, b\<lparr>next_task_id := next_task_id b + 1, background_tasks_ids := background_tasks_ids b @ [next_task_id b]\<rparr>)"

definition background_release_task :: "nat \<Rightarrow> background_task_collection \<Rightarrow> background_task_collection" where
  "background_release_task i b = b\<lparr>background_tasks_ids := filter (\<lambda>taskId. taskId \<noteq> i) (background_tasks_ids b)\<rparr>"

definition background_size :: "background_task_collection \<Rightarrow> nat" where
  "background_size b = length (background_tasks_ids b)"

definition background_wait_ends :: "background_task_collection \<Rightarrow> bool" where
  "background_wait_ends b \<longleftrightarrow> background_tasks_ids b = []"

section \<open>The listener\<close>

type_synonym size_t = "64 word"

record flush_metrics =
  num_attempted_flush_events :: size_t
  num_failed_flush_events :: size_t
  num_total_flush_events :: size_t
  num_total_flushed_requests :: size_t
  num_failed_flushed_requests :: size_t

text \<open>
  The number of failed requests of a flush is a \<open>thread_local\<close> variable: it is initialised when a thread comes to
  it first, and kept for all listeners. \<open>counted\<close> are the variables of the threads.
\<close>

record ('t) flush_listener =
  listener_metrics :: flush_metrics
  counted :: "'t \<Rightarrow> size_t option"

definition notify_flush_event_started :: "'t flush_listener \<Rightarrow> 't flush_listener" where
  "notify_flush_event_started l =
     l\<lparr>listener_metrics := (listener_metrics l)\<lparr>num_attempted_flush_events := num_attempted_flush_events (listener_metrics l) + 1\<rparr>\<rparr>"

definition failed_results :: "'r api_response list \<Rightarrow> size_t" where
  "failed_results results = word_of_nat (length (filter (\<lambda>r. \<not> is_successful r) results))"

definition collate_flush_event_results :: "'t \<Rightarrow> 'r api_response list \<Rightarrow> 't flush_listener \<Rightarrow> bool \<times> 't flush_listener" where
  "collate_flush_event_results thread results l =
     (let flush_requests_failed = (case counted l thread of Some k \<Rightarrow> k | None \<Rightarrow> failed_results results);
          m = listener_metrics l;
          m = m\<lparr>num_total_flushed_requests := num_total_flushed_requests m + word_of_nat (length results)\<rparr>;
          m = m\<lparr>num_failed_flushed_requests := num_failed_flushed_requests m + flush_requests_failed\<rparr>
      in (0 < flush_requests_failed,
          l\<lparr>listener_metrics := m, counted := (counted l)(thread \<mapsto> flush_requests_failed)\<rparr>))"

definition notify_flush_event_results :: "'t \<Rightarrow> 'r api_response list \<Rightarrow> 't flush_listener \<Rightarrow> 't flush_listener" where
  "notify_flush_event_results thread results l =
     (let l = l\<lparr>listener_metrics := (listener_metrics l)\<lparr>num_total_flush_events := num_total_flush_events (listener_metrics l) + 1\<rparr>\<rparr>;
          (failed, l) = (if results = [] then (True, l) else collate_flush_event_results thread results l)
      in if failed
         then l\<lparr>listener_metrics := (listener_metrics l)\<lparr>num_failed_flush_events := num_failed_flush_events (listener_metrics l) + 1\<rparr>\<rparr>
         else l)"

text \<open>
  a thread that has reported a flush before counts, for every later flush, the failed requests of the first
  one: a flush without failures is counted as failed after one with some, and one with failures as successful after
  one without.
\<close>
theorem later_flushes_count_first_failures:
  fixes first later :: "'r api_response list"
  assumes "counted l thread = None" and "first \<noteq> []" and "later \<noteq> []"
  shows "listener_metrics (notify_flush_event_results thread later (notify_flush_event_results thread first l)) =
    (let m = listener_metrics l
     in m\<lparr>num_total_flush_events := num_total_flush_events m + 2,
       num_total_flushed_requests := num_total_flushed_requests m + word_of_nat (length first) + word_of_nat (length later),
       num_failed_flushed_requests := num_failed_flushed_requests m + 2 * failed_results first,
       num_failed_flush_events := num_failed_flush_events m + (if 0 < failed_results first then 2 else 0)\<rparr>)"
  using assms by (simp add: notify_flush_event_results_def collate_flush_event_results_def Let_def)

definition idle_listener :: "nat flush_listener" where
  "idle_listener = \<lparr>listener_metrics = \<lparr>num_attempted_flush_events = 0, num_failed_flush_events = 0,
     num_total_flush_events = 0, num_total_flushed_requests = 0, num_failed_flushed_requests = 0\<rparr>, counted = \<lambda>_. None\<rparr>"

lemma later_flushes_count_first_failures_witness:
  "num_failed_flush_events (listener_metrics
     (notify_flush_event_results 0 [Inr True] (notify_flush_event_results 0 [Inl default_error :: bool api_response] idle_listener))) = 2"
proof -
  have "counted idle_listener 0 = None" by (simp add: idle_listener_def)
  then show ?thesis
    using later_flushes_count_first_failures [of idle_listener 0 "[Inl default_error :: bool api_response]" "[Inr True]"]
    by (simp add: idle_listener_def Let_def failed_results_def is_successful_def)
qed

section \<open>The controller\<close>

record auto_flush_settings =
  auto_flush_num_events :: "32 word"
  auto_flush_interval :: "32 word"
  events_per_single_flush :: "32 word"

definition default_auto_flush_settings :: auto_flush_settings where
  "default_auto_flush_settings = \<lparr>auto_flush_num_events = 20, auto_flush_interval = 0, events_per_single_flush = 0\<rparr>"

text \<open>The size, a \<open>size_t\<close>, is compared with an \<open>int\<close>, which is converted to \<open>size_t\<close>. The queue may be gone.\<close>

definition is_auto_flush_num_events_required :: "auto_flush_settings \<Rightarrow> size_t option \<Rightarrow> bool" where
  "is_auto_flush_num_events_required settings queue =
     (case queue of Some queue_size \<Rightarrow> scast (auto_flush_num_events settings) \<le> queue_size | None \<Rightarrow> False)"

text \<open>
  A flush thread adds its task, calls \<open>Flush\<close>, which returns the token, and adds the token. The callback of the
  flush releases the task, removes the token and passes on the results; it may run before \<open>Flush\<close> has returned.
\<close>

datatype flush_caller = Spawned | TaskAdded | FlushCalled | FlushReturned | TokenAdded

datatype flush_callback = NotCalled | TaskReleased | TokenRemoved | Reported

record flush_thread =
  flush_id :: nat
  caller :: flush_caller
  callback :: flush_callback

text \<open>
  \<open>cancel_token_map\<close> has for an id the thread whose flush the token cancels, \<open>cancelled_flushes\<close> are the flushes
  whose tokens \<open>Cancel\<close> has used, and \<open>interval_threads\<close> the number of sleeping interval threads.
\<close>

record controller =
  controller_settings :: auto_flush_settings
  background_task_col :: background_task_collection
  cancel_token_map :: "nat \<rightharpoonup> nat"
  controller_cancelled :: bool
  flush_threads :: "flush_thread list"
  interval_threads :: nat
  cancelled_flushes :: "nat set"
  started_events :: nat
  reported_events :: nat

definition controller_new :: "auto_flush_settings \<Rightarrow> nat \<Rightarrow> controller" where
  "controller_new settings i = \<lparr>controller_settings = settings,
     background_task_col = \<lparr>next_task_id = i, background_tasks_ids = []\<rparr>, cancel_token_map = (\<lambda>_. None),
     controller_cancelled = False, flush_threads = [], interval_threads = 0, cancelled_flushes = {},
     started_events = 0, reported_events = 0\<rparr>"

definition add_cancel_token :: "nat \<Rightarrow> nat \<Rightarrow> controller \<Rightarrow> controller" where
  "add_cancel_token i token c =
     c\<lparr>cancel_token_map := (if cancel_token_map c i = None then (cancel_token_map c)(i \<mapsto> token) else cancel_token_map c)\<rparr>"

definition remove_cancel_token :: "nat \<Rightarrow> controller \<Rightarrow> controller" where
  "remove_cancel_token i c = c\<lparr>cancel_token_map := (cancel_token_map c)(i := None)\<rparr>"

definition add_background_flush_task :: "size_t option \<Rightarrow> controller \<Rightarrow> bool \<times> controller" where
  "add_background_flush_task queue c =
     (if queue = None then (False, c)
      else (True, c\<lparr>started_events := started_events c + 1,
        flush_threads := flush_threads c @ [\<lparr>flush_id = 0, caller = Spawned, callback = NotCalled\<rparr>]\<rparr>))"

definition auto_flush_num_events_step :: "size_t option \<Rightarrow> controller \<Rightarrow> controller" where
  "auto_flush_num_events_step queue c =
     (if is_auto_flush_num_events_required (controller_settings c) queue
      then snd (add_background_flush_task queue c) else c)"

definition trigger_auto_flush_interval :: "controller \<Rightarrow> controller" where
  "trigger_auto_flush_interval c = c\<lparr>interval_threads := interval_threads c + 1\<rparr>"

definition controller_enable :: "size_t option \<Rightarrow> controller \<Rightarrow> controller" where
  "controller_enable queue c =
     auto_flush_num_events_step queue
       (if 0 <s auto_flush_interval (controller_settings c) then trigger_auto_flush_interval c else c)"

definition controller_cancel :: "controller \<Rightarrow> controller" where
  "controller_cancel c =
     c\<lparr>cancelled_flushes := cancelled_flushes c \<union> ran (cancel_token_map c), controller_cancelled := True\<rparr>"

text \<open>An interval thread wakes up.\<close>

definition interval_elapsed :: "size_t option \<Rightarrow> controller \<Rightarrow> controller option" where
  "interval_elapsed queue c =
     (if interval_threads c = 0 then None
      else (let c = c\<lparr>interval_threads := interval_threads c - 1\<rparr>
            in if controller_cancelled c then Some c
               else (case add_background_flush_task queue c of
                   (True, c) \<Rightarrow> Some (trigger_auto_flush_interval c)
                 | (False, c) \<Rightarrow> Some c)))"

definition update_flush_thread :: "nat \<Rightarrow> (flush_thread \<Rightarrow> flush_thread) \<Rightarrow> controller \<Rightarrow> controller" where
  "update_flush_thread k f c = c\<lparr>flush_threads := (flush_threads c)[k := f (flush_threads c ! k)]\<rparr>"

text \<open>The next step of a flush thread.\<close>

definition caller_step :: "nat \<Rightarrow> controller \<Rightarrow> controller option" where
  "caller_step k c =
     (if length (flush_threads c) \<le> k then None
      else (let t = flush_threads c ! k
            in case caller t of
                Spawned \<Rightarrow>
                  (let (i, b) = background_add_task (background_task_col c)
                   in Some (update_flush_thread k (\<lambda>t. t\<lparr>flush_id := i, caller := TaskAdded\<rparr>) (c\<lparr>background_task_col := b\<rparr>)))
              | TaskAdded \<Rightarrow> Some (update_flush_thread k (\<lambda>t. t\<lparr>caller := FlushCalled\<rparr>) c)
              | FlushCalled \<Rightarrow> Some (update_flush_thread k (\<lambda>t. t\<lparr>caller := FlushReturned\<rparr>) c)
              | FlushReturned \<Rightarrow> Some (update_flush_thread k (\<lambda>t. t\<lparr>caller := TokenAdded\<rparr>) (add_cancel_token (flush_id t) k c))
              | TokenAdded \<Rightarrow> None))"

text \<open>The next step of the callback, which needs that \<open>Flush\<close> was called.\<close>

definition callback_step :: "nat \<Rightarrow> controller \<Rightarrow> controller option" where
  "callback_step k c =
     (if length (flush_threads c) \<le> k then None
      else (let t = flush_threads c ! k
            in if caller t \<in> {Spawned, TaskAdded} then None
               else (case callback t of
                   NotCalled \<Rightarrow>
                     Some (update_flush_thread k (\<lambda>t. t\<lparr>callback := TaskReleased\<rparr>)
                       (c\<lparr>background_task_col := background_release_task (flush_id t) (background_task_col c)\<rparr>))
                 | TaskReleased \<Rightarrow>
                     Some (update_flush_thread k (\<lambda>t. t\<lparr>callback := TokenRemoved\<rparr>) (remove_cancel_token (flush_id t) c))
                 | TokenRemoved \<Rightarrow>
                     Some (update_flush_thread k (\<lambda>t. t\<lparr>callback := Reported\<rparr>) (c\<lparr>reported_events := reported_events c + 1\<rparr>))
                 | Reported \<Rightarrow> None)))"

datatype controller_event =
    Enable "size_t option"
  | QueueEventComplete "size_t option"
  | IntervalElapsed "size_t option"
  | CallerStep nat
  | CallbackStep nat
  | Cancel

fun controller_step :: "controller_event \<Rightarrow> controller \<Rightarrow> controller option" where
  "controller_step (Enable queue) c = Some (controller_enable queue c)"
| "controller_step (QueueEventComplete queue) c = Some (auto_flush_num_events_step queue c)"
| "controller_step (IntervalElapsed queue) c = interval_elapsed queue c"
| "controller_step (CallerStep k) c = caller_step k c"
| "controller_step (CallbackStep k) c = callback_step k c"
| "controller_step Cancel c = Some (controller_cancel c)"

fun controller_run :: "controller_event list \<Rightarrow> controller \<Rightarrow> controller option" where
  "controller_run [] c = Some c"
| "controller_run (e # es) c = (case controller_step e c of Some c \<Rightarrow> controller_run es c | None \<Rightarrow> None)"

text \<open>\<open>Disable\<close> cancels, and its future is ready when there are no background tasks.\<close>

definition disable_ends :: "controller \<Rightarrow> bool" where
  "disable_ends c \<longleftrightarrow> controller_cancelled c \<and> background_wait_ends (background_task_col c)"

text \<open>\<open>AutoFlushController\<close>: an implementation that does nothing, or the enabled one.\<close>

record auto_flush_controller =
  flush_settings :: auto_flush_settings
  impl :: "controller option"

definition auto_flush_controller_new :: "auto_flush_settings \<Rightarrow> auto_flush_controller" where
  "auto_flush_controller_new settings = \<lparr>flush_settings = settings, impl = None\<rparr>"

definition auto_flush_enable :: "nat \<Rightarrow> size_t option \<Rightarrow> auto_flush_controller \<Rightarrow> auto_flush_controller" where
  "auto_flush_enable i queue a =
     (if impl a \<noteq> None then a else a\<lparr>impl := Some (controller_enable queue (controller_new (flush_settings a) i))\<rparr>)"

definition auto_flush_disable :: "auto_flush_controller \<Rightarrow> controller option \<times> auto_flush_controller" where
  "auto_flush_disable a = (map_option controller_cancel (impl a), a\<lparr>impl := None\<rparr>)"

definition notify_queue_event_complete :: "size_t option \<Rightarrow> auto_flush_controller \<Rightarrow> auto_flush_controller" where
  "notify_queue_event_complete queue a = a\<lparr>impl := map_option (auto_flush_num_events_step queue) (impl a)\<rparr>"

section \<open>What the controller keeps\<close>

text \<open>A flush was called for and its task is not released.\<close>

definition in_background :: "flush_thread \<Rightarrow> bool" where
  "in_background t \<longleftrightarrow> caller t \<noteq> Spawned \<and> callback t = NotCalled"

text \<open>
  The ids of the threads are distinct and older than the counter; the tasks in the background are those of the
  flushes not reported; a token belongs to a thread that has added it; the flush thread of a callback has called
  \<open>Flush\<close>.
\<close>

definition threads_ok :: "flush_thread list \<Rightarrow> background_task_collection \<Rightarrow> (nat \<rightharpoonup> nat) \<Rightarrow> bool" where
  "threads_ok ts b m \<longleftrightarrow>
     (\<forall>k < length ts. caller (ts ! k) \<noteq> Spawned \<longrightarrow> flush_id (ts ! k) < next_task_id b) \<and>
     (\<forall>k < length ts. caller (ts ! k) \<in> {Spawned, TaskAdded} \<longrightarrow> callback (ts ! k) = NotCalled) \<and>
     (\<forall>k < length ts. \<forall>l < length ts. caller (ts ! k) \<noteq> Spawned \<and> caller (ts ! l) \<noteq> Spawned \<and>
        flush_id (ts ! k) = flush_id (ts ! l) \<longrightarrow> k = l) \<and>
     (\<forall>i. i \<in> set (background_tasks_ids b) \<longleftrightarrow> (\<exists>k < length ts. in_background (ts ! k) \<and> flush_id (ts ! k) = i)) \<and>
     (\<forall>i k. m i = Some k \<longrightarrow> k < length ts \<and> caller (ts ! k) = TokenAdded \<and> flush_id (ts ! k) = i) \<and>
     (\<forall>k < length ts. caller (ts ! k) = TokenAdded \<and> callback (ts ! k) \<in> {NotCalled, TaskReleased} \<longrightarrow>
        m (flush_id (ts ! k)) = Some k)"

definition controller_ok :: "controller \<Rightarrow> bool" where
  "controller_ok c \<longleftrightarrow>
     threads_ok (flush_threads c) (background_task_col c) (cancel_token_map c) \<and>
     distinct (background_tasks_ids (background_task_col c)) \<and>
     started_events c = length (flush_threads c) \<and>
     reported_events c = length (filter (\<lambda>t. callback t = Reported) (flush_threads c)) \<and>
     (cancelled_flushes c \<noteq> {} \<longrightarrow> controller_cancelled c) \<and>
     (\<forall>k \<in> cancelled_flushes c. k < length (flush_threads c) \<and> caller (flush_threads c ! k) = TokenAdded)"

lemma threads_okI:
  assumes "\<And>k. k < length ts \<Longrightarrow> caller (ts ! k) \<noteq> Spawned \<Longrightarrow> flush_id (ts ! k) < next_task_id b"
    and "\<And>k. k < length ts \<Longrightarrow> caller (ts ! k) \<in> {Spawned, TaskAdded} \<Longrightarrow> callback (ts ! k) = NotCalled"
    and "\<And>k l. k < length ts \<Longrightarrow> l < length ts \<Longrightarrow> caller (ts ! k) \<noteq> Spawned \<Longrightarrow> caller (ts ! l) \<noteq> Spawned \<Longrightarrow>
      flush_id (ts ! k) = flush_id (ts ! l) \<Longrightarrow> k = l"
    and "\<And>i. i \<in> set (background_tasks_ids b) \<longleftrightarrow> (\<exists>k < length ts. in_background (ts ! k) \<and> flush_id (ts ! k) = i)"
    and "\<And>i k. m i = Some k \<Longrightarrow> k < length ts \<and> caller (ts ! k) = TokenAdded \<and> flush_id (ts ! k) = i"
    and "\<And>k. k < length ts \<Longrightarrow> caller (ts ! k) = TokenAdded \<Longrightarrow> callback (ts ! k) \<in> {NotCalled, TaskReleased} \<Longrightarrow>
      m (flush_id (ts ! k)) = Some k"
  shows "threads_ok ts b m"
  unfolding threads_ok_def using assms by blast

lemma id_older: "threads_ok ts b m \<Longrightarrow> k < length ts \<Longrightarrow> caller (ts ! k) \<noteq> Spawned \<Longrightarrow> flush_id (ts ! k) < next_task_id b"
  unfolding threads_ok_def by blast

lemma not_called: "threads_ok ts b m \<Longrightarrow> k < length ts \<Longrightarrow> caller (ts ! k) \<in> {Spawned, TaskAdded} \<Longrightarrow> callback (ts ! k) = NotCalled"
  unfolding threads_ok_def by blast

lemma same_id: "threads_ok ts b m \<Longrightarrow> k < length ts \<Longrightarrow> l < length ts \<Longrightarrow> caller (ts ! k) \<noteq> Spawned \<Longrightarrow> caller (ts ! l) \<noteq> Spawned \<Longrightarrow>
    flush_id (ts ! k) = flush_id (ts ! l) \<Longrightarrow> k = l"
  unfolding threads_ok_def by blast

lemma background_iff: "threads_ok ts b m \<Longrightarrow> i \<in> set (background_tasks_ids b) \<longleftrightarrow> (\<exists>k < length ts. in_background (ts ! k) \<and> flush_id (ts ! k) = i)"
  unfolding threads_ok_def by blast

lemma token_of: "threads_ok ts b m \<Longrightarrow> m i = Some k \<Longrightarrow> k < length ts \<and> caller (ts ! k) = TokenAdded \<and> flush_id (ts ! k) = i"
  unfolding threads_ok_def by blast

lemma token_kept: "threads_ok ts b m \<Longrightarrow> k < length ts \<Longrightarrow> caller (ts ! k) = TokenAdded \<Longrightarrow> callback (ts ! k) \<in> {NotCalled, TaskReleased} \<Longrightarrow>
    m (flush_id (ts ! k)) = Some k"
  unfolding threads_ok_def by blast

lemma threads_ok_spawn:
  assumes "threads_ok ts b m"
  shows "threads_ok (ts @ [\<lparr>flush_id = 0, caller = Spawned, callback = NotCalled\<rparr>]) b m"
  using assms unfolding threads_ok_def in_background_def
  by (auto simp: nth_append less_Suc_eq)

lemma count_update:
  assumes "k < length ts"
  shows "length (filter P (ts[k := x])) + (if P (ts ! k) then 1 else 0) = length (filter P ts) + (if P x then 1 else 0)"
  using assms arg_cong [OF id_take_nth_drop [OF assms], of "\<lambda>l. length (filter P l)"]
  by (simp add: upd_conv_take_nth_drop)

text \<open>A thread changes, and with it perhaps the tasks and tokens: what holds of the others is kept.\<close>

lemma threads_ok_update:
  assumes ok: "threads_ok ts b m" and k: "k < length ts" and older: "next_task_id b \<le> next_task_id b'"
    and begun: "caller t \<noteq> Spawned" "flush_id t < next_task_id b'" "caller t = TaskAdded \<Longrightarrow> callback t = NotCalled"
    and own: "if caller (ts ! k) = Spawned then next_task_id b \<le> flush_id t else flush_id t = flush_id (ts ! k)"
    and tasks: "\<And>i. i \<in> set (background_tasks_ids b') \<longleftrightarrow>
      (if i = flush_id t then in_background t else i \<in> set (background_tasks_ids b))"
    and tokens: "\<And>i. i \<noteq> flush_id t \<Longrightarrow> m' i = m i"
    and token: "\<And>l. m' (flush_id t) = Some l \<Longrightarrow> l = k \<and> caller t = TokenAdded"
    and kept: "caller t = TokenAdded \<Longrightarrow> callback t \<in> {NotCalled, TaskReleased} \<Longrightarrow> m' (flush_id t) = Some k"
  shows "threads_ok (ts[k := t]) b' m'"
proof -
  have others: "flush_id (ts ! j) \<noteq> flush_id t" if "j < length ts" "j \<noteq> k" "caller (ts ! j) \<noteq> Spawned" for j
    using own id_older [OF ok, of j] same_id [OF ok, of j k] that k by (auto split: if_splits)
  show ?thesis
  proof (rule threads_okI)
    fix j assume j: "j < length (ts[k := t])"
    show "flush_id (ts[k := t] ! j) < next_task_id b'" if "caller (ts[k := t] ! j) \<noteq> Spawned"
      using that j k begun(2) id_older [OF ok, of j] older by (cases "j = k") auto
    show "callback (ts[k := t] ! j) = NotCalled" if "caller (ts[k := t] ! j) \<in> {Spawned, TaskAdded}"
      using that j k begun not_called [OF ok, of j] by (cases "j = k") auto
    show "m' (flush_id (ts[k := t] ! j)) = Some j"
      if "caller (ts[k := t] ! j) = TokenAdded" "callback (ts[k := t] ! j) \<in> {NotCalled, TaskReleased}"
    proof (cases "j = k")
      case False
      then show ?thesis using that j tokens [OF others, of j] token_kept [OF ok, of j] by simp
    qed (use that j kept in simp)
    fix l assume "l < length (ts[k := t])" "caller (ts[k := t] ! j) \<noteq> Spawned" "caller (ts[k := t] ! l) \<noteq> Spawned"
      "flush_id (ts[k := t] ! j) = flush_id (ts[k := t] ! l)"
    then show "j = l"
      using j k others [of j] others [of l] same_id [OF ok, of j l] by (cases "j = k"; cases "l = k") auto
  next
    fix i
    show "i \<in> set (background_tasks_ids b') \<longleftrightarrow>
      (\<exists>j < length (ts[k := t]). in_background (ts[k := t] ! j) \<and> flush_id (ts[k := t] ! j) = i)" (is "_ \<longleftrightarrow> ?R")
    proof (cases "i = flush_id t")
      case True
      have "?R \<longleftrightarrow> in_background t"
        using k True others by (auto simp: nth_list_update in_background_def)
      then show ?thesis using tasks [of i] True by simp
    next
      case False
      have "?R \<longleftrightarrow> (\<exists>j < length ts. in_background (ts ! j) \<and> flush_id (ts ! j) = i)"
      proof
        assume ?R
        then show "\<exists>j < length ts. in_background (ts ! j) \<and> flush_id (ts ! j) = i"
          using k False by (metis length_list_update nth_list_update)
      next
        assume "\<exists>j < length ts. in_background (ts ! j) \<and> flush_id (ts ! j) = i"
        then obtain j where j: "j < length ts" "in_background (ts ! j)" "flush_id (ts ! j) = i" by blast
        then have "j \<noteq> k"
          using own False in_background_def by (auto split: if_splits)
        then show ?R using j by (metis length_list_update nth_list_update_neq)
      qed
      then show ?thesis using tasks [of i] False background_iff [OF ok, of i] by simp
    qed
  next
    fix i j assume m': "m' i = Some j"
    show "j < length (ts[k := t]) \<and> caller (ts[k := t] ! j) = TokenAdded \<and> flush_id (ts[k := t] ! j) = i"
    proof (cases "i = flush_id t")
      case True
      then show ?thesis using token m' k by simp
    next
      case False
      then have "j < length ts" "caller (ts ! j) = TokenAdded" "flush_id (ts ! j) = i"
        using tokens [of i] m' token_of [OF ok, of i j] by simp_all
      moreover from this have "j \<noteq> k"
        using own False by (auto split: if_splits)
      ultimately show ?thesis by simp
    qed
  qed
qed

lemma controller_new_ok: "controller_ok (controller_new settings i)"
  by (simp add: controller_new_def controller_ok_def threads_ok_def)

lemma add_background_flush_task_ok:
  assumes "controller_ok c" shows "controller_ok (snd (add_background_flush_task queue c))"
  using assms by (auto simp: add_background_flush_task_def controller_ok_def threads_ok_spawn nth_append)

lemma trigger_auto_flush_interval_ok: "controller_ok c \<Longrightarrow> controller_ok (trigger_auto_flush_interval c)"
  by (simp add: controller_ok_def trigger_auto_flush_interval_def)

lemma auto_flush_num_events_step_ok: "controller_ok c \<Longrightarrow> controller_ok (auto_flush_num_events_step queue c)"
  by (simp add: auto_flush_num_events_step_def add_background_flush_task_ok)

lemma controller_cancel_ok: "controller_ok c \<Longrightarrow> controller_ok (controller_cancel c)"
  by (auto simp: controller_cancel_def controller_ok_def ran_def dest: token_of)

lemma interval_elapsed_ok:
  assumes "controller_ok c" and "interval_elapsed queue c = Some c'" shows "controller_ok c'"
proof -
  have "controller_ok (c\<lparr>interval_threads := n\<rparr>)" for n
    using assms(1) by (simp add: controller_ok_def)
  then show ?thesis
    using assms(2) add_background_flush_task_ok [of "c\<lparr>interval_threads := interval_threads c - 1\<rparr>" queue]
    by (auto simp: interval_elapsed_def Let_def trigger_auto_flush_interval_ok split: if_splits prod.splits bool.splits)
qed

text \<open>A step of one thread.\<close>

lemma controller_ok_update:
  assumes ok: "controller_ok c" and k: "k < length (flush_threads c)" and t: "t = flush_threads c ! k"
    and th: "threads_ok ((flush_threads c)[k := t']) b m" and "distinct (background_tasks_ids b)"
    and "caller t = TokenAdded \<longrightarrow> caller t' = TokenAdded"
    and "n + (if callback t = Reported then 1 else 0) = reported_events c + (if callback t' = Reported then 1 else 0)"
  shows "controller_ok (c\<lparr>background_task_col := b, cancel_token_map := m,
      reported_events := n, flush_threads := (flush_threads c)[k := t']\<rparr>)"
  using assms count_update [OF k, of "\<lambda>t. callback t = Reported" t']
  by (auto simp: controller_ok_def nth_list_update)

lemma next_id_fresh:
  assumes "threads_ok ts b m"
  shows "next_task_id b \<notin> set (background_tasks_ids b) \<and> m (next_task_id b) = None"
proof -
  have "flush_id (ts ! k) \<noteq> next_task_id b" if "k < length ts" "caller (ts ! k) \<noteq> Spawned" for k
    using id_older [OF assms that] by simp
  then have "next_task_id b \<notin> set (background_tasks_ids b)"
    using background_iff [OF assms, of "next_task_id b"] by (auto simp: in_background_def)
  moreover have "m (next_task_id b) \<noteq> Some k" for k
    using token_of [OF assms, of "next_task_id b" k] id_older [OF assms, of k] by auto
  ultimately show ?thesis by (cases "m (next_task_id b)") auto
qed

lemma own_task:
  assumes "threads_ok ts b m" and "k < length ts" and "caller (ts ! k) \<noteq> Spawned"
  shows "flush_id (ts ! k) \<in> set (background_tasks_ids b) \<longleftrightarrow> callback (ts ! k) = NotCalled"
  using background_iff [OF assms(1), of "flush_id (ts ! k)"] same_id [OF assms(1) _ assms(2) _ assms(3)] assms(2,3)
  by (auto simp: in_background_def)

lemma own_token:
  assumes "threads_ok ts b m" and "k < length ts" and "caller (ts ! k) \<noteq> Spawned"
  shows "m (flush_id (ts ! k)) = None \<or> m (flush_id (ts ! k)) = Some k \<and> caller (ts ! k) = TokenAdded"
proof (cases "m (flush_id (ts ! k))")
  case (Some l)
  note l = token_of [OF assms(1) Some]
  then have "l = k" using same_id [OF assms(1) _ assms(2) _ assms(3)] by simp
  then show ?thesis using l Some by simp
qed simp

lemma released_task:
  assumes "threads_ok ts b m" and "k < length ts" and "caller (ts ! k) \<noteq> Spawned" and "callback (ts ! k) \<noteq> NotCalled"
  shows "filter (\<lambda>i. i \<noteq> flush_id (ts ! k)) (background_tasks_ids b) = background_tasks_ids b"
  using own_task [OF assms(1-3)] assms(4) by (auto intro: filter_True)

text \<open>After its task was added, a thread keeps its id.\<close>

lemma controller_ok_begun:
  assumes ok: "controller_ok c" and k: "k < length (flush_threads c)" and t: "t = flush_threads c ! k"
    and begun: "caller t \<noteq> Spawned" "caller t' \<notin> {Spawned, TaskAdded}" "flush_id t' = flush_id t"
    and up: "caller t = TokenAdded \<longrightarrow> caller t' = TokenAdded"
    and n: "n + (if callback t = Reported then 1 else 0) = reported_events c + (if callback t' = Reported then 1 else 0)"
    and tasks: "background_tasks_ids b = (if callback t' = NotCalled then background_tasks_ids (background_task_col c)
        else filter (\<lambda>i. i \<noteq> flush_id t) (background_tasks_ids (background_task_col c)))"
      "next_task_id b = next_task_id (background_task_col c)" "callback t' = NotCalled \<longrightarrow> callback t = NotCalled"
    and m: "\<And>i. i \<noteq> flush_id t \<Longrightarrow> m i = cancel_token_map c i"
      "\<And>l. m (flush_id t) = Some l \<Longrightarrow> l = k \<and> caller t' = TokenAdded"
      "caller t' = TokenAdded \<Longrightarrow> callback t' \<in> {NotCalled, TaskReleased} \<Longrightarrow> m (flush_id t) = Some k"
  shows "controller_ok (c\<lparr>background_task_col := b, cancel_token_map := m,
      reported_events := n, flush_threads := (flush_threads c)[k := t']\<rparr>)"
proof (rule controller_ok_update [OF ok k t])
  note th = ok[unfolded controller_ok_def, THEN conjunct1]
  show "threads_ok ((flush_threads c)[k := t']) b m"
  proof (rule threads_ok_update [OF th k])
    show "i \<in> set (background_tasks_ids b) \<longleftrightarrow>
      (if i = flush_id t' then in_background t' else i \<in> set (background_tasks_ids (background_task_col c)))" for i
      using own_task [OF th k] begun tasks by (auto simp: in_background_def t)
    show "if caller (flush_threads c ! k) = Spawned then next_task_id (background_task_col c) \<le> flush_id t'
      else flush_id t' = flush_id (flush_threads c ! k)"
      using begun by (simp add: t)
    show "flush_id t' < next_task_id b"
      using begun tasks(2) id_older [OF th k] by (simp add: t)
    show "l = k \<and> caller t' = TokenAdded" if "m (flush_id t') = Some l" for l
      using m(2) that begun(3) by simp
    show "m (flush_id t') = Some k" if "caller t' = TokenAdded" "callback t' \<in> {NotCalled, TaskReleased}"
      using m(3) that begun(3) by simp
  qed (use begun tasks(2) m(1) in auto)
  show "distinct (background_tasks_ids b)"
    using ok tasks by (simp add: controller_ok_def)
qed (use up n in auto)

lemma caller_step_ok:
  assumes ok: "controller_ok c" and step: "caller_step k c = Some c'"
  shows "controller_ok c'"
proof -
  define t where "t = flush_threads c ! k"
  note th = ok[unfolded controller_ok_def, THEN conjunct1]
  have k: "k < length (flush_threads c)"
    using step by (auto simp: caller_step_def split: if_splits)
  note begun = controller_ok_begun [OF ok k t_def]
  note token = own_token [OF th k, folded t_def] and kept = token_kept [OF th k, folded t_def]
    and released = released_task [OF th k, folded t_def]
  show ?thesis
  proof (cases "caller t")
    case Spawned
    let ?b = "snd (background_add_task (background_task_col c))"
    have "controller_ok (c\<lparr>background_task_col := ?b, cancel_token_map := cancel_token_map c,
      reported_events := reported_events c, flush_threads := (flush_threads c)[k := t\<lparr>flush_id := next_task_id (background_task_col c), caller := TaskAdded\<rparr>]\<rparr>)"
    proof (rule controller_ok_update [OF ok k t_def], rule threads_ok_update [OF th k])
      show "distinct (background_tasks_ids ?b)"
        using ok next_id_fresh [OF th] by (auto simp: background_add_task_def controller_ok_def)
    qed (use Spawned not_called [OF th k] next_id_fresh [OF th] in
      \<open>auto simp: background_add_task_def in_background_def t_def\<close>)
    then show ?thesis
      using step Spawned k by (simp add: caller_step_def Let_def t_def background_add_task_def update_flush_thread_def)
  next
    case TaskAdded
    have "controller_ok (c\<lparr>background_task_col := background_task_col c, cancel_token_map := cancel_token_map c,
      reported_events := reported_events c, flush_threads := (flush_threads c)[k := t\<lparr>caller := FlushCalled\<rparr>]\<rparr>)"
      by (rule begun) (use TaskAdded not_called [OF th k] token in \<open>auto simp: t_def\<close>)
    then show ?thesis
      using step TaskAdded k by (simp add: caller_step_def Let_def t_def update_flush_thread_def)
  next
    case FlushCalled
    have "controller_ok (c\<lparr>background_task_col := background_task_col c, cancel_token_map := cancel_token_map c,
      reported_events := reported_events c, flush_threads := (flush_threads c)[k := t\<lparr>caller := FlushReturned\<rparr>]\<rparr>)"
      by (rule begun) (use FlushCalled token released in auto)
    then show ?thesis
      using step FlushCalled k by (simp add: caller_step_def Let_def t_def update_flush_thread_def)
  next
    case FlushReturned
    have "controller_ok (c\<lparr>background_task_col := background_task_col c, cancel_token_map := cancel_token_map (add_cancel_token (flush_id t) k c),
      reported_events := reported_events c, flush_threads := (flush_threads c)[k := t\<lparr>caller := TokenAdded\<rparr>]\<rparr>)"
      by (rule begun) (use FlushReturned token released in \<open>auto simp: add_cancel_token_def split: if_splits\<close>)
    then show ?thesis
      using step FlushReturned k by (simp add: caller_step_def Let_def t_def update_flush_thread_def add_cancel_token_def)
  qed (use step k in \<open>simp add: caller_step_def t_def\<close>)
qed

lemma callback_step_ok:
  assumes ok: "controller_ok c" and step: "callback_step k c = Some c'"
  shows "controller_ok c'"
proof -
  define t where "t = flush_threads c ! k"
  note th = ok[unfolded controller_ok_def, THEN conjunct1]
  have k: "k < length (flush_threads c)" and called: "caller t \<noteq> Spawned" "caller t \<noteq> TaskAdded"
    using step by (auto simp: callback_step_def Let_def t_def split: if_splits)
  note begun = controller_ok_begun [OF ok k t_def called(1)]
  note token = own_token [OF th k, folded t_def] and kept = token_kept [OF th k, folded t_def]
    and released = released_task [OF th k, folded t_def]
  show ?thesis
  proof (cases "callback t")
    case NotCalled
    have "controller_ok (c\<lparr>background_task_col := background_release_task (flush_id t) (background_task_col c),
      cancel_token_map := cancel_token_map c, reported_events := reported_events c,
      flush_threads := (flush_threads c)[k := t\<lparr>callback := TaskReleased\<rparr>]\<rparr>)"
      by (rule begun) (use NotCalled called token kept in \<open>auto simp: background_release_task_def\<close>)
    then show ?thesis
      using step NotCalled called k by (simp add: callback_step_def Let_def t_def update_flush_thread_def)
  next
    case TaskReleased
    have "controller_ok (c\<lparr>background_task_col := background_task_col c,
      cancel_token_map := (cancel_token_map c)(flush_id t := None), reported_events := reported_events c,
      flush_threads := (flush_threads c)[k := t\<lparr>callback := TokenRemoved\<rparr>]\<rparr>)"
      by (rule begun) (use TaskReleased called released in auto)
    then show ?thesis
      using step TaskReleased called k
      by (simp add: callback_step_def Let_def t_def update_flush_thread_def remove_cancel_token_def)
  next
    case TokenRemoved
    have "controller_ok (c\<lparr>background_task_col := background_task_col c,
      cancel_token_map := cancel_token_map c, reported_events := reported_events c + 1,
      flush_threads := (flush_threads c)[k := t\<lparr>callback := Reported\<rparr>]\<rparr>)"
      by (rule begun) (use TokenRemoved called token released in auto)
    then show ?thesis
      using step TokenRemoved called k by (simp add: callback_step_def Let_def t_def update_flush_thread_def)
  qed (use step k called in \<open>simp add: callback_step_def Let_def t_def\<close>)
qed

theorem controller_step_ok: "controller_ok c \<Longrightarrow> controller_step e c = Some c' \<Longrightarrow> controller_ok c'"
  by (cases e) (auto simp: controller_enable_def auto_flush_num_events_step_ok trigger_auto_flush_interval_ok controller_cancel_ok
      dest: interval_elapsed_ok caller_step_ok callback_step_ok)

lemma controller_run_ok: "controller_ok c \<Longrightarrow> controller_run es c = Some c' \<Longrightarrow> controller_ok c'"
  by (induction es arbitrary: c) (auto dest: controller_step_ok split: option.splits)

text \<open>
  C33: however the threads are scheduled, the task collection holds exactly one task for each flush that was begun and
  has not called back, so that the wait of \<open>Disable\<close> ends when there is none; every event is started once and
  reported at most once; and the token of each flush that is added and not done is found under its id, so that
  \<open>Cancel\<close> reaches it.
\<close>
theorem auto_flush_bookkeeping:
  assumes "controller_run es (controller_new settings i) = Some c"
  shows "(background_wait_ends (background_task_col c) \<longleftrightarrow> (\<forall>t \<in> set (flush_threads c). \<not> in_background t)) \<and>
    background_size (background_task_col c) = length (filter in_background (flush_threads c)) \<and>
    started_events c = length (flush_threads c) \<and>
    reported_events c = length (filter (\<lambda>t. callback t = Reported) (flush_threads c)) \<and>
    (\<forall>k < length (flush_threads c). caller (flush_threads c ! k) = TokenAdded \<and>
       callback (flush_threads c ! k) \<in> {NotCalled, TaskReleased} \<longrightarrow> k \<in> cancelled_flushes (controller_cancel c))"
proof -
  have ok: "controller_ok c"
    using controller_run_ok [OF controller_new_ok assms] .
  note th = ok[unfolded controller_ok_def, THEN conjunct1]
  let ?K = "{k. k < length (flush_threads c) \<and> in_background (flush_threads c ! k)}"
  have tasks: "set (background_tasks_ids (background_task_col c)) = (\<lambda>k. flush_id (flush_threads c ! k)) ` ?K"
    using background_iff [OF th] by auto
  have "inj_on (\<lambda>k. flush_id (flush_threads c ! k)) ?K"
    by (auto intro!: inj_onI dest: same_id [OF th] simp: in_background_def)
  then have "length (background_tasks_ids (background_task_col c)) = card ?K"
    using ok tasks by (metis card_image controller_ok_def distinct_card)
  then have size: "background_size (background_task_col c) = length (filter in_background (flush_threads c))"
    by (simp add: background_size_def length_filter_conv_card)
  have wait: "background_wait_ends (background_task_col c) \<longleftrightarrow> (\<forall>t \<in> set (flush_threads c). \<not> in_background t)"
    using size by (metis background_size_def background_wait_ends_def filter_empty_conv length_0_conv)
  show ?thesis
    using ok size wait token_kept [OF th] by (auto simp: controller_ok_def controller_cancel_def intro: ranI)
qed

definition one_flush_run :: "controller_event list" where
  "one_flush_run = [QueueEventComplete (Some 20), CallerStep 0, CallerStep 0, CallerStep 0, CallerStep 0]"

lemma auto_flush_bookkeeping_witness:
  "\<exists>c. controller_run one_flush_run (controller_new default_auto_flush_settings 7) = Some c \<and>
    background_size (background_task_col c) = 1 \<and> cancelled_flushes (controller_cancel c) = {0}"
proof -
  obtain c where run: "controller_run one_flush_run (controller_new default_auto_flush_settings 7) = Some c"
    and t: "flush_threads c = [\<lparr>flush_id = 7, caller = TokenAdded, callback = NotCalled\<rparr>]"
    and m: "cancelled_flushes (controller_cancel c) \<subseteq> {0}"
    by (simp add: one_flush_run_def controller_new_def default_auto_flush_settings_def auto_flush_num_events_step_def
        is_auto_flush_num_events_required_def add_background_flush_task_def caller_step_def background_add_task_def
        update_flush_thread_def add_cancel_token_def controller_cancel_def ran_def)
  have "background_size (background_task_col c) = length (filter in_background (flush_threads c))"
    and "\<forall>k < length (flush_threads c). caller (flush_threads c ! k) = TokenAdded \<and>
       callback (flush_threads c ! k) \<in> {NotCalled, TaskReleased} \<longrightarrow> k \<in> cancelled_flushes (controller_cancel c)"
    using auto_flush_bookkeeping [OF run] by blast+
  then show ?thesis using run m by (auto simp: t in_background_def)
qed

text \<open>What the controller does for the other flushes.\<close>

lemma caller_goes_on:
  assumes "k < length (flush_threads c)" and "caller (flush_threads c ! k) \<noteq> TokenAdded"
  shows "\<exists>c'. caller_step k c = Some c' \<and> length (flush_threads c') = length (flush_threads c) \<and>
    cancelled_flushes c' = cancelled_flushes c \<and> callback (flush_threads c' ! k) = callback (flush_threads c ! k) \<and>
    caller (flush_threads c' ! k) = (case caller (flush_threads c ! k) of
        Spawned \<Rightarrow> TaskAdded | TaskAdded \<Rightarrow> FlushCalled | FlushCalled \<Rightarrow> FlushReturned | _ \<Rightarrow> TokenAdded)"
  using assms by (cases "caller (flush_threads c ! k)")
    (simp_all add: caller_step_def Let_def update_flush_thread_def background_add_task_def add_cancel_token_def)

lemma cancel_keeps_threads: "flush_threads (controller_cancel c) = flush_threads c"
  by (simp add: controller_cancel_def)

text \<open>
  \<open>Disable\<close> does not stop a flush whose token is not yet added: whatever it did before, the flush goes on when its
  thread runs on, is not cancelled, and if its task was not yet added, then \<open>Disable\<close> does not wait for it.
\<close>
theorem disable_misses_begun_flush:
  assumes "controller_run es (controller_new settings i) = Some c" and "k < length (flush_threads c)"
    and "caller (flush_threads c ! k) = Spawned"
  shows "(\<exists>c'. controller_run [Cancel, CallerStep k, CallerStep k, CallerStep k, CallerStep k] c = Some c' \<and>
      in_background (flush_threads c' ! k) \<and> caller (flush_threads c' ! k) = TokenAdded \<and> k \<notin> cancelled_flushes c') \<and>
    ((\<forall>t \<in> set (flush_threads c). caller t = Spawned \<or> callback t \<noteq> NotCalled) \<longrightarrow> disable_ends (controller_cancel c))"
proof -
  have ok: "controller_ok c"
    using controller_run_ok [OF controller_new_ok assms(1)] .
  note th = ok[unfolded controller_ok_def, THEN conjunct1]
  have uncancelled: "k \<notin> cancelled_flushes (controller_cancel c)"
    using ok assms(2,3) token_of [OF th] by (auto simp: controller_cancel_def controller_ok_def ran_def)
  have idle: "callback (flush_threads c ! k) = NotCalled"
    using not_called [OF th assms(2)] assms(3) by simp
  let ?c = "controller_cancel c"
  have k: "k < length (flush_threads ?c)" and "caller (flush_threads ?c ! k) = Spawned"
    using assms(2,3) by (simp_all add: cancel_keeps_threads)
  with caller_goes_on [OF k] obtain c1 where c1: "caller_step k ?c = Some c1" "k < length (flush_threads c1)"
    "cancelled_flushes c1 = cancelled_flushes ?c" "callback (flush_threads c1 ! k) = NotCalled" "caller (flush_threads c1 ! k) = TaskAdded"
    using idle by (auto simp: cancel_keeps_threads)
  with caller_goes_on [OF c1(2)] obtain c2 where c2: "caller_step k c1 = Some c2" "k < length (flush_threads c2)"
    "cancelled_flushes c2 = cancelled_flushes ?c" "callback (flush_threads c2 ! k) = NotCalled" "caller (flush_threads c2 ! k) = FlushCalled"
    by auto
  with caller_goes_on [OF c2(2)] obtain c3 where c3: "caller_step k c2 = Some c3" "k < length (flush_threads c3)"
    "cancelled_flushes c3 = cancelled_flushes ?c" "callback (flush_threads c3 ! k) = NotCalled" "caller (flush_threads c3 ! k) = FlushReturned"
    by auto
  with caller_goes_on [OF c3(2)] obtain c4 where c4: "caller_step k c3 = Some c4"
    "cancelled_flushes c4 = cancelled_flushes ?c" "callback (flush_threads c4 ! k) = NotCalled" "caller (flush_threads c4 ! k) = TokenAdded"
    by auto
  have "disable_ends ?c" if "\<forall>t \<in> set (flush_threads c). caller t = Spawned \<or> callback t \<noteq> NotCalled"
  proof -
    have "i \<notin> set (background_tasks_ids (background_task_col c))" for i
      using background_iff [OF th, of i] that by (auto simp: in_background_def)
    then have "background_tasks_ids (background_task_col c) = []"
      by (metis last_in_set)
    then show ?thesis
      by (simp add: disable_ends_def controller_cancel_def background_wait_ends_def)
  qed
  then show ?thesis
    using c1(1) c2(1) c3(1) c4 uncancelled by (simp add: in_background_def)
qed

lemma disable_misses_begun_flush_witness:
  "\<exists>c. controller_run [QueueEventComplete (Some 20)] (controller_new default_auto_flush_settings 7) = Some c \<and>
    disable_ends (controller_cancel c) \<and>
    (\<exists>c'. controller_run [Cancel, CallerStep 0, CallerStep 0, CallerStep 0, CallerStep 0] c = Some c' \<and>
      0 \<notin> cancelled_flushes c')"
proof -
  obtain c where run: "controller_run [QueueEventComplete (Some 20)] (controller_new default_auto_flush_settings 7) = Some c"
    and t: "flush_threads c = [\<lparr>flush_id = 0, caller = Spawned, callback = NotCalled\<rparr>]"
    by (simp add: controller_new_def default_auto_flush_settings_def auto_flush_num_events_step_def
        is_auto_flush_num_events_required_def add_background_flush_task_def)
  show ?thesis
    using disable_misses_begun_flush [OF run, of 0] run by (auto simp: t)
qed

text \<open>A flush that calls back before \<open>Flush\<close> returns, as one of an empty queue may, leaves its token for ever.\<close>

definition token_leaked :: "nat \<Rightarrow> controller \<Rightarrow> bool" where
  "token_leaked k c \<longleftrightarrow> k < length (flush_threads c) \<and> caller (flush_threads c ! k) = TokenAdded \<and>
     callback (flush_threads c ! k) \<in> {TokenRemoved, Reported} \<and>
     cancel_token_map c (flush_id (flush_threads c ! k)) = Some k"

lemma late_token_leaks:
  assumes "controller_run es (controller_new settings i) = Some c" and "k < length (flush_threads c)"
    and "caller (flush_threads c ! k) = FlushReturned" and "callback (flush_threads c ! k) \<in> {TokenRemoved, Reported}"
  shows "\<exists>c'. caller_step k c = Some c' \<and> token_leaked k c'"
proof -
  have "threads_ok (flush_threads c) (background_task_col c) (cancel_token_map c)"
    using controller_run_ok [OF controller_new_ok assms(1)] by (simp add: controller_ok_def)
  from own_token [OF this assms(2)] have "cancel_token_map c (flush_id (flush_threads c ! k)) = None"
    using assms(3) by simp
  then show ?thesis
    using assms(2-4) by (auto simp: caller_step_def Let_def token_leaked_def update_flush_thread_def add_cancel_token_def)
qed

lemma leaked_spawn: "token_leaked k c \<Longrightarrow> token_leaked k (snd (add_background_flush_task queue c))"
  by (auto simp: token_leaked_def add_background_flush_task_def nth_append)

lemma leaked_other [simp]: "token_leaked k (c\<lparr>interval_threads := n\<rparr>) = token_leaked k c"
    "token_leaked k (trigger_auto_flush_interval c) = token_leaked k c"
    "token_leaked k (controller_cancel c) = token_leaked k c"
  by (simp_all add: token_leaked_def trigger_auto_flush_interval_def controller_cancel_def)

lemma leaked_num_events: "token_leaked k c \<Longrightarrow> token_leaked k (auto_flush_num_events_step queue c)"
  by (simp add: auto_flush_num_events_step_def leaked_spawn)

lemma leaked_interval_elapsed: "token_leaked k c \<Longrightarrow> interval_elapsed queue c = Some c' \<Longrightarrow> token_leaked k c'"
  using leaked_spawn [of k "c\<lparr>interval_threads := interval_threads c - 1\<rparr>" queue]
  by (auto simp: interval_elapsed_def Let_def split: if_splits prod.splits bool.splits)

lemma leaked_token_stays_step:
  assumes "controller_ok c" and "token_leaked k c" and "controller_step e c = Some c'"
  shows "token_leaked k c'"
proof -
  have other: "flush_id (flush_threads c ! j) \<noteq> flush_id (flush_threads c ! k)"
    if "j < length (flush_threads c)" "j \<noteq> k" "caller (flush_threads c ! j) \<noteq> Spawned" for j
    using same_id [OF assms(1)[unfolded controller_ok_def, THEN conjunct1], of j k] that assms(2)
    by (auto simp: token_leaked_def)
  show ?thesis
  proof (cases e)
    case (CallerStep j)
    then show ?thesis
      using assms(2,3) other [of j]
      by (cases "j = k") (auto simp: caller_step_def Let_def token_leaked_def update_flush_thread_def add_cancel_token_def
          background_add_task_def nth_list_update split: if_splits flush_caller.splits)
  next
    case (CallbackStep j)
    then show ?thesis
      using assms(2,3) other [of j]
      by (cases "j = k") (auto simp: callback_step_def Let_def token_leaked_def update_flush_thread_def remove_cancel_token_def
          nth_list_update split: if_splits flush_callback.splits)
  qed (use assms(2,3) in \<open>auto simp: controller_enable_def leaked_num_events dest: leaked_interval_elapsed\<close>)
qed

lemma leaked_token_stays:
  "controller_ok c \<Longrightarrow> token_leaked k c \<Longrightarrow> controller_run es c = Some c' \<Longrightarrow> token_leaked k c'"
  by (induction es arbitrary: c) (auto dest: controller_step_ok leaked_token_stays_step split: option.splits)

text \<open>A negative number of events never flushes by itself, for queues below \<open>2 ^ 63\<close>; zero flushes always.\<close>

lemma negative_threshold_never_flushes:
  assumes "auto_flush_num_events settings <s 0" and "n < 2 ^ 63"
  shows "\<not> is_auto_flush_num_events_required settings (Some n)"
proof -
  let ?n = "sint (auto_flush_num_events settings)"
  have "uint (scast (auto_flush_num_events settings) :: size_t) = ?n mod 2 ^ 64"
    unfolding scast_eq uint_word_of_int by simp
  moreover have "?n mod 2 ^ 64 = ?n + 2 ^ 64"
    using assms(1) sint_greater_eq [of "auto_flush_num_events settings"]
    by (intro int_mod_pos_eq [where q = "- 1"]) (simp_all add: word_sless_alt)
  ultimately have "2 ^ 63 \<le> uint (scast (auto_flush_num_events settings) :: size_t)"
    using sint_greater_eq [of "auto_flush_num_events settings"] by simp
  then show ?thesis
    using assms(2) by (auto simp: is_auto_flush_num_events_required_def word_le_def word_less_def split: option.splits)
qed

section \<open>Times\<close>

text \<open>\<open>TimeUtils.cpp\<close>: the seconds up to the next hour, day and week, for the fields of \<open>std::tm\<close>.\<close>

definition get_seconds_to_next_hour :: "int \<Rightarrow> int \<Rightarrow> int" where
  "get_seconds_to_next_hour tm_min tm_sec = 60 - tm_sec + 60 * (59 - tm_min)"

definition get_seconds_to_next_day :: "int \<Rightarrow> int \<Rightarrow> int \<Rightarrow> int" where
  "get_seconds_to_next_day tm_hour tm_min tm_sec = get_seconds_to_next_hour tm_min tm_sec + 3600 * (23 - tm_hour)"

definition get_seconds_to_next_week :: "int \<Rightarrow> int \<Rightarrow> int \<Rightarrow> int \<Rightarrow> int" where
  "get_seconds_to_next_week tm_wday tm_hour tm_min tm_sec =
     get_seconds_to_next_day tm_hour tm_min tm_sec + 86400 * (6 - tm_wday)"

text \<open>
  The next week begins with the next midnight before a Sunday. On the hour itself the next hour is a whole hour away,
  and in a leap second, the sixtieth, it is reached.
\<close>

lemma seconds_to_next_week:
  assumes "0 \<le> tm_wday" "tm_wday \<le> 6" "0 \<le> tm_hour" "tm_hour \<le> 23" "0 \<le> tm_min" "tm_min \<le> 59" "0 \<le> tm_sec" "tm_sec \<le> 60"
  shows "0 \<le> get_seconds_to_next_week tm_wday tm_hour tm_min tm_sec \<and>
    get_seconds_to_next_week tm_wday tm_hour tm_min tm_sec \<le> 604800 \<and>
    86400 * tm_wday + 3600 * tm_hour + 60 * tm_min + tm_sec + get_seconds_to_next_week tm_wday tm_hour tm_min tm_sec = 604800 \<and>
    get_seconds_to_next_hour tm_min tm_sec \<le> 3600 \<and> get_seconds_to_next_day tm_hour tm_min tm_sec \<le> 86400"
  using assms by (simp add: get_seconds_to_next_week_def get_seconds_to_next_day_def get_seconds_to_next_hour_def)

end
