(* ===== verification/CurlHandle.thy ===== *)
theory CurlHandle
  imports OlpClient Decimal
begin

text \<open>
  The network implementation over libcurl, \<open>src/http/curl/NetworkCurl.cpp\<close>, as far as one request goes: what is
  asked of libcurl, what the callbacks do with the data and the headers that it delivers, and what a completed
  transfer amounts to. libcurl is not part of the sources: its results, times and texts are inputs, and so is
  \<open>curl_getdate\<close>. The state that the requests share is in \<open>NetworkCurl\<close>.
\<close>

section \<open>Results of libcurl\<close>

datatype curl_code =
    CURLE_OK | CURLE_UNSUPPORTED_PROTOCOL | CURLE_URL_MALFORMAT | CURLE_COULDNT_RESOLVE_HOST | CURLE_COULDNT_CONNECT
  | CURLE_REMOTE_ACCESS_DENIED | CURLE_FTP_ACCEPT_FAILED | CURLE_PARTIAL_FILE | CURLE_HTTP_RETURNED_ERROR
  | CURLE_OPERATION_TIMEDOUT | CURLE_SSL_CERTPROBLEM | CURLE_SSL_CIPHER | CURLE_SSL_CACERT | CURLE_LOGIN_DENIED
  | CURLE_OTHER int

text \<open>The version of libcurl, which the preprocessor compares part by part.\<close>

definition libcurl_has :: "nat \<times> nat \<Rightarrow> nat \<Rightarrow> bool" where
  "libcurl_has version minor \<longleftrightarrow> 7 \<le> fst version \<and> minor \<le> snd version"

definition convert_error_code :: "nat \<times> nat \<Rightarrow> curl_code \<Rightarrow> int" where
  "convert_error_code version curl_code =
     (if curl_code = CURLE_OK then 0
      else if curl_code \<in> {CURLE_REMOTE_ACCESS_DENIED, CURLE_SSL_CERTPROBLEM, CURLE_SSL_CIPHER, CURLE_LOGIN_DENIED}
      then http_error_value AUTHORIZATION_ERROR
      else if curl_code = CURLE_SSL_CACERT then http_error_value AUTHENTICATION_ERROR
      else if curl_code \<in> {CURLE_UNSUPPORTED_PROTOCOL, CURLE_URL_MALFORMAT} then http_error_value INVALID_URL_ERROR
      else if libcurl_has version 24 \<and> curl_code = CURLE_FTP_ACCEPT_FAILED then http_error_value AUTHORIZATION_ERROR
      else if curl_code = CURLE_COULDNT_RESOLVE_HOST then http_error_value INVALID_URL_ERROR
      else if curl_code = CURLE_OPERATION_TIMEDOUT then http_error_value TIMEOUT_ERROR
      else http_error_value IO_ERROR)"

section \<open>The handle of a request\<close>

text \<open>The payload is a string stream: a text and the position at which it is written.\<close>

record payload_stream =
  stream_text :: string
  stream_position :: nat

text \<open>A position after the end is not reached: the stream fails, and the failure is cleared.\<close>

definition stream_seekp :: "nat \<Rightarrow> payload_stream \<Rightarrow> payload_stream" where
  "stream_seekp i p = (if i \<le> length (stream_text p) then p\<lparr>stream_position := i\<rparr> else p)"

definition stream_write :: "string \<Rightarrow> payload_stream \<Rightarrow> payload_stream" where
  "stream_write bytes p =
     p\<lparr>stream_text := take (stream_position p) (stream_text p) @ bytes @ drop (stream_position p + length bytes) (stream_text p),
       stream_position := stream_position p + length bytes\<rparr>"

text \<open>
  \<open>rh_callback\<close> says which callback the request has, \<open>rh_easy\<close> whether it has a handle of libcurl. Times are in
  seconds.
\<close>

record request_handle =
  rh_etag :: string
  rh_content_type :: string
  rh_date :: string
  rh_send_time :: int
  rh_body :: "string option"
  rh_payload :: "payload_stream option"
  rh_callback :: "nat option"
  rh_header_callback :: bool
  rh_data_callback :: bool
  rh_count :: nat
  rh_offset :: nat
  rh_easy :: bool
  rh_chunk :: "string list"
  rh_transfer_timeout :: int
  rh_retry_count :: nat
  rh_max_retries :: nat
  rh_max_age :: int
  rh_expires :: int
  rh_id :: u64
  rh_ignore_offset :: bool
  rh_in_use :: bool
  rh_range_out :: bool
  rh_cancelled :: bool
  rh_get_statistics :: bool
  rh_skip_content :: bool
  rh_error_text :: string

definition empty_request_handle :: request_handle where
  "empty_request_handle = \<lparr>rh_etag = [], rh_content_type = [], rh_date = [], rh_send_time = 0, rh_body = None,
     rh_payload = None, rh_callback = None, rh_header_callback = False, rh_data_callback = False, rh_count = 0,
     rh_offset = 0, rh_easy = False, rh_chunk = [], rh_transfer_timeout = 0, rh_retry_count = 0, rh_max_retries = 0,
     rh_max_age = 0, rh_expires = 0, rh_id = 0, rh_ignore_offset = False, rh_in_use = False, rh_range_out = False,
     rh_cancelled = False, rh_get_statistics = False, rh_skip_content = False, rh_error_text = []\<rparr>"

text \<open>What a free handle becomes for a request.\<close>

definition taken_handle ::
  "int \<Rightarrow> u64 \<Rightarrow> nat \<Rightarrow> bool \<Rightarrow> bool \<Rightarrow> payload_stream option \<Rightarrow> string option \<Rightarrow> request_handle \<Rightarrow> request_handle" where
  "taken_handle now i cb has_header_callback has_data_callback payload body h =
     h\<lparr>rh_easy := True, rh_in_use := True, rh_callback := Some cb, rh_header_callback := has_header_callback,
       rh_data_callback := has_data_callback, rh_max_age := - 1, rh_expires := - 1, rh_id := i, rh_count := 0,
       rh_offset := 0, rh_chunk := [], rh_range_out := False, rh_cancelled := False, rh_transfer_timeout := 30,
       rh_retry_count := 0, rh_etag := [], rh_content_type := [], rh_date := [], rh_payload := payload,
       rh_body := body, rh_send_time := now, rh_error_text := [], rh_get_statistics := False, rh_skip_content := False\<rparr>"

definition released_handle :: "request_handle \<Rightarrow> request_handle" where
  "released_handle h =
     h\<lparr>rh_chunk := [], rh_in_use := False, rh_callback := None, rh_header_callback := False, rh_data_callback := False,
       rh_payload := None, rh_body := None\<rparr>"

text \<open>What the request sets of its handle.\<close>

definition configured_handle :: "network_request \<Rightarrow> request_handle \<Rightarrow> request_handle" where
  "configured_handle request h =
     h\<lparr>rh_transfer_timeout := transfer_timeout (request_settings request),
       rh_max_retries := unat (net_retries (request_settings request)), rh_ignore_offset := False,
       rh_get_statistics := False, rh_skip_content := False,
       rh_chunk := rh_chunk h @ map (\<lambda>(n, v). n @ '': '' @ v) (request_headers request)\<rparr>"

section \<open>Options of a transfer\<close>

datatype curl_proxytype =
  CURLPROXY_HTTP | CURLPROXY_SOCKS4 | CURLPROXY_SOCKS5 | CURLPROXY_SOCKS4A | CURLPROXY_SOCKS5_HOSTNAME

fun to_curl_proxy_type :: "proxy_type \<Rightarrow> curl_proxytype" where
  "to_curl_proxy_type PROXY_HTTP = CURLPROXY_HTTP"
| "to_curl_proxy_type SOCKS4 = CURLPROXY_SOCKS4"
| "to_curl_proxy_type SOCKS5 = CURLPROXY_SOCKS5"
| "to_curl_proxy_type SOCKS4A = CURLPROXY_SOCKS4A"
| "to_curl_proxy_type SOCKS5_HOSTNAME = CURLPROXY_SOCKS5_HOSTNAME"
| "to_curl_proxy_type PROXY_NONE = CURLPROXY_HTTP"

datatype curl_option =
    OPT_VERBOSE int | OPT_STDERR bool | OPT_URL string | OPT_POST int | OPT_CUSTOMREQUEST string | OPT_NOBODY int
  | OPT_POSTFIELDSIZE nat | OPT_POSTFIELDS string | OPT_PROXY string | OPT_PROXYPORT u16 | OPT_PROXYTYPE curl_proxytype
  | OPT_PROXYUSERNAME string | OPT_PROXYPASSWORD string | OPT_HTTPHEADER "string list" | OPT_CAINFO string
  | OPT_SSL_VERIFYPEER int | OPT_SSL_VERIFYHOST int | OPT_FOLLOWLOCATION int | OPT_CONNECTTIMEOUT int | OPT_TIMEOUT int
  | OPT_WRITEFUNCTION | OPT_HEADERFUNCTION | OPT_FAILONERROR int | OPT_ERRORBUFFER | OPT_ACCEPT_ENCODING string
  | OPT_TRANSFER_ENCODING int | OPT_TCP_KEEPALIVE int | OPT_TCP_KEEPIDLE int | OPT_TCP_KEEPINTVL int

fun verb_options :: "http_verb \<Rightarrow> curl_option list" where
  "verb_options POST = [OPT_POST 1]"
| "verb_options PUT = [OPT_CUSTOMREQUEST ''PUT'']"
| "verb_options PATCH = [OPT_CUSTOMREQUEST ''PATCH'']"
| "verb_options DEL = [OPT_CUSTOMREQUEST ''DELETE'']"
| "verb_options GET = [OPT_POST 0]"
| "verb_options HEAD = [OPT_POST 0, OPT_NOBODY 1]"

definition body_options :: "http_verb \<Rightarrow> string option \<Rightarrow> curl_option list" where
  "body_options verb body =
     (if verb = GET \<or> verb = HEAD then []
      else case body of
          Some (c # cs) \<Rightarrow> [OPT_POSTFIELDSIZE (length (c # cs)), OPT_POSTFIELDS (c # cs)]
        | _ \<Rightarrow> [OPT_POSTFIELDSIZE 0])"

definition proxy_options :: "network_proxy_settings \<Rightarrow> curl_option list" where
  "proxy_options proxy =
     (if proxy_type_of proxy = PROXY_NONE then []
      else [OPT_PROXY (proxy_hostname proxy), OPT_PROXYPORT (proxy_port proxy)] @
        (if proxy_type_of proxy \<noteq> PROXY_HTTP then [OPT_PROXYTYPE (to_curl_proxy_type (proxy_type_of proxy))] else []) @
        (if proxy_username proxy \<noteq> [] \<and> proxy_password proxy \<noteq> []
         then [OPT_PROXYUSERNAME (proxy_username proxy), OPT_PROXYPASSWORD (proxy_password proxy)] else []))"

text \<open>The path of the bundle of certificates is empty when there is none, or without OpenSSL.\<close>

definition send_options ::
  "nat \<times> nat \<Rightarrow> bool \<Rightarrow> bool \<Rightarrow> string \<Rightarrow> network_request \<Rightarrow> request_handle \<Rightarrow> curl_option list" where
  "send_options version verbose has_stderr curl_ca_bundle request h =
     (let config = request_settings request; sys_dont_verify_certificate = True in
      (if verbose then OPT_VERBOSE 1 # (if has_stderr then [OPT_STDERR True] else []) else [OPT_VERBOSE 0]) @
      [OPT_URL (request_url request)] @
      verb_options (request_verb request) @
      body_options (request_verb request) (rh_body h) @
      proxy_options (net_proxy config) @
      (if rh_chunk h \<noteq> [] then [OPT_HTTPHEADER (rh_chunk h)] else []) @
      (if curl_ca_bundle \<noteq> [] then [OPT_CAINFO curl_ca_bundle] else []) @
      (if sys_dont_verify_certificate then [OPT_SSL_VERIFYPEER 0, OPT_SSL_VERIFYHOST 0]
       else [OPT_SSL_VERIFYPEER 1, OPT_SSL_VERIFYHOST 2]) @
      [OPT_FOLLOWLOCATION 1, OPT_CONNECTTIMEOUT (connection_timeout config),
       OPT_TIMEOUT (connection_timeout config + transfer_timeout config),
       OPT_WRITEFUNCTION, OPT_HEADERFUNCTION, OPT_FAILONERROR 0] @
      (if has_stderr then [] else [OPT_STDERR False]) @
      [OPT_ERRORBUFFER] @
      (if libcurl_has version 21 then [OPT_ACCEPT_ENCODING [], OPT_TRANSFER_ENCODING 1] else []) @
      (if libcurl_has version 25 then [OPT_TCP_KEEPALIVE 1, OPT_TCP_KEEPIDLE 120, OPT_TCP_KEEPINTVL 60] else []))"

section \<open>Data\<close>

text \<open>
  \<open>status\<close> is the response code so far. The second result are the calls of the data callback, with the position of
  the data. The log of errors that a verbose network writes is left out.
\<close>

definition rx_function ::
  "bool \<Rightarrow> int \<Rightarrow> string \<Rightarrow> request_handle \<Rightarrow> request_handle \<times> (nat \<times> string) list" where
  "rx_function started status bytes h =
     (if rh_skip_content h \<and> status \<noteq> 200 \<and> status \<noteq> 206 \<and> status \<noteq> 201 \<and> status \<noteq> 0 then (h, [])
      else if started \<and> \<not> rh_range_out h \<and> \<not> rh_cancelled h
      then (h\<lparr>rh_payload := map_option (\<lambda>p.
                stream_write bytes
                  (if \<not> rh_ignore_offset h \<and> stream_position p \<noteq> rh_count h then stream_seekp (rh_count h) p else p))
                (rh_payload h),
              rh_count := rh_count h + length bytes\<rparr>,
            if rh_data_callback h then [(rh_offset h + rh_count h, bytes)] else [])
      else (h, []))"

definition rx_all :: "int \<Rightarrow> string list \<Rightarrow> request_handle \<Rightarrow> request_handle" where
  "rx_all status blocks h = fold (\<lambda>bytes h. fst (rx_function True status bytes h)) blocks h"

section \<open>Headers\<close>

text \<open>\<open>operator[]\<close> of a string gives a null character at its end and is undefined after it.\<close>

definition char_at :: "string \<Rightarrow> nat \<Rightarrow> char option" where
  "char_at s i = (if i < length s then Some (s ! i) else if i = length s then Some (CHR 0x00) else None)"

text \<open>\<open>std::stoi\<close> throws for a number that is no \<open>int\<close>.\<close>

definition stoi :: "string \<Rightarrow> int option" where
  "stoi s = Option.bind (stol s) (\<lambda>n. if n < - (2 ^ 31) \<or> 2 ^ 31 - 1 < n then None else Some n)"

definition header_line :: "string \<Rightarrow> string" where
  "header_line line =
     (let s = rev (dropWhile (\<lambda>c. c = CHR 0x0A \<or> c = CHR 0x0D) (rev line))
      in if s = [] then take 1 line else s)"

text \<open>
  What a header changes; \<open>None\<close> where the callback throws or reads after the end of the line. A name that is
  asked for is known to be there, so the texts after it are.
\<close>

definition keep_range :: "string \<Rightarrow> request_handle \<Rightarrow> request_handle option" where
  "keep_range str h =
     Option.bind (ci_starts_with str ''bytes '' 15) (\<lambda>is_bytes.
       if \<not> is_bytes then Some h
       else Option.bind (char_at str 21) (\<lambda>c.
         if c = CHR ''*''
         then Option.bind (char_at str 22) (\<lambda>d. Some (if d = CHR ''/'' then h\<lparr>rh_range_out := True\<rparr> else h))
         else if is_digit c
         then Option.bind (stol (drop 21 str)) (\<lambda>n. Some (h\<lparr>rh_offset := nat n\<rparr>))
         else Some h))"

definition keep_max_age :: "string \<Rightarrow> request_handle \<Rightarrow> request_handle option" where
  "keep_max_age str h =
     Option.bind (ci_find str ''max-age='' 8) (\<lambda>found.
       case found of
         None \<Rightarrow> Some h
       | Some index \<Rightarrow> Option.bind (stoi (drop (index + 8) str)) (\<lambda>n. Some (h\<lparr>rh_max_age := n\<rparr>)))"

definition keep_header :: "(string \<Rightarrow> int) \<Rightarrow> string \<Rightarrow> request_handle \<Rightarrow> request_handle option" where
  "keep_header curl_getdate str h =
     Option.bind (ci_starts_with str ''Date:'' 0) (\<lambda>is_date.
     if is_date then Some (h\<lparr>rh_date := drop 6 str\<rparr>) else
     Option.bind (ci_starts_with str ''Cache-Control:'' 0) (\<lambda>is_cache_control.
     if is_cache_control then keep_max_age str h else
     Option.bind (ci_starts_with str ''Expires:'' 0) (\<lambda>is_expires.
     if is_expires
     then (let date_string = drop 9 str in
           Some (h\<lparr>rh_expires := (if date_string = ''0'' then 0 else if date_string = ''-1'' then - 1
             else curl_getdate date_string)\<rparr>)) else
     Option.bind (ci_starts_with str ''ETag:'' 0) (\<lambda>is_etag.
     if is_etag then Some (h\<lparr>rh_etag := drop 6 str\<rparr>) else
     Option.bind (ci_starts_with str ''Content-Type:'' 0) (\<lambda>is_content_type.
     if is_content_type then Some (h\<lparr>rh_content_type := drop 14 str\<rparr>) else
     Option.bind (ci_starts_with str ''Content-Range:'' 0) (\<lambda>is_content_range.
     if is_content_range then keep_range str h else Some h))))))"

text \<open>The calls of the header callback come first.\<close>

definition header_function ::
  "(string \<Rightarrow> int) \<Rightarrow> bool \<Rightarrow> string \<Rightarrow> request_handle \<Rightarrow> ((string \<times> string) list \<times> request_handle) option" where
  "header_function curl_getdate started line h =
     (if \<not> started \<or> rh_cancelled h \<or> line = [] then Some ([], h)
      else
        (let str = header_line line; pos = length (takeWhile (\<lambda>c. c \<noteq> CHR '':'') str) in
         if length str \<le> pos + 2 then Some ([], h)
         else
           Option.bind (keep_header curl_getdate str h) (\<lambda>h'.
             Some (if rh_header_callback h then [(take pos str, drop (pos + 2) str)] else [], h'))))"

section \<open>The end of a transfer\<close>

definition response_for :: "request_handle \<Rightarrow> int \<Rightarrow> string \<Rightarrow> network_response" where
  "response_for h status error = \<lparr>net_request_id = rh_id h, net_status = status, net_error = error\<rparr>"

text \<open>
  What libcurl tells of the transfer: the result and its text, the response code, and the total time in
  microseconds.
\<close>

record transfer_result =
  tr_code :: curl_code
  tr_text :: string
  tr_http_status :: int
  tr_total_time :: int

definition transfer_status :: "nat \<times> nat \<Rightarrow> request_handle \<Rightarrow> transfer_result \<Rightarrow> int \<times> string" where
  "transfer_status version h r =
     (if tr_code r = CURLE_OK \<or> tr_code r = CURLE_HTTP_RETURNED_ERROR
      then (let status = tr_http_status r;
                status = (if rh_offset h = 0 \<and> status = 206 then 200 else status);
                status = (if status = 0 \<and> tr_code r = CURLE_OK then 200 else status)
            in (status, http_error_to_string status))
      else (if tr_code r = CURLE_PARTIAL_FILE \<and> rh_transfer_timeout h * 1000000 \<le> tr_total_time r
            then http_error_value TIMEOUT_ERROR else convert_error_code version (tr_code r),
            if rh_error_text h \<noteq> [] then rh_error_text h else tr_text r))"

text \<open>A request is sent again, or it is answered.\<close>

datatype completion = SendAgain request_handle | Answered network_response

definition complete_handle :: "nat \<times> nat \<Rightarrow> request_handle \<Rightarrow> transfer_result \<Rightarrow> completion" where
  "complete_handle version h r =
     (if rh_cancelled h then Answered (response_for h (http_error_value CANCELLED_ERROR) ''Cancelled'')
      else
        (case transfer_status version h r of (status, error) \<Rightarrow>
          if 0 < status \<and> (status < 200 \<or> 500 \<le> status) \<and> rh_retry_count h < rh_max_retries h
          then SendAgain (h\<lparr>rh_retry_count := rh_retry_count h + 1, rh_count := 0\<rparr>)
          else Answered (response_for h status error)))"

section \<open>Properties of one request\<close>

lemma certificate_never_verified:
  "OPT_SSL_VERIFYPEER 0 \<in> set (send_options version verbose has_stderr bundle request h) \<and>
   OPT_SSL_VERIFYPEER 1 \<notin> set (send_options version verbose has_stderr bundle request h)"
  by (auto simp: send_options_def Let_def body_options_def proxy_options_def split: list.splits option.splits;
      cases "request_verb request"; simp)

text \<open>The data of a transfer replaces what the stream has from its beginning on.\<close>

lemma stream_write_at:
  assumes "stream_position p \<le> length (stream_text p)"
  shows "stream_position (stream_write bytes p) \<le> length (stream_text (stream_write bytes p))"
  using assms by (simp add: stream_write_def)

lemma rx_all_payload:
  assumes "rh_payload h = Some p" and "\<not> rh_skip_content h" "\<not> rh_range_out h" "\<not> rh_cancelled h" "\<not> rh_ignore_offset h"
    and "stream_text p = got @ rest" and "rh_count h = length got"
  shows "map_option stream_text (rh_payload (rx_all status blocks h)) =
      Some (got @ concat blocks @ drop (length (concat blocks)) rest) \<and>
    rh_count (rx_all status blocks h) = length got + length (concat blocks)"
  using assms
proof (induction blocks arbitrary: h p got rest)
  case Nil
  then show ?case by (simp add: rx_all_def)
next
  case (Cons bytes blocks)
  let ?h = "fst (rx_function True status bytes h)"
  let ?p = "stream_write bytes (if stream_position p \<noteq> rh_count h then stream_seekp (rh_count h) p else p)"
  have p: "rh_payload ?h = Some ?p" "rh_count ?h = length (got @ bytes)" "\<not> rh_skip_content ?h" "\<not> rh_range_out ?h"
    "\<not> rh_cancelled ?h" "\<not> rh_ignore_offset ?h"
    using Cons.prems by (simp_all add: rx_function_def)
  have "stream_text ?p = got @ bytes @ drop (length bytes) rest"
    using Cons.prems(6,7) by (auto simp: stream_write_def stream_seekp_def)
  then have "stream_text ?p = (got @ bytes) @ drop (length bytes) rest"
    by simp
  from Cons.IH [OF p(1,3-6) this p(2)] show ?case
    using \<open>stream_text ?p = (got @ bytes) @ drop (length bytes) rest\<close> p(2)
    by (simp add: rx_all_def add.commute add.left_commute)
qed

text \<open>
  when a request is sent again after an answer of the server that counts as an error, the body of the new answer
  is written over the body of the old one: if the old one was longer, its end stays behind the new body, and the
  response is a success with that payload.
\<close>
theorem retried_body_keeps_old_tail:
  assumes "rh_payload h = Some \<lparr>stream_text = [], stream_position = 0\<rparr>" and "rh_count h = 0"
    and "\<not> rh_skip_content h" "\<not> rh_range_out h" "\<not> rh_cancelled h" "\<not> rh_ignore_offset h"
    and "tr_code r = CURLE_OK" and "500 \<le> tr_http_status r" and "rh_retry_count h < rh_max_retries h"
  shows "\<exists>h'. complete_handle version (rx_all (tr_http_status r) old h) r = SendAgain h' \<and>
    map_option stream_text (rh_payload (rx_all 200 new h')) =
      Some (concat new @ drop (length (concat new)) (concat old))"
proof -
  let ?h = "rx_all (tr_http_status r) old h"
  have keep: "rh_skip_content (rx_all s bs g) = rh_skip_content g \<and> rh_range_out (rx_all s bs g) = rh_range_out g \<and>
    rh_cancelled (rx_all s bs g) = rh_cancelled g \<and> rh_ignore_offset (rx_all s bs g) = rh_ignore_offset g \<and>
    rh_retry_count (rx_all s bs g) = rh_retry_count g \<and> rh_max_retries (rx_all s bs g) = rh_max_retries g" for s bs g
    by (induction bs arbitrary: g) (simp_all add: rx_all_def rx_function_def)
  from rx_all_payload [OF assms(1,3-6), of "[]" "[]"] assms(2)
  obtain p where p: "rh_payload ?h = Some p" "stream_text p = concat old"
    by auto
  let ?h' = "?h\<lparr>rh_retry_count := rh_retry_count ?h + 1, rh_count := 0\<rparr>"
  have "complete_handle version ?h r = SendAgain ?h'"
    using assms keep by (auto simp: complete_handle_def transfer_status_def Let_def)
  moreover have "map_option stream_text (rh_payload (rx_all 200 new ?h')) =
      Some (concat new @ drop (length (concat new)) (concat old))"
    using rx_all_payload [of ?h' p "[]" "concat old"] p keep assms by simp
  ultimately show ?thesis by blast
qed

definition fresh_request :: request_handle where
  "fresh_request = configured_handle (request_of_url ''u'')
     (taken_handle 0 1 0 False False (Some \<lparr>stream_text = [], stream_position = 0\<rparr>) None empty_request_handle)"

lemma retried_body_keeps_old_tail_witness:
  "\<exists>h'. complete_handle (7, 60) (rx_all 503 [''Service'', '' Unavailable''] fresh_request)
      \<lparr>tr_code = CURLE_OK, tr_text = [], tr_http_status = 503, tr_total_time = 0\<rparr> = SendAgain h' \<and>
    map_option stream_text (rh_payload (rx_all 200 [''{}''] h')) = Some ''{}rvice Unavailable''"
  using retried_body_keeps_old_tail [of fresh_request "\<lparr>tr_code = CURLE_OK, tr_text = [], tr_http_status = 503, tr_total_time = 0\<rparr>"
      "(7, 60)" "[''Service'', '' Unavailable'']" "[''{}'']"]
  by (simp add: fresh_request_def configured_handle_def taken_handle_def empty_request_handle_def request_of_url_def
      default_network_settings_def)

text \<open>
  A header that names a maximal age which is not a number, or none of 31 bits, ends the program: the exception goes
  through libcurl.
\<close>

lemmas header_line_simps = header_function_def header_line_def keep_header_def keep_max_age_def ci_find_def ci_find_loop.simps
  ci_starts_with_def same_upper_at_def simple_to_upper_def stoi_def stol_def is_digit_def is_space_def digits_value_def Let_def

lemma max_age_without_number_throws:
  assumes "\<not> rh_cancelled h"
  shows "header_function f True ''Cache-Control: max-age=x'' h = None"
    and "header_function f True ''cache-control: max-age=9999999999'' h = None"
  using assms by (simp_all add: header_line_simps) (simp add: char_of_def bit_Suc_0_iff)

lemma max_age_number_is_kept:
  assumes "\<not> rh_cancelled h" and "\<not> rh_header_callback h"
  shows "header_function f True ''Cache-Control: public, max-age=120'' h = Some ([], h\<lparr>rh_max_age := 120\<rparr>)"
  using assms by (simp add: header_line_simps)

text \<open>A header without a space after the colon loses its first character.\<close>

lemma header_without_space_is_cut:
  assumes "\<not> rh_cancelled h" and "rh_header_callback h"
  shows "header_function f True ''Server:nginx'' h = Some ([(''Server'', ''ginx'')], h)"
  using assms by (simp add: header_line_simps)

end
