(* ===== verification/NetworkCurl.thy ===== *)
theory NetworkCurl
  imports CurlHandle "HOL-Library.Multiset"
begin

text \<open>
  The state that the requests of \<open>src/http/curl/NetworkCurl.cpp\<close> share: the handles, the queue of events, and the
  worker thread. A step is what one thread does under the lock, or what libcurl reports to the worker thread. The
  callback of a request is represented by the number of the request; its calls are recorded.
\<close>

datatype worker_state = STOPPED | STARTED | STOPPING

datatype event_info_type = SEND_EVENT | CANCEL_EVENT

text \<open>
  \<open>nc_multi\<close> are the transfers that libcurl runs, \<open>nc_failed\<close> the handles that it refused in the current round of the
  worker thread, \<open>nc_checked\<close> the identifiers of the senders that have seen the network started and ask for a
  handle, \<open>nc_preparing\<close> the handles whose senders set their options, \<open>nc_abandoned\<close> those whose senders gave up.
  \<open>nc_accepted\<close> counts the handles that were given out, \<open>nc_called\<close> are the calls of the callbacks, and \<open>nc_dropped\<close>
  the requests whose handles were in use when the network was initialised.
\<close>

record network_curl =
  nc_handles :: "request_handle list"
  nc_static_handle_count :: nat
  nc_state :: worker_state
  nc_events :: "(event_info_type \<times> nat) list"
  nc_request_id_counter :: u64
  nc_multi :: "nat list"
  nc_failed :: "nat list"
  nc_checked :: "u64 list"
  nc_preparing :: "nat list"
  nc_abandoned :: "nat list"
  nc_accepted :: nat
  nc_called :: "(nat \<times> network_response) list"
  nc_dropped :: "nat list"

definition network_curl_new :: "nat \<Rightarrow> network_curl" where
  "network_curl_new max_requests_count = \<lparr>nc_handles = replicate max_requests_count empty_request_handle,
     nc_static_handle_count = max 1 (max_requests_count div 4), nc_state = STOPPED, nc_events = [],
     nc_request_id_counter = 1, nc_multi = [], nc_failed = [], nc_checked = [], nc_preparing = [], nc_abandoned = [],
     nc_accepted = 0, nc_called = [], nc_dropped = []\<rparr>"

section \<open>Handles\<close>

definition is_started :: "network_curl \<Rightarrow> bool" where
  "is_started s \<longleftrightarrow> nc_state s = STARTED"

definition network_ready :: "network_curl \<Rightarrow> bool" where
  "network_ready s \<longleftrightarrow> is_started s \<and> list_ex (\<lambda>h. \<not> rh_in_use h) (nc_handles s)"

definition amount_pending :: "network_curl \<Rightarrow> nat" where
  "amount_pending s = length (filter rh_in_use (nc_handles s))"

definition set_handle :: "nat \<Rightarrow> request_handle \<Rightarrow> network_curl \<Rightarrow> network_curl" where
  "set_handle i h s = s\<lparr>nc_handles := (nc_handles s)[i := h]\<rparr>"

definition add_event :: "event_info_type \<Rightarrow> nat \<Rightarrow> network_curl \<Rightarrow> network_curl" where
  "add_event t i s = s\<lparr>nc_events := nc_events s @ [(t, i)]\<rparr>"

text \<open>The first handle with a property.\<close>

fun first_handle :: "(request_handle \<Rightarrow> bool) \<Rightarrow> request_handle list \<Rightarrow> nat option" where
  "first_handle P [] = None"
| "first_handle P (h # hs) = (if P h then Some 0 else map_option Suc (first_handle P hs))"

text \<open>A handle is given out with a new number; \<open>easy_init\<close> says whether libcurl can make a handle where there is none.\<close>

definition get_handle ::
  "bool \<Rightarrow> int \<Rightarrow> u64 \<Rightarrow> network_request \<Rightarrow> payload_stream option \<Rightarrow> bool \<Rightarrow> bool \<Rightarrow> network_curl \<Rightarrow> nat option \<times> network_curl" where
  "get_handle easy_init now i request payload has_header_callback has_data_callback s =
     (case first_handle (\<lambda>h. \<not> rh_in_use h) (nc_handles s) of
        None \<Rightarrow> (None, s)
      | Some k \<Rightarrow>
          if \<not> rh_easy (nc_handles s ! k) \<and> \<not> easy_init then (None, s)
          else (Some k,
            (set_handle k
              (taken_handle now i (nc_accepted s) has_header_callback has_data_callback payload (request_body request)
                (nc_handles s ! k)) s)\<lparr>nc_accepted := nc_accepted s + 1\<rparr>))"

definition release_handle :: "nat \<Rightarrow> network_curl \<Rightarrow> network_curl" where
  "release_handle k s = set_handle k (released_handle (nc_handles s ! k)) s"

section \<open>Starting and stopping\<close>

definition initialised_handle :: "nat \<Rightarrow> nat \<Rightarrow> request_handle \<Rightarrow> request_handle" where
  "initialised_handle static_handle_count i h = h\<lparr>rh_easy := i < static_handle_count, rh_in_use := False\<rparr>"

text \<open>A request is in flight while its handle is in use and libcurl's is there.\<close>

definition in_flight :: "request_handle \<Rightarrow> bool" where
  "in_flight h \<longleftrightarrow> rh_in_use h \<and> rh_easy h \<and> rh_callback h \<noteq> None"

definition flying :: "request_handle list \<Rightarrow> nat list" where
  "flying hs = map (\<lambda>h. the (rh_callback h)) (filter in_flight hs)"

text \<open>\<open>ok\<close> says whether the pipe and the multi handle can be made. The call waits for the worker thread.\<close>

definition network_initialize :: "bool \<Rightarrow> network_curl \<Rightarrow> bool \<times> network_curl" where
  "network_initialize ok s =
     (if nc_state s \<noteq> STOPPED then (True, s)
      else if \<not> ok then (False, s)
      else (True, s\<lparr>nc_handles := map (\<lambda>(i, h). initialised_handle (nc_static_handle_count s) i h) (enumerate 0 (nc_handles s)),
                   nc_dropped := nc_dropped s @ flying (nc_handles s), nc_state := STARTED\<rparr>))"

definition network_deinitialize :: "network_curl \<Rightarrow> network_curl" where
  "network_deinitialize s = (if nc_state s \<noteq> STARTED then s else s\<lparr>nc_state := STOPPING\<rparr>)"

definition offline_response :: "request_handle \<Rightarrow> network_response" where
  "offline_response h = response_for h (http_error_value OFFLINE_ERROR) ''Offline: network is deinitialized''"

text \<open>The worker thread ends: the requests in flight are called back.\<close>

definition network_teardown :: "network_curl \<Rightarrow> network_curl" where
  "network_teardown s =
     s\<lparr>nc_events := [], nc_multi := [], nc_failed := [], nc_state := STOPPED,
       nc_called := nc_called s @ map (\<lambda>h. (the (rh_callback h), offline_response h)) (filter in_flight (nc_handles s)),
       nc_handles := map (\<lambda>h. h\<lparr>rh_easy := False\<rparr>) (nc_handles s)\<rparr>"

section \<open>Sending and cancelling\<close>

text \<open>The first part of \<open>Send\<close>: the network is started, and the request gets its identifier.\<close>

definition next_request_id :: "u64 \<Rightarrow> u64" where
  "next_request_id i = (if i = - 1 then 1 else i + 1)"

definition send_checked :: "bool \<Rightarrow> network_curl \<Rightarrow> send_outcome option \<times> network_curl" where
  "send_checked init_ok s =
     (let (ok, s) = (if is_started s then (True, s) else network_initialize init_ok s)
      in if \<not> ok then (Some (outcome_of_error OFFLINE_ERROR), s)
         else
           (let i = nc_request_id_counter s; s = s\<lparr>nc_request_id_counter := next_request_id i\<rparr>
            in if \<not> is_started s then (Some (outcome_of_error IO_ERROR), s)
               else (None, s\<lparr>nc_checked := nc_checked s @ [i]\<rparr>)))"

text \<open>The second part: a handle is taken and configured.\<close>

definition send_takes_handle ::
  "nat \<Rightarrow> bool \<Rightarrow> int \<Rightarrow> network_request \<Rightarrow> payload_stream option \<Rightarrow> bool \<Rightarrow> bool \<Rightarrow> network_curl \<Rightarrow>
   send_outcome option \<times> network_curl" where
  "send_takes_handle j easy_init now request payload has_header_callback has_data_callback s =
     (let i = nc_checked s ! j; s = s\<lparr>nc_checked := take j (nc_checked s) @ drop (j + 1) (nc_checked s)\<rparr>
      in case get_handle easy_init now i request payload has_header_callback has_data_callback s of
           (None, s) \<Rightarrow> (Some (outcome_of_error NETWORK_OVERLOAD_ERROR), s)
         | (Some k, s) \<Rightarrow>
             (None, (set_handle k (configured_handle request (nc_handles s ! k)) s)\<lparr>nc_preparing := nc_preparing s @ [k]\<rparr>))"

text \<open>\<open>GetHandle\<close> asks once more whether the network is started, before it takes the lock.\<close>

definition send_sees_stopped :: "nat \<Rightarrow> network_curl \<Rightarrow> send_outcome option \<times> network_curl" where
  "send_sees_stopped j s =
     (Some (outcome_of_error NETWORK_OVERLOAD_ERROR), s\<lparr>nc_checked := take j (nc_checked s) @ drop (j + 1) (nc_checked s)\<rparr>)"

text \<open>The last part: the event is added, or libcurl has refused the certificates.\<close>

definition send_finishes :: "nat \<Rightarrow> bool \<Rightarrow> network_curl \<Rightarrow> network_curl" where
  "send_finishes k ca_ok s =
     (let s = s\<lparr>nc_preparing := remove1 k (nc_preparing s)\<rparr>
      in if ca_ok then add_event SEND_EVENT k s else s\<lparr>nc_abandoned := k # nc_abandoned s\<rparr>)"

definition network_cancel :: "u64 \<Rightarrow> network_curl \<Rightarrow> network_curl" where
  "network_cancel i s =
     (if \<not> is_started s then s
      else case first_handle (\<lambda>h. rh_in_use h \<and> rh_id h = i) (nc_handles s) of
          None \<Rightarrow> s
        | Some k \<Rightarrow> add_event CANCEL_EVENT k (set_handle k ((nc_handles s ! k)\<lparr>rh_cancelled := True\<rparr>) s))"

section \<open>The worker thread\<close>

text \<open>\<open>CompleteMessage\<close>: the callback is called after the handle was released.\<close>

definition complete_message :: "nat \<times> nat \<Rightarrow> nat \<Rightarrow> transfer_result \<Rightarrow> network_curl \<Rightarrow> network_curl" where
  "complete_message version k r s =
     (let h = nc_handles s ! k
      in if \<not> rh_in_use h then s
         else if \<not> rh_cancelled h \<and> rh_callback h = None then release_handle k s
         else (case complete_handle version h r of
             SendAgain h \<Rightarrow> add_event SEND_EVENT k (set_handle k h s)
           | Answered response \<Rightarrow>
               (release_handle k s)\<lparr>nc_called := nc_called s @ [(the (rh_callback h), response)]\<rparr>))"

definition result_of_code :: "curl_code \<Rightarrow> string \<Rightarrow> transfer_result" where
  "result_of_code result_code result_text = \<lparr>tr_code = result_code, tr_text = result_text, tr_http_status = 0, tr_total_time = 0\<rparr>"

text \<open>
  An event. libcurl refuses a handle that it has already, and may refuse others; a handle that is removed need not
  be there.
\<close>

definition take_event :: "nat \<times> nat \<Rightarrow> bool \<Rightarrow> string \<Rightarrow> network_curl \<Rightarrow> network_curl" where
  "take_event version add_ok timeout_text s =
     (case nc_events s of
        [] \<Rightarrow> s
      | (t, k) # events \<Rightarrow>
          (let s = s\<lparr>nc_events := events\<rparr>
           in if \<not> rh_in_use (nc_handles s ! k) then s
              else case t of
                  SEND_EVENT \<Rightarrow>
                    if add_ok \<and> k \<notin> set (nc_multi s) then s\<lparr>nc_multi := k # nc_multi s\<rparr>
                    else s\<lparr>nc_failed := nc_failed s @ [k]\<rparr>
                | CANCEL_EVENT \<Rightarrow>
                    complete_message version k (result_of_code CURLE_OPERATION_TIMEDOUT timeout_text)
                      (s\<lparr>nc_multi := removeAll k (nc_multi s)\<rparr>)))"

definition complete_failed :: "nat \<times> nat \<Rightarrow> string \<Rightarrow> network_curl \<Rightarrow> network_curl" where
  "complete_failed version connect_text s =
     (case nc_failed s of
        [] \<Rightarrow> s
      | k # ks \<Rightarrow> complete_message version k (result_of_code CURLE_COULDNT_CONNECT connect_text) (s\<lparr>nc_failed := ks\<rparr>))"

text \<open>libcurl reports that a transfer is done.\<close>

definition transfer_done :: "nat \<times> nat \<Rightarrow> nat \<Rightarrow> transfer_result \<Rightarrow> network_curl \<Rightarrow> network_curl" where
  "transfer_done version k r s =
     complete_message version k r (s\<lparr>nc_multi := removeAll k (nc_multi s)\<rparr>)"

text \<open>
  A handle that was taken more than 30 seconds ago and has not begun is lost; \<open>remove_ok\<close> says whether libcurl
  gives it back.
\<close>

definition curl_error_response :: "request_handle \<Rightarrow> network_response" where
  "curl_error_response h = response_for h (http_error_value IO_ERROR) ''CURL error''"

definition handle_lost :: "nat \<times> nat \<Rightarrow> int \<Rightarrow> nat \<Rightarrow> int \<Rightarrow> string \<Rightarrow> bool \<Rightarrow> network_curl \<Rightarrow> network_curl" where
  "handle_lost version now k total_time timeout_text remove_ok s =
     (let h = nc_handles s ! k
      in if rh_in_use h \<and> 30 < now - rh_send_time h \<and> total_time = 0
         then if remove_ok
              then complete_message version k (result_of_code CURLE_OPERATION_TIMEDOUT timeout_text)
                     (s\<lparr>nc_multi := removeAll k (nc_multi s)\<rparr>)
              else if rh_callback h = None then release_handle k s
              else (release_handle k s)\<lparr>nc_called := nc_called s @ [(the (rh_callback h), curl_error_response h)]\<rparr>
         else s)"

text \<open>The handles above the static ones are closed when they were not used for 120 seconds.\<close>

definition clean_handle :: "int \<Rightarrow> nat \<Rightarrow> network_curl \<Rightarrow> network_curl" where
  "clean_handle now k s =
     (let h = nc_handles s ! k
      in if nc_static_handle_count s \<le> k \<and> rh_easy h \<and> \<not> rh_in_use h \<and> rh_send_time h + 120 < now
         then set_handle k (h\<lparr>rh_easy := False\<rparr>) s else s)"

section \<open>Runs\<close>

text \<open>
  The arguments are what the users ask for and what libcurl and the clock say. A handle that the worker thread
  speaks of is one of the handles. The worker thread looks at events and transfers while the network is started, and
  finishes what it has begun.
\<close>

datatype curl_action =
    Initialize bool
  | SendChecked bool
  | SendSeesStopped nat
  | SendTakesHandle nat bool int network_request "payload_stream option" bool bool
  | SendFinishes nat bool
  | CancelRequest u64
  | TakeEvent bool string
  | CompleteFailed string
  | TransferDone nat transfer_result
  | HandleLost int nat int string bool
  | CleanHandle int nat
  | Deinitialize
  | Teardown

fun curl_step :: "nat \<times> nat \<Rightarrow> curl_action \<Rightarrow> network_curl \<Rightarrow> network_curl option" where
  "curl_step version (Initialize ok) s = Some (snd (network_initialize ok s))"
| "curl_step version (SendSeesStopped j) s =
     (if j < length (nc_checked s) \<and> \<not> is_started s then Some (snd (send_sees_stopped j s)) else None)"
| "curl_step version (SendChecked init_ok) s = Some (snd (send_checked init_ok s))"
| "curl_step version (SendTakesHandle j easy_init now request payload hc dc) s =
     (if j < length (nc_checked s) then Some (snd (send_takes_handle j easy_init now request payload hc dc s)) else None)"
| "curl_step version (SendFinishes k ca_ok) s = (if k \<in> set (nc_preparing s) then Some (send_finishes k ca_ok s) else None)"
| "curl_step version (CancelRequest i) s = Some (network_cancel i s)"
| "curl_step version (TakeEvent add_ok timeout_text) s =
     (if is_started s then Some (take_event version add_ok timeout_text s) else None)"
| "curl_step version (CompleteFailed connect_text) s =
     (if nc_state s \<noteq> STOPPED then Some (complete_failed version connect_text s) else None)"
| "curl_step version (TransferDone k r) s =
     (if is_started s \<and> k \<in> set (nc_multi s) then Some (transfer_done version k r s) else None)"
| "curl_step version (HandleLost now k total_time timeout_text remove_ok) s =
     (if nc_state s \<noteq> STOPPED \<and> k < length (nc_handles s)
      then Some (handle_lost version now k total_time timeout_text remove_ok s) else None)"
| "curl_step version (CleanHandle now k) s =
     (if nc_state s \<noteq> STOPPED \<and> k < length (nc_handles s) then Some (clean_handle now k s) else None)"
| "curl_step version Deinitialize s = Some (network_deinitialize s)"
| "curl_step version Teardown s = (if nc_state s = STOPPING then Some (network_teardown s) else None)"

fun curl_run :: "nat \<times> nat \<Rightarrow> curl_action list \<Rightarrow> network_curl \<Rightarrow> network_curl option" where
  "curl_run version [] s = Some s"
| "curl_run version (e # es) s = Option.bind (curl_step version e s) (curl_run version es)"

section \<open>What is kept\<close>

text \<open>
  Every request that got a handle was called back once, is in flight, or was dropped; what is in flight waits for its
  sender, for an event, for libcurl or for its completion; and the retries are counted.
\<close>

definition accounted :: "network_curl \<Rightarrow> bool" where
  "accounted s \<longleftrightarrow> mset (map fst (nc_called s)) + mset (flying (nc_handles s)) + mset (nc_dropped s) = mset [0..<nc_accepted s]"

definition awaited :: "network_curl \<Rightarrow> nat \<Rightarrow> bool" where
  "awaited s k \<longleftrightarrow> k \<in> set (nc_preparing s) \<or> (SEND_EVENT, k) \<in> set (nc_events s) \<or> k \<in> set (nc_multi s) \<or>
     k \<in> set (nc_failed s) \<or> k \<in> set (nc_abandoned s)"

definition handle_ok :: "request_handle \<Rightarrow> bool" where
  "handle_ok h \<longleftrightarrow> (rh_in_use h \<and> rh_easy h \<longrightarrow> rh_callback h \<noteq> None) \<and>
     (in_flight h \<longrightarrow> rh_retry_count h \<le> rh_max_retries h)"

text \<open>The handles that wait somewhere.\<close>

definition mentioned :: "network_curl \<Rightarrow> nat set" where
  "mentioned s = set (nc_preparing s) \<union> snd ` set (nc_events s) \<union> set (nc_multi s) \<union> set (nc_failed s)"

lemma mentioned_simps [simp]:
  "mentioned (s\<lparr>nc_handles := hs\<rparr>) = mentioned s" "mentioned (s\<lparr>nc_called := calls\<rparr>) = mentioned s"
  "mentioned (s\<lparr>nc_accepted := n\<rparr>) = mentioned s" "mentioned (s\<lparr>nc_state := st\<rparr>) = mentioned s"
  "mentioned (s\<lparr>nc_dropped := ds\<rparr>) = mentioned s" "mentioned (s\<lparr>nc_checked := is\<rparr>) = mentioned s"
  "mentioned (s\<lparr>nc_request_id_counter := i\<rparr>) = mentioned s" "mentioned (s\<lparr>nc_abandoned := ks\<rparr>) = mentioned s"
  "mentioned (s\<lparr>nc_events := nc_events s @ [e]\<rparr>) = insert (snd e) (mentioned s)"
  "mentioned (s\<lparr>nc_handles := hs, nc_events := nc_events s @ [e]\<rparr>) = insert (snd e) (mentioned s)"
  "mentioned (s\<lparr>nc_preparing := nc_preparing s @ [k]\<rparr>) = insert k (mentioned s)"
  by (auto simp: mentioned_def)

lemma mentioned_set_handle [simp]: "mentioned (set_handle k h s) = mentioned s"
    "mentioned (add_event t k s) = insert k (mentioned s)"
  by (simp_all add: set_handle_def add_event_def)

definition curl_ok :: "network_curl \<Rightarrow> bool" where
  "curl_ok s \<longleftrightarrow> accounted s \<and> (\<forall>k \<in> mentioned s. k < length (nc_handles s)) \<and> list_all handle_ok (nc_handles s) \<and>
     (\<forall>k < length (nc_handles s). in_flight (nc_handles s ! k) \<longrightarrow> awaited s k) \<and>
     (nc_state s \<noteq> STOPPED \<longrightarrow> (\<forall>k < length (nc_handles s). rh_in_use (nc_handles s ! k) \<longrightarrow> rh_easy (nc_handles s ! k)))"

lemma mset_filter_update:
  assumes "k < length xs"
  shows "mset (map f (filter P (xs[k := x]))) + (if P (xs ! k) then {#f (xs ! k)#} else {#}) =
    mset (map f (filter P xs)) + (if P x then {#f x#} else {#})"
  using assms arg_cong [OF id_take_nth_drop [OF assms], of "\<lambda>l. mset (map f (filter P l))"]
  by (simp add: upd_conv_take_nth_drop)

lemma flying_update:
  assumes "k < length hs"
  shows "mset (flying (hs[k := h])) + (if in_flight (hs ! k) then {#the (rh_callback (hs ! k))#} else {#}) =
    mset (flying hs) + (if in_flight h then {#the (rh_callback h)#} else {#})"
  using mset_filter_update [OF assms, of "\<lambda>h. the (rh_callback h)" in_flight h] by (simp add: flying_def)

lemma first_handle_Some:
  "first_handle P hs = Some k \<Longrightarrow> k < length hs \<and> P (hs ! k)"
  by (induction hs arbitrary: k) (auto split: if_splits simp: nth_Cons split: nat.splits)

lemma network_curl_new_ok: "curl_ok (network_curl_new n)"
  by (auto simp: curl_ok_def network_curl_new_def accounted_def flying_def handle_ok_def in_flight_def
      empty_request_handle_def list_all_iff mentioned_def)

text \<open>All but one handle are awaited.\<close>

definition curl_ok_but :: "nat \<Rightarrow> network_curl \<Rightarrow> bool" where
  "curl_ok_but k s \<longleftrightarrow> accounted s \<and> (\<forall>k \<in> mentioned s. k < length (nc_handles s)) \<and> list_all handle_ok (nc_handles s) \<and>
     (\<forall>j < length (nc_handles s). j \<noteq> k \<longrightarrow> in_flight (nc_handles s ! j) \<longrightarrow> awaited s j) \<and>
     (nc_state s \<noteq> STOPPED \<longrightarrow> (\<forall>j < length (nc_handles s). rh_in_use (nc_handles s ! j) \<longrightarrow> rh_easy (nc_handles s ! j)))"

lemma curl_ok_ok_but: "curl_ok s \<Longrightarrow> curl_ok_but k s"
  by (simp add: curl_ok_def curl_ok_but_def)

lemma curl_ok_but_ok: "curl_ok_but k s \<Longrightarrow> k < length (nc_handles s) \<Longrightarrow> in_flight (nc_handles s ! k) \<longrightarrow> awaited s k \<Longrightarrow> curl_ok s"
  unfolding curl_ok_def curl_ok_but_def by metis

lemma in_flight_released [simp]: "\<not> in_flight (released_handle h)"
  by (simp add: in_flight_def released_handle_def)

lemma handle_ok_released [simp]: "handle_ok (released_handle h)"
  by (simp add: handle_ok_def released_handle_def in_flight_def)

lemma list_all_update: "list_all P xs \<Longrightarrow> P x \<Longrightarrow> list_all P (xs[k := x])"
  by (auto simp: list_all_iff dest: set_update_subset_insert [THEN subsetD])

text \<open>A handle is released and its callback called.\<close>

lemma release_called_ok:
  assumes ok: "curl_ok_but k s" and k: "k < length (nc_handles s)" and fly: "in_flight (nc_handles s ! k)"
  shows "curl_ok ((release_handle k s)\<lparr>nc_called := nc_called s @ [(the (rh_callback (nc_handles s ! k)), response)]\<rparr>)"
proof (rule curl_ok_but_ok)
  let ?s = "(release_handle k s)\<lparr>nc_called := nc_called s @ [(the (rh_callback (nc_handles s ! k)), response)]\<rparr>"
  have "mset (flying ((nc_handles s)[k := released_handle (nc_handles s ! k)])) + {#the (rh_callback (nc_handles s ! k))#} =
      mset (flying (nc_handles s))"
    using flying_update [OF k, of "released_handle (nc_handles s ! k)"] fly by simp
  then have "accounted ?s"
    using ok by (simp add: accounted_def curl_ok_but_def release_handle_def set_handle_def union_ac)
      (metis add_mset_add_single union_assoc union_commute)
  then show "curl_ok_but k ?s"
    using ok k by (auto simp: curl_ok_but_def release_handle_def set_handle_def list_all_update awaited_def nth_list_update)
      (simp_all add: released_handle_def)
qed (use k in \<open>simp_all add: release_handle_def set_handle_def\<close>)

lemma complete_message_ok:
  assumes ok: "curl_ok_but k s" and started: "nc_state s \<noteq> STOPPED" and k: "k < length (nc_handles s)"
  shows "curl_ok (complete_message version k r s)"
proof (cases "rh_in_use (nc_handles s ! k)")
  case False
  then show ?thesis
    using curl_ok_but_ok [OF ok k] by (simp add: complete_message_def Let_def in_flight_def)
next
  case True
  let ?h = "nc_handles s ! k"
  have h: "handle_ok ?h" "rh_easy ?h"
    using ok k started True by (auto simp: curl_ok_but_def list_all_length)
  then have fly: "in_flight ?h"
    using True by (auto simp: handle_ok_def in_flight_def)
  show ?thesis
  proof (cases "complete_handle version ?h r")
    case (Answered response)
    then show ?thesis
      using release_called_ok [OF ok k fly, of response] True fly
      by (auto simp: complete_message_def Let_def in_flight_def)
  next
    case (SendAgain h')
    then have h': "h' = ?h\<lparr>rh_retry_count := rh_retry_count ?h + 1, rh_count := 0\<rparr>" and less: "rh_retry_count ?h < rh_max_retries ?h"
      by (auto simp: complete_handle_def split: if_splits prod.splits)
    let ?s = "add_event SEND_EVENT k (set_handle k h' s)"
    have fly': "in_flight h'" and cb: "rh_callback h' = rh_callback ?h"
      using fly by (simp_all add: h' in_flight_def)
    have "mset (flying ((nc_handles s)[k := h'])) = mset (flying (nc_handles s))"
      using flying_update [OF k, of h'] fly fly' cb by simp
    moreover have "\<forall>j \<in> mentioned ?s. j < length (nc_handles ?s)"
      using ok k by (auto simp: curl_ok_but_def) (simp_all add: set_handle_def add_event_def)
    ultimately have "curl_ok_but k ?s"
      using ok k fly fly' less h'
      by (auto simp: curl_ok_but_def set_handle_def add_event_def accounted_def awaited_def list_all_update nth_list_update
          handle_ok_def in_flight_def)
    moreover have "awaited ?s k"
      by (simp add: awaited_def add_event_def set_handle_def)
    ultimately have "curl_ok ?s"
      using curl_ok_but_ok [of k ?s] k by (simp add: add_event_def set_handle_def)
    then show ?thesis
      using SendAgain True fly by (auto simp: complete_message_def Let_def in_flight_def)
  qed
qed

text \<open>What does not touch the handles.\<close>

lemma curl_ok_events:
  assumes "curl_ok s" and "nc_handles s' = nc_handles s" "nc_called s' = nc_called s" "nc_dropped s' = nc_dropped s"
    "nc_accepted s' = nc_accepted s" "nc_state s' \<noteq> STOPPED \<longrightarrow> nc_state s \<noteq> STOPPED"
    and "mentioned s' \<subseteq> mentioned s" and "\<And>k. awaited s k \<Longrightarrow> in_flight (nc_handles s ! k) \<Longrightarrow> awaited s' k"
  shows "curl_ok s'"
  using assms by (auto simp: curl_ok_def accounted_def)

lemma curl_ok_but_events:
  assumes "curl_ok s" and "nc_handles s' = nc_handles s" "nc_called s' = nc_called s" "nc_dropped s' = nc_dropped s"
    "nc_accepted s' = nc_accepted s" "nc_state s' = nc_state s" and "mentioned s' \<subseteq> mentioned s" and "\<And>j. awaited s j \<Longrightarrow> j \<noteq> k \<Longrightarrow> awaited s' j"
  shows "curl_ok_but k s'"
  using assms by (auto simp: curl_ok_def curl_ok_but_def accounted_def)

lemma network_initialize_ok:
  assumes "curl_ok s"
  shows "curl_ok (snd (network_initialize ok s))"
proof (cases "nc_state s = STOPPED \<and> ok")
  case True
  let ?hs = "map (\<lambda>(i, h). initialised_handle (nc_static_handle_count s) i h) (enumerate 0 (nc_handles s))"
  have idle: "\<not> rh_in_use h" if "h \<in> set ?hs" for h
    using that by (auto simp: initialised_handle_def)
  then have "flying ?hs = []" "list_all handle_ok ?hs"
    by (auto simp: flying_def in_flight_def filter_empty_conv handle_ok_def list_all_iff)
  moreover have "\<not> rh_in_use (?hs ! k)" if "k < length ?hs" for k
    using idle that nth_mem by blast
  ultimately show ?thesis
    using assms True by (auto simp: network_initialize_def curl_ok_def accounted_def in_flight_def union_ac)
qed (use assms in \<open>auto simp: network_initialize_def\<close>)

lemma send_checked_ok:
  assumes "curl_ok s" shows "curl_ok (snd (send_checked init_ok s))"
proof -
  have "curl_ok (t\<lparr>nc_request_id_counter := i\<rparr>)" "curl_ok (t\<lparr>nc_request_id_counter := i, nc_checked := c\<rparr>)"
    if "curl_ok t" for t i c
    using that by (auto intro: curl_ok_events simp: awaited_def)
  then show ?thesis
    using assms network_initialize_ok [OF assms, of init_ok]
    by (auto simp: send_checked_def Let_def split: prod.splits)
qed

lemma network_teardown_ok:
  assumes "curl_ok s" shows "curl_ok (network_teardown s)"
proof -
  let ?hs = "map (\<lambda>h. h\<lparr>rh_easy := False\<rparr>) (nc_handles s)"
  have none: "\<not> in_flight (?hs ! k)" if "k < length ?hs" for k
    using that by (simp add: in_flight_def)
  have flies: "flying ?hs = []"
    by (auto simp: flying_def filter_empty_conv in_flight_def)
  have "map fst (nc_called (network_teardown s)) = map fst (nc_called s) @ flying (nc_handles s)"
    by (simp add: network_teardown_def flying_def)
  then have "accounted (network_teardown s)"
    using assms flies unfolding curl_ok_def accounted_def by (simp add: network_teardown_def del: mset_map)
  moreover have "list_all handle_ok ?hs"
    by (simp add: list_all_iff handle_ok_def in_flight_def)
  moreover have "\<forall>k \<in> mentioned (network_teardown s). k < length ?hs"
    using assms by (auto simp: mentioned_def network_teardown_def curl_ok_def)
  ultimately show ?thesis
    using none by (simp add: curl_ok_def network_teardown_def)
qed

lemma network_cancel_ok:
  assumes "curl_ok s" shows "curl_ok (network_cancel i s)"
proof (cases "is_started s \<and> first_handle (\<lambda>h. rh_in_use h \<and> rh_id h = i) (nc_handles s) \<noteq> None")
  case True
  then obtain k where k: "first_handle (\<lambda>h. rh_in_use h \<and> rh_id h = i) (nc_handles s) = Some k" by blast
  let ?h = "(nc_handles s ! k)\<lparr>rh_cancelled := True\<rparr>"
  have "k < length (nc_handles s)" using first_handle_Some [OF k] by simp
  moreover have same: "in_flight ?h = in_flight (nc_handles s ! k)" "handle_ok ?h = handle_ok (nc_handles s ! k)"
    by (simp_all add: in_flight_def handle_ok_def)
  ultimately have "mset (flying ((nc_handles s)[k := ?h])) = mset (flying (nc_handles s))"
    using flying_update [of k "nc_handles s" ?h] by (auto split: if_splits)
  then show ?thesis
    using assms k same \<open>k < length (nc_handles s)\<close> True
    by (auto simp: network_cancel_def add_event_def set_handle_def curl_ok_def accounted_def awaited_def nth_list_update
        list_all_length)
qed (use assms in \<open>auto simp: network_cancel_def\<close>)

lemma send_finishes_ok:
  assumes "curl_ok s" and "k \<in> set (nc_preparing s)" shows "curl_ok (send_finishes k ca_ok s)"
proof (rule curl_ok_events [OF assms(1)])
  fix j assume "awaited s j"
  then show "awaited (send_finishes k ca_ok s) j"
    by (cases "j = k") (auto simp: send_finishes_def Let_def add_event_def awaited_def)
next
  show "mentioned (send_finishes k ca_ok s) \<subseteq> mentioned s"
    using assms(2) by (auto simp: mentioned_def send_finishes_def Let_def add_event_def dest: set_remove1_subset [THEN subsetD])
qed (simp_all add: send_finishes_def Let_def add_event_def)

lemma clean_handle_ok:
  assumes "curl_ok s" and "k < length (nc_handles s)" shows "curl_ok (clean_handle now k s)"
proof (cases "nc_static_handle_count s \<le> k \<and> rh_easy (nc_handles s ! k) \<and> \<not> rh_in_use (nc_handles s ! k) \<and>
    rh_send_time (nc_handles s ! k) + 120 < now")
  case True
  let ?h = "(nc_handles s ! k)\<lparr>rh_easy := False\<rparr>"
  have "mset (flying ((nc_handles s)[k := ?h])) = mset (flying (nc_handles s))"
    using flying_update [OF assms(2), of ?h] True by (simp add: in_flight_def)
  then show ?thesis
    using assms True by (auto simp: clean_handle_def Let_def set_handle_def curl_ok_def accounted_def awaited_def nth_list_update
        list_all_length handle_ok_def in_flight_def)
qed (use assms in \<open>auto simp: clean_handle_def Let_def\<close>)

text \<open>A handle is given out.\<close>

lemma get_handle_Some:
  assumes "get_handle easy_init now i request payload hc dc s = (Some k, s')"
  shows "k < length (nc_handles s) \<and> \<not> rh_in_use (nc_handles s ! k) \<and>
    s' = s\<lparr>nc_handles := (nc_handles s)[k := taken_handle now i (nc_accepted s) hc dc payload (request_body request) (nc_handles s ! k)],
      nc_accepted := nc_accepted s + 1\<rparr>"
  using assms first_handle_Some [of "\<lambda>h. \<not> rh_in_use h" "nc_handles s" k]
  by (auto simp: get_handle_def set_handle_def split: option.splits if_splits)

lemma get_handle_None: "get_handle easy_init now i request payload hc dc s = (None, s') \<Longrightarrow> s' = s"
  by (auto simp: get_handle_def split: option.splits if_splits)

lemma send_takes_handle_ok:
  assumes ok: "curl_ok s"
  shows "curl_ok (snd (send_takes_handle j easy_init now request payload hc dc s))"
proof -
  define t where "t = s\<lparr>nc_checked := take j (nc_checked s) @ drop (j + 1) (nc_checked s)\<rparr>"
  have t: "curl_ok t"
    by (rule curl_ok_events [OF ok]) (simp_all add: t_def awaited_def)
  obtain found t' where g: "get_handle easy_init now (nc_checked s ! j) request payload hc dc t = (found, t')"
    by fastforce
  show ?thesis
  proof (cases found)
    case None
    then show ?thesis
      using g t get_handle_None [of easy_init now "nc_checked s ! j" request payload hc dc t t'] unfolding t_def
      by (simp add: send_takes_handle_def Let_def)
  next
    case (Some k)
    note k = get_handle_Some [OF g [unfolded Some]]
    let ?h = "configured_handle request (nc_handles t' ! k)"
    let ?s = "(set_handle k ?h t')\<lparr>nc_preparing := nc_preparing t' @ [k]\<rparr>"
    have h: "in_flight ?h" "rh_callback ?h = Some (nc_accepted t)" "rh_retry_count ?h = 0"
      using k by (simp_all add: in_flight_def configured_handle_def taken_handle_def)
    have "mset (flying ((nc_handles t)[k := ?h])) = add_mset (nc_accepted t) (mset (flying (nc_handles t)))"
      using flying_update [of k "nc_handles t" ?h] k h by (simp add: in_flight_def)
    then have "accounted ?s"
      using t k by (simp add: curl_ok_def accounted_def set_handle_def) 
    moreover have "list_all handle_ok (nc_handles ?s)"
      using t k h by (simp add: curl_ok_def set_handle_def list_all_update handle_ok_def)
    moreover have "awaited ?s l" if "l < length (nc_handles ?s)" "in_flight (nc_handles ?s ! l)" for l
      using that t k by (cases "l = k") (auto simp: curl_ok_def set_handle_def awaited_def)
    moreover have "rh_easy (nc_handles ?s ! l)"
      if "nc_state ?s \<noteq> STOPPED" "l < length (nc_handles ?s)" "rh_in_use (nc_handles ?s ! l)" for l
      using that t k h by (cases "l = k") (auto simp: curl_ok_def set_handle_def in_flight_def)
    moreover have "\<forall>l \<in> mentioned ?s. l < length (nc_handles ?s)"
      using t k by (auto simp: curl_ok_def mentioned_def set_handle_def)
    ultimately have "curl_ok ?s"
      by (simp add: curl_ok_def)
    then show ?thesis
      using g Some unfolding t_def by (simp add: send_takes_handle_def Let_def)
  qed
qed

lemma take_event_ok:
  assumes ok: "curl_ok s" and started: "nc_state s \<noteq> STOPPED"
  shows "curl_ok (take_event version add_ok timeout_text s)"
proof (cases "nc_events s")
  case Nil
  then show ?thesis using ok by (simp add: take_event_def)
next
  case (Cons e events)
  obtain t k where e: "e = (t, k)" by fastforce
  have k: "k < length (nc_handles s)"
    using ok by (auto simp: curl_ok_def mentioned_def Cons e)
  let ?s = "s\<lparr>nc_events := events\<rparr>"
  have but: "curl_ok_but k ?s"
    by (rule curl_ok_but_events [OF ok]) (auto simp: awaited_def mentioned_def Cons e)
  show ?thesis
  proof (cases "rh_in_use (nc_handles s ! k)")
    case False
    then show ?thesis
      using curl_ok_but_ok [OF but] k by (simp add: take_event_def Cons e Let_def in_flight_def)
  next
    case True
    show ?thesis
    proof (cases t)
      case SEND_EVENT
      let ?s1 = "?s\<lparr>nc_multi := k # nc_multi s\<rparr>" and ?s2 = "?s\<lparr>nc_failed := nc_failed s @ [k]\<rparr>"
      have "curl_ok ?s1" "curl_ok ?s2"
        by (rule curl_ok_events [OF ok]; auto simp: awaited_def mentioned_def Cons e SEND_EVENT)+
      then show ?thesis
        using True by (simp add: take_event_def Cons e SEND_EVENT Let_def)
    next
      case CANCEL_EVENT
      have "curl_ok_but k (?s\<lparr>nc_multi := removeAll k (nc_multi s)\<rparr>)"
        by (rule curl_ok_but_events [OF ok]) (auto simp: awaited_def mentioned_def Cons e CANCEL_EVENT)
      from complete_message_ok [OF this] show ?thesis
        using True started k by (simp add: take_event_def Cons e CANCEL_EVENT Let_def)
    qed
  qed
qed

lemma complete_failed_ok:
  assumes ok: "curl_ok s" and "nc_state s \<noteq> STOPPED"
  shows "curl_ok (complete_failed version connect_text s)"
proof (cases "nc_failed s")
  case (Cons k ks)
  have "curl_ok_but k (s\<lparr>nc_failed := ks\<rparr>)"
    by (rule curl_ok_but_events [OF ok]) (auto simp: awaited_def mentioned_def Cons)
  moreover have "k < length (nc_handles s)"
    using ok by (simp add: curl_ok_def mentioned_def Cons)
  ultimately show ?thesis
    using complete_message_ok [of k "s\<lparr>nc_failed := ks\<rparr>"] assms(2) by (simp add: complete_failed_def Cons)
qed (use ok in \<open>simp add: complete_failed_def\<close>)

lemma removed_ok_but: "curl_ok s \<Longrightarrow> curl_ok_but k (s\<lparr>nc_multi := removeAll k (nc_multi s)\<rparr>)"
  by (rule curl_ok_but_events) (auto simp: awaited_def mentioned_def)

lemma send_sees_stopped_ok: "curl_ok s \<Longrightarrow> curl_ok (snd (send_sees_stopped j s))"
  by (rule curl_ok_events) (auto simp: send_sees_stopped_def awaited_def)

lemma lost_called_ok:
  assumes "curl_ok s" and "nc_state s \<noteq> STOPPED" and "k < length (nc_handles s)" and "rh_in_use (nc_handles s ! k)"
  shows "rh_callback (nc_handles s ! k) \<noteq> None \<and>
    curl_ok ((release_handle k s)\<lparr>nc_called := nc_called s @ [(the (rh_callback (nc_handles s ! k)), response)]\<rparr>)"
proof -
  have "in_flight (nc_handles s ! k)"
    using assms by (auto simp: curl_ok_def list_all_length handle_ok_def in_flight_def)
  then show ?thesis
    using release_called_ok [OF curl_ok_ok_but [OF assms(1)] assms(3)] by (auto simp: in_flight_def)
qed

lemma curl_step_ok:
  assumes ok: "curl_ok s" and step: "curl_step version e s = Some s'"
  shows "curl_ok s'"
proof (cases e)
  case (TransferDone k r)
  then have "k < length (nc_handles s)"
    using ok step by (auto simp: curl_ok_def mentioned_def split: if_splits)
  then show ?thesis
    using TransferDone step complete_message_ok [OF removed_ok_but [OF ok], of k version r]
    by (auto simp: transfer_done_def is_started_def split: if_splits)
next
  case (HandleLost now k total_time timeout_text remove_ok)
  then show ?thesis
    using step ok complete_message_ok [OF removed_ok_but [OF ok], where version = version] lost_called_ok [OF ok, of k]
    by (auto simp: handle_lost_def Let_def split: if_splits)
next
  case Deinitialize
  have "curl_ok (network_deinitialize s)"
    by (rule curl_ok_events [OF ok]) (simp_all add: network_deinitialize_def awaited_def)
  then show ?thesis using Deinitialize step by simp
qed (use ok step in \<open>auto simp: is_started_def network_initialize_ok send_checked_ok send_sees_stopped_ok send_takes_handle_ok send_finishes_ok network_cancel_ok
    take_event_ok complete_failed_ok clean_handle_ok network_teardown_ok split: if_splits\<close>)

lemma curl_run_ok: "curl_ok s \<Longrightarrow> curl_run version es s = Some s' \<Longrightarrow> curl_ok s'"
  by (induction es arbitrary: s) (auto dest: curl_step_ok split: Option.bind_split_asm)

text \<open>
  C34: however users, libcurl and the worker thread are scheduled, each request that was given a handle is exactly one
  of these: called back once; in flight, and then it waits for its sender, an event, a transfer of libcurl or its
  completion, and was sent again at most as often as its settings allow; or dropped, with its handle, by a later
  initialisation.
\<close>
theorem curl_request_calls_back_once:
  assumes "curl_run version es (network_curl_new n) = Some s" and "t < nc_accepted s"
  shows "count_list (map fst (nc_called s)) t + count_list (flying (nc_handles s)) t + count_list (nc_dropped s) t = 1 \<and>
    (\<forall>k < length (nc_handles s). in_flight (nc_handles s ! k) \<longrightarrow>
       awaited s k \<and> rh_retry_count (nc_handles s ! k) \<le> rh_max_retries (nc_handles s ! k))"
proof -
  have ok: "curl_ok s"
    using curl_run_ok [OF network_curl_new_ok assms(1)] .
  then have "count (mset (map fst (nc_called s)) + mset (flying (nc_handles s)) + mset (nc_dropped s)) t = count (mset [0..<nc_accepted s]) t"
    by (simp only: curl_ok_def accounted_def)
  moreover have "count (mset [0..<nc_accepted s]) t = 1"
    using assms(2) by (simp add: distinct_count_atmost_1)
  ultimately have "count_list (map fst (nc_called s)) t + count_list (flying (nc_handles s)) t + count_list (nc_dropped s) t = 1"
    by (simp only: count_union count_mset)
  then show ?thesis
    using ok by (auto simp: curl_ok_def list_all_length handle_ok_def)
qed

lemma first_handle_eq:
  "k < length hs \<Longrightarrow> P (hs ! k) \<Longrightarrow> (\<And>j. j < k \<Longrightarrow> \<not> P (hs ! j)) \<Longrightarrow> first_handle P hs = Some k"
proof (induction hs arbitrary: k)
  case (Cons h hs)
  show ?case
  proof (cases k)
    case (Suc l)
    have "\<not> P h" using Cons.prems(3) [of 0] Suc by simp
    moreover have "first_handle P hs = Some l"
      using Cons.IH [of l] Cons.prems(1,2) Cons.prems(3) [of "Suc _"] Suc by simp
    ultimately show ?thesis using Suc by simp
  qed (use Cons.prems in simp)
qed simp

text \<open>
  C35: when a transfer ends while the event of its cancellation is still queued, that event hits the next request that
  gets the handle: the new request is called back with a timeout before it was ever given to libcurl, and its own
  event finds the handle free.
\<close>
theorem stale_cancel_ends_next_request:
  assumes "is_started s" and "k < length (nc_handles s)" and "k \<in> set (nc_multi s)" and "in_flight (nc_handles s ! k)"
    and "rh_id (nc_handles s ! k) = i" and "\<And>j. j < k \<Longrightarrow> rh_in_use (nc_handles s ! j) \<and> rh_id (nc_handles s ! j) \<noteq> i"
    and "nc_events s = []" and "nc_checked s = []"
  shows "\<exists>s'. curl_run version [CancelRequest i, TransferDone k r, SendChecked init_ok,
      SendTakesHandle 0 easy_init now request payload hc dc, SendFinishes k True, TakeEvent add_ok timeout_text] s = Some s' \<and>
    nc_called s' = nc_called s @
      [(the (rh_callback (nc_handles s ! k)), response_for (nc_handles s ! k) (http_error_value CANCELLED_ERROR) ''Cancelled''),
       (nc_accepted s, \<lparr>net_request_id = nc_request_id_counter s, net_status = http_error_value TIMEOUT_ERROR, net_error = timeout_text\<rparr>)] \<and>
    nc_events s' = [(SEND_EVENT, k)] \<and> \<not> rh_in_use (nc_handles s' ! k) \<and> k \<notin> set (nc_multi s')"
proof -
  let ?h = "nc_handles s ! k"
  let ?c = "?h\<lparr>rh_cancelled := True\<rparr>"
  have fly: "rh_in_use ?h" "rh_easy ?h" "rh_callback ?h \<noteq> None"
    using assms(4) by (simp_all add: in_flight_def)
  have "first_handle (\<lambda>h. rh_in_use h \<and> rh_id h = i) (nc_handles s) = Some k"
    by (rule first_handle_eq) (use assms fly in auto)
  then have s1: "network_cancel i s = s\<lparr>nc_handles := (nc_handles s)[k := ?c], nc_events := [(CANCEL_EVENT, k)]\<rparr>" (is "_ = ?s1")
    using assms by (simp add: network_cancel_def add_event_def set_handle_def)
  let ?called = "nc_called s @ [(the (rh_callback ?h), response_for ?h (http_error_value CANCELLED_ERROR) ''Cancelled'')]"
  have s2: "transfer_done version k r ?s1 = s\<lparr>nc_handles := (nc_handles s)[k := released_handle ?c],
      nc_events := [(CANCEL_EVENT, k)], nc_multi := removeAll k (nc_multi s), nc_called := ?called\<rparr>" (is "_ = ?s2")
    using assms(2) fly by (simp add: transfer_done_def complete_message_def Let_def complete_handle_def release_handle_def
        set_handle_def response_for_def)
  let ?i = "nc_request_id_counter s"
  have s3: "snd (send_checked init_ok ?s2) = ?s2\<lparr>nc_request_id_counter := next_request_id ?i, nc_checked := [?i]\<rparr>" (is "_ = ?s3")
    using assms(1,8) by (simp add: send_checked_def is_started_def Let_def)
  have "first_handle (\<lambda>h. \<not> rh_in_use h) (nc_handles ?s3) = Some k"
    by (rule first_handle_eq) (use assms(2,6) in \<open>auto simp: released_handle_def\<close>)
  then have s4: "snd (send_takes_handle 0 easy_init now request payload hc dc ?s3) =
      ?s3\<lparr>nc_checked := [], nc_handles := (nc_handles s)[k := configured_handle request
          (taken_handle now ?i (nc_accepted s) hc dc payload (request_body request) (released_handle ?c))],
        nc_accepted := nc_accepted s + 1, nc_preparing := nc_preparing s @ [k]\<rparr>" (is "_ = ?s4")
    using assms(2) fly by (simp add: send_takes_handle_def Let_def get_handle_def set_handle_def released_handle_def)
  let ?n = "nc_handles ?s4 ! k"
  have n: "rh_in_use ?n" "\<not> rh_cancelled ?n" "rh_callback ?n = Some (nc_accepted s)" "rh_id ?n = ?i" "rh_error_text ?n = []"
    using assms(2) by (simp_all add: configured_handle_def taken_handle_def)
  let ?s5 = "?s4\<lparr>nc_preparing := remove1 k (nc_preparing s @ [k]), nc_events := [(CANCEL_EVENT, k), (SEND_EVENT, k)]\<rparr>"
  have s5: "send_finishes k True ?s4 = ?s5"
    by (simp add: send_finishes_def Let_def add_event_def)
  have "complete_handle version ?n (result_of_code CURLE_OPERATION_TIMEDOUT timeout_text) =
      Answered \<lparr>net_request_id = ?i, net_status = http_error_value TIMEOUT_ERROR, net_error = timeout_text\<rparr>"
    using n by (simp add: complete_handle_def transfer_status_def result_of_code_def convert_error_code_def response_for_def)
  then have s6: "take_event version add_ok timeout_text ?s5 =
      ?s5\<lparr>nc_events := [(SEND_EVENT, k)], nc_handles := (nc_handles ?s5)[k := released_handle ?n],
        nc_called := ?called @ [(nc_accepted s, \<lparr>net_request_id = ?i, net_status = http_error_value TIMEOUT_ERROR, net_error = timeout_text\<rparr>)]\<rparr>"
    (is "_ = ?s6")
    using assms(2) n(1,2,3) by (simp add: take_event_def Let_def complete_message_def release_handle_def set_handle_def)
  have c: "is_started ?s1" "k \<in> set (nc_multi ?s1)" "0 < length (nc_checked ?s3)" "k \<in> set (nc_preparing ?s4)" "is_started ?s5"
    using assms(1,3) by (simp_all add: is_started_def)
  have "curl_run version [CancelRequest i, TransferDone k r, SendChecked init_ok,
      SendTakesHandle 0 easy_init now request payload hc dc, SendFinishes k True, TakeEvent add_ok timeout_text] s = Some ?s6"
    by (simp only: curl_run.simps curl_step.simps Option.bind.bind_lunit c simp_thms if_True s1 s2 s3 s4 s5 s6)
  then show ?thesis
    using assms(2) by (auto simp: released_handle_def)
qed

section \<open>Examples\<close>

text \<open>A network with one handle sends a request.\<close>

definition one_request :: "curl_action list" where
  "one_request = [SendChecked True, SendTakesHandle 0 True 0 (request_of_url ''u'') None False False, SendFinishes 0 True,
     TakeEvent True []]"

definition curl_success :: transfer_result where
  "curl_success = \<lparr>tr_code = CURLE_OK, tr_text = [], tr_http_status = 200, tr_total_time = 1\<rparr>"

lemmas curl_demo_simps = network_curl_new_def send_checked_def network_initialize_def is_started_def Let_def
  send_takes_handle_def get_handle_def set_handle_def empty_request_handle_def taken_handle_def configured_handle_def
  initialised_handle_def send_finishes_def add_event_def take_event_def request_of_url_def default_network_settings_def
  flying_def in_flight_def next_request_id_def

lemma one_request_runs:
  obtains s where "curl_run (7, 60) one_request (network_curl_new 1) = Some s" "is_started s" "nc_multi s = [0]"
    "nc_events s = []" "nc_checked s = []" "nc_accepted s = 1" "nc_called s = []" "nc_request_id_counter s = 2"
    "length (nc_handles s) = 1" "in_flight (nc_handles s ! 0)" "rh_id (nc_handles s ! 0) = 1"
    "rh_callback (nc_handles s ! 0) = Some 0" "nc_dropped s = []" "flying (nc_handles s) = [0]"
  using that by (simp add: one_request_def curl_demo_simps)

lemma curl_request_calls_back_once_witness:
  "\<exists>s. curl_run (7, 60) one_request (network_curl_new 1) = Some s \<and> 0 < nc_accepted s \<and>
    count_list (map fst (nc_called s)) 0 + count_list (flying (nc_handles s)) 0 + count_list (nc_dropped s) 0 = 1 \<and>
    awaited s 0"
proof -
  obtain s where s: "curl_run (7, 60) one_request (network_curl_new 1) = Some s" "nc_accepted s = 1" "length (nc_handles s) = 1"
    "in_flight (nc_handles s ! 0)"
    by (rule one_request_runs)
  show ?thesis
    using curl_request_calls_back_once [OF s(1), of 0] s by auto
qed

lemma stale_cancel_ends_next_request_witness:
  "\<exists>s s'. curl_run (7, 60) one_request (network_curl_new 1) = Some s \<and>
    curl_run (7, 60) [CancelRequest 1, TransferDone 0 curl_success, SendChecked True,
      SendTakesHandle 0 True 1 (request_of_url ''v'') None False False, SendFinishes 0 True,
      TakeEvent True ''Timeout was reached''] s = Some s' \<and>
    map (\<lambda>(t, r). (t, net_request_id r, net_status r)) (nc_called s') = [(0, 1, - 5), (1, 2, - 7)]"
proof -
  obtain s where s: "curl_run (7, 60) one_request (network_curl_new 1) = Some s" "is_started s" "nc_multi s = [0]"
    "nc_events s = []" "nc_checked s = []" "nc_accepted s = 1" "nc_called s = []" "nc_request_id_counter s = 2"
    "length (nc_handles s) = 1" "in_flight (nc_handles s ! 0)" "rh_id (nc_handles s ! 0) = 1" "rh_callback (nc_handles s ! 0) = Some 0"
    by (rule one_request_runs)
  show ?thesis
    using stale_cancel_ends_next_request [of s 0 1 "(7, 60)" curl_success True True 1 "request_of_url ''v''" None False False
        True "''Timeout was reached''"] s
    by (auto simp: response_for_def simp del: curl_run.simps)
qed

end
