(* ===== verification/TaskScheduler.thy ===== *)
theory TaskScheduler
  imports Prelude "HOL-Library.Sublist" "HOL-Library.Multiset"
begin

text \<open>
  The queue of \<open>include/olp/core/thread/SyncQueue.inl\<close> and the pool of threads that takes its tasks,
  \<open>src/thread/ThreadPoolTaskScheduler.cpp\<close>. The lock makes each operation of the queue one step; a thread that waits
  takes a step when its condition holds.
\<close>

section \<open>The queue\<close>

record 'a sync_queue =
  sq_queue :: "'a list"
  sq_closed :: bool

definition sync_queue_new :: "'a sync_queue" where
  "sync_queue_new = \<lparr>sq_queue = [], sq_closed = False\<rparr>"

definition sq_empty :: "'a sync_queue \<Rightarrow> bool" where
  "sq_empty q \<longleftrightarrow> sq_queue q = []"

definition sq_close :: "'a sync_queue \<Rightarrow> 'a sync_queue" where
  "sq_close q = q\<lparr>sq_closed := True, sq_queue := []\<rparr>"

definition sq_push :: "'a \<Rightarrow> 'a sync_queue \<Rightarrow> 'a sync_queue" where
  "sq_push x q = (if sq_closed q then q else q\<lparr>sq_queue := sq_queue q @ [x]\<rparr>)"

text \<open>\<^term>\<open>None\<close> while the thread waits; the element is missing when the queue was closed.\<close>

definition sq_pull :: "'a sync_queue \<Rightarrow> ('a option \<times> 'a sync_queue) option" where
  "sq_pull q =
     (if sq_closed q then Some (None, q)
      else case sq_queue q of [] \<Rightarrow> None | x # xs \<Rightarrow> Some (Some x, q\<lparr>sq_queue := xs\<rparr>))"

section \<open>The pool\<close>

datatype 'a pool_thread = Pulling | Executing 'a | Ended

text \<open>\<open>ps_started\<close> are the tasks in the order in which they were started, \<open>ps_finished\<close> those that have returned.\<close>

record 'a pool_state =
  ps_queue :: "'a sync_queue"
  ps_threads :: "'a pool_thread list"
  ps_started :: "'a list"
  ps_finished :: "'a list"

definition pool_new :: "nat \<Rightarrow> 'a pool_state" where
  "pool_new thread_count = \<lparr>ps_queue = sync_queue_new, ps_threads = replicate thread_count Pulling, ps_started = [], ps_finished = []\<rparr>"

definition enqueue_task :: "'a \<Rightarrow> 'a pool_state \<Rightarrow> 'a pool_state" where
  "enqueue_task task p = p\<lparr>ps_queue := sq_push task (ps_queue p)\<rparr>"

text \<open>A thread takes a task and executes it, or ends; a task returns.\<close>

definition pool_thread_step :: "nat \<Rightarrow> 'a pool_state \<Rightarrow> 'a pool_state option" where
  "pool_thread_step w p =
     (if length (ps_threads p) \<le> w then None
      else case ps_threads p ! w of
          Pulling \<Rightarrow>
            (case sq_pull (ps_queue p) of
               None \<Rightarrow> None
             | Some (None, q) \<Rightarrow> Some (p\<lparr>ps_queue := q, ps_threads := (ps_threads p)[w := Ended]\<rparr>)
             | Some (Some task, q) \<Rightarrow>
                 Some (p\<lparr>ps_queue := q, ps_threads := (ps_threads p)[w := Executing task], ps_started := ps_started p @ [task]\<rparr>))
        | Executing task \<Rightarrow> Some (p\<lparr>ps_threads := (ps_threads p)[w := Pulling], ps_finished := ps_finished p @ [task]\<rparr>)
        | Ended \<Rightarrow> None)"

text \<open>The destructor closes the queue and joins the threads.\<close>

definition pool_close :: "'a pool_state \<Rightarrow> 'a pool_state" where
  "pool_close p = p\<lparr>ps_queue := sq_close (ps_queue p)\<rparr>"

definition pool_joined :: "'a pool_state \<Rightarrow> bool" where
  "pool_joined p \<longleftrightarrow> list_all (\<lambda>t. t = Ended) (ps_threads p)"

datatype 'a pool_action = Enqueue 'a | ThreadStep nat | ClosePool

fun pool_step :: "'a pool_action \<Rightarrow> 'a pool_state \<Rightarrow> 'a pool_state option" where
  "pool_step (Enqueue task) p = Some (enqueue_task task p)"
| "pool_step (ThreadStep w) p = pool_thread_step w p"
| "pool_step ClosePool p = Some (pool_close p)"

fun pool_run :: "'a pool_action list \<Rightarrow> 'a pool_state \<Rightarrow> 'a pool_state option" where
  "pool_run [] p = Some p"
| "pool_run (a # as) p = Option.bind (pool_step a p) (pool_run as)"

text \<open>The tasks that a run enqueues before the pool is closed.\<close>

fun enqueued :: "'a pool_action list \<Rightarrow> 'a list" where
  "enqueued [] = []"
| "enqueued (Enqueue task # as) = task # enqueued as"
| "enqueued (ThreadStep w # as) = enqueued as"
| "enqueued (ClosePool # as) = []"

section \<open>Properties\<close>

definition executing :: "'a pool_thread list \<Rightarrow> 'a list" where
  "executing ts = concat (map (\<lambda>t. case t of Executing task \<Rightarrow> [task] | _ \<Rightarrow> []) ts)"

definition pool_ok :: "'a pool_state \<Rightarrow> bool" where
  "pool_ok p \<longleftrightarrow> (sq_closed (ps_queue p) \<longrightarrow> sq_queue (ps_queue p) = []) \<and>
     mset (ps_started p) = mset (ps_finished p) + mset (executing (ps_threads p))"

lemma executing_update:
  assumes "w < length ts"
  shows "mset (executing (ts[w := t])) + mset (case ts ! w of Executing task \<Rightarrow> [task] | _ \<Rightarrow> []) =
    mset (executing ts) + mset (case t of Executing task \<Rightarrow> [task] | _ \<Rightarrow> [])"
  using assms arg_cong [OF id_take_nth_drop [OF assms], of "\<lambda>l. mset (executing l)"]
  by (simp add: executing_def upd_conv_take_nth_drop)

lemma executing_idle [simp]: "executing (replicate n Pulling) = []"
  by (simp add: executing_def concat_eq_Nil_conv)

lemma length_executing: "length (executing ts) \<le> length ts"
  by (induction ts) (auto simp: executing_def split: pool_thread.split)

text \<open>What a step of a thread does.\<close>

lemma pool_thread_step_cases:
  assumes "pool_thread_step w p = Some p'"
  obtains (starts) task q where "w < length (ps_threads p)" "ps_threads p ! w = Pulling" "\<not> sq_closed (ps_queue p)"
      "sq_queue (ps_queue p) = task # q"
      "p' = p\<lparr>ps_queue := (ps_queue p)\<lparr>sq_queue := q\<rparr>, ps_threads := (ps_threads p)[w := Executing task], ps_started := ps_started p @ [task]\<rparr>"
    | (ends) "w < length (ps_threads p)" "ps_threads p ! w = Pulling" "sq_closed (ps_queue p)" "p' = p\<lparr>ps_threads := (ps_threads p)[w := Ended]\<rparr>"
    | (returns) task where "w < length (ps_threads p)" "ps_threads p ! w = Executing task"
      "p' = p\<lparr>ps_threads := (ps_threads p)[w := Pulling], ps_finished := ps_finished p @ [task]\<rparr>"
  using assms by (auto simp: pool_thread_step_def sq_pull_def split: if_splits pool_thread.splits option.splits list.splits)

lemma pool_step_ok:
  assumes "pool_ok p" and "pool_step a p = Some p'"
  shows "pool_ok p'"
proof (cases a)
  case (ThreadStep w)
  then have "pool_thread_step w p = Some p'" using assms(2) by simp
  then show ?thesis
  proof (cases rule: pool_thread_step_cases)
    case (starts task q)
    then show ?thesis using assms(1) executing_update [of w "ps_threads p" "Executing task"]
      by (simp add: pool_ok_def)
  next
    case ends
    then show ?thesis using assms(1) executing_update [of w "ps_threads p" Ended] by (simp add: pool_ok_def)
  next
    case (returns task)
    then show ?thesis using assms(1) executing_update [of w "ps_threads p" Pulling] by (simp add: pool_ok_def)
  qed
qed (use assms in \<open>auto simp: pool_ok_def enqueue_task_def sq_push_def pool_close_def sq_close_def split: if_splits\<close>)

lemma pool_step_threads: "pool_step a p = Some p' \<Longrightarrow> length (ps_threads p') = length (ps_threads p)"
  by (cases a) (auto simp: enqueue_task_def pool_close_def elim: pool_thread_step_cases)

lemma pool_run_ok:
  "pool_run as p = Some p' \<Longrightarrow> pool_ok p \<Longrightarrow> pool_ok p' \<and> length (ps_threads p') = length (ps_threads p)"
  by (induction as arbitrary: p) (fastforce split: Option.bind_split_asm dest: pool_step_ok pool_step_threads)+

text \<open>A closed pool starts nothing.\<close>

lemma closed_step:
  assumes "sq_closed (ps_queue p)" and "pool_step a p = Some p'"
  shows "sq_closed (ps_queue p') \<and> ps_started p' = ps_started p"
  using assms by (cases a) (auto simp: enqueue_task_def sq_push_def pool_close_def sq_close_def elim: pool_thread_step_cases)

lemma closed_run: "pool_run as p = Some p' \<Longrightarrow> sq_closed (ps_queue p) \<Longrightarrow> sq_closed (ps_queue p') \<and> ps_started p' = ps_started p"
  by (induction as arbitrary: p) (auto split: Option.bind_split_asm dest: closed_step)

lemma open_run:
  "pool_run as p = Some p' \<Longrightarrow> \<not> sq_closed (ps_queue p) \<Longrightarrow>
   (if sq_closed (ps_queue p') then prefix (ps_started p') (ps_started p @ sq_queue (ps_queue p) @ enqueued as)
    else ps_started p' @ sq_queue (ps_queue p') = ps_started p @ sq_queue (ps_queue p) @ enqueued as)"
proof (induction as arbitrary: p)
  case (Cons a as)
  then obtain p1 where p1: "pool_step a p = Some p1" "pool_run as p1 = Some p'"
    by (auto split: Option.bind_split_asm)
  show ?case
  proof (cases a)
    case (Enqueue task)
    then have "p1 = enqueue_task task p" using p1 by simp
    then show ?thesis using Cons.IH [OF p1(2)] Cons.prems(2) Enqueue by (auto simp: enqueue_task_def sq_push_def split: if_splits)
  next
    case (ThreadStep w)
    then have "pool_thread_step w p = Some p1" using p1 by simp
    then show ?thesis
      using Cons.IH [OF p1(2)] Cons.prems(2) ThreadStep by (cases rule: pool_thread_step_cases) (auto split: if_splits)
  next
    case ClosePool
    then have "p1 = pool_close p" using p1 by simp
    then show ?thesis
      using closed_run [OF p1(2)] ClosePool by (simp add: pool_close_def sq_close_def)
  qed
qed simp

text \<open>
  C37: the pool starts the tasks in the order in which they were enqueued, each once, and never more at a time than it
  has threads. While it is open, nothing is lost; from its closing on, nothing is started.
\<close>
theorem pool_starts_in_order:
  assumes "pool_run as (pool_new n) = Some p"
  shows "prefix (ps_started p) (enqueued as) \<and>
    (\<not> sq_closed (ps_queue p) \<longrightarrow> ps_started p @ sq_queue (ps_queue p) = enqueued as) \<and>
    (sq_closed (ps_queue p) \<longrightarrow> sq_queue (ps_queue p) = []) \<and>
    mset (ps_started p) = mset (ps_finished p) + mset (executing (ps_threads p)) \<and>
    length (executing (ps_threads p)) \<le> n"
proof -
  have "pool_ok (pool_new n)"
    by (simp add: pool_ok_def pool_new_def sync_queue_new_def)
  from pool_run_ok [OF assms this] have ok: "pool_ok p" "length (ps_threads p) = n"
    by (simp_all add: pool_new_def)
  have "if sq_closed (ps_queue p) then prefix (ps_started p) (enqueued as) else ps_started p @ sq_queue (ps_queue p) = enqueued as"
    using open_run [OF assms] by (auto simp: pool_new_def sync_queue_new_def split: if_splits)
  then show ?thesis
    using ok length_executing [of "ps_threads p"] by (auto simp: pool_ok_def split: if_splits) (metis prefixI)
qed

lemma pool_starts_in_order_witness:
  "\<exists>p. pool_run [Enqueue ''a'', Enqueue ''b'', ThreadStep 1, ThreadStep 0, ThreadStep 0, Enqueue ''c'', ClosePool] (pool_new 2) = Some p \<and>
    ps_started p = [''a'', ''b''] \<and> prefix (ps_started p) [''a'', ''b'', ''c''] \<and> sq_queue (ps_queue p) = []"
proof -
  obtain p where p: "pool_run [Enqueue ''a'', Enqueue ''b'', ThreadStep 1, ThreadStep 0, ThreadStep 0, Enqueue ''c'', ClosePool] (pool_new 2) = Some p"
    "ps_started p = [''a'', ''b'']" "sq_closed (ps_queue p)"
    by (simp add: pool_new_def sync_queue_new_def enqueue_task_def sq_push_def pool_thread_step_def sq_pull_def pool_close_def
        sq_close_def numeral_2_eq_2)
  show ?thesis using pool_starts_in_order [OF p(1)] p by simp
qed

text \<open>The steps that the threads have left.\<close>

definition steps_left :: "'a pool_thread list \<Rightarrow> nat" where
  "steps_left ts = sum_list (map (\<lambda>t. case t of Executing _ \<Rightarrow> 2 | Pulling \<Rightarrow> 1 | Ended \<Rightarrow> 0) ts)"

lemma steps_left_update:
  assumes "w < length ts"
  shows "steps_left (ts[w := t]) + (case ts ! w of Executing _ \<Rightarrow> 2 | Pulling \<Rightarrow> 1 | Ended \<Rightarrow> 0) =
    steps_left ts + (case t of Executing _ \<Rightarrow> 2 | Pulling \<Rightarrow> 1 | Ended \<Rightarrow> 0)"
  using assms arg_cong [OF id_take_nth_drop [OF assms], of steps_left]
  by (simp add: steps_left_def upd_conv_take_nth_drop)

lemma steps_left_bound: "steps_left ts \<le> 2 * length ts"
  by (induction ts) (auto simp: steps_left_def split: pool_thread.split)



end
