(* ===== verification/LogFormat.thy ===== *)
theory LogFormat
  imports OlpClient Json Decimal "HOL-Library.Signed_Division"
begin

text \<open>
  The texts of the log: \<open>src/logging/Format.cpp\<close> and \<open>src/logging/MessageFormatter.cpp\<close>, with the types of
  \<open>Level.h\<close> and \<open>LogMessage.h\<close>. \<^term>\<open>None\<close> is undefined behaviour, a failed assertion, or a loop that never ends.
\<close>

datatype level = Trace | Debug | Info | Warning | Error | Fatal | Off

fun level_index :: "level \<Rightarrow> nat" where
  "level_index Trace = 0"
| "level_index Debug = 1"
| "level_index Info = 2"
| "level_index Warning = 3"
| "level_index Error = 4"
| "level_index Fatal = 5"
| "level_index Off = 6"

text \<open>A null pointer is \<^term>\<open>None\<close>; the time is in nanoseconds since the epoch.\<close>

record log_message =
  msg_level :: level
  msg_tag :: "string option"
  msg_message :: "string option"
  msg_file :: "string option"
  msg_line :: u32
  msg_function :: "string option"
  msg_full_function :: "string option"
  msg_time :: int
  msg_thread_id :: u64

section \<open>Format.cpp\<close>

text \<open>
  \<open>printf\<close> with one argument: the conversions for a string, an \<open>unsigned int\<close> and an \<open>unsigned long\<close>, with a minus
  or a zero flag and a width. An argument that is missing or of another type is undefined.
\<close>

datatype printf_arg = StringArg string | UnsignedArg u32 | LongArg u64

fun conversion :: "bool \<Rightarrow> string \<Rightarrow> printf_arg \<Rightarrow> (string \<times> string) option" where
  "conversion zero (c # s) (StringArg t) = (if c = CHR ''s'' \<and> \<not> zero then Some (c_str t, s) else None)"
| "conversion zero (c # s) (UnsignedArg n) = (if c = CHR ''u'' then Some (decimal (unat n), s) else None)"
| "conversion zero (c # s) (LongArg n) =
     (if c = CHR ''l'' \<and> s \<noteq> [] \<and> hd s = CHR ''u'' then Some (decimal (unat n), tl s) else None)"
| "conversion zero [] a = None"

definition padded :: "string \<Rightarrow> nat \<Rightarrow> string \<Rightarrow> string" where
  "padded flags width t =
     (if CHR ''-'' \<in> set flags then t @ replicate (width - length t) CHR '' ''
      else replicate (width - length t) (if CHR ''0'' \<in> set flags then CHR ''0'' else CHR '' '') @ t)"

definition conversion_spec :: "string \<Rightarrow> printf_arg \<Rightarrow> (string \<times> string) option" where
  "conversion_spec s a =
     (let flags = takeWhile (\<lambda>c. c = CHR ''-'' \<or> c = CHR ''0'') s; s = drop (length flags) s;
          width = takeWhile is_digit s
      in map_option (\<lambda>(t, rest). (padded flags (digits_value width) t, rest))
           (conversion (CHR ''0'' \<in> set flags) (drop (length width) s) a))"

lemma conversion_shorter: "conversion zero s a = Some (t, rest) \<Longrightarrow> length rest < length s"
  by (cases "(zero, s, a)" rule: conversion.cases) (auto split: if_splits)

lemma conversion_spec_shorter: "conversion_spec s a = Some (t, rest) \<Longrightarrow> length rest < length s"
  by (auto simp: conversion_spec_def Let_def dest!: conversion_shorter)

function printf :: "printf_arg option \<Rightarrow> string \<Rightarrow> string option" where
  "printf a [] = Some []"
| "printf a (c # s) =
     (if c \<noteq> CHR ''%'' then map_option (\<lambda>t. c # t) (printf a s)
      else if s \<noteq> [] \<and> hd s = CHR ''%'' then map_option (\<lambda>t. c # t) (printf a (tl s))
      else case a of
          None \<Rightarrow> None
        | Some x \<Rightarrow>
            (case conversion_spec s x of
               None \<Rightarrow> None
             | Some (t, rest) \<Rightarrow> map_option (\<lambda>u. t @ u) (printf None rest)))"
  by pat_completeness auto

termination
  by (relation "measure (length \<circ> snd)") (auto dest: conversion_spec_shorter)

text \<open>
  \<open>vsnprintf\<close> writes as much as fits with the final null, and returns the length of the whole text. The text is
  printed into the local buffer, and again into a larger one when that was too small. (It is negative only for texts
  that an \<open>int\<close> cannot count.)
\<close>

definition snprintf_fixed :: "nat \<Rightarrow> string \<Rightarrow> string \<times> nat" where
  "snprintf_fixed n t = (take (n - 1) t, length t)"

definition formatv :: "string \<Rightarrow> string" where
  "formatv t =
     (let (m_buffer, num_chars_written) = snprintf_fixed 256 t
      in if 256 \<le> num_chars_written then fst (snprintf_fixed (num_chars_written + 1) t) else m_buffer)"

definition buffer_format :: "string option \<Rightarrow> printf_arg \<Rightarrow> string option" where
  "buffer_format format_str a =
     (case format_str of None \<Rightarrow> Some [] | Some f \<Rightarrow> map_option formatv (printf (Some a) (c_str f)))"

text \<open>
  \<open>strftime\<close> returns 0 when the text and its null do not fit, and otherwise the length. The auxiliary buffer is
  doubled until the text fits.
\<close>

definition strftime :: "nat \<Rightarrow> string \<Rightarrow> nat" where
  "strftime n t = (if length t < n then length t else 0)"

partial_function (option) format_tm_loop :: "string \<Rightarrow> nat \<Rightarrow> string option" where
  "format_tm_loop t n = (if strftime n t \<noteq> 0 then Some t else format_tm_loop t (2 * n))"

definition format_tm :: "string \<Rightarrow> string option" where
  "format_tm t = (if strftime 256 t \<noteq> 0 then Some t else format_tm_loop t 512)"

text \<open>Seconds, truncated.\<close>

definition to_time_t :: "int \<Rightarrow> int" where
  "to_time_t timestamp = timestamp sdiv 1000000000"

section \<open>MessageFormatter.cpp\<close>

definition limit_string :: "string \<Rightarrow> int \<Rightarrow> string" where
  "limit_string str limit =
     (if limit < 0 then
        (let start = nat (max (int (length str) + limit) 0)
         in if start = 0 then str
            else if length str - start > 3 then ''...'' @ drop (start + 3) str
            else drop start str)
      else if 0 < limit then
        (let final_length = min (length str) (nat limit)
         in if final_length = length str then str
            else if final_length > 3 then take (final_length - 3) str @ ''...''
            else take final_length str)
      else str)"

datatype element_type = ElString | ElLevel | ElTag | ElMessage | ElFile | ElLine | ElFunction | ElFullFunction | ElTime
  | ElTimeMs | ElThreadId

datatype timezone = Local | Utc

record element =
  el_type :: element_type
  el_format :: string
  el_limit :: int

text \<open>The constructor that is given the type only.\<close>

definition default_element :: "element_type \<Rightarrow> element" where
  "default_element t =
     \<lparr>el_type = t,
      el_format =
        (case t of
           ElString \<Rightarrow> []
         | ElLine \<Rightarrow> ''%u''
         | ElTime \<Rightarrow> ''%Y-%m-%d %H:%M:%S''
         | ElTimeMs \<Rightarrow> ''%u''
         | ElThreadId \<Rightarrow> ''%lu''
         | _ \<Rightarrow> ''%s''),
      el_limit = 0\<rparr>"

definition element_of :: "element_type \<Rightarrow> string \<Rightarrow> element" where
  "element_of t f = \<lparr>el_type = t, el_format = f, el_limit = 0\<rparr>"

record message_formatter =
  mf_elements :: "element list"
  mf_level_name_map :: "string list"
  mf_timezone :: timezone

definition default_level_name_map :: "string list" where
  "default_level_name_map = [''[TRACE]'', ''[DEBUG]'', ''[INFO]'', ''[WARN]'', ''[ERROR]'', ''[FATAL]'']"

definition default_formatter :: message_formatter where
  "default_formatter =
     \<lparr>mf_elements = [element_of ElLevel ''%s '', element_of ElTag ''%s - '', default_element ElMessage],
      mf_level_name_map = default_level_name_map, mf_timezone = Local\<rparr>"

text \<open>
  \<open>time_text\<close> is what \<open>strftime\<close> prints of a time in a time zone: the zones and the locale are those of the system.
\<close>

type_synonym time_text = "timezone \<Rightarrow> int \<Rightarrow> string \<Rightarrow> string"

definition format_string :: "element \<Rightarrow> string option \<Rightarrow> string option" where
  "format_string el str = do {
     s \<leftarrow> str;
     buffer_format (Some (el_format el)) (StringArg (limit_string (c_str s) (el_limit el))) }"

fun format_element :: "time_text \<Rightarrow> message_formatter \<Rightarrow> log_message \<Rightarrow> element \<Rightarrow> string option" where
  "format_element time_text mf message el =
     (case el_type el of
        ElString \<Rightarrow> Some (c_str (el_format el))
      | ElLevel \<Rightarrow>
          if level_index (msg_level message) < length (mf_level_name_map mf)
          then buffer_format (Some (el_format el)) (StringArg (mf_level_name_map mf ! level_index (msg_level message)))
          else None
      | ElTag \<Rightarrow>
          (case msg_tag message of
             None \<Rightarrow> Some []
           | Some tag \<Rightarrow> if c_str tag = [] then Some [] else format_string el (Some tag))
      | ElMessage \<Rightarrow> format_string el (msg_message message)
      | ElFile \<Rightarrow> format_string el (msg_file message)
      | ElLine \<Rightarrow> buffer_format (Some (el_format el)) (UnsignedArg (msg_line message))
      | ElFunction \<Rightarrow> format_string el (msg_function message)
      | ElFullFunction \<Rightarrow> format_string el (msg_full_function message)
      | ElTime \<Rightarrow> format_tm (time_text (mf_timezone mf) (to_time_t (msg_time message)) (c_str (el_format el)))
      | ElTimeMs \<Rightarrow>
          buffer_format (Some (el_format el)) (UnsignedArg (word_of_int ((msg_time message sdiv 1000000) smod 1000)))
      | ElThreadId \<Rightarrow> buffer_format (Some (el_format el)) (LongArg (msg_thread_id message)))"

fun format_elements :: "time_text \<Rightarrow> message_formatter \<Rightarrow> log_message \<Rightarrow> element list \<Rightarrow> string \<Rightarrow> string option" where
  "format_elements time_text mf message [] formatted_message = Some formatted_message"
| "format_elements time_text mf message (el # els) formatted_message = do {
     cur_element \<leftarrow> format_element time_text mf message el;
     format_elements time_text mf message els (formatted_message @ cur_element) }"

definition format_message :: "time_text \<Rightarrow> message_formatter \<Rightarrow> log_message \<Rightarrow> string option" where
  "format_message time_text mf message = format_elements time_text mf message (mf_elements mf) []"

section \<open>Texts\<close>

lemma c_str_simps: "c_str [] = []" "c_str (c # s) = (if c = CHR 0x00 then [] else c # c_str s)"
  by (simp_all add: c_str_def)

declare printf.simps [simp del]

lemmas printf_simps = printf.simps conversion_spec_def Let_def padded_def is_digit_def digits_value_def

lemma printf_string [simp]:
  "printf (Some (StringArg t)) ''%s'' = Some (c_str t)" "printf (Some (StringArg t)) ''%s '' = Some (c_str t @ '' '')"
  "printf (Some (StringArg t)) ''%s - '' = Some (c_str t @ '' - '')"
  by (simp_all add: printf_simps)

lemma formatv_text: "formatv t = t"
  by (simp add: formatv_def snprintf_fixed_def)

text \<open>A text is cut to the limit, the three dots included.\<close>

lemma length_limit_string:
  "limit \<noteq> 0 \<Longrightarrow> length (limit_string str limit) = min (length str) (nat \<bar>limit\<bar>)"
  by (auto simp: limit_string_def Let_def min_def max_def nat_le_iff split: if_splits)

lemma format_tm_loop_ends:
  "t \<noteq> [] \<Longrightarrow> 0 < n \<Longrightarrow> format_tm_loop t n = Some t"
proof (induction "length t + 1 - n" arbitrary: n rule: less_induct)
  case less
  show ?case
  proof (cases "length t < n")
    case True
    then show ?thesis using less.prems by (simp add: format_tm_loop.simps [of t n] strftime_def)
  next
    case False
    then have "format_tm_loop t (2 * n) = Some t" using less.prems by (intro less.hyps) simp_all
    then show ?thesis using False by (simp add: format_tm_loop.simps [of t n] strftime_def)
  qed
qed

lemma format_tm_loop_empty: "format_tm_loop t n = Some u \<Longrightarrow> t \<noteq> []"
proof (erule format_tm_loop.raw_induct [rotated])
  fix loop and t :: string and n u
  assume "\<And>t n u. loop t n = Some u \<Longrightarrow> t \<noteq> []"
    and "(if strftime n t \<noteq> 0 then Some t else loop t (2 * n)) = Some u"
  then show "t \<noteq> []" by (auto simp: strftime_def split: if_split_asm)
qed

text \<open>
  a time is formatted, however long its text is, unless the text is empty: then the buffer is doubled without end.
\<close>
theorem format_tm_ends_unless_empty:
  "format_tm t = (if t = [] then None else Some t)"
proof (cases "t = []")
  case True
  have "format_tm_loop [] 512 = None"
    using format_tm_loop_empty [of "[]" 512] by (cases "format_tm_loop [] 512") auto
  then show ?thesis using True by (simp add: format_tm_def strftime_def)
next
  case False
  then show ?thesis using format_tm_loop_ends [of t 512] by (simp add: format_tm_def)
qed

text \<open>
  The default formatter prints the name of the level, the tag unless it is empty, and the whole message, of any
  message but one of the level \<open>Off\<close>, for which there is no name.
\<close>
lemma default_format_of_message:
  assumes "msg_tag message = Some tag" and "msg_message message = Some str" and "no_null tag" and "no_null str"
  shows "format_message time_text default_formatter message =
    (if msg_level message = Off then None
     else Some (default_level_name_map ! level_index (msg_level message) @ '' '' @ (if tag = [] then [] else tag @ '' - '') @ str))"
  using assms
  by (cases "msg_level message")
    (simp_all add: format_message_def default_formatter_def element_of_def default_element_def default_level_name_map_def
      buffer_format_def formatv_text format_string_def limit_string_def c_str_simps)

definition boot_message :: "level \<Rightarrow> log_message" where
  "boot_message l = \<lparr>msg_level = l, msg_tag = Some ''core'', msg_message = Some ''up'', msg_file = None, msg_line = 0,
     msg_function = None, msg_full_function = None, msg_time = 0, msg_thread_id = 0\<rparr>"

lemma default_format_examples:
  "format_message (\<lambda>_ _ _. []) default_formatter (boot_message Warning) = Some ''[WARN] core - up'' \<and>
   format_message (\<lambda>_ _ _. []) default_formatter (boot_message Off) = None"
  using default_format_of_message [of "boot_message Warning" "''core''" "''up''" "\<lambda>_ _ _. []"]
    default_format_of_message [of "boot_message Off" "''core''" "''up''" "\<lambda>_ _ _. []"]
  by (simp add: boot_message_def default_level_name_map_def no_null_def)

end
