(* ===== verification/Logging.thy ===== *)
theory Logging
  imports LogFormat "HOL-Library.AList"
begin

text \<open>
  The levels and the output of the log: \<open>FilterGroup.h\<close>, \<open>FilterGroup.cpp\<close>, \<open>Configuration.h\<close>, the appenders, and
  \<open>Log.cpp\<close>.
\<close>

section \<open>FilterGroup\<close>

text \<open>The hash map of the tags is a list in the order in which it is iterated.\<close>

record filter_group =
  fg_default_level :: "level option"
  fg_tag_levels :: "(string \<times> level) list"

definition fg_clear :: "filter_group \<Rightarrow> filter_group" where
  "fg_clear g = \<lparr>fg_default_level = None, fg_tag_levels = []\<rparr>"

definition fg_set_level :: "level \<Rightarrow> filter_group \<Rightarrow> filter_group" where
  "fg_set_level l g = g\<lparr>fg_default_level := Some l\<rparr>"

definition fg_clear_level :: "filter_group \<Rightarrow> filter_group" where
  "fg_clear_level g = g\<lparr>fg_default_level := None\<rparr>"

definition fg_get_tag_level :: "string \<Rightarrow> filter_group \<Rightarrow> level option" where
  "fg_get_tag_level tag g = map_of (fg_tag_levels g) tag"

definition fg_set_tag_level :: "level \<Rightarrow> string \<Rightarrow> filter_group \<Rightarrow> filter_group" where
  "fg_set_tag_level l tag g = g\<lparr>fg_tag_levels := AList.update tag l (fg_tag_levels g)\<rparr>"

definition fg_clear_tag_level :: "string \<Rightarrow> filter_group \<Rightarrow> filter_group" where
  "fg_clear_tag_level tag g = g\<lparr>fg_tag_levels := AList.delete tag (fg_tag_levels g)\<rparr>"

definition split_at_char :: "string \<Rightarrow> char \<Rightarrow> string \<times> string" where
  "split_at_char str c =
     (let n = length (takeWhile (\<lambda>d. d \<noteq> c) str)
      in if n = length str then (str, []) else (take n str, drop (n + 1) str))"

definition trim :: "string \<Rightarrow> string" where
  "trim str = rev (dropWhile is_space (rev (dropWhile is_space str)))"

definition equals_ignore_case :: "string \<Rightarrow> string \<Rightarrow> bool" where
  "equals_ignore_case left right = case_insensitive_compare (c_str left) (c_str right)"

definition string_to_level :: "string \<Rightarrow> level option" where
  "string_to_level level_str =
     (if equals_ignore_case level_str ''trace'' then Some Trace
      else if equals_ignore_case level_str ''debug'' then Some Debug
      else if equals_ignore_case level_str ''info'' then Some Info
      else if equals_ignore_case level_str ''warning'' then Some Warning
      else if equals_ignore_case level_str ''error'' then Some Error
      else if equals_ignore_case level_str ''fatal'' then Some Fatal
      else if equals_ignore_case level_str ''off'' then Some Off
      else None)"

text \<open>
  \<open>getline\<close> with a buffer of 1024 characters: it fails at the end of the stream, and on a line that is too long.
\<close>

definition get_line :: "string \<Rightarrow> (string \<times> string) option" where
  "get_line stream =
     (let line = takeWhile (\<lambda>c. c \<noteq> CHR 0x0A) stream
      in if stream = [] \<or> 1023 < length line then None else Some (line, drop (length line + 1) stream))"

lemma get_line_shorter: "get_line stream = Some (line, rest) \<Longrightarrow> length rest < length stream"
  by (auto simp: get_line_def Let_def split: if_splits)

function load_lines :: "string \<Rightarrow> filter_group \<Rightarrow> bool \<times> filter_group" where
  "load_lines stream g =
     (case get_line stream of
        None \<Rightarrow> (True, g)
      | Some (buffer, stream) \<Rightarrow>
          (let line = trim (c_str buffer)
           in if line = [] \<or> hd line = CHR ''#'' then load_lines stream g
              else
                (let split_line = split_at_char line CHR '':''; tag = trim (fst split_line)
                 in case string_to_level (trim (snd split_line)) of
                      None \<Rightarrow> (False, g)
                    | Some l \<Rightarrow> load_lines stream (if tag = [] then fg_set_level l g else fg_set_tag_level l tag g))))"
  by auto

termination
  by (relation "measure (length \<circ> fst)") (auto dest: get_line_shorter)

definition load_stream :: "string \<Rightarrow> filter_group \<Rightarrow> bool \<times> filter_group" where
  "load_stream stream g = load_lines stream (fg_clear g)"

text \<open>The file is \<^term>\<open>None\<close> when it cannot be opened.\<close>

definition load_file :: "string option \<Rightarrow> filter_group \<Rightarrow> bool \<times> filter_group" where
  "load_file file g = (case file of None \<Rightarrow> (False, fg_clear g) | Some stream \<Rightarrow> load_stream stream g)"

section \<open>Configuration and appenders\<close>

text \<open>A file appender knows whether its stream was opened.\<close>

datatype appender = ConsoleAppender message_formatter | DebugAppender | FileAppender string bool message_formatter

record appender_with_log_level =
  al_log_level :: level
  al_appender :: appender

type_synonym configuration = "appender_with_log_level list"

definition is_valid_configuration :: "configuration \<Rightarrow> bool" where
  "is_valid_configuration c \<longleftrightarrow> c \<noteq> []"

definition add_appender :: "appender option \<Rightarrow> level \<Rightarrow> configuration \<Rightarrow> configuration" where
  "add_appender a l c = (case a of None \<Rightarrow> c | Some a \<Rightarrow> c @ [\<lparr>al_log_level = l, al_appender = a\<rparr>])"

text \<open>The debug appender writes to the debugger of Windows and is not there on other platforms.\<close>

definition default_configuration :: configuration where
  "default_configuration = add_appender (Some (ConsoleAppender default_formatter)) Trace []"

definition appender_enabled :: "appender_with_log_level \<Rightarrow> level \<Rightarrow> bool" where
  "appender_enabled a l \<longleftrightarrow> level_index (al_log_level a) \<le> level_index l"

text \<open>What the appenders write.\<close>

record log_output =
  lo_console :: string
  lo_files :: "string \<Rightarrow> string"

definition open_file_appender :: "string \<Rightarrow> bool \<Rightarrow> message_formatter \<Rightarrow> bool \<Rightarrow> log_output \<Rightarrow> appender \<times> log_output" where
  "open_file_appender name append_file mf can_open out =
     (FileAppender name can_open mf,
      if can_open \<and> \<not> append_file then out\<lparr>lo_files := (lo_files out)(name := [])\<rparr> else out)"

definition with_newline :: "string \<Rightarrow> string" where
  "with_newline s = s @ [CHR 0x0A]"

fun append_message :: "time_text \<Rightarrow> appender \<Rightarrow> log_message \<Rightarrow> log_output \<Rightarrow> log_output option" where
  "append_message time_text (ConsoleAppender mf) message out = do {
     t \<leftarrow> format_message time_text mf message;
     Some (out\<lparr>lo_console := lo_console out @ with_newline t\<rparr>) }"
| "append_message time_text DebugAppender message out = Some out"
| "append_message time_text (FileAppender name valid mf) message out =
     (if \<not> valid then Some out
      else do {
        t \<leftarrow> format_message time_text mf message;
        Some (out\<lparr>lo_files := (lo_files out)(name := lo_files out name @ with_newline t)\<rparr>) })"

section \<open>LogImpl\<close>

record log_impl =
  li_configuration :: configuration
  li_log_levels :: "string \<rightharpoonup> level"
  li_default_level :: level

definition log_impl_new :: log_impl where
  "log_impl_new = \<lparr>li_configuration = default_configuration, li_log_levels = Map.empty, li_default_level = Debug\<rparr>"

definition li_configure :: "configuration \<Rightarrow> log_impl \<Rightarrow> bool \<times> log_impl" where
  "li_configure c i = (if is_valid_configuration c then (True, i\<lparr>li_configuration := c\<rparr>) else (False, i))"

definition li_set_level :: "level \<Rightarrow> log_impl \<Rightarrow> log_impl" where
  "li_set_level l i = i\<lparr>li_default_level := l\<rparr>"

definition li_set_tag_level :: "level \<Rightarrow> string \<Rightarrow> log_impl \<Rightarrow> log_impl" where
  "li_set_tag_level l tag i = (if tag = [] then li_set_level l i else i\<lparr>li_log_levels := (li_log_levels i)(tag \<mapsto> l)\<rparr>)"

definition li_get_tag_level :: "string \<Rightarrow> log_impl \<Rightarrow> level option" where
  "li_get_tag_level tag i = (if tag = [] then Some (li_default_level i) else li_log_levels i tag)"

definition li_clear_level :: "string \<Rightarrow> log_impl \<Rightarrow> log_impl" where
  "li_clear_level tag i = (if tag = [] then i else i\<lparr>li_log_levels := (li_log_levels i)(tag := None)\<rparr>)"

definition li_clear_levels :: "log_impl \<Rightarrow> log_impl" where
  "li_clear_levels i = i\<lparr>li_log_levels := Map.empty\<rparr>"

definition li_is_enabled :: "level \<Rightarrow> log_impl \<Rightarrow> bool" where
  "li_is_enabled l i \<longleftrightarrow> l \<noteq> Off \<and> level_index (li_default_level i) \<le> level_index l"

definition li_is_tag_enabled :: "level \<Rightarrow> string \<Rightarrow> log_impl \<Rightarrow> bool" where
  "li_is_tag_enabled l tag i \<longleftrightarrow> l \<noteq> Off \<and>
     level_index (case li_log_levels i tag of None \<Rightarrow> li_default_level i | Some target_level \<Rightarrow> target_level) \<le> level_index l"

fun append_log_item :: "time_text \<Rightarrow> configuration \<Rightarrow> log_message \<Rightarrow> log_output \<Rightarrow> log_output option" where
  "append_log_item time_text [] message out = Some out"
| "append_log_item time_text (a # as) message out = do {
     out \<leftarrow> (if appender_enabled a (msg_level message) then append_message time_text (al_appender a) message out else Some out);
     append_log_item time_text as message out }"

text \<open>The place of the call: file, line and functions; the clock and the thread.\<close>

record log_site =
  ls_file :: string
  ls_line :: u32
  ls_function :: string
  ls_full_function :: string
  ls_now :: int
  ls_thread_id :: u64

definition message_of :: "level \<Rightarrow> string \<Rightarrow> string \<Rightarrow> log_site \<Rightarrow> log_message" where
  "message_of l tag message site =
     \<lparr>msg_level = l, msg_tag = Some (c_str tag), msg_message = Some (c_str message), msg_file = Some (ls_file site),
      msg_line = ls_line site, msg_function = Some (ls_function site), msg_full_function = Some (ls_full_function site),
      msg_time = ls_now site, msg_thread_id = ls_thread_id site\<rparr>"

definition li_log_message ::
  "time_text \<Rightarrow> level \<Rightarrow> string \<Rightarrow> string \<Rightarrow> log_site \<Rightarrow> log_impl \<Rightarrow> log_output \<Rightarrow> log_output option" where
  "li_log_message time_text l tag message site i =
     append_log_item time_text (li_configuration i) (message_of l tag message site)"

section \<open>Log\<close>

text \<open>The instance is gone once the static objects are destroyed.\<close>

record log =
  lg_alive :: bool
  lg_impl :: log_impl

definition log_configure :: "configuration \<Rightarrow> log \<Rightarrow> bool \<times> log" where
  "log_configure c s =
     (if \<not> lg_alive s then (False, s)
      else let (ok, i) = li_configure c (lg_impl s) in (ok, s\<lparr>lg_impl := i\<rparr>))"

definition log_get_configuration :: "log \<Rightarrow> configuration" where
  "log_get_configuration s = (if \<not> lg_alive s then [] else li_configuration (lg_impl s))"

definition log_set_level :: "level \<Rightarrow> log \<Rightarrow> log" where
  "log_set_level l s = (if \<not> lg_alive s then s else s\<lparr>lg_impl := li_set_level l (lg_impl s)\<rparr>)"

definition log_get_level :: "log \<Rightarrow> level" where
  "log_get_level s = (if \<not> lg_alive s then Off else li_default_level (lg_impl s))"

definition log_set_tag_level :: "level \<Rightarrow> string \<Rightarrow> log \<Rightarrow> log" where
  "log_set_tag_level l tag s = (if \<not> lg_alive s then s else s\<lparr>lg_impl := li_set_tag_level l tag (lg_impl s)\<rparr>)"

definition log_set_named_level :: "string \<Rightarrow> string \<Rightarrow> log \<Rightarrow> log" where
  "log_set_named_level name tag s =
     (case string_to_level name of
        None \<Rightarrow> s
      | Some l \<Rightarrow> if \<not> lg_alive s then s else s\<lparr>lg_impl := li_set_tag_level l tag (lg_impl s)\<rparr>)"

definition log_get_tag_level :: "string \<Rightarrow> log \<Rightarrow> level option" where
  "log_get_tag_level tag s = (if \<not> lg_alive s then None else li_get_tag_level tag (lg_impl s))"

definition log_clear_level :: "string \<Rightarrow> log \<Rightarrow> log" where
  "log_clear_level tag s = (if \<not> lg_alive s then s else s\<lparr>lg_impl := li_clear_level tag (lg_impl s)\<rparr>)"

definition log_clear_levels :: "log \<Rightarrow> log" where
  "log_clear_levels s = (if \<not> lg_alive s then s else s\<lparr>lg_impl := li_clear_levels (lg_impl s)\<rparr>)"

definition log_apply_filter_group :: "filter_group \<Rightarrow> log \<Rightarrow> log" where
  "log_apply_filter_group filters s =
     (if \<not> lg_alive s then s
      else
        (let i = li_clear_levels (li_clear_levels (lg_impl s));
             i = (case fg_default_level filters of None \<Rightarrow> i | Some l \<Rightarrow> li_set_level l i)
         in s\<lparr>lg_impl := fold (\<lambda>(tag, l). li_set_tag_level l tag) (fg_tag_levels filters) i\<rparr>))"

definition log_is_enabled :: "level \<Rightarrow> log \<Rightarrow> bool" where
  "log_is_enabled l s \<longleftrightarrow> lg_alive s \<and> li_is_enabled l (lg_impl s)"

definition log_is_tag_enabled :: "level \<Rightarrow> string \<Rightarrow> log \<Rightarrow> bool" where
  "log_is_tag_enabled l tag s \<longleftrightarrow> lg_alive s \<and> li_is_tag_enabled l tag (lg_impl s)"

definition log_message_to :: "time_text \<Rightarrow> level \<Rightarrow> string \<Rightarrow> string \<Rightarrow> log_site \<Rightarrow> log \<Rightarrow> log_output \<Rightarrow> log_output option" where
  "log_message_to time_text l tag message site s out =
     (if \<not> lg_alive s then Some out else li_log_message time_text l tag message site (lg_impl s) out)"

text \<open>The macro \<open>OLP_SDK_LOG\<close> asks first; the critical ones do not.\<close>

definition sdk_log :: "time_text \<Rightarrow> level \<Rightarrow> string \<Rightarrow> string \<Rightarrow> log_site \<Rightarrow> log \<Rightarrow> log_output \<Rightarrow> log_output option" where
  "sdk_log time_text l tag message site s out =
     (if log_is_tag_enabled l tag s then log_message_to time_text l tag message site s out else Some out)"

section \<open>Levels that decide\<close>

lemma fold_set_tag_levels:
  "'''' \<notin> fst ` set tls \<Longrightarrow> distinct (map fst tls) \<Longrightarrow>
   li_default_level (fold (\<lambda>(tag, l). li_set_tag_level l tag) tls i) = li_default_level i \<and>
   li_log_levels (fold (\<lambda>(tag, l). li_set_tag_level l tag) tls i) = li_log_levels i ++ map_of tls"
proof (induction tls arbitrary: i)
  case (Cons x tls)
  obtain tag l where x: "x = (tag, l)" by fastforce
  have "map_of tls tag = None" using Cons.prems(2) x by (auto simp: map_of_eq_None_iff)
  then show ?case
    using Cons x by (auto simp: li_set_tag_level_def map_add_def fun_eq_iff split: option.split)
qed simp

text \<open>
  C40: after filters were applied, a message is enabled by the level of its tag, by the default level of the filters
  when they have none for the tag, and by the old default level when they have no default; what the log had for
  single tags before is gone. This holds for filters that are read from a file: none is for the empty tag.
\<close>
theorem applied_filters_decide:
  assumes "lg_alive s" and "'''' \<notin> fst ` set (fg_tag_levels g)" and "distinct (map fst (fg_tag_levels g))"
  shows "log_is_tag_enabled l tag (log_apply_filter_group g s) \<longleftrightarrow>
    l \<noteq> Off \<and>
    level_index (case fg_get_tag_level tag g of
        Some t \<Rightarrow> t
      | None \<Rightarrow> (case fg_default_level g of Some d \<Rightarrow> d | None \<Rightarrow> log_get_level s)) \<le> level_index l"
proof -
  let ?i = "case fg_default_level g of None \<Rightarrow> li_clear_levels (li_clear_levels (lg_impl s))
    | Some d \<Rightarrow> li_set_level d (li_clear_levels (li_clear_levels (lg_impl s)))"
  have "li_log_levels ?i = Map.empty"
    "li_default_level ?i = (case fg_default_level g of Some d \<Rightarrow> d | None \<Rightarrow> log_get_level s)"
    using assms(1) by (simp_all add: li_clear_levels_def li_set_level_def log_get_level_def split: option.split)
  then show ?thesis
    using assms fold_set_tag_levels [OF assms(2,3), of ?i]
    by (simp add: log_is_tag_enabled_def log_apply_filter_group_def Let_def li_is_tag_enabled_def fg_get_tag_level_def
        cong: option.case_cong)
qed

text \<open>A filter for the empty tag, which can only be set by a call, sets the default level of the log instead.\<close>

lemma empty_tag_filter_sets_default:
  assumes "lg_alive s" and "'''' \<notin> fst ` set tls" and "distinct (map fst tls)"
  shows "log_get_level (log_apply_filter_group \<lparr>fg_default_level = d, fg_tag_levels = ('''', l) # tls\<rparr> s) = l"
  using assms fold_set_tag_levels [OF assms(2,3)]
  by (simp add: log_get_level_def log_apply_filter_group_def Let_def li_set_tag_level_def li_set_level_def)

section \<open>Reading filters\<close>

definition level_name :: "level \<Rightarrow> string" where
  "level_name l = (case l of Trace \<Rightarrow> ''trace'' | Debug \<Rightarrow> ''debug'' | Info \<Rightarrow> ''info'' | Warning \<Rightarrow> ''warning''
     | Error \<Rightarrow> ''error'' | Fatal \<Rightarrow> ''fatal'' | Off \<Rightarrow> ''off'')"

text \<open>Lines as the documentation of \<open>load\<close> describes them.\<close>

definition filter_line :: "string \<Rightarrow> level \<Rightarrow> string" where
  "filter_line tag l = tag @ '': '' @ level_name l @ [CHR 0x0A]"

definition filter_text :: "filter_group \<Rightarrow> string" where
  "filter_text g = (case fg_default_level g of None \<Rightarrow> [] | Some l \<Rightarrow> filter_line [] l) @
     concat (map (\<lambda>(tag, l). filter_line tag l) (fg_tag_levels g))"

definition plain_tag :: "string \<Rightarrow> bool" where
  "plain_tag tag \<longleftrightarrow> length tag < 1000 \<and> list_all (\<lambda>c. c \<noteq> CHR '':'' \<and> c \<noteq> CHR 0x0A \<and> c \<noteq> CHR 0x00) tag \<and>
     (tag \<noteq> [] \<longrightarrow> hd tag \<noteq> CHR ''#'' \<and> \<not> is_space (hd tag) \<and> \<not> is_space (last tag))"

declare load_lines.simps [simp del]

lemma trim_id: "(t \<noteq> [] \<Longrightarrow> \<not> is_space (hd t) \<and> \<not> is_space (last t)) \<Longrightarrow> trim t = t"
proof (cases "t = []")
  case False
  assume "t \<noteq> [] \<Longrightarrow> \<not> is_space (hd t) \<and> \<not> is_space (last t)"
  then have "\<not> is_space (hd t)" "\<not> is_space (hd (rev t))" using False by (simp_all add: hd_rev)
  then have "dropWhile is_space t = t" "dropWhile is_space (rev t) = rev t" using False
    by (simp_all add: dropWhile_eq_self_iff)
  then show ?thesis by (simp add: trim_def)
qed (simp add: trim_def)

lemma level_name_facts:
  "level_name l \<noteq> []" "\<not> is_space (hd (level_name l))" "\<not> is_space (last (level_name l))"
  "length (level_name l) \<le> 7" "CHR 0x0A \<notin> set (level_name l)" "CHR 0x00 \<notin> set (level_name l)"
  by (cases l; simp add: level_name_def is_space_def)+

lemma string_to_level_name: "string_to_level (level_name l) = Some l"
  by (cases l; simp add: level_name_def string_to_level_def equals_ignore_case_def case_insensitive_compare_def c_str_simps
      to_lower_def less_eq_char_def)

lemma trim_level: "trim ('' '' @ level_name l) = level_name l"
proof -
  have "trim ('' '' @ t) = trim t" for t by (simp add: trim_def is_space_def)
  then show ?thesis using trim_id [of "level_name l"] level_name_facts(2,3) [of l] by simp
qed

lemma get_line_append:
  assumes "CHR 0x0A \<notin> set line" and "length line \<le> 1023"
  shows "get_line (line @ CHR 0x0A # rest) = Some (line, rest)"
proof -
  have "takeWhile (\<lambda>c. c \<noteq> CHR 0x0A) (line @ CHR 0x0A # rest) = line @ []"
    using assms(1) by (subst takeWhile_append2) auto
  then show ?thesis using assms(2) by (simp add: get_line_def Let_def)
qed

lemma load_filter_line:
  assumes "plain_tag tag"
  shows "load_lines (filter_line tag l @ rest) g = load_lines rest (if tag = [] then fg_set_level l g else fg_set_tag_level l tag g)"
proof -
  let ?line = "tag @ CHR '':'' # '' '' @ level_name l"
  have tag: "CHR '':'' \<notin> set tag" "CHR 0x0A \<notin> set tag" "CHR 0x00 \<notin> set tag" "length tag < 1000"
    using assms by (auto simp: plain_tag_def list_all_iff)
  have line: "get_line (filter_line tag l @ rest) = Some (?line, rest)"
    using get_line_append [of ?line rest] tag level_name_facts(4,5) [of l] by (simp add: filter_line_def)
  have c: "c_str ?line = ?line"
    using tag level_name_facts(6) [of l] by (intro c_str_no_null) (simp add: no_null_def)
  have "\<not> is_space (hd ?line)" "hd ?line \<noteq> CHR ''#''"
    using assms by (cases tag; simp add: plain_tag_def is_space_def)+
  moreover have "\<not> is_space (last ?line)"
    using level_name_facts(1,3) [of l] by simp
  ultimately have t: "trim ?line = ?line" "hd ?line \<noteq> CHR ''#''" "?line \<noteq> []"
    using trim_id [of ?line] by simp_all
  have "takeWhile (\<lambda>d. d \<noteq> CHR '':'') ?line = tag @ []"
    using tag(1) by (subst takeWhile_append2) auto
  then have sp: "split_at_char ?line CHR '':'' = (tag, '' '' @ level_name l)"
    by (simp add: split_at_char_def Let_def)
  have "trim tag = tag" by (rule trim_id) (use assms in \<open>simp add: plain_tag_def\<close>)
  then show ?thesis
    using t trim_level [of l] string_to_level_name [of l]
    by (simp add: load_lines.simps [of "filter_line tag l @ rest"] line c sp Let_def del: append_Cons append.simps)
qed

lemma update_new: "k \<notin> fst ` set al \<Longrightarrow> AList.update k v al = al @ [(k, v)]"
  by (induction al) auto

lemma load_tag_lines:
  "list_all (\<lambda>(tag, l). plain_tag tag \<and> tag \<noteq> []) tls \<Longrightarrow> distinct (map fst (fg_tag_levels g @ tls)) \<Longrightarrow>
   load_lines (concat (map (\<lambda>(tag, l). filter_line tag l) tls) @ rest) g = load_lines rest (g\<lparr>fg_tag_levels := fg_tag_levels g @ tls\<rparr>)"
proof (induction tls arbitrary: g)
  case (Cons x tls)
  obtain tag l where x: "x = (tag, l)" by fastforce
  have new: "tag \<notin> fst ` set (fg_tag_levels g)" using Cons.prems(2) x by auto
  then have "fg_set_tag_level l tag g = g\<lparr>fg_tag_levels := fg_tag_levels g @ [(tag, l)]\<rparr>"
    by (simp add: fg_set_tag_level_def update_new)
  then show ?case
    using Cons.prems Cons.IH [of "g\<lparr>fg_tag_levels := fg_tag_levels g @ [(tag, l)]\<rparr>"] x
    by (simp add: load_filter_line)
qed simp

definition plain_filters :: "filter_group \<Rightarrow> bool" where
  "plain_filters g \<longleftrightarrow> distinct (map fst (fg_tag_levels g)) \<and> list_all (\<lambda>(tag, l). plain_tag tag \<and> tag \<noteq> []) (fg_tag_levels g)"

lemma load_filter_text:
  assumes "plain_filters g"
  shows "load_stream (filter_text g @ rest) g0 = load_lines rest g"
proof -
  let ?g = "case fg_default_level g of None \<Rightarrow> fg_clear g0 | Some l \<Rightarrow> fg_set_level l (fg_clear g0)"
  have "load_stream (filter_text g @ rest) g0 = load_lines (concat (map (\<lambda>(tag, l). filter_line tag l) (fg_tag_levels g)) @ rest) ?g"
    by (cases "fg_default_level g") (simp_all add: load_stream_def filter_text_def load_filter_line plain_tag_def)
  moreover have "fg_tag_levels ?g = []" "?g\<lparr>fg_tag_levels := fg_tag_levels g\<rparr> = g"
    by (simp_all add: fg_clear_def fg_set_level_def split: option.split)
  ultimately show ?thesis
    using load_tag_lines [of "fg_tag_levels g" ?g rest] assms by (simp add: plain_filters_def)
qed

text \<open>
  C39: filters that are written as \<open>load\<close> documents it, a line for the default level and one for each tag, are read
  back, whatever the group held before.
\<close>
theorem filters_read_back:
  assumes "plain_filters g"
  shows "load_stream (filter_text g) g0 = (True, g)"
  using load_filter_text [OF assms, of "[]" g0] by (simp add: load_lines.simps [of "[]"] get_line_def Let_def)

text \<open>
  A line with an unknown level ends the reading with a failure, but the filters of the lines before it stay, where
  \<open>load\<close> documents that they are cleared.
\<close>

lemma failed_load_keeps_filters:
  assumes "plain_filters g"
  shows "load_stream (filter_text g @ ''core: loud'' @ CHR 0x0A # rest) g0 = (False, g)"
proof -
  have "get_line (''core: loud'' @ CHR 0x0A # rest) = Some (''core: loud'', rest)"
    by (rule get_line_append) simp_all
  moreover have "c_str ''core: loud'' = ''core: loud''" "trim ''core: loud'' = ''core: loud''"
    "split_at_char ''core: loud'' CHR '':'' = (''core'', '' loud'')" "trim '' loud'' = ''loud''"
    by (simp_all add: c_str_def trim_def is_space_def split_at_char_def)
  moreover have "string_to_level ''loud'' = None"
    by (simp add: string_to_level_def equals_ignore_case_def case_insensitive_compare_def c_str_simps to_lower_def less_eq_char_def)
  ultimately have "load_lines (''core: loud'' @ CHR 0x0A # rest) g = (False, g)"
    by (simp add: load_lines.simps [of "''core: loud'' @ CHR 0x0A # rest"] Let_def del: append_Cons append.simps)
  then show ?thesis using load_filter_text [OF assms] by simp
qed

text \<open>A line of more than 1023 characters ends the reading with a success; what follows is not read.\<close>

lemma long_line_ends_load:
  assumes "plain_filters g" and "CHR 0x0A \<notin> set line" and "1023 < length line"
  shows "load_stream (filter_text g @ line @ CHR 0x0A # rest) g0 = (True, g)"
proof -
  have "takeWhile (\<lambda>c. c \<noteq> CHR 0x0A) (line @ CHR 0x0A # rest) = line @ []"
    using assms(2) by (subst takeWhile_append2) auto
  then have "get_line (line @ CHR 0x0A # rest) = None" using assms(3) by (simp add: get_line_def Let_def)
  then show ?thesis using load_filter_text [OF assms(1)] by (simp add: load_lines.simps [of "line @ CHR 0x0A # rest"])
qed

section \<open>Output\<close>

lemma append_default_lines:
  assumes "list_all (\<lambda>a. al_appender a = ConsoleAppender default_formatter) c" and "no_null tag" and "no_null message" and "l \<noteq> Off"
  shows "append_log_item time_text c (message_of l tag message site) out = Some (out\<lparr>lo_console := lo_console out @
      concat (replicate (length (filter (\<lambda>a. appender_enabled a l) c))
        (with_newline (default_level_name_map ! level_index l @ '' '' @ (if tag = [] then [] else tag @ '' - '') @ message)))\<rparr>)"
  using assms(1)
proof (induction c arbitrary: out)
  case (Cons a c)
  have "format_message time_text default_formatter (message_of l tag message site) =
      Some (default_level_name_map ! level_index l @ '' '' @ (if tag = [] then [] else tag @ '' - '') @ message)"
    using default_format_of_message [of "message_of l tag message site" tag message] assms(2-4) by (simp add: message_of_def)
  then show ?case using Cons by (simp add: message_of_def)
qed simp

text \<open>
  a message of the macros is written only when its level is enabled for its tag: the console then gets one line
  from each console appender of the level or a lower one, in the order of the appenders.
\<close>
theorem logged_message_reaches_console:
  assumes "lg_alive s" and "list_all (\<lambda>a. al_appender a = ConsoleAppender default_formatter) (li_configuration (lg_impl s))"
    and "no_null tag" and "no_null message"
  shows "sdk_log time_text l tag message site s out = Some (out\<lparr>lo_console := lo_console out @
      concat (replicate
        (if log_is_tag_enabled l tag s then length (filter (\<lambda>a. appender_enabled a l) (li_configuration (lg_impl s))) else 0)
        (with_newline (default_level_name_map ! level_index l @ '' '' @ (if tag = [] then [] else tag @ '' - '') @ message)))\<rparr>)"
proof (cases "log_is_tag_enabled l tag s")
  case True
  then have "l \<noteq> Off" by (simp add: log_is_tag_enabled_def li_is_tag_enabled_def)
  then show ?thesis
    using True assms append_default_lines [OF assms(2,3,4)]
    by (simp add: sdk_log_def log_message_to_def li_log_message_def)
qed (simp add: sdk_log_def)

text \<open>The critical macros write without asking; a message of the level \<open>Off\<close> then has no name to print.\<close>

lemma off_message_has_no_name:
  assumes "lg_alive s" and "li_configuration (lg_impl s) = \<lparr>al_log_level = lv, al_appender = ConsoleAppender default_formatter\<rparr> # c"
    and "no_null tag" and "no_null message"
  shows "log_message_to time_text Off tag message site s out = None"
  using assms default_format_of_message [of "message_of Off tag message site" tag message time_text]
  by (cases lv) (simp_all add: log_message_to_def li_log_message_def appender_enabled_def message_of_def)

section \<open>Witnesses\<close>

definition two_filters :: filter_group where
  "two_filters = \<lparr>fg_default_level = Some Error, fg_tag_levels = [(''core'', Debug), (''read'', Off)]\<rparr>"

definition fresh_log :: log where
  "fresh_log = \<lparr>lg_alive = True, lg_impl = log_impl_new\<rparr>"

lemma two_filters_plain: "plain_filters two_filters"
  by (simp add: plain_filters_def two_filters_def plain_tag_def is_space_def)

theorem filters_read_back_witness:
  "load_stream ('': error'' @ CHR 0x0A # ''core: debug'' @ CHR 0x0A # ''read: off'' @ [CHR 0x0A]) two_filters = (True, two_filters)"
  using filters_read_back [OF two_filters_plain, of two_filters]
  by (simp add: filter_text_def two_filters_def filter_line_def level_name_def)

theorem applied_filters_decide_witness:
  "log_is_tag_enabled Info ''core'' (log_apply_filter_group two_filters fresh_log) \<and>
   \<not> log_is_tag_enabled Info ''url'' (log_apply_filter_group two_filters fresh_log) \<and>
   \<not> log_is_tag_enabled Fatal ''read'' (log_apply_filter_group two_filters fresh_log)"
  using applied_filters_decide [of fresh_log two_filters Info "''core''"] applied_filters_decide [of fresh_log two_filters Info "''url''"]
    applied_filters_decide [of fresh_log two_filters Fatal "''read''"]
  by (simp add: two_filters_def fresh_log_def fg_get_tag_level_def)

definition here :: log_site where
  "here = \<lparr>ls_file = ''f.cpp'', ls_line = 1, ls_function = ''f'', ls_full_function = ''void f()'', ls_now = 0, ls_thread_id = 0\<rparr>"

theorem logged_message_reaches_console_witness:
  "sdk_log (\<lambda>_ _ _. []) Info ''core'' ''up'' here fresh_log \<lparr>lo_console = [], lo_files = \<lambda>_. []\<rparr> =
     Some \<lparr>lo_console = ''[INFO] core - up'' @ [CHR 0x0A], lo_files = \<lambda>_. []\<rparr>"
  using logged_message_reaches_console [of fresh_log "''core''" "''up''" "\<lambda>_ _ _. []" Info here "\<lparr>lo_console = [], lo_files = \<lambda>_. []\<rparr>"]
  by (simp add: fresh_log_def log_impl_new_def default_configuration_def add_appender_def no_null_def log_is_tag_enabled_def
      li_is_tag_enabled_def appender_enabled_def default_level_name_map_def with_newline_def)

end
