(* ===== verification/ContextScope.thy ===== *)
theory ContextScope
  imports Prelude
begin

text \<open>
  The scopes of \<open>src/context/Context.cpp\<close>, on platforms other than Android: the callbacks run when the first scope is
  made and when the last one is destroyed. A callback is represented by a number; the calls are recorded.
\<close>

datatype context_call = Initialized nat | Deinitialized nat

record context_data =
  cd_init_vector :: "nat list"
  cd_deinit_vector :: "nat list"
  cd_instance_counter :: u64
  cd_deinitializing :: bool
  cd_calls :: "context_call list"

definition context_new :: context_data where
  "context_new = \<lparr>cd_init_vector = [], cd_deinit_vector = [], cd_instance_counter = 0, cd_deinitializing = False, cd_calls = []\<rparr>"

definition context_initialize :: "context_data \<Rightarrow> context_data" where
  "context_initialize d = d\<lparr>cd_calls := cd_calls d @ map Initialized (cd_init_vector d)\<rparr>"

definition context_deinitialize :: "context_data \<Rightarrow> context_data" where
  "context_deinitialize d =
     (if cd_deinitializing d then d else d\<lparr>cd_calls := cd_calls d @ map Deinitialized (cd_deinit_vector d)\<rparr>)"

definition add_initialize_callbacks :: "nat \<Rightarrow> nat \<Rightarrow> context_data \<Rightarrow> context_data" where
  "add_initialize_callbacks init_callback deinit_callback d =
     d\<lparr>cd_init_vector := cd_init_vector d @ [init_callback], cd_deinit_vector := cd_deinit_vector d @ [deinit_callback]\<rparr>"

text \<open>The constructor and the destructor of a scope; \<^term>\<open>None\<close> is a failed assertion.\<close>

definition scope_construct :: "context_data \<Rightarrow> context_data option" where
  "scope_construct d =
     (if cd_instance_counter d = - 1 then None
      else
        (let n = cd_instance_counter d; d = d\<lparr>cd_instance_counter := n + 1\<rparr>
         in Some (if n = 0 then context_initialize d else d)))"

definition scope_destruct :: "context_data \<Rightarrow> context_data option" where
  "scope_destruct d =
     (if cd_instance_counter d = 0 then None
      else
        (let n = cd_instance_counter d - 1; d = d\<lparr>cd_instance_counter := n\<rparr>
         in Some (if n = 0 then context_deinitialize d else d)))"

text \<open>Callbacks are added as the program starts; scopes are made and destroyed under the lock.\<close>

datatype context_action = ConstructScope | DestructScope

fun context_step :: "context_action \<Rightarrow> context_data \<Rightarrow> context_data option" where
  "context_step ConstructScope d = scope_construct d"
| "context_step DestructScope d = scope_destruct d"

fun context_run :: "context_action list \<Rightarrow> context_data \<Rightarrow> context_data option" where
  "context_run [] d = Some d"
| "context_run (e # es) d = Option.bind (context_step e d) (context_run es)"

section \<open>Initialised while there is a scope\<close>

text \<open>The rounds of calls: all initialisations, then all deinitialisations, again and again.\<close>

definition context_round :: "context_data \<Rightarrow> context_call list" where
  "context_round d = map Initialized (cd_init_vector d) @ map Deinitialized (cd_deinit_vector d)"

definition context_ok :: "context_data \<Rightarrow> context_data \<Rightarrow> bool" where
  "context_ok d0 d \<longleftrightarrow> cd_init_vector d = cd_init_vector d0 \<and> cd_deinit_vector d = cd_deinit_vector d0 \<and> \<not> cd_deinitializing d \<and>
     (\<exists>rounds. cd_calls d = concat (replicate rounds (context_round d0)) @
        (if cd_instance_counter d = 0 then [] else map Initialized (cd_init_vector d0)))"

lemma replicate_round: "concat (replicate n r) @ r = concat (replicate (Suc n) r)"
  by (induction n) auto

lemma context_step_ok:
  assumes "context_ok d0 d" and "context_step e d = Some d'"
  shows "context_ok d0 d'"
proof (cases e)
  case ConstructScope
  then have d: "cd_instance_counter d \<noteq> - 1" "d' = (let n = cd_instance_counter d; d = d\<lparr>cd_instance_counter := n + 1\<rparr>
      in if n = 0 then context_initialize d else d)"
    using assms(2) by (simp_all add: scope_construct_def Let_def split: if_split_asm)
  have "cd_instance_counter d + 1 \<noteq> 0" using d(1) by (simp add: add_eq_0_iff2)
  then show ?thesis using assms(1) d(2) by (auto simp: context_ok_def Let_def context_initialize_def)
next
  case DestructScope
  then have d: "cd_instance_counter d \<noteq> 0" "d' = (let n = cd_instance_counter d - 1; d = d\<lparr>cd_instance_counter := n\<rparr>
      in if n = 0 then context_deinitialize d else d)"
    using assms(2) by (simp_all add: scope_destruct_def Let_def split: if_split_asm)
  obtain rounds where r: "cd_calls d = concat (replicate rounds (context_round d0)) @ map Initialized (cd_init_vector d0)"
    using assms(1) d(1) by (auto simp: context_ok_def)
  show ?thesis
  proof (cases "cd_instance_counter d = 1")
    case True
    have "cd_calls d' = concat (replicate (Suc rounds) (context_round d0))"
      using True assms(1) d(2) r
      by (simp only: replicate_round [symmetric]) (simp add: context_ok_def Let_def context_deinitialize_def context_round_def)
    moreover have "cd_init_vector d' = cd_init_vector d0 \<and> cd_deinit_vector d' = cd_deinit_vector d0 \<and> \<not> cd_deinitializing d' \<and>
        cd_instance_counter d' = 0"
      using True assms(1) d(2) by (simp add: context_ok_def Let_def context_deinitialize_def)
    ultimately show ?thesis unfolding context_ok_def by (intro conjI exI [of _ "Suc rounds"]) simp_all
  next
    case False
    then show ?thesis using assms(1) d by (auto simp: context_ok_def Let_def)
  qed
qed

lemma context_run_ok: "context_ok d0 d \<Longrightarrow> context_run es d = Some d' \<Longrightarrow> context_ok d0 d'"
  by (induction es arbitrary: d) (auto dest: context_step_ok split: Option.bind_split_asm)

text \<open>
  whatever scopes are made and destroyed, the callbacks are called in whole rounds, each one first initialising
  and then deinitialising, and the last round is open exactly as long as there is a scope.
\<close>
theorem context_initialised_while_scoped:
  assumes "context_run es d0 = Some d" and "cd_instance_counter d0 = 0" and "\<not> cd_deinitializing d0" and "cd_calls d0 = []"
  shows "\<exists>rounds. cd_calls d = concat (replicate rounds (context_round d0)) @
    (if cd_instance_counter d = 0 then [] else map Initialized (cd_init_vector d0))"
proof -
  have "context_ok d0 d0" using assms(2-4) by (auto simp: context_ok_def intro: exI [of _ 0])
  from context_run_ok [OF this assms(1)] show ?thesis by (simp add: context_ok_def)
qed

lemma context_initialised_while_scoped_witness:
  "\<exists>d rounds. context_run [ConstructScope, ConstructScope, DestructScope] (add_initialize_callbacks 7 8 context_new) = Some d \<and>
     cd_instance_counter d = 1 \<and> cd_calls d = concat (replicate rounds [Initialized 7, Deinitialized 8]) @ [Initialized 7]"
proof -
  let ?d0 = "add_initialize_callbacks 7 8 context_new"
  obtain d where d: "context_run [ConstructScope, ConstructScope, DestructScope] ?d0 = Some d" "cd_instance_counter d = 1"
    by (simp add: scope_construct_def scope_destruct_def Let_def add_initialize_callbacks_def context_new_def context_initialize_def)
  have "\<exists>rounds. cd_calls d = concat (replicate rounds (context_round ?d0)) @
      (if cd_instance_counter d = 0 then [] else map Initialized (cd_init_vector ?d0))"
    by (rule context_initialised_while_scoped [OF d(1)]) (simp_all add: add_initialize_callbacks_def context_new_def)
  then show ?thesis using d by (simp add: context_round_def add_initialize_callbacks_def context_new_def)
qed

end
