(* ===== verification/Spec2Isabelle.thy ===== *)
theory Spec2Isabelle
  imports TileTree TaskContext OlpClient Hrn CatalogModel ReadModel ReadOrigin ReadOffline TokenProvider StreamTypes WriteBatches AutoFlush
    NetworkCurl TaskScheduler Logging ContextScope
begin

end
